(* ===== verification/Prelude.thy ===== *)
theory Prelude
  imports Main "HOL-Library.AList" "HOL-Library.Multiset"
begin

text \<open>
  Shared material of the development: the collections of rewrite rules the component proofs
  use, hash maps with an unspecified iteration order, the ordered pairs visited by a nested
  loop, and the generic interface of a component that is driven by a sequence of events and
  keeps an invariant.

  The C++ type \<open>int\<close> is modelled by \<open>int\<close>: signed overflow is undefined behaviour in C++, so
  a run of the program that means anything never leaves the range; the bounds under which the
  arithmetic of the real-time part stays inside the range are theorems of
  \<open>Arbiter\<close>. The C++ type \<open>double\<close> is modelled by exact rationals.
\<close>

named_theorems board_simps \<open>lookup laws of the board\<close>
named_theorems inv_intros \<open>preservation of the component invariants\<close>
named_theorems frame_simps \<open>fields an operation leaves alone\<close>

section \<open>Machine constants\<close>

definition INT_MAX :: int where
  "INT_MAX = 2147483647"

definition INT_MIN :: int where
  "INT_MIN = - 2147483648"

text \<open>A value that an \<open>int\<close> variable of the program can hold.\<close>

definition fits_int :: "int \<Rightarrow> bool" where
  "fits_int i \<longleftrightarrow> INT_MIN \<le> i \<and> i \<le> INT_MAX"

section \<open>Hash maps\<close>

text \<open>
  A \<open>std::unordered_map\<close> is an association list with distinct keys. Assignment through
  \<open>operator[]\<close> is \<^const>\<open>AList.update\<close>, \<open>erase\<close> is \<^const>\<open>AList.delete\<close>, \<open>find\<close> is
  \<^const>\<open>map_of\<close>. The order in which a range-for loop visits the entries is unspecified in
  C++: a loop visits \<open>iter ord m\<close>, where \<open>ord n\<close> is some permutation of the first \<open>n\<close> numbers.
\<close>

type_synonym ('k, 'v) umap = "('k \<times> 'v) list"

definition iter :: "(nat \<Rightarrow> nat list) \<Rightarrow> 'a list \<Rightarrow> 'a list" where
  "iter ord xs = map (\<lambda>i. xs ! i) (ord (length xs))"

definition iteration_order :: "(nat \<Rightarrow> nat list) \<Rightarrow> bool" where
  "iteration_order ord \<longleftrightarrow> (\<forall>n. mset (ord n) = mset [0..<n])"

lemma mset_iter:
  assumes "iteration_order ord"
  shows "mset (iter ord xs) = mset xs"
proof -
  have "mset (iter ord xs) = image_mset (\<lambda>i. xs ! i) (mset (ord (length xs)))"
    by (simp add: iter_def)
  also have "\<dots> = mset (map (\<lambda>i. xs ! i) [0..<length xs])"
    using assms by (simp add: iteration_order_def)
  also have "\<dots> = mset xs" by (simp only: map_nth)
  finally show ?thesis .
qed

lemma set_iter: "iteration_order ord \<Longrightarrow> set (iter ord xs) = set xs"
  by (metis mset_iter set_mset_mset)

lemma distinct_iter: "iteration_order ord \<Longrightarrow> distinct (iter ord xs) = distinct xs"
  by (metis mset_iter mset_eq_imp_distinct_iff)

lemma iteration_order_upt: "iteration_order (\<lambda>n. [0..<n])"
  by (simp add: iteration_order_def)

lemma iteration_order_rev: "iteration_order (\<lambda>n. rev [0..<n])"
  by (simp add: iteration_order_def)

lemma iter_upt [simp]: "iter (\<lambda>n. [0..<n]) xs = xs"
  by (simp add: iter_def map_nth)

lemma map_of_update_iff [simp]:
  "map_of (AList.update k v m) x = (if x = k then Some v else map_of m x)"
  by (simp add: update_conv')

lemma map_of_delete_iff [simp]:
  "map_of (AList.delete k m) x = (if x = k then None else map_of m x)"
  by (simp add: delete_conv')

section \<open>Nested loops over pairs\<close>

text \<open>
  The pairs \<open>(xs[i], xs[j])\<close> with \<open>i < j\<close>, in the order in which the loops
  \<open>for i \<dots> for j = i + 1 \<dots>\<close> visit them.
\<close>

fun pairs :: "'a list \<Rightarrow> ('a \<times> 'a) list" where
  "pairs [] = []"
| "pairs (x # xs) = map (Pair x) xs @ pairs xs"

lemma set_pairs:
  "set (pairs xs) = {(xs ! i, xs ! j) | i j. i < j \<and> j < length xs}"
proof (induction xs)
  case Nil
  then show ?case by simp
next
  case (Cons x xs)
  let ?R = "{((x # xs) ! i, (x # xs) ! j) | i j. i < j \<and> j < length (x # xs)}"
  have "?R = Pair x ` set xs \<union> set (pairs xs)" (is "_ = ?L")
  proof (intro set_eqI iffI)
    fix y assume "y \<in> ?R"
    then obtain i j where y: "y = ((x # xs) ! i, (x # xs) ! j)" and ij: "i < j" "j < Suc (length xs)"
      by auto
    then obtain j' where j': "j = Suc j'" "j' < length xs" by (cases j) auto
    show "y \<in> ?L"
    proof (cases i)
      case 0
      with y j' show ?thesis by simp
    next
      case (Suc i')
      with y ij j' show ?thesis using Cons.IH by auto
    qed
  next
    fix y assume "y \<in> ?L"
    then show "y \<in> ?R"
    proof
      assume "y \<in> Pair x ` set xs"
      then obtain k where "y = ((x # xs) ! 0, (x # xs) ! Suc k)" "k < length xs"
        by (auto simp: in_set_conv_nth)
      then show ?thesis
        unfolding mem_Collect_eq by (intro exI [of _ 0] exI [of _ "Suc k"]) simp
    next
      assume "y \<in> set (pairs xs)"
      then obtain i j where "y = ((x # xs) ! Suc i, (x # xs) ! Suc j)" "i < j" "j < length xs"
        using Cons.IH by auto
      then show ?thesis
        unfolding mem_Collect_eq by (intro exI [of _ "Suc i"] exI [of _ "Suc j"]) simp
    qed
  qed
  then show ?case by simp
qed

lemma pairs_fst_mem: "(x, y) \<in> set (pairs xs) \<Longrightarrow> x \<in> set xs"
  by (auto simp: set_pairs)

lemma pairs_snd_mem: "(x, y) \<in> set (pairs xs) \<Longrightarrow> y \<in> set xs"
  by (auto simp: set_pairs)

lemma pairs_either:
  assumes "x \<in> set xs" "y \<in> set xs" "x \<noteq> y"
  shows "(x, y) \<in> set (pairs xs) \<or> (y, x) \<in> set (pairs xs)"
  using assms by (induction xs) auto

lemma pairs_sorted:
  assumes "sorted (map f xs)" "(x, y) \<in> set (pairs xs)"
  shows "f x \<le> f y"
  using assms by (induction xs) auto

lemma sorted_concat_blocks:
  fixes f :: "'b \<Rightarrow> 'c::linorder" and g :: "'a \<Rightarrow> 'b list"
  assumes "\<And>x y. x \<in> set xs \<Longrightarrow> y \<in> set (g x) \<Longrightarrow> f y = h x" and "sorted (map h xs)"
  shows "sorted (map f (concat (map g xs)))"
  using assms
proof (induction xs)
  case Nil
  then show ?case by simp
next
  case (Cons x xs)
  have "map f (g x) = replicate (length (g x)) (h x)"
    using Cons.prems(1) by (intro replicate_eqI) auto
  moreover have "sorted (map f (concat (map g xs)))" using Cons by simp
  moreover have "h x \<le> f y" if "z \<in> set xs" "y \<in> set (g z)" for y z
    using that Cons.prems(1) [of z y] Cons.prems(2) by simp
  ultimately show ?case by (auto simp: sorted_append)
qed

lemma ex_nat_iff: "(\<exists>k::nat. P k) \<longleftrightarrow> P 0 \<or> (\<exists>k. P (Suc k))"
  by (metis not0_implies_Suc)

lemma in_concat_map: "q \<in> set (concat (map f xs)) \<longleftrightarrow> (\<exists>x \<in> set xs. q \<in> set (f x))"
  by auto

lemma find_SomeD: "find P xs = Some x \<Longrightarrow> x \<in> set xs \<and> P x"
  by (induction xs) (auto split: if_splits)

section \<open>Folds\<close>

lemma fold_invariant_on:
  assumes "P s" and "\<And>x s. x \<in> set xs \<Longrightarrow> P s \<Longrightarrow> P (f x s)"
  shows "P (fold f xs s)"
  using assms by (induction xs arbitrary: s) auto

lemma foldl_invariant_on:
  assumes "P s" and "\<And>x s. x \<in> set xs \<Longrightarrow> P s \<Longrightarrow> P (f s x)"
  shows "P (foldl f s xs)"
  using assms by (induction xs arbitrary: s) auto

lemma fold_field_unchanged:
  assumes "\<And>x s. x \<in> set xs \<Longrightarrow> g (f x s) = g s"
  shows "g (fold f xs s) = g s"
  using assms by (induction xs arbitrary: s) auto

section \<open>Operations that can throw\<close>

text \<open>A value of type \<open>'e + 'a\<close> is a thrown exception on the left or a result on the right.\<close>

definition sbind :: "'e + 'a \<Rightarrow> ('a \<Rightarrow> 'e + 'b) \<Rightarrow> 'e + 'b" where
  "sbind x f = (case x of Inl e \<Rightarrow> Inl e | Inr v \<Rightarrow> f v)"

lemma sbind_simps [simp]: "sbind (Inl e) f = Inl e" "sbind (Inr v) f = f v"
  by (simp_all add: sbind_def)

lemma sbind_Inr_iff: "sbind x f = Inr y \<longleftrightarrow> (\<exists>v. x = Inr v \<and> f v = Inr y)"
  by (cases x) auto

fun mapE :: "('a \<Rightarrow> 'e + 'b) \<Rightarrow> 'a list \<Rightarrow> 'e + 'b list" where
  "mapE f [] = Inr []"
| "mapE f (x # xs) = sbind (f x) (\<lambda>y. sbind (mapE f xs) (\<lambda>ys. Inr (y # ys)))"

lemma mapE_Inr: "(\<And>x. x \<in> set xs \<Longrightarrow> f x = Inr (g x)) \<Longrightarrow> mapE f xs = Inr (map g xs)"
  by (induction xs) auto

lemma mapE_roundtrip:
  assumes "\<And>x. x \<in> set xs \<Longrightarrow> \<exists>y. f x = Inr y \<and> g y = Inr x"
  shows "\<exists>ys. mapE f xs = Inr ys \<and> mapE g ys = Inr xs"
  using assms
proof (induction xs)
  case Nil
  then show ?case by simp
next
  case (Cons x xs)
  obtain y where "f x = Inr y" "g y = Inr x" using Cons.prems by auto
  moreover obtain ys where "mapE f xs = Inr ys" "mapE g ys = Inr xs" using Cons by auto
  ultimately show ?case by auto
qed

section \<open>Components driven by events\<close>

text \<open>
  The contract of a component that reacts to a sequence of events: a step function, an
  invariant, and the guard under which an event keeps the invariant. The lemmas below are
  proved once and used for every component that is interpreted as an instance.
\<close>

locale guarded_steps =
  fixes step :: "'e \<Rightarrow> 's \<Rightarrow> 's"
    and invar :: "'s \<Rightarrow> bool"
    and guard :: "'e \<Rightarrow> bool"
  assumes step_invar: "invar s \<Longrightarrow> guard e \<Longrightarrow> invar (step e s)"
begin

lemma run_invar:
  "invar s \<Longrightarrow> list_all guard es \<Longrightarrow> invar (fold step es s)"
  by (induction es arbitrary: s) (auto intro: step_invar)

lemma run_prefix_invar:
  assumes "invar s" and "list_all guard es"
  shows "invar (fold step (take n es) s)"
  using assms(2) by (intro run_invar [OF assms(1)]) (auto simp: list_all_iff dest: in_set_takeD)

end

text \<open>A step that also never decreases a measure taken in a preorder, such as a clock.\<close>

locale monotone_steps = guarded_steps step invar guard
  for step :: "'e \<Rightarrow> 's \<Rightarrow> 's" and invar :: "'s \<Rightarrow> bool" and guard :: "'e \<Rightarrow> bool" +
  fixes clock :: "'s \<Rightarrow> 't::order"
  assumes step_clock: "invar s \<Longrightarrow> guard e \<Longrightarrow> clock s \<le> clock (step e s)"
begin

lemma run_clock:
  "invar s \<Longrightarrow> list_all guard es \<Longrightarrow> clock s \<le> clock (fold step es s)"
proof (induction es arbitrary: s)
  case Nil
  then show ?case by simp
next
  case (Cons e es)
  then have "clock s \<le> clock (step e s)" and "invar (step e s)"
    by (auto intro: step_clock step_invar)
  moreover from this Cons have "clock (step e s) \<le> clock (fold step es (step e s))" by auto
  ultimately show ?case by auto
qed

end

end
