(* ===== verification/Json.thy ===== *)
theory Json
  imports Complex_Main Prelude "HOL-Library.List_Lexorder" "HOL-Library.Char_ord"
begin

text \<open>
  What the program uses of \<open>nlohmann::json\<close>: the values, \<open>at\<close>, \<open>value\<close>, the conversions
  \<open>get<int>\<close>, \<open>get<double>\<close>, \<open>get<bool>\<close>, \<open>get<std::string>\<close>, and iteration over the elements.
  A thrown exception is a value of \<open>json_error\<close>; the text of \<open>what()\<close> is a parameter of the
  definitions that use it. \<open>get<int>\<close> narrows a 64-bit number to 32 bits by wrap-around. \<open>dump\<close> is a
  parameter too, total where its text is only compared with what \<open>parse\<close> returns; where a string of
  unknown origin is printed, \<open>dumpStrict\<close> adds the exception for text that is not UTF-8.
\<close>

datatype json =
    JNull
  | JBool bool
  | JInt int
  | JFloat rat
  | JStr string
  | JArr "json list"
  | JObj "(string \<times> json) list"

datatype json_error =
    TypeError
  | OutOfRange string
  | ParseError
  | RuntimeError string

definition jat :: "string \<Rightarrow> json \<Rightarrow> json_error + json" where
  "jat k j = (case j of JObj kvs \<Rightarrow> (case map_of kvs k of None \<Rightarrow> Inl (OutOfRange k) | Some v \<Rightarrow> Inr v)
     | _ \<Rightarrow> Inl TypeError)"

definition jvalue :: "string \<Rightarrow> json \<Rightarrow> json \<Rightarrow> json_error + json" where
  "jvalue k dflt j = (case j of JObj kvs \<Rightarrow> (case map_of kvs k of None \<Rightarrow> Inr dflt | Some v \<Rightarrow> Inr v)
     | _ \<Rightarrow> Inl TypeError)"

definition jset :: "string \<Rightarrow> json \<Rightarrow> json \<Rightarrow> json_error + json" where
  "jset k v j = (case j of JObj kvs \<Rightarrow> Inr (JObj (AList.update k v kvs)) | JNull \<Rightarrow> Inr (JObj [(k, v)])
     | _ \<Rightarrow> Inl TypeError)"

definition wrap32 :: "int \<Rightarrow> int" where
  "wrap32 i = (i + 2147483648) mod 4294967296 - 2147483648"

definition truncRat :: "rat \<Rightarrow> int" where
  "truncRat r = (if r < 0 then - \<lfloor>- r\<rfloor> else \<lfloor>r\<rfloor>)"

definition getInt :: "json \<Rightarrow> json_error + int" where
  "getInt j = (case j of JInt i \<Rightarrow> Inr (wrap32 i) | JFloat r \<Rightarrow> Inr (wrap32 (truncRat r))
     | JBool b \<Rightarrow> Inr (if b then 1 else 0) | _ \<Rightarrow> Inl TypeError)"

definition getDouble :: "json \<Rightarrow> json_error + rat" where
  "getDouble j = (case j of JInt i \<Rightarrow> Inr (of_int i) | JFloat r \<Rightarrow> Inr r | _ \<Rightarrow> Inl TypeError)"

definition getBool :: "json \<Rightarrow> json_error + bool" where
  "getBool j = (case j of JBool b \<Rightarrow> Inr b | _ \<Rightarrow> Inl TypeError)"

definition getString :: "json \<Rightarrow> json_error + string" where
  "getString j = (case j of JStr s \<Rightarrow> Inr s | _ \<Rightarrow> Inl TypeError)"

definition jelems :: "json \<Rightarrow> json list" where
  "jelems j = (case j of JArr xs \<Rightarrow> xs | JObj kvs \<Rightarrow> map snd kvs | JNull \<Rightarrow> [] | x \<Rightarrow> [x])"

text \<open>
  An object keeps its members in the order of their keys and no key twice; \<open>canon\<close> brings a value
  into that form, which is what comes back from \<open>parse(dump(j))\<close>.
\<close>

fun canon :: "json \<Rightarrow> json" where
  "canon (JArr xs) = JArr (map canon xs)"
| "canon (JObj kvs) = JObj (sort_key fst (AList.clearjunk (map (\<lambda>(k, v). (k, canon v)) kvs)))"
| "canon j = j"

section \<open>Text that can be printed\<close>

text \<open>
  Well-formed UTF-8, without overlong forms, surrogates and numbers beyond the last plane. Both
  the strict \<open>dump\<close> of the JSON library and the WebSocket library test text for it.
\<close>

definition byteIn :: "nat \<Rightarrow> nat \<Rightarrow> char \<Rightarrow> bool" where
  "byteIn lo hi c \<longleftrightarrow> lo \<le> of_char c \<and> of_char c \<le> hi"

definition trail :: "char \<Rightarrow> bool" where
  "trail = byteIn 0x80 0xBF"

fun validUtf8 :: "string \<Rightarrow> bool" where
  "validUtf8 [] = True"
| "validUtf8 (a # cs) =
     (if byteIn 0 0x7F a then validUtf8 cs
      else if byteIn 0xC2 0xDF a then (case cs of b # rest \<Rightarrow> trail b \<and> validUtf8 rest | _ \<Rightarrow> False)
      else if byteIn 0xE0 0xEF a then
        (case cs of b # c # rest \<Rightarrow>
           byteIn (if byteIn 0xE0 0xE0 a then 0xA0 else 0x80) (if byteIn 0xED 0xED a then 0x9F else 0xBF) b \<and>
           trail c \<and> validUtf8 rest
         | _ \<Rightarrow> False)
      else if byteIn 0xF0 0xF4 a then
        (case cs of b # c # d # rest \<Rightarrow>
           byteIn (if byteIn 0xF0 0xF0 a then 0x90 else 0x80) (if byteIn 0xF4 0xF4 a then 0x8F else 0xBF) b \<and>
           trail c \<and> trail d \<and> validUtf8 rest
         | _ \<Rightarrow> False)
      else False)"

declare validUtf8.simps(2) [simp del]

definition ascii :: "string \<Rightarrow> bool" where
  "ascii = list_all (byteIn 0 0x7F)"

lemma validUtf8_ascii_append: "ascii s \<Longrightarrow> validUtf8 (s @ t) = validUtf8 t"
  by (induction s) (simp_all add: ascii_def validUtf8.simps(2))

lemma validUtf8_ascii: "ascii s \<Longrightarrow> validUtf8 s"
  using validUtf8_ascii_append [of s "[]"] by simp

fun json_utf8 :: "json \<Rightarrow> bool" where
  "json_utf8 (JStr s) = validUtf8 s"
| "json_utf8 (JArr xs) = list_all json_utf8 xs"
| "json_utf8 (JObj kvs) = list_all (\<lambda>(k, v). validUtf8 k \<and> json_utf8 v) kvs"
| "json_utf8 j = True"

definition dumpStrict :: "(json \<Rightarrow> string) \<Rightarrow> json \<Rightarrow> json_error + string" where
  "dumpStrict dump j = (if json_utf8 j then Inr (dump j) else Inl TypeError)"

text \<open>
  The text of a caught exception. That of a parse error quotes what was read, so it depends on the
  text that was parsed.
\<close>

definition exceptionText :: "(json_error \<Rightarrow> string) \<Rightarrow> (string \<Rightarrow> string) \<Rightarrow> string \<Rightarrow> json_error \<Rightarrow> string" where
  "exceptionText what parseWhat read ex = (if ex = ParseError then parseWhat read else what ex)"

section \<open>The canonical form\<close>

lemma map_of_sort_key:
  assumes "distinct (map fst xs)"
  shows "map_of (sort_key fst xs) = map_of xs"
proof -
  have "distinct (map fst (sort_key fst xs))"
    using assms by (metis mset_map mset_sort mset_eq_imp_distinct_iff)
  then show ?thesis using assms by (intro map_of_eqI) (auto simp: map_of_eq_Some_iff)
qed

lemma map_of_canon:
  "map_of (sort_key fst (AList.clearjunk (map (\<lambda>(k, v). (k, canon v)) kvs))) k = map_option canon (map_of kvs k)"
  by (simp add: map_of_sort_key distinct_clearjunk map_of_clearjunk map_of_map del: canon.simps)

lemma jat_canon: "jat k (canon (JObj kvs)) = (case map_of kvs k of None \<Rightarrow> Inl (OutOfRange k) | Some v \<Rightarrow> Inr (canon v))"
  by (simp add: jat_def map_of_canon split: option.split)

lemma jvalue_canon: "jvalue k d (canon (JObj kvs)) = (case map_of kvs k of None \<Rightarrow> Inr d | Some v \<Rightarrow> Inr (canon v))"
  by (simp add: jvalue_def map_of_canon split: option.split)

lemma wrap32_fits [simp]: "fits_int i \<Longrightarrow> wrap32 i = i"
  by (simp add: wrap32_def fits_int_def INT_MAX_def INT_MIN_def)

lemma wrap32_range: "fits_int (wrap32 i)"
  using pos_mod_bound [of 4294967296 "i + 2147483648"] pos_mod_sign [of 4294967296 "i + 2147483648"]
  by (simp add: wrap32_def fits_int_def INT_MAX_def INT_MIN_def)

lemma get_simps [simp]:
  "getInt (JInt i) = Inr (wrap32 i)" "getDouble (JFloat r) = Inr r" "getBool (JBool b) = Inr b"
  "getString (JStr s) = Inr s" "jelems (JArr xs) = xs"
  "jat k (JObj kvs) = (case map_of kvs k of None \<Rightarrow> Inl (OutOfRange k) | Some v \<Rightarrow> Inr v)"
  "jvalue k d (JObj kvs) = (case map_of kvs k of None \<Rightarrow> Inr d | Some v \<Rightarrow> Inr v)"
  by (simp_all add: getInt_def getDouble_def getBool_def getString_def jelems_def jat_def jvalue_def)

section \<open>Tables of names\<close>

text \<open>
  The codecs translate enumerations by a hash map from value to name: \<open>at\<close> for encoding, a scan
  for decoding. What makes such a table correct is that neither values nor names repeat; then
  the scan has at most one hit and its result does not depend on the order of the entries.
\<close>

definition nameOf :: "('a \<times> string) list \<Rightarrow> 'a \<Rightarrow> json_error + string" where
  "nameOf table x = (case map_of table x of None \<Rightarrow> Inl (OutOfRange []) | Some n \<Rightarrow> Inr n)"

definition fromName :: "('a \<times> string) list \<Rightarrow> string \<Rightarrow> string \<Rightarrow> json_error + 'a" where
  "fromName table msg name =
     (case find (\<lambda>(x, n). n = name) table of None \<Rightarrow> Inl (RuntimeError (msg @ name)) | Some (x, n) \<Rightarrow> Inr x)"

lemma find_name_iff:
  "distinct (map snd t) \<Longrightarrow> find (\<lambda>(x, k). k = n) t = Some p \<longleftrightarrow> p \<in> set t \<and> snd p = n"
  by (induction t) force+

locale name_table =
  fixes table :: "('a \<times> string) list" and msg :: string
  assumes keys: "distinct (map fst table)" and names: "distinct (map snd table)"
begin

lemma name_roundtrip:
  assumes "x \<in> fst ` set table"
  shows "\<exists>n. nameOf table x = Inr n \<and> fromName table msg n = Inr x"
proof -
  obtain n where mem: "(x, n) \<in> set table" using assms by auto
  then have "nameOf table x = Inr n" using keys by (simp add: nameOf_def)
  moreover have "find (\<lambda>(y, k). k = n) table = Some (x, n)" using mem by (simp add: find_name_iff [OF names])
  ultimately show ?thesis by (auto simp: fromName_def)
qed

lemma fromName_perm:
  assumes "mset table' = mset table"
  shows "fromName table' msg n = fromName table msg n"
proof -
  have "distinct (map snd table')" using names assms by (metis mset_eq_imp_distinct_iff mset_map)
  moreover have "set table' = set table" using assms by (rule mset_eq_setD)
  ultimately have "find (\<lambda>(y, k). k = n) table' = Some p \<longleftrightarrow> find (\<lambda>(y, k). k = n) table = Some p" for p
    by (simp add: find_name_iff names)
  then have "find (\<lambda>(y, k). k = n) table' = find (\<lambda>(y, k). k = n) table"
    by (metis option.exhaust)
  then show ?thesis by (simp add: fromName_def)
qed

lemma fromName_Inr: "fromName table msg n = Inr x \<longleftrightarrow> (x, n) \<in> set table"
proof
  assume "fromName table msg n = Inr x"
  then obtain k where "find (\<lambda>(y, k). k = n) table = Some (x, k)"
    by (auto simp: fromName_def split: option.splits)
  then show "(x, n) \<in> set table" by (auto simp: find_name_iff [OF names])
next
  assume "(x, n) \<in> set table"
  then have "find (\<lambda>(y, k). k = n) table = Some (x, n)" by (simp add: find_name_iff [OF names])
  then show "fromName table msg n = Inr x" by (simp add: fromName_def)
qed

end

section \<open>Codecs\<close>

text \<open>The contract of a codec: what is well formed survives encoding and decoding.\<close>

locale codec =
  fixes enc :: "'a \<Rightarrow> json_error + json" and dec :: "json \<Rightarrow> json_error + 'a" and ok :: "'a \<Rightarrow> bool"
  assumes roundtrip: "ok x \<Longrightarrow> \<exists>j. enc x = Inr j \<and> dec j = Inr x"
begin

lemma enc_inj: "ok x \<Longrightarrow> ok y \<Longrightarrow> enc x = enc y \<Longrightarrow> x = y"
  using roundtrip by (metis sum.inject(2))

lemma list_roundtrip:
  assumes "\<And>x. x \<in> set xs \<Longrightarrow> ok x"
  shows "\<exists>js. mapE enc xs = Inr js \<and> mapE dec js = Inr xs"
  using assms roundtrip by (intro mapE_roundtrip) blast

end

end
