(* ===== verification/Chess_Model.thy ===== *)
theory Chess_Model
  imports Prelude
begin

text \<open>
  The passive data of a game (\<open>shared/model\<close>): positions, pieces and the state machine of a
  piece, the board as a row-major array of piece slots, and the record that pairs a board with
  the game-over flag.

  A \<open>std::shared_ptr<Piece>\<close> in a board slot is modelled by the piece value itself: the program
  keeps every live piece in exactly one slot (\<open>board_wf\<close> below) and reaches it only through that
  slot, so mutation through the pointer is an update of the slot. A null pointer, returned for
  positions outside the board, is \<open>None\<close>.
\<close>

section \<open>Positions\<close>

record position =
  row :: int
  col :: int

abbreviation Pos :: "int \<Rightarrow> int \<Rightarrow> position" where
  "Pos r c \<equiv> \<lparr>row = r, col = c\<rparr>"

text \<open>Positions in the order in which the code walks over a board: by rows, then by columns.\<close>

instantiation position_ext :: (linorder) linorder
begin

definition less_eq_position_ext :: "'a position_scheme \<Rightarrow> 'a position_scheme \<Rightarrow> bool" where
  "p \<le> q \<longleftrightarrow> row p < row q \<or> row p = row q \<and> (col p < col q \<or> col p = col q \<and> position.more p \<le> position.more q)"

definition less_position_ext :: "'a position_scheme \<Rightarrow> 'a position_scheme \<Rightarrow> bool" where
  "p < q \<longleftrightarrow> row p < row q \<or> row p = row q \<and> (col p < col q \<or> col p = col q \<and> position.more p < position.more q)"

instance
  by standard (auto simp: less_eq_position_ext_def less_position_ext_def intro: position.equality)

end

lemma Pos_less_iff: "Pos r c < Pos r' c' \<longleftrightarrow> r < r' \<or> r = r' \<and> c < c'"
  by (auto simp: less_position_ext_def)

section \<open>Pieces and their state machine\<close>

datatype color = White | Black | NoColor
datatype kind = King | Queen | Rook | Bishop | Knight | Pawn | NoKind
datatype state = Idle | Moving | Jump | ShortRest | LongRest | Captured

record piece =
  getId :: int
  getColor :: color
  getKind :: kind
  getCell :: position
  getState :: state

definition mkPiece :: "int \<Rightarrow> color \<Rightarrow> kind \<Rightarrow> position \<Rightarrow> state \<Rightarrow> piece" where
  "mkPiece i c k p s = \<lparr>getId = i, getColor = c, getKind = k, getCell = p,
     getState = (if k = NoKind then Idle else s)\<rparr>"

definition emptyPiece :: "position \<Rightarrow> piece" where
  "emptyPiece p = mkPiece 0 NoColor NoKind p Idle"

definition kLegalTransitions :: "(state \<times> state) list" where
  "kLegalTransitions = [(Idle, Moving), (Idle, Jump), (Moving, LongRest), (Jump, ShortRest),
     (ShortRest, Idle), (LongRest, Idle)]"

definition isLegalTransition :: "state \<Rightarrow> state \<Rightarrow> bool" where
  "isLegalTransition s t =
     (if t = Captured then True else list_ex (\<lambda>(a, b). a = s \<and> b = t) kLegalTransitions)"

definition isBusyState :: "state \<Rightarrow> bool" where
  "isBusyState s \<longleftrightarrow> s = Moving \<or> s = Jump"

definition isRestingState :: "state \<Rightarrow> bool" where
  "isRestingState s \<longleftrightarrow> s = ShortRest \<or> s = LongRest"

datatype state_error = UnknownStateName string | NoSpriteFolder

definition stateFromString :: "string \<Rightarrow> state_error + state" where
  "stateFromString name =
     (if name = ''idle'' then Inr Idle
      else if name = ''move'' then Inr Moving
      else if name = ''jump'' then Inr Jump
      else if name = ''short_rest'' then Inr ShortRest
      else if name = ''long_rest'' then Inr LongRest
      else Inl (UnknownStateName name))"

fun stateToFolderName :: "state \<Rightarrow> state_error + string" where
  "stateToFolderName Idle = Inr ''idle''"
| "stateToFolderName Moving = Inr ''move''"
| "stateToFolderName Jump = Inr ''jump''"
| "stateToFolderName ShortRest = Inr ''short_rest''"
| "stateToFolderName LongRest = Inr ''long_rest''"
| "stateToFolderName Captured = Inl NoSpriteFolder"

definition transitionTo :: "state \<Rightarrow> piece \<Rightarrow> piece" where
  "transitionTo t p = (if \<not> isLegalTransition (getState p) t then p else p\<lparr>getState := t\<rparr>)"

definition promoteTo :: "kind \<Rightarrow> piece \<Rightarrow> piece" where
  "promoteTo k p = p\<lparr>getKind := k\<rparr>"

definition setCell :: "position \<Rightarrow> piece \<Rightarrow> piece" where
  "setCell c p = p\<lparr>getCell := c\<rparr>"

section \<open>The board\<close>

record board =
  getWidth :: int
  getHeight :: int
  grid :: "piece list"

definition index :: "board \<Rightarrow> position \<Rightarrow> int" where
  "index b p = row p * getWidth b + col p"

definition isWithinBounds :: "board \<Rightarrow> position \<Rightarrow> bool" where
  "isWithinBounds b p \<longleftrightarrow>
     row p \<ge> 0 \<and> row p < getHeight b \<and> col p \<ge> 0 \<and> col p < getWidth b"

definition newBoard :: "int \<Rightarrow> int \<Rightarrow> board" where
  "newBoard w h = \<lparr>getWidth = w, getHeight = h,
     grid = concat (map (\<lambda>r. map (\<lambda>c. emptyPiece (Pos r c)) [0..w - 1]) [0..h - 1])\<rparr>"

definition slot :: "board \<Rightarrow> position \<Rightarrow> piece" where
  "slot b p = grid b ! nat (index b p)"

definition setSlot :: "board \<Rightarrow> position \<Rightarrow> piece \<Rightarrow> board" where
  "setSlot b p x = b\<lparr>grid := (grid b)[nat (index b p) := x]\<rparr>"

definition getPiece :: "board \<Rightarrow> position \<Rightarrow> piece option" where
  "getPiece b p = (if \<not> isWithinBounds b p then None else Some (slot b p))"

definition getPieceById :: "board \<Rightarrow> int \<Rightarrow> piece option" where
  "getPieceById b i = find (\<lambda>p. getId p = i) (grid b)"

definition isCellEmpty :: "board \<Rightarrow> position \<Rightarrow> bool" where
  "isCellEmpty b p = (if \<not> isWithinBounds b p then False else getKind (slot b p) = NoKind)"

definition addPiece :: "piece \<Rightarrow> position \<Rightarrow> board \<Rightarrow> board" where
  "addPiece x p b = (if isWithinBounds b p \<and> isCellEmpty b p then setSlot b p x else b)"

definition removePiece :: "position \<Rightarrow> board \<Rightarrow> board" where
  "removePiece p b = (if isWithinBounds b p then setSlot b p (emptyPiece p) else b)"

definition movePiece :: "position \<Rightarrow> position \<Rightarrow> board \<Rightarrow> board" where
  "movePiece from to b =
     (if \<not> isWithinBounds b from \<or> \<not> isWithinBounds b to then b
      else let b1 = setSlot b to (slot b from);
               b2 = setSlot b1 to (setCell to (slot b1 to))
           in setSlot b2 from (emptyPiece from))"

text \<open>
  A method called through the pointer returned by \<open>getPiece\<close> or \<open>getPieceById\<close> updates the
  piece in its slot.
\<close>

definition withPiece :: "position \<Rightarrow> (piece \<Rightarrow> piece) \<Rightarrow> board \<Rightarrow> board" where
  "withPiece p f b = (if isWithinBounds b p then setSlot b p (f (slot b p)) else b)"

fun updateFirst :: "('a \<Rightarrow> bool) \<Rightarrow> ('a \<Rightarrow> 'a) \<Rightarrow> 'a list \<Rightarrow> 'a list" where
  "updateFirst P f [] = []"
| "updateFirst P f (x # xs) = (if P x then f x # xs else x # updateFirst P f xs)"

definition withPieceById :: "int \<Rightarrow> (piece \<Rightarrow> piece) \<Rightarrow> board \<Rightarrow> board" where
  "withPieceById i f b = b\<lparr>grid := updateFirst (\<lambda>p. getId p = i) f (grid b)\<rparr>"

record game_state =
  gs_board :: board
  gs_game_over :: bool

section \<open>Facts about pieces\<close>

lemmas piece_op_defs = mkPiece_def emptyPiece_def transitionTo_def promoteTo_def setCell_def

lemma transitionTo_frame [simp]:
  "getId (transitionTo s p) = getId p" "getColor (transitionTo s p) = getColor p"
  "getKind (transitionTo s p) = getKind p" "getCell (transitionTo s p) = getCell p"
  by (simp_all add: transitionTo_def)

lemma promoteTo_frame [simp]:
  "getId (promoteTo k p) = getId p" "getColor (promoteTo k p) = getColor p"
  "getState (promoteTo k p) = getState p" "getCell (promoteTo k p) = getCell p"
  "getKind (promoteTo k p) = k"
  by (simp_all add: promoteTo_def)

lemma setCell_frame [simp]:
  "getId (setCell c p) = getId p" "getColor (setCell c p) = getColor p"
  "getKind (setCell c p) = getKind p" "getState (setCell c p) = getState p"
  "getCell (setCell c p) = c"
  by (simp_all add: setCell_def)

lemma emptyPiece_fields [simp]:
  "getId (emptyPiece p) = 0" "getColor (emptyPiece p) = NoColor"
  "getKind (emptyPiece p) = NoKind" "getCell (emptyPiece p) = p" "getState (emptyPiece p) = Idle"
  by (simp_all add: emptyPiece_def mkPiece_def)

lemma transitionTo_Captured [simp]: "getState (transitionTo Captured p) = Captured"
  by (simp add: transitionTo_def isLegalTransition_def)

lemma isLegalTransition_iff:
  "isLegalTransition s t \<longleftrightarrow> t = Captured \<or> (s, t) \<in> {(Idle, Moving), (Idle, Jump),
     (Moving, LongRest), (Jump, ShortRest), (ShortRest, Idle), (LongRest, Idle)}"
  by (auto simp: isLegalTransition_def kLegalTransitions_def)

lemma transitionTo_not_Captured:
  "t \<noteq> Captured \<Longrightarrow> getState p \<noteq> Captured \<Longrightarrow> getState (transitionTo t p) \<noteq> Captured"
  by (simp add: transitionTo_def)

lemma transitionTo_stuck:
  "\<not> isLegalTransition (getState p) t \<Longrightarrow> transitionTo t p = p"
  by (simp add: transitionTo_def)

section \<open>Slots\<close>

definition board_shape :: "board \<Rightarrow> bool" where
  "board_shape b \<longleftrightarrow> 0 \<le> getWidth b \<and> 0 \<le> getHeight b \<and>
     int (length (grid b)) = getWidth b * getHeight b"

lemma index_nonneg: "isWithinBounds b p \<Longrightarrow> 0 \<le> index b p"
  by (simp add: isWithinBounds_def index_def)

lemma index_less:
  assumes "board_shape b" and "isWithinBounds b p"
  shows "nat (index b p) < length (grid b)"
proof -
  have "row p * getWidth b + col p < (row p + 1) * getWidth b"
    using assms(2) by (simp add: isWithinBounds_def algebra_simps)
  also have "\<dots> \<le> getHeight b * getWidth b"
    using assms by (intro mult_right_mono) (auto simp: isWithinBounds_def)
  finally have "index b p < int (length (grid b))"
    using assms(1) by (simp add: board_shape_def index_def mult.commute)
  then show ?thesis using index_nonneg [OF assms(2)] by linarith
qed

lemma index_inj:
  assumes "isWithinBounds b p" and "isWithinBounds b q" and "nat (index b p) = nat (index b q)"
  shows "p = q"
proof -
  have eq: "row p * getWidth b + col p = row q * getWidth b + col q"
    using assms index_nonneg by (metis index_def eq_nat_nat_iff)
  have bp: "0 \<le> col p" "col p < getWidth b" and bq: "0 \<le> col q" "col q < getWidth b"
    using assms by (auto simp: isWithinBounds_def)
  have "row p = (row p * getWidth b + col p) div getWidth b" using bp by simp
  moreover have "row q = (row q * getWidth b + col q) div getWidth b" using bq by simp
  ultimately have "row p = row q" using eq by simp
  with eq show ?thesis by simp
qed

lemma setSlot_frame [simp]:
  "getWidth (setSlot b p x) = getWidth b" "getHeight (setSlot b p x) = getHeight b"
  "length (grid (setSlot b p x)) = length (grid b)"
  by (simp_all add: setSlot_def)

lemma within_setSlot [simp]: "isWithinBounds (setSlot b p x) q = isWithinBounds b q"
  by (simp add: isWithinBounds_def)

lemma shape_setSlot [simp]: "board_shape (setSlot b p x) = board_shape b"
  by (simp add: board_shape_def)

lemma slot_setSlot:
  assumes "board_shape b" "isWithinBounds b p" "isWithinBounds b q"
  shows "slot (setSlot b p x) q = (if q = p then x else slot b q)"
proof (cases "q = p")
  case True
  then show ?thesis
    using index_less [OF assms(1,2)] by (simp add: slot_def setSlot_def index_def)
next
  case False
  then have "nat (index b q) \<noteq> nat (index b p)" using assms index_inj by blast
  with False show ?thesis by (simp add: slot_def setSlot_def index_def)
qed

text \<open>
  The interface of a store of cells addressed by positions: what the rest of the program relies
  on when it reads and writes slots. The derived laws hold for every such store.
\<close>

locale cell_store =
  fixes invar :: "'b \<Rightarrow> bool" and dom_of :: "'b \<Rightarrow> 'k \<Rightarrow> bool"
    and fetch :: "'b \<Rightarrow> 'k \<Rightarrow> 'v" and store :: "'b \<Rightarrow> 'k \<Rightarrow> 'v \<Rightarrow> 'b"
  assumes store_invar: "invar b \<Longrightarrow> invar (store b k v)"
    and store_dom: "dom_of (store b k v) j = dom_of b j"
    and fetch_store: "invar b \<Longrightarrow> dom_of b k \<Longrightarrow> dom_of b j \<Longrightarrow>
      fetch (store b k v) j = (if j = k then v else fetch b j)"
begin

lemma fetch_store_same: "invar b \<Longrightarrow> dom_of b k \<Longrightarrow> fetch (store b k v) k = v"
  by (simp add: fetch_store)

lemma fetch_store_other:
  "invar b \<Longrightarrow> dom_of b k \<Longrightarrow> dom_of b j \<Longrightarrow> j \<noteq> k \<Longrightarrow> fetch (store b k v) j = fetch b j"
  by (simp add: fetch_store)

lemma fetch_store_store:
  assumes "invar b" "dom_of b k" "dom_of b l" "dom_of b j"
  shows "fetch (store (store b k v) l w) j = (if j = l then w else if j = k then v else fetch b j)"
  using assms by (simp add: fetch_store store_invar store_dom)

lemma all_fetch_store:
  assumes "invar b" "dom_of b k" "P k v" "\<And>j. dom_of b j \<Longrightarrow> P j (fetch b j)" "dom_of b j"
  shows "P j (fetch (store b k v) j)"
  using assms by (simp add: fetch_store)

end

interpretation slots: cell_store board_shape isWithinBounds slot setSlot
  by unfold_locales (auto simp: slot_setSlot)

lemma getPiece_Some_iff: "getPiece b p = Some x \<longleftrightarrow> isWithinBounds b p \<and> x = slot b p"
  by (auto simp: getPiece_def)

lemma getPiece_None_iff: "getPiece b p = None \<longleftrightarrow> \<not> isWithinBounds b p"
  by (simp add: getPiece_def)

lemma isCellEmpty_iff: "isCellEmpty b p \<longleftrightarrow> isWithinBounds b p \<and> getKind (slot b p) = NoKind"
  by (simp add: isCellEmpty_def)

lemma movePiece_alt:
  assumes "board_shape b" "isWithinBounds b from" "isWithinBounds b to"
  shows "movePiece from to b = setSlot (setSlot b to (setCell to (slot b from))) from (emptyPiece from)"
proof -
  have "setSlot (setSlot b to (slot b from)) to y = setSlot b to y" for y
    by (simp add: setSlot_def index_def)
  then show ?thesis
    using assms by (simp add: movePiece_def slots.fetch_store_same)
qed

lemma index_surj:
  assumes "board_shape b" "i < length (grid b)"
  obtains p where "isWithinBounds b p" "nat (index b p) = i"
proof -
  let ?w = "getWidth b" let ?p = "Pos (int i div ?w) (int i mod ?w)"
  have len: "int i < ?w * getHeight b" using assms by (simp add: board_shape_def)
  have w: "?w > 0"
  proof (rule ccontr)
    assume "\<not> ?w > 0"
    then have "?w = 0" using assms(1) by (simp add: board_shape_def)
    with len show False by simp
  qed
  have "int i div ?w < getHeight b"
  proof (rule ccontr)
    assume "\<not> ?thesis"
    then have "getHeight b * ?w \<le> (int i div ?w) * ?w" using w by (simp add: mult_right_mono)
    also have "\<dots> \<le> int i" using w div_mult_mod_eq [of "int i" ?w] pos_mod_sign [of ?w "int i"] by linarith
    finally show False using len by (simp add: mult.commute)
  qed
  with w have "isWithinBounds b ?p" by (simp add: isWithinBounds_def pos_imp_zdiv_nonneg_iff)
  moreover have "nat (index b ?p) = i" by (simp add: index_def)
  ultimately show ?thesis using that by blast
qed

lemma grid_slot:
  assumes "board_shape b" "x \<in> set (grid b)"
  obtains p where "isWithinBounds b p" "x = slot b p"
  using assms by (metis in_set_conv_nth index_surj slot_def)

lemma board_eqI:
  fixes b b' :: board
  assumes "board_shape b" "board_shape b'" "getWidth b = getWidth b'" "getHeight b = getHeight b'"
    and "\<And>p. isWithinBounds b p \<Longrightarrow> slot b p = slot b' p"
  shows "b = b'"
proof -
  have len: "length (grid b) = length (grid b')" using assms by (simp add: board_shape_def nat_eq_iff)
  have "grid b ! i = grid b' ! i" if i: "i < length (grid b)" for i
  proof -
    obtain p where p: "isWithinBounds b p" "nat (index b p) = i" using index_surj [OF assms(1) i] by blast
    moreover have "index b' p = index b p" using assms(3) by (simp add: index_def)
    ultimately show ?thesis using assms(5) [OF p(1)] by (simp add: slot_def)
  qed
  then have "grid b = grid b'" using len by (rule nth_equalityI [rotated])
  then show ?thesis using assms by simp
qed

section \<open>Which pieces a board holds\<close>

text \<open>
  The identifiers of the pieces on a board, as a multiset: every slot with a real piece
  contributes its identifier. Capturing, moving and promoting pieces are described by what they
  do to this multiset.
\<close>

definition slotId :: "piece \<Rightarrow> int multiset" where
  "slotId p = (if getKind p = NoKind then {#} else {#getId p#})"

definition boardIds :: "board \<Rightarrow> int multiset" where
  "boardIds b = sum_list (map slotId (grid b))"

lemma slotId_cong:
  "getKind p = getKind q \<Longrightarrow> getId p = getId q \<Longrightarrow> slotId p = slotId q"
  by (simp add: slotId_def)

lemma slotId_simps [simp]:
  "slotId (emptyPiece p) = {#}" "slotId (setCell c x) = slotId x"
  "slotId (transitionTo s x) = slotId x"
  by (simp_all add: slotId_def)

lemma sum_list_update_mset:
  fixes f :: "'a \<Rightarrow> 'b multiset"
  assumes "i < length xs"
  shows "sum_list (map f (xs[i := v])) + f (xs ! i) = sum_list (map f xs) + f v"
  using assms
proof (induction xs arbitrary: i)
  case Nil
  then show ?case by simp
next
  case (Cons x xs)
  show ?case
  proof (cases i)
    case 0
    then show ?thesis by (simp add: ac_simps)
  next
    case (Suc j)
    then show ?thesis using Cons.IH [of j] Cons.prems by (simp add: ac_simps)
  qed
qed

lemma boardIds_setSlot:
  assumes "board_shape b" "isWithinBounds b p"
  shows "boardIds (setSlot b p x) + slotId (slot b p) = boardIds b + slotId x"
  using sum_list_update_mset [OF index_less [OF assms], of slotId x]
  by (simp add: boardIds_def setSlot_def slot_def)

lemma boardIds_setSlot_same:
  assumes "board_shape b" "isWithinBounds b p" "slotId x = slotId (slot b p)"
  shows "boardIds (setSlot b p x) = boardIds b"
  using boardIds_setSlot [OF assms(1,2), of x] assms(3) by simp

lemma boardIds_removePiece:
  assumes "board_shape b" "isWithinBounds b p"
  shows "boardIds b = boardIds (removePiece p b) + slotId (slot b p)"
  using boardIds_setSlot [OF assms, of "emptyPiece p"] assms(2) by (simp add: removePiece_def)

lemma boardIds_movePiece:
  assumes "board_shape b" "isWithinBounds b from" "isWithinBounds b to" "from \<noteq> to"
  shows "boardIds b = boardIds (movePiece from to b) + slotId (slot b to)"
proof -
  let ?b1 = "setSlot b to (setCell to (slot b from))"
  have 1: "boardIds ?b1 + slotId (slot b to) = boardIds b + slotId (slot b from)"
    using boardIds_setSlot [OF assms(1,3), of "setCell to (slot b from)"] by simp
  have "slot ?b1 from = slot b from" using assms by (simp add: slots.fetch_store_other)
  then have 2: "boardIds (setSlot ?b1 from (emptyPiece from)) + slotId (slot b from) = boardIds ?b1"
    using boardIds_setSlot [of ?b1 "from" "emptyPiece from"] assms by simp
  have "boardIds b + slotId (slot b from)
      = boardIds (setSlot ?b1 from (emptyPiece from)) + slotId (slot b to) + slotId (slot b from)"
    using 1 2 by (metis add.assoc add.commute)
  then show ?thesis using movePiece_alt [OF assms(1-3)] by simp
qed

lemma slotId_le_boardIds:
  assumes "board_shape b" "isWithinBounds b p"
  shows "slotId (slot b p) \<subseteq># boardIds b"
  using boardIds_removePiece [OF assms] by simp

lemma in_sum_list_mset: "y \<in> set xs \<Longrightarrow> a \<in># f y \<Longrightarrow> a \<in># sum_list (map f xs)"
  by (induction xs) auto

lemma count_two:
  assumes "i < j" "j < length xs" "a \<in># f (xs ! i)" "a \<in># f (xs ! j)"
  shows "2 \<le> count (sum_list (map f xs)) a"
  using assms
proof (induction xs arbitrary: i j)
  case Nil
  then show ?case by simp
next
  case (Cons x xs)
  then obtain j' where j: "j = Suc j'" by (cases j) auto
  show ?case
  proof (cases i)
    case 0
    have "a \<in># sum_list (map f xs)"
      using Cons.prems j by (auto intro: in_sum_list_mset [of "xs ! j'"])
    then have "0 < count (sum_list (map f xs)) a" by (simp only: count_greater_zero_iff)
    moreover have "0 < count (f x) a" using Cons.prems 0 by simp
    ultimately show ?thesis unfolding list.map sum_list.Cons count_union by linarith
  next
    case (Suc i')
    then show ?thesis using Cons.IH [of i' j'] Cons.prems j by simp
  qed
qed

section \<open>Well-formed boards\<close>

text \<open>
  An empty slot holds a fresh \<open>EmptyPiece\<close>; a real piece has a positive identifier, a real
  colour and is not captured. Every piece knows the cell it stands on, and no identifier occurs
  twice.
\<close>

definition piece_ok :: "piece \<Rightarrow> bool" where
  "piece_ok p \<longleftrightarrow>
     (if getKind p = NoKind then getId p = 0 \<and> getColor p = NoColor \<and> getState p = Idle
      else 0 < getId p \<and> getColor p \<noteq> NoColor \<and> getState p \<noteq> Captured)"

definition board_wf :: "board \<Rightarrow> bool" where
  "board_wf b \<longleftrightarrow> board_shape b \<and>
     (\<forall>p. isWithinBounds b p \<longrightarrow> getCell (slot b p) = p \<and> piece_ok (slot b p)) \<and>
     (\<forall>i. count (boardIds b) i \<le> 1)"

lemma piece_ok_emptyPiece [simp]: "piece_ok (emptyPiece p)"
  by (simp add: piece_ok_def)

lemma piece_ok_setCell [simp]: "piece_ok (setCell c p) = piece_ok p"
  by (simp add: piece_ok_def)

lemma piece_ok_transitionTo:
  "piece_ok p \<Longrightarrow> getKind p \<noteq> NoKind \<Longrightarrow> t \<noteq> Captured \<Longrightarrow> piece_ok (transitionTo t p)"
  by (simp add: piece_ok_def transitionTo_not_Captured)

lemma board_wfD:
  assumes "board_wf b"
  shows "board_shape b"
    and "isWithinBounds b p \<Longrightarrow> getCell (slot b p) = p"
    and "isWithinBounds b p \<Longrightarrow> piece_ok (slot b p)"
    and "count (boardIds b) i \<le> 1"
  using assms by (auto simp: board_wf_def)

lemma board_wf_unique:
  assumes "board_wf b" "isWithinBounds b p" "isWithinBounds b q"
    and "getKind (slot b p) \<noteq> NoKind" "getKind (slot b q) \<noteq> NoKind"
    and "getId (slot b p) = getId (slot b q)"
  shows "p = q"
proof (rule ccontr)
  assume "p \<noteq> q"
  let ?i = "nat (index b p)" let ?j = "nat (index b q)" let ?a = "getId (slot b p)"
  have neq: "?i \<noteq> ?j" using index_inj assms(2,3) \<open>p \<noteq> q\<close> by blast
  have len: "?i < length (grid b)" "?j < length (grid b)"
    using assms by (auto simp: index_less board_wfD)
  have "?a \<in># slotId (grid b ! ?i)" "?a \<in># slotId (grid b ! ?j)"
    using assms by (auto simp: slotId_def slot_def)
  then have "2 \<le> count (boardIds b) ?a"
    using neq len count_two [of ?i ?j "grid b" ?a slotId] count_two [of ?j ?i "grid b" ?a slotId]
    unfolding boardIds_def by (metis linorder_neqE_nat)
  then show False using board_wfD(4) [OF assms(1), of ?a] by simp
qed

lemma board_wf_setSlot:
  assumes "board_wf b" "isWithinBounds b p" "getCell x = p" "piece_ok x"
    and "\<And>i. count (boardIds (setSlot b p x)) i \<le> 1"
  shows "board_wf (setSlot b p x)"
  using assms by (auto simp: board_wf_def slots.fetch_store)

lemma board_wf_update [inv_intros]:
  assumes "board_wf b" "isWithinBounds b p" "getCell x = p" "piece_ok x"
    and "slotId x = slotId (slot b p)"
  shows "board_wf (setSlot b p x)"
  using assms board_wfD(4) [OF assms(1)] by (intro board_wf_setSlot)
    (auto simp: boardIds_setSlot_same board_wfD)

lemma board_wf_removePiece [inv_intros]:
  assumes "board_wf b"
  shows "board_wf (removePiece p b)"
proof (cases "isWithinBounds b p")
  case True
  have "boardIds (setSlot b p (emptyPiece p)) \<subseteq># boardIds b"
    using boardIds_removePiece [OF board_wfD(1) [OF assms] True] True by (simp add: removePiece_def)
  then have "count (boardIds (setSlot b p (emptyPiece p))) i \<le> 1" for i
    using board_wfD(4) [OF assms, of i] mset_subset_eq_count le_trans by metis
  then show ?thesis
    using True assms by (auto simp: removePiece_def intro: board_wf_setSlot)
next
  case False
  then show ?thesis using assms by (simp add: removePiece_def)
qed

lemma movePiece_frame [simp]:
  "getWidth (movePiece p q b) = getWidth b" "getHeight (movePiece p q b) = getHeight b"
  "isWithinBounds (movePiece p q b) r = isWithinBounds b r"
  "board_shape (movePiece p q b) = board_shape b"
  by (simp_all add: movePiece_def Let_def)

lemma removePiece_frame [simp]:
  "getWidth (removePiece p b) = getWidth b" "getHeight (removePiece p b) = getHeight b"
  "isWithinBounds (removePiece p b) r = isWithinBounds b r"
  "board_shape (removePiece p b) = board_shape b"
  by (simp_all add: removePiece_def)

lemma withPiece_frame [simp]:
  "getWidth (withPiece p f b) = getWidth b" "getHeight (withPiece p f b) = getHeight b"
  "isWithinBounds (withPiece p f b) r = isWithinBounds b r"
  "board_shape (withPiece p f b) = board_shape b"
  by (simp_all add: withPiece_def)

lemma slot_movePiece:
  assumes "board_shape b" "isWithinBounds b from" "isWithinBounds b to" "isWithinBounds b p"
  shows "slot (movePiece from to b) p =
    (if p = from then emptyPiece from else if p = to then setCell to (slot b from) else slot b p)"
  using assms by (simp add: movePiece_alt slots.fetch_store_store)

lemma slot_removePiece:
  assumes "board_shape b" "isWithinBounds b p" "isWithinBounds b q"
  shows "slot (removePiece p b) q = (if q = p then emptyPiece p else slot b q)"
  using assms by (simp add: removePiece_def slots.fetch_store)

lemma slot_withPiece:
  assumes "board_shape b" "isWithinBounds b p" "isWithinBounds b q"
  shows "slot (withPiece p f b) q = (if q = p then f (slot b p) else slot b q)"
  using assms by (simp add: withPiece_def slots.fetch_store)

lemmas slot_laws = slot_movePiece slot_removePiece slot_withPiece

lemma board_wf_movePiece [inv_intros]:
  assumes "board_wf b" "from \<noteq> to"
  shows "board_wf (movePiece from to b)"
proof (cases "isWithinBounds b from \<and> isWithinBounds b to")
  case True
  then have "boardIds (movePiece from to b) \<subseteq># boardIds b"
    using boardIds_movePiece assms board_wfD(1) by (metis mset_subset_eq_add_left)
  then have "count (boardIds (movePiece from to b)) i \<le> 1" for i
    using board_wfD(4) [OF assms(1), of i] mset_subset_eq_count le_trans by metis
  moreover have "getCell (slot (movePiece from to b) p) = p \<and> piece_ok (slot (movePiece from to b) p)"
    if "isWithinBounds b p" for p
    using True assms that by (auto simp: slot_movePiece board_wfD)
  ultimately show ?thesis using assms board_wfD(1) by (auto simp: board_wf_def)
next
  case False
  then show ?thesis using assms by (auto simp: movePiece_def)
qed

lemma boardIds_withPiece:
  assumes "board_shape b" "\<And>x. slotId (f x) = slotId x"
  shows "boardIds (withPiece p f b) = boardIds b"
  using assms by (simp add: withPiece_def boardIds_setSlot_same)

lemma board_wf_transition [inv_intros]:
  assumes "board_wf b" "t \<noteq> Captured" "isWithinBounds b p \<Longrightarrow> getKind (slot b p) \<noteq> NoKind"
  shows "board_wf (withPiece p (transitionTo t) b)"
  using assms by (auto simp: withPiece_def board_wfD piece_ok_transitionTo intro!: board_wf_update)

lemma board_wf_promote [inv_intros]:
  assumes "board_wf b" "k \<noteq> NoKind" "isWithinBounds b p \<Longrightarrow> getKind (slot b p) \<noteq> NoKind"
  shows "board_wf (withPiece p (promoteTo k) b)"
proof (cases "isWithinBounds b p")
  case True
  then have "piece_ok (promoteTo k (slot b p))" "slotId (promoteTo k (slot b p)) = slotId (slot b p)"
    using assms board_wfD(3) [OF assms(1) True] by (auto simp: piece_ok_def slotId_def)
  then show ?thesis
    using True assms by (auto simp: withPiece_def board_wfD intro!: board_wf_update)
qed (use assms in \<open>simp add: withPiece_def\<close>)

text \<open>Two boards of one size whose slots agree in identifier and kind hold the same pieces.\<close>

lemma boardIds_slots_cong:
  fixes b b' :: board
  assumes "board_shape b" "board_shape b'" "getWidth b' = getWidth b" "getHeight b' = getHeight b"
    and "\<And>p. isWithinBounds b p \<Longrightarrow> slotId (slot b' p) = slotId (slot b p)"
  shows "boardIds b' = boardIds b"
proof -
  have len: "length (grid b') = length (grid b)" using assms by (simp add: board_shape_def nat_eq_iff)
  have "slotId (grid b' ! i) = slotId (grid b ! i)" if i: "i < length (grid b)" for i
  proof -
    obtain p where p: "isWithinBounds b p" "nat (index b p) = i" using index_surj [OF assms(1) i] by blast
    moreover have "index b' p = index b p" using assms(3) by (simp add: index_def)
    ultimately show ?thesis using assms(5) [OF p(1)] by (simp add: slot_def)
  qed
  then have "map slotId (grid b') = map slotId (grid b)" using len by (intro nth_equalityI) auto
  then show ?thesis by (simp add: boardIds_def)
qed

lemma board_wf_slots_cong:
  fixes b b' :: board
  assumes "board_wf b" "board_shape b'" "getWidth b' = getWidth b" "getHeight b' = getHeight b"
    and "\<And>p. isWithinBounds b p \<Longrightarrow> slotId (slot b' p) = slotId (slot b p) \<and>
      getCell (slot b' p) = p \<and> piece_ok (slot b' p)"
  shows "board_wf b'"
proof -
  have "boardIds b' = boardIds b"
    using assms board_wfD(1) [OF assms(1)] by (intro boardIds_slots_cong) auto
  moreover have "isWithinBounds b' p = isWithinBounds b p" for p
    using assms(3,4) by (simp add: isWithinBounds_def)
  ultimately show ?thesis using assms board_wfD(4) [OF assms(1)] by (auto simp: board_wf_def)
qed

section \<open>A new board\<close>

lemma nth_concat_rows:
  assumes "\<And>x. x \<in> set xs \<Longrightarrow> length (f x) = n" "i < length xs" "j < n"
  shows "concat (map f xs) ! (i * n + j) = f (xs ! i) ! j"
  using assms
proof (induction xs arbitrary: i)
  case Nil
  then show ?case by simp
next
  case (Cons x xs)
  show ?case
  proof (cases i)
    case 0
    then show ?thesis using Cons.prems by (simp add: nth_append)
  next
    case (Suc k)
    then have "concat (map f xs) ! (k * n + j) = f (xs ! k) ! j" using Cons by simp
    then show ?thesis using Suc Cons.prems by (simp add: nth_append add.assoc)
  qed
qed

lemma length_concat_rows:
  "(\<And>x. x \<in> set xs \<Longrightarrow> length (f x) = n) \<Longrightarrow> length (concat (map f xs)) = length xs * n"
  by (induction xs) auto

lemma newBoard_frame [simp]: "getWidth (newBoard w h) = w" "getHeight (newBoard w h) = h"
  by (simp_all add: newBoard_def)

lemma newBoard_shape:
  assumes "0 \<le> w" "0 \<le> h"
  shows "board_shape (newBoard w h)"
proof -
  have "length (grid (newBoard w h)) = length [0..h - 1] * length [0..w - 1]"
    unfolding newBoard_def board.simps by (rule length_concat_rows) simp
  then show ?thesis using assms by (simp add: board_shape_def mult.commute)
qed

lemma slot_newBoard:
  assumes "isWithinBounds (newBoard w h) p"
  shows "slot (newBoard w h) p = emptyPiece p"
proof -
  let ?n = "length [0..w - 1]"
  have b: "0 \<le> row p" "row p < h" "0 \<le> col p" "col p < w" using assms by (auto simp: isWithinBounds_def)
  have i: "nat (index (newBoard w h) p) = nat (row p) * ?n + nat (col p)"
    using b by (simp add: index_def nat_add_distrib nat_mult_distrib)
  have "grid (newBoard w h) ! (nat (row p) * ?n + nat (col p)) =
      map (\<lambda>c. emptyPiece (Pos ([0..h - 1] ! nat (row p)) c)) [0..w - 1] ! nat (col p)"
    unfolding newBoard_def board.simps using b by (intro nth_concat_rows) auto
  also have "\<dots> = emptyPiece p" using b by (cases p) simp
  finally show ?thesis by (simp add: slot_def i)
qed

lemma boardIds_empty:
  assumes "board_shape b" "\<And>p. isWithinBounds b p \<Longrightarrow> slot b p = emptyPiece p"
  shows "boardIds b = {#}"
proof -
  have "slotId x = {#}" if "x \<in> set (grid b)" for x
    using grid_slot [OF assms(1) that] assms(2) by (metis slotId_simps(1))
  moreover have "(\<And>x. x \<in> set xs \<Longrightarrow> slotId x = {#}) \<Longrightarrow> sum_list (map slotId xs) = {#}" for xs
    by (induction xs) auto
  ultimately show ?thesis by (simp add: boardIds_def)
qed

lemma newBoard_wf:
  assumes "0 \<le> w" "0 \<le> h"
  shows "board_wf (newBoard w h)" "boardIds (newBoard w h) = {#}"
proof -
  show e: "boardIds (newBoard w h) = {#}"
    using newBoard_shape [OF assms] slot_newBoard by (rule boardIds_empty)
  show "board_wf (newBoard w h)"
    using newBoard_shape [OF assms] by (simp add: board_wf_def slot_newBoard e)
qed

lemma addPiece_frame [simp]:
  "getWidth (addPiece x p b) = getWidth b" "getHeight (addPiece x p b) = getHeight b"
  "isWithinBounds (addPiece x p b) q = isWithinBounds b q" "board_shape (addPiece x p b) = board_shape b"
  by (simp_all add: addPiece_def)

lemma slot_addPiece:
  assumes "board_shape b" "isWithinBounds b p" "isWithinBounds b q" "getKind (slot b p) = NoKind"
  shows "slot (addPiece x p b) q = (if q = p then x else slot b q)"
  using assms by (simp add: addPiece_def isCellEmpty_iff slots.fetch_store)

lemma addPiece_wf [inv_intros]:
  assumes wf: "board_wf b" and p: "isWithinBounds b p" "getKind (slot b p) = NoKind"
    and x: "getCell x = p" "piece_ok x" and fresh: "getId x \<notin># boardIds b"
  shows "board_wf (addPiece x p b)" "boardIds (addPiece x p b) = boardIds b + slotId x"
proof -
  have eq: "addPiece x p b = setSlot b p x" using p by (simp add: addPiece_def isCellEmpty_iff)
  show ids: "boardIds (addPiece x p b) = boardIds b + slotId x"
    using boardIds_setSlot [OF board_wfD(1) [OF wf] p(1), of x] p(2) by (simp add: eq slotId_def [of "slot b p"])
  have "count (boardIds b + slotId x) i \<le> 1" for i
    using board_wfD(4) [OF wf, of i] fresh by (auto simp: slotId_def not_in_iff)
  then show "board_wf (addPiece x p b)"
    unfolding eq using ids x wf p(1) by (intro board_wf_setSlot) (auto simp: eq)
qed

end
