(* ===== verification/Rules.thy ===== *)
theory Rules
  imports Chess_Model
begin

text \<open>
  The movement rules of the pieces and the rule engine (\<open>server/rules\<close>). Destinations are lists
  in the order in which the program pushes them. The sliding loop of \<open>SlidingPieceRules\<close> is a
  recursive function; it ends because every direction a rule passes is different from
  \<open>(0, 0)\<close>, so the loop walks off the board (for the direction \<open>(0, 0)\<close>, which no caller passes
  and for which the C++ loop would not end, the model returns the empty list).
\<close>

section \<open>Sliding pieces\<close>

function slideOneDirection ::
  "board \<Rightarrow> piece \<Rightarrow> int \<Rightarrow> int \<Rightarrow> bool \<Rightarrow> int \<Rightarrow> int \<Rightarrow> position list" where
  "slideOneDirection b p dr dc ignoreBlockers r c =
     (if dr = 0 \<and> dc = 0 then []
      else if isWithinBounds b (Pos r c) then
        if isCellEmpty b (Pos r c) then
          Pos r c # slideOneDirection b p dr dc ignoreBlockers (r + dr) (c + dc)
        else if ignoreBlockers then
          Pos r c # slideOneDirection b p dr dc ignoreBlockers (r + dr) (c + dc)
        else if getColor (slot b (Pos r c)) \<noteq> getColor p then [Pos r c]
        else []
      else [])"
  by pat_completeness auto
termination
  by (relation "measure (\<lambda>(b, p, dr, dc, ig, r, c).
        nat (if 0 < dr then getHeight b - r else if dr < 0 then r + 1
             else if 0 < dc then getWidth b - c else c + 1))")
    (auto simp: isWithinBounds_def)

declare slideOneDirection.simps [simp del]

definition slide :: "board \<Rightarrow> piece \<Rightarrow> (int \<times> int) list \<Rightarrow> bool \<Rightarrow> position list" where
  "slide b p directions ignoreBlockers =
     concat (map (\<lambda>(dr, dc). slideOneDirection b p dr dc ignoreBlockers
       (row (getCell p) + dr) (col (getCell p) + dc)) directions)"

definition rookDirections :: "(int \<times> int) list" where
  "rookDirections = [(1, 0), (-1, 0), (0, 1), (0, -1)]"

definition bishopDirections :: "(int \<times> int) list" where
  "bishopDirections = [(1, 1), (1, -1), (-1, 1), (-1, -1)]"

definition queenDirections :: "(int \<times> int) list" where
  "queenDirections = [(1, 0), (-1, 0), (0, 1), (0, -1), (1, 1), (1, -1), (-1, 1), (-1, -1)]"

definition rookMoves :: "board \<Rightarrow> piece \<Rightarrow> bool \<Rightarrow> position list" where
  "rookMoves b p ignoreBlockers = slide b p rookDirections ignoreBlockers"

definition bishopMoves :: "board \<Rightarrow> piece \<Rightarrow> bool \<Rightarrow> position list" where
  "bishopMoves b p ignoreBlockers = slide b p bishopDirections ignoreBlockers"

definition queenMoves :: "board \<Rightarrow> piece \<Rightarrow> bool \<Rightarrow> position list" where
  "queenMoves b p ignoreBlockers = slide b p queenDirections ignoreBlockers"

section \<open>King, knight and pawn\<close>

definition kingMoves :: "board \<Rightarrow> piece \<Rightarrow> bool \<Rightarrow> position list" where
  "kingMoves b p ignoreBlockers =
     concat (map (\<lambda>dr. concat (map (\<lambda>dc.
       (let to = Pos (row (getCell p) + dr) (col (getCell p) + dc) in
        if dr = 0 \<and> dc = 0 then []
        else if \<not> isWithinBounds b to then []
        else if \<not> ignoreBlockers \<and> \<not> isCellEmpty b to \<and> getColor (slot b to) = getColor p then []
        else [to])) [-1, 0, 1])) [-1, 0, 1])"

definition knightJumps :: "(int \<times> int) list" where
  "knightJumps = [(-2, -1), (-2, 1), (-1, -2), (-1, 2), (1, -2), (1, 2), (2, -1), (2, 1)]"

definition knightMoves :: "board \<Rightarrow> piece \<Rightarrow> position list" where
  "knightMoves b p =
     filter (isWithinBounds b)
       (map (\<lambda>(dr, dc). Pos (row (getCell p) + dr) (col (getCell p) + dc)) knightJumps)"

definition pawnMoves :: "board \<Rightarrow> piece \<Rightarrow> position list" where
  "pawnMoves b p =
     (let r = row (getCell p); c = col (getCell p);
          dir = (if getColor p = White then -1 else 1);
          startRow = (if getColor p = White then getHeight b - 2 else 1);
          oneStep = Pos (r + dir) c;
          twoStep = Pos (r + 2 * dir) c;
          forward = (if isWithinBounds b oneStep \<and> isCellEmpty b oneStep
                     then oneStep # (if r = startRow \<and> isWithinBounds b twoStep \<and> isCellEmpty b twoStep
                                     then [twoStep] else [])
                     else []);
          diagonals = concat (map (\<lambda>dc. let diag = Pos (r + dir) (c + dc) in
            if \<not> isWithinBounds b diag then []
            else if \<not> isCellEmpty b diag \<and> getColor (slot b diag) \<noteq> getColor p then [diag]
            else []) [-1, 1])
      in forward @ diagonals)"

definition legalDestinations :: "board \<Rightarrow> piece \<Rightarrow> bool \<Rightarrow> position list" where
  "legalDestinations b p ignoreBlockers =
     (case getKind p of
        Rook \<Rightarrow> rookMoves b p ignoreBlockers
      | Bishop \<Rightarrow> bishopMoves b p ignoreBlockers
      | Queen \<Rightarrow> queenMoves b p ignoreBlockers
      | Knight \<Rightarrow> knightMoves b p
      | King \<Rightarrow> kingMoves b p ignoreBlockers
      | Pawn \<Rightarrow> pawnMoves b p
      | NoKind \<Rightarrow> [])"

section \<open>The rule engine\<close>

record move_validation =
  is_valid :: bool
  reason :: string

abbreviation Validation :: "bool \<Rightarrow> string \<Rightarrow> move_validation" where
  "Validation ok why \<equiv> \<lparr>is_valid = ok, reason = why\<rparr>"

definition validateMove :: "board \<Rightarrow> position \<Rightarrow> position \<Rightarrow> bool \<Rightarrow> move_validation" where
  "validateMove b from to relaxedBlocking =
     (if \<not> isWithinBounds b from \<or> \<not> isWithinBounds b to then Validation False ''outside_board''
      else case getPiece b from of
        None \<Rightarrow> Validation False ''empty_source''
      | Some piece \<Rightarrow>
          if getColor piece = NoColor then Validation False ''empty_source''
          else if (case getPiece b to of None \<Rightarrow> False | Some dest \<Rightarrow> getColor dest = getColor piece) \<and>
                  getKind piece \<noteq> Knight \<and> \<not> relaxedBlocking
               then Validation False ''friendly_destination''
          else if list_ex (\<lambda>pos. pos = to) (legalDestinations b piece relaxedBlocking)
               then Validation True ''ok''
          else Validation False ''illegal_piece_move'')"

definition validateJump :: "board \<Rightarrow> position \<Rightarrow> move_validation" where
  "validateJump b pos =
     (if \<not> isWithinBounds b pos then Validation False ''outside_board''
      else case getPiece b pos of
        None \<Rightarrow> Validation False ''empty_source''
      | Some piece \<Rightarrow>
          if getColor piece = NoColor then Validation False ''empty_source''
          else Validation True ''ok'')"

section \<open>What a slide reaches\<close>

text \<open>
  A cell that a sliding piece may pass over, and a cell on which it may end. With
  \<open>ignoreBlockers\<close> every cell of the board qualifies for both.
\<close>

definition passable :: "board \<Rightarrow> bool \<Rightarrow> position \<Rightarrow> bool" where
  "passable b ig q \<longleftrightarrow> isCellEmpty b q \<or> ig \<and> isWithinBounds b q"

definition landable :: "board \<Rightarrow> piece \<Rightarrow> bool \<Rightarrow> position \<Rightarrow> bool" where
  "landable b p ig q \<longleftrightarrow>
     isWithinBounds b q \<and> (isCellEmpty b q \<or> ig \<or> getColor (slot b q) \<noteq> getColor p)"

definition ray :: "position \<Rightarrow> int \<Rightarrow> int \<Rightarrow> nat \<Rightarrow> position" where
  "ray og dr dc k = Pos (row og + int k * dr) (col og + int k * dc)"

lemma ray_0 [simp]: "ray og dr dc 0 = og"
  by (simp add: ray_def)

lemma ray_Suc: "ray og dr dc (Suc k) = ray (Pos (row og + dr) (col og + dc)) dr dc k"
  by (simp add: ray_def algebra_simps)

lemma slideOneDirection_iff:
  assumes "\<not> (dr = 0 \<and> dc = 0)"
  shows "q \<in> set (slideOneDirection b p dr dc ig r c) \<longleftrightarrow>
    (\<exists>k. q = ray (Pos r c) dr dc k \<and> landable b p ig q \<and>
         (\<forall>j<k. passable b ig (ray (Pos r c) dr dc j)))"
  using assms
proof (induction b p dr dc ig r c rule: slideOneDirection.induct)
  case (1 b p dr dc ig r c)
  let ?o = "Pos r c"
  let ?P = "\<lambda>og k. q = ray og dr dc k \<and> landable b p ig q \<and> (\<forall>j<k. passable b ig (ray og dr dc j))"
  show ?case
  proof (cases "passable b ig ?o")
    case True
    then have "slideOneDirection b p dr dc ig r c = ?o # slideOneDirection b p dr dc ig (r + dr) (c + dc)"
      using "1.prems" by (subst slideOneDirection.simps) (auto simp: passable_def isCellEmpty_iff)
    moreover have "q \<in> set (slideOneDirection b p dr dc ig (r + dr) (c + dc)) \<longleftrightarrow>
        (\<exists>k. ?P (Pos (r + dr) (c + dc)) k)"
      using 1 True by (cases "isCellEmpty b ?o") (auto simp: passable_def isCellEmpty_iff)
    moreover have "(\<exists>k. ?P ?o k) \<longleftrightarrow> q = ?o \<or> (\<exists>k. ?P (Pos (r + dr) (c + dc)) k)"
    proof -
      have "?P ?o (Suc k) = ?P (Pos (r + dr) (c + dc)) k" for k
        using True by (auto simp: ray_Suc less_Suc_eq_0_disj)
      moreover have "?P ?o 0 \<longleftrightarrow> q = ?o"
        using True by (auto simp: passable_def landable_def isCellEmpty_iff)
      ultimately show ?thesis by (simp only: ex_nat_iff [of "?P ?o"])
    qed
    ultimately show ?thesis by auto
  next
    case False
    have "(\<exists>k. ?P ?o k) \<longleftrightarrow> ?P ?o 0"
      using False by (metis gr0I ray_0)
    moreover have "set (slideOneDirection b p dr dc ig r c) = (if landable b p ig ?o then {?o} else {})"
      using False "1.prems" by (subst slideOneDirection.simps) (auto simp: passable_def landable_def)
    ultimately show ?thesis by auto
  qed
qed

definition slidingKind :: "kind \<Rightarrow> bool" where
  "slidingKind k \<longleftrightarrow> k \<in> {Rook, Bishop, Queen}"

fun directionsOf :: "kind \<Rightarrow> (int \<times> int) list" where
  "directionsOf Rook = rookDirections"
| "directionsOf Bishop = bishopDirections"
| "directionsOf Queen = queenDirections"
| "directionsOf _ = []"

lemmas direction_defs = rookDirections_def bishopDirections_def queenDirections_def

lemma directionsOf_nonzero: "(dr, dc) \<in> set (directionsOf k) \<Longrightarrow> \<not> (dr = 0 \<and> dc = 0)"
  by (cases k) (auto simp: direction_defs)

lemma directionsOf_unit:
  "(dr, dc) \<in> set (directionsOf k) \<Longrightarrow> \<bar>dr\<bar> \<le> 1 \<and> \<bar>dc\<bar> \<le> 1"
  by (cases k) (auto simp: direction_defs)

lemma legalDestinations_sliding:
  "slidingKind (getKind p) \<Longrightarrow> legalDestinations b p ig = slide b p (directionsOf (getKind p)) ig"
  by (auto simp: slidingKind_def legalDestinations_def rookMoves_def bishopMoves_def queenMoves_def)

lemma slide_iff:
  assumes "\<And>dr dc. (dr, dc) \<in> set ds \<Longrightarrow> \<not> (dr = 0 \<and> dc = 0)"
  shows "q \<in> set (slide b p ds ig) \<longleftrightarrow>
    (\<exists>(dr, dc) \<in> set ds. \<exists>k>0. q = ray (getCell p) dr dc k \<and> landable b p ig q \<and>
       (\<forall>j. 0 < j \<and> j < k \<longrightarrow> passable b ig (ray (getCell p) dr dc j)))"
proof -
  have "q \<in> set (slideOneDirection b p dr dc ig (row (getCell p) + dr) (col (getCell p) + dc)) \<longleftrightarrow>
      (\<exists>k>0. q = ray (getCell p) dr dc k \<and> landable b p ig q \<and>
        (\<forall>j. 0 < j \<and> j < k \<longrightarrow> passable b ig (ray (getCell p) dr dc j)))" (is "?L \<longleftrightarrow> (\<exists>k>0. ?Q k)")
    if "(dr, dc) \<in> set ds" for dr dc
  proof -
    have step: "?Q (Suc k) \<longleftrightarrow>
        q = ray (Pos (row (getCell p) + dr) (col (getCell p) + dc)) dr dc k \<and> landable b p ig q \<and>
        (\<forall>j<k. passable b ig (ray (Pos (row (getCell p) + dr) (col (getCell p) + dc)) dr dc j))" for k
    proof -
      have "(\<forall>j. 0 < j \<and> j < Suc k \<longrightarrow> X j) \<longleftrightarrow> (\<forall>j<k. X (Suc j))" for X
        by (metis Suc_less_eq gr0_implies_Suc zero_less_Suc)
      then show ?thesis by (simp add: ray_Suc)
    qed
    have "?L \<longleftrightarrow> (\<exists>k. ?Q (Suc k))"
      unfolding step using slideOneDirection_iff [OF assms [OF that]] by blast
    also have "\<dots> \<longleftrightarrow> (\<exists>k>0. ?Q k)" by (metis gr0_conv_Suc)
    finally show ?thesis .
  qed
  then have "(\<exists>(dr, dc) \<in> set ds. q \<in> set (slideOneDirection b p dr dc ig
        (row (getCell p) + dr) (col (getCell p) + dc))) \<longleftrightarrow>
      (\<exists>(dr, dc) \<in> set ds. \<exists>k>0. q = ray (getCell p) dr dc k \<and> landable b p ig q \<and>
       (\<forall>j. 0 < j \<and> j < k \<longrightarrow> passable b ig (ray (getCell p) dr dc j)))"
    by (intro bex_cong) auto
  then show ?thesis by (simp add: slide_def case_prod_beta)
qed

lemma slide_directions_iff:
  "q \<in> set (slide b p (directionsOf k) ig) \<longleftrightarrow>
    (\<exists>(dr, dc) \<in> set (directionsOf k). \<exists>n>0. q = ray (getCell p) dr dc n \<and> landable b p ig q \<and>
       (\<forall>j. 0 < j \<and> j < n \<longrightarrow> passable b ig (ray (getCell p) dr dc j)))"
  by (rule slide_iff) (use directionsOf_nonzero in blast)

section \<open>General facts about destinations\<close>

definition aligned :: "position \<Rightarrow> position \<Rightarrow> bool" where
  "aligned p q \<longleftrightarrow> row p = row q \<or> col p = col q \<or> \<bar>row q - row p\<bar> = \<bar>col q - col p\<bar>"

lemma slide_dest:
  assumes "q \<in> set (slide b p (directionsOf k) ig)"
  shows "isWithinBounds b q \<and> q \<noteq> getCell p \<and> aligned (getCell p) q"
proof -
  obtain dr dc n where d: "(dr, dc) \<in> set (directionsOf k)" and n: "0 < n"
    and q: "q = ray (getCell p) dr dc n" "landable b p ig q"
    using assms slide_directions_iff [of q b p k ig] by auto
  have u: "\<bar>dr\<bar> \<le> 1" "\<bar>dc\<bar> \<le> 1" "\<not> (dr = 0 \<and> dc = 0)"
    using d directionsOf_unit directionsOf_nonzero by blast+
  then have "dr = 0 \<or> dc = 0 \<or> \<bar>dr\<bar> = \<bar>dc\<bar>" by linarith
  then have "aligned (getCell p) q"
    using q(1) by (auto simp: aligned_def ray_def abs_mult)
  moreover have "q \<noteq> getCell p"
    using q(1) n u(3) by (cases "getCell p") (auto simp: ray_def)
  ultimately show ?thesis using q(2) by (simp add: landable_def)
qed

lemma kingMoves_iff:
  "q \<in> set (kingMoves b p ig) \<longleftrightarrow>
     landable b p ig q \<and> q \<noteq> getCell p \<and>
     \<bar>row q - row (getCell p)\<bar> \<le> 1 \<and> \<bar>col q - col (getCell p)\<bar> \<le> 1"
proof -
  let ?r = "row (getCell p)" and ?c = "col (getCell p)"
  have "q \<in> set (kingMoves b p ig) \<longleftrightarrow> (\<exists>dr \<in> {-1, 0, 1}. \<exists>dc \<in> {-1, 0, 1}.
      \<not> (dr = 0 \<and> dc = 0) \<and> q = Pos (?r + dr) (?c + dc) \<and> landable b p ig q)" (is "_ = ?E")
    unfolding kingMoves_def in_concat_map list.set
    by (intro bex_cong refl) (auto simp: landable_def Let_def)
  also have "?E \<longleftrightarrow> landable b p ig q \<and> q \<noteq> getCell p \<and> \<bar>row q - ?r\<bar> \<le> 1 \<and> \<bar>col q - ?c\<bar> \<le> 1"
  proof
    assume ?E
    then show "landable b p ig q \<and> q \<noteq> getCell p \<and> \<bar>row q - ?r\<bar> \<le> 1 \<and> \<bar>col q - ?c\<bar> \<le> 1"
      by (cases "getCell p") auto
  next
    assume *: "landable b p ig q \<and> q \<noteq> getCell p \<and> \<bar>row q - ?r\<bar> \<le> 1 \<and> \<bar>col q - ?c\<bar> \<le> 1"
    then have "row q - ?r \<in> {-1, 0, 1}" "col q - ?c \<in> {-1, 0, 1}" by auto
    moreover from * have "\<not> (row q - ?r = 0 \<and> col q - ?c = 0)"
      by (cases q; cases "getCell p") auto
    moreover have "q = Pos (?r + (row q - ?r)) (?c + (col q - ?c))" by (cases q) simp
    ultimately show ?E using * by blast
  qed
  finally show ?thesis .
qed

lemma knightMoves_iff:
  "q \<in> set (knightMoves b p) \<longleftrightarrow> isWithinBounds b q \<and>
     (\<bar>row q - row (getCell p)\<bar> = 2 \<and> \<bar>col q - col (getCell p)\<bar> = 1 \<or>
      \<bar>row q - row (getCell p)\<bar> = 1 \<and> \<bar>col q - col (getCell p)\<bar> = 2)"
proof -
  obtain r c where p: "getCell p = Pos r c" by (cases "getCell p") auto
  obtain qr qc where q: "q = Pos qr qc" by (cases q) auto
  have two: "\<bar>x - y\<bar> = 2 \<longleftrightarrow> x = y - 2 \<or> x = y + 2" "\<bar>x - y\<bar> = 1 \<longleftrightarrow> x = y - 1 \<or> x = y + 1"
    for x y :: int by linarith+
  show ?thesis
    unfolding q by (auto simp: knightMoves_def knightJumps_def p two)
qed

text \<open>The forward direction of a pawn and the row it starts on.\<close>

definition pawnDir :: "color \<Rightarrow> int" where
  "pawnDir c = (if c = White then -1 else 1)"

definition pawnStart :: "board \<Rightarrow> color \<Rightarrow> int" where
  "pawnStart b c = (if c = White then getHeight b - 2 else 1)"

lemma pawnMoves_iff:
  "q \<in> set (pawnMoves b p) \<longleftrightarrow>
     (let r = row (getCell p); c = col (getCell p); d = pawnDir (getColor p) in
      q = Pos (r + d) c \<and> isCellEmpty b q \<or>
      q = Pos (r + 2 * d) c \<and> r = pawnStart b (getColor p) \<and> isCellEmpty b (Pos (r + d) c) \<and> isCellEmpty b q \<or>
      (q = Pos (r + d) (c - 1) \<or> q = Pos (r + d) (c + 1)) \<and> isWithinBounds b q \<and>
        \<not> isCellEmpty b q \<and> getColor (slot b q) \<noteq> getColor p)"
  by (auto simp: pawnMoves_def Let_def pawnDir_def pawnStart_def isCellEmpty_iff)

lemma legalDestinations_dest:
  assumes "q \<in> set (legalDestinations b p ig)"
  shows "isWithinBounds b q" and "q \<noteq> getCell p"
    and "getKind p \<noteq> Knight \<Longrightarrow> aligned (getCell p) q"
proof -
  have "isWithinBounds b q \<and> q \<noteq> getCell p \<and> (getKind p \<noteq> Knight \<longrightarrow> aligned (getCell p) q)"
  proof (cases "slidingKind (getKind p)")
    case True
    then show ?thesis using assms legalDestinations_sliding slide_dest by metis
  next
    case False
    then consider "getKind p = King" | "getKind p = Knight" | "getKind p = Pawn" | "getKind p = NoKind"
      by (cases "getKind p") (auto simp: slidingKind_def)
    then show ?thesis
    proof cases
      case 1
      then have "q \<in> set (kingMoves b p ig)" using assms by (simp add: legalDestinations_def)
      then have "landable b p ig q" "q \<noteq> getCell p"
        "\<bar>row q - row (getCell p)\<bar> \<le> 1" "\<bar>col q - col (getCell p)\<bar> \<le> 1"
        using kingMoves_iff [of q b p ig] by blast+
      moreover from this have "aligned (getCell p) q" unfolding aligned_def by arith
      ultimately show ?thesis by (simp add: landable_def)
    next
      case 2
      then have "q \<in> set (knightMoves b p)" using assms by (simp add: legalDestinations_def)
      with 2 show ?thesis by (auto simp: knightMoves_iff)
    next
      case 3
      then have "q \<in> set (pawnMoves b p)" using assms by (simp add: legalDestinations_def)
      then show ?thesis
        by (cases "getCell p"; cases "getColor p = White")
          (auto simp: pawnMoves_iff Let_def pawnDir_def aligned_def isCellEmpty_iff)
    next
      case 4
      then show ?thesis using assms by (simp add: legalDestinations_def)
    qed
  qed
  then show "isWithinBounds b q" and "q \<noteq> getCell p"
    and "getKind p \<noteq> Knight \<Longrightarrow> aligned (getCell p) q" by auto
qed

lemma blockers_mono:
  "landable b p False x \<Longrightarrow> landable b p True x" "passable b False x \<Longrightarrow> passable b True x"
  by (auto simp: landable_def passable_def)

lemma slide_mono:
  assumes "q \<in> set (slide b p (directionsOf k) False)"
  shows "q \<in> set (slide b p (directionsOf k) True)"
proof -
  obtain dr dc n where "(dr, dc) \<in> set (directionsOf k)" "0 < n" "q = ray (getCell p) dr dc n"
    "landable b p False q" "\<forall>j. 0 < j \<and> j < n \<longrightarrow> passable b False (ray (getCell p) dr dc j)"
    using assms slide_directions_iff [of q b p k False] by auto
  then show ?thesis using slide_directions_iff [of q b p k True] blockers_mono by (auto intro!: bexI [of _ "(dr, dc)"])
qed

lemma legalDestinations_mono:
  assumes "q \<in> set (legalDestinations b p False)"
  shows "q \<in> set (legalDestinations b p True)"
proof (cases "slidingKind (getKind p)")
  case True
  then show ?thesis using assms slide_mono legalDestinations_sliding by metis
next
  case False
  then show ?thesis using assms
    by (cases "getKind p")
      (auto simp: slidingKind_def legalDestinations_def kingMoves_iff intro: blockers_mono)
qed

lemma validateMove_valid_iff:
  "is_valid (validateMove b from to relaxed) \<longleftrightarrow>
     isWithinBounds b from \<and> isWithinBounds b to \<and> getColor (slot b from) \<noteq> NoColor \<and>
     (getColor (slot b to) = getColor (slot b from) \<longrightarrow> getKind (slot b from) = Knight \<or> relaxed) \<and>
     to \<in> set (legalDestinations b (slot b from) relaxed)"
  by (auto simp: validateMove_def getPiece_def list_ex_iff)

lemma validateMove_validD:
  assumes "is_valid (validateMove b from to relaxed)"
  shows "isWithinBounds b from" "isWithinBounds b to" "getColor (slot b from) \<noteq> NoColor"
    and "to \<in> set (legalDestinations b (slot b from) relaxed)"
    and "reason (validateMove b from to relaxed) = ''ok''"
  using assms by (auto simp: validateMove_def getPiece_def list_ex_iff split: if_splits)

lemma validateJump_valid_iff:
  "is_valid (validateJump b pos) \<longleftrightarrow> isWithinBounds b pos \<and> getColor (slot b pos) \<noteq> NoColor"
  by (auto simp: validateJump_def getPiece_def)

end
