(* ===== verification/Motion_Path.thy ===== *)
theory Motion_Path
  imports Chess_Model "HOL-Library.Signed_Division"
begin

text \<open>
  Straight-line motion (\<open>server/realtime/Motion.h\<close>, \<open>MotionPath.cpp\<close>, \<open>RestDurations.h\<close>): the
  record of an active motion, the time it takes, and the checkpoints it passes. The two
  divisions of \<open>pathCheckpoints\<close> are C++ integer divisions, which round towards zero: they are
  \<open>sdiv\<close>. A jump is a motion whose two ends are the same cell.
\<close>

section \<open>Motions and their timing\<close>

record motion =
  m_from :: position
  m_to :: position
  start_time_ms :: int
  arrival_time_ms :: int
  piece_id :: int

definition MS_PER_SQUARE_TRAVELED :: int where
  "MS_PER_SQUARE_TRAVELED = 1000"

definition SHORT_REST_MS :: int where
  "SHORT_REST_MS = 500"

definition LONG_REST_MS :: int where
  "LONG_REST_MS = 1000"

definition JUMP_DURATION_MS :: int where
  "JUMP_DURATION_MS = 1000"

definition calcTravelTime :: "position \<Rightarrow> position \<Rightarrow> int" where
  "calcTravelTime from to =
     (let dr = \<bar>row to - row from\<bar>; dc = \<bar>col to - col from\<bar>
      in max dr dc * MS_PER_SQUARE_TRAVELED)"

definition pathCheckpoints :: "motion \<Rightarrow> (position \<times> int) list" where
  "pathCheckpoints m =
     (let totalDr = row (m_to m) - row (m_from m);
          totalDc = col (m_to m) - col (m_from m);
          steps = max \<bar>totalDr\<bar> \<bar>totalDc\<bar>
      in if steps = 0 then []
         else let dr = totalDr sdiv steps; dc = totalDc sdiv steps
              in map (\<lambda>i. (Pos (row (m_from m) + dr * i) (col (m_from m) + dc * i),
                          start_time_ms m + i * MS_PER_SQUARE_TRAVELED)) [1..steps])"

lemmas rest_defs = SHORT_REST_MS_def LONG_REST_MS_def JUMP_DURATION_MS_def MS_PER_SQUARE_TRAVELED_def

section \<open>The shape of a path\<close>

definition chebyshev :: "position \<Rightarrow> position \<Rightarrow> int" where
  "chebyshev p q = max \<bar>row q - row p\<bar> \<bar>col q - col p\<bar>"

definition unitRow :: "motion \<Rightarrow> int" where
  "unitRow m = (if \<bar>row (m_to m) - row (m_from m)\<bar> = chebyshev (m_from m) (m_to m)
     then sgn (row (m_to m) - row (m_from m)) else 0)"

definition unitCol :: "motion \<Rightarrow> int" where
  "unitCol m = (if \<bar>col (m_to m) - col (m_from m)\<bar> = chebyshev (m_from m) (m_to m)
     then sgn (col (m_to m) - col (m_from m)) else 0)"

definition pathCell :: "motion \<Rightarrow> nat \<Rightarrow> position" where
  "pathCell m k = Pos (row (m_from m) + unitRow m * int k) (col (m_from m) + unitCol m * int k)"

definition pathTime :: "motion \<Rightarrow> nat \<Rightarrow> int" where
  "pathTime m k = start_time_ms m + int k * MS_PER_SQUARE_TRAVELED"

definition pathLength :: "motion \<Rightarrow> nat" where
  "pathLength m = nat (chebyshev (m_from m) (m_to m))"

lemma calcTravelTime_chebyshev: "calcTravelTime p q = chebyshev p q * 1000"
  by (simp add: calcTravelTime_def chebyshev_def Let_def MS_PER_SQUARE_TRAVELED_def)

lemma chebyshev_nonneg [simp]: "0 \<le> chebyshev p q"
  by (simp add: chebyshev_def)

lemma chebyshev_0_iff: "chebyshev p q = 0 \<longleftrightarrow> p = q"
  by (cases p; cases q) (auto simp: chebyshev_def max_def)

lemma int_pathLength [simp]: "int (pathLength m) = chebyshev (m_from m) (m_to m)"
  by (simp add: pathLength_def)

lemma pathLength_0_iff: "pathLength m = 0 \<longleftrightarrow> m_from m = m_to m"
  by (metis int_pathLength chebyshev_0_iff of_nat_eq_0_iff)

lemma sdiv_unit:
  fixes a s :: int
  assumes "\<bar>a\<bar> \<le> s" "0 < s"
  shows "a sdiv s = (if \<bar>a\<bar> = s then sgn a else 0)"
  using assms by (auto simp: signed_divide_int_def sgn_if)

lemma pathCheckpoints_eq:
  "pathCheckpoints m = map (\<lambda>k. (pathCell m (Suc k), pathTime m (Suc k))) [0..<pathLength m]"
proof -
  let ?a = "row (m_to m) - row (m_from m)" let ?b = "col (m_to m) - col (m_from m)"
  let ?s = "max \<bar>?a\<bar> \<bar>?b\<bar>"
  have s: "?s = chebyshev (m_from m) (m_to m)" by (simp add: chebyshev_def)
  have upt: "[1..int n] = map (\<lambda>k. int (Suc k)) [0..<n]" for n
    by (induction n) (auto simp: upto_rec2)
  show ?thesis
  proof (cases "?s = 0")
    case True
    then show ?thesis using s by (simp add: pathCheckpoints_def Let_def pathLength_def)
  next
    case False
    then have pos: "0 < ?s" by linarith
    have "?a sdiv ?s = unitRow m" "?b sdiv ?s = unitCol m"
      using sdiv_unit [of ?a ?s] sdiv_unit [of ?b ?s] pos s by (auto simp: unitRow_def unitCol_def)
    moreover have "[1..?s] = map (\<lambda>k. int (Suc k)) [0..<pathLength m]"
      using upt [of "pathLength m"] s by simp
    ultimately show ?thesis
      using False by (simp add: pathCheckpoints_def Let_def pathCell_def pathTime_def)
  qed
qed

lemma length_pathCheckpoints [simp]: "length (pathCheckpoints m) = pathLength m"
  by (simp add: pathCheckpoints_eq)

lemma nth_pathCheckpoints:
  "k < pathLength m \<Longrightarrow> pathCheckpoints m ! k = (pathCell m (Suc k), pathTime m (Suc k))"
  by (simp add: pathCheckpoints_eq)

lemma in_pathCheckpoints:
  "(c, t) \<in> set (pathCheckpoints m) \<longleftrightarrow>
     (\<exists>k. 0 < k \<and> k \<le> pathLength m \<and> c = pathCell m k \<and> t = pathTime m k)"
proof -
  have "(\<exists>k < n. P (Suc k)) \<longleftrightarrow> (\<exists>k. 0 < k \<and> k \<le> n \<and> P k)" for n P
    by (metis Suc_le_eq Suc_pred' zero_less_Suc)
  from this [of "pathLength m" "\<lambda>k. c = pathCell m k \<and> t = pathTime m k"] show ?thesis
    unfolding pathCheckpoints_eq by auto
qed

lemma pathTime_less_iff: "pathTime m j < pathTime m k \<longleftrightarrow> j < k"
  by (simp add: pathTime_def MS_PER_SQUARE_TRAVELED_def)

lemma unit_cases:
  "unitRow m \<in> {-1, 0, 1}" "unitCol m \<in> {-1, 0, 1}"
  by (auto simp: unitRow_def unitCol_def sgn_if)

lemma unit_nonzero:
  assumes "m_from m \<noteq> m_to m"
  shows "unitRow m \<noteq> 0 \<or> unitCol m \<noteq> 0"
proof -
  have "chebyshev (m_from m) (m_to m) \<noteq> 0" using assms by (simp add: chebyshev_0_iff)
  then show ?thesis by (auto simp: unitRow_def unitCol_def chebyshev_def max_def sgn_0_0 split: if_splits)
qed

lemma unit_scaled_between:
  fixes d e k :: int
  assumes "0 \<le> k" "k \<le> e" "\<bar>d\<bar> \<le> e"
  shows "min 0 d \<le> (if \<bar>d\<bar> = e then sgn d else 0) * k \<and> (if \<bar>d\<bar> = e then sgn d else 0) * k \<le> max 0 d"
  using assms by (auto simp: sgn_if)

lemma pathCell_between:
  assumes "k \<le> pathLength m"
  shows "min (row (m_from m)) (row (m_to m)) \<le> row (pathCell m k)"
    "row (pathCell m k) \<le> max (row (m_from m)) (row (m_to m))"
    "min (col (m_from m)) (col (m_to m)) \<le> col (pathCell m k)"
    "col (pathCell m k) \<le> max (col (m_from m)) (col (m_to m))"
proof -
  let ?e = "chebyshev (m_from m) (m_to m)"
  have k: "int k \<le> ?e" using assms by (metis int_pathLength of_nat_le_iff)
  have d: "\<bar>row (m_to m) - row (m_from m)\<bar> \<le> ?e" "\<bar>col (m_to m) - col (m_from m)\<bar> \<le> ?e"
    by (simp_all add: chebyshev_def)
  note b = unit_scaled_between [OF _ k d(1)] unit_scaled_between [OF _ k d(2)]
  show "min (row (m_from m)) (row (m_to m)) \<le> row (pathCell m k)"
    "row (pathCell m k) \<le> max (row (m_from m)) (row (m_to m))"
    using b(1) by (auto simp: pathCell_def unitRow_def)
  show "min (col (m_from m)) (col (m_to m)) \<le> col (pathCell m k)"
    "col (pathCell m k) \<le> max (col (m_from m)) (col (m_to m))"
    using b(2) by (auto simp: pathCell_def unitCol_def)
qed

lemma pathCell_within:
  assumes "isWithinBounds b (m_from m)" "isWithinBounds b (m_to m)" "k \<le> pathLength m"
  shows "isWithinBounds b (pathCell m k)"
  using assms pathCell_between [OF assms(3)] unfolding isWithinBounds_def by linarith

lemma chebyshev_pathCell:
  assumes "m_from m \<noteq> m_to m"
  shows "chebyshev (m_from m) (pathCell m k) = int k"
  using unit_nonzero [OF assms] unit_cases [of m]
  by (auto simp: chebyshev_def pathCell_def abs_mult)

lemma pathCell_neq_from:
  "m_from m \<noteq> m_to m \<Longrightarrow> 0 < k \<Longrightarrow> pathCell m k \<noteq> m_from m"
  using chebyshev_pathCell [of m k] chebyshev_0_iff [of "m_from m" "pathCell m k"] by auto

lemma pathCell_inj:
  "m_from m \<noteq> m_to m \<Longrightarrow> pathCell m j = pathCell m k \<longleftrightarrow> j = k"
  using chebyshev_pathCell by (metis of_nat_eq_iff)

text \<open>
  On a rank, a file or a diagonal the path is the straight line to the destination, which it
  reaches at its last checkpoint.
\<close>

definition alignedMotion :: "motion \<Rightarrow> bool" where
  "alignedMotion m \<longleftrightarrow> row (m_from m) = row (m_to m) \<or> col (m_from m) = col (m_to m) \<or>
     \<bar>row (m_to m) - row (m_from m)\<bar> = \<bar>col (m_to m) - col (m_from m)\<bar>"

lemma unit_aligned:
  assumes "alignedMotion m"
  shows "unitRow m = sgn (row (m_to m) - row (m_from m))"
    and "unitCol m = sgn (col (m_to m) - col (m_from m))"
  using assms by (auto simp: alignedMotion_def unitRow_def unitCol_def chebyshev_def)

lemma pathCell_last:
  assumes "alignedMotion m"
  shows "pathCell m (pathLength m) = m_to m"
proof -
  have "sgn (row (m_to m) - row (m_from m)) * chebyshev (m_from m) (m_to m) = row (m_to m) - row (m_from m)"
    "sgn (col (m_to m) - col (m_from m)) * chebyshev (m_from m) (m_to m) = col (m_to m) - col (m_from m)"
    using assms by (auto simp: alignedMotion_def chebyshev_def sgn_if)
  then show ?thesis by (cases "m_to m") (simp add: pathCell_def unit_aligned [OF assms])
qed

section \<open>Cutting a motion short\<close>

text \<open>
  The resolvers stop a motion at one of its checkpoints by overwriting its destination and its
  arrival time.
\<close>

definition truncateAtCheckpoint :: "motion \<Rightarrow> nat \<Rightarrow> motion" where
  "truncateAtCheckpoint m k =
     m\<lparr>m_to := fst (pathCheckpoints m ! k), arrival_time_ms := snd (pathCheckpoints m ! k)\<rparr>"

lemma truncate_fields:
  assumes "k < pathLength m"
  shows "m_from (truncateAtCheckpoint m k) = m_from m"
    "m_to (truncateAtCheckpoint m k) = pathCell m (Suc k)"
    "start_time_ms (truncateAtCheckpoint m k) = start_time_ms m"
    "arrival_time_ms (truncateAtCheckpoint m k) = pathTime m (Suc k)"
    "piece_id (truncateAtCheckpoint m k) = piece_id m"
  using assms by (simp_all add: truncateAtCheckpoint_def nth_pathCheckpoints)

lemma truncate_path:
  assumes "k < pathLength m"
  shows "pathCheckpoints (truncateAtCheckpoint m k) = take (Suc k) (pathCheckpoints m)"
proof -
  let ?t = "truncateAtCheckpoint m k"
  note f = truncate_fields [OF assms]
  have neq: "m_from m \<noteq> m_to m" using assms pathLength_0_iff [of m] by auto
  have len: "pathLength ?t = Suc k"
    by (simp add: pathLength_def f chebyshev_pathCell [OF neq] del: of_nat_Suc)
  have ch: "chebyshev (m_from m) (pathCell m (Suc k)) = int (Suc k)"
    by (rule chebyshev_pathCell [OF neq])
  have "unitRow ?t = unitRow m" "unitCol ?t = unitCol m"
    using unit_cases [of m] unfolding unitRow_def [of ?t] unitCol_def [of ?t] f ch
    by (auto simp: pathCell_def)
  then have "pathCell ?t j = pathCell m j" "pathTime ?t j = pathTime m j" for j
    by (simp_all add: pathCell_def pathTime_def f)
  then show ?thesis
    using assms by (simp add: pathCheckpoints_eq len take_map del: upt_Suc)
qed

text \<open>
  A motion is timed: a jump takes \<^const>\<open>JUMP_DURATION_MS\<close>, a slide its travel time. Cutting a
  motion short keeps it timed.
\<close>

definition timedMotion :: "motion \<Rightarrow> bool" where
  "timedMotion m \<longleftrightarrow> arrival_time_ms m = start_time_ms m +
     (if m_from m = m_to m then JUMP_DURATION_MS else calcTravelTime (m_from m) (m_to m))"

lemma truncate_timed [inv_intros]:
  assumes "k < pathLength m"
  shows "timedMotion (truncateAtCheckpoint m k)"
proof -
  have neq: "m_from m \<noteq> m_to m" using assms pathLength_0_iff [of m] by auto
  show ?thesis
    using pathCell_neq_from [OF neq, of "Suc k"] chebyshev_pathCell [OF neq, of "Suc k"]
    by (simp add: timedMotion_def truncate_fields [OF assms] calcTravelTime_chebyshev pathTime_def
        MS_PER_SQUARE_TRAVELED_def)
qed

lemma truncate_within [inv_intros]:
  assumes "isWithinBounds b (m_from m)" "isWithinBounds b (m_to m)" "k < pathLength m"
  shows "isWithinBounds b (m_to (truncateAtCheckpoint m k))"
  using pathCell_within [OF assms(1,2), of "Suc k"] assms(3) by (simp add: truncate_fields)

lemma truncate_slide:
  assumes "k < pathLength m"
  shows "m_from (truncateAtCheckpoint m k) \<noteq> m_to (truncateAtCheckpoint m k)"
proof -
  have "m_from m \<noteq> m_to m" using assms pathLength_0_iff [of m] by auto
  then show ?thesis using pathCell_neq_from [of m "Suc k"] by (simp add: truncate_fields [OF assms])
qed

lemma timed_pathTime:
  assumes "timedMotion m" "m_from m \<noteq> m_to m"
  shows "arrival_time_ms m = pathTime m (pathLength m)"
  using assms by (simp add: timedMotion_def pathTime_def calcTravelTime_chebyshev MS_PER_SQUARE_TRAVELED_def)

lemma timed_arrives_later: "timedMotion m \<Longrightarrow> start_time_ms m + 1000 \<le> arrival_time_ms m"
proof (cases "m_from m = m_to m")
  case False
  then have "1 \<le> chebyshev (m_from m) (m_to m)"
    using chebyshev_0_iff [of "m_from m" "m_to m"] chebyshev_nonneg [of "m_from m" "m_to m"] by linarith
  then show "timedMotion m \<Longrightarrow> ?thesis"
    using False by (simp add: timedMotion_def calcTravelTime_chebyshev)
qed (simp add: timedMotion_def JUMP_DURATION_MS_def)

lemma truncate_arrival_le:
  assumes "k < pathLength m" "timedMotion m"
  shows "arrival_time_ms (truncateAtCheckpoint m k) \<le> arrival_time_ms m"
proof -
  have neq: "m_from m \<noteq> m_to m" using assms pathLength_0_iff [of m] by auto
  have "pathTime m (Suc k) \<le> pathTime m (pathLength m)"
    using pathTime_less_iff [of m "pathLength m" "Suc k"] assms(1) by linarith
  then show ?thesis using timed_pathTime [OF assms(2) neq] by (simp add: truncate_fields [OF assms(1)])
qed

end
