(* ===== verification/Collision.thy ===== *)
theory Collision
  imports Complex_Main Motion_Path
begin

text \<open>
  The state of the real-time arbiter and the collision resolver
  (\<open>server/realtime/RealTimeArbiter.h\<close>, \<open>CaptureObserver.h\<close>, \<open>MoveObserver.h\<close>,
  \<open>CollisionResolver.cpp\<close>): friendly near misses when a motion starts, enemy collisions,
  moving friendly blocks and stationary blocks on every tick. The resolver holds references to
  the arbiter's fields; its operations are functions on the arbiter's record.

  A notification of the capture and move observers is an entry of the field
  \<open>notifications\<close>, in the order in which the observers are called; the observers themselves are
  modelled in \<open>Observers\<close>.
\<close>

section \<open>The state of the arbiter\<close>

record capture_impact =
  capturingPieceId :: int
  collisionCell :: position
  impactProgress :: rat

abbreviation Impact :: "int \<Rightarrow> position \<Rightarrow> rat \<Rightarrow> capture_impact" where
  "Impact i c p \<equiv> \<lparr>capturingPieceId = i, collisionCell = c, impactProgress = p\<rparr>"

datatype notification =
    PieceCaptured piece capture_impact
  | MoveCompleted piece position position bool int

record arbiter =
  game_clock_ms :: int
  active_motions :: "motion list"
  cooldown_until_ms :: "(int, int) umap"
  captured_pieces :: "piece list"
  arb_board :: board
  collisionEnabled :: bool
  notifications :: "notification list"

definition newArbiter :: "board \<Rightarrow> bool \<Rightarrow> arbiter" where
  "newArbiter b collision = \<lparr>game_clock_ms = 0, active_motions = [], cooldown_until_ms = [],
     captured_pieces = [], arb_board = b, collisionEnabled = collision, notifications = []\<rparr>"

text \<open>
  A capture, as the resolvers perform it: the piece on a cell is marked captured, remembered,
  and announced to the capture observers.
\<close>

definition capturePiece :: "position \<Rightarrow> capture_impact \<Rightarrow> arbiter \<Rightarrow> arbiter" where
  "capturePiece pos impact a =
     (case getPiece (arb_board a) pos of
        None \<Rightarrow> a
      | Some piece \<Rightarrow>
          a\<lparr>arb_board := withPiece pos (transitionTo Captured) (arb_board a),
            captured_pieces := captured_pieces a @ [transitionTo Captured piece],
            notifications := notifications a @ [PieceCaptured (transitionTo Captured piece) impact]\<rparr>)"

section \<open>Occupancies and steps\<close>

record occupancy =
  o_cell :: position
  o_enter :: int
  o_leave :: int
  o_motionIndex :: nat
  o_checkpointIndex :: int

record step =
  s_from :: position
  s_to :: position
  s_enter :: int
  s_leave :: int
  s_motionIndex :: nat
  s_checkpointIndex :: int

definition overlaps :: "int \<Rightarrow> int \<Rightarrow> int \<Rightarrow> int \<Rightarrow> bool" where
  "overlaps enter1 leave1 enter2 leave2 \<longleftrightarrow> max enter1 enter2 < min leave1 leave2"

text \<open>The inner loop of \<open>collect\<close>, over the checkpoints of the motion with index \<open>i\<close>.\<close>

fun collectPath :: "int \<Rightarrow> int \<Rightarrow> nat \<Rightarrow> position \<Rightarrow> int \<Rightarrow> int \<Rightarrow> (position \<times> int) list \<Rightarrow>
    occupancy list \<times> step list" where
  "collectPath previousClock gameClockMs i prevCell prevTime k [] = ([], [])"
| "collectPath previousClock gameClockMs i prevCell prevTime k ((cell, enter) # rest) =
     (let leave = (case rest of [] \<Rightarrow> INT_MAX | (_, t) # _ \<Rightarrow> t);
          (occ, steps) = collectPath previousClock gameClockMs i cell enter (k + 1) rest
      in ((if leave > previousClock \<and> enter \<le> gameClockMs
           then [\<lparr>o_cell = cell, o_enter = enter, o_leave = leave, o_motionIndex = i,
                  o_checkpointIndex = k\<rparr>] else []) @ occ,
          (if enter > previousClock \<and> prevTime \<le> gameClockMs
           then [\<lparr>s_from = prevCell, s_to = cell, s_enter = prevTime, s_leave = enter,
                  s_motionIndex = i, s_checkpointIndex = k\<rparr>] else []) @ steps))"

text \<open>The motions \<open>collect\<close> looks at: slides of a piece that is not a knight.\<close>

definition tracked :: "board \<Rightarrow> motion \<Rightarrow> bool" where
  "tracked b m =
     (if m_from m = m_to m then False
      else case getPiece b (m_from m) of None \<Rightarrow> False | Some piece \<Rightarrow> getKind piece \<noteq> Knight)"

definition collectMotion :: "board \<Rightarrow> int \<Rightarrow> int \<Rightarrow> nat \<times> motion \<Rightarrow> occupancy list \<times> step list" where
  "collectMotion b previousClock gameClockMs = (\<lambda>(i, m).
     if tracked b m
     then collectPath previousClock gameClockMs i (m_from m) (start_time_ms m) 0 (pathCheckpoints m)
     else ([], []))"

definition collect :: "board \<Rightarrow> motion list \<Rightarrow> int \<Rightarrow> int \<Rightarrow> occupancy list \<times> step list" where
  "collect b ms previousClock gameClockMs =
     (let parts = map (collectMotion b previousClock gameClockMs) (enumerate 0 ms)
      in (concat (map fst parts), concat (map snd parts)))"

definition isPieceSliding :: "motion list \<Rightarrow> int \<Rightarrow> bool" where
  "isPieceSliding ms pieceId \<longleftrightarrow> list_ex (\<lambda>m. piece_id m = pieceId \<and> m_from m \<noteq> m_to m) ms"

section \<open>Friendly near misses\<close>

text \<open>
  The two inner loops of \<open>applyNearMiss\<close> update \<open>truncateAt\<close>, which starts at -1 and ends as
  the smallest index of a claimed checkpoint. The result \<open>None\<close> stands for \<open>false\<close>, and
  \<open>Some m\<close> for \<open>true\<close> with the motion as the reference parameter leaves it.
\<close>

definition nearMissScan :: "(position \<times> int) list \<Rightarrow> (position \<times> int) list \<Rightarrow> int \<Rightarrow> int" where
  "nearMissScan newPath otherPath truncateAt =
     fold (\<lambda>i. fold (\<lambda>j truncateAt.
         if fst (newPath ! i) = fst (otherPath ! j) \<and> snd (newPath ! i) \<ge> snd (otherPath ! j) \<and>
            (truncateAt = -1 \<or> int i < truncateAt)
         then int i else truncateAt)
       [0..<length otherPath]) [0..<length newPath] truncateAt"

definition applyNearMiss :: "board \<Rightarrow> motion list \<Rightarrow> motion \<Rightarrow> motion option" where
  "applyNearMiss b ms motion =
     (case getPiece b (m_from motion) of
        None \<Rightarrow> Some motion
      | Some movingPiece \<Rightarrow>
          if getKind movingPiece = Knight then Some motion
          else let newPath = pathCheckpoints motion;
                   truncateAt = fold (\<lambda>other truncateAt.
                       if m_from other = m_to other then truncateAt
                       else case getPiece b (m_from other) of
                              None \<Rightarrow> truncateAt
                            | Some otherPiece \<Rightarrow>
                                if getKind otherPiece = Knight then truncateAt
                                else if getColor otherPiece \<noteq> getColor movingPiece then truncateAt
                                else nearMissScan newPath (pathCheckpoints other) truncateAt) ms (-1)
               in if truncateAt = 0 then None
                  else if truncateAt > 0 then Some (truncateAtCheckpoint motion (nat (truncateAt - 1)))
                  else Some motion)"

section \<open>Pairs that cross\<close>

text \<open>
  The two double loops shared by \<open>resolveCollisions\<close> and \<open>resolveMovingFriendlyBlocks\<close>: each
  calls its own \<open>mark\<close> on the pairs of occupancies of one cell and on the pairs of steps that
  swap two cells, whenever the time windows overlap.
\<close>

definition crossing_occ :: "occupancy \<times> occupancy \<Rightarrow> bool" where
  "crossing_occ = (\<lambda>(x, y). o_motionIndex x \<noteq> o_motionIndex y \<and> o_cell x = o_cell y \<and>
     overlaps (o_enter x) (o_leave x) (o_enter y) (o_leave y))"

definition crossing_step :: "step \<times> step \<Rightarrow> bool" where
  "crossing_step = (\<lambda>(x, y). s_motionIndex x \<noteq> s_motionIndex y \<and> s_from x = s_to y \<and> s_to x = s_from y \<and>
     overlaps (s_enter x) (s_leave x) (s_enter y) (s_leave y))"

text \<open>One call of \<open>mark\<close>: the two motions with their cells, entry times and checkpoint indices.\<close>

record encounter =
  e_idxA :: nat
  e_idxB :: nat
  e_cellA :: position
  e_cellB :: position
  e_enterA :: int
  e_enterB :: int
  e_cpA :: int
  e_cpB :: int

definition occEncounter :: "occupancy \<times> occupancy \<Rightarrow> encounter" where
  "occEncounter = (\<lambda>(x, y). \<lparr>e_idxA = o_motionIndex x, e_idxB = o_motionIndex y,
     e_cellA = o_cell x, e_cellB = o_cell y, e_enterA = o_enter x, e_enterB = o_enter y,
     e_cpA = o_checkpointIndex x, e_cpB = o_checkpointIndex y\<rparr>)"

definition stepEncounter :: "step \<times> step \<Rightarrow> encounter" where
  "stepEncounter = (\<lambda>(x, y). \<lparr>e_idxA = s_motionIndex x, e_idxB = s_motionIndex y,
     e_cellA = s_to x, e_cellB = s_to y, e_enterA = s_enter x, e_enterB = s_enter y,
     e_cpA = s_checkpointIndex x, e_cpB = s_checkpointIndex y\<rparr>)"

definition encounters :: "board \<Rightarrow> motion list \<Rightarrow> int \<Rightarrow> int \<Rightarrow> encounter list" where
  "encounters b ms previousClock gameClockMs =
     (let (occ, steps) = collect b ms previousClock gameClockMs
      in map occEncounter (filter crossing_occ (pairs occ)) @
         map stepEncounter (filter crossing_step (pairs steps)))"

definition startsFirst :: "motion \<Rightarrow> motion \<Rightarrow> bool" where
  "startsFirst mA mB =
     (if start_time_ms mA \<noteq> start_time_ms mB then start_time_ms mA < start_time_ms mB
      else piece_id mA < piece_id mB)"

section \<open>Enemy collisions\<close>

definition clamp :: "rat \<Rightarrow> rat \<Rightarrow> rat \<Rightarrow> rat" where
  "clamp v lo hi = (if v < lo then lo else if hi < v then hi else v)"

definition collisionProgress :: "motion \<Rightarrow> int \<Rightarrow> rat" where
  "collisionProgress winner collisionTimeMs =
     (let duration = arrival_time_ms winner - start_time_ms winner
      in if duration > 0
         then clamp (of_int (collisionTimeMs - start_time_ms winner) / of_int duration) 0 1
         else 1)"

definition markEnemy :: "board \<Rightarrow> motion list \<Rightarrow> encounter \<Rightarrow>
    bool list \<times> (nat \<Rightarrow> capture_impact option) \<Rightarrow> bool list \<times> (nat \<Rightarrow> capture_impact option)" where
  "markEnemy b ms e = (\<lambda>(loses, impactFor).
     let mA = ms ! e_idxA e; mB = ms ! e_idxB e in
     case (getPiece b (m_from mA), getPiece b (m_from mB)) of
       (Some pieceA, Some pieceB) \<Rightarrow>
         if getColor pieceA = getColor pieceB then (loses, impactFor)
         else let aWins = startsFirst mA mB;
                  loserIdx = (if aWins then e_idxB e else e_idxA e);
                  winner = (if aWins then mA else mB);
                  cell = (if aWins then e_cellA e else e_cellB e);
                  collisionTimeMs = max (e_enterA e) (e_enterB e)
              in (loses[loserIdx := True],
                  impactFor(loserIdx \<mapsto>
                    Impact (piece_id winner) cell (collisionProgress winner collisionTimeMs)))
     | _ \<Rightarrow> (loses, impactFor))"

definition captureLoser :: "motion list \<Rightarrow> bool list \<Rightarrow> (nat \<Rightarrow> capture_impact option) \<Rightarrow> nat \<Rightarrow>
    arbiter \<times> bool \<Rightarrow> arbiter \<times> bool" where
  "captureLoser ms loses impactFor i = (\<lambda>(a, kingCaptured).
     if \<not> loses ! i then (a, kingCaptured)
     else let m = ms ! i in
       case getPiece (arb_board a) (m_from m) of
         None \<Rightarrow> (a, kingCaptured)
       | Some piece \<Rightarrow>
           let impact = (case impactFor i of Some x \<Rightarrow> x | None \<Rightarrow> Impact (getId piece) (m_from m) 1);
               a1 = capturePiece (m_from m) impact a
           in (a1\<lparr>arb_board := removePiece (m_from m) (arb_board a1)\<rparr>,
               kingCaptured \<or> getKind piece = King))"

definition resolveCollisions :: "int \<Rightarrow> int \<Rightarrow> arbiter \<times> bool \<Rightarrow> arbiter \<times> bool" where
  "resolveCollisions previousClock gameClockMs = (\<lambda>(a, kingCaptured).
     let ms = active_motions a; n = length ms;
         (loses, impactFor) = fold (markEnemy (arb_board a) ms)
            (encounters (arb_board a) ms previousClock gameClockMs) (replicate n False, \<lambda>_. None);
         (a1, kc) = fold (captureLoser ms loses impactFor) [0..<n] (a, kingCaptured);
         anyLoss = list_ex (\<lambda>i. loses ! i) [0..<n]
     in (if anyLoss
         then a1\<lparr>active_motions := map (\<lambda>i. ms ! i) (filter (\<lambda>i. \<not> loses ! i) [0..<n])\<rparr>
         else a1, kc))"

section \<open>Moving friendly blocks\<close>

definition markFriendly :: "board \<Rightarrow> motion list \<Rightarrow> encounter \<Rightarrow> (nat, int) umap \<Rightarrow> (nat, int) umap" where
  "markFriendly b ms e stopAt =
     (let mA = ms ! e_idxA e; mB = ms ! e_idxB e in
      case (getPiece b (m_from mA), getPiece b (m_from mB)) of
        (Some pieceA, Some pieceB) \<Rightarrow>
          if getColor pieceA \<noteq> getColor pieceB then stopAt
          else let aWins = startsFirst mA mB;
                   loserIdx = (if aWins then e_idxB e else e_idxA e);
                   loserCpIndex = (if aWins then e_cpB e else e_cpA e)
               in (case map_of stopAt loserIdx of
                     None \<Rightarrow> AList.update loserIdx loserCpIndex stopAt
                   | Some cp \<Rightarrow> if loserCpIndex < cp
                       then AList.update loserIdx loserCpIndex stopAt else stopAt)
      | _ \<Rightarrow> stopAt)"

text \<open>A slide that cannot make its first step: its piece goes into the long rest.\<close>

definition restInPlace :: "motion \<Rightarrow> int \<Rightarrow> arbiter \<Rightarrow> arbiter" where
  "restInPlace m gameClockMs a =
     a\<lparr>cooldown_until_ms := AList.update (piece_id m) (gameClockMs + LONG_REST_MS) (cooldown_until_ms a),
       arb_board := withPiece (m_from m) (transitionTo LongRest) (arb_board a)\<rparr>"

definition stopFriendly :: "int \<Rightarrow> nat \<times> int \<Rightarrow> arbiter \<times> nat list \<Rightarrow> arbiter \<times> nat list" where
  "stopFriendly gameClockMs = (\<lambda>(idx, cpIndex) (a, toErase).
     let m = active_motions a ! idx in
     case getPiece (arb_board a) (m_from m) of
       None \<Rightarrow> (a, toErase)
     | Some piece \<Rightarrow>
         if cpIndex = 0 then (restInPlace m gameClockMs a, toErase @ [idx])
         else (a\<lparr>active_motions := (active_motions a)[idx := truncateAtCheckpoint m (nat (cpIndex - 1))]\<rparr>,
               toErase))"

definition eraseAt :: "nat \<Rightarrow> 'a list \<Rightarrow> 'a list" where
  "eraseAt i xs = take i xs @ drop (Suc i) xs"

definition resolveMovingFriendlyBlocks ::
    "(nat \<Rightarrow> nat list) \<Rightarrow> int \<Rightarrow> int \<Rightarrow> arbiter \<Rightarrow> arbiter" where
  "resolveMovingFriendlyBlocks ord previousClock gameClockMs a =
     (let ms = active_motions a;
          stopAt = fold (markFriendly (arb_board a) ms)
            (encounters (arb_board a) ms previousClock gameClockMs) [];
          (a1, toErase) = fold (stopFriendly gameClockMs) (iter ord stopAt) (a, [])
      in a1\<lparr>active_motions := fold eraseAt (rev (sort toErase)) (active_motions a1)\<rparr>)"

section \<open>Stationary blocks\<close>

definition stationaryBlocker ::
    "arbiter \<Rightarrow> int \<Rightarrow> int \<Rightarrow> motion \<Rightarrow> (nat \<times> position \<times> int) option" where
  "stationaryBlocker a previousClock gameClockMs m =
     find (\<lambda>(idx, cell, time_ms).
         if time_ms \<le> previousClock \<or> time_ms > gameClockMs then False
         else if cell = m_to m then False
         else case getPiece (arb_board a) cell of
                None \<Rightarrow> False
              | Some blocker \<Rightarrow>
                  if getKind blocker = NoKind then False
                  else \<not> isPieceSliding (active_motions a) (getId blocker))
       (enumerate 0 (pathCheckpoints m))"

definition defendsCell :: "piece \<Rightarrow> bool" where
  "defendsCell p \<longleftrightarrow> getState p = Jump \<or> getState p = ShortRest"

text \<open>
  One round of the loop over the active motions. \<open>Inl a\<close>: the motion with index \<open>i\<close> has been
  erased and the loop stays at \<open>i\<close>; \<open>Inr a\<close>: the loop goes on to \<open>i + 1\<close>.
\<close>

definition stationaryRound :: "int \<Rightarrow> int \<Rightarrow> nat \<Rightarrow> arbiter \<Rightarrow> arbiter + arbiter" where
  "stationaryRound previousClock gameClockMs i a =
     (let m = active_motions a ! i in
      if m_from m = m_to m then Inr a
      else case getPiece (arb_board a) (m_from m) of
        None \<Rightarrow> Inr a
      | Some mover \<Rightarrow>
          if getKind mover = Knight then Inr a
          else case stationaryBlocker a previousClock gameClockMs m of
            None \<Rightarrow> Inr a
          | Some (idx, cell, time_ms) \<Rightarrow>
              let blocker = slot (arb_board a) cell in
              if getColor blocker = getColor mover \<and> \<not> defendsCell blocker then
                if idx = 0
                then let a1 = restInPlace m gameClockMs a
                     in Inl (a1\<lparr>active_motions := eraseAt i (active_motions a1)\<rparr>)
                else Inr (a\<lparr>active_motions := (active_motions a)[i := truncateAtCheckpoint m (idx - 1)]\<rparr>)
              else Inr (a\<lparr>active_motions :=
                     (active_motions a)[i := m\<lparr>m_to := cell, arrival_time_ms := time_ms\<rparr>]\<rparr>))"

lemma restInPlace_frame [simp]:
  "active_motions (restInPlace m t a) = active_motions a"
  "game_clock_ms (restInPlace m t a) = game_clock_ms a"
  "captured_pieces (restInPlace m t a) = captured_pieces a"
  "notifications (restInPlace m t a) = notifications a"
  "collisionEnabled (restInPlace m t a) = collisionEnabled a"
  by (simp_all add: restInPlace_def)

lemma stationaryRound_length:
  "i < length (active_motions a) \<Longrightarrow> stationaryRound p g i a = Inl a' \<Longrightarrow>
     length (active_motions a') < length (active_motions a)"
  "stationaryRound p g i a = Inr a' \<Longrightarrow> length (active_motions a') = length (active_motions a)"
  by (auto simp: stationaryRound_def Let_def eraseAt_def split: if_splits option.splits prod.splits)

function stationaryLoop :: "int \<Rightarrow> int \<Rightarrow> nat \<Rightarrow> arbiter \<Rightarrow> arbiter" where
  "stationaryLoop previousClock gameClockMs i a =
     (if i < length (active_motions a)
      then case stationaryRound previousClock gameClockMs i a of
             Inl a' \<Rightarrow> stationaryLoop previousClock gameClockMs i a'
           | Inr a' \<Rightarrow> stationaryLoop previousClock gameClockMs (Suc i) a'
      else a)"
  by pat_completeness auto
termination
proof (relation "measure (\<lambda>(p, g, i, a). length (active_motions a) - i)")
  fix p g :: int and i :: nat and a a' :: arbiter
  assume i: "i < length (active_motions a)"
  show "((p, g, i, a'), p, g, i, a) \<in> measure (\<lambda>(p, g, i, a). length (active_motions a) - i)"
    if "stationaryRound p g i a = Inl a'"
    using stationaryRound_length(1) [OF i that] i by simp
  show "((p, g, Suc i, a'), p, g, i, a) \<in> measure (\<lambda>(p, g, i, a). length (active_motions a) - i)"
    if "stationaryRound p g i a = Inr a'"
    using stationaryRound_length(2) [OF that] i by simp
qed simp

declare stationaryLoop.simps [simp del]

definition resolveStationaryBlocks :: "int \<Rightarrow> int \<Rightarrow> arbiter \<Rightarrow> arbiter" where
  "resolveStationaryBlocks previousClock gameClockMs a = stationaryLoop previousClock gameClockMs 0 a"


section \<open>What a step of the arbiter keeps\<close>

text \<open>
  The invariant of the arbiter. The board is well formed; every active motion runs between two
  cells of the board, belongs to a real identifier, has started and is timed; the cooldowns are
  a map and never reach further than one long rest into the future; the captured pieces are the
  ones announced to the capture observers, in the same order, and are marked captured.
\<close>

definition motion_ok :: "board \<Rightarrow> int \<Rightarrow> motion \<Rightarrow> bool" where
  "motion_ok b clock m \<longleftrightarrow> isWithinBounds b (m_from m) \<and> isWithinBounds b (m_to m) \<and>
     timedMotion m \<and> start_time_ms m \<le> clock \<and> 0 < piece_id m"

fun capturesOf :: "notification list \<Rightarrow> piece list" where
  "capturesOf [] = []"
| "capturesOf (PieceCaptured p i # ns) = p # capturesOf ns"
| "capturesOf (MoveCompleted p f t c k # ns) = capturesOf ns"

definition arbiter_ok :: "arbiter \<Rightarrow> bool" where
  "arbiter_ok a \<longleftrightarrow> board_wf (arb_board a) \<and>
     (\<forall>m \<in> set (active_motions a). motion_ok (arb_board a) (game_clock_ms a) m) \<and>
     distinct (map fst (cooldown_until_ms a)) \<and>
     (\<forall>i t. map_of (cooldown_until_ms a) i = Some t \<longrightarrow> t \<le> game_clock_ms a + LONG_REST_MS) \<and>
     captured_pieces a = capturesOf (notifications a) \<and>
     (\<forall>p \<in> set (captured_pieces a). getState p = Captured)"

text \<open>Every identifier in play: on the board or captured.\<close>

definition allIds :: "arbiter \<Rightarrow> int multiset" where
  "allIds a = boardIds (arb_board a) + sum_list (map slotId (captured_pieces a))"

text \<open>
  \<open>evolves a a'\<close>: from a state that satisfies the invariant, \<open>a'\<close> satisfies it too, no piece
  has appeared or vanished, and the clock, the mode and the size of the board are the same.
\<close>

definition evolves :: "arbiter \<Rightarrow> arbiter \<Rightarrow> bool" where
  "evolves a a' \<longleftrightarrow> (arbiter_ok a \<longrightarrow> arbiter_ok a' \<and> allIds a' = allIds a \<and>
     game_clock_ms a' = game_clock_ms a \<and> collisionEnabled a' = collisionEnabled a \<and>
     getWidth (arb_board a') = getWidth (arb_board a) \<and> getHeight (arb_board a') = getHeight (arb_board a))"

lemma evolves_refl [simp]: "evolves a a"
  by (simp add: evolves_def)

lemma evolves_trans: "evolves a b \<Longrightarrow> evolves b c \<Longrightarrow> evolves a c"
  by (simp add: evolves_def)

lemma evolves_fold:
  assumes "\<And>x s. x \<in> set xs \<Longrightarrow> evolves (g s) (g (f x s))"
  shows "evolves (g s) (g (fold f xs s))"
  using assms by (induction xs arbitrary: s) (auto intro: evolves_trans)

lemma capturesOf_append [simp]: "capturesOf (xs @ ys) = capturesOf xs @ capturesOf ys"
  by (induction xs rule: capturesOf.induct) auto

lemma isWithinBounds_size_cong:
  "getWidth b' = getWidth b \<Longrightarrow> getHeight b' = getHeight b \<Longrightarrow> isWithinBounds b' p = isWithinBounds b p"
  by (simp add: isWithinBounds_def)

lemma motion_ok_size_cong:
  "getWidth b' = getWidth b \<Longrightarrow> getHeight b' = getHeight b \<Longrightarrow> motion_ok b' t m = motion_ok b t m"
  by (simp add: motion_ok_def isWithinBounds_def)

lemma motion_ok_removePiece [simp]: "motion_ok (removePiece p b) t m = motion_ok b t m"
  by (simp add: motion_ok_def)

lemma arbiter_okD:
  assumes "arbiter_ok a"
  shows "board_wf (arb_board a)" "board_shape (arb_board a)"
    "m \<in> set (active_motions a) \<Longrightarrow> motion_ok (arb_board a) (game_clock_ms a) m"
    "distinct (map fst (cooldown_until_ms a))"
    "map_of (cooldown_until_ms a) i = Some t \<Longrightarrow> t \<le> game_clock_ms a + LONG_REST_MS"
    "captured_pieces a = capturesOf (notifications a)"
    "p \<in> set (captured_pieces a) \<Longrightarrow> getState p = Captured"
  using assms by (auto simp: arbiter_ok_def board_wfD)

text \<open>The three ways in which a step changes the state: a board update, a cooldown, the motions.\<close>

lemma evolves_board:
  assumes "arbiter_ok a \<Longrightarrow> board_wf b \<and> boardIds b = boardIds (arb_board a) \<and>
      getWidth b = getWidth (arb_board a) \<and> getHeight b = getHeight (arb_board a)"
  shows "evolves a (a\<lparr>arb_board := b\<rparr>)"
  using assms motion_ok_size_cong [of b "arb_board a"]
  by (auto simp: evolves_def arbiter_ok_def allIds_def)

lemma evolves_cooldown:
  assumes "t \<le> game_clock_ms a + LONG_REST_MS"
  shows "evolves a (a\<lparr>cooldown_until_ms := AList.update i t (cooldown_until_ms a)\<rparr>)"
  using assms by (auto simp: evolves_def arbiter_ok_def allIds_def distinct_update split: if_splits)

lemma evolves_motions:
  assumes "\<And>m. arbiter_ok a \<Longrightarrow> m \<in> set ms \<Longrightarrow> motion_ok (arb_board a) (game_clock_ms a) m"
  shows "evolves a (a\<lparr>active_motions := ms\<rparr>)"
  using assms by (auto simp: evolves_def arbiter_ok_def allIds_def)

text \<open>A rest or a wake-up called on an empty slot changes nothing: it is not a legal transition.\<close>

lemma transitionTo_noop_empty:
  "getState p = Idle \<Longrightarrow> t \<in> {Idle, ShortRest, LongRest} \<Longrightarrow> transitionTo t p = p"
  by (auto simp: transitionTo_def isLegalTransition_def kLegalTransitions_def)

lemma board_wf_rest [inv_intros]:
  assumes "board_wf b" "t \<in> {Idle, ShortRest, LongRest}"
  shows "board_wf (withPiece p (transitionTo t) b)"
proof (cases "isWithinBounds b p \<and> getKind (slot b p) = NoKind")
  case True
  then have "getState (slot b p) = Idle" using board_wfD(3) [OF assms(1), of p] by (simp add: piece_ok_def)
  then have "transitionTo t (slot b p) = slot b p" using assms(2) by (rule transitionTo_noop_empty)
  then show ?thesis using assms(1) by (simp add: withPiece_def setSlot_def slot_def)
next
  case False
  then show ?thesis using assms by (intro board_wf_transition) auto
qed

lemma evolves_rest:
  assumes "t \<in> {Idle, ShortRest, LongRest}"
  shows "evolves a (a\<lparr>arb_board := withPiece p (transitionTo t) (arb_board a)\<rparr>)"
  using assms by (intro evolves_board) (auto simp: arbiter_okD board_wf_rest boardIds_withPiece)

text \<open>A capture followed by the removal of the piece.\<close>

definition takePiece :: "position \<Rightarrow> capture_impact \<Rightarrow> arbiter \<Rightarrow> arbiter" where
  "takePiece pos impact a =
     (capturePiece pos impact a)\<lparr>arb_board := removePiece pos (arb_board (capturePiece pos impact a))\<rparr>"

lemma removePiece_withPiece [simp]: "removePiece p (withPiece p f b) = removePiece p b"
  by (simp add: removePiece_def withPiece_def setSlot_def index_def isWithinBounds_def)

lemma takePiece_eq:
  assumes "isWithinBounds (arb_board a) pos"
  shows "takePiece pos impact a =
    a\<lparr>arb_board := removePiece pos (arb_board a),
      captured_pieces := captured_pieces a @ [transitionTo Captured (slot (arb_board a) pos)],
      notifications := notifications a @ [PieceCaptured (transitionTo Captured (slot (arb_board a) pos)) impact]\<rparr>"
  using assms by (simp add: takePiece_def capturePiece_def getPiece_def)

lemma getState_transitionTo_Captured [simp]: "getState (transitionTo Captured p) = Captured"
  by (simp add: transitionTo_def isLegalTransition_def)

lemma evolves_takePiece:
  assumes "isWithinBounds (arb_board a) pos"
  shows "evolves a (takePiece pos impact a)"
proof -
  have "arbiter_ok a \<Longrightarrow> boardIds (arb_board a) = boardIds (removePiece pos (arb_board a)) + slotId (slot (arb_board a) pos)"
    using assms by (intro boardIds_removePiece) (auto simp: arbiter_okD)
  then show ?thesis
    unfolding takePiece_eq [OF assms] evolves_def
    by (auto simp: arbiter_ok_def allIds_def board_wf_removePiece)
qed

section \<open>The invariant and the collision resolver\<close>

lemma captureLoser_eq:
  "captureLoser ms loses impactFor i (a, kc) =
     (if loses ! i \<and> isWithinBounds (arb_board a) (m_from (ms ! i))
      then (takePiece (m_from (ms ! i))
              (case impactFor i of Some x \<Rightarrow> x
               | None \<Rightarrow> Impact (getId (slot (arb_board a) (m_from (ms ! i)))) (m_from (ms ! i)) 1) a,
            kc \<or> getKind (slot (arb_board a) (m_from (ms ! i))) = King)
      else (a, kc))"
  by (simp add: captureLoser_def takePiece_def getPiece_def Let_def)

lemma evolves_captureLoser: "evolves (fst s) (fst (captureLoser ms loses impactFor i s))"
  by (cases s) (simp add: captureLoser_eq evolves_takePiece)

lemma captureLoser_motions [simp]:
  "active_motions (fst (captureLoser ms loses impactFor i s)) = active_motions (fst s)"
  by (cases s) (simp add: captureLoser_eq takePiece_eq)

lemma captureLosers_motions [simp]:
  "active_motions (fst (fold (captureLoser ms loses impactFor) xs s)) = active_motions (fst s)"
  by (rule fold_field_unchanged) simp

lemma resolveCollisions_split:
  obtains loses impactFor where
    "(loses, impactFor) = fold (markEnemy (arb_board a) (active_motions a))
       (encounters (arb_board a) (active_motions a) p g) (replicate (length (active_motions a)) False, \<lambda>_. None)"
    "resolveCollisions p g (a, kc) =
       (let r = fold (captureLoser (active_motions a) loses impactFor) [0..<length (active_motions a)] (a, kc)
        in ((fst r)\<lparr>active_motions :=
              map (\<lambda>i. active_motions a ! i) (filter (\<lambda>i. \<not> loses ! i) [0..<length (active_motions a)])\<rparr>, snd r))"
proof -
  let ?ms = "active_motions a"
  obtain loses impactFor where l: "(loses, impactFor) = fold (markEnemy (arb_board a) ?ms)
       (encounters (arb_board a) ?ms p g) (replicate (length ?ms) False, \<lambda>_. None)"
    by (metis surj_pair)
  let ?r = "fold (captureLoser ?ms loses impactFor) [0..<length ?ms] (a, kc)"
  have same: "(fst ?r)\<lparr>active_motions := map (\<lambda>i. ?ms ! i) (filter (\<lambda>i. \<not> loses ! i) [0..<length ?ms])\<rparr> = fst ?r"
    if "\<not> list_ex (\<lambda>i. loses ! i) [0..<length ?ms]"
  proof -
    have "filter (\<lambda>i. \<not> loses ! i) [0..<length ?ms] = [0..<length ?ms]"
      using that by (auto simp: list_ex_iff intro: filter_True)
    moreover have "active_motions (fst ?r) = ?ms" by simp
    ultimately show ?thesis by (simp add: map_nth)
  qed
  show thesis
    by (rule that [OF l])
      (auto simp: resolveCollisions_def Let_def l [symmetric] case_prod_beta same)
qed

lemma evolves_resolveCollisions: "evolves (fst s) (fst (resolveCollisions p g s))"
proof (cases s)
  case (Pair a kc)
  obtain loses impactFor where
    eq: "resolveCollisions p g (a, kc) =
       (let r = fold (captureLoser (active_motions a) loses impactFor) [0..<length (active_motions a)] (a, kc)
        in ((fst r)\<lparr>active_motions :=
              map (\<lambda>i. active_motions a ! i) (filter (\<lambda>i. \<not> loses ! i) [0..<length (active_motions a)])\<rparr>, snd r))"
    using resolveCollisions_split by metis
  let ?r = "fold (captureLoser (active_motions a) loses impactFor) [0..<length (active_motions a)] (a, kc)"
  have "evolves a (fst ?r)"
    using evolves_fold [of "[0..<length (active_motions a)]" fst "captureLoser (active_motions a) loses impactFor" "(a, kc)"]
    by (simp add: evolves_captureLoser)
  moreover have "evolves (fst ?r) ((fst ?r)\<lparr>active_motions :=
      map (\<lambda>i. active_motions a ! i) (filter (\<lambda>i. \<not> loses ! i) [0..<length (active_motions a)])\<rparr>)"
    by (rule evolves_motions) (auto simp: arbiter_okD)
  ultimately show ?thesis by (auto simp: Pair eq Let_def intro: evolves_trans)
qed


section \<open>What the path scan finds\<close>

text \<open>
  The occupancy of the checkpoint with index \<open>k\<close> of a path, and the step onto it. A piece
  occupies a cell until it enters the next one, and its last cell without limit.
\<close>

definition occOf :: "motion \<Rightarrow> nat \<Rightarrow> nat \<Rightarrow> occupancy" where
  "occOf m i k = \<lparr>o_cell = pathCell m (Suc k), o_enter = pathTime m (Suc k),
     o_leave = (if Suc k < pathLength m then pathTime m (Suc (Suc k)) else INT_MAX),
     o_motionIndex = i, o_checkpointIndex = int k\<rparr>"

definition stepOf :: "motion \<Rightarrow> nat \<Rightarrow> nat \<Rightarrow> step" where
  "stepOf m i k = \<lparr>s_from = pathCell m k, s_to = pathCell m (Suc k), s_enter = pathTime m k,
     s_leave = pathTime m (Suc k), s_motionIndex = i, s_checkpointIndex = int k\<rparr>"

definition occVisible :: "int \<Rightarrow> int \<Rightarrow> motion \<Rightarrow> nat \<Rightarrow> bool" where
  "occVisible p g m k \<longleftrightarrow> k < pathLength m \<and> p < o_leave (occOf m 0 k) \<and> o_enter (occOf m 0 k) \<le> g"

definition stepVisible :: "int \<Rightarrow> int \<Rightarrow> motion \<Rightarrow> nat \<Rightarrow> bool" where
  "stepVisible p g m k \<longleftrightarrow> k < pathLength m \<and> p < pathTime m (Suc k) \<and> pathTime m k \<le> g"

lemma pathCell_0 [simp]: "pathCell m 0 = m_from m" and pathTime_0 [simp]: "pathTime m 0 = start_time_ms m"
  by (simp_all add: pathCell_def pathTime_def)

lemma collectPath_suffix:
  assumes "n \<le> pathLength m"
  shows "collectPath p g i (pathCell m n) (pathTime m n) (int n) (drop n (pathCheckpoints m)) =
    (map (occOf m i) (filter (occVisible p g m) [n..<pathLength m]),
     map (stepOf m i) (filter (stepVisible p g m) [n..<pathLength m]))"
  using assms
proof (induction "pathLength m - n" arbitrary: n)
  case 0
  then have "drop n (pathCheckpoints m) = []" and "[n..<pathLength m] = []" by simp_all
  then show ?case by simp
next
  case (Suc d)
  then have n: "n < pathLength m" by linarith
  have up: "[n..<pathLength m] = n # [Suc n..<pathLength m]" using n by (rule upt_conv_Cons)
  have dr: "drop n (pathCheckpoints m) =
      (pathCell m (Suc n), pathTime m (Suc n)) # drop (Suc n) (pathCheckpoints m)"
    using n Cons_nth_drop_Suc [of n "pathCheckpoints m"] by (simp add: nth_pathCheckpoints)
  have leave: "(case drop (Suc n) (pathCheckpoints m) of [] \<Rightarrow> INT_MAX | (c, t) # r \<Rightarrow> t) = o_leave (occOf m i n)"
  proof (cases "Suc n < pathLength m")
    case True
    then show ?thesis
      using Cons_nth_drop_Suc [of "Suc n" "pathCheckpoints m", symmetric]
      by (simp add: nth_pathCheckpoints occOf_def)
  qed (simp add: occOf_def)
  have IH: "collectPath p g i (pathCell m (Suc n)) (pathTime m (Suc n)) (int n + 1) (drop (Suc n) (pathCheckpoints m)) =
    (map (occOf m i) (filter (occVisible p g m) [Suc n..<pathLength m]),
     map (stepOf m i) (filter (stepVisible p g m) [Suc n..<pathLength m]))"
    using Suc.hyps(1) [of "Suc n"] Suc.hyps(2) n by (simp add: algebra_simps)
  show ?case
    unfolding dr collectPath.simps leave IH Let_def up
    using n by (simp add: occVisible_def stepVisible_def occOf_def stepOf_def)
qed

lemma collectMotion_eq:
  "collectMotion b p g (i, m) =
    (if tracked b m
     then (map (occOf m i) (filter (occVisible p g m) [0..<pathLength m]),
           map (stepOf m i) (filter (stepVisible p g m) [0..<pathLength m]))
     else ([], []))"
  using collectPath_suffix [of 0 m p g i] by (simp add: collectMotion_def)

lemma collect_occ_iff:
  "x \<in> set (fst (collect b ms p g)) \<longleftrightarrow>
    (\<exists>i<length ms. tracked b (ms ! i) \<and> (\<exists>k. occVisible p g (ms ! i) k \<and> x = occOf (ms ! i) i k))"
proof -
  have "x \<in> set (fst (collect b ms p g)) \<longleftrightarrow>
      (\<exists>im \<in> set (enumerate 0 ms). x \<in> set (fst (collectMotion b p g im)))"
    by (auto simp: collect_def Let_def)
  also have "\<dots> \<longleftrightarrow> (\<exists>i<length ms. x \<in> set (fst (collectMotion b p g (i, ms ! i))))"
    by (auto simp: in_set_enumerate_eq Bex_def split: prod.splits)
  finally show ?thesis by (auto simp: collectMotion_eq occVisible_def split: if_splits)
qed

lemma collect_step_iff:
  "x \<in> set (snd (collect b ms p g)) \<longleftrightarrow>
    (\<exists>i<length ms. tracked b (ms ! i) \<and> (\<exists>k. stepVisible p g (ms ! i) k \<and> x = stepOf (ms ! i) i k))"
proof -
  have "x \<in> set (snd (collect b ms p g)) \<longleftrightarrow>
      (\<exists>im \<in> set (enumerate 0 ms). x \<in> set (snd (collectMotion b p g im)))"
    by (auto simp: collect_def Let_def)
  also have "\<dots> \<longleftrightarrow> (\<exists>i<length ms. x \<in> set (snd (collectMotion b p g (i, ms ! i))))"
    by (auto simp: in_set_enumerate_eq Bex_def split: prod.splits)
  finally show ?thesis by (auto simp: collectMotion_eq stepVisible_def split: if_splits)
qed

lemma collect_sorted:
  "sorted (map o_motionIndex (fst (collect b ms p g)))"
  "sorted (map s_motionIndex (snd (collect b ms p g)))"
proof -
  have occ: "fst (collect b ms p g) = concat (map (\<lambda>im. fst (collectMotion b p g im)) (enumerate 0 ms))"
    and st: "snd (collect b ms p g) = concat (map (\<lambda>im. snd (collectMotion b p g im)) (enumerate 0 ms))"
    by (simp_all add: collect_def Let_def comp_def)
  show "sorted (map o_motionIndex (fst (collect b ms p g)))"
    unfolding occ by (rule sorted_concat_blocks [where h = fst])
      (auto simp: collectMotion_eq occOf_def split: if_splits)
  show "sorted (map s_motionIndex (snd (collect b ms p g)))"
    unfolding st by (rule sorted_concat_blocks [where h = fst])
      (auto simp: collectMotion_eq stepOf_def split: if_splits)
qed


section \<open>Which motions meet\<close>

text \<open>
  A motion meets another at its checkpoint \<open>k\<close> when both are tracked and either both occupy one
  cell at the same time, or they cross the same edge in opposite directions at the same time.
\<close>

definition occMeet :: "int \<Rightarrow> int \<Rightarrow> motion \<Rightarrow> nat \<Rightarrow> motion \<Rightarrow> nat \<Rightarrow> bool" where
  "occMeet p g m k m' k' \<longleftrightarrow> occVisible p g m k \<and> occVisible p g m' k' \<and>
     pathCell m (Suc k) = pathCell m' (Suc k') \<and>
     overlaps (o_enter (occOf m 0 k)) (o_leave (occOf m 0 k)) (o_enter (occOf m' 0 k')) (o_leave (occOf m' 0 k'))"

definition stepMeet :: "int \<Rightarrow> int \<Rightarrow> motion \<Rightarrow> nat \<Rightarrow> motion \<Rightarrow> nat \<Rightarrow> bool" where
  "stepMeet p g m k m' k' \<longleftrightarrow> stepVisible p g m k \<and> stepVisible p g m' k' \<and>
     pathCell m k = pathCell m' (Suc k') \<and> pathCell m (Suc k) = pathCell m' k' \<and>
     overlaps (pathTime m k) (pathTime m (Suc k)) (pathTime m' k') (pathTime m' (Suc k'))"

definition meetsAt :: "board \<Rightarrow> int \<Rightarrow> int \<Rightarrow> motion \<Rightarrow> nat \<Rightarrow> motion \<Rightarrow> bool" where
  "meetsAt b p g m k m' \<longleftrightarrow> tracked b m \<and> tracked b m' \<and>
     (\<exists>k'. occMeet p g m k m' k' \<or> stepMeet p g m k m' k')"

lemma overlaps_commute: "overlaps a b c d = overlaps c d a b"
  by (auto simp: overlaps_def)

lemma meet_commute:
  "occMeet p g m k m' k' = occMeet p g m' k' m k"
  "stepMeet p g m k m' k' = stepMeet p g m' k' m k"
  by (auto simp: occMeet_def stepMeet_def overlaps_commute)

lemma occEncounters_iff:
  "e \<in> set (map occEncounter (filter crossing_occ (pairs (fst (collect b ms p g))))) \<longleftrightarrow>
    (\<exists>i j k k'. i < j \<and> j < length ms \<and> tracked b (ms ! i) \<and> tracked b (ms ! j) \<and>
       occMeet p g (ms ! i) k (ms ! j) k' \<and> e = occEncounter (occOf (ms ! i) i k, occOf (ms ! j) j k'))"
  (is "?L \<longleftrightarrow> ?R")
proof
  assume ?L
  then obtain x y where xy: "(x, y) \<in> set (pairs (fst (collect b ms p g)))"
    and c: "crossing_occ (x, y)" and e: "e = occEncounter (x, y)" by auto
  obtain i k where x: "i < length ms" "tracked b (ms ! i)" "occVisible p g (ms ! i) k" "x = occOf (ms ! i) i k"
    using pairs_fst_mem [OF xy] collect_occ_iff by blast
  obtain j k' where y: "j < length ms" "tracked b (ms ! j)" "occVisible p g (ms ! j) k'" "y = occOf (ms ! j) j k'"
    using pairs_snd_mem [OF xy] collect_occ_iff by blast
  have "i \<le> j" using pairs_sorted [OF collect_sorted(1) xy] x y by (simp add: occOf_def)
  moreover have "i \<noteq> j" using c x y by (simp add: crossing_occ_def occOf_def)
  moreover have "occMeet p g (ms ! i) k (ms ! j) k'"
    using c x y by (simp add: crossing_occ_def occMeet_def occOf_def)
  ultimately show ?R using x y e by (metis le_neq_implies_less)
next
  assume ?R
  then obtain i j k k' where ij: "i < j" "j < length ms" "tracked b (ms ! i)" "tracked b (ms ! j)"
    and m: "occMeet p g (ms ! i) k (ms ! j) k'" and e: "e = occEncounter (occOf (ms ! i) i k, occOf (ms ! j) j k')"
    by blast
  let ?x = "occOf (ms ! i) i k" let ?y = "occOf (ms ! j) j k'"
  have mem: "?x \<in> set (fst (collect b ms p g))" "?y \<in> set (fst (collect b ms p g))"
    unfolding collect_occ_iff using ij m
    by - ((rule exI [of _ i], auto simp: occMeet_def)[1], (rule exI [of _ j], auto simp: occMeet_def)[1])
  have idx: "o_motionIndex ?x = i" "o_motionIndex ?y = j" by (simp_all add: occOf_def)
  then have "(?x, ?y) \<in> set (pairs (fst (collect b ms p g)))"
    using pairs_either [OF mem] pairs_sorted [OF collect_sorted(1), of ?y ?x] ij(1) by (metis leD less_irrefl)
  moreover have "crossing_occ (?x, ?y)"
    using m ij(1) by (simp add: crossing_occ_def occMeet_def occOf_def)
  ultimately show ?L using e by auto
qed

lemma stepEncounters_iff:
  "e \<in> set (map stepEncounter (filter crossing_step (pairs (snd (collect b ms p g))))) \<longleftrightarrow>
    (\<exists>i j k k'. i < j \<and> j < length ms \<and> tracked b (ms ! i) \<and> tracked b (ms ! j) \<and>
       stepMeet p g (ms ! i) k (ms ! j) k' \<and> e = stepEncounter (stepOf (ms ! i) i k, stepOf (ms ! j) j k'))"
  (is "?L \<longleftrightarrow> ?R")
proof
  assume ?L
  then obtain x y where xy: "(x, y) \<in> set (pairs (snd (collect b ms p g)))"
    and c: "crossing_step (x, y)" and e: "e = stepEncounter (x, y)" by auto
  obtain i k where x: "i < length ms" "tracked b (ms ! i)" "stepVisible p g (ms ! i) k" "x = stepOf (ms ! i) i k"
    using pairs_fst_mem [OF xy] collect_step_iff by blast
  obtain j k' where y: "j < length ms" "tracked b (ms ! j)" "stepVisible p g (ms ! j) k'" "y = stepOf (ms ! j) j k'"
    using pairs_snd_mem [OF xy] collect_step_iff by blast
  have "i \<le> j" using pairs_sorted [OF collect_sorted(2) xy] x y by (simp add: stepOf_def)
  moreover have "i \<noteq> j" using c x y by (simp add: crossing_step_def stepOf_def)
  moreover have "stepMeet p g (ms ! i) k (ms ! j) k'"
    using c x y by (simp add: crossing_step_def stepMeet_def stepOf_def)
  ultimately show ?R using x y e by (metis le_neq_implies_less)
next
  assume ?R
  then obtain i j k k' where ij: "i < j" "j < length ms" "tracked b (ms ! i)" "tracked b (ms ! j)"
    and m: "stepMeet p g (ms ! i) k (ms ! j) k'" and e: "e = stepEncounter (stepOf (ms ! i) i k, stepOf (ms ! j) j k')"
    by blast
  let ?x = "stepOf (ms ! i) i k" let ?y = "stepOf (ms ! j) j k'"
  have mem: "?x \<in> set (snd (collect b ms p g))" "?y \<in> set (snd (collect b ms p g))"
    unfolding collect_step_iff using ij m
    by - ((rule exI [of _ i], auto simp: stepMeet_def)[1], (rule exI [of _ j], auto simp: stepMeet_def)[1])
  have idx: "s_motionIndex ?x = i" "s_motionIndex ?y = j" by (simp_all add: stepOf_def)
  then have "(?x, ?y) \<in> set (pairs (snd (collect b ms p g)))"
    using pairs_either [OF mem] pairs_sorted [OF collect_sorted(2), of ?y ?x] ij(1) by (metis leD less_irrefl)
  moreover have "crossing_step (?x, ?y)"
    using m ij(1) by (simp add: crossing_step_def stepMeet_def stepOf_def)
  ultimately show ?L using e by auto
qed

lemma encounters_iff:
  "e \<in> set (encounters b ms p g) \<longleftrightarrow>
    (\<exists>i j k k'. i < j \<and> j < length ms \<and> tracked b (ms ! i) \<and> tracked b (ms ! j) \<and>
       (occMeet p g (ms ! i) k (ms ! j) k' \<and> e = occEncounter (occOf (ms ! i) i k, occOf (ms ! j) j k') \<or>
        stepMeet p g (ms ! i) k (ms ! j) k' \<and> e = stepEncounter (stepOf (ms ! i) i k, stepOf (ms ! j) j k')))"
proof -
  have "set (encounters b ms p g) =
     set (map occEncounter (filter crossing_occ (pairs (fst (collect b ms p g))))) \<union>
     set (map stepEncounter (filter crossing_step (pairs (snd (collect b ms p g)))))"
    by (simp add: encounters_def case_prod_beta)
  then show ?thesis
    by (simp only: Un_iff occEncounters_iff stepEncounters_iff conj_disj_distribL ex_disj_distrib)
qed

lemma encounter_fields [simp]:
  "e_idxA (occEncounter (occOf m i k, occOf m' j k')) = i" "e_idxB (occEncounter (occOf m i k, occOf m' j k')) = j"
  "e_cpA (occEncounter (occOf m i k, occOf m' j k')) = int k" "e_cpB (occEncounter (occOf m i k, occOf m' j k')) = int k'"
  "e_idxA (stepEncounter (stepOf m i k, stepOf m' j k')) = i" "e_idxB (stepEncounter (stepOf m i k, stepOf m' j k')) = j"
  "e_cpA (stepEncounter (stepOf m i k, stepOf m' j k')) = int k" "e_cpB (stepEncounter (stepOf m i k, stepOf m' j k')) = int k'"
  by (simp_all add: occEncounter_def stepEncounter_def occOf_def stepOf_def)

text \<open>An encounter seen from one of its motions, here the one with index \<open>l\<close>.\<close>

definition involves :: "encounter \<Rightarrow> nat \<Rightarrow> nat \<Rightarrow> nat \<Rightarrow> bool" where
  "involves e l k o' \<longleftrightarrow> e_idxA e = l \<and> e_cpA e = int k \<and> e_idxB e = o' \<or>
     e_idxB e = l \<and> e_cpB e = int k \<and> e_idxA e = o'"

lemma encounters_involve:
  "(\<exists>e \<in> set (encounters b ms p g). involves e l k o') \<longleftrightarrow>
     l < length ms \<and> o' < length ms \<and> l \<noteq> o' \<and> meetsAt b p g (ms ! l) k (ms ! o')" (is "?L \<longleftrightarrow> ?R")
proof
  assume ?L
  then obtain e where mem: "e \<in> set (encounters b ms p g)" and inv: "involves e l k o'" by blast
  from mem [unfolded encounters_iff] obtain i j k1 k2 where ij: "i < j" "j < length ms"
    and t: "tracked b (ms ! i)" "tracked b (ms ! j)"
    and e: "occMeet p g (ms ! i) k1 (ms ! j) k2 \<and> e = occEncounter (occOf (ms ! i) i k1, occOf (ms ! j) j k2) \<or>
        stepMeet p g (ms ! i) k1 (ms ! j) k2 \<and> e = stepEncounter (stepOf (ms ! i) i k1, stepOf (ms ! j) j k2)"
    by (elim exE conjE) (rule that)
  from inv e have "l = i \<and> k = k1 \<and> o' = j \<or> l = j \<and> k = k2 \<and> o' = i"
    by (auto simp: involves_def)
  then show ?R
  proof
    assume "l = i \<and> k = k1 \<and> o' = j"
    then show ?thesis using ij t e unfolding meetsAt_def by auto
  next
    assume *: "l = j \<and> k = k2 \<and> o' = i"
    have "occMeet p g (ms ! j) k2 (ms ! i) k1 \<or> stepMeet p g (ms ! j) k2 (ms ! i) k1"
      using e meet_commute [of p g "ms ! i" k1 "ms ! j" k2] by auto
    then show ?thesis using ij t * unfolding meetsAt_def by auto
  qed
next
  assume R: ?R
  then obtain k' where k': "occMeet p g (ms ! l) k (ms ! o') k' \<or> stepMeet p g (ms ! l) k (ms ! o') k'"
    and t: "tracked b (ms ! l)" "tracked b (ms ! o')" by (auto simp: meetsAt_def)
  have mk: "\<exists>e \<in> set (encounters b ms p g). e_idxA e = i \<and> e_idxB e = j \<and> e_cpA e = int k1 \<and> e_cpB e = int k2"
    if "i < j" "j < length ms" "tracked b (ms ! i)" "tracked b (ms ! j)"
      "occMeet p g (ms ! i) k1 (ms ! j) k2 \<or> stepMeet p g (ms ! i) k1 (ms ! j) k2" for i j k1 k2
    using that(5)
  proof
    assume "occMeet p g (ms ! i) k1 (ms ! j) k2"
    with that have "occEncounter (occOf (ms ! i) i k1, occOf (ms ! j) j k2) \<in> set (encounters b ms p g)"
      unfolding encounters_iff by (intro exI [of _ i] exI [of _ j] exI [of _ k1] exI [of _ k2]) simp
    then show ?thesis by (rule bexI [rotated]) simp
  next
    assume "stepMeet p g (ms ! i) k1 (ms ! j) k2"
    with that have "stepEncounter (stepOf (ms ! i) i k1, stepOf (ms ! j) j k2) \<in> set (encounters b ms p g)"
      unfolding encounters_iff by (intro exI [of _ i] exI [of _ j] exI [of _ k1] exI [of _ k2]) simp
    then show ?thesis by (rule bexI [rotated]) simp
  qed
  show ?L
  proof (cases "l < o'")
    case True
    then show ?thesis using mk [of l o' k k'] R t k' by (auto simp: involves_def)
  next
    case False
    moreover have "occMeet p g (ms ! o') k' (ms ! l) k \<or> stepMeet p g (ms ! o') k' (ms ! l) k"
      using k' meet_commute [of p g "ms ! l" k "ms ! o'" k'] by auto
    ultimately show ?thesis using mk [of o' l k' k] R t by (auto simp: involves_def)
  qed
qed

lemma encounter_ordered:
  assumes "e \<in> set (encounters b ms p g)"
  shows "e_idxA e < e_idxB e" "e_idxB e < length ms"
    "0 \<le> e_cpA e" "0 \<le> e_cpB e"
    and "e_cpA e < int (pathLength (ms ! e_idxA e))" "e_cpB e < int (pathLength (ms ! e_idxB e))"
    and "tracked b (ms ! e_idxA e)" "tracked b (ms ! e_idxB e)"
proof -
  from assms [unfolded encounters_iff] obtain i j k1 k2
    where "i < j" "j < length ms" "tracked b (ms ! i)" "tracked b (ms ! j)"
    and "occMeet p g (ms ! i) k1 (ms ! j) k2 \<and> e = occEncounter (occOf (ms ! i) i k1, occOf (ms ! j) j k2) \<or>
        stepMeet p g (ms ! i) k1 (ms ! j) k2 \<and> e = stepEncounter (stepOf (ms ! i) i k1, stepOf (ms ! j) j k2)"
    by (elim exE conjE) (rule that)
  then show "e_idxA e < e_idxB e" "e_idxB e < length ms" "0 \<le> e_cpA e" "0 \<le> e_cpB e"
    and "e_cpA e < int (pathLength (ms ! e_idxA e))" "e_cpB e < int (pathLength (ms ! e_idxB e))"
    and "tracked b (ms ! e_idxA e)" "tracked b (ms ! e_idxB e)"
    by (auto simp: occMeet_def stepMeet_def occVisible_def stepVisible_def simp del: int_pathLength)
qed


section \<open>Who loses an enemy collision\<close>

text \<open>
  The motion with index \<open>o\<close> beats the one with index \<open>l\<close>: it started earlier, or at the same
  time with the smaller piece identifier; two motions that agree in both are decided by their
  place in the list.
\<close>

definition beats :: "motion list \<Rightarrow> nat \<Rightarrow> nat \<Rightarrow> bool" where
  "beats ms w l \<longleftrightarrow> (if l < w then \<not> startsFirst (ms ! l) (ms ! w) else startsFirst (ms ! w) (ms ! l))"

definition enemies :: "board \<Rightarrow> motion \<Rightarrow> motion \<Rightarrow> bool" where
  "enemies b m m' \<longleftrightarrow> getColor (slot b (m_from m)) \<noteq> getColor (slot b (m_from m'))"

definition loserIdx :: "motion list \<Rightarrow> encounter \<Rightarrow> nat" where
  "loserIdx ms e = (if startsFirst (ms ! e_idxA e) (ms ! e_idxB e) then e_idxB e else e_idxA e)"

definition winnerIdx :: "motion list \<Rightarrow> encounter \<Rightarrow> nat" where
  "winnerIdx ms e = (if startsFirst (ms ! e_idxA e) (ms ! e_idxB e) then e_idxA e else e_idxB e)"

definition loserCp :: "motion list \<Rightarrow> encounter \<Rightarrow> int" where
  "loserCp ms e = (if startsFirst (ms ! e_idxA e) (ms ! e_idxB e) then e_cpB e else e_cpA e)"

definition impactOf :: "motion list \<Rightarrow> encounter \<Rightarrow> capture_impact" where
  "impactOf ms e = Impact (piece_id (ms ! winnerIdx ms e))
     (if startsFirst (ms ! e_idxA e) (ms ! e_idxB e) then e_cellA e else e_cellB e)
     (collisionProgress (ms ! winnerIdx ms e) (max (e_enterA e) (e_enterB e)))"

lemma tracked_within: "tracked b m \<Longrightarrow> isWithinBounds b (m_from m)"
  by (auto simp: tracked_def getPiece_def split: if_splits)

lemma tracked_iff:
  "tracked b m \<longleftrightarrow> m_from m \<noteq> m_to m \<and> isWithinBounds b (m_from m) \<and> getKind (slot b (m_from m)) \<noteq> Knight"
  by (auto simp: tracked_def getPiece_def)

lemma markEnemy_eq:
  assumes "tracked b (ms ! e_idxA e)" "tracked b (ms ! e_idxB e)"
  shows "markEnemy b ms e (ls, im) =
    (if enemies b (ms ! e_idxA e) (ms ! e_idxB e)
     then (ls[loserIdx ms e := True], im(loserIdx ms e \<mapsto> impactOf ms e)) else (ls, im))"
  using assms [THEN tracked_within]
  by (simp add: markEnemy_def getPiece_def Let_def enemies_def loserIdx_def winnerIdx_def impactOf_def)

lemma markFriendly_eq:
  assumes "tracked b (ms ! e_idxA e)" "tracked b (ms ! e_idxB e)"
  shows "markFriendly b ms e stopAt =
    (if enemies b (ms ! e_idxA e) (ms ! e_idxB e) then stopAt
     else case map_of stopAt (loserIdx ms e) of
            None \<Rightarrow> AList.update (loserIdx ms e) (loserCp ms e) stopAt
          | Some cp \<Rightarrow> if loserCp ms e < cp then AList.update (loserIdx ms e) (loserCp ms e) stopAt else stopAt)"
  using assms [THEN tracked_within]
  by (simp add: markFriendly_def getPiece_def Let_def enemies_def loserIdx_def loserCp_def split: option.split)

text \<open>The result of all calls of \<open>mark\<close>.\<close>

definition marksOk :: "motion list \<Rightarrow> nat \<Rightarrow> encounter set \<Rightarrow> bool list \<times> (nat \<Rightarrow> capture_impact option) \<Rightarrow> bool" where
  "marksOk ms n E = (\<lambda>(loses, impactFor). length loses = n \<and>
     (\<forall>l<n. loses ! l \<longleftrightarrow> (\<exists>e\<in>E. loserIdx ms e = l)) \<and>
     (\<forall>l<n. loses ! l \<longrightarrow> (\<exists>e\<in>E. loserIdx ms e = l \<and> impactFor l = Some (impactOf ms e))))"

lemma marksOk_insert:
  assumes "marksOk ms n E (ls, im)" "loserIdx ms e < n"
  shows "marksOk ms n (insert e E) (ls[loserIdx ms e := True], im(loserIdx ms e \<mapsto> impactOf ms e))"
  using assms unfolding marksOk_def by (auto simp: nth_list_update)

lemma fold_markEnemy:
  assumes "\<And>e. e \<in> set es \<Longrightarrow> tracked b (ms ! e_idxA e) \<and> tracked b (ms ! e_idxB e) \<and> loserIdx ms e < n"
    and "marksOk ms n E (ls, im)"
  shows "marksOk ms n (E \<union> {e \<in> set es. enemies b (ms ! e_idxA e) (ms ! e_idxB e)})
    (fold (markEnemy b ms) es (ls, im))"
  using assms
proof (induction es arbitrary: E ls im)
  case Nil
  then show ?case by simp
next
  case (Cons e es)
  have t: "tracked b (ms ! e_idxA e)" "tracked b (ms ! e_idxB e)" "loserIdx ms e < n" using Cons.prems(1) by auto
  show ?case
  proof (cases "enemies b (ms ! e_idxA e) (ms ! e_idxB e)")
    case True
    have "marksOk ms n (insert e E \<union> {e \<in> set es. enemies b (ms ! e_idxA e) (ms ! e_idxB e)})
        (fold (markEnemy b ms) es (ls[loserIdx ms e := True], im(loserIdx ms e \<mapsto> impactOf ms e)))"
      using Cons.prems t by (intro Cons.IH marksOk_insert) auto
    moreover have "E \<union> {e' \<in> set (e # es). enemies b (ms ! e_idxA e') (ms ! e_idxB e')} =
        insert e E \<union> {e' \<in> set es. enemies b (ms ! e_idxA e') (ms ! e_idxB e')}" using True by auto
    ultimately show ?thesis using True by (simp add: markEnemy_eq [OF t(1,2)])
  next
    case False
    then have "{e' \<in> set (e # es). enemies b (ms ! e_idxA e') (ms ! e_idxB e')} =
        {e' \<in> set es. enemies b (ms ! e_idxA e') (ms ! e_idxB e')}" by auto
    then show ?thesis using Cons.IH [of E ls im] Cons.prems False by (simp add: markEnemy_eq [OF t(1,2)])
  qed
qed

lemma loserIdx_less: "e \<in> set (encounters b ms p g) \<Longrightarrow> loserIdx ms e < length ms"
  using encounter_ordered [of e b ms p g] by (auto simp: loserIdx_def)

lemma fold_markEnemy_encounters:
  "marksOk ms (length ms) {e \<in> set (encounters b ms p g). enemies b (ms ! e_idxA e) (ms ! e_idxB e)}
    (fold (markEnemy b ms) (encounters b ms p g) (replicate (length ms) False, \<lambda>_. None))"
proof -
  have "marksOk ms (length ms) {} (replicate (length ms) False, \<lambda>_. None)" by (simp add: marksOk_def)
  from fold_markEnemy [OF _ this, of "encounters b ms p g" b] show ?thesis
    using encounter_ordered(7,8) loserIdx_less by auto
qed

lemma loser_iff:
  "(\<exists>e \<in> set (encounters b ms p g). Q (ms ! e_idxA e) (ms ! e_idxB e) \<and> loserIdx ms e = l \<and> loserCp ms e = int k)
   \<longleftrightarrow> l < length ms \<and> (\<exists>w<length ms. w \<noteq> l \<and> meetsAt b p g (ms ! l) k (ms ! w) \<and> beats ms w l \<and> Q (ms ! l) (ms ! w))"
  (is "?L \<longleftrightarrow> ?R")
  if sym: "\<And>m m'. Q m m' = Q m' m" for Q
proof
  assume ?L
  then obtain e where e: "e \<in> set (encounters b ms p g)" "Q (ms ! e_idxA e) (ms ! e_idxB e)"
    and l: "loserIdx ms e = l" and c: "loserCp ms e = int k" by auto
  have inv: "involves e l k (winnerIdx ms e)"
    using l c by (auto simp: involves_def loserIdx_def winnerIdx_def loserCp_def split: if_splits)
  moreover have "beats ms (winnerIdx ms e) l"
    using l encounter_ordered(1) [OF e(1)] by (auto simp: beats_def loserIdx_def winnerIdx_def split: if_splits)
  moreover have "Q (ms ! l) (ms ! winnerIdx ms e)"
    using e(2) l sym by (auto simp: loserIdx_def winnerIdx_def split: if_splits)
  ultimately show ?R using encounters_involve [of b ms p g l k "winnerIdx ms e"] e(1) by blast
next
  assume ?R
  then obtain w where w: "w < length ms" "w \<noteq> l" "meetsAt b p g (ms ! l) k (ms ! w)" "beats ms w l" "Q (ms ! l) (ms ! w)"
    and "l < length ms" by auto
  then obtain e where e: "e \<in> set (encounters b ms p g)" "involves e l k w"
    using encounters_involve [of b ms p g l k w] by auto
  have "loserIdx ms e = l" "loserCp ms e = int k"
    using e(2) w(4) encounter_ordered(1) [OF e(1)]
    by (auto simp: involves_def beats_def loserIdx_def loserCp_def split: if_splits)
  moreover have "Q (ms ! e_idxA e) (ms ! e_idxB e)"
    using e(2) w(5) sym by (auto simp: involves_def)
  ultimately show ?L using e(1) by blast
qed

definition collisionLoser :: "board \<Rightarrow> motion list \<Rightarrow> int \<Rightarrow> int \<Rightarrow> nat \<Rightarrow> bool" where
  "collisionLoser b ms p g l \<longleftrightarrow> (\<exists>w<length ms. \<exists>k. w \<noteq> l \<and> meetsAt b p g (ms ! l) k (ms ! w) \<and>
     beats ms w l \<and> enemies b (ms ! l) (ms ! w))"

lemma enemies_sym: "enemies b m m' = enemies b m' m"
  by (auto simp: enemies_def)

lemma loserCp_nonneg: "e \<in> set (encounters b ms p g) \<Longrightarrow> 0 \<le> loserCp ms e"
  using encounter_ordered [of e b ms p g] by (simp add: loserCp_def)

lemma collisionLoser_iff:
  assumes "l < length ms"
  shows "(\<exists>e \<in> set (encounters b ms p g). enemies b (ms ! e_idxA e) (ms ! e_idxB e) \<and> loserIdx ms e = l)
    \<longleftrightarrow> collisionLoser b ms p g l" (is "?L = _")
proof -
  have "?L \<longleftrightarrow> (\<exists>k. \<exists>e \<in> set (encounters b ms p g). enemies b (ms ! e_idxA e) (ms ! e_idxB e) \<and>
      loserIdx ms e = l \<and> loserCp ms e = int k)"
    using loserCp_nonneg nonneg_int_cases by metis
  also have "\<dots> \<longleftrightarrow> collisionLoser b ms p g l"
    using loser_iff [of "enemies b", OF enemies_sym] assms unfolding collisionLoser_def by blast
  finally show ?thesis .
qed


text \<open>
  The outcome of \<open>resolveCollisions\<close>: exactly the losing motions are gone, exactly the cells
  they started from are emptied, and a king was captured exactly when one stood there.
\<close>

lemma takePiece_slot:
  assumes "board_shape (arb_board a)" "isWithinBounds (arb_board a) pos" "isWithinBounds (arb_board a) q"
  shows "slot (arb_board (takePiece pos im a)) q = (if q = pos then emptyPiece pos else slot (arb_board a) q)"
  using assms by (simp add: takePiece_eq slot_removePiece)

lemma captureLoser_board:
  assumes "isWithinBounds (arb_board a) (m_from (ms ! i))"
  shows "arb_board (fst (captureLoser ms ls im i (a, kc))) =
      (if ls ! i then removePiece (m_from (ms ! i)) (arb_board a) else arb_board a)"
    "snd (captureLoser ms ls im i (a, kc)) =
      (kc \<or> ls ! i \<and> getKind (slot (arb_board a) (m_from (ms ! i))) = King)"
    "cooldown_until_ms (fst (captureLoser ms ls im i (a, kc))) = cooldown_until_ms a"
  using assms by (auto simp: captureLoser_eq takePiece_eq)

lemma captureLosers_cooldown [simp]:
  "cooldown_until_ms (fst (fold (captureLoser ms ls im) xs s)) = cooldown_until_ms (fst s)"
proof (rule fold_field_unchanged)
  show "cooldown_until_ms (fst (captureLoser ms ls im x s)) = cooldown_until_ms (fst s)" for x s
    by (cases s) (simp add: captureLoser_eq takePiece_eq)
qed

lemma captureLosers_board:
  assumes "board_shape (arb_board a)" "\<And>i. i \<in> set xs \<Longrightarrow> isWithinBounds (arb_board a) (m_from (ms ! i))"
    and "isWithinBounds (arb_board a) q"
  shows "slot (arb_board (fst (fold (captureLoser ms ls im) xs (a, kc)))) q =
      (if \<exists>i \<in> set xs. ls ! i \<and> m_from (ms ! i) = q then emptyPiece q else slot (arb_board a) q)"
    and "snd (fold (captureLoser ms ls im) xs (a, kc)) \<longleftrightarrow>
      kc \<or> (\<exists>i \<in> set xs. ls ! i \<and> getKind (slot (arb_board a) (m_from (ms ! i))) = King)"
proof -
  let ?P = "\<lambda>xs a kc q. slot (arb_board (fst (fold (captureLoser ms ls im) xs (a, kc)))) q =
      (if \<exists>i \<in> set xs. ls ! i \<and> m_from (ms ! i) = q then emptyPiece q else slot (arb_board a) q) \<and>
      (snd (fold (captureLoser ms ls im) xs (a, kc)) \<longleftrightarrow>
      kc \<or> (\<exists>i \<in> set xs. ls ! i \<and> getKind (slot (arb_board a) (m_from (ms ! i))) = King))"
  have "?P xs a kc q" using assms
  proof (induction xs arbitrary: a kc)
    case Nil
    then show ?case by simp
  next
    case (Cons i xs)
    let ?a = "fst (captureLoser ms ls im i (a, kc))" let ?kc = "snd (captureLoser ms ls im i (a, kc))"
    have w: "isWithinBounds (arb_board a) (m_from (ms ! i))" using Cons.prems by simp
    note cb = captureLoser_board [OF w, of ls im kc]
    have IH: "?P xs ?a ?kc q" using Cons.prems by (intro Cons.IH) (auto simp: cb(1))
    have sl: "slot (arb_board ?a) q' = (if ls ! i \<and> m_from (ms ! i) = q' then emptyPiece q' else slot (arb_board a) q')"
      if "isWithinBounds (arb_board a) q'" for q'
      using that Cons.prems(1) w by (auto simp: cb(1) slot_removePiece)
    have king: "getKind (slot (arb_board ?a) (m_from (ms ! j))) = King \<longleftrightarrow>
        \<not> (ls ! i \<and> m_from (ms ! i) = m_from (ms ! j)) \<and> getKind (slot (arb_board a) (m_from (ms ! j))) = King"
      if "j \<in> set xs" for j
      using that sl [of "m_from (ms ! j)"] Cons.prems(2) [of j] by auto
    have step: "fold (captureLoser ms ls im) (i # xs) (a, kc) = fold (captureLoser ms ls im) xs (?a, ?kc)" by simp
    have "(\<exists>j \<in> set xs. ls ! j \<and> getKind (slot (arb_board ?a) (m_from (ms ! j))) = King) \<longleftrightarrow>
        (\<exists>j \<in> set xs. ls ! j \<and> \<not> (ls ! i \<and> m_from (ms ! i) = m_from (ms ! j)) \<and>
           getKind (slot (arb_board a) (m_from (ms ! j))) = King)"
      using king by auto
    then have "snd (fold (captureLoser ms ls im) xs (?a, ?kc)) \<longleftrightarrow>
        kc \<or> (\<exists>j \<in> set (i # xs). ls ! j \<and> getKind (slot (arb_board a) (m_from (ms ! j))) = King)"
      using conjunct2 [OF IH] unfolding cb(2) list.set(2) bex_simps(5) by metis
    moreover have "slot (arb_board (fst (fold (captureLoser ms ls im) xs (?a, ?kc)))) q =
        (if \<exists>j \<in> set (i # xs). ls ! j \<and> m_from (ms ! j) = q then emptyPiece q else slot (arb_board a) q)"
      using conjunct1 [OF IH] sl [OF Cons.prems(3)] by (auto split: if_splits)
    ultimately show ?case unfolding step by blast
  qed
  then show "slot (arb_board (fst (fold (captureLoser ms ls im) xs (a, kc)))) q =
      (if \<exists>i \<in> set xs. ls ! i \<and> m_from (ms ! i) = q then emptyPiece q else slot (arb_board a) q)"
    and "snd (fold (captureLoser ms ls im) xs (a, kc)) \<longleftrightarrow>
      kc \<or> (\<exists>i \<in> set xs. ls ! i \<and> getKind (slot (arb_board a) (m_from (ms ! i))) = King)" by blast+
qed

lemma resolveCollisions_outcome:
  fixes a :: arbiter and p g :: int and kc :: bool
  assumes "board_shape (arb_board a)"
    and "\<And>m. m \<in> set (active_motions a) \<Longrightarrow> isWithinBounds (arb_board a) (m_from m)"
  defines "ms \<equiv> active_motions a" and "r \<equiv> resolveCollisions p g (a, kc)"
  shows "active_motions (fst r) =
      map (\<lambda>i. ms ! i) (filter (\<lambda>i. \<not> collisionLoser (arb_board a) ms p g i) [0..<length ms])"
    and "isWithinBounds (arb_board a) q \<Longrightarrow> slot (arb_board (fst r)) q =
      (if \<exists>i<length ms. collisionLoser (arb_board a) ms p g i \<and> m_from (ms ! i) = q
       then emptyPiece q else slot (arb_board a) q)"
    and "isWithinBounds (arb_board a) q \<Longrightarrow> snd r \<longleftrightarrow> kc \<or> (\<exists>i<length ms. collisionLoser (arb_board a) ms p g i \<and>
       getKind (slot (arb_board a) (m_from (ms ! i))) = King)"
    and "cooldown_until_ms (fst r) = cooldown_until_ms a"
proof -
  obtain ls im where f: "(ls, im) = fold (markEnemy (arb_board a) ms)
       (encounters (arb_board a) ms p g) (replicate (length ms) False, \<lambda>_. None)"
    and r: "r = (let s = fold (captureLoser ms ls im) [0..<length ms] (a, kc)
        in ((fst s)\<lparr>active_motions := map (\<lambda>i. ms ! i) (filter (\<lambda>i. \<not> ls ! i) [0..<length ms])\<rparr>, snd s))"
    unfolding ms_def r_def using resolveCollisions_split by metis
  have ls: "ls ! i \<longleftrightarrow> collisionLoser (arb_board a) ms p g i" if "i < length ms" for i
    using fold_markEnemy_encounters [of ms "arb_board a" p g] that collisionLoser_iff [OF that, of "arb_board a" p g]
    unfolding f [symmetric] marksOk_def by auto
  have w: "isWithinBounds (arb_board a) (m_from (ms ! i))" if "i \<in> set [0..<length ms]" for i
    using assms(2) that by (simp add: ms_def)
  show "active_motions (fst r) =
      map (\<lambda>i. ms ! i) (filter (\<lambda>i. \<not> collisionLoser (arb_board a) ms p g i) [0..<length ms])"
  proof -
    have "filter (\<lambda>i. \<not> ls ! i) [0..<length ms] =
        filter (\<lambda>i. \<not> collisionLoser (arb_board a) ms p g i) [0..<length ms]"
      using ls by (intro filter_cong) auto
    then show ?thesis by (simp add: r Let_def)
  qed
  show "cooldown_until_ms (fst r) = cooldown_until_ms a" by (simp add: r Let_def)
  assume q: "isWithinBounds (arb_board a) q"
  note cb = captureLosers_board [OF assms(1) w q, of "[0..<length ms]" ls im kc]
  show "slot (arb_board (fst r)) q =
      (if \<exists>i<length ms. collisionLoser (arb_board a) ms p g i \<and> m_from (ms ! i) = q
       then emptyPiece q else slot (arb_board a) q)"
    using cb(1) ls by (auto simp: r Let_def)
  show "snd r \<longleftrightarrow> kc \<or> (\<exists>i<length ms. collisionLoser (arb_board a) ms p g i \<and>
       getKind (slot (arb_board a) (m_from (ms ! i))) = King)"
    using cb(2) ls by (auto simp: r Let_def)
qed

section \<open>Where a moving friend stops\<close>

text \<open>The table \<open>stopAt\<close> holds, for every motion that has to give way, its first blocked checkpoint.\<close>

definition stopsOk :: "motion list \<Rightarrow> encounter set \<Rightarrow> (nat, int) umap \<Rightarrow> bool" where
  "stopsOk ms E st \<longleftrightarrow> distinct (map fst st) \<and>
     (\<forall>l c. map_of st l = Some c \<longrightarrow> (\<exists>e\<in>E. loserIdx ms e = l \<and> loserCp ms e = c)) \<and>
     (\<forall>e\<in>E. \<exists>c. map_of st (loserIdx ms e) = Some c \<and> c \<le> loserCp ms e)"

lemma stopsOk_insert:
  assumes "stopsOk ms E st"
  shows "stopsOk ms (insert e E)
    (case map_of st (loserIdx ms e) of
       None \<Rightarrow> AList.update (loserIdx ms e) (loserCp ms e) st
     | Some cp \<Rightarrow> if loserCp ms e < cp then AList.update (loserIdx ms e) (loserCp ms e) st else st)"
proof (cases "map_of st (loserIdx ms e)")
  case None
  then have "loserIdx ms e' \<noteq> loserIdx ms e" if "e' \<in> E" for e'
    using assms that by (auto simp: stopsOk_def)
  then show ?thesis using assms None by (auto simp: stopsOk_def distinct_update split: if_splits)
next
  case (Some cp)
  have bound: "cp \<le> loserCp ms e'" if "e' \<in> E" "loserIdx ms e' = loserIdx ms e" for e'
    using assms that Some by (auto simp: stopsOk_def)
  show ?thesis
  proof (cases "loserCp ms e < cp")
    case True
    then show ?thesis using assms Some bound
      by (fastforce simp: stopsOk_def distinct_update split: if_splits)
  next
    case False
    then show ?thesis using assms Some by (auto simp: stopsOk_def)
  qed
qed

lemma fold_markFriendly:
  assumes "\<And>e. e \<in> set es \<Longrightarrow> tracked b (ms ! e_idxA e) \<and> tracked b (ms ! e_idxB e)" and "stopsOk ms E st"
  shows "stopsOk ms (E \<union> {e \<in> set es. \<not> enemies b (ms ! e_idxA e) (ms ! e_idxB e)}) (fold (markFriendly b ms) es st)"
  using assms
proof (induction es arbitrary: E st)
  case Nil
  then show ?case by simp
next
  case (Cons e es)
  have t: "tracked b (ms ! e_idxA e)" "tracked b (ms ! e_idxB e)" using Cons.prems(1) by auto
  let ?F = "{e' \<in> set es. \<not> enemies b (ms ! e_idxA e') (ms ! e_idxB e')}"
  show ?case
  proof (cases "enemies b (ms ! e_idxA e) (ms ! e_idxB e)")
    case True
    then have "{e' \<in> set (e # es). \<not> enemies b (ms ! e_idxA e') (ms ! e_idxB e')} = ?F" by auto
    then show ?thesis using Cons.IH [of E st] Cons.prems True by (simp add: markFriendly_eq [OF t])
  next
    case False
    let ?st = "markFriendly b ms e st"
    have "stopsOk ms (insert e E) ?st"
      using stopsOk_insert [OF Cons.prems(2), of e] False by (simp add: markFriendly_eq [OF t])
    then have "stopsOk ms (insert e E \<union> ?F) (fold (markFriendly b ms) es ?st)"
      using Cons.prems(1) by (intro Cons.IH) auto
    moreover have "E \<union> {e' \<in> set (e # es). \<not> enemies b (ms ! e_idxA e') (ms ! e_idxB e')} = insert e E \<union> ?F"
      using False by auto
    ultimately show ?thesis by simp
  qed
qed

definition stopTable :: "board \<Rightarrow> motion list \<Rightarrow> int \<Rightarrow> int \<Rightarrow> (nat, int) umap" where
  "stopTable b ms p g = fold (markFriendly b ms) (encounters b ms p g) []"

definition blockedAt :: "board \<Rightarrow> motion list \<Rightarrow> int \<Rightarrow> int \<Rightarrow> nat \<Rightarrow> nat \<Rightarrow> bool" where
  "blockedAt b ms p g l k \<longleftrightarrow> (\<exists>w<length ms. w \<noteq> l \<and> meetsAt b p g (ms ! l) k (ms ! w) \<and>
     beats ms w l \<and> \<not> enemies b (ms ! l) (ms ! w))"

lemma stopTable_ok:
  "stopsOk ms {e \<in> set (encounters b ms p g). \<not> enemies b (ms ! e_idxA e) (ms ! e_idxB e)} (stopTable b ms p g)"
proof -
  have "stopsOk ms {} []" by (simp add: stopsOk_def)
  from fold_markFriendly [OF _ this, of "encounters b ms p g" b] show ?thesis
    using encounter_ordered(7,8) by (auto simp: stopTable_def)
qed

lemma stopTable_Some:
  assumes "map_of (stopTable b ms p g) l = Some c"
  shows "l < length ms" "0 \<le> c" "c < int (pathLength (ms ! l))" "tracked b (ms ! l)"
    and "blockedAt b ms p g l (nat c)" "\<And>k. blockedAt b ms p g l k \<Longrightarrow> c \<le> int k"
proof -
  note ok = stopTable_ok [of ms b p g, unfolded stopsOk_def]
  from ok assms obtain e
    where "e \<in> {e \<in> set (encounters b ms p g). \<not> enemies b (ms ! e_idxA e) (ms ! e_idxB e)}"
      and l: "loserIdx ms e = l" "loserCp ms e = c"
    by blast
  then have e: "e \<in> set (encounters b ms p g)" "\<not> enemies b (ms ! e_idxA e) (ms ! e_idxB e)" by auto
  note eo = encounter_ordered [OF e(1)]
  show "l < length ms" "0 \<le> c" "tracked b (ms ! l)" "c < int (pathLength (ms ! l))"
    using eo l by (auto simp: loserIdx_def loserCp_def simp del: int_pathLength split: if_splits)
  have sym: "\<And>m m'. (\<not> enemies b m m') = (\<not> enemies b m' m)" by (simp add: enemies_sym)
  have "loserCp ms e = int (nat c)" using l \<open>0 \<le> c\<close> by simp
  then show "blockedAt b ms p g l (nat c)"
    using loser_iff [of "\<lambda>m m'. \<not> enemies b m m'" b ms p g l "nat c", OF sym] e l unfolding blockedAt_def by blast
  fix k assume "blockedAt b ms p g l k"
  then obtain e' where "e' \<in> set (encounters b ms p g)" "\<not> enemies b (ms ! e_idxA e') (ms ! e_idxB e')"
      "loserIdx ms e' = l" "loserCp ms e' = int k"
    using loser_iff [of "\<lambda>m m'. \<not> enemies b m m'" b ms p g l k, OF sym] \<open>l < length ms\<close> unfolding blockedAt_def by blast
  then obtain c' where "map_of (stopTable b ms p g) l = Some c'" "c' \<le> int k" using ok by (metis (mono_tags, lifting) mem_Collect_eq)
  then show "c \<le> int k" using assms by simp
qed

lemma stopTable_None:
  assumes "map_of (stopTable b ms p g) l = None" "l < length ms"
  shows "\<not> blockedAt b ms p g l k"
proof
  assume *: "blockedAt b ms p g l k"
  have sym: "\<And>m m'. (\<not> enemies b m m') = (\<not> enemies b m' m)" by (simp add: enemies_sym)
  obtain e where "e \<in> set (encounters b ms p g)" "\<not> enemies b (ms ! e_idxA e) (ms ! e_idxB e)" "loserIdx ms e = l"
    using * loser_iff [of "\<lambda>m m'. \<not> enemies b m m'" b ms p g l k, OF sym] assms(2) unfolding blockedAt_def by blast
  then show False
    using stopTable_ok [of ms b p g, unfolded stopsOk_def] assms(1)
    by (metis (mono_tags, lifting) mem_Collect_eq option.distinct(1))
qed

end
