(* ===== verification/Collision_Outcome.thy ===== *)
theory Collision_Outcome
  imports Collision
begin

text \<open>
  What the two blocking passes of the collision resolver do: the effect of
  \<open>resolveMovingFriendlyBlocks\<close> as a function of the table of stops alone, hence independent of
  the order in which the hash map is visited, and the effect of one round of
  \<open>resolveStationaryBlocks\<close>. Both keep the invariant of the arbiter.
\<close>

section \<open>Erasing by index\<close>

lemma eraseAt_nths:
  assumes "x < length xs" "S \<subseteq> {Suc x..}"
  shows "eraseAt x (nths xs (- S)) = nths xs (- insert x S)"
proof -
  let ?A = "take x xs" and ?B = "drop (Suc x) xs"
  have xs: "xs = ?A @ (xs ! x) # ?B" using assms(1) by (simp add: id_take_nth_drop)
  have len: "length ?A = x" using assms(1) by simp
  have low: "nths ?A T = ?A" if "{..<x} \<subseteq> T" for T
    using that len by (intro nths_all) auto
  have m: "min (length xs) x = x" using assms(1) by simp
  have 1: "nths xs (- S) = ?A @ (xs ! x) # nths ?B {j. j + Suc x \<notin> S}"
    using assms(2) by (subst xs, subst nths_append, subst low) (auto simp: nths_Cons len m)
  have 2: "nths xs (- insert x S) = ?A @ nths ?B {j. j + Suc x \<notin> S}"
    using assms(2) by (subst xs, subst nths_append, subst low) (auto simp: nths_Cons len m)
  have "eraseAt x (?A @ y # C) = ?A @ C" for y and C :: "'a list"
    using assms(1) by (simp add: eraseAt_def m)
  then show ?thesis using 1 2 by simp
qed

lemma erase_sorted:
  assumes "sorted_wrt (<) is" "\<And>i. i \<in> set is \<Longrightarrow> i < length xs"
  shows "fold eraseAt (rev is) xs = nths xs (- set is)"
  using assms
proof (induction "is")
  case Nil
  then show ?case by (simp add: nths_all)
next
  case (Cons i js)
  have "fold eraseAt (rev (i # js)) xs = eraseAt i (nths xs (- set js))" using Cons by simp
  also have "\<dots> = nths xs (- insert i (set js))" using Cons.prems by (intro eraseAt_nths) auto
  finally show ?case by simp
qed

lemma nths_map_upt: "nths (map f [0..<n]) A = map f (filter (\<lambda>i. i \<in> A) [0..<n])"
proof -
  have "zip (map f [0..<n]) [0..<n] = map (\<lambda>i. (f i, i)) [0..<n]"
    by (simp add: zip_map1 zip_same_conv_map)
  then show ?thesis by (simp add: nths_def filter_map comp_def)
qed

section \<open>Moving friendly blocks\<close>

definition redirect :: "motion list \<Rightarrow> (nat \<Rightarrow> int option) \<Rightarrow> nat \<Rightarrow> motion" where
  "redirect ms st l = (case st l of None \<Rightarrow> ms ! l
     | Some c \<Rightarrow> if c = 0 then ms ! l else truncateAtCheckpoint (ms ! l) (nat (c - 1)))"

definition halted :: "motion list \<Rightarrow> (nat \<Rightarrow> int option) \<Rightarrow> position \<Rightarrow> bool" where
  "halted ms st q \<longleftrightarrow> (\<exists>l<length ms. st l = Some 0 \<and> m_from (ms ! l) = q)"

definition haltedId :: "motion list \<Rightarrow> (nat \<Rightarrow> int option) \<Rightarrow> int \<Rightarrow> bool" where
  "haltedId ms st i \<longleftrightarrow> (\<exists>l<length ms. st l = Some 0 \<and> piece_id (ms ! l) = i)"

lemma transitionTo_LongRest_idem [simp]:
  "transitionTo LongRest (transitionTo LongRest p) = transitionTo LongRest p"
  by (simp add: transitionTo_def isLegalTransition_def)

lemma map_of_snoc:
  "l \<notin> fst ` set xs \<Longrightarrow> map_of (xs @ [(l, c)]) = (map_of xs)(l \<mapsto> c)"
  by (induction xs) (auto simp: fun_eq_iff)

text \<open>The state after the entries \<open>xs\<close> of the table of stops have been handled.\<close>

definition afterStops :: "int \<Rightarrow> arbiter \<Rightarrow> (nat \<Rightarrow> int option) \<Rightarrow> arbiter \<Rightarrow> bool" where
  "afterStops g a0 st a \<longleftrightarrow>
     board_shape (arb_board a) \<and>
     getWidth (arb_board a) = getWidth (arb_board a0) \<and> getHeight (arb_board a) = getHeight (arb_board a0) \<and>
     active_motions a = map (redirect (active_motions a0) st) [0..<length (active_motions a0)] \<and>
     (\<forall>q. isWithinBounds (arb_board a0) q \<longrightarrow> slot (arb_board a) q =
        (if halted (active_motions a0) st q then transitionTo LongRest (slot (arb_board a0) q)
         else slot (arb_board a0) q)) \<and>
     (\<forall>i. map_of (cooldown_until_ms a) i =
        (if haltedId (active_motions a0) st i then Some (g + LONG_REST_MS) else map_of (cooldown_until_ms a0) i)) \<and>
     (distinct (map fst (cooldown_until_ms a0)) \<longrightarrow> distinct (map fst (cooldown_until_ms a))) \<and>
     game_clock_ms a = game_clock_ms a0 \<and> captured_pieces a = captured_pieces a0 \<and>
     notifications a = notifications a0 \<and> collisionEnabled a = collisionEnabled a0"

lemma afterStopsD:
  assumes "afterStops g a0 st a"
  shows "board_shape (arb_board a)"
    "getWidth (arb_board a) = getWidth (arb_board a0)" "getHeight (arb_board a) = getHeight (arb_board a0)"
    "active_motions a = map (redirect (active_motions a0) st) [0..<length (active_motions a0)]"
    "isWithinBounds (arb_board a0) q \<Longrightarrow> slot (arb_board a) q =
        (if halted (active_motions a0) st q then transitionTo LongRest (slot (arb_board a0) q)
         else slot (arb_board a0) q)"
    "map_of (cooldown_until_ms a) i =
        (if haltedId (active_motions a0) st i then Some (g + LONG_REST_MS) else map_of (cooldown_until_ms a0) i)"
    "distinct (map fst (cooldown_until_ms a0)) \<Longrightarrow> distinct (map fst (cooldown_until_ms a))"
    "game_clock_ms a = game_clock_ms a0" "captured_pieces a = captured_pieces a0"
    "notifications a = notifications a0" "collisionEnabled a = collisionEnabled a0"
  using assms unfolding afterStops_def by blast+

lemma afterStops_init: "board_shape (arb_board a) \<Longrightarrow> afterStops g a (\<lambda>_. None) a"
  using map_nth [of "active_motions a"]
  by (simp add: afterStops_def halted_def haltedId_def redirect_def [abs_def])

lemma halted_upd:
  assumes "l < length ms" "st l = None"
  shows "halted ms (st(l \<mapsto> c)) q \<longleftrightarrow> halted ms st q \<or> c = 0 \<and> m_from (ms ! l) = q"
    and "haltedId ms (st(l \<mapsto> c)) i \<longleftrightarrow> haltedId ms st i \<or> c = 0 \<and> piece_id (ms ! l) = i"
  unfolding halted_def haltedId_def fun_upd_apply using assms by (metis option.distinct(1) option.inject)+

lemma redirect_upd:
  assumes "l < length ms" "st l = None"
  shows "map (redirect ms (st(l \<mapsto> c))) [0..<length ms] =
    (map (redirect ms st) [0..<length ms])[l := (if c = 0 then ms ! l else truncateAtCheckpoint (ms ! l) (nat (c - 1)))]"
  using assms by (intro nth_equalityI) (auto simp: redirect_def nth_list_update)

lemma afterStops_step:
  assumes "afterStops g a0 st a" "st l = None" "l < length (active_motions a0)"
    and w: "isWithinBounds (arb_board a0) (m_from (active_motions a0 ! l))"
  shows "afterStops g a0 (st(l \<mapsto> c)) (fst (stopFriendly g (l, c) (a, er)))"
    and "snd (stopFriendly g (l, c) (a, er)) = (if c = 0 then er @ [l] else er)"
proof -
  let ?ms = "active_motions a0" let ?m = "?ms ! l"
  have m: "active_motions a ! l = ?m"
    using assms by (simp add: afterStops_def redirect_def)
  have wb: "isWithinBounds (arb_board a) q = isWithinBounds (arb_board a0) q" for q
    using assms(1) by (auto simp: afterStops_def isWithinBounds_def)
  have sf: "stopFriendly g (l, c) (a, er) =
      (if c = 0 then (restInPlace ?m g a, er @ [l])
       else (a\<lparr>active_motions := (active_motions a)[l := truncateAtCheckpoint ?m (nat (c - 1))]\<rparr>, er))"
    using w by (simp add: stopFriendly_def Let_def m getPiece_def wb)
  then show "snd (stopFriendly g (l, c) (a, er)) = (if c = 0 then er @ [l] else er)" by simp
  note up = redirect_upd [of l ?ms st c, OF assms(3,2)] halted_upd [of l ?ms st c, OF assms(3,2)]
  note A = assms(1) [unfolded afterStops_def]
  show "afterStops g a0 (st(l \<mapsto> c)) (fst (stopFriendly g (l, c) (a, er)))"
  proof (cases "c = 0")
    case True
    have "(map (redirect ?ms st) [0..<length ?ms])[l := ?m] = map (redirect ?ms st) [0..<length ?ms]"
      using assms(2,3) by (simp add: list_update_same_conv redirect_def)
    then have "active_motions a = map (redirect ?ms (st(l \<mapsto> c))) [0..<length ?ms]"
      unfolding up(1) using A True by simp
    then show ?thesis
      using A True w unfolding afterStops_def sf
      by (simp add: halted_upd [of l ?ms st 0, OF assms(3,2)] restInPlace_def slot_withPiece wb
          distinct_update del: map_eq_conv)
  next
    case False
    then have "(active_motions a)[l := truncateAtCheckpoint ?m (nat (c - 1))] =
        map (redirect ?ms (st(l \<mapsto> c))) [0..<length ?ms]"
      using A by (simp add: up(1) del: map_eq_conv)
    then show ?thesis
      using A False unfolding afterStops_def sf by (simp add: up(2,3) del: map_eq_conv)
  qed
qed

lemma fold_stopFriendly:
  assumes "board_shape (arb_board a)" "distinct (map fst xs)"
    and "\<And>l c. (l, c) \<in> set xs \<Longrightarrow> l < length (active_motions a)"
    and "\<And>m. m \<in> set (active_motions a) \<Longrightarrow> isWithinBounds (arb_board a) (m_from m)"
  shows "afterStops g a (map_of xs) (fst (fold (stopFriendly g) xs (a, []))) \<and>
    snd (fold (stopFriendly g) xs (a, [])) = map fst (filter (\<lambda>e. snd e = 0) xs)"
  using assms(2,3)
proof (induction xs rule: rev_induct)
  case Nil
  then show ?case using afterStops_init [OF assms(1)] by (simp add: fun_eq_iff)
next
  case (snoc x xs)
  obtain l c where x: "x = (l, c)" by force
  obtain a' er where f: "fold (stopFriendly g) xs (a, []) = (a', er)" by force
  have IH: "afterStops g a (map_of xs) a'" "er = map fst (filter (\<lambda>e. snd e = 0) xs)"
    using snoc f by auto
  have l: "l \<notin> fst ` set xs" "l < length (active_motions a)"
    using snoc.prems by (auto simp: x)
  then have "map_of xs l = None" by (simp add: map_of_eq_None_iff)
  note st = afterStops_step [OF IH(1) this l(2) assms(4) [OF nth_mem [OF l(2)]], of c er]
  have "fold (stopFriendly g) (xs @ [x]) (a, []) = stopFriendly g (l, c) (a', er)"
    by (simp add: f x)
  moreover have "map fst (filter (\<lambda>e. snd e = 0) (xs @ [x])) = (if c = 0 then er @ [l] else er)"
    by (simp add: x IH(2))
  moreover have "map_of (xs @ [x]) = (map_of xs)(l \<mapsto> c)" unfolding x by (rule map_of_snoc [OF l(1)])
  ultimately show ?case using st by (simp only: simp_thms)
qed

lemma distinct_fst_filter: "distinct (map fst xs) \<Longrightarrow> distinct (map fst (filter P xs))"
  by (induction xs) auto

text \<open>
  The outcome of \<open>resolveMovingFriendlyBlocks\<close>, for every iteration order of the table of stops.
\<close>

definition afterFriendlyBlocks :: "int \<Rightarrow> arbiter \<Rightarrow> (nat \<Rightarrow> int option) \<Rightarrow> arbiter \<Rightarrow> bool" where
  "afterFriendlyBlocks g a0 st a \<longleftrightarrow> (\<exists>a1. afterStops g a0 st a1 \<and>
     a = a1\<lparr>active_motions := map (redirect (active_motions a0) st)
        (filter (\<lambda>l. st l \<noteq> Some 0) [0..<length (active_motions a0)])\<rparr>)"

lemma resolveMovingFriendlyBlocks_outcome:
  fixes a :: arbiter and p g :: int
  assumes ord: "iteration_order ord" and shape: "board_shape (arb_board a)"
    and w: "\<And>m. m \<in> set (active_motions a) \<Longrightarrow> isWithinBounds (arb_board a) (m_from m)"
  defines "st \<equiv> stopTable (arb_board a) (active_motions a) p g"
  shows "afterFriendlyBlocks g a (map_of st) (resolveMovingFriendlyBlocks ord p g a)"
proof -
  let ?ms = "active_motions a"
  let ?xs = "iter ord st"
  have dst: "distinct (map fst st)"
    using stopTable_ok [of ?ms "arb_board a" p g] by (simp add: stopsOk_def st_def)
  have ms: "mset ?xs = mset st" and set: "set ?xs = set st" using ord by (simp_all add: mset_iter set_iter)
  have dxs: "distinct (map fst ?xs)" using dst ms by (metis mset_eq_imp_distinct_iff mset_map)
  have mo: "map_of ?xs = map_of st" using dxs dst set by (metis map_of_inject_set)
  have rng: "l < length ?ms" if "(l, c) \<in> set ?xs" for l c
    using that dst set stopTable_Some(1) [of "arb_board a" ?ms p g l] by (simp add: st_def)
  obtain a1 er where f: "fold (stopFriendly g) ?xs (a, []) = (a1, er)" by force
  have as: "afterStops g a (map_of st) a1" and er: "er = map fst (filter (\<lambda>e. snd e = 0) ?xs)"
    using fold_stopFriendly [where g = g, OF shape dxs rng w] f mo by auto
  have mem: "l \<in> set er \<longleftrightarrow> map_of st l = Some 0" for l
    using dst set by (force simp: er)
  have "sorted_wrt (<) (sort er)"
    using distinct_fst_filter [OF dxs] by (simp add: er strict_sorted_iff)
  moreover have "\<And>i. i \<in> set (sort er) \<Longrightarrow> i < length (active_motions a1)"
    using as rng by (auto simp: afterStops_def er)
  ultimately have "fold eraseAt (rev (sort er)) (active_motions a1) = nths (active_motions a1) (- set er)"
    using erase_sorted [of "sort er" "active_motions a1"] by simp
  also have "\<dots> = map (redirect ?ms (map_of st)) (filter (\<lambda>l. map_of st l \<noteq> Some 0) [0..<length ?ms])"
    using as mem by (simp add: afterStops_def nths_map_upt)
  finally show ?thesis
    using as f unfolding afterFriendlyBlocks_def resolveMovingFriendlyBlocks_def
    by (auto simp: Let_def st_def stopTable_def)
qed

lemma motion_ok_truncate [inv_intros]:
  "motion_ok b t m \<Longrightarrow> k < pathLength m \<Longrightarrow> motion_ok b t (truncateAtCheckpoint m k)"
  by (auto simp: motion_ok_def truncate_timed truncate_fields intro: pathCell_within)

lemma piece_ok_LongRest: "piece_ok p \<Longrightarrow> piece_ok (transitionTo LongRest p)"
  by (cases "getKind p = NoKind") (auto simp: piece_ok_def transitionTo_noop_empty transitionTo_not_Captured)

lemma redirect_ok:
  assumes "\<And>m. m \<in> set ms \<Longrightarrow> motion_ok b t m" "l < length ms"
    and "\<And>c. st l = Some c \<Longrightarrow> 0 \<le> c \<and> c < int (pathLength (ms ! l))"
  shows "motion_ok b t (redirect ms st l)"
  using assms by (auto simp: redirect_def split: option.split intro!: motion_ok_truncate simp del: int_pathLength)

lemma evolves_friendlyBlocks:
  assumes "iteration_order ord" "g \<le> game_clock_ms a"
  shows "evolves a (resolveMovingFriendlyBlocks ord p g a)"
proof (unfold evolves_def, rule impI)
  assume ok: "arbiter_ok a"
  let ?ms = "active_motions a" and ?b = "arb_board a"
  let ?st = "map_of (stopTable ?b ?ms p g)" let ?r = "resolveMovingFriendlyBlocks ord p g a"
  have w: "\<And>m. m \<in> set ?ms \<Longrightarrow> isWithinBounds ?b (m_from m)"
    using arbiter_okD(3) [OF ok] by (auto simp: motion_ok_def)
  obtain a1 where A: "afterStops g a ?st a1"
    and r: "?r = a1\<lparr>active_motions := map (redirect ?ms ?st) (filter (\<lambda>l. ?st l \<noteq> Some 0) [0..<length ?ms])\<rparr>"
    using resolveMovingFriendlyBlocks_outcome [where p = p and g = g, OF assms(1) arbiter_okD(2) [OF ok] w]
    unfolding afterFriendlyBlocks_def by auto
  note D = afterStopsD [OF A]
  have slots: "slotId (slot (arb_board a1) q) = slotId (slot ?b q) \<and>
      getCell (slot (arb_board a1) q) = q \<and> piece_ok (slot (arb_board a1) q)" if "isWithinBounds ?b q" for q
    using D(5) [OF that] board_wfD(2,3) [OF arbiter_okD(1) [OF ok] that] by (simp add: piece_ok_LongRest)
  have wf: "board_wf (arb_board a1)"
    by (rule board_wf_slots_cong [OF arbiter_okD(1) [OF ok] D(1-3) slots])
  have ids: "boardIds (arb_board a1) = boardIds ?b"
    using slots by (intro boardIds_slots_cong [OF arbiter_okD(2) [OF ok] D(1-3)]) blast
  have motions: "motion_ok (arb_board a1) (game_clock_ms a) (redirect ?ms ?st l)" if "l < length ?ms" for l
    unfolding motion_ok_size_cong [OF D(2,3)]
    using that arbiter_okD(3) [OF ok] stopTable_Some(2,3) [of ?b ?ms p g l] by (intro redirect_ok) blast+
  have cd: "t \<le> game_clock_ms a + LONG_REST_MS" if "map_of (cooldown_until_ms a1) i = Some t" for i t
    using that assms(2) arbiter_okD(5) [OF ok, of i t] by (auto simp: D(6) split: if_splits)
  have "arbiter_ok ?r"
    unfolding arbiter_ok_def r
    using wf motions cd D(7) [OF arbiter_okD(4) [OF ok]] arbiter_okD(6,7) [OF ok] by (auto simp: D(8-10))
  then show "arbiter_ok ?r \<and> allIds ?r = allIds a \<and>
     game_clock_ms ?r = game_clock_ms a \<and> collisionEnabled ?r = collisionEnabled a \<and>
     getWidth (arb_board ?r) = getWidth (arb_board a) \<and> getHeight (arb_board ?r) = getHeight (arb_board a)"
    using ids by (simp add: r allIds_def D(2,3,8-11))
qed

section \<open>Stationary blocks\<close>

lemma stationaryBlocker_Some:
  assumes "stationaryBlocker a p g m = Some (idx, cell, t)"
  shows "idx < pathLength m" "cell = fst (pathCheckpoints m ! idx)" "t = snd (pathCheckpoints m ! idx)"
    "p < t" "t \<le> g" "cell \<noteq> m_to m" "isWithinBounds (arb_board a) cell"
    "getKind (slot (arb_board a) cell) \<noteq> NoKind"
    "\<not> isPieceSliding (active_motions a) (getId (slot (arb_board a) cell))"
proof -
  have mem: "(idx, cell, t) \<in> set (enumerate 0 (pathCheckpoints m))"
    and P: "(if t \<le> p \<or> t > g then False
         else if cell = m_to m then False
         else case getPiece (arb_board a) cell of
                None \<Rightarrow> False
              | Some blocker \<Rightarrow>
                  if getKind blocker = NoKind then False
                  else \<not> isPieceSliding (active_motions a) (getId blocker))"
    using assms unfolding stationaryBlocker_def find_Some_iff by (force simp: in_set_conv_nth)+
  show "idx < pathLength m" "cell = fst (pathCheckpoints m ! idx)" "t = snd (pathCheckpoints m ! idx)"
    using mem by (auto simp: in_set_enumerate_eq)
  show "p < t" "t \<le> g" "cell \<noteq> m_to m" "isWithinBounds (arb_board a) cell"
    "getKind (slot (arb_board a) cell) \<noteq> NoKind"
    "\<not> isPieceSliding (active_motions a) (getId (slot (arb_board a) cell))"
    using P by (auto simp: getPiece_def split: if_splits)
qed

text \<open>The three things a round can do: nothing, cut the motion short, or cancel it.\<close>

lemma stationaryRound_cases:
  obtains (keep) "stationaryRound p g i a = Inr a"
  | (cut) k where "k < pathLength (active_motions a ! i)" "tracked (arb_board a) (active_motions a ! i)"
      "stationaryRound p g i a =
         Inr (a\<lparr>active_motions := (active_motions a)[i := truncateAtCheckpoint (active_motions a ! i) k]\<rparr>)"
  | (cancel) "tracked (arb_board a) (active_motions a ! i)"
      "stationaryRound p g i a =
         Inl ((restInPlace (active_motions a ! i) g a)\<lparr>active_motions := eraseAt i (active_motions a)\<rparr>)"
proof -
  let ?m = "active_motions a ! i"
  show thesis
  proof (cases "\<not> tracked (arb_board a) ?m \<or> stationaryBlocker a p g ?m = None")
    case True
    then have "stationaryRound p g i a = Inr a"
      by (auto simp: stationaryRound_def Let_def tracked_def split: if_splits option.splits)
    then show ?thesis by (rule keep)
  next
    case False
    then obtain idx cell t where bl: "stationaryBlocker a p g ?m = Some (idx, cell, t)"
      and tr: "tracked (arb_board a) ?m" by auto
    note s = stationaryBlocker_Some [OF bl]
    have cutm: "?m\<lparr>m_to := cell, arrival_time_ms := t\<rparr> = truncateAtCheckpoint ?m idx"
      by (simp add: truncateAtCheckpoint_def s(2,3))
    have R: "stationaryRound p g i a =
       (let blocker = slot (arb_board a) cell; mover = slot (arb_board a) (m_from ?m) in
        if getColor blocker = getColor mover \<and> \<not> defendsCell blocker then
          if idx = 0 then Inl ((restInPlace ?m g a)\<lparr>active_motions := eraseAt i (active_motions a)\<rparr>)
          else Inr (a\<lparr>active_motions := (active_motions a)[i := truncateAtCheckpoint ?m (idx - 1)]\<rparr>)
        else Inr (a\<lparr>active_motions := (active_motions a)[i := truncateAtCheckpoint ?m idx]\<rparr>))"
      using tr by (simp add: stationaryRound_def Let_def bl cutm tracked_iff getPiece_def)
    show ?thesis
      using R s(1) tr keep cut [of "idx - 1"] cut [of idx] cancel
      by (auto simp: Let_def split: if_splits)
  qed
qed

lemma set_eraseAt: "set (eraseAt i xs) \<subseteq> set xs"
  by (auto simp: eraseAt_def dest: in_set_takeD in_set_dropD)

lemma evolves_restInPlace: "t \<le> game_clock_ms a \<Longrightarrow> evolves a (restInPlace m t a)"
  unfolding restInPlace_def
  by (rule evolves_trans [OF evolves_cooldown [of "t + LONG_REST_MS" a "piece_id m"]])
    (auto intro: evolves_trans [OF evolves_rest [of LongRest _ "m_from m"]])

lemma evolves_stationaryRound:
  assumes "i < length (active_motions a)" "g \<le> game_clock_ms a"
  shows "stationaryRound p g i a = Inl a' \<Longrightarrow> evolves a a'"
    and "stationaryRound p g i a = Inr a' \<Longrightarrow> evolves a a'"
proof -
  let ?m = "active_motions a ! i"
  have cut: "evolves a (a\<lparr>active_motions := (active_motions a)[i := truncateAtCheckpoint ?m k]\<rparr>)"
    if "k < pathLength ?m" for k
    using that assms(1) by (intro evolves_motions) (auto dest!: set_update_subset_insert [THEN subsetD]
        intro: motion_ok_truncate simp: arbiter_okD)
  have cancel: "evolves a ((restInPlace ?m g a)\<lparr>active_motions := eraseAt i (active_motions a)\<rparr>)"
    by (rule evolves_trans [OF evolves_restInPlace [OF assms(2), of ?m]], rule evolves_motions)
      (use set_eraseAt [of i "active_motions a"] arbiter_okD(3) [of "restInPlace ?m g a"] in auto)
  show "stationaryRound p g i a = Inl a' \<Longrightarrow> evolves a a'"
    and "stationaryRound p g i a = Inr a' \<Longrightarrow> evolves a a'"
    using cut cancel by (cases rule: stationaryRound_cases [of p g i a]; auto)+
qed

lemma stationaryLoop_invariant:
  assumes "P a" and "\<And>i a a'. P a \<Longrightarrow> i < length (active_motions a) \<Longrightarrow>
      stationaryRound p g i a = Inl a' \<or> stationaryRound p g i a = Inr a' \<Longrightarrow> P a'"
  shows "P (stationaryLoop p g i a)"
  using assms(1)
proof (induction "length (active_motions a) - i" arbitrary: i a rule: less_induct)
  case less
  show ?case
  proof (cases "i < length (active_motions a)")
    case True
    show ?thesis
    proof (cases "stationaryRound p g i a")
      case (Inl a')
      then have "P (stationaryLoop p g i a')"
        using less True assms(2) stationaryRound_length(1) [OF True Inl] by (intro less.hyps) auto
      then show ?thesis using True Inl by (simp add: stationaryLoop.simps [of p g i a])
    next
      case (Inr a')
      then have "P (stationaryLoop p g (Suc i) a')"
        using less True assms(2) stationaryRound_length(2) [OF Inr] by (intro less.hyps) auto
      then show ?thesis using True Inr by (simp add: stationaryLoop.simps [of p g i a])
    qed
  next
    case False
    then show ?thesis using less.prems by (simp add: stationaryLoop.simps [of p g i a])
  qed
qed

lemma evolves_stationaryBlocks:
  assumes "g \<le> game_clock_ms a"
  shows "evolves a (resolveStationaryBlocks p g a)"
proof (unfold evolves_def, rule impI)
  assume ok: "arbiter_ok a"
  have "evolves a (stationaryLoop p g 0 a) \<and> arbiter_ok (stationaryLoop p g 0 a) \<and>
      g \<le> game_clock_ms (stationaryLoop p g 0 a)"
  proof (rule stationaryLoop_invariant [where P = "\<lambda>b. evolves a b \<and> arbiter_ok b \<and> g \<le> game_clock_ms b"])
    fix i b b'
    assume P: "evolves a b \<and> arbiter_ok b \<and> g \<le> game_clock_ms b" and i: "i < length (active_motions b)"
      and "stationaryRound p g i b = Inl b' \<or> stationaryRound p g i b = Inr b'"
    then have "evolves b b'" using evolves_stationaryRound [OF i, of g] by blast
    then show "evolves a b' \<and> arbiter_ok b' \<and> g \<le> game_clock_ms b'"
      using P by (auto intro: evolves_trans simp: evolves_def [of b])
  qed (use ok assms in simp)
  then show "arbiter_ok (resolveStationaryBlocks p g a) \<and> allIds (resolveStationaryBlocks p g a) = allIds a \<and>
     game_clock_ms (resolveStationaryBlocks p g a) = game_clock_ms a \<and>
     collisionEnabled (resolveStationaryBlocks p g a) = collisionEnabled a \<and>
     getWidth (arb_board (resolveStationaryBlocks p g a)) = getWidth (arb_board a) \<and>
     getHeight (arb_board (resolveStationaryBlocks p g a)) = getHeight (arb_board a)"
    using ok unfolding resolveStationaryBlocks_def evolves_def by blast
qed

end
