(* ===== verification/Liveness.thy ===== *)
theory Liveness
  imports Collision_Outcome
begin

text \<open>
  No piece gets stuck. A piece that is moving or jumping owns an active motion that starts at
  its cell, and a resting piece has a cooldown that has not run out or still owns a slide. The
  collision passes keep this: a motion disappears only together with its piece, or together with
  the cooldown that will wake the piece.
\<close>

definition ownSlide :: "motion list \<Rightarrow> piece \<Rightarrow> bool" where
  "ownSlide ms p \<longleftrightarrow> (\<exists>m \<in> set ms. piece_id m = getId p \<and> m_from m = getCell p \<and> m_from m \<noteq> m_to m)"

definition ownJump :: "motion list \<Rightarrow> piece \<Rightarrow> bool" where
  "ownJump ms p \<longleftrightarrow> (\<exists>m \<in> set ms. piece_id m = getId p \<and> m_from m = getCell p \<and> m_from m = m_to m) \<and>
     (\<forall>m \<in> set ms. piece_id m = getId p \<longrightarrow> m_from m = m_to m)"

definition pending :: "(int, int) umap \<Rightarrow> int \<Rightarrow> int \<Rightarrow> bool" where
  "pending cd t i \<longleftrightarrow> (\<exists>u. map_of cd i = Some u \<and> t < u)"

definition live_piece :: "motion list \<Rightarrow> (int, int) umap \<Rightarrow> int \<Rightarrow> piece \<Rightarrow> bool" where
  "live_piece ms cd t p =
     (case getState p of
        Idle \<Rightarrow> True
      | Moving \<Rightarrow> ownSlide ms p
      | Jump \<Rightarrow> ownJump ms p
      | ShortRest \<Rightarrow> pending cd t (getId p) \<or> ownSlide ms p
      | LongRest \<Rightarrow> pending cd t (getId p) \<or> ownSlide ms p
      | Captured \<Rightarrow> False)"

definition live_at :: "int \<Rightarrow> motion list \<Rightarrow> arbiter \<Rightarrow> bool" where
  "live_at t ms a \<longleftrightarrow> (\<forall>q. isWithinBounds (arb_board a) q \<longrightarrow>
     live_piece ms (cooldown_until_ms a) t (slot (arb_board a) q))"

definition live :: "arbiter \<Rightarrow> bool" where
  "live a \<longleftrightarrow> live_at (game_clock_ms a) (active_motions a) a"

lemma live_piece_Idle [simp]: "getState p = Idle \<Longrightarrow> live_piece ms cd t p"
  by (simp add: live_piece_def)

lemma live_piece_step:
  assumes "live_piece ms cd t p"
    and jumps: "\<And>m. m \<in> set ms \<Longrightarrow> piece_id m = getId p \<Longrightarrow> m_from m = getCell p \<Longrightarrow> m_from m = m_to m \<Longrightarrow> m \<in> set ms'"
    and slides: "\<And>m. m \<in> set ms \<Longrightarrow> piece_id m = getId p \<Longrightarrow> m_from m = getCell p \<Longrightarrow> m_from m \<noteq> m_to m \<Longrightarrow>
      ownSlide ms' p \<or> h \<and> pending cd' t (getId p)"
    and bwd: "\<And>m'. m' \<in> set ms' \<Longrightarrow> \<exists>m \<in> set ms. piece_id m = piece_id m' \<and> (m_from m = m_to m \<longleftrightarrow> m_from m' = m_to m')"
    and cds: "pending cd t (getId p) \<Longrightarrow> pending cd' t (getId p)"
    and p': "p' = (if h then transitionTo LongRest p else p)"
  shows "live_piece ms' cd' t p'"
proof -
  have s: "ownSlide ms p \<Longrightarrow> ownSlide ms' p \<or> h \<and> pending cd' t (getId p)"
    using slides by (auto simp: ownSlide_def [of ms])
  have j: "ownJump ms p \<Longrightarrow> ownJump ms' p"
    using jumps bwd unfolding ownJump_def by metis
  have tr: "transitionTo LongRest p = (if getState p = Moving then p\<lparr>getState := LongRest\<rparr> else p)"
    by (auto simp: transitionTo_def isLegalTransition_def kLegalTransitions_def)
  have "ownSlide ms' (p\<lparr>getState := LongRest\<rparr>) = ownSlide ms' p" by (simp add: ownSlide_def)
  then show ?thesis
    using assms(1) s j cds unfolding p' tr by (auto simp: live_piece_def split: state.splits if_splits)
qed

section \<open>The collision passes\<close>

lemma live_resolveCollisions:
  fixes a :: arbiter and p g :: int and kc :: bool
  assumes ok: "arbiter_ok a" and live: "live_at t (active_motions a) a"
  defines "a' \<equiv> fst (resolveCollisions p g (a, kc))"
  shows "live_at t (active_motions a') a'"
proof -
  let ?ms = "active_motions a" and ?b = "arb_board a"
  let ?L = "collisionLoser ?b ?ms p g"
  have w: "\<And>m. m \<in> set ?ms \<Longrightarrow> isWithinBounds ?b (m_from m)"
    using arbiter_okD(3) [OF ok] by (auto simp: motion_ok_def)
  note outcome = resolveCollisions_outcome [where p = p and g = g and kc = kc, OF arbiter_okD(2) [OF ok]]
  have o1: "active_motions a' = map (\<lambda>i. ?ms ! i) (filter (\<lambda>i. \<not> ?L i) [0..<length ?ms])"
    unfolding a'_def by (rule outcome(1) [OF w])
  have o2: "slot (arb_board a') q = (if \<exists>i<length ?ms. ?L i \<and> m_from (?ms ! i) = q then emptyPiece q else slot ?b q)"
    if "isWithinBounds ?b q" for q
    unfolding a'_def by (rule outcome(2) [OF w that])
  have o4: "cooldown_until_ms a' = cooldown_until_ms a" unfolding a'_def by (rule outcome(4) [OF w])
  have size: "isWithinBounds (arb_board a') q = isWithinBounds ?b q" for q
    using evolves_resolveCollisions [of "(a, kc)" p g] ok by (simp add: evolves_def a'_def isWithinBounds_def)
  have sub: "set (active_motions a') \<subseteq> set ?ms" using o1 by auto
  have "live_piece (active_motions a') (cooldown_until_ms a') t (slot (arb_board a') q)"
    if q: "isWithinBounds ?b q" for q
  proof (cases "\<exists>i<length ?ms. ?L i \<and> m_from (?ms ! i) = q")
    case True
    then show ?thesis using o2 [OF q] by simp
  next
    case False
    then have sl: "slot (arb_board a') q = slot ?b q" using o2 [OF q] by (simp only: if_False)
    have cell: "getCell (slot ?b q) = q" using board_wfD(2) [OF arbiter_okD(1) [OF ok] q] .
    have stays: "m \<in> set (active_motions a')" if "m \<in> set ?ms" "m_from m = q" for m
      using that False o1 by (auto simp: in_set_conv_nth)
    show ?thesis
    proof (rule live_piece_step [where h = False])
      show "live_piece ?ms (cooldown_until_ms a) t (slot ?b q)" using live q by (simp add: live_at_def)
      show "ownSlide (active_motions a') (slot ?b q) \<or> False \<and> pending (cooldown_until_ms a') t (getId (slot ?b q))"
        if "m \<in> set ?ms" "piece_id m = getId (slot ?b q)" "m_from m = getCell (slot ?b q)" "m_from m \<noteq> m_to m" for m
        using that stays [of m] cell by (auto simp: ownSlide_def)
    qed (use sl stays cell sub o4 in auto)
  qed
  then show ?thesis by (simp add: live_at_def size)
qed

lemma redirect_course:
  assumes "\<And>c. st l = Some c \<Longrightarrow> 0 \<le> c \<and> c < int (pathLength (ms ! l)) \<and> m_from (ms ! l) \<noteq> m_to (ms ! l)"
  shows "piece_id (redirect ms st l) = piece_id (ms ! l)" "m_from (redirect ms st l) = m_from (ms ! l)"
    "m_from (redirect ms st l) = m_to (redirect ms st l) \<longleftrightarrow> m_from (ms ! l) = m_to (ms ! l)"
  using assms truncate_slide by (auto simp: redirect_def truncateAtCheckpoint_def split: option.splits simp del: int_pathLength)

lemma live_friendlyBlocks:
  fixes a :: arbiter and p g :: int
  assumes ord: "iteration_order ord" and ok: "arbiter_ok a" and live: "live_at t (active_motions a) a"
    and t: "t < g + LONG_REST_MS"
  defines "a' \<equiv> resolveMovingFriendlyBlocks ord p g a"
  shows "live_at t (active_motions a') a'"
proof -
  let ?ms = "active_motions a" and ?b = "arb_board a" let ?st = "map_of (stopTable ?b ?ms p g)"
  have w: "\<And>m. m \<in> set ?ms \<Longrightarrow> isWithinBounds ?b (m_from m)"
    using arbiter_okD(3) [OF ok] by (auto simp: motion_ok_def)
  obtain a1 where A: "afterStops g a ?st a1"
    and r: "a' = a1\<lparr>active_motions := map (redirect ?ms ?st) (filter (\<lambda>l. ?st l \<noteq> Some 0) [0..<length ?ms])\<rparr>"
    using resolveMovingFriendlyBlocks_outcome [where p = p and g = g, OF ord arbiter_okD(2) [OF ok] w]
    unfolding afterFriendlyBlocks_def a'_def by auto
  note D = afterStopsD [OF A]
  have st: "0 \<le> c \<and> c < int (pathLength (?ms ! l)) \<and> m_from (?ms ! l) \<noteq> m_to (?ms ! l)" if "?st l = Some c" for l c
    using stopTable_Some(2-4) [OF that] by (simp add: tracked_iff)
  note rc = redirect_course [of ?st _ ?ms, OF st]
  have mem: "m' \<in> set (active_motions a') \<longleftrightarrow> (\<exists>l<length ?ms. ?st l \<noteq> Some 0 \<and> m' = redirect ?ms ?st l)" for m'
    by (auto simp: r)
  have "live_piece (active_motions a') (cooldown_until_ms a') t (slot (arb_board a') q)"
    if q: "isWithinBounds ?b q" for q
  proof (rule live_piece_step [where h = "halted ?ms ?st q"])
    let ?p = "slot ?b q"
    have cell: "getCell ?p = q" using board_wfD(2) [OF arbiter_okD(1) [OF ok] q] .
    show "live_piece ?ms (cooldown_until_ms a) t ?p" using live q by (simp add: live_at_def)
    show "m \<in> set (active_motions a')" if m: "m \<in> set ?ms" "m_from m = m_to m" for m
    proof -
      obtain l where l: "l < length ?ms" "m = ?ms ! l" using m(1) by (auto simp: in_set_conv_nth)
      then have "?st l = None" using st [of l] m(2) by (cases "?st l") auto
      then show ?thesis using l unfolding mem by (auto simp: redirect_def)
    qed
    show "ownSlide (active_motions a') ?p \<or> halted ?ms ?st q \<and> pending (cooldown_until_ms a') t (getId ?p)"
      if m: "m \<in> set ?ms" "piece_id m = getId ?p" "m_from m = getCell ?p" "m_from m \<noteq> m_to m" for m
    proof -
      obtain l where l: "l < length ?ms" "m = ?ms ! l" using m(1) by (auto simp: in_set_conv_nth)
      show ?thesis
      proof (cases "?st l = Some 0")
        case True
        then have "halted ?ms ?st q" "haltedId ?ms ?st (getId ?p)"
          using l m cell by (auto simp: halted_def haltedId_def)
        then show ?thesis using t by (simp add: pending_def r D(6))
      next
        case False
        then have "redirect ?ms ?st l \<in> set (active_motions a')" using l mem by blast
        moreover have "piece_id (redirect ?ms ?st l) = getId ?p" "m_from (redirect ?ms ?st l) = getCell ?p"
          "m_from (redirect ?ms ?st l) \<noteq> m_to (redirect ?ms ?st l)"
          using rc [of l] l m by simp_all
        ultimately show ?thesis unfolding ownSlide_def by blast
      qed
    qed
    show "\<exists>m \<in> set ?ms. piece_id m = piece_id m' \<and> (m_from m = m_to m \<longleftrightarrow> m_from m' = m_to m')"
      if m': "m' \<in> set (active_motions a')" for m'
    proof -
      obtain l where l: "l < length ?ms" "m' = redirect ?ms ?st l" using m' mem by blast
      then show ?thesis using rc [of l] nth_mem [OF l(1)] by (intro bexI [of _ "?ms ! l"]) simp_all
    qed
    show "pending (cooldown_until_ms a) t (getId ?p) \<Longrightarrow> pending (cooldown_until_ms a') t (getId ?p)"
      using t by (auto simp: pending_def r D(6))
    show "slot (arb_board a') q = (if halted ?ms ?st q then transitionTo LongRest ?p else ?p)"
      using D(5) [OF q] by (simp add: r)
  qed
  then show ?thesis using D(2,3) by (simp add: live_at_def r isWithinBounds_def)
qed

lemma eraseAt_mem:
  assumes "x \<in> set xs" "i < length xs" "x \<noteq> xs ! i"
  shows "x \<in> set (eraseAt i xs)"
proof -
  have "set xs = set (take i xs @ xs ! i # drop (Suc i) xs)"
    by (rule arg_cong [OF id_take_nth_drop [OF assms(2)]])
  then show ?thesis using assms by (auto simp: eraseAt_def)
qed

lemma live_stationaryRound:
  assumes ok: "arbiter_ok a" and live: "live_at t (active_motions a) a" and t: "t < g + LONG_REST_MS"
    and i: "i < length (active_motions a)"
    and "stationaryRound p g i a = Inl a' \<or> stationaryRound p g i a = Inr a'"
  shows "live_at t (active_motions a') a'"
proof -
  let ?ms = "active_motions a" and ?b = "arb_board a" and ?cd = "cooldown_until_ms a" let ?m = "?ms ! i"
  have cell: "getCell (slot ?b q) = q" if "isWithinBounds ?b q" for q
    using board_wfD(2) [OF arbiter_okD(1) [OF ok] that] .
  have lp: "live_piece ?ms ?cd t (slot ?b q)" if "isWithinBounds ?b q" for q
    using live that by (simp add: live_at_def)
  show ?thesis
  proof (cases rule: stationaryRound_cases [of p g i a])
    case keep
    then show ?thesis using assms by auto
  next
    case (cut k)
    let ?t = "truncateAtCheckpoint ?m k" let ?ms' = "?ms[i := ?t]"
    have a': "a' = a\<lparr>active_motions := ?ms'\<rparr>" using cut assms(5) by auto
    note tf = truncate_fields [OF cut(1)] truncate_slide [OF cut(1)]
    have sl: "m_from ?m \<noteq> m_to ?m" using cut(2) by (simp add: tracked_iff)
    have fw: "m \<noteq> ?m \<Longrightarrow> m \<in> set ?ms'" if "m \<in> set ?ms" for m
      using that i by (metis in_set_conv_nth length_list_update nth_list_update_neq)
    have new: "?t \<in> set ?ms'" using i by (rule set_update_memI)
    have "live_piece ?ms' ?cd t (slot ?b q)" if q: "isWithinBounds ?b q" for q
    proof (rule live_piece_step [where h = False, OF lp [OF q]])
      show "ownSlide ?ms' (slot ?b q) \<or> False \<and> pending ?cd t (getId (slot ?b q))"
        if m: "m \<in> set ?ms" "piece_id m = getId (slot ?b q)" "m_from m = getCell (slot ?b q)" "m_from m \<noteq> m_to m" for m
        using m fw [OF m(1)] new tf unfolding ownSlide_def by (cases "m = ?m") auto
      show "\<exists>m \<in> set ?ms. piece_id m = piece_id m' \<and> (m_from m = m_to m \<longleftrightarrow> m_from m' = m_to m')"
        if "m' \<in> set ?ms'" for m'
      proof (cases "m' = ?t")
        case True
        then show ?thesis using tf sl nth_mem [OF i] by (intro bexI [of _ ?m]) auto
      next
        case False
        then show ?thesis using set_update_subset_insert [of ?ms i ?t] that by auto
      qed
      show "m \<in> set ?ms'" if "m \<in> set ?ms" "m_from m = m_to m" for m
        using that fw [of m] sl by auto
    qed auto
    then show ?thesis by (simp add: live_at_def a')
  next
    case cancel
    have a': "a' = (restInPlace ?m g a)\<lparr>active_motions := eraseAt i ?ms\<rparr>" using cancel assms(5) by auto
    have sl: "m_from ?m \<noteq> m_to ?m" "isWithinBounds ?b (m_from ?m)" using cancel(1) by (auto simp: tracked_iff)
    have cd': "cooldown_until_ms a' = AList.update (piece_id ?m) (g + LONG_REST_MS) ?cd"
      by (simp add: a' restInPlace_def)
    have "live_piece (eraseAt i ?ms) (cooldown_until_ms a') t (slot (arb_board a') q)" if q: "isWithinBounds ?b q" for q
    proof (rule live_piece_step [where h = "q = m_from ?m", OF lp [OF q]])
      show "m \<in> set (eraseAt i ?ms)" if "m \<in> set ?ms" "m_from m = m_to m" for m
        using that sl i by (intro eraseAt_mem) auto
      show "ownSlide (eraseAt i ?ms) (slot ?b q) \<or> q = m_from ?m \<and> pending (cooldown_until_ms a') t (getId (slot ?b q))"
        if m: "m \<in> set ?ms" "piece_id m = getId (slot ?b q)" "m_from m = getCell (slot ?b q)" "m_from m \<noteq> m_to m" for m
        using m eraseAt_mem [OF m(1) i] cell [OF q] t unfolding ownSlide_def
        by (cases "m = ?m") (auto simp: pending_def cd')
      show "slot (arb_board a') q = (if q = m_from ?m then transitionTo LongRest (slot ?b q) else slot ?b q)"
        using sl q arbiter_okD(2) [OF ok] by (simp add: a' restInPlace_def slot_withPiece)
    qed (use set_eraseAt [of i ?ms] t in \<open>auto simp: pending_def cd'\<close>)
    then show ?thesis by (simp add: live_at_def a' restInPlace_def)
  qed
qed

lemma live_stationaryBlocks:
  fixes a :: arbiter and p g :: int
  assumes ok: "arbiter_ok a" and live: "live_at t (active_motions a) a" and t: "t < g + LONG_REST_MS"
    and g: "g \<le> game_clock_ms a"
  defines "a' \<equiv> resolveStationaryBlocks p g a"
  shows "live_at t (active_motions a') a'"
proof -
  have "arbiter_ok a' \<and> g \<le> game_clock_ms a' \<and> live_at t (active_motions a') a'"
    unfolding a'_def resolveStationaryBlocks_def
  proof (rule stationaryLoop_invariant)
    show "arbiter_ok a \<and> g \<le> game_clock_ms a \<and> live_at t (active_motions a) a" using assms by simp
    fix i b b'
    assume P: "arbiter_ok b \<and> g \<le> game_clock_ms b \<and> live_at t (active_motions b) b"
      and i: "i < length (active_motions b)"
      and r: "stationaryRound p g i b = Inl b' \<or> stationaryRound p g i b = Inr b'"
    then have "evolves b b'" using evolves_stationaryRound [OF i, of g] by blast
    then show "arbiter_ok b' \<and> g \<le> game_clock_ms b' \<and> live_at t (active_motions b') b'"
      using P live_stationaryRound [OF _ _ t i r] by (simp add: evolves_def)
  qed
  then show ?thesis by blast
qed

end
