(* ===== verification/Arbiter.thy ===== *)
theory Arbiter
  imports Liveness
begin

text \<open>
  The arrival resolver and the real-time arbiter (\<open>server/realtime/ArrivalResolver.cpp\<close>,
  \<open>RealTimeArbiter.cpp\<close>). A tick advances the clock, lets the collision resolver act on the
  window between the old and the new clock, resolves the motions that have arrived, erases
  them, and wakes the pieces whose rest is over. The two loops over hash maps take their
  iteration order as an argument.
\<close>

section \<open>Arrivals\<close>

definition promotionRow :: "board \<Rightarrow> color \<Rightarrow> int" where
  "promotionRow b c = (if c = White then 0 else getHeight b - 1)"

text \<open>
  The tail of \<open>resolve\<close>: the move itself, the notification of the move observers, and the
  promotion of a pawn. The pointer \<open>piece\<close> follows the piece to its new cell; a destination
  outside the board would leave it where it was.
\<close>

definition completeMove :: "motion \<Rightarrow> bool \<Rightarrow> int \<Rightarrow> arbiter \<Rightarrow> arbiter" where
  "completeMove m wasCapture gameClockMs a =
     (let b1 = movePiece (m_from m) (m_to m) (arb_board a);
          loc = (if isWithinBounds b1 (m_to m) then m_to m else m_from m);
          piece = slot b1 loc;
          a1 = a\<lparr>arb_board := b1,
                 notifications := notifications a @
                   [MoveCompleted piece (m_from m) (m_to m) wasCapture gameClockMs]\<rparr>
      in if getKind piece = Pawn \<and> row (m_to m) = promotionRow b1 (getColor piece)
         then a1\<lparr>arb_board := withPiece loc (promoteTo Queen) b1\<rparr>
         else a1)"

definition resolve :: "int \<Rightarrow> motion \<Rightarrow> arbiter \<times> bool \<Rightarrow> arbiter \<times> bool" where
  "resolve gameClockMs m = (\<lambda>(a0, kingCaptured).
     let isJump = (m_from m = m_to m);
         a = a0\<lparr>cooldown_until_ms := AList.update (piece_id m)
               (gameClockMs + (if isJump then SHORT_REST_MS else LONG_REST_MS)) (cooldown_until_ms a0)\<rparr>
     in if isJump then
          (case getPiece (arb_board a) (m_from m) of
             None \<Rightarrow> (a, kingCaptured)
           | Some jumper \<Rightarrow>
               if getId jumper = piece_id m
               then (a\<lparr>arb_board := withPiece (m_from m) (transitionTo ShortRest) (arb_board a)\<rparr>, kingCaptured)
               else (a, kingCaptured))
        else
          (case getPiece (arb_board a) (m_from m) of
             None \<Rightarrow> (a, kingCaptured)
           | Some piece \<Rightarrow>
               if getId piece \<noteq> piece_id m then (a, kingCaptured)
               else
                 let target = getPiece (arb_board a) (m_to m);
                     targetRecentlyJumped =
                       (case target of None \<Rightarrow> False
                        | Some t \<Rightarrow> getState t = Jump \<or> getState t = ShortRest)
                 in if targetRecentlyJumped then
                      let a1 = capturePiece (m_from m) (Impact (getId piece) (m_to m) 1) a
                      in (a1\<lparr>arb_board := removePiece (m_from m) (arb_board a1)\<rparr>, kingCaptured)
                    else
                      let blockedByFriendly = collisionEnabled a \<and>
                            (case target of None \<Rightarrow> False | Some t \<Rightarrow> getColor t = getColor piece) \<and>
                            getKind piece \<noteq> Knight;
                          a2 = a\<lparr>arb_board := withPiece (m_from m) (transitionTo LongRest) (arb_board a)\<rparr>
                      in if blockedByFriendly then (a2, kingCaptured)
                         else
                           let kc = (kingCaptured \<or>
                                 (case target of None \<Rightarrow> False | Some t \<Rightarrow> getKind t = King));
                               wasCapture = (case target of None \<Rightarrow> False | Some t \<Rightarrow> getKind t \<noteq> NoKind);
                               a3 = (if wasCapture
                                     then capturePiece (m_to m) (Impact (getId piece) (m_to m) 1) a2
                                     else a2)
                           in (completeMove m wasCapture gameClockMs a3, kc)))"

section \<open>The arbiter\<close>

definition addMotion :: "position \<Rightarrow> position \<Rightarrow> int \<Rightarrow> arbiter \<Rightarrow> bool \<times> arbiter" where
  "addMotion from to pieceId a =
     (let arrival = game_clock_ms a + calcTravelTime from to;
          newMotion = \<lparr>m_from = from, m_to = to, start_time_ms = game_clock_ms a,
                       arrival_time_ms = arrival, piece_id = pieceId\<rparr>
      in case (if collisionEnabled a then applyNearMiss (arb_board a) (active_motions a) newMotion
               else Some newMotion) of
           None \<Rightarrow> (False, a)
         | Some motion \<Rightarrow>
             (True, a\<lparr>active_motions := active_motions a @ [motion],
                      arb_board := withPiece from (transitionTo Moving) (arb_board a)\<rparr>))"

definition addJump :: "position \<Rightarrow> int \<Rightarrow> arbiter \<Rightarrow> arbiter" where
  "addJump pos pieceId a =
     a\<lparr>active_motions := active_motions a @
         [\<lparr>m_from = pos, m_to = pos, start_time_ms = game_clock_ms a,
           arrival_time_ms = game_clock_ms a + JUMP_DURATION_MS, piece_id = pieceId\<rparr>],
       arb_board := withPiece pos (transitionTo Jump) (arb_board a)\<rparr>"

definition getStateStartMs :: "arbiter \<Rightarrow> int \<Rightarrow> state \<Rightarrow> int" where
  "getStateStartMs a pieceId st =
     (case find (\<lambda>m. piece_id m = pieceId) (active_motions a) of
        Some m \<Rightarrow> start_time_ms m
      | None \<Rightarrow>
          (case map_of (cooldown_until_ms a) pieceId of
             Some t \<Rightarrow>
               let duration = (if st = ShortRest then SHORT_REST_MS
                               else if st = LongRest then LONG_REST_MS else 0);
                   startMs = t - duration
               in min startMs (game_clock_ms a)
           | None \<Rightarrow> 0))"

definition isPieceBusy :: "arbiter \<Rightarrow> int \<Rightarrow> bool" where
  "isPieceBusy a pieceId \<longleftrightarrow> list_ex (\<lambda>m. piece_id m = pieceId) (active_motions a)"

definition isPieceCoolingDown :: "arbiter \<Rightarrow> int \<Rightarrow> bool" where
  "isPieceCoolingDown a pieceId =
     (case map_of (cooldown_until_ms a) pieceId of None \<Rightarrow> False | Some t \<Rightarrow> t > game_clock_ms a)"

text \<open>The iteration orders of the hash-map loops of one operation, by the number of the loop.\<close>

type_synonym orders = "nat \<Rightarrow> nat \<Rightarrow> nat list"

definition orders_ok :: "orders \<Rightarrow> bool" where
  "orders_ok ords \<longleftrightarrow> (\<forall>i. iteration_order (ords i))"

definition wakePiece :: "int \<Rightarrow> int \<times> int \<Rightarrow> arbiter \<Rightarrow> arbiter" where
  "wakePiece previousClock = (\<lambda>(pieceId, t) a.
     if t > previousClock \<and> t \<le> game_clock_ms a then
       (case getPieceById (arb_board a) pieceId of
          None \<Rightarrow> a
        | Some piece \<Rightarrow>
            a\<lparr>arb_board := withPieceById pieceId (transitionTo Idle) (arb_board a),
              cooldown_until_ms := AList.update pieceId (game_clock_ms a) (cooldown_until_ms a)\<rparr>)
     else a)"

definition resolveBlocks :: "orders \<Rightarrow> int \<Rightarrow> arbiter \<times> bool \<Rightarrow> arbiter \<times> bool" where
  "resolveBlocks ords previousClock = (\<lambda>(a, kc).
     if collisionEnabled a then
       let now = game_clock_ms a;
           (a1, kc1) = resolveCollisions previousClock now (a, kc);
           a2 = resolveMovingFriendlyBlocks (ords 0) previousClock now a1
       in (resolveStationaryBlocks previousClock now a2, kc1)
     else (a, kc))"

definition resolveArrivals :: "arbiter \<times> bool \<Rightarrow> arbiter \<times> bool" where
  "resolveArrivals = (\<lambda>(a, kc).
     let now = game_clock_ms a;
         arriving = filter (\<lambda>m. arrival_time_ms m \<le> now) (active_motions a);
         (a1, kc1) = fold (resolve now) arriving (a, kc)
     in (a1\<lparr>active_motions := filter (\<lambda>m. \<not> arrival_time_ms m \<le> now) (active_motions a1)\<rparr>, kc1))"

definition wakePieces :: "(nat \<Rightarrow> nat list) \<Rightarrow> int \<Rightarrow> arbiter \<Rightarrow> arbiter" where
  "wakePieces ord previousClock a =
     fold (wakePiece previousClock) (iter ord (cooldown_until_ms a)) a"

definition tick :: "orders \<Rightarrow> int \<Rightarrow> arbiter \<Rightarrow> arbiter \<times> bool" where
  "tick ords ms a =
     (let previousClock = game_clock_ms a;
          a1 = a\<lparr>game_clock_ms := game_clock_ms a + ms\<rparr>;
          (a2, kc) = resolveArrivals (resolveBlocks ords previousClock (a1, False))
      in (wakePieces (ords 1) previousClock a2, kc))"


section \<open>The branches of an arrival\<close>

definition cooled :: "int \<Rightarrow> motion \<Rightarrow> arbiter \<Rightarrow> arbiter" where
  "cooled g m a = a\<lparr>cooldown_until_ms := AList.update (piece_id m)
     (g + (if m_from m = m_to m then SHORT_REST_MS else LONG_REST_MS)) (cooldown_until_ms a)\<rparr>"

definition movedPiece :: "motion \<Rightarrow> board \<Rightarrow> piece" where
  "movedPiece m b = setCell (m_to m) (transitionTo LongRest (slot b (m_from m)))"

definition promotes :: "motion \<Rightarrow> board \<Rightarrow> bool" where
  "promotes m b \<longleftrightarrow> getKind (slot b (m_from m)) = Pawn \<and>
     row (m_to m) = promotionRow b (getColor (slot b (m_from m)))"

definition arrivedBoard :: "motion \<Rightarrow> board \<Rightarrow> board" where
  "arrivedBoard m b =
     (let b1 = movePiece (m_from m) (m_to m) (withPiece (m_from m) (transitionTo LongRest) b)
      in if promotes m b then withPiece (m_to m) (promoteTo Queen) b1 else b1)"

definition arrived :: "int \<Rightarrow> motion \<Rightarrow> arbiter \<Rightarrow> arbiter" where
  "arrived g m a =
     (let b = arb_board a; target = slot b (m_to m);
          taken = (if getKind target \<noteq> NoKind then [transitionTo Captured target] else [])
      in a\<lparr>arb_board := arrivedBoard m b,
           captured_pieces := captured_pieces a @ taken,
           notifications := notifications a @
             map (\<lambda>t. PieceCaptured t (Impact (piece_id m) (m_to m) 1)) taken @
             [MoveCompleted (movedPiece m b) (m_from m) (m_to m) (getKind target \<noteq> NoKind) g]\<rparr>)"

lemma cooled_frame [simp]:
  "arb_board (cooled g m a) = arb_board a" "active_motions (cooled g m a) = active_motions a"
  "game_clock_ms (cooled g m a) = game_clock_ms a" "collisionEnabled (cooled g m a) = collisionEnabled a"
  "captured_pieces (cooled g m a) = captured_pieces a" "notifications (cooled g m a) = notifications a"
  by (simp_all add: cooled_def)

lemma resolve_jump:
  assumes "m_from m = m_to m" "isWithinBounds (arb_board a) (m_from m)"
  shows "resolve g m (a, kc) =
    (if getId (slot (arb_board a) (m_from m)) = piece_id m
     then (cooled g m a)\<lparr>arb_board := withPiece (m_from m) (transitionTo ShortRest) (arb_board a)\<rparr>
     else cooled g m a, kc)"
  using assms by (simp add: resolve_def cooled_def getPiece_def Let_def)

lemma movePiece_withPiece_to:
  assumes "board_shape b" "isWithinBounds b p" "isWithinBounds b q" "p \<noteq> q"
  shows "movePiece p q (withPiece q f b) = movePiece p q b"
proof -
  have "setSlot (setSlot b q x) q y = setSlot b q y" for x y by (simp add: setSlot_def index_def)
  then show ?thesis using assms
    by (simp add: movePiece_alt withPiece_def slots.fetch_store_other)
qed

lemma promotionRow_frame [simp]:
  "promotionRow (movePiece p q b) c = promotionRow b c" "promotionRow (withPiece p f b) c = promotionRow b c"
  by (simp_all add: promotionRow_def)

lemma getKind_movedPiece [simp]:
  "getKind (movedPiece m b) = getKind (slot b (m_from m))" "getColor (movedPiece m b) = getColor (slot b (m_from m))"
  "getId (movedPiece m b) = getId (slot b (m_from m))" "getCell (movedPiece m b) = m_to m"
  by (simp_all add: movedPiece_def)

lemma slot_moved:
  assumes "board_shape b" "isWithinBounds b (m_from m)" "isWithinBounds b (m_to m)" "m_from m \<noteq> m_to m"
  shows "slot (movePiece (m_from m) (m_to m) (withPiece (m_from m) (transitionTo LongRest) b)) (m_to m) = movedPiece m b"
  using assms by (simp add: slot_movePiece slot_withPiece movedPiece_def)

lemma resolve_slide:
  fixes a :: arbiter
  assumes "m_from m \<noteq> m_to m" "isWithinBounds (arb_board a) (m_from m)" "isWithinBounds (arb_board a) (m_to m)"
    and "board_shape (arb_board a)"
  defines "b \<equiv> arb_board a"
  shows "resolve g m (a, kc) =
    (if getId (slot b (m_from m)) \<noteq> piece_id m then (cooled g m a, kc)
     else if defendsCell (slot b (m_to m))
       then (takePiece (m_from m) (Impact (piece_id m) (m_to m) 1) (cooled g m a), kc)
     else if collisionEnabled a \<and> getColor (slot b (m_to m)) = getColor (slot b (m_from m)) \<and>
             getKind (slot b (m_from m)) \<noteq> Knight
       then ((cooled g m a)\<lparr>arb_board := withPiece (m_from m) (transitionTo LongRest) b\<rparr>, kc)
     else (arrived g m (cooled g m a), kc \<or> getKind (slot b (m_to m)) = King))"
proof -
  let ?c = "cooled g m a"
  let ?a2 = "?c\<lparr>arb_board := withPiece (m_from m) (transitionTo LongRest) b\<rparr>"
  let ?t = "slot b (m_to m)"
  let ?a3 = "if getKind ?t \<noteq> NoKind then capturePiece (m_to m) (Impact (piece_id m) (m_to m) 1) ?a2 else ?a2"
  have gp: "getPiece b (m_from m) = Some (slot b (m_from m))" "getPiece b (m_to m) = Some ?t"
    using assms by (simp_all add: getPiece_def)
  have b3: "movePiece (m_from m) (m_to m) (arb_board ?a3) =
      movePiece (m_from m) (m_to m) (withPiece (m_from m) (transitionTo LongRest) b)"
    using assms by (simp add: capturePiece_def getPiece_def movePiece_withPiece_to)
  have "completeMove m (getKind ?t \<noteq> NoKind) g ?a3 = arrived g m ?c"
    unfolding completeMove_def b3 Let_def
    using assms(1-4) by (auto simp: slot_moved b_def [symmetric] capturePiece_def getPiece_def slot_withPiece
        arrived_def arrivedBoard_def promotes_def Let_def)
  moreover have "a\<lparr>cooldown_until_ms := AList.update (piece_id m) (g + LONG_REST_MS) (cooldown_until_ms a)\<rparr> = ?c"
    using assms(1) by (simp add: cooled_def)
  ultimately show ?thesis
    using assms(1) gp unfolding resolve_def
    by (cases "getKind ?t = NoKind")
      (simp_all add: Let_def b_def [symmetric] takePiece_def [symmetric] defendsCell_def)
qed


section \<open>Arrivals keep the invariant\<close>

lemma arrivedBoard_frame [simp]:
  "getWidth (arrivedBoard m b) = getWidth b" "getHeight (arrivedBoard m b) = getHeight b"
  "isWithinBounds (arrivedBoard m b) q = isWithinBounds b q" "board_shape (arrivedBoard m b) = board_shape b"
  by (simp_all add: arrivedBoard_def Let_def)

lemma arrivedBoard_slot:
  assumes "board_shape b" "isWithinBounds b (m_from m)" "isWithinBounds b (m_to m)" "m_from m \<noteq> m_to m"
    and "isWithinBounds b q"
  shows "slot (arrivedBoard m b) q =
    (if q = m_from m then emptyPiece q
     else if q = m_to m then (if promotes m b then promoteTo Queen (movedPiece m b) else movedPiece m b)
     else slot b q)"
  using assms by (auto simp: arrivedBoard_def Let_def slot_laws movedPiece_def)

lemma board_wf_arrivedBoard [inv_intros]:
  assumes "board_wf b" "isWithinBounds b (m_from m)" "isWithinBounds b (m_to m)" "m_from m \<noteq> m_to m"
  shows "board_wf (arrivedBoard m b)"
proof -
  let ?b1 = "movePiece (m_from m) (m_to m) (withPiece (m_from m) (transitionTo LongRest) b)"
  have wf: "board_wf ?b1" using assms by (intro board_wf_movePiece board_wf_rest) auto
  have "board_wf (withPiece (m_to m) (promoteTo Queen) ?b1)" if "promotes m b"
    using that assms by (intro board_wf_promote [OF wf]) (auto simp: slot_moved board_wfD promotes_def)
  then show ?thesis using wf by (simp add: arrivedBoard_def Let_def)
qed

lemma boardIds_arrivedBoard:
  assumes "board_shape b" "isWithinBounds b (m_from m)" "isWithinBounds b (m_to m)" "m_from m \<noteq> m_to m"
  shows "boardIds b = boardIds (arrivedBoard m b) + slotId (slot b (m_to m))"
proof -
  let ?b0 = "withPiece (m_from m) (transitionTo LongRest) b"
  let ?b1 = "movePiece (m_from m) (m_to m) ?b0"
  have "boardIds ?b0 = boardIds ?b1 + slotId (slot b (m_to m))"
    using boardIds_movePiece [of ?b0 "m_from m" "m_to m"] assms by (simp add: slot_withPiece)
  moreover have "boardIds ?b0 = boardIds b" using assms by (simp add: boardIds_withPiece)
  moreover have "boardIds (withPiece (m_to m) (promoteTo Queen) ?b1) = boardIds ?b1" if "promotes m b"
    using assms that unfolding withPiece_def [of "m_to m"]
    by (auto intro!: boardIds_setSlot_same simp: slot_moved slotId_def promotes_def promoteTo_def)
  ultimately show ?thesis by (simp add: arrivedBoard_def Let_def)
qed

lemma evolves_arrived:
  assumes "isWithinBounds (arb_board a) (m_from m)" "isWithinBounds (arb_board a) (m_to m)" "m_from m \<noteq> m_to m"
  shows "evolves a (arrived g m a)"
proof (unfold evolves_def, rule impI)
  assume ok: "arbiter_ok a"
  let ?b = "arb_board a" let ?r = "arrived g m a"
  have mo: "motion_ok (arrivedBoard m ?b) t x = motion_ok ?b t x" for t x
    by (rule motion_ok_size_cong) simp_all
  have "arbiter_ok ?r"
    using ok board_wf_arrivedBoard [OF arbiter_okD(1) [OF ok] assms]
    by (auto simp: arbiter_ok_def arrived_def Let_def mo)
  moreover have "allIds ?r = allIds a"
    using boardIds_arrivedBoard [OF arbiter_okD(2) [OF ok] assms]
    by (auto simp: allIds_def arrived_def Let_def slotId_def)
  ultimately show "arbiter_ok ?r \<and> allIds ?r = allIds a \<and>
     game_clock_ms ?r = game_clock_ms a \<and> collisionEnabled ?r = collisionEnabled a \<and>
     getWidth (arb_board ?r) = getWidth (arb_board a) \<and> getHeight (arb_board ?r) = getHeight (arb_board a)"
    by (simp add: arrived_def Let_def)
qed

lemma evolves_cooled: "g \<le> game_clock_ms a \<Longrightarrow> evolves a (cooled g m a)"
  unfolding cooled_def by (rule evolves_cooldown) (simp add: rest_defs)

lemma evolves_resolve:
  assumes "motion_ok (arb_board (fst s)) t m" "g \<le> game_clock_ms (fst s)"
  shows "evolves (fst s) (fst (resolve g m s))"
proof -
  obtain a kc where s: "s = (a, kc)" by force
  have w: "isWithinBounds (arb_board a) (m_from m)" "isWithinBounds (arb_board a) (m_to m)"
    using assms(1) by (simp_all add: motion_ok_def s)
  have c: "evolves a (cooled g m a)" using assms(2) by (simp add: s evolves_cooled)
  have r: "evolves a ((cooled g m a)\<lparr>arb_board := withPiece q (transitionTo st) (arb_board a)\<rparr>)"
    if "st \<in> {ShortRest, LongRest}" for q st
    using evolves_trans [OF c evolves_rest [of st "cooled g m a" q]] that by auto
  show ?thesis
  proof (cases "m_from m = m_to m")
    case True
    then show ?thesis using w c r by (simp add: s resolve_jump)
  next
    case False
    have tk: "evolves a (takePiece (m_from m) i (cooled g m a))" for i
      using evolves_trans [OF c evolves_takePiece] w by simp
    have ar: "evolves a (arrived g m (cooled g m a))"
      using evolves_trans [OF c evolves_arrived] w False by simp
    have "board_shape (arb_board a) \<Longrightarrow> ?thesis"
      using False w c tk ar r by (simp add: s resolve_slide)
    then show ?thesis using arbiter_okD(2) [of a] by (auto simp: s evolves_def [of a])
  qed
qed

lemma resolve_motions [simp]: "active_motions (fst (resolve g m s)) = active_motions (fst s)"
  by (cases s) (auto simp: resolve_def Let_def capturePiece_def completeMove_def split: option.splits)

section \<open>Arrivals leave no piece stuck\<close>

lemma live_piece_drop:
  assumes "live_piece (m # ms) cd t p" "\<not> (piece_id m = getId p \<and> m_from m = getCell p)"
    and "pending cd t (getId p) \<Longrightarrow> pending cd' t (getId p)"
  shows "live_piece ms cd' t p"
  using assms by (auto simp: live_piece_def ownSlide_def ownJump_def split: state.splits)

lemma landed_state:
  assumes "live_piece (m # ms) cd t p" "piece_id m = getId p" "m_from m = getCell p" "m_from m \<noteq> m_to m"
  shows "getState (transitionTo LongRest p) \<in> {Idle, ShortRest, LongRest}"
  using assms by (auto simp: live_piece_def ownJump_def transitionTo_def isLegalTransition_def
      kLegalTransitions_def split: state.splits)

lemma live_piece_resting:
  "getState p \<in> {Idle, ShortRest, LongRest} \<Longrightarrow> pending cd t (getId p) \<Longrightarrow> live_piece ms cd t p"
  by (auto simp: live_piece_def)

lemma live_piece_landed_jump:
  assumes "live_piece (m # ms) cd t p" "piece_id m = getId p" "m_from m = getCell p" "m_from m = m_to m"
    and "pending cd' t (getId p)"
  shows "live_piece ms cd' t (transitionTo ShortRest p)"
proof -
  have "transitionTo ShortRest p = (if getState p = Jump then p\<lparr>getState := ShortRest\<rparr> else p)"
    by (auto simp: transitionTo_def isLegalTransition_def kLegalTransitions_def)
  then show ?thesis using assms
    by (auto simp: live_piece_def ownSlide_def ownJump_def split: state.splits)
qed

lemma pending_cooled:
  assumes "t \<le> g"
  shows "pending (cooldown_until_ms (cooled g m a)) t (piece_id m)"
    and "pending (cooldown_until_ms a) t i \<Longrightarrow> pending (cooldown_until_ms (cooled g m a)) t i"
  using assms by (auto simp: pending_def cooled_def rest_defs)

lemma live_resolve:
  assumes ok: "arbiter_ok a" and mo: "motion_ok (arb_board a) u m" and t: "t \<le> g"
    and live: "live_at t (m # ms) a"
  shows "live_at t ms (fst (resolve g m (a, kc)))"
proof -
  let ?b = "arb_board a" let ?c = "cooled g m a" let ?cd = "cooldown_until_ms ?c" let ?p = "slot ?b (m_from m)"
  have w: "isWithinBounds ?b (m_from m)" "isWithinBounds ?b (m_to m)" using mo by (simp_all add: motion_ok_def)
  have sh: "board_shape ?b" using ok by (simp add: arbiter_okD)
  have cell: "getCell (slot ?b q) = q" if "isWithinBounds ?b q" for q
    using board_wfD(2) [OF arbiter_okD(1) [OF ok] that] .
  have lp: "live_piece (m # ms) (cooldown_until_ms a) t (slot ?b q)" if "isWithinBounds ?b q" for q
    using live that by (simp add: live_at_def)
  have other: "live_piece ms ?cd t (slot ?b q)" if "isWithinBounds ?b q" "q \<noteq> m_from m \<or> getId ?p \<noteq> piece_id m" for q
    using lp [OF that(1)] cell [OF that(1)] that(2) pending_cooled(2) [OF t]
    by (intro live_piece_drop [of m ms "cooldown_until_ms a"]) auto
  have land: "getState (transitionTo LongRest ?p) \<in> {Idle, ShortRest, LongRest}" "pending ?cd t (getId ?p)"
    if "getId ?p = piece_id m" "m_from m \<noteq> m_to m"
    using landed_state [OF lp [OF w(1)]] cell [OF w(1)] that pending_cooled(1) [OF t, of m a] by auto
  consider (jump) "m_from m = m_to m" | (stale) "m_from m \<noteq> m_to m" "getId ?p \<noteq> piece_id m"
    | (hit) "m_from m \<noteq> m_to m" "getId ?p = piece_id m" by blast
  then show ?thesis
  proof cases
    case jump
    have "live_piece ms ?cd t (transitionTo ShortRest ?p)" if "getId ?p = piece_id m"
      using live_piece_landed_jump [OF lp [OF w(1)]] cell [OF w(1)] that jump pending_cooled(1) [OF t, of m a] by auto
    then show ?thesis using jump w sh other by (auto simp: resolve_jump live_at_def slot_withPiece)
  next
    case stale
    then show ?thesis using w sh other by (simp add: resolve_slide live_at_def)
  next
    case hit
    have rest: "live_at t ms (?c\<lparr>arb_board := withPiece (m_from m) (transitionTo LongRest) ?b\<rparr>)"
      using land [OF hit(2,1)] other w sh by (auto simp: live_at_def slot_withPiece intro: live_piece_resting)
    have take: "live_at t ms (takePiece (m_from m) i ?c)" for i
      using other w sh by (auto simp: live_at_def takePiece_eq slot_removePiece)
    have "live_piece ms ?cd t (if promotes m ?b then promoteTo Queen (movedPiece m ?b) else movedPiece m ?b)"
      using land [OF hit(2,1)] by (intro live_piece_resting) (auto simp: movedPiece_def promoteTo_def setCell_def)
    then have arr: "live_at t ms (arrived g m ?c)"
      using other w sh hit by (auto simp: live_at_def arrived_def Let_def arrivedBoard_slot)
    show ?thesis using hit w sh rest take arr by (simp add: resolve_slide)
  qed
qed


section \<open>The end of a rest\<close>

lemma updateFirst_map:
  assumes "(\<forall>x \<in> set xs. P x \<longrightarrow> f x = x) \<or> (\<forall>i j. i < j \<and> j < length xs \<and> P (xs ! i) \<longrightarrow> \<not> P (xs ! j))"
  shows "updateFirst P f xs = map (\<lambda>x. if P x then f x else x) xs"
  using assms
proof (induction xs)
  case Nil
  then show ?case by simp
next
  case (Cons x xs)
  show ?case
  proof (cases "P x")
    case True
    have "(\<forall>y \<in> set xs. P y \<longrightarrow> f y = y) \<or> (\<forall>y \<in> set xs. \<not> P y)"
      using Cons.prems
    proof
      assume "\<forall>i j. i < j \<and> j < length (x # xs) \<and> P ((x # xs) ! i) \<longrightarrow> \<not> P ((x # xs) ! j)"
      then have "\<not> P (xs ! j)" if "j < length xs" for j
        using that True by (metis Suc_less_eq length_Cons nth_Cons_0 nth_Cons_Suc zero_less_Suc)
      then show ?thesis by (auto simp: in_set_conv_nth)
    qed auto
    then have "map (\<lambda>y. if P y then f y else y) xs = xs" by (intro map_idI) auto
    then show ?thesis using True by simp
  next
    case False
    have "(\<forall>y \<in> set xs. P y \<longrightarrow> f y = y) \<or> (\<forall>i j. i < j \<and> j < length xs \<and> P (xs ! i) \<longrightarrow> \<not> P (xs ! j))"
      using Cons.prems
    proof
      assume "\<forall>i j. i < j \<and> j < length (x # xs) \<and> P ((x # xs) ! i) \<longrightarrow> \<not> P ((x # xs) ! j)"
      then have "\<not> P (xs ! j)" if "i < j" "j < length xs" "P (xs ! i)" for i j
        using that spec [of _ "Suc i"] by (metis Suc_less_eq length_Cons nth_Cons_Suc)
      then show ?thesis by blast
    qed auto
    then show ?thesis using Cons.IH False by simp
  qed
qed

lemma board_wf_getId_0:
  assumes "board_wf b" "isWithinBounds b p"
  shows "getId (slot b p) = 0 \<longleftrightarrow> getKind (slot b p) = NoKind"
    and "getId (slot b p) = 0 \<Longrightarrow> getState (slot b p) = Idle"
  using board_wfD(3) [OF assms] by (auto simp: piece_ok_def split: if_splits)

lemma withPieceById_grid:
  assumes wf: "board_wf b" and f: "\<And>x. getState x = Idle \<Longrightarrow> f x = x"
  shows "grid (withPieceById i f b) = map (\<lambda>x. if getId x = i then f x else x) (grid b)"
proof -
  note sh = board_wfD(1) [OF wf]
  have "(\<forall>x \<in> set (grid b). getId x = i \<longrightarrow> f x = x) \<or>
      (\<forall>j k. j < k \<and> k < length (grid b) \<and> getId (grid b ! j) = i \<longrightarrow> getId (grid b ! k) \<noteq> i)"
  proof (cases "i = 0")
    case True
    have "f x = x" if "x \<in> set (grid b)" "getId x = i" for x
      using grid_slot [OF sh that(1)] that(2) True board_wf_getId_0(2) [OF wf] f by metis
    then show ?thesis by blast
  next
    case False
    have "getId (grid b ! k) \<noteq> i" if jk: "j < k" "k < length (grid b)" "getId (grid b ! j) = i" for j k
    proof
      assume k: "getId (grid b ! k) = i"
      have "j < length (grid b)" using jk by simp
      then obtain p where p: "isWithinBounds b p" "nat (index b p) = j" using index_surj [OF sh] by blast
      obtain q where q: "isWithinBounds b q" "nat (index b q) = k" using index_surj [OF sh jk(2)] by blast
      from p q have "p = q"
        using jk(3) k False board_wf_getId_0(1) [OF wf p(1)] board_wf_getId_0(1) [OF wf q(1)]
        by (intro board_wf_unique [OF wf]) (auto simp: slot_def)
      then show False using p q jk(1) by simp
    qed
    then show ?thesis by blast
  qed
  then show ?thesis by (simp add: withPieceById_def updateFirst_map)
qed

lemma withPieceById_frame [simp]:
  "getWidth (withPieceById i f b) = getWidth b" "getHeight (withPieceById i f b) = getHeight b"
  "isWithinBounds (withPieceById i f b) q = isWithinBounds b q"
  by (simp_all add: withPieceById_def isWithinBounds_def)

lemma length_updateFirst [simp]: "length (updateFirst P f xs) = length xs"
  by (induction xs) auto

lemma withPieceById_shape [simp]: "board_shape (withPieceById i f b) = board_shape b"
  by (simp add: withPieceById_def board_shape_def)

lemma slot_withPieceById:
  assumes wf: "board_wf b" and "\<And>x. getState x = Idle \<Longrightarrow> f x = x" and "isWithinBounds b q"
  shows "slot (withPieceById i f b) q = (if getId (slot b q) = i then f (slot b q) else slot b q)"
proof -
  have "nat (index b q) < length (grid b)" using index_less [OF board_wfD(1) [OF wf] assms(3)] .
  moreover have "index (withPieceById i f b) q = index b q" by (simp add: index_def)
  ultimately show ?thesis by (simp add: slot_def withPieceById_grid [OF assms(1,2)])
qed

lemma getPieceById_None_iff:
  assumes "board_shape b"
  shows "getPieceById b i = None \<longleftrightarrow> (\<forall>q. isWithinBounds b q \<longrightarrow> getId (slot b q) \<noteq> i)"
proof -
  have "slot b q \<in> set (grid b)" if "isWithinBounds b q" for q
    using index_less [OF assms that] by (simp add: slot_def)
  then show ?thesis
    unfolding getPieceById_def find_None_iff using grid_slot [OF assms] by (metis (full_types))
qed

text \<open>The rests that end in the window of a tick, and the state after the entries \<open>xs\<close> were visited.\<close>

definition due :: "int \<Rightarrow> int \<Rightarrow> int option \<Rightarrow> bool" where
  "due p now x \<longleftrightarrow> (case x of None \<Rightarrow> False | Some u \<Rightarrow> p < u \<and> u \<le> now)"

lemma due_simps [simp]: "due p now None = False" "due p now (Some u) = (p < u \<and> u \<le> now)"
  by (simp_all add: due_def)

definition afterWake :: "int \<Rightarrow> arbiter \<Rightarrow> (int \<Rightarrow> int option) \<Rightarrow> arbiter \<Rightarrow> bool" where
  "afterWake p a0 cd a \<longleftrightarrow>
     board_shape (arb_board a) \<and>
     getWidth (arb_board a) = getWidth (arb_board a0) \<and> getHeight (arb_board a) = getHeight (arb_board a0) \<and>
     (\<forall>q. isWithinBounds (arb_board a0) q \<longrightarrow> slot (arb_board a) q =
        (if due p (game_clock_ms a0) (cd (getId (slot (arb_board a0) q)))
         then transitionTo Idle (slot (arb_board a0) q) else slot (arb_board a0) q)) \<and>
     (\<forall>i. map_of (cooldown_until_ms a) i =
        (if due p (game_clock_ms a0) (cd i) \<and> getPieceById (arb_board a0) i \<noteq> None
         then Some (game_clock_ms a0) else map_of (cooldown_until_ms a0) i)) \<and>
     (distinct (map fst (cooldown_until_ms a0)) \<longrightarrow> distinct (map fst (cooldown_until_ms a))) \<and>
     active_motions a = active_motions a0 \<and>
     game_clock_ms a = game_clock_ms a0 \<and> captured_pieces a = captured_pieces a0 \<and>
     notifications a = notifications a0 \<and> collisionEnabled a = collisionEnabled a0"

lemma afterWakeD:
  assumes "afterWake p a0 cd a"
  shows "board_shape (arb_board a)"
    "getWidth (arb_board a) = getWidth (arb_board a0)" "getHeight (arb_board a) = getHeight (arb_board a0)"
    "isWithinBounds (arb_board a0) q \<Longrightarrow> slot (arb_board a) q =
        (if due p (game_clock_ms a0) (cd (getId (slot (arb_board a0) q)))
         then transitionTo Idle (slot (arb_board a0) q) else slot (arb_board a0) q)"
    "map_of (cooldown_until_ms a) i =
        (if due p (game_clock_ms a0) (cd i) \<and> getPieceById (arb_board a0) i \<noteq> None
         then Some (game_clock_ms a0) else map_of (cooldown_until_ms a0) i)"
    "distinct (map fst (cooldown_until_ms a0)) \<Longrightarrow> distinct (map fst (cooldown_until_ms a))"
    "active_motions a = active_motions a0"
    "game_clock_ms a = game_clock_ms a0" "captured_pieces a = captured_pieces a0"
    "notifications a = notifications a0" "collisionEnabled a = collisionEnabled a0"
  using assms unfolding afterWake_def by blast+

lemma transitionTo_Idle_noop [simp]: "getState x = Idle \<Longrightarrow> transitionTo Idle x = x"
  by (rule transitionTo_noop_empty) simp_all

lemma piece_ok_Idle: "piece_ok p \<Longrightarrow> piece_ok (transitionTo Idle p)"
  by (cases "getKind p = NoKind") (auto simp: piece_ok_def transitionTo_not_Captured)

lemma afterWake_wf:
  assumes "board_wf (arb_board a0)" "afterWake p a0 cd a"
  shows "board_wf (arb_board a)" "boardIds (arb_board a) = boardIds (arb_board a0)"
proof -
  note D = afterWakeD [OF assms(2)]
  have s: "slotId (slot (arb_board a) q) = slotId (slot (arb_board a0) q) \<and>
      getCell (slot (arb_board a) q) = q \<and> piece_ok (slot (arb_board a) q)" if "isWithinBounds (arb_board a0) q" for q
    using D(4) [OF that] board_wfD(2,3) [OF assms(1) that] by (simp add: piece_ok_Idle)
  show "board_wf (arb_board a)" by (rule board_wf_slots_cong [OF assms(1) D(1-3) s])
  show "boardIds (arb_board a) = boardIds (arb_board a0)"
    using s by (intro boardIds_slots_cong [OF board_wfD(1) [OF assms(1)] D(1-3)]) blast
qed

lemma afterWake_step:
  assumes wf: "board_wf (arb_board a0)" and A: "afterWake p a0 cd a" and fresh: "cd i = None"
  shows "afterWake p a0 (cd(i \<mapsto> u)) (wakePiece p (i, u) a)"
proof -
  note D = afterWakeD [OF A] and wf' = afterWake_wf [OF wf A]
  let ?bo = "arb_board a0" and ?b = "arb_board a" and ?now = "game_clock_ms a0"
  have wb: "isWithinBounds ?b q = isWithinBounds ?bo q" for q using D(2,3) by (simp add: isWithinBounds_def)
  have ids: "getId (slot ?b q) = getId (slot ?bo q)" if "isWithinBounds ?bo q" for q
    using D(4) [OF that] by simp
  have on: "getPieceById ?b j = None \<longleftrightarrow> getPieceById ?bo j = None" for j
    using ids by (simp add: getPieceById_None_iff D(1) board_wfD(1) [OF wf] wb)
  have up: "due p ?now ((cd(i \<mapsto> u)) j) = (if j = i then p < u \<and> u \<le> ?now else due p ?now (cd j))" for j
    by (simp add: due_def)
  have nd: "\<not> due p ?now (cd i)" by (simp add: due_def fresh)
  show ?thesis
  proof (cases "p < u \<and> u \<le> ?now \<and> getPieceById ?bo i \<noteq> None")
    case True
    then have w: "wakePiece p (i, u) a = a\<lparr>arb_board := withPieceById i (transitionTo Idle) ?b,
        cooldown_until_ms := AList.update i ?now (cooldown_until_ms a)\<rparr>"
      using on [of i] by (auto simp: wakePiece_def D(8) split: option.split)
    have sl: "slot (withPieceById i (transitionTo Idle) ?b) q =
        (if getId (slot ?bo q) = i then transitionTo Idle (slot ?b q) else slot ?b q)" if "isWithinBounds ?bo q" for q
      using slot_withPieceById [OF wf'(1), of "transitionTo Idle" q i] that ids by (simp add: wb)
    show ?thesis
      unfolding afterWake_def w using D True nd
      by (auto simp: up sl distinct_update)
  next
    case False
    have w: "wakePiece p (i, u) a = a"
      using False on [of i] by (auto simp: wakePiece_def D(8) split: option.splits)
    have "\<not> (p < u \<and> u \<le> ?now)" if "isWithinBounds ?bo q" "getId (slot ?bo q) = i" for q
      using False that getPieceById_None_iff [OF board_wfD(1) [OF wf], of i] by blast
    then show ?thesis
      unfolding afterWake_def w using D False nd by (auto simp: up)
  qed
qed

lemma wakePieces_outcome:
  assumes wf: "board_wf (arb_board a)" and ord: "iteration_order ord"
    and dist: "distinct (map fst (cooldown_until_ms a))"
  shows "afterWake p a (map_of (cooldown_until_ms a)) (wakePieces ord p a)"
proof -
  let ?cd = "cooldown_until_ms a" let ?xs = "iter ord ?cd"
  have main: "distinct (map fst xs) \<Longrightarrow> afterWake p a (map_of xs) (fold (wakePiece p) xs a)" for xs
  proof (induction xs rule: rev_induct)
    case Nil
    then show ?case using board_wfD(1) [OF wf] by (simp add: afterWake_def due_def)
  next
    case (snoc x xs)
    obtain i u where x: "x = (i, u)" by force
    have i: "i \<notin> fst ` set xs" using snoc.prems by (auto simp: x)
    then have "map_of xs i = None" by (simp add: map_of_eq_None_iff)
    moreover have "afterWake p a (map_of xs) (fold (wakePiece p) xs a)" using snoc by simp
    ultimately have "afterWake p a ((map_of xs)(i \<mapsto> u)) (wakePiece p (i, u) (fold (wakePiece p) xs a))"
      using afterWake_step [OF wf] by blast
    moreover have "fold (wakePiece p) (xs @ [x]) a = wakePiece p (i, u) (fold (wakePiece p) xs a)" by (simp add: x)
    moreover have "map_of (xs @ [x]) = (map_of xs)(i \<mapsto> u)" unfolding x by (rule map_of_snoc [OF i])
    ultimately show ?case by (simp only:)
  qed
  have ms: "mset ?xs = mset ?cd" and set: "set ?xs = set ?cd" using ord by (simp_all add: mset_iter set_iter)
  have dxs: "distinct (map fst ?xs)" using dist ms by (metis mset_eq_imp_distinct_iff mset_map)
  have "map_of ?xs = map_of ?cd" using dxs dist set by (metis map_of_inject_set)
  then show ?thesis using main [OF dxs] by (simp add: wakePieces_def)
qed


lemma evolves_wakePieces:
  assumes "iteration_order ord"
  shows "evolves a (wakePieces ord p a)"
proof (unfold evolves_def, rule impI)
  assume ok: "arbiter_ok a"
  let ?r = "wakePieces ord p a"
  have A: "afterWake p a (map_of (cooldown_until_ms a)) ?r"
    by (rule wakePieces_outcome [OF arbiter_okD(1) [OF ok] assms arbiter_okD(4) [OF ok]])
  note D = afterWakeD [OF A] and wf = afterWake_wf [OF arbiter_okD(1) [OF ok] A]
  have cd: "t \<le> game_clock_ms a + LONG_REST_MS" if "map_of (cooldown_until_ms ?r) i = Some t" for i t
    using that arbiter_okD(5) [OF ok, of i t] by (auto simp: D(5) rest_defs split: if_splits)
  have mo: "motion_ok (arb_board ?r) t m = motion_ok (arb_board a) t m" for t m
    by (rule motion_ok_size_cong [OF D(2,3)])
  have "arbiter_ok ?r"
    unfolding arbiter_ok_def
    using ok wf(1) cd D(6) [OF arbiter_okD(4) [OF ok]] by (auto simp: D(7-10) mo arbiter_okD)
  then show "arbiter_ok ?r \<and> allIds ?r = allIds a \<and>
     game_clock_ms ?r = game_clock_ms a \<and> collisionEnabled ?r = collisionEnabled a \<and>
     getWidth (arb_board ?r) = getWidth (arb_board a) \<and> getHeight (arb_board ?r) = getHeight (arb_board a)"
    using wf(2) by (simp add: allIds_def D)
qed

lemma live_wakePieces:
  assumes ord: "iteration_order ord" and ok: "arbiter_ok a" and live: "live_at p (active_motions a) a"
  shows "live (wakePieces ord p a)"
proof -
  let ?r = "wakePieces ord p a" and ?cd = "map_of (cooldown_until_ms a)"
  have A: "afterWake p a ?cd ?r"
    by (rule wakePieces_outcome [OF arbiter_okD(1) [OF ok] ord arbiter_okD(4) [OF ok]])
  note D = afterWakeD [OF A]
  have wake: "getState (transitionTo Idle x) = (if isRestingState (getState x) then Idle else getState x)" for x
    by (cases "getState x") (auto simp: transitionTo_def isLegalTransition_def kLegalTransitions_def isRestingState_def)
  have "live_piece (active_motions a) (cooldown_until_ms ?r) (game_clock_ms a) (slot (arb_board ?r) q)"
    if q: "isWithinBounds (arb_board a) q" for q
  proof -
    let ?x = "slot (arb_board a) q"
    have lx: "live_piece (active_motions a) (cooldown_until_ms a) p ?x" using live q by (simp add: live_at_def)
    have own: "ownSlide ms (transitionTo Idle ?x) = ownSlide ms ?x" "ownJump ms (transitionTo Idle ?x) = ownJump ms ?x" for ms
      by (simp_all add: ownSlide_def ownJump_def)
    show ?thesis
    proof (cases "due p (game_clock_ms a) (?cd (getId ?x))")
      case True
      then show ?thesis
        using lx unfolding D(4) [OF q]
        by (auto simp: live_piece_def wake own isRestingState_def split: state.splits)
    next
      case False
      then have "pending (cooldown_until_ms ?r) (game_clock_ms a) (getId ?x)" if "pending (cooldown_until_ms a) p (getId ?x)"
        using that by (auto simp: pending_def D(5))
      then show ?thesis
        using lx False unfolding D(4) [OF q] by (auto simp: live_piece_def split: state.splits)
    qed
  qed
  then show ?thesis using D(2,3) by (simp add: live_def live_at_def D(7,8) isWithinBounds_def)
qed

section \<open>A whole tick\<close>

lemma evolves_resolveBlocks:
  assumes "orders_ok ords"
  shows "evolves (fst s) (fst (resolveBlocks ords p s))"
proof -
  obtain a kc where s: "s = (a, kc)" by force
  let ?g = "game_clock_ms a"
  obtain a1 kc1 where c: "resolveCollisions p ?g (a, kc) = (a1, kc1)" by force
  let ?a2 = "resolveMovingFriendlyBlocks (ords 0) p ?g a1"
  have 1: "evolves a a1" using evolves_resolveCollisions [of "(a, kc)" p ?g] by (simp add: c)
  have "evolves a (resolveStationaryBlocks p ?g ?a2)"
  proof (cases "arbiter_ok a")
    case True
    then have g1: "game_clock_ms a1 = ?g" and ok1: "arbiter_ok a1" using 1 by (simp_all add: evolves_def)
    have 2: "evolves a1 ?a2"
      using assms g1 by (intro evolves_friendlyBlocks) (auto simp: orders_ok_def)
    then have "game_clock_ms ?a2 = ?g" using ok1 g1 by (simp add: evolves_def)
    then have "evolves ?a2 (resolveStationaryBlocks p ?g ?a2)" by (intro evolves_stationaryBlocks) simp
    then show ?thesis using 1 2 evolves_trans by blast
  qed (simp add: evolves_def)
  then show ?thesis by (simp add: s resolveBlocks_def c Let_def)
qed

lemma live_resolveBlocks:
  assumes "orders_ok ords" and ok: "arbiter_ok a" and live: "live_at t (active_motions a) a" and t: "t \<le> game_clock_ms a"
  shows "live_at t (active_motions (fst (resolveBlocks ords p (a, kc)))) (fst (resolveBlocks ords p (a, kc)))"
proof -
  let ?g = "game_clock_ms a"
  obtain a1 kc1 where c: "resolveCollisions p ?g (a, kc) = (a1, kc1)" by force
  let ?a2 = "resolveMovingFriendlyBlocks (ords 0) p ?g a1"
  have ord: "iteration_order (ords 0)" using assms(1) by (simp add: orders_ok_def)
  have g: "t < ?g + LONG_REST_MS" using t by (simp add: rest_defs)
  have 1: "arbiter_ok a1" "game_clock_ms a1 = ?g"
    using evolves_resolveCollisions [of "(a, kc)" p ?g] ok by (simp_all add: c evolves_def)
  have l1: "live_at t (active_motions a1) a1"
    using live_resolveCollisions [OF ok live, of p ?g kc] by (simp add: c)
  have 2: "arbiter_ok ?a2" "game_clock_ms ?a2 = ?g"
    using evolves_friendlyBlocks [OF ord, of ?g a1 p] 1 by (simp_all add: evolves_def)
  have "live_at t (active_motions ?a2) ?a2" by (rule live_friendlyBlocks [OF ord 1(1) l1 g])
  then have "live_at t (active_motions (resolveStationaryBlocks p ?g ?a2)) (resolveStationaryBlocks p ?g ?a2)"
    using live_stationaryBlocks [OF 2(1) _ g] 2 by simp
  then show ?thesis using live by (simp add: resolveBlocks_def c Let_def)
qed

lemma resolveArrivals_eq:
  "resolveArrivals (a, kc) =
    (let r = fold (resolve (game_clock_ms a)) (filter (\<lambda>m. arrival_time_ms m \<le> game_clock_ms a) (active_motions a)) (a, kc)
     in ((fst r)\<lparr>active_motions := filter (\<lambda>m. \<not> arrival_time_ms m \<le> game_clock_ms a) (active_motions a)\<rparr>, snd r))"
proof -
  have "active_motions (fst (fold (resolve g) ms s)) = active_motions (fst s)" for g ms s
    by (rule fold_field_unchanged) simp
  then show ?thesis by (simp add: resolveArrivals_def Let_def case_prod_beta)
qed

lemma fold_resolve:
  assumes "arbiter_ok a" "\<And>m. m \<in> set ms \<Longrightarrow> motion_ok (arb_board a) (game_clock_ms a) m"
  shows "evolves a (fst (fold (resolve (game_clock_ms a)) ms (a, kc)))"
    and "t \<le> game_clock_ms a \<Longrightarrow> live_at t (ms @ rest) a \<Longrightarrow>
      live_at t rest (fst (fold (resolve (game_clock_ms a)) ms (a, kc)))"
  using assms
proof (induction ms arbitrary: a kc)
  case Nil
  { case 1 then show ?case by simp }
  { case 2 then show ?case by simp }
next
  case (Cons m ms)
  { case (1 a kc)
    let ?r = "resolve (game_clock_ms a) m (a, kc)"
    have e: "evolves a (fst ?r)" using evolves_resolve [of "(a, kc)" "game_clock_ms a" m "game_clock_ms a"] 1 by simp
    then have ok: "arbiter_ok (fst ?r)" "game_clock_ms (fst ?r) = game_clock_ms a"
      "getWidth (arb_board (fst ?r)) = getWidth (arb_board a)" "getHeight (arb_board (fst ?r)) = getHeight (arb_board a)"
      using 1 by (simp_all add: evolves_def)
    have "evolves (fst ?r) (fst (fold (resolve (game_clock_ms (fst ?r))) ms (fst ?r, snd ?r)))"
      using ok 1 by (intro Cons.IH(1)) (auto simp: motion_ok_size_cong [OF ok(3,4)])
    then show ?case using evolves_trans [OF e] by (simp add: ok) }
  { case (2 a kc)
    let ?r = "resolve (game_clock_ms a) m (a, kc)"
    have e: "evolves a (fst ?r)" using evolves_resolve [of "(a, kc)" "game_clock_ms a" m "game_clock_ms a"] 2 by simp
    then have ok: "arbiter_ok (fst ?r)" "game_clock_ms (fst ?r) = game_clock_ms a"
      "getWidth (arb_board (fst ?r)) = getWidth (arb_board a)" "getHeight (arb_board (fst ?r)) = getHeight (arb_board a)"
      using 2 by (simp_all add: evolves_def)
    have "live_at t (ms @ rest) (fst ?r)"
      using live_resolve [of a "game_clock_ms a" m t "game_clock_ms a" "ms @ rest" kc] 2 by simp
    then have "live_at t rest (fst (fold (resolve (game_clock_ms (fst ?r))) ms (fst ?r, snd ?r)))"
      using ok 2 by (intro Cons.IH(2)) (auto simp: motion_ok_size_cong [OF ok(3,4)])
    then show ?case by (simp add: ok) }
qed

lemma live_at_set_cong: "set ms = set ms' \<Longrightarrow> live_at t ms a = live_at t ms' a"
  by (simp add: live_at_def live_piece_def ownSlide_def ownJump_def cong: state.case_cong)

lemma arrivals_ok:
  fixes a :: arbiter and kc :: bool
  assumes "arbiter_ok a"
  defines "a' \<equiv> fst (resolveArrivals (a, kc))"
  shows "evolves a a'" and "\<And>m. m \<in> set (active_motions a') \<Longrightarrow> game_clock_ms a < arrival_time_ms m"
    and "t \<le> game_clock_ms a \<Longrightarrow> live_at t (active_motions a) a \<Longrightarrow> live_at t (active_motions a') a'"
proof -
  let ?g = "game_clock_ms a" and ?P = "\<lambda>m. arrival_time_ms m \<le> game_clock_ms a" and ?ms = "active_motions a"
  let ?r = "fst (fold (resolve ?g) (filter ?P ?ms) (a, kc))"
  have a': "a' = ?r\<lparr>active_motions := filter (\<lambda>m. \<not> ?P m) ?ms\<rparr>"
    by (simp add: a'_def resolveArrivals_eq Let_def)
  have mo: "\<And>m. m \<in> set (filter ?P ?ms) \<Longrightarrow> motion_ok (arb_board a) ?g m"
    using arbiter_okD(3) [OF assms(1)] by auto
  note f = fold_resolve [OF assms(1) mo]
  have e: "evolves a ?r" by (rule f(1))
  have am: "active_motions ?r = ?ms"
    using fold_field_unchanged [of "filter ?P ?ms" "active_motions \<circ> fst" "resolve ?g" "(a, kc)"] by simp
  have "evolves ?r a'"
    unfolding a' by (rule evolves_motions) (use am arbiter_okD(3) [of ?r] in auto)
  then show "evolves a a'" using e evolves_trans by blast
  show "m \<in> set (active_motions a') \<Longrightarrow> game_clock_ms a < arrival_time_ms m" for m by (simp add: a')
  assume t: "t \<le> ?g" and live: "live_at t ?ms a"
  have "set (filter ?P ?ms @ filter (\<lambda>m. \<not> ?P m) ?ms) = set ?ms" by auto
  then have "live_at t (filter ?P ?ms @ filter (\<lambda>m. \<not> ?P m) ?ms) a" using live live_at_set_cong by blast
  then have "live_at t (filter (\<lambda>m. \<not> ?P m) ?ms) ?r" using f(2) [OF _ t] by blast
  then show "live_at t (active_motions a') a'" by (simp add: a' live_at_def)
qed

end
