(* ===== verification/Arbiter_Laws.thy ===== *)
theory Arbiter_Laws
  imports Arbiter
begin

text \<open>
  The laws of the arbiter as a component: a tick keeps the invariant, advances the clock, leaves
  no motion overdue and no piece stuck; starting a motion or a jump keeps the invariant; and the
  result of a tick does not depend on the order in which the hash maps are visited.
\<close>

section \<open>A tick\<close>

lemma advance_ok:
  assumes "arbiter_ok a" "0 \<le> ms"
  shows "arbiter_ok (a\<lparr>game_clock_ms := game_clock_ms a + ms\<rparr>)"
proof -
  have "t \<le> game_clock_ms a + ms + LONG_REST_MS" if "map_of (cooldown_until_ms a) i = Some t" for i t
    using arbiter_okD(5) [OF assms(1) that] assms(2) by linarith
  moreover have "motion_ok (arb_board a) (game_clock_ms a + ms) m" if "m \<in> set (active_motions a)" for m
    using arbiter_okD(3) [OF assms(1) that] assms(2) by (simp add: motion_ok_def)
  ultimately show ?thesis using assms(1) by (simp add: arbiter_ok_def)
qed

lemma tick_laws:
  fixes ords :: orders and a :: arbiter
  assumes ok: "arbiter_ok a" and ms: "0 \<le> ms" and ords: "orders_ok ords"
  defines "a' \<equiv> fst (tick ords ms a)"
  shows "arbiter_ok a'" and "game_clock_ms a' = game_clock_ms a + ms" and "allIds a' = allIds a"
    and "collisionEnabled a' = collisionEnabled a"
    and "getWidth (arb_board a') = getWidth (arb_board a)" "getHeight (arb_board a') = getHeight (arb_board a)"
    and "\<And>m. m \<in> set (active_motions a') \<Longrightarrow> game_clock_ms a' < arrival_time_ms m"
    and "live a \<Longrightarrow> live a'"
proof -
  let ?p = "game_clock_ms a"
  let ?a1 = "a\<lparr>game_clock_ms := ?p + ms\<rparr>"
  let ?s = "resolveBlocks ords ?p (?a1, False)"
  let ?r = "resolveArrivals ?s"
  have a': "a' = wakePieces (ords 1) ?p (fst ?r)"
    by (simp add: a'_def tick_def Let_def case_prod_beta)
  have ok1: "arbiter_ok ?a1" by (rule advance_ok [OF ok ms])
  have e2: "evolves ?a1 (fst ?s)" using evolves_resolveBlocks [OF ords, of "(?a1, False)" ?p] by simp
  then have ok2: "arbiter_ok (fst ?s)" "game_clock_ms (fst ?s) = ?p + ms" using ok1 by (simp_all add: evolves_def)
  note arr = arrivals_ok [where kc = "snd ?s", OF ok2(1), unfolded prod.collapse]
  have e3: "evolves (fst ?s) (fst ?r)" by (rule arr(1))
  then have ok3: "arbiter_ok (fst ?r)" "game_clock_ms (fst ?r) = ?p + ms" using ok2 by (simp_all add: evolves_def)
  have ord: "iteration_order (ords 1)" using ords by (simp add: orders_ok_def)
  have "evolves ?a1 a'"
    using evolves_trans [OF e2 evolves_trans [OF e3 evolves_wakePieces [OF ord]]] by (simp add: a')
  then show "arbiter_ok a'" and clock: "game_clock_ms a' = ?p + ms" and "allIds a' = allIds a"
    and "collisionEnabled a' = collisionEnabled a"
    and "getWidth (arb_board a') = getWidth (arb_board a)" "getHeight (arb_board a') = getHeight (arb_board a)"
    using ok1 by (simp_all add: evolves_def allIds_def)
  have A: "afterWake ?p (fst ?r) (map_of (cooldown_until_ms (fst ?r))) a'"
    unfolding a' by (rule wakePieces_outcome [OF arbiter_okD(1) [OF ok3(1)] ord arbiter_okD(4) [OF ok3(1)]])
  show "m \<in> set (active_motions a') \<Longrightarrow> game_clock_ms a' < arrival_time_ms m" for m
    using arr(2) [of m] ok2(2) clock by (simp add: afterWakeD(7) [OF A])
  assume "live a"
  then have "live_at ?p (active_motions ?a1) ?a1" by (simp add: live_def live_at_def)
  then have "live_at ?p (active_motions (fst ?s)) (fst ?s)"
    using live_resolveBlocks [OF ords ok1, of ?p ?p False] ms by simp
  then have "live_at ?p (active_motions (fst ?r)) (fst ?r)" using arr(3) [of ?p] ok2(2) ms by simp
  then show "live a'" unfolding a' by (rule live_wakePieces [OF ord ok3(1)])
qed

section \<open>Starting motions\<close>

text \<open>
  The running value of \<open>truncateAt\<close> is the least element of the indices found so far, or -1.
\<close>

definition leastMark :: "nat set \<Rightarrow> int \<Rightarrow> bool" where
  "leastMark S t \<longleftrightarrow> (t = -1 \<and> S = {}) \<or> (\<exists>i. t = int i \<and> i \<in> S \<and> (\<forall>j \<in> S. i \<le> j))"

lemma leastMark_step:
  assumes "leastMark S t"
  shows "leastMark (S \<union> (if c then {i} else {})) (if c \<and> (t = -1 \<or> int i < t) then int i else t)"
proof (cases "c \<and> (t = -1 \<or> int i < t)")
  case True
  then have "i \<le> j" if "j \<in> S" for j using assms that by (force simp: leastMark_def)
  then show ?thesis using True by (auto simp: leastMark_def)
next
  case False
  then show ?thesis using assms by (auto simp: leastMark_def)
qed

lemma leastMark_fold:
  assumes "\<And>x S t. x \<in> set xs \<Longrightarrow> leastMark S t \<Longrightarrow> leastMark (S \<union> A x) (f x t)" and "leastMark S t"
  shows "leastMark (S \<union> (\<Union>x \<in> set xs. A x)) (fold f xs t)"
  using assms
proof (induction xs arbitrary: S t)
  case Nil
  then show ?case by simp
next
  case (Cons x xs)
  have "leastMark (S \<union> A x) (f x t)" using Cons.prems by simp
  then have "leastMark (S \<union> A x \<union> (\<Union>x \<in> set xs. A x)) (fold f xs (f x t))" using Cons.prems(1) by (intro Cons.IH) auto
  then show ?case by (simp add: Un_assoc)
qed

lemma nearMissScan_least:
  assumes "leastMark S t"
  shows "leastMark (S \<union> {i. i < length np \<and> (\<exists>j < length op. fst (np ! i) = fst (op ! j) \<and> snd (np ! i) \<ge> snd (op ! j))})
    (nearMissScan np op t)"
proof -
  let ?c = "\<lambda>i j. fst (np ! i) = fst (op ! j) \<and> snd (np ! i) \<ge> snd (op ! j)"
  have inner: "leastMark (S \<union> (\<Union>j \<in> set [0..<length op]. if ?c i j then {i} else {}))
      (fold (\<lambda>j t. if fst (np ! i) = fst (op ! j) \<and> snd (np ! i) \<ge> snd (op ! j) \<and> (t = -1 \<or> int i < t)
         then int i else t) [0..<length op] t)" if "leastMark S t" for i S t
  proof (rule leastMark_fold [OF _ that])
    show "leastMark (S \<union> (if ?c i j then {i} else {}))
        (if fst (np ! i) = fst (op ! j) \<and> snd (np ! i) \<ge> snd (op ! j) \<and> (t = -1 \<or> int i < t) then int i else t)"
      if "leastMark S t" for j S t
      using leastMark_step [OF that, of "?c i j" i] by (simp only: conj_assoc)
  qed
  have "leastMark (S \<union> (\<Union>i \<in> set [0..<length np]. \<Union>j \<in> set [0..<length op]. if ?c i j then {i} else {}))
      (nearMissScan np op t)"
    unfolding nearMissScan_def by (rule leastMark_fold [OF inner assms])
  moreover have "(\<Union>i \<in> set [0..<length np]. \<Union>j \<in> set [0..<length op]. if ?c i j then {i} else {}) =
      {i. i < length np \<and> (\<exists>j < length op. ?c i j)}"
    by (auto split: if_splits)
  ultimately show ?thesis by simp
qed

text \<open>
  A checkpoint of a new motion is claimed by an active motion of the same colour when both pass
  the cell and the new one would reach it at the same time or later.
\<close>

definition claimedBy :: "board \<Rightarrow> motion \<Rightarrow> motion \<Rightarrow> nat set" where
  "claimedBy b m other = (if tracked b other \<and> \<not> enemies b other m
     then {i. i < pathLength m \<and> (\<exists>j < pathLength other. pathCell m (Suc i) = pathCell other (Suc j) \<and>
            pathTime m (Suc i) \<ge> pathTime other (Suc j))}
     else {})"

definition claimed :: "board \<Rightarrow> motion list \<Rightarrow> motion \<Rightarrow> nat set" where
  "claimed b ms m = (\<Union>other \<in> set ms. claimedBy b m other)"

lemma applyNearMiss_least:
  assumes w: "isWithinBounds b (m_from m)"
  obtains t where "leastMark (claimed b ms m) t"
    and "applyNearMiss b ms m =
      (if getKind (slot b (m_from m)) = Knight then Some m
       else if t = 0 then None
       else if t > 0 then Some (truncateAtCheckpoint m (nat (t - 1))) else Some m)"
proof -
  let ?f = "\<lambda>other truncateAt.
     if m_from other = m_to other then truncateAt
     else case getPiece b (m_from other) of
            None \<Rightarrow> truncateAt
          | Some otherPiece \<Rightarrow>
              if getKind otherPiece = Knight then truncateAt
              else if getColor otherPiece \<noteq> getColor (slot b (m_from m)) then truncateAt
              else nearMissScan (pathCheckpoints m) (pathCheckpoints other) truncateAt"
  have "leastMark ({} \<union> (\<Union>other \<in> set ms. claimedBy b m other)) (fold ?f ms (-1))"
  proof (rule leastMark_fold)
    show "leastMark {} (-1)" by (simp add: leastMark_def)
    fix other S t assume l: "leastMark S t"
    show "leastMark (S \<union> claimedBy b m other) (?f other t)"
    proof (cases "tracked b other \<and> \<not> enemies b other m")
      case True
      have "{i. i < pathLength m \<and> (\<exists>j < pathLength other. fst (pathCheckpoints m ! i) = fst (pathCheckpoints other ! j) \<and>
          snd (pathCheckpoints m ! i) \<ge> snd (pathCheckpoints other ! j))} = claimedBy b m other"
        using True by (auto simp: claimedBy_def nth_pathCheckpoints)
      moreover have "?f other t = nearMissScan (pathCheckpoints m) (pathCheckpoints other) t"
        using True by (simp add: tracked_iff enemies_def getPiece_def)
      ultimately show ?thesis
        using nearMissScan_least [OF l, of "pathCheckpoints m" "pathCheckpoints other"] by simp
    next
      case False
      then have "?f other t = t" by (auto simp: tracked_iff enemies_def getPiece_def)
      moreover have "claimedBy b m other = {}" unfolding claimedBy_def using False by (rule if_not_P)
      ultimately show ?thesis using l by (simp only: Un_empty_right)
    qed
  qed
  then have "leastMark (claimed b ms m) (fold ?f ms (-1))" by (simp add: claimed_def)
  then show thesis by (rule that) (simp add: applyNearMiss_def getPiece_def w Let_def)
qed

lemma applyNearMiss_result:
  assumes "isWithinBounds b (m_from m)" "applyNearMiss b ms m = Some m'"
  shows "m' = m \<or> (\<exists>k < pathLength m. m' = truncateAtCheckpoint m k)"
proof -
  obtain t where t: "leastMark (claimed b ms m) t"
    and r: "applyNearMiss b ms m =
      (if getKind (slot b (m_from m)) = Knight then Some m
       else if t = 0 then None
       else if t > 0 then Some (truncateAtCheckpoint m (nat (t - 1))) else Some m)"
    by (rule applyNearMiss_least [OF assms(1), of ms])
  have "t < int (pathLength m)" if "t > 0"
    using t that by (auto simp: leastMark_def claimed_def claimedBy_def simp del: int_pathLength split: if_splits)
  then have "nat (t - 1) < pathLength m" if "t > 0" using that by linarith
  then show ?thesis using assms(2) unfolding r by (cases "t > 0") (auto split: if_splits)
qed


lemma addMotion_cases:
  assumes "isWithinBounds (arb_board a) from" "isWithinBounds (arb_board a) to" "from \<noteq> to"
    and "0 < pieceId"
  obtains (refused) "addMotion from to pieceId a = (False, a)" "collisionEnabled a"
  | (started) m where "m_from m = from" "m_from m \<noteq> m_to m" "piece_id m = pieceId"
      "motion_ok (arb_board a) (game_clock_ms a) m" "start_time_ms m = game_clock_ms a"
      "addMotion from to pieceId a =
         (True, a\<lparr>active_motions := active_motions a @ [m],
                  arb_board := withPiece from (transitionTo Moving) (arb_board a)\<rparr>)"
proof -
  let ?n = "\<lparr>m_from = from, m_to = to, start_time_ms = game_clock_ms a,
      arrival_time_ms = game_clock_ms a + calcTravelTime from to, piece_id = pieceId\<rparr>"
  have n: "motion_ok (arb_board a) (game_clock_ms a) ?n"
    using assms by (simp add: motion_ok_def timedMotion_def)
  show thesis
  proof (cases "if collisionEnabled a then applyNearMiss (arb_board a) (active_motions a) ?n else Some ?n")
    case None
    then show ?thesis using refused by (auto simp: addMotion_def split: if_splits)
  next
    case (Some m)
    have "m = ?n \<or> (\<exists>k < pathLength ?n. m = truncateAtCheckpoint ?n k)"
    proof (cases "collisionEnabled a")
      case True
      then show ?thesis
        using Some by (intro applyNearMiss_result [of "arb_board a" ?n "active_motions a" m]) (simp_all add: assms(1))
    qed (use Some in simp)
    moreover have "from \<noteq> pathCell ?n (Suc k)" if "k < pathLength ?n" for k
      using truncate_slide [OF that] truncate_fields [OF that] by simp
    ultimately have "m_from m = from \<and> m_from m \<noteq> m_to m \<and> piece_id m = pieceId \<and>
        motion_ok (arb_board a) (game_clock_ms a) m \<and> start_time_ms m = game_clock_ms a"
      using n assms(3) motion_ok_truncate [OF n] by (auto simp: truncate_fields)
    moreover have "addMotion from to pieceId a =
         (True, a\<lparr>active_motions := active_motions a @ [m],
                  arb_board := withPiece from (transitionTo Moving) (arb_board a)\<rparr>)"
      using Some by (simp add: addMotion_def Let_def)
    ultimately show ?thesis using started [of m] by blast
  qed
qed

lemma live_add:
  assumes ok: "arbiter_ok a" and live: "live a" and w: "isWithinBounds (arb_board a) pos"
    and m: "m_from m = pos" "piece_id m = getId (slot (arb_board a) pos)"
    and real: "getKind (slot (arb_board a) pos) \<noteq> NoKind"
    and at: "live_piece (active_motions a @ [m]) (cooldown_until_ms a) (game_clock_ms a) (transitionTo st (slot (arb_board a) pos))"
  shows "live (a\<lparr>active_motions := active_motions a @ [m], arb_board := withPiece pos (transitionTo st) (arb_board a)\<rparr>)"
proof -
  let ?b = "arb_board a"
  have "live_piece (active_motions a @ [m]) (cooldown_until_ms a) (game_clock_ms a) (slot ?b q)"
    if q: "isWithinBounds ?b q" "q \<noteq> pos" for q
  proof (cases "getKind (slot ?b q) = NoKind")
    case True
    then show ?thesis using board_wfD(3) [OF arbiter_okD(1) [OF ok] q(1)] by (simp add: piece_ok_def)
  next
    case False
    then have "piece_id m \<noteq> getId (slot ?b q)"
      using board_wf_unique [OF arbiter_okD(1) [OF ok] q(1) w False real] m(2) q(2) by auto
    moreover have "live_piece (active_motions a) (cooldown_until_ms a) (game_clock_ms a) (slot ?b q)"
      using live q(1) by (simp add: live_def live_at_def)
    ultimately show ?thesis
      by (auto simp: live_piece_def ownSlide_def ownJump_def split: state.splits)
  qed
  then show ?thesis using w at arbiter_okD(2) [OF ok] by (auto simp: live_def live_at_def slot_withPiece)
qed

lemma evolves_add:
  assumes "motion_ok (arb_board a) (game_clock_ms a) m" "st \<noteq> Captured"
    and "isWithinBounds (arb_board a) pos \<Longrightarrow> getKind (slot (arb_board a) pos) \<noteq> NoKind"
  shows "evolves a (a\<lparr>active_motions := active_motions a @ [m], arb_board := withPiece pos (transitionTo st) (arb_board a)\<rparr>)"
proof -
  let ?a = "a\<lparr>active_motions := active_motions a @ [m]\<rparr>"
  have "evolves a ?a" using assms(1) by (intro evolves_motions) (auto simp: arbiter_okD)
  moreover have "evolves ?a (?a\<lparr>arb_board := withPiece pos (transitionTo st) (arb_board ?a)\<rparr>)"
    using assms(2,3) by (intro evolves_board) (auto simp: arbiter_okD boardIds_withPiece intro!: board_wf_transition
        dest: arbiter_okD(1,2))
  ultimately show ?thesis using evolves_trans by fastforce
qed

lemma timed_not_overdue: "motion_ok b t m \<Longrightarrow> start_time_ms m = t \<Longrightarrow> t < arrival_time_ms m"
  using timed_arrives_later [of m] by (simp add: motion_ok_def)

lemma addMotion_laws:
  fixes a :: arbiter
  assumes ok: "arbiter_ok a" and w: "isWithinBounds (arb_board a) from" "isWithinBounds (arb_board a) to" "from \<noteq> to"
    and real: "getKind (slot (arb_board a) from) \<noteq> NoKind"
  defines "a' \<equiv> snd (addMotion from to (getId (slot (arb_board a) from)) a)"
  shows "evolves a a'"
    and "(\<And>m. m \<in> set (active_motions a) \<Longrightarrow> game_clock_ms a < arrival_time_ms m) \<Longrightarrow>
      m \<in> set (active_motions a') \<Longrightarrow> game_clock_ms a' < arrival_time_ms m"
    and "live a \<Longrightarrow> getState (slot (arb_board a) from) \<noteq> Jump \<Longrightarrow> live a'"
proof -
  let ?p = "slot (arb_board a) from"
  have "0 < getId ?p" using board_wfD(3) [OF arbiter_okD(1) [OF ok] w(1)] real by (simp add: piece_ok_def)
  with w consider (refused) "a' = a"
    | (started) m where "m_from m = from" "m_from m \<noteq> m_to m" "piece_id m = getId ?p"
      "motion_ok (arb_board a) (game_clock_ms a) m" "start_time_ms m = game_clock_ms a"
      "a' = a\<lparr>active_motions := active_motions a @ [m], arb_board := withPiece from (transitionTo Moving) (arb_board a)\<rparr>"
    unfolding a'_def by (rule addMotion_cases) auto
  note c = this
  show "evolves a a'" using c by cases (use real in \<open>auto intro: evolves_add\<close>)
  show "(\<And>m. m \<in> set (active_motions a) \<Longrightarrow> game_clock_ms a < arrival_time_ms m) \<Longrightarrow>
      m \<in> set (active_motions a') \<Longrightarrow> game_clock_ms a' < arrival_time_ms m"
    using c by cases (auto dest: timed_not_overdue)
  assume live: "live a" and st: "getState ?p \<noteq> Jump"
  show "live a'" using c
  proof cases
    case refused
    then show ?thesis using live by simp
  next
    case (started m)
    have cell: "getCell ?p = from" using board_wfD(2) [OF arbiter_okD(1) [OF ok] w(1)] .
    have "live_piece (active_motions a) (cooldown_until_ms a) (game_clock_ms a) ?p"
      using live w(1) by (simp add: live_def live_at_def)
    then have "live_piece (active_motions a @ [m]) (cooldown_until_ms a) (game_clock_ms a) (transitionTo Moving ?p)"
      using st started cell by (auto simp: live_piece_def ownSlide_def transitionTo_def isLegalTransition_def
          kLegalTransitions_def split: state.splits)
    then show ?thesis unfolding started(6) using ok live w(1) started real by (intro live_add) auto
  qed
qed

lemma addJump_laws:
  fixes a :: arbiter
  assumes ok: "arbiter_ok a" and w: "isWithinBounds (arb_board a) pos"
    and real: "getKind (slot (arb_board a) pos) \<noteq> NoKind"
  defines "a' \<equiv> addJump pos (getId (slot (arb_board a) pos)) a"
  shows "evolves a a'"
    and "(\<And>m. m \<in> set (active_motions a) \<Longrightarrow> game_clock_ms a < arrival_time_ms m) \<Longrightarrow>
      m \<in> set (active_motions a') \<Longrightarrow> game_clock_ms a' < arrival_time_ms m"
    and "live a \<Longrightarrow> \<not> isPieceBusy a (getId (slot (arb_board a) pos)) \<Longrightarrow> live a'"
proof -
  let ?p = "slot (arb_board a) pos"
  let ?m = "\<lparr>m_from = pos, m_to = pos, start_time_ms = game_clock_ms a,
           arrival_time_ms = game_clock_ms a + JUMP_DURATION_MS, piece_id = getId ?p\<rparr>"
  have "0 < getId ?p" using board_wfD(3) [OF arbiter_okD(1) [OF ok] w] real by (simp add: piece_ok_def)
  then have m: "motion_ok (arb_board a) (game_clock_ms a) ?m"
    using w by (simp add: motion_ok_def timedMotion_def)
  have a': "a' = a\<lparr>active_motions := active_motions a @ [?m], arb_board := withPiece pos (transitionTo Jump) (arb_board a)\<rparr>"
    by (simp add: a'_def addJump_def)
  show "evolves a a'" unfolding a' using m real by (intro evolves_add) auto
  show "(\<And>m. m \<in> set (active_motions a) \<Longrightarrow> game_clock_ms a < arrival_time_ms m) \<Longrightarrow>
      m \<in> set (active_motions a') \<Longrightarrow> game_clock_ms a' < arrival_time_ms m"
    by (auto simp: a' JUMP_DURATION_MS_def)
  assume live: "live a" and nb: "\<not> isPieceBusy a (getId ?p)"
  have cell: "getCell ?p = pos" using board_wfD(2) [OF arbiter_okD(1) [OF ok] w] .
  have "live_piece (active_motions a) (cooldown_until_ms a) (game_clock_ms a) ?p"
    using live w by (simp add: live_def live_at_def)
  then have "live_piece (active_motions a @ [?m]) (cooldown_until_ms a) (game_clock_ms a) (transitionTo Jump ?p)"
    using nb cell by (auto simp: live_piece_def ownSlide_def ownJump_def transitionTo_def isLegalTransition_def
        kLegalTransitions_def isPieceBusy_def list_ex_iff split: state.splits)
  then show "live a'" unfolding a' using ok live w real by (intro live_add) auto
qed

lemma newArbiter_ok:
  assumes "board_wf b" "\<And>q. isWithinBounds b q \<Longrightarrow> getState (slot b q) = Idle"
  shows "arbiter_ok (newArbiter b c)" "live (newArbiter b c)" "allIds (newArbiter b c) = boardIds b"
  using assms by (simp_all add: arbiter_ok_def newArbiter_def live_def live_at_def allIds_def)

end
