(* ===== verification/Tick_Order.thy ===== *)
theory Tick_Order
  imports Arbiter_Laws
begin

text \<open>
  A tick visits two hash maps, the table of stops and the cooldowns. Whatever the order of the
  visits, the outcome is the same: the same board, motions, captures, notifications and clock,
  and cooldowns that are equal as maps.
\<close>

definition sim :: "arbiter \<Rightarrow> arbiter \<Rightarrow> bool" where
  "sim a a' \<longleftrightarrow> (\<exists>c. a' = a\<lparr>cooldown_until_ms := c\<rparr> \<and> map_of c = map_of (cooldown_until_ms a))"

lemma sim_refl [simp]: "sim a a"
  unfolding sim_def by (intro exI [of _ "cooldown_until_ms a"]) simp

lemma simI:
  fixes a a' :: arbiter
  assumes "game_clock_ms a' = game_clock_ms a" "active_motions a' = active_motions a"
    "captured_pieces a' = captured_pieces a" "arb_board a' = arb_board a" "collisionEnabled a' = collisionEnabled a"
    "notifications a' = notifications a" "map_of (cooldown_until_ms a') = map_of (cooldown_until_ms a)"
  shows "sim a a'"
  unfolding sim_def using assms by (intro exI [of _ "cooldown_until_ms a'"]) simp

lemma simD:
  assumes "sim a a'"
  shows "game_clock_ms a' = game_clock_ms a" "active_motions a' = active_motions a"
    "captured_pieces a' = captured_pieces a" "arb_board a' = arb_board a" "collisionEnabled a' = collisionEnabled a"
    "notifications a' = notifications a" "map_of (cooldown_until_ms a') = map_of (cooldown_until_ms a)"
  using assms by (auto simp: sim_def)

lemma sim_update:
  "map_of c = map_of (cooldown_until_ms a) \<Longrightarrow>
     map_of (AList.update i t c) = map_of (AList.update i t (cooldown_until_ms a))"
  by (simp add: fun_eq_iff)

section \<open>The single steps respect the relation\<close>

lemma stationaryRound_sim:
  assumes "sim a a'"
  shows "(\<exists>x y. stationaryRound p g i a = Inl x \<and> stationaryRound p g i a' = Inl y \<and> sim x y) \<or>
    (\<exists>x y. stationaryRound p g i a = Inr x \<and> stationaryRound p g i a' = Inr y \<and> sim x y)"
proof -
  obtain c where a': "a' = a\<lparr>cooldown_until_ms := c\<rparr>" and c: "map_of c = map_of (cooldown_until_ms a)"
    using assms by (auto simp: sim_def)
  have b: "stationaryBlocker a' p g m = stationaryBlocker a p g m" for m
    by (simp only: stationaryBlocker_def simD(2,4) [OF assms])
  have r: "sim (restInPlace m g a\<lparr>active_motions := ms\<rparr>) (restInPlace m g a'\<lparr>active_motions := ms\<rparr>)" for m ms
    by (rule simI) (simp_all add: restInPlace_def a' sim_update [OF c])
  have m: "sim (a\<lparr>active_motions := ms\<rparr>) (a'\<lparr>active_motions := ms\<rparr>)" for ms
    by (rule simI) (simp_all add: a' c)
  show ?thesis
    unfolding stationaryRound_def b Let_def
    using r m assms by (auto simp: simD [OF assms] split: option.split if_split prod.split)
qed

lemma stationaryLoop_sim:
  assumes "sim a a'"
  shows "sim (stationaryLoop p g i a) (stationaryLoop p g i a')"
  using assms
proof (induction "length (active_motions a) - i" arbitrary: i a a' rule: less_induct)
  case less
  have len: "length (active_motions a') = length (active_motions a)" by (simp add: simD [OF less.prems])
  show ?case
  proof (cases "i < length (active_motions a)")
    case True
    from stationaryRound_sim [OF less.prems, of p g i] show ?thesis
    proof (elim disjE exE conjE)
      fix x y assume r: "stationaryRound p g i a = Inl x" "stationaryRound p g i a' = Inl y" "sim x y"
      then have "sim (stationaryLoop p g i x) (stationaryLoop p g i y)"
        using stationaryRound_length(1) [OF True r(1)] True by (intro less.hyps) auto
      then show ?thesis using True r len by (simp add: stationaryLoop.simps [of p g i a] stationaryLoop.simps [of p g i a'])
    next
      fix x y assume r: "stationaryRound p g i a = Inr x" "stationaryRound p g i a' = Inr y" "sim x y"
      then have "sim (stationaryLoop p g (Suc i) x) (stationaryLoop p g (Suc i) y)"
        using stationaryRound_length(2) [OF r(1)] True by (intro less.hyps) auto
      then show ?thesis using True r len by (simp add: stationaryLoop.simps [of p g i a] stationaryLoop.simps [of p g i a'])
    qed
  next
    case False
    then show ?thesis using less.prems len by (simp add: stationaryLoop.simps [of p g i a] stationaryLoop.simps [of p g i a'])
  qed
qed

text \<open>The part of \<open>resolve\<close> after the cooldown has been set.\<close>

definition resolveTail :: "int \<Rightarrow> motion \<Rightarrow> arbiter \<Rightarrow> bool \<Rightarrow> arbiter \<times> bool" where
  "resolveTail g m a kc =
     (if m_from m = m_to m then
        (case getPiece (arb_board a) (m_from m) of
           None \<Rightarrow> (a, kc)
         | Some jumper \<Rightarrow>
             if getId jumper = piece_id m
             then (a\<lparr>arb_board := withPiece (m_from m) (transitionTo ShortRest) (arb_board a)\<rparr>, kc) else (a, kc))
      else
        (case getPiece (arb_board a) (m_from m) of
           None \<Rightarrow> (a, kc)
         | Some piece \<Rightarrow>
             let target = getPiece (arb_board a) (m_to m);
                 a1 = capturePiece (m_from m) (Impact (getId piece) (m_to m) 1) a;
                 a2 = a\<lparr>arb_board := withPiece (m_from m) (transitionTo LongRest) (arb_board a)\<rparr>;
                 wasCapture = (case target of None \<Rightarrow> False | Some t \<Rightarrow> getKind t \<noteq> NoKind)
             in if getId piece \<noteq> piece_id m then (a, kc)
                else if (case target of None \<Rightarrow> False | Some t \<Rightarrow> getState t = Jump \<or> getState t = ShortRest)
                then (a1\<lparr>arb_board := removePiece (m_from m) (arb_board a1)\<rparr>, kc)
                else if collisionEnabled a \<and> (case target of None \<Rightarrow> False | Some t \<Rightarrow> getColor t = getColor piece) \<and>
                     getKind piece \<noteq> Knight then (a2, kc)
                else (completeMove m wasCapture g
                        (if wasCapture then capturePiece (m_to m) (Impact (getId piece) (m_to m) 1) a2 else a2),
                      kc \<or> (case target of None \<Rightarrow> False | Some t \<Rightarrow> getKind t = King))))"

lemma resolve_tail: "resolve g m (a, kc) = resolveTail g m (cooled g m a) kc"
  unfolding resolve_def resolveTail_def cooled_def Let_def by (simp split: option.split)

lemma resolve_sim:
  assumes "sim a a'"
  shows "sim (fst (resolve g m (a, kc))) (fst (resolve g m (a', kc)))" "snd (resolve g m (a', kc)) = snd (resolve g m (a, kc))"
proof -
  have board: "sim (x\<lparr>arb_board := b\<rparr>) (y\<lparr>arb_board := b\<rparr>)" if "sim x y" for x y b
    using simD [OF that] by (intro simI) simp_all
  have capture: "sim (capturePiece pos im x) (capturePiece pos im y)" if "sim x y" for pos im x y
    using simD [OF that] by (intro simI) (simp_all add: capturePiece_def split: option.split)
  have complete: "sim (completeMove m w g x) (completeMove m w g y)" if "sim x y" for w x y
    using simD [OF that] by (intro simI) (simp_all add: completeMove_def Let_def)
  have cool: "sim (cooled g m a) (cooled g m a')"
    using simD [OF assms] by (intro simI) (simp_all add: cooled_def fun_eq_iff)
  have "sim (fst (resolveTail g m x kc)) (fst (resolveTail g m y kc)) \<and>
      snd (resolveTail g m y kc) = snd (resolveTail g m x kc)" if s: "sim x y" for x y
  proof -
    have cap: "arb_board (capturePiece pos im y) = arb_board (capturePiece pos im x)" for pos im
      by (rule simD(4) [OF capture [OF s]])
    show ?thesis
      unfolding resolveTail_def simD(4,5) [OF s] Let_def cap
      by (auto simp: s split: option.split intro!: board capture complete)
  qed
  then show "sim (fst (resolve g m (a, kc))) (fst (resolve g m (a', kc)))" "snd (resolve g m (a', kc)) = snd (resolve g m (a, kc))"
    using cool unfolding resolve_tail by blast+
qed

lemma fold_resolve_sim:
  assumes "sim a a'"
  shows "sim (fst (fold (resolve g) ms (a, kc))) (fst (fold (resolve g) ms (a', kc))) \<and>
    snd (fold (resolve g) ms (a', kc)) = snd (fold (resolve g) ms (a, kc))"
  using assms
proof (induction ms arbitrary: a a' kc)
  case Nil
  then show ?case by simp
next
  case (Cons m ms)
  note r = resolve_sim [OF Cons.prems, of g m kc]
  have "resolve g m (a', kc) = (fst (resolve g m (a', kc)), snd (resolve g m (a, kc)))" using r(2) by (simp add: prod_eq_iff)
  then show ?case using Cons.IH [OF r(1), of "snd (resolve g m (a, kc))"] by simp
qed

section \<open>The loops over the hash maps\<close>

lemma friendlyBlocks_sim:
  assumes ok: "arbiter_ok a" and ord: "iteration_order ord" "iteration_order ord'"
  shows "sim (resolveMovingFriendlyBlocks ord p g a) (resolveMovingFriendlyBlocks ord' p g a)"
proof -
  let ?st = "map_of (stopTable (arb_board a) (active_motions a) p g)"
  have w: "\<And>m. m \<in> set (active_motions a) \<Longrightarrow> isWithinBounds (arb_board a) (m_from m)"
    using arbiter_okD(3) [OF ok] by (auto simp: motion_ok_def)
  have out: "\<exists>a1. afterStops g a ?st a1 \<and> resolveMovingFriendlyBlocks od p g a = a1\<lparr>active_motions :=
      map (redirect (active_motions a) ?st) (filter (\<lambda>l. ?st l \<noteq> Some 0) [0..<length (active_motions a)])\<rparr>"
    if "iteration_order od" for od
    using resolveMovingFriendlyBlocks_outcome [where p = p and g = g, OF that arbiter_okD(2) [OF ok] w]
    by (simp add: afterFriendlyBlocks_def)
  obtain x y where x: "afterStops g a ?st x" and rx: "resolveMovingFriendlyBlocks ord p g a = x\<lparr>active_motions :=
      map (redirect (active_motions a) ?st) (filter (\<lambda>l. ?st l \<noteq> Some 0) [0..<length (active_motions a)])\<rparr>"
    and y: "afterStops g a ?st y" and ry: "resolveMovingFriendlyBlocks ord' p g a = y\<lparr>active_motions :=
      map (redirect (active_motions a) ?st) (filter (\<lambda>l. ?st l \<noteq> Some 0) [0..<length (active_motions a)])\<rparr>"
    using out [OF ord(1)] out [OF ord(2)] by blast
  note X = afterStopsD [OF x] and Y = afterStopsD [OF y]
  have "arb_board y = arb_board x"
    using X(1-3) Y(1-3) by (intro board_eqI) (auto simp: X(5) Y(5) isWithinBounds_def)
  then show ?thesis
    unfolding rx ry by (intro simI) (simp_all add: X(8-11) Y(8-11) fun_eq_iff X(6) Y(6))
qed

lemma wakePieces_sim:
  assumes s: "sim a a'" and ok: "arbiter_ok a" "arbiter_ok a'" and ord: "iteration_order ord" "iteration_order ord'"
  shows "sim (wakePieces ord p a) (wakePieces ord' p a')"
proof -
  note S = simD [OF s]
  have x: "afterWake p a (map_of (cooldown_until_ms a)) (wakePieces ord p a)"
    by (rule wakePieces_outcome [OF arbiter_okD(1) [OF ok(1)] ord(1) arbiter_okD(4) [OF ok(1)]])
  have y: "afterWake p a' (map_of (cooldown_until_ms a')) (wakePieces ord' p a')"
    by (rule wakePieces_outcome [OF arbiter_okD(1) [OF ok(2)] ord(2) arbiter_okD(4) [OF ok(2)]])
  note X = afterWakeD [OF x] and Y = afterWakeD [OF y]
  have "arb_board (wakePieces ord' p a') = arb_board (wakePieces ord p a)"
    using X(1-3) Y(1-3) by (intro board_eqI) (auto simp: X(4) Y(4) S isWithinBounds_def)
  then show ?thesis
    by (intro simI) (auto simp: X(7-11) Y(7-11) S fun_eq_iff X(5) Y(5))
qed

lemma resolveBlocks_sim:
  assumes ok: "arbiter_ok a" and ords: "orders_ok ords" "orders_ok ords'"
  shows "sim (fst (resolveBlocks ords p (a, kc))) (fst (resolveBlocks ords' p (a, kc))) \<and>
    snd (resolveBlocks ords' p (a, kc)) = snd (resolveBlocks ords p (a, kc))"
proof -
  let ?g = "game_clock_ms a"
  obtain a1 kc1 where c: "resolveCollisions p ?g (a, kc) = (a1, kc1)" by force
  have ok1: "arbiter_ok a1" using evolves_resolveCollisions [of "(a, kc)" p ?g] ok by (simp add: c evolves_def)
  have "sim (resolveMovingFriendlyBlocks (ords 0) p ?g a1) (resolveMovingFriendlyBlocks (ords' 0) p ?g a1)"
    using ok1 ords by (intro friendlyBlocks_sim) (auto simp: orders_ok_def)
  then show ?thesis
    by (simp add: resolveBlocks_def c Let_def resolveStationaryBlocks_def stationaryLoop_sim)
qed

lemma tick_sim:
  assumes ok: "arbiter_ok a" and ms: "0 \<le> ms" and ords: "orders_ok ords" "orders_ok ords'"
  shows "sim (fst (tick ords ms a)) (fst (tick ords' ms a))" "snd (tick ords ms a) = snd (tick ords' ms a)"
proof -
  let ?p = "game_clock_ms a" let ?a1 = "a\<lparr>game_clock_ms := ?p + ms\<rparr>"
  let ?s = "resolveBlocks ords ?p (?a1, False)" and ?s' = "resolveBlocks ords' ?p (?a1, False)"
  have ok1: "arbiter_ok ?a1" by (rule advance_ok [OF ok ms])
  have s: "sim (fst ?s) (fst ?s')" "snd ?s' = snd ?s" using resolveBlocks_sim [OF ok1 ords, of ?p False] by auto
  have ok2: "arbiter_ok (fst ?s)" "arbiter_ok (fst ?s')"
    using evolves_resolveBlocks [OF ords(1), of "(?a1, False)" ?p] evolves_resolveBlocks [OF ords(2), of "(?a1, False)" ?p] ok1
    by (simp_all add: evolves_def)
  obtain x k where x: "?s = (x, k)" by force
  obtain y where y: "?s' = (y, k)" using s(2) x by (cases ?s') simp
  have xy: "sim x y" "arbiter_ok x" "arbiter_ok y" using s(1) ok2 by (simp_all add: x y)
  note S = simD [OF xy(1)]
  let ?r = "resolveArrivals (x, k)" and ?r' = "resolveArrivals (y, k)"
  note f = fold_resolve_sim [OF xy(1), of "game_clock_ms x"
      "filter (\<lambda>m. arrival_time_ms m \<le> game_clock_ms x) (active_motions x)" k]
  have "sim (fst ?r) (fst ?r')" "snd ?r' = snd ?r"
    unfolding resolveArrivals_eq Let_def S using f simD [OF conjunct1 [OF f]] by (auto intro!: simI)
  moreover have "arbiter_ok (fst ?r)" "arbiter_ok (fst ?r')"
    using arrivals_ok(1) [OF xy(2), of k] arrivals_ok(1) [OF xy(3), of k] xy by (simp_all add: evolves_def)
  ultimately show "sim (fst (tick ords ms a)) (fst (tick ords' ms a))" "snd (tick ords ms a) = snd (tick ords' ms a)"
    using ords by (auto simp: tick_def Let_def case_prod_beta orders_ok_def x y intro!: wakePieces_sim)
qed

end
