(* ===== verification/Observers.thy ===== *)
theory Observers
  imports Collision
begin

text \<open>
  The observers of a game (\<open>server/engine/ScoreObserver.cpp\<close>, \<open>MoveLogObserver.cpp\<close>,
  \<open>CaptureEventObserver.cpp\<close>, with the records of \<open>shared/protocol/MoveEntry.h\<close> and
  \<open>CaptureEvent.h\<close>). An observer is a function from its state and one notification to its new
  state; the callbacks of the move log and of the capture observer return what they hand on.
\<close>

section \<open>Decimal output\<close>

text \<open>What \<open>operator<<\<close> prints for an integer, and the effect of \<open>setfill\<close> with \<open>setw\<close>.\<close>

fun showNat :: "nat \<Rightarrow> string" where
  "showNat n = (if n < 10 then [char_of (48 + n)] else showNat (n div 10) @ [char_of (48 + n mod 10)])"

declare showNat.simps [simp del]

definition showInt :: "int \<Rightarrow> string" where
  "showInt i = (if i < 0 then CHR ''-'' # showNat (nat (- i)) else showNat (nat i))"

definition padLeft :: "char \<Rightarrow> nat \<Rightarrow> string \<Rightarrow> string" where
  "padLeft c w s = replicate (w - length s) c @ s"

section \<open>The score\<close>

record score_observer =
  whiteScore :: int
  blackScore :: int

definition newScoreObserver :: score_observer where
  "newScoreObserver = \<lparr>whiteScore = 0, blackScore = 0\<rparr>"

definition pieceValue :: "kind \<Rightarrow> int" where
  "pieceValue k = (case k of Pawn \<Rightarrow> 1 | Knight \<Rightarrow> 3 | Bishop \<Rightarrow> 3 | Rook \<Rightarrow> 5 | Queen \<Rightarrow> 9 | _ \<Rightarrow> 0)"

definition scorePieceCaptured :: "piece \<Rightarrow> score_observer \<Rightarrow> score_observer" where
  "scorePieceCaptured captured s =
     (let v = pieceValue (getKind captured) in
      if getColor captured = White then s\<lparr>blackScore := blackScore s + v\<rparr>
      else if getColor captured = Black then s\<lparr>whiteScore := whiteScore s + v\<rparr>
      else s)"

definition getScore :: "score_observer \<Rightarrow> color \<Rightarrow> int" where
  "getScore s c = (if c = White then whiteScore s else if c = Black then blackScore s else 0)"

section \<open>The move log\<close>

record move_entry =
  timestamp :: string
  notation_of :: string

record move_log_observer =
  whiteMoves :: "move_entry list"
  blackMoves :: "move_entry list"
  boardHeight :: int

definition newMoveLogObserver :: "int \<Rightarrow> move_log_observer" where
  "newMoveLogObserver h = \<lparr>whiteMoves = [], blackMoves = [], boardHeight = h\<rparr>"

definition pieceLetter :: "kind \<Rightarrow> string" where
  "pieceLetter k = (case k of King \<Rightarrow> ''K'' | Queen \<Rightarrow> ''Q'' | Rook \<Rightarrow> ''R'' | Bishop \<Rightarrow> ''B''
     | Knight \<Rightarrow> ''N'' | _ \<Rightarrow> [])"

definition fileLetter :: "int \<Rightarrow> string" where
  "fileLetter c = [char_of (97 + c)]"

definition describe :: "int \<Rightarrow> piece \<Rightarrow> position \<Rightarrow> position \<Rightarrow> bool \<Rightarrow> string" where
  "describe height mover from to wasCapture =
     pieceLetter (getKind mover) @
     (if getKind mover = Pawn \<and> wasCapture then fileLetter (col from) else []) @
     (if wasCapture then ''x'' else []) @
     fileLetter (col to) @ showInt (height - row to)"

definition formatElapsed :: "int \<Rightarrow> string" where
  "formatElapsed gameClockMs =
     (let minutes = gameClockMs sdiv 60000;
          seconds = (gameClockMs sdiv 1000) smod 60;
          millis = gameClockMs smod 1000
      in padLeft CHR ''0'' 2 (showInt minutes) @ '':'' @ padLeft CHR ''0'' 2 (showInt seconds) @ ''.'' @
         padLeft CHR ''0'' 3 (showInt millis))"

text \<open>The second component is the call of \<open>onNewEntry\<close>, if one is made.\<close>

definition logMoveCompleted :: "piece \<Rightarrow> position \<Rightarrow> position \<Rightarrow> bool \<Rightarrow> int \<Rightarrow> move_log_observer \<Rightarrow>
    move_log_observer \<times> (color \<times> move_entry) option" where
  "logMoveCompleted mover from to wasCapture gameClockMs lo =
     (let entry = \<lparr>timestamp = formatElapsed gameClockMs,
                   notation_of = describe (boardHeight lo) mover from to wasCapture\<rparr>;
          c = getColor mover
      in if c = White then (lo\<lparr>whiteMoves := whiteMoves lo @ [entry]\<rparr>, Some (c, entry))
         else if c = Black then (lo\<lparr>blackMoves := blackMoves lo @ [entry]\<rparr>, Some (c, entry))
         else (lo, None))"

definition getMoves :: "move_log_observer \<Rightarrow> color \<Rightarrow> move_entry list" where
  "getMoves lo c = (if c = White then whiteMoves lo else if c = Black then blackMoves lo else [])"

section \<open>Capture events\<close>

record capture_event =
  ce_kind :: kind
  ce_color :: color
  ce_cell :: position
  ce_capturedPieceId :: int
  ce_capturingPieceId :: int
  ce_collisionCell :: position
  ce_impactProgress :: rat

definition captureEventOf :: "piece \<Rightarrow> capture_impact \<Rightarrow> capture_event" where
  "captureEventOf captured impact =
     \<lparr>ce_kind = getKind captured, ce_color = getColor captured, ce_cell = getCell captured,
      ce_capturedPieceId = getId captured, ce_capturingPieceId = capturingPieceId impact,
      ce_collisionCell = collisionCell impact, ce_impactProgress = impactProgress impact\<rparr>"

section \<open>What the observers add up to\<close>

fun scoreOf :: "notification list \<Rightarrow> score_observer \<Rightarrow> score_observer" where
  "scoreOf [] s = s"
| "scoreOf (PieceCaptured p im # ns) s = scoreOf ns (scorePieceCaptured p s)"
| "scoreOf (MoveCompleted p f t c k # ns) s = scoreOf ns s"

definition valueOf :: "color \<Rightarrow> piece list \<Rightarrow> int" where
  "valueOf c ps = sum_list (map (\<lambda>p. pieceValue (getKind p)) (filter (\<lambda>p. getColor p = c) ps))"

lemma scoreOf_captures:
  "whiteScore (scoreOf ns s) = whiteScore s + valueOf Black (capturesOf ns)"
  "blackScore (scoreOf ns s) = blackScore s + valueOf White (capturesOf ns)"
  by (induction ns s rule: scoreOf.induct) (auto simp: scorePieceCaptured_def valueOf_def Let_def)

lemma pieceValue_nonneg [simp]: "0 \<le> pieceValue k"
  by (cases k) (simp_all add: pieceValue_def)

lemma valueOf_nonneg: "0 \<le> valueOf c ps"
  by (auto simp: valueOf_def intro!: sum_list_nonneg)

lemma valueOf_append [simp]: "valueOf c (ps @ qs) = valueOf c ps + valueOf c qs"
  by (simp add: valueOf_def)

section \<open>The clock format\<close>

lemma showNat_small: "n < 10 \<Longrightarrow> showNat n = [char_of (48 + n)]"
  by (simp add: showNat.simps [of n])

lemma length_showNat: "n < 10 ^ Suc k \<Longrightarrow> length (showNat n) \<le> Suc k"
proof (induction k arbitrary: n)
  case 0
  then show ?case by (simp add: showNat_small)
next
  case (Suc k)
  show ?case
  proof (cases "n < 10")
    case True
    then show ?thesis by (simp add: showNat_small)
  next
    case False
    have "n div 10 < 10 ^ Suc k" using Suc.prems by (simp add: div_less_iff_less_mult)
    then show ?thesis using Suc.IH [of "n div 10"] False by (simp add: showNat.simps [of n])
  qed
qed

lemma length_padLeft: "length s \<le> w \<Longrightarrow> length (padLeft c w s) = w"
  by (simp add: padLeft_def)

lemma formatElapsed_length:
  assumes "0 \<le> t" "t < 6000000"
  shows "length (formatElapsed t) = 9" and "formatElapsed t ! 2 = CHR '':''" and "formatElapsed t ! 5 = CHR ''.''"
proof -
  have div: "t sdiv k = t div k" "t smod k = t mod k" if "0 < k" for k
    using that assms by (simp_all add: signed_divide_int_def signed_modulo_int_def sgn_if minus_div_mult_eq_mod)
  have s: "0 \<le> t div 1000" using assms by (simp add: pos_imp_zdiv_nonneg_iff)
  have mn: "0 \<le> t div 60000" "t div 60000 < 100" using assms by (auto simp: pos_imp_zdiv_nonneg_iff)
  have sm: "(t div 1000) smod 60 = t div 1000 mod 60"
    using s by (simp add: signed_modulo_int_def signed_divide_int_def sgn_if minus_div_mult_eq_mod)
  have len: "length (padLeft CHR ''0'' (Suc k) (showInt i)) = Suc k" if "0 \<le> i" "i < 10 ^ Suc k" for i :: int and k
  proof (rule length_padLeft)
    have "nat i < 10 ^ Suc k" using that by (simp add: nat_less_iff)
    then show "length (showInt i) \<le> Suc k" using that length_showNat [of "nat i" k] by (simp add: showInt_def)
  qed
  have 1: "length (padLeft CHR ''0'' 2 (showInt (t div 60000))) = 2"
    using len [of "t div 60000" 1] mn by (simp add: numeral_2_eq_2)
  have 2: "length (padLeft CHR ''0'' 2 (showInt (t div 1000 mod 60))) = 2"
    using len [of "t div 1000 mod 60" 1] pos_mod_bound [of 60 "t div 1000"] by (simp add: numeral_2_eq_2)
  have 3: "length (padLeft CHR ''0'' 3 (showInt (t mod 1000))) = 3"
    using len [of "t mod 1000" 2] by (simp add: numeral_3_eq_3)
  show "length (formatElapsed t) = 9" and "formatElapsed t ! 2 = CHR '':''" and "formatElapsed t ! 5 = CHR ''.''"
    using 1 2 3 by (simp_all add: formatElapsed_def Let_def div sm nth_append)
qed

end
