(* ===== verification/Engine.thy ===== *)
theory Engine
  imports Rules Tick_Order Observers
begin

text \<open>
  The game engine (\<open>server/engine/GameEngine.cpp\<close>, \<open>shared/engine/GameSnapshot.h\<close>,
  \<open>shared/model/GameState.h\<close>): move and jump requests, the passage of time, premoves queued
  while a piece rests, and the snapshot sent to clients. The board of the game state is the
  board of the arbiter, which holds a reference to it.
\<close>

section \<open>State and operations\<close>

record move_result =
  is_accepted :: bool
  mr_reason :: string

abbreviation Result :: "bool \<Rightarrow> string \<Rightarrow> move_result" where
  "Result ok why \<equiv> \<lparr>is_accepted = ok, mr_reason = why\<rparr>"

record premove =
  pm_from :: position
  pm_to :: position

record game_engine =
  game_over :: bool
  eng_arbiter :: arbiter
  simultaneousMode :: bool
  premoves :: "(int, premove) umap"

abbreviation eng_board :: "game_engine \<Rightarrow> board" where
  "eng_board e \<equiv> arb_board (eng_arbiter e)"

abbreviation clock :: "game_engine \<Rightarrow> int" where
  "clock e \<equiv> game_clock_ms (eng_arbiter e)"

definition newEngine :: "board \<Rightarrow> bool \<Rightarrow> game_engine" where
  "newEngine b simultaneous = \<lparr>game_over = False, eng_arbiter = newArbiter b simultaneous,
     simultaneousMode = simultaneous, premoves = []\<rparr>"

definition hasMotionOnPath :: "game_engine \<Rightarrow> position \<Rightarrow> position \<Rightarrow> bool" where
  "hasMotionOnPath e from to =
     list_ex (\<lambda>m. m_from m = from \<or> (m_from m \<noteq> m_to m \<and> m_to m = to)) (active_motions (eng_arbiter e))"

text \<open>The second half of \<open>requestMove\<close>: validation and the start of the motion.\<close>

definition startMove :: "position \<Rightarrow> position \<Rightarrow> game_engine \<Rightarrow> move_result \<times> game_engine" where
  "startMove from to e =
     (let validation = validateMove (eng_board e) from to (simultaneousMode e) in
      if \<not> is_valid validation then (Result False (reason validation), e)
      else let (ok, a) = addMotion from to (getId (slot (eng_board e) from)) (eng_arbiter e)
           in if \<not> ok then (Result False ''friendly_blocked'', e\<lparr>eng_arbiter := a\<rparr>)
              else (Result True ''ok'', e\<lparr>eng_arbiter := a\<rparr>))"

definition requestMove :: "position \<Rightarrow> position \<Rightarrow> game_engine \<Rightarrow> move_result \<times> game_engine" where
  "requestMove from to e =
     (if game_over e then (Result False ''game_over'', e)
      else if simultaneousMode e then
        (case getPiece (eng_board e) from of
           None \<Rightarrow> startMove from to e
         | Some piece \<Rightarrow>
             if isBusyState (getState piece) then (Result False ''motion_in_progress'', e)
             else if isRestingState (getState piece) then
               let validation = validateMove (eng_board e) from to (simultaneousMode e) in
               if \<not> is_valid validation
               then (Result False (reason validation), e\<lparr>premoves := AList.delete (getId piece) (premoves e)\<rparr>)
               else (Result True ''queued'',
                     e\<lparr>premoves := AList.update (getId piece) \<lparr>pm_from = from, pm_to = to\<rparr> (premoves e)\<rparr>)
             else startMove from to e)
      else if hasMotionOnPath e from to then (Result False ''motion_in_progress'', e)
      else startMove from to e)"

definition requestJump :: "position \<Rightarrow> game_engine \<Rightarrow> move_result \<times> game_engine" where
  "requestJump pos e =
     (if game_over e then (Result False ''game_over'', e)
      else if (case getPiece (eng_board e) pos of None \<Rightarrow> False
               | Some piece \<Rightarrow> isPieceBusy (eng_arbiter e) (getId piece))
        then (Result False ''motion_in_progress'', e)
      else let validation = validateJump (eng_board e) pos in
           if \<not> is_valid validation then (Result False (reason validation), e)
           else (Result True ''ok'',
                 e\<lparr>eng_arbiter := addJump pos (getId (slot (eng_board e) pos)) (eng_arbiter e)\<rparr>))"

text \<open>
  \<open>premoves[pieceId]\<close> of a missing key would insert a zero-initialised premove; the identifiers
  come from the map itself, so that never happens.
\<close>

definition firePremove :: "int \<Rightarrow> game_engine \<Rightarrow> game_engine" where
  "firePremove pieceId e =
     (let pm = (case map_of (premoves e) pieceId of Some pm \<Rightarrow> pm
                | None \<Rightarrow> \<lparr>pm_from = Pos 0 0, pm_to = Pos 0 0\<rparr>);
          e1 = e\<lparr>premoves := AList.delete pieceId (premoves e)\<rparr>
      in if \<not> is_valid (validateMove (eng_board e1) (pm_from pm) (pm_to pm) (simultaneousMode e1)) then e1
         else case getPiece (eng_board e1) (pm_from pm) of
                None \<Rightarrow> e1
              | Some piece \<Rightarrow>
                  e1\<lparr>eng_arbiter := snd (addMotion (pm_from pm) (pm_to pm) (getId piece) (eng_arbiter e1))\<rparr>)"

definition readyPremoves :: "(nat \<Rightarrow> nat list) \<Rightarrow> game_engine \<Rightarrow> int list" where
  "readyPremoves ord e =
     map fst (filter (\<lambda>(i, pm). case getPieceById (eng_board e) i of None \<Rightarrow> False
                      | Some piece \<Rightarrow> getState piece = Idle) (iter ord (premoves e)))"

definition firePremoves :: "(nat \<Rightarrow> nat list) \<Rightarrow> game_engine \<Rightarrow> game_engine" where
  "firePremoves ord e = fold firePremove (readyPremoves ord e) e"

definition wait :: "orders \<Rightarrow> int \<Rightarrow> game_engine \<Rightarrow> game_engine" where
  "wait ords ms e =
     (let (a, kingCaptured) = tick ords ms (eng_arbiter e);
          e1 = e\<lparr>eng_arbiter := a\<rparr>;
          e2 = (if kingCaptured then e1\<lparr>game_over := True\<rparr> else e1)
      in firePremoves (ords 2) e2)"

definition legalDestinationsFrom :: "game_engine \<Rightarrow> position \<Rightarrow> position list" where
  "legalDestinationsFrom e pos =
     (case getPiece (eng_board e) pos of
        None \<Rightarrow> []
      | Some piece \<Rightarrow>
          if getColor piece = NoColor then []
          else legalDestinations (eng_board e) piece (simultaneousMode e))"

section \<open>The snapshot\<close>

record snapshot_piece =
  sp_id :: int
  sp_kind :: kind
  sp_color :: color
  sp_cell :: position
  sp_state :: state
  elapsed_in_state_ms :: int
  targetCell :: position
  travelProgress :: rat
  restProgress :: rat

record game_snapshot =
  board_width :: int
  board_height :: int
  pieces :: "snapshot_piece list"
  snap_game_over :: bool
  has_selection :: bool
  selected_cell :: position
  legalMoves :: "position list"

definition snapshotPiece :: "arbiter \<Rightarrow> position \<Rightarrow> piece \<Rightarrow> snapshot_piece" where
  "snapshotPiece a cell piece =
     (let (target, progress) =
        (case find (\<lambda>m. piece_id m = getId piece) (active_motions a) of
           None \<Rightarrow> (cell, 0)
         | Some m \<Rightarrow>
             let duration = arrival_time_ms m - start_time_ms m
             in (m_to m, if duration > 0 then of_int (game_clock_ms a - start_time_ms m) / of_int duration else 0));
        elapsed = game_clock_ms a - getStateStartMs a (getId piece) (getState piece);
        rest = (if getState piece = ShortRest then min 1 (of_int elapsed / of_int SHORT_REST_MS)
                else if getState piece = LongRest then min 1 (of_int elapsed / of_int LONG_REST_MS)
                else 0)
      in \<lparr>sp_id = getId piece, sp_kind = getKind piece, sp_color = getColor piece, sp_cell = cell,
          sp_state = getState piece, elapsed_in_state_ms = elapsed, targetCell = target,
          travelProgress = progress, restProgress = rest\<rparr>)"

definition snapshot :: "game_engine \<Rightarrow> game_snapshot" where
  "snapshot e =
     (let b = eng_board e in
      \<lparr>board_width = getWidth b, board_height = getHeight b,
       pieces = concat (map (\<lambda>r. concat (map (\<lambda>c.
          (case getPiece b (Pos r c) of
             None \<Rightarrow> []
           | Some piece \<Rightarrow>
               if getKind piece = NoKind then [] else [snapshotPiece (eng_arbiter e) (Pos r c) piece]))
          [0..getWidth b - 1])) [0..getHeight b - 1]),
       snap_game_over = game_over e, has_selection = False, selected_cell = Pos 0 0, legalMoves = []\<rparr>)"

section \<open>The invariant of the engine\<close>

definition engine_ok :: "game_engine \<Rightarrow> bool" where
  "engine_ok e \<longleftrightarrow> arbiter_ok (eng_arbiter e) \<and>
     (\<forall>m \<in> set (active_motions (eng_arbiter e)). clock e < arrival_time_ms m) \<and>
     distinct (map fst (premoves e)) \<and>
     collisionEnabled (eng_arbiter e) = simultaneousMode e"

lemma engine_okD:
  assumes "engine_ok e"
  shows "arbiter_ok (eng_arbiter e)" "board_wf (eng_board e)" "board_shape (eng_board e)"
    "m \<in> set (active_motions (eng_arbiter e)) \<Longrightarrow> clock e < arrival_time_ms m"
    "distinct (map fst (premoves e))" "collisionEnabled (eng_arbiter e) = simultaneousMode e"
  using assms by (auto simp: engine_ok_def arbiter_okD)

text \<open>What every operation keeps besides the invariant.\<close>

definition steady :: "game_engine \<Rightarrow> game_engine \<Rightarrow> bool" where
  "steady e e' \<longleftrightarrow> (engine_ok e \<longrightarrow> engine_ok e' \<and> allIds (eng_arbiter e') = allIds (eng_arbiter e) \<and>
     clock e' = clock e \<and> game_over e' = game_over e \<and> simultaneousMode e' = simultaneousMode e \<and>
     getWidth (eng_board e') = getWidth (eng_board e) \<and> getHeight (eng_board e') = getHeight (eng_board e))"

lemma steady_refl [simp]: "steady e e"
  by (simp add: steady_def)

lemma steady_trans: "steady e f \<Longrightarrow> steady f g \<Longrightarrow> steady e g"
  by (simp add: steady_def)

lemma steady_premoves:
  assumes "engine_ok e \<Longrightarrow> distinct (map fst pm)"
  shows "steady e (e\<lparr>premoves := pm\<rparr>)"
  using assms by (simp add: steady_def engine_ok_def)

lemma steady_arbiter:
  assumes "engine_ok e \<Longrightarrow> evolves (eng_arbiter e) a"
    and "\<And>m. engine_ok e \<Longrightarrow> m \<in> set (active_motions a) \<Longrightarrow> game_clock_ms a < arrival_time_ms m"
  shows "steady e (e\<lparr>eng_arbiter := a\<rparr>)"
  using assms by (auto simp: steady_def engine_ok_def evolves_def)

lemma valid_move_facts:
  assumes "is_valid (validateMove b from to relaxed)" "board_wf b"
  shows "isWithinBounds b from" "isWithinBounds b to" "from \<noteq> to" "getKind (slot b from) \<noteq> NoKind"
proof -
  note v = validateMove_validD [OF assms(1)]
  show w: "isWithinBounds b from" "isWithinBounds b to" by (rule v)+
  have "getCell (slot b from) = from" using board_wfD(2) [OF assms(2) w(1)] .
  then show "from \<noteq> to" using legalDestinations_dest(2) [OF v(4)] by auto
  show "getKind (slot b from) \<noteq> NoKind"
    using board_wfD(3) [OF assms(2) w(1)] v(3) by (auto simp: piece_ok_def)
qed

lemma steady_addMotion:
  assumes "is_valid (validateMove (eng_board e) from to relaxed)"
  shows "steady e (e\<lparr>eng_arbiter := snd (addMotion from to (getId (slot (eng_board e) from)) (eng_arbiter e))\<rparr>)"
proof (rule steady_arbiter)
  assume ok: "engine_ok e"
  note f = valid_move_facts [OF assms engine_okD(2) [OF ok]]
  note laws = addMotion_laws [OF engine_okD(1) [OF ok] f]
  show "evolves (eng_arbiter e) (snd (addMotion from to (getId (slot (eng_board e) from)) (eng_arbiter e)))"
    by (rule laws(1))
  fix m
  assume "m \<in> set (active_motions (snd (addMotion from to (getId (slot (eng_board e) from)) (eng_arbiter e))))"
  then show "game_clock_ms (snd (addMotion from to (getId (slot (eng_board e) from)) (eng_arbiter e))) < arrival_time_ms m"
    using laws(2) engine_okD(4) [OF ok] by blast
qed

lemma startMove_eq:
  "startMove from to e =
    (if \<not> is_valid (validateMove (eng_board e) from to (simultaneousMode e))
     then (Result False (reason (validateMove (eng_board e) from to (simultaneousMode e))), e)
     else (let r = addMotion from to (getId (slot (eng_board e) from)) (eng_arbiter e)
           in (if fst r then Result True ''ok'' else Result False ''friendly_blocked'', e\<lparr>eng_arbiter := snd r\<rparr>)))"
  by (simp add: startMove_def Let_def case_prod_beta)

lemma steady_startMove: "steady e (snd (startMove from to e))"
  by (simp add: startMove_eq Let_def steady_addMotion)

lemma steady_requestMove: "steady e (snd (requestMove from to e))"
proof -
  have "steady e (e\<lparr>premoves := AList.delete i (premoves e)\<rparr>)"
    "steady e (e\<lparr>premoves := AList.update i pm (premoves e)\<rparr>)" for i pm
    by (rule steady_premoves, simp add: engine_okD distinct_delete distinct_update)+
  then show ?thesis
    by (auto simp: requestMove_def Let_def steady_startMove split: option.split)
qed

lemma steady_requestJump: "steady e (snd (requestJump pos e))"
proof -
  have "steady e (e\<lparr>eng_arbiter := addJump pos (getId (slot (eng_board e) pos)) (eng_arbiter e)\<rparr>)"
    if v: "is_valid (validateJump (eng_board e) pos)"
  proof (rule steady_arbiter)
    assume ok: "engine_ok e"
    have w: "isWithinBounds (eng_board e) pos" "getColor (slot (eng_board e) pos) \<noteq> NoColor"
      using v by (simp_all add: validateJump_valid_iff)
    then have real: "getKind (slot (eng_board e) pos) \<noteq> NoKind"
      using board_wfD(3) [OF engine_okD(2) [OF ok], of pos] by (auto simp: piece_ok_def)
    note laws = addJump_laws [OF engine_okD(1) [OF ok] w(1) real]
    show "evolves (eng_arbiter e) (addJump pos (getId (slot (eng_board e) pos)) (eng_arbiter e))" by (rule laws(1))
    fix m assume "m \<in> set (active_motions (addJump pos (getId (slot (eng_board e) pos)) (eng_arbiter e)))"
    then show "game_clock_ms (addJump pos (getId (slot (eng_board e) pos)) (eng_arbiter e)) < arrival_time_ms m"
      using laws(2) engine_okD(4) [OF ok] by blast
  qed
  then show ?thesis by (auto simp: requestJump_def Let_def split: option.split)
qed

lemma steady_firePremove: "steady e (firePremove i e)"
proof -
  let ?e = "e\<lparr>premoves := AList.delete i (premoves e)\<rparr>"
  have 1: "steady e ?e" by (rule steady_premoves) (simp add: engine_okD distinct_delete)
  have 2: "steady e (?e\<lparr>eng_arbiter := snd (addMotion f t (getId (slot (eng_board e) f)) (eng_arbiter e))\<rparr>)"
    if "is_valid (validateMove (eng_board e) f t (simultaneousMode e))" for f t
    using steady_trans [OF 1 steady_addMotion [of ?e f t "simultaneousMode e"]] that by simp
  show ?thesis
    using 1 2 by (auto simp: firePremove_def Let_def getPiece_def)
qed

lemma steady_firePremoves: "steady e (firePremoves ord e)"
proof -
  have "steady e (fold firePremove is e)" for "is"
    by (induction "is" arbitrary: e) (auto intro: steady_trans steady_firePremove)
  then show ?thesis by (simp add: firePremoves_def)
qed

lemma wait_eq:
  "wait ords ms e = firePremoves (ords 2)
    (e\<lparr>eng_arbiter := fst (tick ords ms (eng_arbiter e)),
       game_over := (game_over e \<or> snd (tick ords ms (eng_arbiter e)))\<rparr>)"
  by (auto simp: wait_def Let_def case_prod_beta)

lemma wait_laws:
  fixes ords :: orders and e :: game_engine
  assumes ok: "engine_ok e" and ms: "0 \<le> ms" and ords: "orders_ok ords"
  defines "e' \<equiv> wait ords ms e"
  shows "engine_ok e'" "clock e' = clock e + ms" "allIds (eng_arbiter e') = allIds (eng_arbiter e)"
    "game_over e' \<longleftrightarrow> game_over e \<or> snd (tick ords ms (eng_arbiter e))" "simultaneousMode e' = simultaneousMode e"
    "getWidth (eng_board e') = getWidth (eng_board e)" "getHeight (eng_board e') = getHeight (eng_board e)"
proof -
  let ?t = "tick ords ms (eng_arbiter e)"
  let ?e1 = "e\<lparr>eng_arbiter := fst ?t, game_over := (game_over e \<or> snd ?t)\<rparr>"
  note laws = tick_laws [OF engine_okD(1) [OF ok] ms ords]
  have "engine_ok ?e1"
    using laws(1,4,7) engine_okD(5,6) [OF ok] by (auto simp: engine_ok_def)
  moreover have "e' = firePremoves (ords 2) ?e1" by (simp add: e'_def wait_eq)
  ultimately show "engine_ok e'" "clock e' = clock e + ms" "allIds (eng_arbiter e') = allIds (eng_arbiter e)"
    "game_over e' \<longleftrightarrow> game_over e \<or> snd ?t" "simultaneousMode e' = simultaneousMode e"
    "getWidth (eng_board e') = getWidth (eng_board e)" "getHeight (eng_board e') = getHeight (eng_board e)"
    using steady_firePremoves [of ?e1 "ords 2"] laws(2,3,5,6) by (simp_all add: steady_def)
qed

section \<open>Runs of the engine\<close>

datatype engine_event =
    MoveRequest position position
  | JumpRequest position
  | Elapse orders int

fun engine_step :: "engine_event \<Rightarrow> game_engine \<Rightarrow> game_engine" where
  "engine_step (MoveRequest from to) e = snd (requestMove from to e)"
| "engine_step (JumpRequest pos) e = snd (requestJump pos e)"
| "engine_step (Elapse ords ms) e = wait ords ms e"

fun event_ok :: "engine_event \<Rightarrow> bool" where
  "event_ok (MoveRequest from to) = True"
| "event_ok (JumpRequest pos) = True"
| "event_ok (Elapse ords ms) = (0 \<le> ms \<and> orders_ok ords)"

lemma engine_step_laws:
  assumes "engine_ok e" "event_ok ev"
  shows "engine_ok (engine_step ev e)" "clock e \<le> clock (engine_step ev e)"
    "allIds (eng_arbiter (engine_step ev e)) = allIds (eng_arbiter e)"
    "game_over e \<Longrightarrow> game_over (engine_step ev e)"
    "getWidth (eng_board (engine_step ev e)) = getWidth (eng_board e)"
    "getHeight (eng_board (engine_step ev e)) = getHeight (eng_board e)"
  using assms steady_requestMove steady_requestJump wait_laws
  by (cases ev; auto simp: steady_def)+

interpretation engine: monotone_steps engine_step engine_ok event_ok "\<lambda>e. game_clock_ms (eng_arbiter e)"
  by unfold_locales (auto intro: engine_step_laws)

lemma engine_run_ids:
  assumes "engine_ok e" "list_all event_ok evs"
  shows "allIds (eng_arbiter (fold engine_step evs e)) = allIds (eng_arbiter e)"
  using assms
proof (induction evs arbitrary: e)
  case Nil
  then show ?case by simp
next
  case (Cons ev evs)
  then show ?case using engine_step_laws(1,3) [of e ev] by auto
qed

lemma newEngine_ok:
  assumes "board_wf b" "\<And>q. isWithinBounds b q \<Longrightarrow> getState (slot b q) = Idle"
  shows "engine_ok (newEngine b s)" "live (eng_arbiter (newEngine b s))" "allIds (eng_arbiter (newEngine b s)) = boardIds b"
  using newArbiter_ok [OF assms] by (simp_all add: engine_ok_def newEngine_def newArbiter_def)

end
