(* ===== verification/Board_IO.thy ===== *)
theory Board_IO
  imports Engine
begin

text \<open>
  Board text (\<open>server/io/BoardParser.cpp\<close>, \<open>BoardPrinter.cpp\<close>) and the starting position
  (\<open>server/app/logic/StartingBoard.cpp\<close>). An input stream is the string that is still to be
  read. The static identifier counter of \<open>createPiece\<close> is an argument and part of the result.
  A thrown \<open>std::runtime_error\<close> is its message on the left of a sum.
\<close>

section \<open>Streams\<close>

abbreviation newline :: char where "newline \<equiv> CHR 0x0A"
abbreviation carriageReturn :: char where "carriageReturn \<equiv> CHR 0x0D"

definition isSpace :: "char \<Rightarrow> bool" where
  "isSpace c \<longleftrightarrow> c = CHR '' '' \<or> c \<in> set [CHR 0x09, CHR 0x0A, CHR 0x0B, CHR 0x0C, CHR 0x0D]"

definition getline :: "string \<Rightarrow> (string \<times> string) option" where
  "getline s = (if s = [] then None
     else Some (takeWhile (\<lambda>c. c \<noteq> newline) s, drop 1 (dropWhile (\<lambda>c. c \<noteq> newline) s)))"

definition stripCR :: "string \<Rightarrow> string" where
  "stripCR line = (if line \<noteq> [] \<and> last line = carriageReturn then butlast line else line)"

lemma getline_shorter: "getline s = Some (l, r) \<Longrightarrow> length r < length s"
proof -
  assume "getline s = Some (l, r)"
  then have "s \<noteq> []" "r = drop 1 (dropWhile (\<lambda>c. c \<noteq> newline) s)" by (auto simp: getline_def split: if_splits)
  moreover have "length (dropWhile (\<lambda>c. c \<noteq> newline) s) \<le> length s" by (rule length_dropWhile_le)
  ultimately show ?thesis by (cases s) (auto split: if_splits)
qed

function splitLine :: "string \<Rightarrow> string list" where
  "splitLine line =
     (let s = dropWhile isSpace line in
      if s = [] then []
      else takeWhile (\<lambda>c. \<not> isSpace c) s # splitLine (dropWhile (\<lambda>c. \<not> isSpace c) s))"
  by pat_completeness auto
termination
proof (relation "measure length", simp)
  fix line s :: string
  assume s: "s = dropWhile isSpace line" and ne: "s \<noteq> []"
  have "\<not> isSpace (hd s)" using hd_dropWhile [of isSpace line] s ne by simp
  then have "length (dropWhile (\<lambda>c. \<not> isSpace c) s) < length s"
    using ne length_dropWhile_le [of "\<lambda>c. \<not> isSpace c" "tl s"] by (cases s) auto
  also have "\<dots> \<le> length line" unfolding s by (rule length_dropWhile_le)
  finally show "(dropWhile (\<lambda>c. \<not> isSpace c) s, line) \<in> measure length" by simp
qed

declare splitLine.simps [simp del]

section \<open>The parser\<close>

definition isValidToken :: "string \<Rightarrow> bool" where
  "isValidToken t =
     (if t = ''.'' then True
      else if length t \<noteq> 2 then False
      else (t ! 0 = CHR ''w'' \<or> t ! 0 = CHR ''b'') \<and>
           (t ! 1 = CHR ''K'' \<or> t ! 1 = CHR ''Q'' \<or> t ! 1 = CHR ''R'' \<or>
            t ! 1 = CHR ''B'' \<or> t ! 1 = CHR ''N'' \<or> t ! 1 = CHR ''P''))"

definition createPiece :: "string \<Rightarrow> position \<Rightarrow> int \<Rightarrow> string + (piece \<times> int)" where
  "createPiece token pos idCounter =
     (let c = (if token ! 0 = CHR ''w'' then White else Black);
          mk = (\<lambda>k. Inr (mkPiece idCounter c k pos Idle, idCounter + 1))
      in if token ! 1 = CHR ''P'' then mk Pawn
         else if token ! 1 = CHR ''R'' then mk Rook
         else if token ! 1 = CHR ''N'' then mk Knight
         else if token ! 1 = CHR ''B'' then mk Bishop
         else if token ! 1 = CHR ''Q'' then mk Queen
         else if token ! 1 = CHR ''K'' then mk King
         else Inl ''ERROR UNKNOWN_TOKEN'')"

text \<open>The reading loop: the rows collected so far, and at the end the rest of the input.\<close>

function readRows :: "string list list \<Rightarrow> string \<Rightarrow> string + (string list list \<times> string)" where
  "readRows gridTokens input =
     (case getline input of
        None \<Rightarrow> Inr (gridTokens, input)
      | Some (line, rest) \<Rightarrow>
          let tokens = splitLine (stripCR line) in
          if tokens = [] then readRows gridTokens rest
          else if tokens ! 0 = ''Commands:'' then Inr (gridTokens, rest)
          else if tokens ! 0 = ''Board:'' then readRows gridTokens rest
          else if gridTokens \<noteq> [] \<and> length tokens \<noteq> length (gridTokens ! 0)
            then Inl ''ERROR ROW_WIDTH_MISMATCH''
          else if \<not> list_all isValidToken tokens then Inl ''ERROR UNKNOWN_TOKEN''
          else readRows (gridTokens @ [tokens]) rest)"
  by pat_completeness auto
termination
  by (relation "measure (\<lambda>(g, i). length i)") (auto dest: getline_shorter)

declare readRows.simps [simp del]

definition placeToken :: "string list list \<Rightarrow> position \<Rightarrow> string + (board \<times> int) \<Rightarrow> string + (board \<times> int)" where
  "placeToken gridTokens pos acc =
     (case acc of
        Inl e \<Rightarrow> Inl e
      | Inr (b, idCounter) \<Rightarrow>
          let token = gridTokens ! nat (row pos) ! nat (col pos) in
          if token = ''.'' then Inr (b, idCounter)
          else case createPiece token pos idCounter of
                 Inl e \<Rightarrow> Inl e
               | Inr (piece, next) \<Rightarrow> Inr (addPiece piece pos b, next))"

definition cellsOf :: "int \<Rightarrow> int \<Rightarrow> position list" where
  "cellsOf height width = concat (map (\<lambda>r. map (Pos r) [0..width - 1]) [0..height - 1])"

definition buildBoard :: "string list list \<Rightarrow> int \<Rightarrow> string + (board \<times> int)" where
  "buildBoard gridTokens idCounter =
     (let height = int (length gridTokens); width = int (length (gridTokens ! 0))
      in fold (placeToken gridTokens) (cellsOf height width) (Inr (newBoard width height, idCounter)))"

text \<open>The result: the board, the new value of the counter and the rest of the input.\<close>

definition parseBoardOnly :: "string \<Rightarrow> int \<Rightarrow> string + (board \<times> int \<times> string)" where
  "parseBoardOnly input idCounter =
     (case readRows [] input of
        Inl e \<Rightarrow> Inl e
      | Inr (gridTokens, rest) \<Rightarrow>
          if gridTokens = [] then Inl ''ERROR EMPTY_BOARD''
          else case buildBoard gridTokens idCounter of
                 Inl e \<Rightarrow> Inl e
               | Inr (b, next) \<Rightarrow> Inr (b, next, rest))"

definition startingBoardText :: string where
  "startingBoardText = concat (map (\<lambda>l. l @ [newline])
     [''Board:'', ''bR bN bB bQ bK bB bN bR'', ''bP bP bP bP bP bP bP bP'',
      ''. . . . . . . .'', ''. . . . . . . .'', ''. . . . . . . .'', ''. . . . . . . .'',
      ''wP wP wP wP wP wP wP wP'', ''wR wN wB wQ wK wB wN wR'', ''Commands:''])"

definition makeStartingBoard :: "int \<Rightarrow> string + (board \<times> int \<times> string)" where
  "makeStartingBoard idCounter = parseBoardOnly startingBoardText idCounter"

section \<open>The printer\<close>

definition kindLetter :: "kind \<Rightarrow> string" where
  "kindLetter k = (case k of Pawn \<Rightarrow> ''P'' | Rook \<Rightarrow> ''R'' | Knight \<Rightarrow> ''N'' | Bishop \<Rightarrow> ''B''
     | Queen \<Rightarrow> ''Q'' | King \<Rightarrow> ''K'' | NoKind \<Rightarrow> [])"

definition printPieceToken :: "color \<Rightarrow> kind \<Rightarrow> string" where
  "printPieceToken c k = (if c = White then ''w'' else ''b'') @ kindLetter k"

definition printGrid :: "int \<Rightarrow> int \<Rightarrow> (position \<Rightarrow> string) \<Rightarrow> string" where
  "printGrid height width cell =
     concat (map (\<lambda>r. concat (map (\<lambda>c. cell (Pos r c) @ (if c < width - 1 then '' '' else [])) [0..width - 1]) @
       [newline]) [0..height - 1])"

definition printBoard :: "board \<Rightarrow> string" where
  "printBoard b = printGrid (getHeight b) (getWidth b) (\<lambda>pos.
     case getPiece b pos of
       None \<Rightarrow> ''.''
     | Some piece \<Rightarrow> if getKind piece = NoKind then ''.'' else printPieceToken (getColor piece) (getKind piece))"

text \<open>
  The grid of pointers of the snapshot printer: the last piece of the snapshot at a cell. A cell
  outside the grid would be undefined behaviour; the pieces of an engine's snapshot are inside.
\<close>

definition lastPieceAt :: "snapshot_piece list \<Rightarrow> position \<Rightarrow> snapshot_piece option" where
  "lastPieceAt ps pos = find (\<lambda>p. sp_cell p = pos) (rev ps)"

definition printSnapshot :: "game_snapshot \<Rightarrow> string" where
  "printSnapshot snap = printGrid (board_height snap) (board_width snap) (\<lambda>pos.
     case lastPieceAt (pieces snap) pos of
       None \<Rightarrow> ''.''
     | Some piece \<Rightarrow> printPieceToken (sp_color piece) (sp_kind piece))"


section \<open>What the parser builds\<close>

text \<open>The piece a token stands for.\<close>

definition tokenColor :: "string \<Rightarrow> color" where
  "tokenColor t = (if t ! 0 = CHR ''w'' then White else Black)"

definition tokenKind :: "string \<Rightarrow> kind" where
  "tokenKind t = (if t = ''.'' then NoKind
     else if t ! 1 = CHR ''P'' then Pawn else if t ! 1 = CHR ''R'' then Rook
     else if t ! 1 = CHR ''N'' then Knight else if t ! 1 = CHR ''B'' then Bishop
     else if t ! 1 = CHR ''Q'' then Queen else King)"

lemma createPiece_valid:
  assumes "isValidToken t" "t \<noteq> ''.''"
  shows "createPiece t pos n = Inr (mkPiece n (tokenColor t) (tokenKind t) pos Idle, n + 1)"
    and "tokenKind t \<noteq> NoKind"
  using assms by (auto simp: createPiece_def isValidToken_def tokenColor_def tokenKind_def Let_def split: if_splits)

text \<open>
  The board after the cells in \<open>done\<close> were filled: well formed, every piece idle, the pieces on
  the cells of \<open>done\<close> are the ones of the tokens, all other cells are empty, and the identifiers
  are drawn from the counter.
\<close>

definition filled :: "(position \<Rightarrow> string) \<Rightarrow> int \<Rightarrow> position set \<Rightarrow> board \<times> int \<Rightarrow> bool" where
  "filled tok n0 done = (\<lambda>(b, n). board_wf b \<and> n0 \<le> n \<and> (\<forall>i \<in># boardIds b. n0 \<le> i \<and> i < n) \<and>
     (\<forall>q. isWithinBounds b q \<longrightarrow> getState (slot b q) = Idle \<and>
        getKind (slot b q) = (if q \<in> done then tokenKind (tok q) else NoKind) \<and>
        (q \<in> done \<and> tok q \<noteq> ''.'' \<longrightarrow> getColor (slot b q) = tokenColor (tok q))))"

abbreviation tokenAt :: "string list list \<Rightarrow> position \<Rightarrow> string" where
  "tokenAt g pos \<equiv> g ! nat (row pos) ! nat (col pos)"

lemma placeToken_filled:
  assumes f: "filled (tokenAt g) n0 D (b, n)" and n0: "0 < n0"
    and pos: "isWithinBounds b pos" "pos \<notin> D" and tok: "isValidToken (tokenAt g pos)"
  obtains b' n' where "placeToken g pos (Inr (b, n)) = Inr (b', n')" "filled (tokenAt g) n0 (insert pos D) (b', n')"
    "getWidth b' = getWidth b" "getHeight b' = getHeight b"
proof (cases "tokenAt g pos = ''.''")
  case True
  have "filled (tokenAt g) n0 (insert pos D) (b, n)"
    using f pos True by (auto simp: filled_def tokenKind_def)
  then show ?thesis using that [of b n] True by (simp add: placeToken_def)
next
  case False
  let ?x = "mkPiece n (tokenColor (tokenAt g pos)) (tokenKind (tokenAt g pos)) pos Idle"
  note c = createPiece_valid [OF tok False]
  have f': "board_wf b" "n0 \<le> n" "\<And>i. i \<in># boardIds b \<Longrightarrow> i < n" "getKind (slot b pos) = NoKind"
    using f pos by (auto simp: filled_def)
  have x: "getCell ?x = pos" "getId ?x = n" "getKind ?x = tokenKind (tokenAt g pos)" "getState ?x = Idle"
    "getColor ?x = tokenColor (tokenAt g pos)" by (simp_all add: mkPiece_def)
  have pok: "piece_ok ?x" using c(2) x f'(2) n0 by (auto simp: piece_ok_def tokenColor_def)
  have "getId ?x \<notin># boardIds b" using f'(3) [of n] x(2) by auto
  note a = addPiece_wf [OF f'(1) pos(1) f'(4) x(1) pok this]
  have sl: "slot (addPiece ?x pos b) q = (if q = pos then ?x else slot b q)" if "isWithinBounds b q" for q
    by (rule slot_addPiece [OF board_wfD(1) [OF f'(1)] pos(1) that f'(4)])
  have ids: "n0 \<le> i \<and> i < n + 1" if "i \<in># boardIds (addPiece ?x pos b)" for i
    using that f f'(2) x(2) by (auto simp: a(2) filled_def slotId_def split: if_splits)
  have "filled (tokenAt g) n0 (insert pos D) (addPiece ?x pos b, n + 1)"
    using f a(1) ids x unfolding filled_def by (auto simp: sl)
  then show ?thesis using that [of "addPiece ?x pos b" "n + 1"] False c(1) by (simp add: placeToken_def Let_def)
qed

lemma fold_placeToken:
  assumes "filled (tokenAt g) n0 D (b, n)" "0 < n0" "distinct ps" "set ps \<inter> D = {}"
    and "\<And>p. p \<in> set ps \<Longrightarrow> isWithinBounds b p \<and> isValidToken (tokenAt g p)"
  shows "\<exists>b' n'. fold (placeToken g) ps (Inr (b, n)) = Inr (b', n') \<and> filled (tokenAt g) n0 (D \<union> set ps) (b', n') \<and>
    getWidth b' = getWidth b \<and> getHeight b' = getHeight b"
  using assms
proof (induction ps arbitrary: D b n)
  case Nil
  then show ?case by auto
next
  case (Cons p ps)
  obtain b1 n1 where 1: "placeToken g p (Inr (b, n)) = Inr (b1, n1)" "filled (tokenAt g) n0 (insert p D) (b1, n1)"
    "getWidth b1 = getWidth b" "getHeight b1 = getHeight b"
    by (rule placeToken_filled [OF Cons.prems(1,2), of p]) (use Cons.prems in auto)
  have wb: "isWithinBounds b1 q = isWithinBounds b q" for q using 1 by (simp add: isWithinBounds_def)
  have "\<exists>b' n'. fold (placeToken g) ps (Inr (b1, n1)) = Inr (b', n') \<and>
      filled (tokenAt g) n0 (insert p D \<union> set ps) (b', n') \<and> getWidth b' = getWidth b1 \<and> getHeight b' = getHeight b1"
    using Cons.prems 1(2) by (intro Cons.IH) (auto simp: wb)
  moreover have "insert p D \<union> set ps = D \<union> set (p # ps)" by auto
  ultimately show ?case using 1 by (simp only: fold_simps 1(1))
qed

lemma cellsOf_set: "set (cellsOf h w) = {p. 0 \<le> row p \<and> row p < h \<and> 0 \<le> col p \<and> col p < w}"
proof -
  have "p \<in> set (cellsOf h w) \<longleftrightarrow> (\<exists>r c. p = Pos r c \<and> 0 \<le> r \<and> r < h \<and> 0 \<le> c \<and> c < w)" for p
    unfolding cellsOf_def in_concat_map by (force simp: image_iff)
  moreover have "(\<exists>r c. p = Pos r c \<and> 0 \<le> r \<and> r < h \<and> 0 \<le> c \<and> c < w) \<longleftrightarrow>
      0 \<le> row p \<and> row p < h \<and> 0 \<le> col p \<and> col p < w" for p
    by (cases p) auto
  ultimately show ?thesis by blast
qed

lemma sorted_cells: "sorted_wrt (<) (cellsOf h w)"
proof -
  have 1: "sorted_wrt (<) (map (Pos r) [0..w - 1])" for r
    by (simp add: sorted_wrt_map Pos_less_iff)
  have "sorted_wrt (<) (concat (map (\<lambda>r. map (Pos r) [0..w - 1]) rs))" if "sorted_wrt (<) rs" for rs
    using that by (induction rs) (auto simp: sorted_wrt_append 1 Pos_less_iff)
  then show ?thesis by (simp add: cellsOf_def)
qed

lemma cellsOf_distinct: "distinct (cellsOf h w)"
proof -
  have "distinct (concat (map (\<lambda>r. map (Pos r) [0..w - 1]) rs))" if "distinct rs" for rs :: "int list"
    using that by (induction rs) (auto simp: distinct_map inj_on_def)
  then show ?thesis by (simp add: cellsOf_def)
qed

definition rowsOk :: "string list list \<Rightarrow> bool" where
  "rowsOk g \<longleftrightarrow> (\<forall>r \<in> set g. length r = length (g ! 0) \<and> (\<forall>t \<in> set r. isValidToken t))"

lemma buildBoard_filled:
  assumes "rowsOk g" "0 < n0"
  shows "\<exists>b n. buildBoard g n0 = Inr (b, n) \<and> getHeight b = int (length g) \<and> getWidth b = int (length (g ! 0)) \<and>
    filled (tokenAt g) n0 {p. isWithinBounds b p} (b, n)"
proof -
  let ?h = "int (length g)" and ?w = "int (length (g ! 0))"
  let ?b = "newBoard ?w ?h"
  have f0: "filled (tokenAt g) n0 {} (?b, n0)"
    by (simp add: filled_def newBoard_wf slot_newBoard)
  have tok: "isWithinBounds ?b p \<and> isValidToken (tokenAt g p)" if "p \<in> set (cellsOf ?h ?w)" for p
  proof -
    have b: "0 \<le> row p" "row p < ?h" "0 \<le> col p" "col p < ?w" using that by (auto simp: cellsOf_set)
    then have "g ! nat (row p) \<in> set g" by simp
    then have "length (g ! nat (row p)) = length (g ! 0)" "\<forall>t \<in> set (g ! nat (row p)). isValidToken t"
      using assms(1) by (auto simp: rowsOk_def)
    moreover have "nat (col p) < length (g ! 0)" using b by linarith
    ultimately show ?thesis using b by (auto simp: isWithinBounds_def)
  qed
  obtain b n where r: "fold (placeToken g) (cellsOf ?h ?w) (Inr (?b, n0)) = Inr (b, n)"
    and f: "filled (tokenAt g) n0 ({} \<union> set (cellsOf ?h ?w)) (b, n)" and s: "getWidth b = ?w" "getHeight b = ?h"
    using fold_placeToken [OF f0 assms(2) cellsOf_distinct [of ?h ?w] _ tok] by auto
  have "{} \<union> set (cellsOf ?h ?w) = {p. isWithinBounds b p}"
    by (auto simp: cellsOf_set isWithinBounds_def s)
  then show ?thesis using r f s by (auto simp: buildBoard_def)
qed

lemma readRows_ok:
  assumes "readRows g input = Inr (g', rest)" "rowsOk g"
  shows "rowsOk g'"
  using assms
proof (induction g input arbitrary: rule: readRows.induct)
  case (1 g input)
  show ?case
  proof (cases "getline input")
    case None
    then show ?thesis using "1.prems" by (simp add: readRows.simps [of g input])
  next
    case (Some lr)
    obtain line r where lr: "lr = (line, r)" by force
    let ?t = "splitLine (stripCR line)"
    have snoc: "rowsOk (g @ [?t])" if "g \<noteq> [] \<longrightarrow> length ?t = length (g ! 0)" "list_all isValidToken ?t"
      using that "1.prems"(2) by (cases g) (auto simp: rowsOk_def list_all_iff nth_append)
    note IH = "1.IH" [OF Some lr [symmetric] refl]
    show ?thesis
      using "1.prems" IH snoc Some lr
      by (subst (asm) readRows.simps) (auto simp: Let_def split: if_splits)
  qed
qed

theorem parse_well_formed:
  assumes "parseBoardOnly input n0 = Inr (b, n, rest)" "0 < n0"
  shows "board_wf b" "0 < getWidth b \<or> getHeight b > 0" "n0 \<le> n" "\<forall>i \<in># boardIds b. n0 \<le> i \<and> i < n"
    and "isWithinBounds b q \<Longrightarrow> getState (slot b q) = Idle"
proof -
  obtain g where g: "readRows [] input = Inr (g, rest)" "g \<noteq> []" "buildBoard g n0 = Inr (b, n)"
    using assms(1) by (auto simp: parseBoardOnly_def split: sum.splits prod.splits if_splits)
  have "rowsOk g" using readRows_ok [OF g(1)] by (simp add: rowsOk_def)
  then have "getHeight b = int (length g)" "filled (tokenAt g) n0 {p. isWithinBounds b p} (b, n)"
    using buildBoard_filled [OF _ assms(2)] g(3) by fastforce+
  then show "board_wf b" "0 < getWidth b \<or> getHeight b > 0" "n0 \<le> n" "\<forall>i \<in># boardIds b. n0 \<le> i \<and> i < n"
    and "isWithinBounds b q \<Longrightarrow> getState (slot b q) = Idle"
    using g(2) by (auto simp: filled_def)
qed


section \<open>Printing and parsing\<close>

definition solid :: "string \<Rightarrow> bool" where
  "solid t \<longleftrightarrow> t \<noteq> [] \<and> (\<forall>c \<in> set t. \<not> isSpace c)"

lemma splitLine_solid:
  assumes "solid t"
  shows "splitLine t = [t]" and "splitLine (t @ CHR '' '' # s) = t # splitLine s"
proof -
  have hd: "dropWhile isSpace (t @ u) = t @ u" for u
    using assms by (cases t) (auto simp: solid_def)
  have tw: "takeWhile (\<lambda>c. \<not> isSpace c) t = t" "dropWhile (\<lambda>c. \<not> isSpace c) t = []"
    using assms by (auto simp: solid_def)
  have e: "splitLine [] = []" by (simp add: splitLine.simps)
  show "splitLine t = [t]"
    using hd [of "[]"] assms by (subst splitLine.simps) (simp add: tw e solid_def)
  have sp: "isSpace CHR '' ''" by (simp add: isSpace_def)
  have tw': "takeWhile (\<lambda>c. \<not> isSpace c) (t @ CHR '' '' # s) = t"
    "dropWhile (\<lambda>c. \<not> isSpace c) (t @ CHR '' '' # s) = CHR '' '' # s"
    using assms sp by (auto simp: solid_def takeWhile_append dropWhile_append)
  have "splitLine (CHR '' '' # s) = splitLine s"
    using sp by (subst (1 2) splitLine.simps) simp
  then show "splitLine (t @ CHR '' '' # s) = t # splitLine s"
    using assms by (subst splitLine.simps) (simp add: hd tw' solid_def)
qed

definition joinRow :: "string list \<Rightarrow> string" where
  "joinRow ts = concat (map (\<lambda>t. t @ '' '') (butlast ts)) @ last ts"

lemma splitLine_joinRow:
  "ts \<noteq> [] \<Longrightarrow> (\<And>t. t \<in> set ts \<Longrightarrow> solid t) \<Longrightarrow> splitLine (joinRow ts) = ts"
proof (induction ts)
  case Nil
  then show ?case by simp
next
  case (Cons t ts)
  show ?case
  proof (cases "ts = []")
    case True
    then show ?thesis using Cons.prems by (simp add: joinRow_def splitLine_solid)
  next
    case False
    then have "joinRow (t # ts) = t @ CHR '' '' # joinRow ts" by (simp add: joinRow_def)
    then show ?thesis using Cons False by (simp add: splitLine_solid)
  qed
qed

lemma solid_valid: "isValidToken t \<Longrightarrow> solid t"
proof -
  assume v: "isValidToken t"
  show ?thesis
  proof (cases "t = ''.''")
    case True
    then show ?thesis by (simp add: solid_def isSpace_def)
  next
    case False
    then obtain a c where t: "t = [a, c]"
      using v by (auto simp: isValidToken_def length_Suc_conv numeral_2_eq_2 split: if_splits)
    then show ?thesis using v False by (auto simp: isValidToken_def solid_def isSpace_def)
  qed
qed

lemma joinRow_chars:
  assumes "ts \<noteq> []" "\<And>t. t \<in> set ts \<Longrightarrow> solid t"
  shows "newline \<notin> set (joinRow ts)" "joinRow ts \<noteq> []" "last (joinRow ts) \<noteq> carriageReturn"
proof -
  have s: "newline \<notin> set t" "carriageReturn \<notin> set t" "t \<noteq> []" if "t \<in> set ts" for t
    using assms(2) [OF that] by (auto simp: solid_def isSpace_def)
  have l: "last ts \<in> set ts" using assms(1) by simp
  show "newline \<notin> set (joinRow ts)" using s l by (auto simp: joinRow_def dest: in_set_butlastD)
  show "joinRow ts \<noteq> []" using s [OF l] by (simp add: joinRow_def)
  have "last (joinRow ts) = last (last ts)" using s [OF l] by (simp add: joinRow_def)
  then show "last (joinRow ts) \<noteq> carriageReturn" using s [OF l] last_in_set [of "last ts"] by metis
qed

lemma getline_line:
  assumes "newline \<notin> set line"
  shows "getline (line @ newline # rest) = Some (line, rest)"
proof -
  have "takeWhile (\<lambda>c. c \<noteq> newline) (line @ newline # rest) = line"
    "dropWhile (\<lambda>c. c \<noteq> newline) (line @ newline # rest) = newline # rest"
    using assms by (auto simp: takeWhile_append dropWhile_append)
  then show ?thesis by (simp add: getline_def)
qed

lemma readRows_print:
  assumes "\<And>r. r \<in> set rows \<Longrightarrow> length r = w \<and> (\<forall>t \<in> set r. isValidToken t)" "0 < w"
    and "g \<noteq> [] \<Longrightarrow> length (g ! 0) = w"
  shows "readRows g (concat (map (\<lambda>r. joinRow r @ [newline]) rows)) = Inr (g @ rows, [])"
  using assms
proof (induction rows arbitrary: g)
  case Nil
  then show ?case by (simp add: readRows.simps getline_def)
next
  case (Cons r rows)
  let ?rest = "concat (map (\<lambda>r. joinRow r @ [newline]) rows)"
  have r: "length r = w" "\<And>t. t \<in> set r \<Longrightarrow> isValidToken t" using Cons.prems(1) [of r] by auto
  then have r: "r \<noteq> []" "length r = w" "\<And>t. t \<in> set r \<Longrightarrow> isValidToken t" using Cons.prems(2) by auto
  note sol = r(3) [THEN solid_valid]
  note jc = joinRow_chars [OF r(1) sol]
  have gl: "getline (concat (map (\<lambda>r. joinRow r @ [newline]) (r # rows))) = Some (joinRow r, ?rest)"
    using getline_line [OF jc(1), of ?rest] by simp
  have tok: "splitLine (stripCR (joinRow r)) = r"
    using jc splitLine_joinRow [OF r(1) sol] by (simp add: stripCR_def)
  have "isValidToken (r ! 0)" using r(1) by (intro r(3)) simp
  then have hd: "r ! 0 \<noteq> ''Commands:''" "r ! 0 \<noteq> ''Board:''"
    by (auto simp: isValidToken_def)
  have "readRows g (concat (map (\<lambda>r. joinRow r @ [newline]) (r # rows))) = readRows (g @ [r]) ?rest"
    using Cons.prems(3) r hd by (subst readRows.simps) (auto simp: gl tok Let_def list_all_iff simp del: concat.simps list.map)
  also have "\<dots> = Inr ((g @ [r]) @ rows, [])"
    using Cons.prems r(2) by (intro Cons.IH) (auto simp: nth_append)
  finally show ?case by simp
qed

definition printToken :: "piece \<Rightarrow> string" where
  "printToken p = (if getKind p = NoKind then ''.'' else printPieceToken (getColor p) (getKind p))"

lemma printToken_valid:
  "isValidToken (printToken p)" "tokenKind (printToken p) = getKind p"
  "getKind p \<noteq> NoKind \<Longrightarrow> printToken p \<noteq> ''.''"
  "getKind p \<noteq> NoKind \<Longrightarrow> getColor p \<noteq> NoColor \<Longrightarrow> tokenColor (printToken p) = getColor p"
  by (cases "getKind p"; cases "getColor p";
      simp add: printToken_def printPieceToken_def kindLetter_def isValidToken_def tokenKind_def tokenColor_def)+

lemma upto_row:
  assumes "0 \<le> k" "k \<le> w - 1"
  shows "concat (map (\<lambda>c. f c @ (if c < w - 1 then '' '' else [])) [k..w - 1]) = joinRow (map f [k..w - 1])"
  using assms
proof (induction "nat (w - 1 - k)" arbitrary: k)
  case 0
  then have "k = w - 1" by simp
  then show ?case by (simp add: joinRow_def)
next
  case (Suc n)
  then have k: "[k..w - 1] = k # [k + 1..w - 1]" "k < w - 1" by (simp_all add: upto_rec1)
  then have "[k + 1..w - 1] \<noteq> []" by simp
  then show ?case using Suc.hyps(1) [of "k + 1"] Suc.hyps(2) Suc.prems k by (simp add: joinRow_def)
qed

lemma printBoard_rows:
  assumes "0 < getWidth b"
  shows "printBoard b = concat (map (\<lambda>r. joinRow r @ [newline])
    (map (\<lambda>r. map (\<lambda>c. printToken (slot b (Pos r c))) [0..getWidth b - 1]) [0..getHeight b - 1]))"
proof -
  have cell: "(case getPiece b (Pos r c) of None \<Rightarrow> ''.''
      | Some p \<Rightarrow> if getKind p = NoKind then ''.'' else printPieceToken (getColor p) (getKind p)) =
      printToken (slot b (Pos r c))" if "r \<in> set [0..getHeight b - 1]" "c \<in> set [0..getWidth b - 1]" for r c
    using that by (auto simp: getPiece_def isWithinBounds_def printToken_def)
  show ?thesis
    unfolding printBoard_def printGrid_def map_map comp_def
  proof (intro arg_cong [where f = concat] map_cong refl arg_cong [where f = "\<lambda>x. x @ [newline]"])
    fix r assume r: "r \<in> set [0..getHeight b - 1]"
    show "concat (map (\<lambda>c. (case getPiece b (Pos r c) of None \<Rightarrow> ''.''
        | Some p \<Rightarrow> if getKind p = NoKind then ''.'' else printPieceToken (getColor p) (getKind p)) @
        (if c < getWidth b - 1 then '' '' else [])) [0..getWidth b - 1]) =
      joinRow (map (\<lambda>c. printToken (slot b (Pos r c))) [0..getWidth b - 1])"
    proof -
      have "map (\<lambda>c. (case getPiece b (Pos r c) of None \<Rightarrow> ''.''
          | Some p \<Rightarrow> if getKind p = NoKind then ''.'' else printPieceToken (getColor p) (getKind p)) @
          (if c < getWidth b - 1 then '' '' else [])) [0..getWidth b - 1] =
        map (\<lambda>c. printToken (slot b (Pos r c)) @ (if c < getWidth b - 1 then '' '' else [])) [0..getWidth b - 1]"
        by (rule map_cong [OF refl]) (simp only: cell [OF r])
      then show ?thesis
        using upto_row [of 0 "getWidth b" "\<lambda>c. printToken (slot b (Pos r c))"] assms by (simp del: map_eq_conv)
    qed
  qed
qed

lemma parse_print:
  assumes wf: "board_wf b" and size: "0 < getWidth b" "0 < getHeight b" and n0: "0 < n0"
  shows "\<exists>b' n. parseBoardOnly (printBoard b) n0 = Inr (b', n, []) \<and>
    getWidth b' = getWidth b \<and> getHeight b' = getHeight b \<and> board_wf b' \<and>
    (\<forall>q. isWithinBounds b q \<longrightarrow> getKind (slot b' q) = getKind (slot b q) \<and>
       getColor (slot b' q) = getColor (slot b q) \<and> getState (slot b' q) = Idle)"
proof -
  let ?rows = "map (\<lambda>r. map (\<lambda>c. printToken (slot b (Pos r c))) [0..getWidth b - 1]) [0..getHeight b - 1]"
  have rows: "length r = nat (getWidth b) \<and> (\<forall>t \<in> set r. isValidToken t)" if "r \<in> set ?rows" for r
    using that size by (auto simp: printToken_valid)
  have rr: "readRows [] (printBoard b) = Inr (?rows, [])"
    unfolding printBoard_rows [OF size(1)] using readRows_print [of ?rows "nat (getWidth b)" "[]", OF rows] size
    by (simp del: map_map)
  have ne: "?rows \<noteq> []" using size by simp
  have len: "length ?rows = nat (getHeight b)" "length (?rows ! 0) = nat (getWidth b)" using size by auto
  have "rowsOk ?rows" unfolding rowsOk_def len(2) using rows by blast
  then obtain b' n where bb: "buildBoard ?rows n0 = Inr (b', n)" and h: "getHeight b' = int (length ?rows)"
    and w: "getWidth b' = int (length (?rows ! 0))" and f: "filled (tokenAt ?rows) n0 {p. isWithinBounds b' p} (b', n)"
    using buildBoard_filled [OF _ n0] by blast
  have dims: "getWidth b' = getWidth b" "getHeight b' = getHeight b" using h w len size by simp_all
  have wb: "isWithinBounds b' q = isWithinBounds b q" for q using dims by (simp add: isWithinBounds_def)
  have tok: "tokenAt ?rows q = printToken (slot b q)" if "isWithinBounds b q" for q
    using that by (cases q) (auto simp: isWithinBounds_def)
  have sl: "getKind (slot b' q) = getKind (slot b q) \<and> getColor (slot b' q) = getColor (slot b q) \<and>
      getState (slot b' q) = Idle" if q: "isWithinBounds b q" for q
  proof -
    have p: "getState (slot b' q) = Idle" "getKind (slot b' q) = getKind (slot b q)"
      "printToken (slot b q) \<noteq> ''.'' \<longrightarrow> getColor (slot b' q) = tokenColor (printToken (slot b q))" "piece_ok (slot b' q)"
      using f q board_wfD(3) [of b' q] unfolding filled_def by (auto simp: wb tok printToken_valid)
    have "piece_ok (slot b q)" using board_wfD(3) [OF wf q] .
    then show ?thesis
      using p printToken_valid(3,4) [of "slot b q"] by (cases "getKind (slot b q) = NoKind") (auto simp: piece_ok_def)
  qed
  have "parseBoardOnly (printBoard b) n0 = Inr (b', n, [])"
    unfolding parseBoardOnly_def rr using ne bb by (simp only: sum.case prod.case if_False)
  then show ?thesis using dims sl f by (auto simp: filled_def)
qed

end
