(* ===== verification/Codecs.thy ===== *)
theory Codecs
  imports Json Board_IO
begin

text \<open>
  The wire formats (\<open>shared/protocol/GameSnapshotCodec.cpp\<close>, \<open>MessageCodec.cpp\<close>,
  \<open>MoveLogCodec.cpp\<close>, \<open>CaptureEventCodec.cpp\<close>, \<open>server/app/session/GameResultCodec.cpp\<close>).
  Every codec is shown to satisfy the contract \<open>codec\<close>: decoding what was encoded gives the value
  back. Numbers are 32-bit on the C++ side, so the contract asks for integers that fit.
\<close>

section \<open>Names\<close>

definition kKindToName :: "(kind \<times> string) list" where
  "kKindToName = [(King, ''King''), (Queen, ''Queen''), (Rook, ''Rook''), (Bishop, ''Bishop''),
     (Knight, ''Knight''), (Pawn, ''Pawn''), (NoKind, ''None'')]"

definition kColorToName :: "(color \<times> string) list" where
  "kColorToName = [(White, ''White''), (Black, ''Black''), (NoColor, ''None'')]"

definition kStateToName :: "(state \<times> string) list" where
  "kStateToName = [(Idle, ''Idle''), (Moving, ''Moving''), (Jump, ''Jump''), (ShortRest, ''ShortRest''),
     (LongRest, ''LongRest''), (Captured, ''Captured'')]"

text \<open>The tables of the capture, move-log and result codecs have no entry for \<open>None\<close>.\<close>

definition kPieceKindToName :: "(kind \<times> string) list" where
  "kPieceKindToName = [(King, ''King''), (Queen, ''Queen''), (Rook, ''Rook''), (Bishop, ''Bishop''),
     (Knight, ''Knight''), (Pawn, ''Pawn'')]"

definition kPlayerColorToName :: "(color \<times> string) list" where
  "kPlayerColorToName = [(White, ''White''), (Black, ''Black'')]"

datatype message_type =
    Hello | MoveMsg | JumpMsg | SnapshotMsg | Login | JoinRoom | FindGame | GameFound
  | MoveLogged | CaptureEventMsg | EnterRoom | Auth

record message =
  msg_type :: message_type
  payload :: json

definition kTypeToName :: "(message_type \<times> string) list" where
  "kTypeToName = [(Hello, ''HELLO''), (MoveMsg, ''MOVE''), (JumpMsg, ''JUMP''), (SnapshotMsg, ''SNAPSHOT''),
     (Login, ''LOGIN''), (JoinRoom, ''JOIN_ROOM''), (FindGame, ''FIND_GAME''), (GameFound, ''GAME_FOUND''),
     (MoveLogged, ''MOVE_LOGGED''), (CaptureEventMsg, ''CAPTURE_EVENT''), (EnterRoom, ''ENTER_ROOM''),
     (Auth, ''AUTH'')]"

datatype game_end_reason = KingCapture | Disconnect

definition kReasonToName :: "(game_end_reason \<times> string) list" where
  "kReasonToName = [(KingCapture, ''KingCapture''), (Disconnect, ''Disconnect'')]"

definition typeName :: "message_type \<Rightarrow> json_error + string" where
  "typeName t = nameOf kTypeToName t"

definition typeFromName :: "string \<Rightarrow> json_error + message_type" where
  "typeFromName name = fromName kTypeToName ''Unknown message type: '' name"

definition nameToKind :: "string \<Rightarrow> json_error + kind" where
  "nameToKind name = fromName kKindToName ''Unknown piece kind: '' name"

definition nameToColor :: "string \<Rightarrow> json_error + color" where
  "nameToColor name = fromName kColorToName ''Unknown color: '' name"

definition nameToState :: "string \<Rightarrow> json_error + state" where
  "nameToState name = fromName kStateToName ''Unknown state: '' name"

definition nameToPieceKind :: "string \<Rightarrow> json_error + kind" where
  "nameToPieceKind name = fromName kPieceKindToName ''Unknown piece kind: '' name"

definition nameToPlayerColor :: "string \<Rightarrow> json_error + color" where
  "nameToPlayerColor name = fromName kPlayerColorToName ''Unknown color: '' name"

definition nameToReason :: "string \<Rightarrow> json_error + game_end_reason" where
  "nameToReason name = fromName kReasonToName ''Unknown game end reason: '' name"

section \<open>Positions and snapshots\<close>

definition encodePosition :: "position \<Rightarrow> json" where
  "encodePosition p = JObj [(''row'', JInt (row p)), (''col'', JInt (col p))]"

definition decodePosition :: "json \<Rightarrow> json_error + position" where
  "decodePosition j =
     sbind (jat ''row'' j) (\<lambda>jr. sbind (getInt jr) (\<lambda>r.
     sbind (jat ''col'' j) (\<lambda>jc. sbind (getInt jc) (\<lambda>c. Inr (Pos r c)))))"

definition encodeSnapshotPiece :: "snapshot_piece \<Rightarrow> json_error + json" where
  "encodeSnapshotPiece p =
     sbind (nameOf kKindToName (sp_kind p)) (\<lambda>k.
     sbind (nameOf kColorToName (sp_color p)) (\<lambda>c.
     sbind (nameOf kStateToName (sp_state p)) (\<lambda>s.
     Inr (JObj [(''id'', JInt (sp_id p)), (''kind'', JStr k), (''color'', JStr c),
       (''cell'', encodePosition (sp_cell p)), (''state'', JStr s),
       (''elapsed_in_state_ms'', JInt (elapsed_in_state_ms p)),
       (''targetCell'', encodePosition (targetCell p)),
       (''travelProgress'', JFloat (travelProgress p)), (''restProgress'', JFloat (restProgress p))]))))"

definition decodeSnapshotPiece :: "json \<Rightarrow> json_error + snapshot_piece" where
  "decodeSnapshotPiece j =
     sbind (sbind (jat ''id'' j) getInt) (\<lambda>i.
     sbind (sbind (sbind (jat ''kind'' j) getString) nameToKind) (\<lambda>k.
     sbind (sbind (sbind (jat ''color'' j) getString) nameToColor) (\<lambda>c.
     sbind (sbind (jat ''cell'' j) decodePosition) (\<lambda>cell.
     sbind (sbind (sbind (jat ''state'' j) getString) nameToState) (\<lambda>s.
     sbind (sbind (jat ''elapsed_in_state_ms'' j) getInt) (\<lambda>el.
     sbind (sbind (jat ''targetCell'' j) decodePosition) (\<lambda>target.
     sbind (sbind (jat ''travelProgress'' j) getDouble) (\<lambda>tp.
     sbind (sbind (jat ''restProgress'' j) getDouble) (\<lambda>rp.
     Inr \<lparr>sp_id = i, sp_kind = k, sp_color = c, sp_cell = cell, sp_state = s,
          elapsed_in_state_ms = el, targetCell = target, travelProgress = tp, restProgress = rp\<rparr>)))))))))"

definition encodeSnapshot :: "game_snapshot \<Rightarrow> json_error + json" where
  "encodeSnapshot snap =
     sbind (mapE encodeSnapshotPiece (pieces snap)) (\<lambda>ps.
     Inr (JObj [(''board_width'', JInt (board_width snap)), (''board_height'', JInt (board_height snap)),
       (''pieces'', JArr ps), (''game_over'', JBool (snap_game_over snap)),
       (''has_selection'', JBool (has_selection snap)),
       (''selected_cell'', encodePosition (selected_cell snap)),
       (''legalMoves'', JArr (map encodePosition (legalMoves snap)))]))"

definition decodeSnapshot :: "json \<Rightarrow> json_error + game_snapshot" where
  "decodeSnapshot j =
     sbind (sbind (jat ''board_width'' j) getInt) (\<lambda>w.
     sbind (sbind (jat ''board_height'' j) getInt) (\<lambda>h.
     sbind (sbind (jat ''pieces'' j) (\<lambda>js. mapE decodeSnapshotPiece (jelems js))) (\<lambda>ps.
     sbind (sbind (jat ''game_over'' j) getBool) (\<lambda>over.
     sbind (sbind (jat ''has_selection'' j) getBool) (\<lambda>sel.
     sbind (sbind (jat ''selected_cell'' j) decodePosition) (\<lambda>cell.
     sbind (sbind (jat ''legalMoves'' j) (\<lambda>js. mapE decodePosition (jelems js))) (\<lambda>moves.
     Inr \<lparr>board_width = w, board_height = h, pieces = ps, snap_game_over = over,
          has_selection = sel, selected_cell = cell, legalMoves = moves\<rparr>)))))))"

section \<open>Messages\<close>

text \<open>\<open>dump\<close> and \<open>parse\<close> of the JSON library are parameters; \<open>None\<close> is a parse error.\<close>

definition encodeMessage :: "(json \<Rightarrow> string) \<Rightarrow> message \<Rightarrow> json_error + string" where
  "encodeMessage dump m =
     sbind (typeName (msg_type m)) (\<lambda>t.
     Inr (dump (JObj [(''type'', JStr t), (''payload'', payload m)])))"

definition decodeMessage :: "(string \<Rightarrow> json option) \<Rightarrow> string \<Rightarrow> json_error + message" where
  "decodeMessage parse text =
     (case parse text of
        None \<Rightarrow> Inl ParseError
      | Some j \<Rightarrow>
          sbind (sbind (sbind (jat ''type'' j) getString) typeFromName) (\<lambda>t.
          sbind (jvalue ''payload'' (JObj []) j) (\<lambda>p.
          Inr \<lparr>msg_type = t, payload = p\<rparr>)))"

section \<open>Move log, captures and results\<close>

definition encodeEntry :: "move_entry \<Rightarrow> json" where
  "encodeEntry e = JObj [(''timestamp'', JStr (timestamp e)), (''notation'', JStr (notation_of e))]"

definition decodeEntry :: "json \<Rightarrow> json_error + move_entry" where
  "decodeEntry j =
     sbind (sbind (jat ''timestamp'' j) getString) (\<lambda>t.
     sbind (sbind (jat ''notation'' j) getString) (\<lambda>n. Inr \<lparr>timestamp = t, notation_of = n\<rparr>))"

definition encodeMoveLog :: "color \<Rightarrow> move_entry \<Rightarrow> json_error + json" where
  "encodeMoveLog c e =
     sbind (nameOf kPlayerColorToName c) (\<lambda>n. jset ''color'' (JStr n) (encodeEntry e))"

definition decodeMoveLog :: "json \<Rightarrow> json_error + (color \<times> move_entry)" where
  "decodeMoveLog j =
     sbind (sbind (sbind (jat ''color'' j) getString) nameToPlayerColor) (\<lambda>c.
     sbind (decodeEntry j) (\<lambda>e. Inr (c, e)))"

definition encodeAllMoves :: "move_entry list \<Rightarrow> move_entry list \<Rightarrow> json" where
  "encodeAllMoves white black =
     JObj [(''white'', JArr (map encodeEntry white)), (''black'', JArr (map encodeEntry black))]"

definition decodeAllMoves :: "json \<Rightarrow> json_error + (move_entry list \<times> move_entry list)" where
  "decodeAllMoves j =
     sbind (sbind (jat ''white'' j) (\<lambda>js. mapE decodeEntry (jelems js))) (\<lambda>w.
     sbind (sbind (jat ''black'' j) (\<lambda>js. mapE decodeEntry (jelems js))) (\<lambda>b. Inr (w, b)))"

definition encodeCapture :: "capture_event \<Rightarrow> json_error + json" where
  "encodeCapture ev =
     sbind (nameOf kPieceKindToName (ce_kind ev)) (\<lambda>k.
     sbind (nameOf kPlayerColorToName (ce_color ev)) (\<lambda>c.
     Inr (JObj [(''kind'', JStr k), (''color'', JStr c), (''cell'', encodePosition (ce_cell ev)),
       (''capturedPieceId'', JInt (ce_capturedPieceId ev)),
       (''capturingPieceId'', JInt (ce_capturingPieceId ev)),
       (''collisionCell'', encodePosition (ce_collisionCell ev)),
       (''impactProgress'', JFloat (ce_impactProgress ev))])))"

definition decodeCapture :: "json \<Rightarrow> json_error + capture_event" where
  "decodeCapture j =
     sbind (sbind (sbind (jat ''kind'' j) getString) nameToPieceKind) (\<lambda>k.
     sbind (sbind (sbind (jat ''color'' j) getString) nameToPlayerColor) (\<lambda>c.
     sbind (sbind (jat ''cell'' j) decodePosition) (\<lambda>cell.
     sbind (sbind (jat ''capturedPieceId'' j) getInt) (\<lambda>i1.
     sbind (sbind (jat ''capturingPieceId'' j) getInt) (\<lambda>i2.
     sbind (sbind (jat ''collisionCell'' j) decodePosition) (\<lambda>cc.
     sbind (sbind (jat ''impactProgress'' j) getDouble) (\<lambda>ip.
     Inr \<lparr>ce_kind = k, ce_color = c, ce_cell = cell, ce_capturedPieceId = i1,
          ce_capturingPieceId = i2, ce_collisionCell = cc, ce_impactProgress = ip\<rparr>)))))))"

record game_result =
  winner :: color
  end_reason :: game_end_reason
  winnerUsername :: string
  winnerElo :: int
  loserUsername :: string
  loserElo :: int
  moveLog :: json

definition encodeResult :: "game_result \<Rightarrow> json_error + json" where
  "encodeResult r =
     sbind (nameOf kPlayerColorToName (winner r)) (\<lambda>c.
     sbind (nameOf kReasonToName (end_reason r)) (\<lambda>why.
     Inr (JObj [(''winner'', JStr c), (''reason'', JStr why),
       (''winnerUsername'', JStr (winnerUsername r)), (''winnerElo'', JInt (winnerElo r)),
       (''loserUsername'', JStr (loserUsername r)), (''loserElo'', JInt (loserElo r)),
       (''moveLog'', moveLog r)])))"

definition decodeResult :: "json \<Rightarrow> json_error + game_result" where
  "decodeResult j =
     sbind (sbind (sbind (jat ''winner'' j) getString) nameToPlayerColor) (\<lambda>c.
     sbind (sbind (sbind (jat ''reason'' j) getString) nameToReason) (\<lambda>why.
     sbind (sbind (jat ''winnerUsername'' j) getString) (\<lambda>wu.
     sbind (sbind (jat ''winnerElo'' j) getInt) (\<lambda>we.
     sbind (sbind (jat ''loserUsername'' j) getString) (\<lambda>lu.
     sbind (sbind (jat ''loserElo'' j) getInt) (\<lambda>le.
     sbind (jvalue ''moveLog'' (JObj []) j) (\<lambda>ml.
     Inr \<lparr>winner = c, end_reason = why, winnerUsername = wu, winnerElo = we,
          loserUsername = lu, loserElo = le, moveLog = ml\<rparr>)))))))"

section \<open>The tables are tables\<close>

lemmas table_defs = kKindToName_def kColorToName_def kStateToName_def kPieceKindToName_def
  kPlayerColorToName_def kTypeToName_def kReasonToName_def

interpretation kinds: name_table kKindToName "''Unknown piece kind: ''"
  by unfold_locales (simp_all add: table_defs)
interpretation colors: name_table kColorToName "''Unknown color: ''"
  by unfold_locales (simp_all add: table_defs)
interpretation states: name_table kStateToName "''Unknown state: ''"
  by unfold_locales (simp_all add: table_defs)
interpretation piece_kinds: name_table kPieceKindToName "''Unknown piece kind: ''"
  by unfold_locales (simp_all add: table_defs)
interpretation player_colors: name_table kPlayerColorToName "''Unknown color: ''"
  by unfold_locales (simp_all add: table_defs)
interpretation types: name_table kTypeToName "''Unknown message type: ''"
  by unfold_locales (simp_all add: table_defs)
interpretation reasons: name_table kReasonToName "''Unknown game end reason: ''"
  by unfold_locales (simp_all add: table_defs)

lemma full_tables [simp]:
  "k \<in> fst ` set kKindToName" "c \<in> fst ` set kColorToName" "s \<in> fst ` set kStateToName"
  "t \<in> fst ` set kTypeToName" "r \<in> fst ` set kReasonToName"
  subgoal by (cases k) (simp_all add: table_defs)
  subgoal by (cases c) (simp_all add: table_defs)
  subgoal by (cases s) (simp_all add: table_defs)
  subgoal by (cases t) (simp_all add: table_defs)
  subgoal by (cases r) (simp_all add: table_defs)
  done

lemma player_tables:
  "k \<in> fst ` set kPieceKindToName \<longleftrightarrow> k \<noteq> NoKind" "c \<in> fst ` set kPlayerColorToName \<longleftrightarrow> c \<noteq> NoColor"
  subgoal by (cases k) (simp_all add: table_defs)
  subgoal by (cases c) (simp_all add: table_defs)
  done

section \<open>Round trips\<close>

definition position_fits :: "position \<Rightarrow> bool" where
  "position_fits p \<longleftrightarrow> fits_int (row p) \<and> fits_int (col p)"

lemma decode_encodePosition [simp]: "position_fits p \<Longrightarrow> decodePosition (encodePosition p) = Inr p"
  by (cases p) (simp add: decodePosition_def encodePosition_def position_fits_def)

definition snapshot_piece_fits :: "snapshot_piece \<Rightarrow> bool" where
  "snapshot_piece_fits p \<longleftrightarrow> fits_int (sp_id p) \<and> fits_int (elapsed_in_state_ms p) \<and>
     position_fits (sp_cell p) \<and> position_fits (targetCell p)"

interpretation snapshot_piece_codec: codec encodeSnapshotPiece decodeSnapshotPiece snapshot_piece_fits
proof
  fix p assume p: "snapshot_piece_fits p"
  obtain k where k: "nameOf kKindToName (sp_kind p) = Inr k" "nameToKind k = Inr (sp_kind p)"
    using kinds.name_roundtrip [of "sp_kind p"] by (auto simp: nameToKind_def)
  obtain c where c: "nameOf kColorToName (sp_color p) = Inr c" "nameToColor c = Inr (sp_color p)"
    using colors.name_roundtrip [of "sp_color p"] by (auto simp: nameToColor_def)
  obtain s where s: "nameOf kStateToName (sp_state p) = Inr s" "nameToState s = Inr (sp_state p)"
    using states.name_roundtrip [of "sp_state p"] by (auto simp: nameToState_def)
  show "\<exists>j. encodeSnapshotPiece p = Inr j \<and> decodeSnapshotPiece j = Inr p"
    using p by (simp add: encodeSnapshotPiece_def decodeSnapshotPiece_def k c s snapshot_piece_fits_def)
qed

definition snapshot_fits :: "game_snapshot \<Rightarrow> bool" where
  "snapshot_fits s \<longleftrightarrow> fits_int (board_width s) \<and> fits_int (board_height s) \<and>
     list_all snapshot_piece_fits (pieces s) \<and> position_fits (selected_cell s) \<and> list_all position_fits (legalMoves s)"

interpretation snapshot_codec: codec encodeSnapshot decodeSnapshot snapshot_fits
proof
  fix s assume s: "snapshot_fits s"
  then obtain js where js: "mapE encodeSnapshotPiece (pieces s) = Inr js" "mapE decodeSnapshotPiece js = Inr (pieces s)"
    using snapshot_piece_codec.list_roundtrip [of "pieces s"] by (auto simp: snapshot_fits_def list_all_iff)
  have "mapE decodePosition (map encodePosition ps) = Inr ps" if "list_all position_fits ps" for ps
    using that by (induction ps) auto
  then show "\<exists>j. encodeSnapshot s = Inr j \<and> decodeSnapshot j = Inr s"
    using s by (simp add: encodeSnapshot_def decodeSnapshot_def js snapshot_fits_def)
qed

lemma decode_encodeEntry [simp]: "decodeEntry (encodeEntry e) = Inr e"
  by (simp add: decodeEntry_def encodeEntry_def)

lemma decode_encodeAllMoves: "decodeAllMoves (encodeAllMoves w b) = Inr (w, b)"
proof -
  have "mapE decodeEntry (map encodeEntry es) = Inr es" for es
    by (induction es) auto
  then show ?thesis by (simp add: decodeAllMoves_def encodeAllMoves_def)
qed

interpretation move_log_codec: codec "\<lambda>(c, e). encodeMoveLog c e" decodeMoveLog "\<lambda>(c, e). c \<noteq> NoColor"
proof
  fix x :: "color \<times> move_entry"
  obtain c e where x: "x = (c, e)" by force
  assume "case x of (c, e) \<Rightarrow> c \<noteq> NoColor"
  then obtain n where n: "nameOf kPlayerColorToName c = Inr n" "nameToPlayerColor n = Inr c"
    using player_colors.name_roundtrip [of c] by (auto simp: x player_tables nameToPlayerColor_def)
  show "\<exists>j. (case x of (c, e) \<Rightarrow> encodeMoveLog c e) = Inr j \<and> decodeMoveLog j = Inr x"
    by (simp add: x encodeMoveLog_def decodeMoveLog_def n jset_def encodeEntry_def decodeEntry_def)
qed

definition capture_fits :: "capture_event \<Rightarrow> bool" where
  "capture_fits ev \<longleftrightarrow> ce_kind ev \<noteq> NoKind \<and> ce_color ev \<noteq> NoColor \<and> position_fits (ce_cell ev) \<and>
     position_fits (ce_collisionCell ev) \<and> fits_int (ce_capturedPieceId ev) \<and> fits_int (ce_capturingPieceId ev)"

interpretation capture_codec: codec encodeCapture decodeCapture capture_fits
proof
  fix ev assume ev: "capture_fits ev"
  obtain k where k: "nameOf kPieceKindToName (ce_kind ev) = Inr k" "nameToPieceKind k = Inr (ce_kind ev)"
    using piece_kinds.name_roundtrip [of "ce_kind ev"] ev by (auto simp: capture_fits_def player_tables nameToPieceKind_def)
  obtain c where c: "nameOf kPlayerColorToName (ce_color ev) = Inr c" "nameToPlayerColor c = Inr (ce_color ev)"
    using player_colors.name_roundtrip [of "ce_color ev"] ev by (auto simp: capture_fits_def player_tables nameToPlayerColor_def)
  show "\<exists>j. encodeCapture ev = Inr j \<and> decodeCapture j = Inr ev"
    using ev by (simp add: encodeCapture_def decodeCapture_def k c capture_fits_def)
qed

definition result_fits :: "game_result \<Rightarrow> bool" where
  "result_fits r \<longleftrightarrow> winner r \<noteq> NoColor \<and> fits_int (winnerElo r) \<and> fits_int (loserElo r)"

text \<open>The tables have no name for \<open>None\<close>: encoding the capture of an empty cell throws.\<close>

lemma capture_of_nothing_throws:
  assumes "ce_kind ev = NoKind \<or> ce_color ev = NoColor"
  shows "encodeCapture ev = Inl (OutOfRange [])"
  using assms by (cases "ce_kind ev"; cases "ce_color ev"; simp add: encodeCapture_def nameOf_def table_defs)

interpretation result_codec: codec encodeResult decodeResult result_fits
proof
  fix r assume r: "result_fits r"
  obtain c where c: "nameOf kPlayerColorToName (winner r) = Inr c" "nameToPlayerColor c = Inr (winner r)"
    using player_colors.name_roundtrip [of "winner r"] r by (auto simp: result_fits_def player_tables nameToPlayerColor_def)
  obtain w where w: "nameOf kReasonToName (end_reason r) = Inr w" "nameToReason w = Inr (end_reason r)"
    using reasons.name_roundtrip [of "end_reason r"] by (auto simp: nameToReason_def)
  show "\<exists>j. encodeResult r = Inr j \<and> decodeResult j = Inr r"
    using r by (simp add: encodeResult_def decodeResult_def c w result_fits_def)
qed

text \<open>
  A message survives the wire: parsing the dump of its envelope, which gives that envelope back
  in canonical form, yields the type and the canonical payload.
\<close>

lemma message_roundtrip:
  assumes "nameOf kTypeToName (msg_type m) = Inr n"
    and "parse (dump (JObj [(''type'', JStr n), (''payload'', payload m)])) =
      Some (canon (JObj [(''type'', JStr n), (''payload'', payload m)]))"
  shows "encodeMessage dump m = Inr (dump (JObj [(''type'', JStr n), (''payload'', payload m)]))"
    and "sbind (encodeMessage dump m) (decodeMessage parse) = Inr (m\<lparr>payload := canon (payload m)\<rparr>)"
proof -
  have "typeFromName n = Inr (msg_type m)"
    using types.name_roundtrip [of "msg_type m"] assms(1) by (auto simp: typeFromName_def)
  then show "sbind (encodeMessage dump m) (decodeMessage parse) = Inr (m\<lparr>payload := canon (payload m)\<rparr>)"
    by (simp add: encodeMessage_def decodeMessage_def typeName_def assms jat_canon jvalue_canon del: canon.simps(2))
qed (simp add: encodeMessage_def typeName_def assms)

end
