(* ===== verification/First_Events.thy ===== *)
theory First_Events
  imports Arbiter_Laws
begin

text \<open>
  The stops computed by the collision resolver and by the near-miss check, described without
  their loops: a motion is cut before the first checkpoint at which it has to yield. The last
  section describes an arrival by what it leaves on each cell of the board.
\<close>

definition firstWith :: "(nat \<Rightarrow> bool) \<Rightarrow> nat option" where
  "firstWith P = (if \<exists>k. P k then Some (LEAST k. P k) else None)"

lemma firstWith_eq_Some: "P k \<Longrightarrow> (\<And>j. P j \<Longrightarrow> k \<le> j) \<Longrightarrow> firstWith P = Some k"
  by (auto simp: firstWith_def intro: Least_equality)

lemma firstWith_False [simp]: "firstWith (\<lambda>k. False) = None"
  by (simp add: firstWith_def)

lemma firstWith_eq_None: "(\<And>j. \<not> P j) \<Longrightarrow> firstWith P = None"
  by (simp add: firstWith_def)

section \<open>Moving friendly blocks\<close>

definition firstBlocked :: "board \<Rightarrow> motion list \<Rightarrow> int \<Rightarrow> int \<Rightarrow> nat \<Rightarrow> nat option" where
  "firstBlocked b ms p g l = firstWith (blockedAt b ms p g l)"

lemma stopTable_first:
  assumes "l < length ms"
  shows "map_of (stopTable b ms p g) l = map_option int (firstBlocked b ms p g l)"
proof (cases "map_of (stopTable b ms p g) l")
  case None
  then show ?thesis
    using stopTable_None [OF None assms] by (simp add: firstBlocked_def firstWith_eq_None)
next
  case (Some c)
  note s = stopTable_Some [OF Some]
  have "firstBlocked b ms p g l = Some (nat c)"
    unfolding firstBlocked_def using s(2,5,6) by (intro firstWith_eq_Some) (auto simp: nat_le_iff)
  then show ?thesis using Some s(2) by simp
qed

lemma friendlyBlocks_first:
  fixes a :: arbiter and p g :: int
  assumes ok: "arbiter_ok a" and ord: "iteration_order ord"
  defines "ms \<equiv> active_motions a" and "b \<equiv> arb_board a" and "r \<equiv> resolveMovingFriendlyBlocks ord p g a"
  defines "first \<equiv> firstBlocked b ms p g"
  shows "active_motions r = map (\<lambda>l. case first l of Some (Suc k) \<Rightarrow> truncateAtCheckpoint (ms ! l) k | _ \<Rightarrow> ms ! l)
         (filter (\<lambda>l. first l \<noteq> Some 0) [0..<length ms])"
    and "isWithinBounds b q \<Longrightarrow> slot (arb_board r) q =
         (if \<exists>l<length ms. first l = Some 0 \<and> m_from (ms ! l) = q then transitionTo LongRest (slot b q) else slot b q)"
    and "map_of (cooldown_until_ms r) i =
         (if \<exists>l<length ms. first l = Some 0 \<and> piece_id (ms ! l) = i then Some (g + LONG_REST_MS)
          else map_of (cooldown_until_ms a) i)"
    and "captured_pieces r = captured_pieces a"
proof -
  let ?st = "map_of (stopTable b ms p g)"
  have w: "isWithinBounds b (m_from m)" if "m \<in> set ms" for m
    using arbiter_okD(3) [OF ok, of m] that by (simp add: motion_ok_def ms_def b_def)
  obtain a1 where a1: "afterStops g a ?st a1"
    and r: "r = a1\<lparr>active_motions := map (redirect ms ?st) (filter (\<lambda>l. ?st l \<noteq> Some 0) [0..<length ms])\<rparr>"
    using resolveMovingFriendlyBlocks_outcome [OF ord arbiter_okD(2) [OF ok], where p = p and g = g] w
    unfolding afterFriendlyBlocks_def by (auto simp: ms_def b_def r_def)
  have st: "?st l = map_option int (first l)" if "l < length ms" for l
    using stopTable_first [OF that] by (simp add: first_def)
  have f: "filter (\<lambda>l. ?st l \<noteq> Some 0) [0..<length ms] = filter (\<lambda>l. first l \<noteq> Some 0) [0..<length ms]"
    by (rule filter_cong) (auto simp: st)
  have "redirect ms ?st l = (case first l of Some (Suc k) \<Rightarrow> truncateAtCheckpoint (ms ! l) k | _ \<Rightarrow> ms ! l)"
    if "l < length ms" for l
    using st [OF that] by (auto simp: redirect_def split: option.splits nat.splits)
  then show "active_motions r = map (\<lambda>l. case first l of Some (Suc k) \<Rightarrow> truncateAtCheckpoint (ms ! l) k | _ \<Rightarrow> ms ! l)
         (filter (\<lambda>l. first l \<noteq> Some 0) [0..<length ms])"
    by (auto simp: r f)
  have "haltedId ms ?st i \<longleftrightarrow> (\<exists>l<length ms. first l = Some 0 \<and> piece_id (ms ! l) = i)"
    by (auto simp: haltedId_def st)
  then show "map_of (cooldown_until_ms r) i =
         (if \<exists>l<length ms. first l = Some 0 \<and> piece_id (ms ! l) = i then Some (g + LONG_REST_MS)
          else map_of (cooldown_until_ms a) i)"
    using afterStopsD(6) [OF a1, of i] by (simp add: r ms_def b_def)
  show "captured_pieces r = captured_pieces a" using afterStopsD(9) [OF a1] by (simp add: r)
  assume q: "isWithinBounds b q"
  have "halted ms ?st q \<longleftrightarrow> (\<exists>l<length ms. first l = Some 0 \<and> m_from (ms ! l) = q)"
    by (auto simp: halted_def st)
  then show "slot (arb_board r) q =
         (if \<exists>l<length ms. first l = Some 0 \<and> m_from (ms ! l) = q then transitionTo LongRest (slot b q) else slot b q)"
    using afterStopsD(5) [OF a1, of q] q by (auto simp: r ms_def b_def)
qed

text \<open>Knights are not among the motions that can be blocked.\<close>

lemma firstBlocked_Knight:
  assumes "isWithinBounds b (m_from (ms ! l))" "getKind (slot b (m_from (ms ! l))) = Knight"
  shows "firstBlocked b ms p g l = None"
  unfolding firstBlocked_def using assms
  by (intro firstWith_eq_None) (auto simp: blockedAt_def meetsAt_def tracked_def getPiece_def)


section \<open>Near misses\<close>

definition firstClaimed :: "board \<Rightarrow> motion list \<Rightarrow> motion \<Rightarrow> nat option" where
  "firstClaimed b ms m = firstWith (\<lambda>i. i \<in> claimed b ms m)"

lemma applyNearMiss_first:
  assumes "isWithinBounds b (m_from m)"
  shows "applyNearMiss b ms m =
    (if getKind (slot b (m_from m)) = Knight then Some m
     else case firstClaimed b ms m of
            None \<Rightarrow> Some m
          | Some 0 \<Rightarrow> None
          | Some (Suc k) \<Rightarrow> Some (truncateAtCheckpoint m k))"
proof -
  obtain t where t: "leastMark (claimed b ms m) t"
    and e: "applyNearMiss b ms m =
      (if getKind (slot b (m_from m)) = Knight then Some m
       else if t = 0 then None
       else if t > 0 then Some (truncateAtCheckpoint m (nat (t - 1))) else Some m)"
    using applyNearMiss_least [OF assms] by blast
  consider "t = -1" "firstClaimed b ms m = None" | i where "t = int i" "firstClaimed b ms m = Some i"
    using t unfolding leastMark_def firstClaimed_def by (auto intro: firstWith_eq_Some firstWith_eq_None)
  then show ?thesis by cases (auto simp: e split: nat.splits)
qed

text \<open>The motion that is added instead: it ends on the cell before the first claimed one.\<close>

lemma applyNearMiss_motion:
  assumes "isWithinBounds b (m_from m)" "applyNearMiss b ms m = Some m'"
  shows "m' = (if getKind (slot b (m_from m)) = Knight then m
     else case firstClaimed b ms m of None \<Rightarrow> m
       | Some j \<Rightarrow> m\<lparr>m_to := pathCell m j, arrival_time_ms := start_time_ms m + 1000 * int j\<rparr>)"
proof -
  have "k < pathLength m" if "firstClaimed b ms m = Some (Suc k)" for k
  proof -
    have "Suc k \<in> claimed b ms m"
      using that LeastI [of "\<lambda>i. i \<in> claimed b ms m"] by (auto simp: firstClaimed_def firstWith_def split: if_splits)
    then show ?thesis by (auto simp: claimed_def claimedBy_def split: if_splits)
  qed
  then have "truncateAtCheckpoint m k = m\<lparr>m_to := pathCell m (Suc k), arrival_time_ms := start_time_ms m + 1000 * int (Suc k)\<rparr>"
    if "firstClaimed b ms m = Some (Suc k)" for k
    using truncate_fields [of k m] that by (simp add: pathTime_def MS_PER_SQUARE_TRAVELED_def)
  then show ?thesis
    using assms(2) unfolding applyNearMiss_first [OF assms(1)]
    by (auto split: if_splits option.splits nat.splits)
qed

section \<open>Arrivals\<close>

text \<open>
  What a slide does on arrival, cell by cell: the board, the cooldowns, the captured pieces and the
  king flag.
\<close>

lemma resolve_slide_outcome:
  fixes a :: arbiter
  assumes "m_from m \<noteq> m_to m" "isWithinBounds (arb_board a) (m_from m)" "isWithinBounds (arb_board a) (m_to m)"
    and "board_shape (arb_board a)" "resolve g m (a, kc) = (a', kc')"
  defines "b \<equiv> arb_board a" and "b' \<equiv> arb_board a'"
  defines "mover \<equiv> slot b (m_from m)" and "target \<equiv> slot b (m_to m)"
  shows "active_motions a' = active_motions a"
    and "map_of (cooldown_until_ms a') i =
      (if i = piece_id m then Some (g + LONG_REST_MS) else map_of (cooldown_until_ms a) i)"
    and "isWithinBounds b q \<Longrightarrow> q \<noteq> m_from m \<Longrightarrow> q \<noteq> m_to m \<Longrightarrow> slot b' q = slot b q"
    and "getId mover \<noteq> piece_id m \<Longrightarrow> b' = b \<and> captured_pieces a' = captured_pieces a \<and> kc' = kc"
    and "getId mover = piece_id m \<Longrightarrow> getState target = Jump \<or> getState target = ShortRest \<Longrightarrow>
      slot b' (m_from m) = emptyPiece (m_from m) \<and> slot b' (m_to m) = target \<and>
      captured_pieces a' = captured_pieces a @ [mover\<lparr>getState := Captured\<rparr>] \<and> kc' = kc"
    and "getId mover = piece_id m \<Longrightarrow> \<not> (getState target = Jump \<or> getState target = ShortRest) \<Longrightarrow>
      collisionEnabled a \<and> getColor target = getColor mover \<and> getKind mover \<noteq> Knight \<Longrightarrow>
      slot b' (m_from m) = transitionTo LongRest mover \<and> slot b' (m_to m) = target \<and>
      captured_pieces a' = captured_pieces a \<and> kc' = kc"
    and "getId mover = piece_id m \<Longrightarrow> \<not> (getState target = Jump \<or> getState target = ShortRest) \<Longrightarrow>
      \<not> (collisionEnabled a \<and> getColor target = getColor mover \<and> getKind mover \<noteq> Knight) \<Longrightarrow>
      slot b' (m_from m) = emptyPiece (m_from m) \<and>
      slot b' (m_to m) = (transitionTo LongRest mover)\<lparr>getCell := m_to m, getKind :=
        (if getKind mover = Pawn \<and> row (m_to m) = (if getColor mover = White then 0 else getHeight b - 1)
         then Queen else getKind mover)\<rparr> \<and>
      captured_pieces a' = captured_pieces a @ (if getKind target = NoKind then [] else [target\<lparr>getState := Captured\<rparr>]) \<and>
      (kc' \<longleftrightarrow> kc \<or> getKind target = King)"
proof -
  note r = resolve_slide [OF assms(1-4), of g kc, unfolded assms(5), folded b_def, folded mover_def target_def]
  note w = assms(1-4) [folded b_def]
  have cap: "transitionTo Captured p = p\<lparr>getState := Captured\<rparr>" for p
    by (simp add: transitionTo_def isLegalTransition_def)
  note s = takePiece_eq defendsCell_def slot_laws arrivedBoard_slot arrived_def Let_def w assms(1) [symmetric] cap
  show "active_motions a' = active_motions a"
    using r w by (auto simp: takePiece_eq arrived_def Let_def b_def split: if_splits)
  show "map_of (cooldown_until_ms a') i =
      (if i = piece_id m then Some (g + LONG_REST_MS) else map_of (cooldown_until_ms a) i)"
    using r w by (auto simp: takePiece_eq arrived_def Let_def b_def cooled_def update_conv split: if_splits)
  show "isWithinBounds b q \<Longrightarrow> q \<noteq> m_from m \<Longrightarrow> q \<noteq> m_to m \<Longrightarrow> slot b' q = slot b q"
    using r w by (auto simp: b'_def s b_def [symmetric] split: if_splits)
  show "getId mover \<noteq> piece_id m \<Longrightarrow> b' = b \<and> captured_pieces a' = captured_pieces a \<and> kc' = kc"
    using r by (simp add: b'_def b_def)
  show "getId mover = piece_id m \<Longrightarrow> getState target = Jump \<or> getState target = ShortRest \<Longrightarrow>
      slot b' (m_from m) = emptyPiece (m_from m) \<and> slot b' (m_to m) = target \<and>
      captured_pieces a' = captured_pieces a @ [mover\<lparr>getState := Captured\<rparr>] \<and> kc' = kc"
    using r w by (auto simp: b'_def s b_def [symmetric] mover_def target_def)
  show "getId mover = piece_id m \<Longrightarrow> \<not> (getState target = Jump \<or> getState target = ShortRest) \<Longrightarrow>
      collisionEnabled a \<and> getColor target = getColor mover \<and> getKind mover \<noteq> Knight \<Longrightarrow>
      slot b' (m_from m) = transitionTo LongRest mover \<and> slot b' (m_to m) = target \<and>
      captured_pieces a' = captured_pieces a \<and> kc' = kc"
    using r w by (auto simp: b'_def s b_def [symmetric] mover_def target_def)
  assume c: "getId mover = piece_id m" "\<not> (getState target = Jump \<or> getState target = ShortRest)"
    "\<not> (collisionEnabled a \<and> getColor target = getColor mover \<and> getKind mover \<noteq> Knight)"
  then have e: "a' = arrived g m (cooled g m a)" "kc' \<longleftrightarrow> kc \<or> getKind target = King"
    using r by (auto simp: defendsCell_def)
  have mp: "(if promotes m b then promoteTo Queen (movedPiece m b) else movedPiece m b) =
     (transitionTo LongRest mover)\<lparr>getCell := m_to m, getKind :=
        (if getKind mover = Pawn \<and> row (m_to m) = (if getColor mover = White then 0 else getHeight b - 1)
         then Queen else getKind mover)\<rparr>"
    by (cases "transitionTo LongRest mover", cases mover)
      (auto simp: promotes_def promotionRow_def movedPiece_def promoteTo_def setCell_def mover_def [symmetric] transitionTo_def split: if_splits)
  have b': "b' = arrivedBoard m b" by (simp add: b'_def e(1) arrived_def Let_def b_def)
  show "slot b' (m_from m) = emptyPiece (m_from m) \<and>
      slot b' (m_to m) = (transitionTo LongRest mover)\<lparr>getCell := m_to m, getKind :=
        (if getKind mover = Pawn \<and> row (m_to m) = (if getColor mover = White then 0 else getHeight b - 1)
         then Queen else getKind mover)\<rparr> \<and>
      captured_pieces a' = captured_pieces a @ (if getKind target = NoKind then [] else [target\<lparr>getState := Captured\<rparr>]) \<and>
      (kc' \<longleftrightarrow> kc \<or> getKind target = King)"
    using w e(2) unfolding mp [symmetric] b' by (simp add: arrivedBoard_slot, simp add: e(1) arrived_def Let_def cap target_def b_def)
qed

end
