(* ===== verification/Engine_Laws.thy ===== *)
theory Engine_Laws
  imports Board_IO First_Events
begin

text \<open>
  What the operations of \<open>server/engine/GameEngine.cpp\<close> promise their callers: the answer of a
  request and what it changes, that a finished game accepts nothing, that requests leave no piece
  stuck, and what a snapshot contains.
\<close>

section \<open>Requests\<close>

lemma requestMove_game_over: "game_over e \<Longrightarrow> requestMove from to e = (Result False ''game_over'', e)"
  by (simp add: requestMove_def)

lemma requestJump_game_over: "game_over e \<Longrightarrow> requestJump pos e = (Result False ''game_over'', e)"
  by (simp add: requestJump_def)

text \<open>A request that is refused changes nothing but the premove of the piece it names.\<close>

lemma startMove_refused:
  assumes ok: "engine_ok e" and r: "\<not> is_accepted (fst (startMove from to e))"
  shows "snd (startMove from to e) = e"
proof (cases "is_valid (validateMove (eng_board e) from to (simultaneousMode e))")
  case False
  then show ?thesis by (simp add: startMove_eq)
next
  case True
  note f = valid_move_facts [OF True engine_okD(2) [OF ok]]
  have "0 < getId (slot (eng_board e) from)"
    using board_wfD(3) [OF engine_okD(2) [OF ok] f(1)] f(4) by (simp add: piece_ok_def)
  then show ?thesis
    using True r by (cases rule: addMotion_cases [OF f(1-3)]) (auto simp: startMove_eq Let_def)
qed

lemma requestMove_refused:
  assumes "engine_ok e" "\<not> is_accepted (fst (requestMove from to e))"
  shows "snd (requestMove from to e) = e \<or>
    (\<exists>piece. getPiece (eng_board e) from = Some piece \<and> isRestingState (getState piece) \<and>
       snd (requestMove from to e) = e\<lparr>premoves := AList.delete (getId piece) (premoves e)\<rparr>)"
  using assms startMove_refused [OF assms(1), of "from" to]
  by (auto simp: requestMove_def Let_def split: option.splits if_splits)

lemma startMove_motion:
  assumes ok: "engine_ok e" and s: "startMove from to e = (Result True ''ok'', e')"
  defines "full \<equiv> \<lparr>m_from = from, m_to = to, start_time_ms = clock e,
      arrival_time_ms = clock e + calcTravelTime from to, piece_id = getId (slot (eng_board e) from)\<rparr>"
  obtains m where "(if simultaneousMode e then applyNearMiss (eng_board e) (active_motions (eng_arbiter e)) full
        else Some full) = Some m"
    "e' = e\<lparr>eng_arbiter := (eng_arbiter e)\<lparr>active_motions := active_motions (eng_arbiter e) @ [m],
       arb_board := withPiece from (transitionTo Moving) (eng_board e)\<rparr>\<rparr>"
    "is_valid (validateMove (eng_board e) from to (simultaneousMode e))"
  using s engine_okD(6) [OF ok]
  by (auto simp: startMove_eq addMotion_def Let_def full_def split: if_splits option.splits)

lemma requestMove_started:
  assumes ok: "engine_ok e" and r: "requestMove from to e = (Result True ''ok'', e')"
  defines "full \<equiv> \<lparr>m_from = from, m_to = to, start_time_ms = clock e,
      arrival_time_ms = clock e + 1000 * chebyshev from to, piece_id = getId (slot (eng_board e) from)\<rparr>"
  shows "is_valid (validateMove (eng_board e) from to (simultaneousMode e))"
    and "e' = e\<lparr>eng_arbiter := (eng_arbiter e)\<lparr>active_motions := active_motions (eng_arbiter e) @
         [if \<not> simultaneousMode e \<or> getKind (slot (eng_board e) from) = Knight then full
          else case firstClaimed (eng_board e) (active_motions (eng_arbiter e)) full of None \<Rightarrow> full
            | Some j \<Rightarrow> full\<lparr>m_to := pathCell full j, arrival_time_ms := clock e + 1000 * int j\<rparr>],
       arb_board := withPiece from (transitionTo Moving) (eng_board e)\<rparr>\<rparr>"
proof -
  have s: "startMove from to e = (Result True ''ok'', e')"
    using r by (auto simp: requestMove_def Let_def split: if_splits option.splits)
  have "full = \<lparr>m_from = from, m_to = to, start_time_ms = clock e,
      arrival_time_ms = clock e + calcTravelTime from to, piece_id = getId (slot (eng_board e) from)\<rparr>"
    by (simp add: full_def calcTravelTime_chebyshev)
  with startMove_motion [OF ok s] obtain m where
    m: "(if simultaneousMode e then applyNearMiss (eng_board e) (active_motions (eng_arbiter e)) full else Some full) = Some m"
    "e' = e\<lparr>eng_arbiter := (eng_arbiter e)\<lparr>active_motions := active_motions (eng_arbiter e) @ [m],
       arb_board := withPiece from (transitionTo Moving) (eng_board e)\<rparr>\<rparr>"
    and v: "is_valid (validateMove (eng_board e) from to (simultaneousMode e))" by metis
  show "is_valid (validateMove (eng_board e) from to (simultaneousMode e))" by (fact v)
  have w: "isWithinBounds (eng_board e) from"
    by (rule valid_move_facts(1) [OF v engine_okD(2) [OF ok]])
  have "m = (if \<not> simultaneousMode e \<or> getKind (slot (eng_board e) from) = Knight then full
          else case firstClaimed (eng_board e) (active_motions (eng_arbiter e)) full of None \<Rightarrow> full
            | Some j \<Rightarrow> full\<lparr>m_to := pathCell full j, arrival_time_ms := clock e + 1000 * int j\<rparr>)"
    using m(1) w applyNearMiss_motion [of "eng_board e" full "active_motions (eng_arbiter e)" m]
    by (auto simp: full_def split: if_splits option.splits)
  with m(2) show "e' = e\<lparr>eng_arbiter := (eng_arbiter e)\<lparr>active_motions := active_motions (eng_arbiter e) @
         [if \<not> simultaneousMode e \<or> getKind (slot (eng_board e) from) = Knight then full
          else case firstClaimed (eng_board e) (active_motions (eng_arbiter e)) full of None \<Rightarrow> full
            | Some j \<Rightarrow> full\<lparr>m_to := pathCell full j, arrival_time_ms := clock e + 1000 * int j\<rparr>],
       arb_board := withPiece from (transitionTo Moving) (eng_board e)\<rparr>\<rparr>" by simp
qed

text \<open>
  Requests leave every piece with a way back to \<open>Idle\<close>. In turn-by-turn mode that a jumping
  piece is not sent off follows from its own jump, which \<open>hasMotionOnPath\<close> finds.
\<close>

lemma live_startMove:
  assumes ok: "engine_ok e" and live: "live (eng_arbiter e)"
    and st: "isWithinBounds (eng_board e) from \<Longrightarrow> getState (slot (eng_board e) from) \<noteq> Jump"
  shows "live (eng_arbiter (snd (startMove from to e)))"
proof (cases "is_valid (validateMove (eng_board e) from to (simultaneousMode e))")
  case False
  then show ?thesis using live by (simp add: startMove_eq)
next
  case True
  note f = valid_move_facts [OF True engine_okD(2) [OF ok]]
  show ?thesis
    using True addMotion_laws(3) [OF engine_okD(1) [OF ok] f live] st [OF f(1)]
    by (simp add: startMove_eq Let_def)
qed

lemma jumper_on_path:
  assumes "engine_ok e" "live (eng_arbiter e)" "isWithinBounds (eng_board e) from"
    and "getState (slot (eng_board e) from) = Jump"
  shows "hasMotionOnPath e from to"
proof -
  have "ownJump (active_motions (eng_arbiter e)) (slot (eng_board e) from)"
    using assms(2-4) by (auto simp: live_def live_at_def live_piece_def dest!: spec [of _ "from"])
  then show ?thesis
    using board_wfD(2) [OF engine_okD(2) [OF assms(1)] assms(3)]
    by (auto simp: ownJump_def hasMotionOnPath_def list_ex_iff)
qed

lemma live_requestMove:
  assumes "engine_ok e" "live (eng_arbiter e)"
  shows "live (eng_arbiter (snd (requestMove from to e)))"
proof (cases "isWithinBounds (eng_board e) from \<and> getState (slot (eng_board e) from) = Jump")
  case True
  then have "snd (requestMove from to e) = e"
    using jumper_on_path [OF assms, of "from" to] by (simp add: requestMove_def getPiece_def isBusyState_def)
  then show ?thesis using assms(2) by simp
next
  case False
  then have "live (eng_arbiter (snd (startMove from to e)))" by (intro live_startMove assms) simp
  then show ?thesis using assms(2) by (auto simp: requestMove_def Let_def split: option.split)
qed

lemma live_requestJump:
  assumes ok: "engine_ok e" and live: "live (eng_arbiter e)"
  shows "live (eng_arbiter (snd (requestJump pos e)))"
proof -
  have "live (addJump pos (getId (slot (eng_board e) pos)) (eng_arbiter e))"
    if v: "is_valid (validateJump (eng_board e) pos)"
      and b: "\<not> isPieceBusy (eng_arbiter e) (getId (slot (eng_board e) pos))"
  proof -
    have w: "isWithinBounds (eng_board e) pos" "getColor (slot (eng_board e) pos) \<noteq> NoColor"
      using v by (simp_all add: validateJump_valid_iff)
    then have "getKind (slot (eng_board e) pos) \<noteq> NoKind"
      using board_wfD(3) [OF engine_okD(2) [OF ok], of pos] by (auto simp: piece_ok_def)
    then show ?thesis using addJump_laws(3) [OF engine_okD(1) [OF ok] w(1) _ live b] by blast
  qed
  moreover have "isWithinBounds (eng_board e) pos" if "is_valid (validateJump (eng_board e) pos)"
    using that by (simp add: validateJump_valid_iff)
  ultimately show ?thesis
    using live by (auto simp: requestJump_def Let_def getPiece_def)
qed

section \<open>Runs\<close>

lemma engine_run_frame:
  assumes "engine_ok e" "list_all event_ok evs"
  shows "(game_over e \<longrightarrow> game_over (fold engine_step evs e)) \<and>
    getWidth (eng_board (fold engine_step evs e)) = getWidth (eng_board e) \<and>
    getHeight (eng_board (fold engine_step evs e)) = getHeight (eng_board e)"
  using assms
proof (induction evs arbitrary: e)
  case (Cons ev evs)
  then show ?case using engine_step_laws(1,4,5,6) [of e ev] by simp
qed simp

section \<open>Snapshots\<close>

lemma pieces_snapshot:
  "pieces (snapshot e) = map (\<lambda>p. snapshotPiece (eng_arbiter e) p (slot (eng_board e) p))
     (filter (\<lambda>p. getKind (slot (eng_board e) p) \<noteq> NoKind)
       (cellsOf (getHeight (eng_board e)) (getWidth (eng_board e))))"
proof -
  let ?b = "eng_board e" and ?sp = "\<lambda>p. snapshotPiece (eng_arbiter e) p (slot (eng_board e) p)"
  let ?cell = "\<lambda>p. case getPiece ?b p of None \<Rightarrow> [] | Some piece \<Rightarrow>
    if getKind piece = NoKind then [] else [snapshotPiece (eng_arbiter e) p piece]"
  have single: "concat (map (\<lambda>c. if P c then [] else [f c]) xs) = map f (filter (\<lambda>c. \<not> P c) xs)" for P f and xs :: "int list"
    by (induction xs) auto
  have cells: "concat (map (\<lambda>c. ?cell (Pos r c)) [0..getWidth ?b - 1]) =
      map (\<lambda>c. ?sp (Pos r c)) (filter (\<lambda>c. getKind (slot ?b (Pos r c)) \<noteq> NoKind) [0..getWidth ?b - 1])"
    if "r \<in> set [0..getHeight ?b - 1]" for r
  proof -
    have "map (\<lambda>c. ?cell (Pos r c)) [0..getWidth ?b - 1] =
        map (\<lambda>c. if getKind (slot ?b (Pos r c)) = NoKind then [] else [?sp (Pos r c)]) [0..getWidth ?b - 1]"
      using that by (intro map_cong) (simp_all add: getPiece_def isWithinBounds_def)
    then show ?thesis by (simp only: single)
  qed
  have "map (\<lambda>r. concat (map (\<lambda>c. ?cell (Pos r c)) [0..getWidth ?b - 1])) [0..getHeight ?b - 1] =
      map (\<lambda>r. map (\<lambda>c. ?sp (Pos r c)) (filter (\<lambda>c. getKind (slot ?b (Pos r c)) \<noteq> NoKind) [0..getWidth ?b - 1]))
        [0..getHeight ?b - 1]"
    by (rule map_cong [OF refl cells])
  from arg_cong [OF this, of concat] show ?thesis
    by (simp add: snapshot_def cellsOf_def Let_def filter_concat map_concat filter_map comp_def del: map_eq_conv)
qed

lemma snapshotPiece_fields [simp]:
  "sp_id (snapshotPiece a p x) = getId x" "sp_kind (snapshotPiece a p x) = getKind x"
  "sp_color (snapshotPiece a p x) = getColor x" "sp_cell (snapshotPiece a p x) = p"
  "sp_state (snapshotPiece a p x) = getState x"
  by (simp_all add: snapshotPiece_def Let_def case_prod_beta)

lemma snapshot_row_major: "sorted_wrt (<) (map sp_cell (pieces (snapshot e)))"
  using sorted_wrt_filter [OF sorted_cells]
  by (simp add: pieces_snapshot comp_def snapshotPiece_fields)

lemma in_pieces_snapshot:
  "sp \<in> set (pieces (snapshot e)) \<longleftrightarrow> (\<exists>p. isWithinBounds (eng_board e) p \<and>
     getKind (slot (eng_board e) p) \<noteq> NoKind \<and> sp = snapshotPiece (eng_arbiter e) p (slot (eng_board e) p))"
  by (auto simp: pieces_snapshot cellsOf_set isWithinBounds_def)

lemma snapshot_ids_distinct:
  assumes "board_wf (eng_board e)"
  shows "distinct (map sp_id (pieces (snapshot e)))"
  using board_wf_unique [OF assms] cellsOf_distinct [of "getHeight (eng_board e)" "getWidth (eng_board e)"]
  by (auto simp: pieces_snapshot distinct_map comp_def inj_on_def cellsOf_set isWithinBounds_def)

lemma snapshotPiece_progress:
  assumes "engine_ok e"
  defines "sp \<equiv> \<lambda>p x. snapshotPiece (eng_arbiter e) p x"
  shows "0 \<le> travelProgress (sp p x)" "travelProgress (sp p x) < 1" "restProgress (sp p x) \<le> 1"
proof -
  have "start_time_ms m \<le> clock e \<and> clock e < arrival_time_ms m"
    if "find P (active_motions (eng_arbiter e)) = Some m" for P m
  proof -
    have "m \<in> set (active_motions (eng_arbiter e))" using that by (auto simp: find_Some_iff)
    then show ?thesis using engine_okD(4) [OF assms(1)] arbiter_okD(3) [OF engine_okD(1) [OF assms(1)]]
      by (auto simp: motion_ok_def)
  qed
  then show "0 \<le> travelProgress (sp p x)" "travelProgress (sp p x) < 1" "restProgress (sp p x) \<le> 1"
    by (fastforce simp: sp_def snapshotPiece_def Let_def divide_less_eq split: option.split)+
qed

end
