(* ===== verification/Dispatch.thy ===== *)
theory Dispatch
  imports Codecs Engine_Laws
begin

text \<open>
  From a click to the engine: \<open>client/input/BoardMapper.cpp\<close>, \<open>client/view/BoardScale.h\<close>,
  \<open>shared/input/ClickResolver.cpp\<close>, \<open>client/input/Controller.cpp\<close> on the client,
  \<open>server/app/logic/CommandDispatcher.cpp\<close> with its \<open>MoveCommand\<close> and \<open>JumpCommand\<close> on the server.
  The lemmas say who may move what: a message changes the engine only on behalf of the owner of
  the piece it names, and a click of a seated player turns into exactly that request.
\<close>

section \<open>The dispatcher\<close>

record dispatch_result =
  success :: bool
  dr_message :: string

abbreviation Dispatched :: "bool \<Rightarrow> string \<Rightarrow> dispatch_result" where
  "Dispatched s m \<equiv> \<lparr>success = s, dr_message = m\<rparr>"

definition positionFromJson :: "json \<Rightarrow> json_error + position" where
  "positionFromJson j =
     sbind (sbind (jat ''row'' j) getInt) (\<lambda>r. sbind (sbind (jat ''col'' j) getInt) (\<lambda>c. Inr (Pos r c)))"

definition pieceAt :: "game_snapshot \<Rightarrow> position \<Rightarrow> snapshot_piece option" where
  "pieceAt snap pos = find (\<lambda>p. sp_cell p = pos) (pieces snap)"

definition executeMoveCommand :: "position \<Rightarrow> position \<Rightarrow> game_engine \<Rightarrow> move_result \<times> game_engine" where
  "executeMoveCommand from to e = requestMove from to e"

definition executeJumpCommand :: "position \<Rightarrow> game_engine \<Rightarrow> move_result \<times> game_engine" where
  "executeJumpCommand pos e = requestJump pos e"

text \<open>The two cases of the \<open>switch\<close> that act on the engine; \<open>Inl\<close> is an exception of the JSON library.\<close>

definition dispatchMove :: "json \<Rightarrow> game_engine \<Rightarrow> color \<Rightarrow> json_error + (dispatch_result \<times> game_engine)" where
  "dispatchMove pl e senderColor =
     (if senderColor = NoColor then Inr (Dispatched False ''spectators cannot move pieces'', e)
      else sbind (sbind (jat ''from'' pl) positionFromJson) (\<lambda>from.
           sbind (sbind (jat ''to'' pl) positionFromJson) (\<lambda>to.
           Inr (case pieceAt (snapshot e) from of
                  None \<Rightarrow> (Dispatched False ''not your piece'', e)
                | Some mover \<Rightarrow>
                    if sp_color mover \<noteq> senderColor then (Dispatched False ''not your piece'', e)
                    else let (r, e') = executeMoveCommand from to e
                         in (Dispatched (is_accepted r) (mr_reason r), e')))))"

definition dispatchJump :: "json \<Rightarrow> game_engine \<Rightarrow> color \<Rightarrow> json_error + (dispatch_result \<times> game_engine)" where
  "dispatchJump pl e senderColor =
     (if senderColor = NoColor then Inr (Dispatched False ''spectators cannot move pieces'', e)
      else sbind (sbind (jat ''pos'' pl) positionFromJson) (\<lambda>pos.
           Inr (case pieceAt (snapshot e) pos of
                  None \<Rightarrow> (Dispatched False ''not your piece'', e)
                | Some mover \<Rightarrow>
                    if sp_color mover \<noteq> senderColor then (Dispatched False ''not your piece'', e)
                    else let (r, e') = executeJumpCommand pos e
                         in (Dispatched (is_accepted r) (mr_reason r), e'))))"

text \<open>The \<open>switch\<close> has no case for \<open>Auth\<close>, which reaches the statement after it.\<close>

definition dispatch :: "(json_error \<Rightarrow> string) \<Rightarrow> message \<Rightarrow> game_engine \<Rightarrow> color \<Rightarrow> dispatch_result \<times> game_engine" where
  "dispatch what m e senderColor =
     (let refuse = (\<lambda>s. Inr (Dispatched False s, e));
          outcome =
            (case msg_type m of
               MoveMsg \<Rightarrow> dispatchMove (payload m) e senderColor
             | JumpMsg \<Rightarrow> dispatchJump (payload m) e senderColor
             | Hello \<Rightarrow> Inr (Dispatched True ''hello acknowledged'', e)
             | SnapshotMsg \<Rightarrow> refuse ''clients may not send SNAPSHOT messages''
             | Login \<Rightarrow> refuse ''login must be handled before dispatch''
             | JoinRoom \<Rightarrow> refuse ''room messages must be handled before dispatch''
             | FindGame \<Rightarrow> refuse ''FindGame must be handled before dispatch''
             | GameFound \<Rightarrow> refuse ''GameFound is server-to-client only''
             | MoveLogged \<Rightarrow> refuse ''MoveLogged is server-to-client only''
             | CaptureEventMsg \<Rightarrow> refuse ''CaptureEvent is server-to-client only''
             | EnterRoom \<Rightarrow> refuse ''EnterRoom must be handled before dispatch''
             | Auth \<Rightarrow> refuse ''unknown message type'')
      in case outcome of
           Inr r \<Rightarrow> r
         | Inl ex \<Rightarrow> (Dispatched False (''malformed payload: '' @ what ex), e))"

section \<open>Clicks\<close>

definition CELL_SIZE :: int where "CELL_SIZE = 100"
definition MIN_CELL_SIZE :: int where "MIN_CELL_SIZE = 60"
definition MAX_CELL_SIZE :: int where "MAX_CELL_SIZE = 120"

definition setCellSize :: "int \<Rightarrow> int" where
  "setCellSize n = max MIN_CELL_SIZE (min MAX_CELL_SIZE n)"

definition mapToPosition :: "int \<Rightarrow> int \<Rightarrow> int \<Rightarrow> position" where
  "mapToPosition x y cellSize = Pos (y sdiv cellSize) (x sdiv cellSize)"

datatype click_outcome_type = NoOp | Selected | SendMove | SendJump

record click_outcome =
  co_type :: click_outcome_type
  co_from :: position
  co_to :: position
  co_pos :: position

definition findAt :: "game_snapshot \<Rightarrow> position \<Rightarrow> snapshot_piece option" where
  "findAt snap pos = find (\<lambda>p. sp_cell p = pos) (pieces snap)"

definition resolveClick :: "game_snapshot \<Rightarrow> position option \<Rightarrow> position \<Rightarrow> color option \<Rightarrow> click_outcome" where
  "resolveClick snap selectedPos clickedPos myColor =
     (case selectedPos of
        None \<Rightarrow>
          (case findAt snap clickedPos of
             Some piece \<Rightarrow>
               if myColor = None \<or> myColor = Some (sp_color piece)
               then \<lparr>co_type = Selected, co_from = Pos 0 0, co_to = Pos 0 0, co_pos = clickedPos\<rparr>
               else \<lparr>co_type = NoOp, co_from = Pos 0 0, co_to = Pos 0 0, co_pos = Pos 0 0\<rparr>
           | None \<Rightarrow> \<lparr>co_type = NoOp, co_from = Pos 0 0, co_to = Pos 0 0, co_pos = Pos 0 0\<rparr>)
      | Some sel \<Rightarrow>
          if clickedPos = sel
          then \<lparr>co_type = SendJump, co_from = Pos 0 0, co_to = Pos 0 0, co_pos = clickedPos\<rparr>
          else (case (findAt snap clickedPos, findAt snap sel) of
                  (Some clickedPiece, Some selectedPiece) \<Rightarrow>
                    if sp_color clickedPiece = sp_color selectedPiece \<and> sp_color clickedPiece \<noteq> NoColor \<and>
                       sp_kind selectedPiece \<noteq> Knight
                    then \<lparr>co_type = Selected, co_from = Pos 0 0, co_to = Pos 0 0, co_pos = clickedPos\<rparr>
                    else \<lparr>co_type = SendMove, co_from = sel, co_to = clickedPos, co_pos = Pos 0 0\<rparr>
                | _ \<Rightarrow> \<lparr>co_type = SendMove, co_from = sel, co_to = clickedPos, co_pos = Pos 0 0\<rparr>))"

definition moveMessage :: "position \<Rightarrow> position \<Rightarrow> message" where
  "moveMessage from to =
     \<lparr>msg_type = MoveMsg, payload = JObj [(''from'', encodePosition from), (''to'', encodePosition to)]\<rparr>"

definition jumpMessage :: "position \<Rightarrow> message" where
  "jumpMessage pos = \<lparr>msg_type = JumpMsg, payload = JObj [(''pos'', encodePosition pos)]\<rparr>"

text \<open>
  The controller: its selection and the messages it has handed to \<open>send\<close>, which the code encodes
  at this point and \<open>encodeMessage\<close> models.
\<close>

record controller =
  selectedPos :: "position option"
  myColor :: "color option"
  sent :: "message list"

definition handleMouseClick ::
  "game_snapshot \<Rightarrow> int \<Rightarrow> int \<Rightarrow> int \<Rightarrow> controller \<Rightarrow> click_outcome_type \<times> controller" where
  "handleMouseClick currentSnapshot cellSize x y c =
     (let boardWidthPx = board_width currentSnapshot * cellSize;
          boardHeightPx = board_height currentSnapshot * cellSize
      in if x < 0 \<or> y < 0 \<or> x \<ge> boardWidthPx \<or> y \<ge> boardHeightPx
         then (NoOp, c\<lparr>selectedPos := None\<rparr>)
         else let clickedPos = mapToPosition x y cellSize;
                  outcome = resolveClick currentSnapshot (selectedPos c) clickedPos (myColor c)
              in (co_type outcome,
                  case co_type outcome of
                    Selected \<Rightarrow> c\<lparr>selectedPos := Some (co_pos outcome)\<rparr>
                  | SendMove \<Rightarrow> c\<lparr>sent := sent c @ [moveMessage (co_from outcome) (co_to outcome)], selectedPos := None\<rparr>
                  | SendJump \<Rightarrow> c\<lparr>sent := sent c @ [jumpMessage (co_pos outcome)], selectedPos := None\<rparr>
                  | NoOp \<Rightarrow> c))"

definition controllerSnapshot :: "game_snapshot \<Rightarrow> controller \<Rightarrow> game_snapshot" where
  "controllerSnapshot currentSnapshot c =
     (case selectedPos c of
        None \<Rightarrow> currentSnapshot
      | Some pos \<Rightarrow> currentSnapshot\<lparr>has_selection := True, selected_cell := pos\<rparr>)"

section \<open>Who may move what\<close>

lemma pieceAt_snapshot:
  "pieceAt (snapshot e) pos =
     (if isWithinBounds (eng_board e) pos \<and> getKind (slot (eng_board e) pos) \<noteq> NoKind
      then Some (snapshotPiece (eng_arbiter e) pos (slot (eng_board e) pos)) else None)"
proof -
  have "find (\<lambda>p. sp_cell p = pos) (map f (filter P ps)) = (if pos \<in> set ps \<and> P pos then Some (f pos) else None)"
    if "\<And>p. sp_cell (f p) = p" for P ps and f :: "position \<Rightarrow> snapshot_piece"
    using that by (induction ps) auto
  then show ?thesis
    by (auto simp: pieceAt_def pieces_snapshot cellsOf_set isWithinBounds_def)
qed

lemma positionFromJson_decode: "positionFromJson = decodePosition"
  by (auto simp: fun_eq_iff positionFromJson_def decodePosition_def sbind_def split: sum.split)

text \<open>The authority rule: a real piece of that colour stands on the cell.\<close>

definition ownedBy :: "game_engine \<Rightarrow> position \<Rightarrow> color \<Rightarrow> bool" where
  "ownedBy e pos c \<longleftrightarrow> isWithinBounds (eng_board e) pos \<and> getKind (slot (eng_board e) pos) \<noteq> NoKind \<and>
     getColor (slot (eng_board e) pos) = c"

definition answer :: "move_result \<times> game_engine \<Rightarrow> dispatch_result \<times> game_engine" where
  "answer r = (Dispatched (is_accepted (fst r)) (mr_reason (fst r)), snd r)"

lemma dispatchMove_eq:
  "dispatchMove pl e c =
     (if c = NoColor then Inr (Dispatched False ''spectators cannot move pieces'', e)
      else sbind (sbind (jat ''from'' pl) decodePosition) (\<lambda>from. sbind (sbind (jat ''to'' pl) decodePosition) (\<lambda>to.
        Inr (if ownedBy e from c then answer (requestMove from to e) else (Dispatched False ''not your piece'', e)))))"
  by (auto simp: dispatchMove_def positionFromJson_decode pieceAt_snapshot ownedBy_def answer_def
      executeMoveCommand_def case_prod_beta sbind_def split: sum.split)

lemma dispatchJump_eq:
  "dispatchJump pl e c =
     (if c = NoColor then Inr (Dispatched False ''spectators cannot move pieces'', e)
      else sbind (sbind (jat ''pos'' pl) decodePosition) (\<lambda>pos.
        Inr (if ownedBy e pos c then answer (requestJump pos e) else (Dispatched False ''not your piece'', e))))"
  by (auto simp: dispatchJump_def positionFromJson_decode pieceAt_snapshot ownedBy_def answer_def
      executeJumpCommand_def case_prod_beta sbind_def split: sum.split)

lemma dispatch_effect:
  obtains (unchanged) "snd (dispatch what m e c) = e"
  | (move) "from" to where "msg_type m = MoveMsg" "c \<noteq> NoColor" "ownedBy e from c"
      "dispatch what m e c = answer (requestMove from to e)"
  | (jump) pos where "msg_type m = JumpMsg" "c \<noteq> NoColor" "ownedBy e pos c"
      "dispatch what m e c = answer (requestJump pos e)"
proof (cases "msg_type m")
  case MoveMsg
  show ?thesis
  proof (cases "dispatchMove (payload m) e c")
    case (Inl ex)
    then show ?thesis using MoveMsg by (intro unchanged) (simp add: dispatch_def)
  next
    case (Inr r)
    then have d: "dispatch what m e c = r" using MoveMsg by (simp add: dispatch_def)
    from Inr consider "snd r = e" | f t where "c \<noteq> NoColor" "ownedBy e f c" "r = answer (requestMove f t e)"
      by (auto simp: dispatchMove_eq sbind_Inr_iff split: if_splits)
    then show ?thesis
      by cases (use d MoveMsg in \<open>auto intro: unchanged move\<close>)
  qed
next
  case JumpMsg
  show ?thesis
  proof (cases "dispatchJump (payload m) e c")
    case (Inl ex)
    then show ?thesis using JumpMsg by (intro unchanged) (simp add: dispatch_def)
  next
    case (Inr r)
    then have d: "dispatch what m e c = r" using JumpMsg by (simp add: dispatch_def)
    from Inr consider "snd r = e" | p where "c \<noteq> NoColor" "ownedBy e p c" "r = answer (requestJump p e)"
      by (auto simp: dispatchJump_eq sbind_Inr_iff split: if_splits)
    then show ?thesis
      by cases (use d JumpMsg in \<open>auto intro: unchanged jump\<close>)
  qed
qed (rule unchanged, simp add: dispatch_def)+

lemma dispatch_ok:
  assumes "engine_ok e"
  shows "engine_ok (snd (dispatch what m e c))"
    and "live (eng_arbiter e) \<Longrightarrow> live (eng_arbiter (snd (dispatch what m e c)))"
    and "allIds (eng_arbiter (snd (dispatch what m e c))) = allIds (eng_arbiter e)"
  using assms steady_requestMove steady_requestJump live_requestMove live_requestJump
  by (cases rule: dispatch_effect [where what = what and m = m and e = e and c = c];
      auto simp: steady_def answer_def)+

lemma dispatch_moveMessage:
  assumes "position_fits from" "position_fits to" "c \<noteq> NoColor"
  shows "dispatch what (moveMessage from to) e c =
    (if ownedBy e from c then answer (requestMove from to e) else (Dispatched False ''not your piece'', e))"
  using assms by (simp add: dispatch_def moveMessage_def dispatchMove_eq)

lemma dispatch_jumpMessage:
  assumes "position_fits pos" "c \<noteq> NoColor"
  shows "dispatch what (jumpMessage pos) e c =
    (if ownedBy e pos c then answer (requestJump pos e) else (Dispatched False ''not your piece'', e))"
  using assms by (simp add: dispatch_def jumpMessage_def dispatchJump_eq)

section \<open>What a click does\<close>

lemma setCellSize_range: "60 \<le> setCellSize s \<and> setCellSize s \<le> 120"
  by (auto simp: setCellSize_def MIN_CELL_SIZE_def MAX_CELL_SIZE_def)

lemma sdiv_pixel:
  fixes x n s :: int
  assumes "0 \<le> x" "x < n * s" "0 < s"
  shows "0 \<le> x sdiv s" "x sdiv s < n" "x sdiv s = x div s"
proof -
  show *: "x sdiv s = x div s" using assms by (cases "x = 0") (simp_all add: signed_divide_int_def)
  show "0 \<le> x sdiv s" using assms by (simp add: * pos_imp_zdiv_nonneg_iff)
  have "x div s * s \<le> x" using assms(3) div_mult_mod_eq [of x s] pos_mod_sign [of s x] by linarith
  then have "x div s * s < n * s" using assms(2) by linarith
  then show "x sdiv s < n" using assms(3) by (simp add: *)
qed

lemma mapToPosition_within:
  assumes "0 \<le> x" "0 \<le> y" "x < getWidth b * s" "y < getHeight b * s" "0 < s"
  shows "isWithinBounds b (mapToPosition x y s)"
  using assms sdiv_pixel [of x "getWidth b" s] sdiv_pixel [of y "getHeight b" s]
  by (simp add: mapToPosition_def isWithinBounds_def)

lemma findAt_pieceAt: "findAt = pieceAt"
  by (simp add: fun_eq_iff findAt_def pieceAt_def)

lemma snapshot_size [simp]:
  "board_width (snapshot e) = getWidth (eng_board e)" "board_height (snapshot e) = getHeight (eng_board e)"
  "snap_game_over (snapshot e) = game_over e"
  by (simp_all add: snapshot_def Let_def)

definition size_fits :: "board \<Rightarrow> bool" where
  "size_fits b \<longleftrightarrow> getWidth b \<le> INT_MAX \<and> getHeight b \<le> INT_MAX"

lemma within_fits: "size_fits b \<Longrightarrow> isWithinBounds b p \<Longrightarrow> position_fits p"
  by (simp add: size_fits_def isWithinBounds_def position_fits_def fits_int_def INT_MAX_def INT_MIN_def)

lemma first_click:
  assumes "selectedPos c = None" "myColor c = Some me"
  shows "(let r = handleMouseClick (snapshot e) s x y c in
    sent (snd r) = sent c \<and> (case selectedPos (snd r) of None \<Rightarrow> fst r = NoOp | Some p \<Rightarrow> fst r = Selected \<and> ownedBy e p me))"
  using assms
  by (auto simp: handleMouseClick_def resolveClick_def findAt_pieceAt pieceAt_snapshot ownedBy_def Let_def)

lemma second_click:
  fixes x y :: int
  assumes sel: "selectedPos c = Some sel" "ownedBy e sel me" and col: "me \<noteq> NoColor"
    and s: "0 < s" and fits: "size_fits (eng_board e)"
  defines "r \<equiv> handleMouseClick (snapshot e) s x y c"
  shows "x < 0 \<or> y < 0 \<or> getWidth (eng_board e) * s \<le> x \<or> getHeight (eng_board e) * s \<le> y \<Longrightarrow>
      r = (NoOp, c\<lparr>selectedPos := None\<rparr>)"
    and "isWithinBounds (eng_board e) q \<Longrightarrow> col q * s \<le> x \<Longrightarrow> x < (col q + 1) * s \<Longrightarrow>
      row q * s \<le> y \<Longrightarrow> y < (row q + 1) * s \<Longrightarrow>
      (if q = sel then r = (SendJump, c\<lparr>selectedPos := None, sent := sent c @ [jumpMessage sel]\<rparr>) \<and>
         dispatch what (jumpMessage sel) e me = answer (requestJump sel e)
       else if ownedBy e q me \<and> getKind (slot (eng_board e) sel) \<noteq> Knight
       then r = (Selected, c\<lparr>selectedPos := Some q\<rparr>)
       else r = (SendMove, c\<lparr>selectedPos := None, sent := sent c @ [moveMessage sel q]\<rparr>) \<and>
         dispatch what (moveMessage sel q) e me = answer (requestMove sel q e))"
proof -
  show "x < 0 \<or> y < 0 \<or> getWidth (eng_board e) * s \<le> x \<or> getHeight (eng_board e) * s \<le> y \<Longrightarrow>
      r = (NoOp, c\<lparr>selectedPos := None\<rparr>)"
    by (simp add: r_def handleMouseClick_def Let_def)
  assume q: "isWithinBounds (eng_board e) q" and X: "col q * s \<le> x" "x < (col q + 1) * s"
    and Y: "row q * s \<le> y" "y < (row q + 1) * s"
  have pq: "0 \<le> col q" "0 \<le> row q" "col q + 1 \<le> getWidth (eng_board e)" "row q + 1 \<le> getHeight (eng_board e)"
    using q by (auto simp: isWithinBounds_def)
  have "0 \<le> col q * s" "0 \<le> row q * s" using pq s by simp_all
  then have 0: "0 \<le> x" "0 \<le> y" using X Y by linarith+
  have "(col q + 1) * s \<le> getWidth (eng_board e) * s" "(row q + 1) * s \<le> getHeight (eng_board e) * s"
    using pq s by (simp_all add: mult_right_mono)
  then have in_board: "\<not> (x < 0 \<or> y < 0 \<or> getWidth (eng_board e) * s \<le> x \<or> getHeight (eng_board e) * s \<le> y)"
    using X Y 0 by linarith
  have "x div s = col q" by (rule int_div_pos_eq [where r = "x - col q * s"]) (use X in \<open>auto simp: algebra_simps\<close>)
  moreover have "y div s = row q" by (rule int_div_pos_eq [where r = "y - row q * s"]) (use Y in \<open>auto simp: algebra_simps\<close>)
  ultimately have m: "mapToPosition x y s = q"
    using sdiv_pixel(3) [OF 0(1) X(2) s] sdiv_pixel(3) [OF 0(2) Y(2) s] by (cases q) (simp add: mapToPosition_def)
  have f: "position_fits q" "position_fits sel" using within_fits [OF fits] q sel(2) by (auto simp: ownedBy_def)
  note d = dispatch_moveMessage [OF f(2,1) col, of what e] dispatch_jumpMessage [OF f(2) col, of what e]
  show "(if q = sel then r = (SendJump, c\<lparr>selectedPos := None, sent := sent c @ [jumpMessage sel]\<rparr>) \<and>
         dispatch what (jumpMessage sel) e me = answer (requestJump sel e)
       else if ownedBy e q me \<and> getKind (slot (eng_board e) sel) \<noteq> Knight
       then r = (Selected, c\<lparr>selectedPos := Some q\<rparr>)
       else r = (SendMove, c\<lparr>selectedPos := None, sent := sent c @ [moveMessage sel q]\<rparr>) \<and>
         dispatch what (moveMessage sel q) e me = answer (requestMove sel q e))"
    using in_board sel d col q unfolding r_def handleMouseClick_def Let_def snapshot_size m
    by (auto simp: resolveClick_def findAt_pieceAt pieceAt_snapshot ownedBy_def snapshotPiece_def Let_def case_prod_beta)
qed

end
