(* ===== verification/Session.thy ===== *)
theory Session
  imports Dispatch
begin

text \<open>
  One game room (\<open>server/app/session/GameSession.cpp\<close>, \<open>GameSession.h\<close>, \<open>RoomIdentity.h\<close>,
  \<open>shared/bus/EventBus.cpp\<close>): the engine with its observers, the queue of notifications that
  the simulation step fills and the delivery step publishes, and the report of the result. What
  the code hands to the bus and to the snapshot sender is the output of the operation.
\<close>

section \<open>The event bus\<close>

type_synonym 'h event_bus = "(string, 'h list) umap"

definition subscribe :: "string \<Rightarrow> 'h \<Rightarrow> 'h event_bus \<Rightarrow> 'h event_bus" where
  "subscribe topic handler bus =
     AList.update topic ((case map_of bus topic of None \<Rightarrow> [] | Some hs \<Rightarrow> hs) @ [handler]) bus"

text \<open>The calls \<open>publish\<close> makes, in order.\<close>

definition publish :: "'h event_bus \<Rightarrow> string \<Rightarrow> json \<Rightarrow> ('h \<times> json) list" where
  "publish bus topic data = (case map_of bus topic of None \<Rightarrow> [] | Some hs \<Rightarrow> map (\<lambda>h. (h, data)) hs)"

section \<open>State\<close>

record disconnect_status =
  ds_active :: bool
  ds_color :: color
  secondsRemaining :: int

record room_identity =
  whiteUsername :: string
  whiteElo :: int
  blackUsername :: string
  blackElo :: int
  spectatorCount :: int

record game_session =
  gs_engine :: game_engine
  gs_roomName :: string
  gs_scoreObserver :: score_observer
  gs_moveLogObserver :: move_log_observer
  gs_disconnectStatus :: disconnect_status
  gs_identity :: room_identity
  gs_gameResultPublished :: bool
  gs_snapshotSender :: bool
  gs_pending :: "(string \<times> json) list"
  gs_tickInFlight :: bool

datatype outgoing = Published string json | SnapshotSent string

definition snapshotTopic :: "string \<Rightarrow> string" where "snapshotTopic roomName = ''game-state-changed:'' @ roomName"
definition moveLogTopic :: "string \<Rightarrow> string" where "moveLogTopic roomName = ''move-logged:'' @ roomName"
definition captureTopic :: "string \<Rightarrow> string" where "captureTopic roomName = ''capture-event:'' @ roomName"
definition gameEndedTopic :: "string \<Rightarrow> string" where "gameEndedTopic roomName = ''game-ended:'' @ roomName"

definition noIdentity :: room_identity where
  "noIdentity = \<lparr>whiteUsername = [], whiteElo = 0, blackUsername = [], blackElo = 0, spectatorCount = 0\<rparr>"

definition newSession :: "board \<Rightarrow> string \<Rightarrow> bool \<Rightarrow> game_session" where
  "newSession b roomName simultaneous =
     \<lparr>gs_engine = newEngine b simultaneous, gs_roomName = roomName, gs_scoreObserver = newScoreObserver,
      gs_moveLogObserver = newMoveLogObserver (getHeight b),
      gs_disconnectStatus = \<lparr>ds_active = False, ds_color = NoColor, secondsRemaining = 0\<rparr>,
      gs_identity = noIdentity, gs_gameResultPublished = False, gs_snapshotSender = False, gs_pending = [],
      gs_tickInFlight = False\<rparr>"

definition colorName :: "color \<Rightarrow> string" where
  "colorName c = (case c of White \<Rightarrow> ''White'' | Black \<Rightarrow> ''Black'' | NoColor \<Rightarrow> ''None'')"

text \<open>The loop of \<open>survivingKingColor\<close> with its two flags.\<close>

definition kingFlags :: "snapshot_piece \<Rightarrow> bool \<times> bool \<Rightarrow> bool \<times> bool" where
  "kingFlags piece = (\<lambda>(whiteKing, blackKing).
     if sp_kind piece \<noteq> King then (whiteKing, blackKing)
     else if sp_color piece = White then (True, blackKing)
     else if sp_color piece = Black then (whiteKing, True)
     else (whiteKing, blackKing))"

definition survivingKingColor :: "game_snapshot \<Rightarrow> color" where
  "survivingKingColor snap =
     (let (whiteKing, blackKing) = fold kingFlags (pieces snap) (False, False)
      in if whiteKing \<and> \<not> blackKing then White
         else if blackKing \<and> \<not> whiteKing then Black
         else NoColor)"

section \<open>The simulation step\<close>

text \<open>
  \<open>dump\<close> and \<open>parse\<close> are those of the JSON library, \<open>reparse\<close> the round trip
  \<open>json::parse(MessageCodec::encode(msg))\<close> the callbacks make.
\<close>

definition reparse :: "(json \<Rightarrow> string) \<Rightarrow> (string \<Rightarrow> json option) \<Rightarrow> message \<Rightarrow> json_error + json" where
  "reparse dump parse m =
     sbind (encodeMessage dump m) (\<lambda>t. case parse t of None \<Rightarrow> Inl ParseError | Some j \<Rightarrow> Inr j)"

text \<open>
  One notification of the arbiter reaches the observers in the order they were added: the score
  and the capture event for a capture, the move log for a completed move. Their callbacks append
  to the queue; an exception in a callback leaves through the simulation step.
\<close>

definition observe :: "(json \<Rightarrow> string) \<Rightarrow> (string \<Rightarrow> json option) \<Rightarrow> notification \<Rightarrow> game_session \<Rightarrow>
    json_error + game_session" where
  "observe dump parse n s =
     (case n of
        PieceCaptured captured impact \<Rightarrow>
          sbind (encodeCapture (captureEventOf captured impact)) (\<lambda>j.
          sbind (reparse dump parse \<lparr>msg_type = CaptureEventMsg, payload = j\<rparr>) (\<lambda>data.
          Inr (s\<lparr>gs_scoreObserver := scorePieceCaptured captured (gs_scoreObserver s),
                gs_pending := gs_pending s @ [(captureTopic (gs_roomName s), data)]\<rparr>)))
      | MoveCompleted mover from to wasCapture gameClockMs \<Rightarrow>
          (case logMoveCompleted mover from to wasCapture gameClockMs (gs_moveLogObserver s) of
             (lo, None) \<Rightarrow> Inr (s\<lparr>gs_moveLogObserver := lo\<rparr>)
           | (lo, Some (c, entry)) \<Rightarrow>
               sbind (encodeMoveLog c entry) (\<lambda>j.
               sbind (reparse dump parse \<lparr>msg_type = MoveLogged, payload = j\<rparr>) (\<lambda>data.
               Inr (s\<lparr>gs_moveLogObserver := lo,
                     gs_pending := gs_pending s @ [(moveLogTopic (gs_roomName s), data)]\<rparr>)))))"

fun observeAll :: "(json \<Rightarrow> string) \<Rightarrow> (string \<Rightarrow> json option) \<Rightarrow> notification list \<Rightarrow> game_session \<Rightarrow>
    json_error + game_session" where
  "observeAll dump parse [] s = Inr s"
| "observeAll dump parse (n # ns) s = sbind (observe dump parse n s) (observeAll dump parse ns)"

definition stepPayload :: "game_session \<Rightarrow> json_error + json" where
  "stepPayload s =
     sbind (encodeSnapshot (snapshot (gs_engine s))) (\<lambda>j0.
     sbind (typeName SnapshotMsg) (\<lambda>t.
     sbind (jset ''type'' (JStr t) j0) (\<lambda>j1.
     sbind (jset ''score'' (JObj [(''white'', JInt (getScore (gs_scoreObserver s) White)),
                                  (''black'', JInt (getScore (gs_scoreObserver s) Black))]) j1) (\<lambda>j2.
     sbind (jset ''identity'' (JObj [(''whiteName'', JStr (whiteUsername (gs_identity s))),
                                     (''whiteElo'', JInt (whiteElo (gs_identity s))),
                                     (''blackName'', JStr (blackUsername (gs_identity s))),
                                     (''blackElo'', JInt (blackElo (gs_identity s))),
                                     (''spectatorCount'', JInt (spectatorCount (gs_identity s)))]) j2) (\<lambda>j3.
     if ds_active (gs_disconnectStatus s)
     then jset ''disconnect'' (JObj [(''active'', JBool True), (''color'', JStr (colorName (ds_color (gs_disconnectStatus s)))),
                                     (''secondsRemaining'', JInt (secondsRemaining (gs_disconnectStatus s)))]) j3
     else Inr j3)))))"

definition computeStep :: "(json \<Rightarrow> string) \<Rightarrow> (string \<Rightarrow> json option) \<Rightarrow> orders \<Rightarrow> int \<Rightarrow> game_session \<Rightarrow>
    json_error + (json \<times> game_session)" where
  "computeStep dump parse ords ms s =
     (let old = notifications (eng_arbiter (gs_engine s));
          e = wait ords ms (gs_engine s);
          new = drop (length old) (notifications (eng_arbiter e))
      in sbind (observeAll dump parse new (s\<lparr>gs_engine := e\<rparr>)) (\<lambda>s1.
         sbind (stepPayload s1) (\<lambda>j. Inr (j, s1))))"

section \<open>The delivery step and the result\<close>

definition fullMoveLog :: "game_session \<Rightarrow> json" where
  "fullMoveLog s = encodeAllMoves (getMoves (gs_moveLogObserver s) White) (getMoves (gs_moveLogObserver s) Black)"

text \<open>
  The flag is set before the result is encoded, so it stays set when encoding throws. The first
  component is what was delivered before the exception, if there is one.
\<close>

definition publishGameEnded :: "game_result \<Rightarrow> game_session \<Rightarrow> (outgoing list \<times> game_session) \<times> json_error option" where
  "publishGameEnded r s =
     (let s1 = s\<lparr>gs_gameResultPublished := True\<rparr>
      in case encodeResult r of
           Inl ex \<Rightarrow> (([], s1), Some ex)
         | Inr j \<Rightarrow> (([Published (gameEndedTopic (gs_roomName s)) j], s1), None))"

definition markDisconnectResign :: "color \<Rightarrow> string \<Rightarrow> int \<Rightarrow> game_session \<Rightarrow>
    (outgoing list \<times> game_session) \<times> json_error option" where
  "markDisconnectResign loser loserName loserRating s =
     (if gs_gameResultPublished s \<or> snap_game_over (snapshot (gs_engine s)) then (([], s), None)
      else let winnerIsWhite = (loser \<noteq> White); i = gs_identity s
           in publishGameEnded
                \<lparr>winner = (if winnerIsWhite then White else Black), end_reason = Disconnect,
                 winnerUsername = (if winnerIsWhite then whiteUsername i else blackUsername i),
                 winnerElo = (if winnerIsWhite then whiteElo i else blackElo i),
                 loserUsername = loserName, loserElo = loserRating, moveLog = fullMoveLog s\<rparr> s)"

definition publishStep :: "(json \<Rightarrow> string) \<Rightarrow> json \<Rightarrow> game_session \<Rightarrow>
    (outgoing list \<times> game_session) \<times> json_error option" where
  "publishStep dump snapshotPayload s =
     (let out = map (\<lambda>(t, j). Published t j) (gs_pending s) @
                (if gs_snapshotSender s then [SnapshotSent (dump snapshotPayload)] else []);
          s1 = s\<lparr>gs_pending := []\<rparr>
      in if \<not> gs_gameResultPublished s1 \<and> snap_game_over (snapshot (gs_engine s1))
         then let win = survivingKingColor (snapshot (gs_engine s1)); winnerIsWhite = (win = White); i = gs_identity s1;
                  ((out', s2), ex) = publishGameEnded
                    \<lparr>winner = win, end_reason = KingCapture,
                     winnerUsername = (if winnerIsWhite then whiteUsername i else blackUsername i),
                     winnerElo = (if winnerIsWhite then whiteElo i else blackElo i),
                     loserUsername = (if winnerIsWhite then blackUsername i else whiteUsername i),
                     loserElo = (if winnerIsWhite then blackElo i else whiteElo i),
                     moveLog = fullMoveLog s1\<rparr> s1
              in ((out @ out', s2), ex)
         else ((out, s1), None))"

definition setDisconnectStatus :: "disconnect_status \<Rightarrow> game_session \<Rightarrow> game_session" where
  "setDisconnectStatus st s = s\<lparr>gs_disconnectStatus := st\<rparr>"

definition setSnapshotSender :: "game_session \<Rightarrow> game_session" where
  "setSnapshotSender s = s\<lparr>gs_snapshotSender := True\<rparr>"

definition setIdentity :: "room_identity \<Rightarrow> game_session \<Rightarrow> game_session" where
  "setIdentity i s = s\<lparr>gs_identity := i\<rparr>"

definition tryBeginTick :: "game_session \<Rightarrow> bool \<times> game_session" where
  "tryBeginTick s = (if gs_tickInFlight s then (False, s) else (True, s\<lparr>gs_tickInFlight := True\<rparr>))"

definition endTick :: "game_session \<Rightarrow> game_session" where
  "endTick s = s\<lparr>gs_tickInFlight := False\<rparr>"

end
