(* ===== verification/Event_Log.thy ===== *)
theory Event_Log
  imports Engine_Laws
begin

text \<open>
  The notifications an operation of the engine sends are appended to those sent before: what one
  step reports to its observers is a suffix of the log.
\<close>

definition grows :: "arbiter \<Rightarrow> arbiter \<Rightarrow> bool" where
  "grows a a' \<longleftrightarrow> (\<exists>ns. notifications a' = notifications a @ ns)"

lemma grows_refl [simp]: "grows a a"
  by (simp add: grows_def)

lemma grows_trans: "grows a b \<Longrightarrow> grows b c \<Longrightarrow> grows a c"
  by (auto simp: grows_def)

lemma grows_same: "notifications a' = notifications a \<Longrightarrow> grows a a'"
  by (simp add: grows_def)

lemma grows_fold:
  assumes "\<And>x s. grows (g s) (g (f x s))"
  shows "grows (g s) (g (fold f xs s))"
proof (induction xs arbitrary: s)
  case (Cons x xs)
  then show ?case using assms [of s x] grows_trans by simp
qed simp

lemma grows_capturePiece: "grows a (capturePiece pos impact a)"
  by (simp add: grows_def capturePiece_def split: option.split)

lemma grows_resolveCollisions: "grows (fst s) (fst (resolveCollisions p g s))"
proof -
  have step: "grows (fst s) (fst (captureLoser ms ls im i s))" for ms ls im i s
    using grows_capturePiece
    by (auto simp: captureLoser_def grows_def Let_def case_prod_beta split: option.split)
  obtain a kc where s: "s = (a, kc)" by force
  obtain ls im where "resolveCollisions p g (a, kc) =
       (let r = fold (captureLoser (active_motions a) ls im) [0..<length (active_motions a)] (a, kc)
        in ((fst r)\<lparr>active_motions :=
              map (\<lambda>i. active_motions a ! i) (filter (\<lambda>i. \<not> ls ! i) [0..<length (active_motions a)])\<rparr>, snd r))"
    by (rule resolveCollisions_split [of a p g kc]) blast
  then show ?thesis
    using grows_fold [of fst "captureLoser (active_motions a) ls im" "(a, kc)", OF step]
    by (auto simp: s Let_def grows_def)
qed

lemma grows_friendlyBlocks: "grows a (resolveMovingFriendlyBlocks ord p g a)"
proof -
  have "grows (fst s) (fst (stopFriendly g x s))" for x s
    by (auto simp: stopFriendly_def grows_def Let_def case_prod_beta split: option.split)
  then show ?thesis
    using grows_fold [of fst "stopFriendly g" "(a, [])"]
    by (auto simp: resolveMovingFriendlyBlocks_def Let_def case_prod_beta grows_def)
qed

lemma grows_stationaryBlocks: "grows a (resolveStationaryBlocks p g a)"
  unfolding resolveStationaryBlocks_def
proof (rule stationaryLoop_invariant)
  fix i a' a'' assume "grows a a'" "stationaryRound p g i a' = Inl a'' \<or> stationaryRound p g i a' = Inr a''"
  then show "grows a a''"
    by (cases rule: stationaryRound_cases [of p g i a']) (auto simp: grows_def)
qed simp

lemma notifications_completeMove:
  "notifications (completeMove m c g a) = notifications a @ [MoveCompleted
     (slot (movePiece (m_from m) (m_to m) (arb_board a)) (if isWithinBounds (arb_board a) (m_to m) then m_to m else m_from m))
     (m_from m) (m_to m) c g]"
  by (simp add: completeMove_def Let_def)

lemma grows_resolve: "grows (fst s) (fst (resolve g m s))"
proof -
  obtain a kc where s: "s = (a, kc)" by force
  show ?thesis
    by (auto simp: s resolve_def Let_def grows_def capturePiece_def notifications_completeMove split: option.split)
qed

lemma grows_tick: "grows a (fst (tick ords ms a))"
proof -
  have wake: "grows a (wakePieces ord p a)" for ord p a
  proof -
    have "grows s (wakePiece p x s)" for x s
      by (auto simp: wakePiece_def grows_def case_prod_beta split: option.split)
    then show ?thesis using grows_fold [of id "wakePiece p" a] by (simp add: wakePieces_def)
  qed
  have arr: "grows (fst s) (fst (resolveArrivals s))" for s
  proof -
    have "grows (fst s) (fst (fold (resolve (game_clock_ms (fst s))) ms s))" for ms
      using grows_fold [of fst "resolve (game_clock_ms (fst s))", OF grows_resolve] .
    then show ?thesis
      by (auto simp: resolveArrivals_def Let_def case_prod_beta grows_def)
  qed
  have blk: "grows (fst s) (fst (resolveBlocks ords p s))" for p s
    using grows_trans [OF grows_trans [OF grows_resolveCollisions [of s p "game_clock_ms (fst s)"]
        grows_friendlyBlocks] grows_stationaryBlocks]
    by (simp add: resolveBlocks_def Let_def case_prod_beta)
  let ?s = "(a\<lparr>game_clock_ms := game_clock_ms a + ms\<rparr>, False)"
  have "grows a (fst ?s)" by (simp add: grows_def)
  from grows_trans [OF grows_trans [OF grows_trans [OF this blk] arr] wake] show ?thesis
    by (simp add: tick_def Let_def case_prod_beta)
qed

lemma notifications_addMotion [simp]: "notifications (snd (addMotion from to i a)) = notifications a"
  by (simp add: addMotion_def Let_def split: option.split)

lemma notifications_firePremoves [simp]:
  "notifications (eng_arbiter (firePremoves ord e)) = notifications (eng_arbiter e)"
proof -
  have "notifications (eng_arbiter (firePremove i e)) = notifications (eng_arbiter e)" for i e
    by (simp add: firePremove_def Let_def split: option.split)
  then have "notifications (eng_arbiter (fold firePremove is e)) = notifications (eng_arbiter e)" for "is" e
    by (induction "is" arbitrary: e) auto
  then show ?thesis by (simp add: firePremoves_def)
qed

lemma grows_wait: "grows (eng_arbiter e) (eng_arbiter (wait ords ms e))"
  using grows_tick [of "eng_arbiter e" ords ms] by (simp add: wait_eq grows_def)

lemma notifications_requests [simp]:
  "notifications (eng_arbiter (snd (requestMove from to e))) = notifications (eng_arbiter e)"
  "notifications (eng_arbiter (snd (requestJump pos e))) = notifications (eng_arbiter e)"
  by (simp_all add: requestMove_def requestJump_def startMove_eq addJump_def Let_def split: option.split)

end
