(* ===== verification/Session_Laws.thy ===== *)
theory Session_Laws
  imports Session Event_Log
begin

text \<open>
  The laws of a room: its invariant, the score as the value of what was captured, and the report
  of the result, at most one over the life of the room. The operations other parts of the server
  call on a session are the steps of a transition system; runs record what was handed out.
\<close>

section \<open>The invariant\<close>

definition queue_ok :: "game_session \<Rightarrow> bool" where
  "queue_ok s \<longleftrightarrow> list_all (\<lambda>x. fst x \<in> {moveLogTopic (gs_roomName s), captureTopic (gs_roomName s)}) (gs_pending s)"

definition session_ok :: "game_session \<Rightarrow> bool" where
  "session_ok s \<longleftrightarrow> engine_ok (gs_engine s) \<and> queue_ok s \<and>
     gs_scoreObserver s = scoreOf (notifications (eng_arbiter (gs_engine s))) newScoreObserver"

lemma scoreOf_append [simp]: "scoreOf (ms @ ns) s = scoreOf ns (scoreOf ms s)"
  by (induction ms s rule: scoreOf.induct) auto

lemma observe_frame:
  assumes "observe dump parse n s = Inr s'"
  shows "gs_engine s' = gs_engine s" "gs_roomName s' = gs_roomName s" "gs_identity s' = gs_identity s"
    "gs_gameResultPublished s' = gs_gameResultPublished s"
    "gs_scoreObserver s' = scoreOf [n] (gs_scoreObserver s)" "queue_ok s \<Longrightarrow> queue_ok s'"
  using assms
  by (auto simp: observe_def sbind_Inr_iff queue_ok_def split: notification.splits prod.splits option.splits)

lemma observeAll_frame:
  assumes "observeAll dump parse ns s = Inr s'"
  shows "gs_engine s' = gs_engine s \<and> gs_roomName s' = gs_roomName s \<and> gs_identity s' = gs_identity s \<and>
    gs_gameResultPublished s' = gs_gameResultPublished s \<and>
    gs_scoreObserver s' = scoreOf ns (gs_scoreObserver s) \<and> (queue_ok s \<longrightarrow> queue_ok s')"
  using assms
proof (induction ns arbitrary: s)
  case (Cons n ns)
  then obtain s1 where "observe dump parse n s = Inr s1" "observeAll dump parse ns s1 = Inr s'"
    by (auto simp: sbind_Inr_iff)
  then show ?case using Cons.IH [of s1] observe_frame [of dump parse n s s1] scoreOf_append [of "[n]" ns]
    by simp
qed simp

lemma computeStep_laws:
  assumes step: "computeStep dump parse ords ms s = Inr (j, s')" and ok: "session_ok s"
    and ms: "0 \<le> ms" and ords: "orders_ok ords"
  shows "session_ok s'" "gs_engine s' = wait ords ms (gs_engine s)" "gs_roomName s' = gs_roomName s"
    "gs_gameResultPublished s' = gs_gameResultPublished s" "gs_identity s' = gs_identity s"
proof -
  let ?e = "wait ords ms (gs_engine s)"
  obtain ns where ns: "notifications (eng_arbiter ?e) = notifications (eng_arbiter (gs_engine s)) @ ns"
    using grows_wait [of "gs_engine s" ords ms] by (auto simp: grows_def)
  then have "observeAll dump parse ns (s\<lparr>gs_engine := ?e\<rparr>) = Inr s'"
    using step by (auto simp: computeStep_def Let_def sbind_Inr_iff)
  from observeAll_frame [OF this]
  show "gs_engine s' = ?e" "gs_roomName s' = gs_roomName s"
    "gs_gameResultPublished s' = gs_gameResultPublished s" "gs_identity s' = gs_identity s" "session_ok s'"
    using ok wait_laws(1) [OF _ ms ords, of "gs_engine s"] ns by (auto simp: session_ok_def queue_ok_def)
qed

section \<open>The result\<close>

fun isResult :: "string \<Rightarrow> outgoing \<Rightarrow> bool" where
  "isResult roomName (Published t j) = (t = gameEndedTopic roomName)"
| "isResult roomName (SnapshotSent txt) = False"

abbreviation results :: "string \<Rightarrow> outgoing list \<Rightarrow> outgoing list" where
  "results roomName out \<equiv> filter (isResult roomName) out"

lemma topics_differ [simp]:
  "moveLogTopic r \<noteq> gameEndedTopic r" "captureTopic r \<noteq> gameEndedTopic r"
  "gameEndedTopic r \<noteq> moveLogTopic r" "gameEndedTopic r \<noteq> captureTopic r"
  by (simp_all add: moveLogTopic_def captureTopic_def gameEndedTopic_def)

lemma results_pending: "queue_ok s \<Longrightarrow> results (gs_roomName s) (map (\<lambda>(t, j). Published t j) (gs_pending s)) = []"
  by (fastforce simp: queue_ok_def filter_empty_conv list_all_iff)

text \<open>\<open>reported\<close> counts the results a room has reported.\<close>

definition reported :: "game_session \<Rightarrow> nat" where
  "reported s = (if gs_gameResultPublished s then 1 else 0)"

definition lawful :: "game_session \<Rightarrow> outgoing list \<Rightarrow> game_session \<Rightarrow> bool" where
  "lawful s out s' \<longleftrightarrow> (session_ok s \<longrightarrow> session_ok s' \<and> gs_roomName s' = gs_roomName s \<and>
     reported s + length (results (gs_roomName s) out) \<le> reported s')"

lemma publishGameEnded_lawful:
  assumes "publishGameEnded r s = ((out, s'), ex)" "\<not> gs_gameResultPublished s"
  shows "lawful s out s'" "length (results (gs_roomName s) out) \<le> 1"
  using assms by (auto simp: publishGameEnded_def Let_def lawful_def reported_def session_ok_def queue_ok_def
      split: sum.splits)

lemma markDisconnectResign_lawful:
  assumes "markDisconnectResign c n elo s = ((out, s'), ex)"
  shows "lawful s out s'"
  using assms publishGameEnded_lawful
  by (auto simp: markDisconnectResign_def Let_def lawful_def split: if_splits) 

lemma publishStep_cases:
  assumes "publishStep dump j s = ((out, s'), ex)"
  obtains (quiet) "out = map (\<lambda>(t, j). Published t j) (gs_pending s) @ (if gs_snapshotSender s then [SnapshotSent (dump j)] else [])"
      "s' = s\<lparr>gs_pending := []\<rparr>" "ex = None" "gs_gameResultPublished s \<or> \<not> game_over (gs_engine s)"
  | (ended) r out' where "\<not> gs_gameResultPublished s" "game_over (gs_engine s)"
      "publishGameEnded r (s\<lparr>gs_pending := []\<rparr>) = ((out', s'), ex)"
      "out = map (\<lambda>(t, j). Published t j) (gs_pending s) @ (if gs_snapshotSender s then [SnapshotSent (dump j)] else []) @ out'"
      "winner r = survivingKingColor (snapshot (gs_engine s))" "end_reason r = KingCapture"
      "winnerUsername r = (if winner r = White then whiteUsername (gs_identity s) else blackUsername (gs_identity s))"
      "loserUsername r = (if winner r = White then blackUsername (gs_identity s) else whiteUsername (gs_identity s))"
  using assms by (auto simp: publishStep_def Let_def split: if_splits prod.splits) 

lemma publishStep_lawful:
  assumes "publishStep dump j s = ((out, s'), ex)"
  shows "lawful s out s'"
  using assms
proof (cases rule: publishStep_cases)
  case quiet
  then show ?thesis
    by (auto simp: lawful_def reported_def results_pending session_ok_def) (simp add: queue_ok_def)+
next
  case (ended r out')
  note l = publishGameEnded_lawful [OF ended(3)]
  show ?thesis
    using ended(1,2,4) l by (auto simp: lawful_def reported_def results_pending session_ok_def queue_ok_def)
qed

section \<open>Runs\<close>

inductive session_step :: "(json \<Rightarrow> string) \<Rightarrow> (string \<Rightarrow> json option) \<Rightarrow> (json_error \<Rightarrow> string) \<Rightarrow>
    game_session \<Rightarrow> outgoing list \<Rightarrow> game_session \<Rightarrow> bool"
  for dump parse what where
  simulate: "computeStep dump parse ords ms s = Inr (j, s') \<Longrightarrow> 0 \<le> ms \<Longrightarrow> orders_ok ords \<Longrightarrow>
    session_step dump parse what s [] s'"
| deliver: "publishStep dump j s = ((out, s'), ex) \<Longrightarrow> session_step dump parse what s out s'"
| resign: "markDisconnectResign c n elo s = ((out, s'), ex) \<Longrightarrow> session_step dump parse what s out s'"
| command: "dispatch what m (gs_engine s) c = (r, e) \<Longrightarrow> session_step dump parse what s [] (s\<lparr>gs_engine := e\<rparr>)"
| status: "session_step dump parse what s [] (setDisconnectStatus st s)"
| identity: "session_step dump parse what s [] (setIdentity i s)"
| sender: "session_step dump parse what s [] (setSnapshotSender s)"
| begin_tick: "session_step dump parse what s [] (snd (tryBeginTick s))"
| end_tick: "session_step dump parse what s [] (endTick s)"

inductive session_run :: "(json \<Rightarrow> string) \<Rightarrow> (string \<Rightarrow> json option) \<Rightarrow> (json_error \<Rightarrow> string) \<Rightarrow>
    game_session \<Rightarrow> outgoing list \<Rightarrow> game_session \<Rightarrow> bool"
  for dump parse what where
  start: "session_run dump parse what s [] s"
| step: "session_run dump parse what s out s' \<Longrightarrow> session_step dump parse what s' out' s'' \<Longrightarrow>
    session_run dump parse what s (out @ out') s''"

inductive_cases session_runE: "session_run dump parse what s out s'"

lemma lawful_refl: "lawful s [] s"
  by (simp add: lawful_def)

lemma lawful_trans: "lawful s out s' \<Longrightarrow> lawful s' out' s'' \<Longrightarrow> lawful s (out @ out') s''"
  by (auto simp: lawful_def)

lemma notifications_dispatch: "notifications (eng_arbiter (snd (dispatch what m e c))) = notifications (eng_arbiter e)"
  by (cases rule: dispatch_effect [where what = what and m = m and e = e and c = c]) (simp_all add: answer_def)

lemma session_step_lawful: "session_step dump parse what s out s' \<Longrightarrow> lawful s out s'"
proof (induction rule: session_step.induct)
  case (simulate ords ms s j s')
  then show ?case using computeStep_laws [OF simulate(1)] by (auto simp: lawful_def reported_def)
next
  case (deliver j s out s' ex)
  then show ?case by (rule publishStep_lawful)
next
  case (resign c n elo s out s' ex)
  then show ?case by (rule markDisconnectResign_lawful)
next
  case (command m s c r e)
  then show ?case
    using dispatch_ok(1) [of "gs_engine s" what m c] notifications_dispatch [of what m "gs_engine s" c]
    by (auto simp: lawful_def session_ok_def queue_ok_def reported_def)
qed (auto simp: lawful_def session_ok_def queue_ok_def reported_def setDisconnectStatus_def setIdentity_def
    setSnapshotSender_def tryBeginTick_def endTick_def)

lemma session_run_lawful: "session_run dump parse what s out s' \<Longrightarrow> lawful s out s'"
  by (induction rule: session_run.induct) (auto intro: lawful_refl lawful_trans session_step_lawful)

lemma at_most_one_result:
  assumes "session_run dump parse what s out s'" "session_ok s"
  shows "length (results (gs_roomName s) out) \<le> 1"
    and "gs_gameResultPublished s \<Longrightarrow> results (gs_roomName s) out = []"
  using session_run_lawful [OF assms(1)] assms(2) by (auto simp: lawful_def reported_def split: if_splits)

lemma session_run_score:
  assumes "session_run dump parse what s out s'" "session_ok s"
  shows "getScore (gs_scoreObserver s') White = valueOf Black (captured_pieces (eng_arbiter (gs_engine s')))"
    and "getScore (gs_scoreObserver s') Black = valueOf White (captured_pieces (eng_arbiter (gs_engine s')))"
proof -
  have ok: "session_ok s'" using session_run_lawful [OF assms(1)] assms(2) by (simp add: lawful_def)
  then have "captured_pieces (eng_arbiter (gs_engine s')) = capturesOf (notifications (eng_arbiter (gs_engine s')))"
    by (intro arbiter_okD(6) engine_okD(1)) (simp add: session_ok_def)
  then show "getScore (gs_scoreObserver s') White = valueOf Black (captured_pieces (eng_arbiter (gs_engine s')))"
    "getScore (gs_scoreObserver s') Black = valueOf White (captured_pieces (eng_arbiter (gs_engine s')))"
    using ok by (simp_all add: session_ok_def getScore_def scoreOf_captures newScoreObserver_def)
qed

lemma newSession_ok:
  assumes "board_wf b" "\<And>q. isWithinBounds b q \<Longrightarrow> getState (slot b q) = Idle"
  shows "session_ok (newSession b r simultaneous)"
  using newEngine_ok(1) [OF assms]
  by (simp add: session_ok_def queue_ok_def newSession_def newEngine_def newArbiter_def)

section \<open>Who won\<close>

definition hasKing :: "game_engine \<Rightarrow> color \<Rightarrow> bool" where
  "hasKing e c \<longleftrightarrow> (\<exists>p. isWithinBounds (eng_board e) p \<and> getKind (slot (eng_board e) p) = King \<and>
     getColor (slot (eng_board e) p) = c)"

lemma fold_kingFlags:
  "fold kingFlags ps (w, b) =
    (w \<or> (\<exists>p \<in> set ps. sp_kind p = King \<and> sp_color p = White), b \<or> (\<exists>p \<in> set ps. sp_kind p = King \<and> sp_color p = Black))"
  by (induction ps arbitrary: w b) (auto simp: kingFlags_def)

lemma hasKing_snapshot:
  "(\<exists>p \<in> set (pieces (snapshot e)). sp_kind p = King \<and> sp_color p = c) \<longleftrightarrow> hasKing e c"
proof
  assume "\<exists>p \<in> set (pieces (snapshot e)). sp_kind p = King \<and> sp_color p = c"
  then obtain sp where sp: "sp \<in> set (pieces (snapshot e))" "sp_kind sp = King" "sp_color sp = c" by blast
  then obtain p where "isWithinBounds (eng_board e) p" "sp = snapshotPiece (eng_arbiter e) p (slot (eng_board e) p)"
    by (auto simp: in_pieces_snapshot)
  then show "hasKing e c" unfolding hasKing_def using sp by (intro exI [of _ p]) simp
next
  assume "hasKing e c"
  then obtain p where p: "isWithinBounds (eng_board e) p" "getKind (slot (eng_board e) p) = King"
    "getColor (slot (eng_board e) p) = c" by (auto simp: hasKing_def)
  then have "snapshotPiece (eng_arbiter e) p (slot (eng_board e) p) \<in> set (pieces (snapshot e))"
    unfolding in_pieces_snapshot by (intro exI [of _ p]) simp
  then show "\<exists>p \<in> set (pieces (snapshot e)). sp_kind p = King \<and> sp_color p = c" by (rule bexI [rotated]) (use p in simp)
qed

lemma survivingKingColor_snapshot:
  "survivingKingColor (snapshot e) =
    (if hasKing e White \<and> \<not> hasKing e Black then White
     else if hasKing e Black \<and> \<not> hasKing e White then Black else NoColor)"
  by (simp add: survivingKingColor_def fold_kingFlags hasKing_snapshot)

text \<open>
  When one king is left at the delivery step that finds the game over, the result names its
  owner. When none or both are left, encoding the result fails, after the flag has been set.
\<close>

lemma encodeResult_ok:
  "winner r \<noteq> NoColor \<Longrightarrow> \<exists>j. encodeResult r = Inr j" "winner r = NoColor \<Longrightarrow> encodeResult r = Inl (OutOfRange [])"
  by (cases "winner r"; cases "end_reason r"; simp add: encodeResult_def nameOf_def table_defs)+

lemma publishGameEnded_eq:
  "winner r = NoColor \<Longrightarrow> publishGameEnded r s = (([], s\<lparr>gs_gameResultPublished := True\<rparr>), Some (OutOfRange []))"
  "winner r \<noteq> NoColor \<Longrightarrow> \<exists>j. encodeResult r = Inr j \<and> publishGameEnded r s =
     (([Published (gameEndedTopic (gs_roomName s)) j], s\<lparr>gs_gameResultPublished := True\<rparr>), None)"
  using encodeResult_ok [of r] by (auto simp: publishGameEnded_def Let_def)

lemma publishStep_result:
  assumes "publishStep dump j s = ((out, s'), ex)" "session_ok s"
    and "game_over (gs_engine s)" "\<not> gs_gameResultPublished s"
  defines "w \<equiv> survivingKingColor (snapshot (gs_engine s))"
  shows "gs_gameResultPublished s'"
    and "w = NoColor \<Longrightarrow> ex = Some (OutOfRange []) \<and> results (gs_roomName s) out = []"
    and "w \<noteq> NoColor \<Longrightarrow> \<exists>r k. encodeResult r = Inr k \<and> ex = None \<and>
      results (gs_roomName s) out = [Published (gameEndedTopic (gs_roomName s)) k] \<and> winner r = w \<and> end_reason r = KingCapture \<and>
      winnerUsername r = (if w = White then whiteUsername (gs_identity s) else blackUsername (gs_identity s)) \<and>
      loserUsername r = (if w = White then blackUsername (gs_identity s) else whiteUsername (gs_identity s))"
proof -
  have q: "queue_ok s" using assms(2) by (simp add: session_ok_def)
  from assms(1) obtain r out' where r: "publishGameEnded r (s\<lparr>gs_pending := []\<rparr>) = ((out', s'), ex)"
      "out = map (\<lambda>(t, j). Published t j) (gs_pending s) @ (if gs_snapshotSender s then [SnapshotSent (dump j)] else []) @ out'"
      "winner r = w" "end_reason r = KingCapture"
      "winnerUsername r = (if winner r = White then whiteUsername (gs_identity s) else blackUsername (gs_identity s))"
      "loserUsername r = (if winner r = White then blackUsername (gs_identity s) else whiteUsername (gs_identity s))"
    using assms(3,4) by (cases rule: publishStep_cases) (auto simp: w_def)
  note e = publishGameEnded_eq [of r "s\<lparr>gs_pending := []\<rparr>"]
  show "gs_gameResultPublished s'" using e r(1) by (cases "winner r = NoColor") auto
  show "ex = Some (OutOfRange []) \<and> results (gs_roomName s) out = []" if "w = NoColor"
    using e(1) r(1,2,3) that results_pending [OF q] by auto
  show "\<exists>r k. encodeResult r = Inr k \<and> ex = None \<and>
      results (gs_roomName s) out = [Published (gameEndedTopic (gs_roomName s)) k] \<and> winner r = w \<and> end_reason r = KingCapture \<and>
      winnerUsername r = (if w = White then whiteUsername (gs_identity s) else blackUsername (gs_identity s)) \<and>
      loserUsername r = (if w = White then blackUsername (gs_identity s) else whiteUsername (gs_identity s))" if win: "w \<noteq> NoColor"
  proof -
    obtain k where "encodeResult r = Inr k" "out' = [Published (gameEndedTopic (gs_roomName s)) k]" "ex = None"
      using e(2) r(1,3) win by auto
    then show ?thesis using r results_pending [OF q] by (intro exI [of _ r] exI [of _ k]) auto
  qed
qed

lemma tryBeginTick_exclusive:
  "fst (tryBeginTick s) \<longleftrightarrow> \<not> gs_tickInFlight s" "gs_tickInFlight (snd (tryBeginTick s))"
  "\<not> fst (tryBeginTick (snd (tryBeginTick s)))" "fst (tryBeginTick (endTick s))"
  by (simp_all add: tryBeginTick_def endTick_def)

end
