(* ===== verification/Rooms.thy ===== *)
theory Rooms
  imports Session_Laws
begin

text \<open>
  The rooms of a shard and who sits where: \<open>server/app/session/SessionRegistry.cpp\<close> and \<open>.h\<close>,
  \<open>ClientSessionRegistry.cpp\<close>, \<open>ClientSession.h\<close>, \<open>RoomIdentityResolver.cpp\<close> and \<open>RoleName.h\<close>.
  A connection handle is a number; \<open>std::owner_less\<close> orders handles, and the order of the numbers
  is that order. What the code asks of the directory, of the reconnect store and of the timers
  is the list of effects an operation returns.
\<close>

section \<open>State\<close>

type_synonym conn = nat

datatype effect =
    DirectorySet string string
  | DirectoryErase string
  | ReconnectSet string string string int int
  | ReconnectClear string
  | TimerStarted nat int
  | TimerCancelled nat
  | SessionOut outgoing

record pending_disconnect =
  pd_username :: string
  pd_timer :: nat

text \<open>\<open>r_session_ptr\<close> is the address of the session the \<open>unique_ptr\<close> owns.\<close>

record room =
  r_session :: game_session
  r_session_ptr :: nat
  r_roles :: "(conn, color) umap"
  r_connectionCount :: int
  r_seatReservations :: "(string, color) umap"
  r_pendingRemoval :: bool
  r_pendingDisconnects :: "(color, pending_disconnect) umap"

text \<open>
  A countdown that waits for its timer: what the handler of \<open>startDisconnectCountdown\<close> captures,
  and whether \<open>cancel\<close> was called on its timer. Addresses of new objects come from \<open>reg_next\<close>.
\<close>

record countdown =
  cd_roomName :: string
  cd_color :: color
  cd_username :: string
  cd_elo :: int
  cd_remaining :: int
  cd_cancelled :: bool

record registry =
  reg_rooms :: "(string, room) umap"
  reg_connectionRoom :: "(conn, string) umap"
  reg_directory :: bool
  reg_shardAddress :: string
  reg_reconnectStore :: bool
  reg_countdowns :: "(nat, countdown) umap"
  reg_next :: nat

definition kDisconnectGraceSeconds :: int where "kDisconnectGraceSeconds = 20"

definition roleName :: "color \<Rightarrow> string" where
  "roleName c = (case c of White \<Rightarrow> ''White'' | Black \<Rightarrow> ''Black'' | NoColor \<Rightarrow> ''Spectator'')"

definition newRegistry :: "bool \<Rightarrow> string \<Rightarrow> bool \<Rightarrow> registry" where
  "newRegistry directory shardAddress reconnectStore =
     \<lparr>reg_rooms = [], reg_connectionRoom = [], reg_directory = directory, reg_shardAddress = shardAddress,
      reg_reconnectStore = reconnectStore, reg_countdowns = [], reg_next = 0\<rparr>"

definition newRoom :: "game_session \<Rightarrow> nat \<Rightarrow> room" where
  "newRoom s ptr = \<lparr>r_session = s, r_session_ptr = ptr, r_roles = [], r_connectionCount = 0, r_seatReservations = [],
     r_pendingRemoval = False, r_pendingDisconnects = []\<rparr>"

section \<open>Operations\<close>

definition roomExists :: "string \<Rightarrow> registry \<Rightarrow> bool" where
  "roomExists name reg \<longleftrightarrow> map_of (reg_rooms reg) name \<noteq> None"

definition roomNamed :: "string \<Rightarrow> registry \<Rightarrow> game_session option" where
  "roomNamed name reg = map_option r_session (map_of (reg_rooms reg) name)"

definition roomNames :: "(nat \<Rightarrow> nat list) \<Rightarrow> registry \<Rightarrow> string list" where
  "roomNames ord reg = map fst (iter ord (reg_rooms reg))"

text \<open>Writing through the pointer or reference that \<open>find\<close> gave.\<close>

definition withRoom :: "string \<Rightarrow> (room \<Rightarrow> room) \<Rightarrow> registry \<Rightarrow> registry" where
  "withRoom name f reg = reg\<lparr>reg_rooms := AList.map_entry name f (reg_rooms reg)\<rparr>"

definition withSession :: "string \<Rightarrow> (game_session \<Rightarrow> game_session) \<Rightarrow> registry \<Rightarrow> registry" where
  "withSession name f = withRoom name (\<lambda>r. r\<lparr>r_session := f (r_session r)\<rparr>)"

definition createRoom :: "string \<Rightarrow> board \<Rightarrow> bool \<Rightarrow> registry \<Rightarrow> bool \<times> effect list \<times> registry" where
  "createRoom name b simultaneous reg =
     (if roomExists name reg then (False, [], reg)
      else (True, if reg_directory reg then [DirectorySet name (reg_shardAddress reg)] else [],
        reg\<lparr>reg_rooms := AList.update name (newRoom (newSession b name simultaneous) (reg_next reg)) (reg_rooms reg),
           reg_next := Suc (reg_next reg)\<rparr>))"

definition seatFor :: "room \<Rightarrow> string \<Rightarrow> color" where
  "seatFor r username =
     (case (if username = [] then None else map_of (r_seatReservations r) username) of
        Some c \<Rightarrow> c
      | None \<Rightarrow> if r_connectionCount r = 1 then White else if r_connectionCount r = 2 then Black else NoColor)"

definition joinRoom :: "string \<Rightarrow> conn \<Rightarrow> string \<Rightarrow> registry \<Rightarrow> bool \<times> registry" where
  "joinRoom name hdl username reg =
     (case map_of (reg_rooms reg) name of
        None \<Rightarrow> (False, reg)
      | Some r0 \<Rightarrow>
          let r = r0\<lparr>r_connectionCount := r_connectionCount r0 + 1\<rparr>
          in (True, reg\<lparr>reg_rooms := AList.update name (r\<lparr>r_roles := AList.update hdl (seatFor r username) (r_roles r)\<rparr>)
                       (reg_rooms reg),
                     reg_connectionRoom := AList.update hdl name (reg_connectionRoom reg)\<rparr>))"

definition reserveSeats :: "string \<Rightarrow> string \<Rightarrow> string \<Rightarrow> registry \<Rightarrow> registry" where
  "reserveSeats name whiteName blackName =
     withRoom name (\<lambda>r. r\<lparr>r_seatReservations :=
       AList.update blackName Black (AList.update whiteName White (r_seatReservations r))\<rparr>)"

definition eraseRoom :: "string \<Rightarrow> registry \<Rightarrow> effect list \<times> registry" where
  "eraseRoom name reg = (if reg_directory reg then [DirectoryErase name] else [],
     reg\<lparr>reg_rooms := AList.delete name (reg_rooms reg)\<rparr>)"

definition leave :: "conn \<Rightarrow> registry \<Rightarrow> color \<times> effect list \<times> registry" where
  "leave hdl reg =
     (case map_of (reg_connectionRoom reg) hdl of
        None \<Rightarrow> (NoColor, [], reg)
      | Some name \<Rightarrow>
          let forget = (\<lambda>g. g\<lparr>reg_connectionRoom := AList.delete hdl (reg_connectionRoom g)\<rparr>)
          in case map_of (reg_rooms reg) name of
               None \<Rightarrow> (NoColor, [], forget reg)
             | Some r0 \<Rightarrow>
                 let role = (case map_of (r_roles r0) hdl of None \<Rightarrow> NoColor | Some c \<Rightarrow> c);
                     r = r0\<lparr>r_roles := AList.delete hdl (r_roles r0)\<rparr>;
                     reg1 = reg\<lparr>reg_rooms := AList.update name r (reg_rooms reg)\<rparr>
                 in if r_roles r = []
                    then if gs_tickInFlight (r_session r)
                         then (role, [], forget (withRoom name (\<lambda>r. r\<lparr>r_pendingRemoval := True\<rparr>) reg1))
                         else let (out, reg2) = eraseRoom name reg1 in (role, out, forget reg2)
                    else (role, [], forget reg1))"

definition reapIfSafe :: "string \<Rightarrow> registry \<Rightarrow> effect list \<times> registry" where
  "reapIfSafe name reg =
     (case map_of (reg_rooms reg) name of
        None \<Rightarrow> ([], reg)
      | Some r \<Rightarrow> if r_pendingRemoval r \<and> \<not> gs_tickInFlight (r_session r) then eraseRoom name reg else ([], reg))"

definition connectionsInRoom :: "string \<Rightarrow> registry \<Rightarrow> conn list" where
  "connectionsInRoom name reg =
     (case map_of (reg_rooms reg) name of None \<Rightarrow> [] | Some r \<Rightarrow> sort (map fst (r_roles r)))"

definition roomOf :: "conn \<Rightarrow> registry \<Rightarrow> string option" where
  "roomOf hdl reg = map_of (reg_connectionRoom reg) hdl"

definition roleOf :: "conn \<Rightarrow> registry \<Rightarrow> color" where
  "roleOf hdl reg =
     (case roomOf hdl reg of
        None \<Rightarrow> NoColor
      | Some name \<Rightarrow>
          (case map_of (reg_rooms reg) name of
             None \<Rightarrow> NoColor
           | Some r \<Rightarrow> (case map_of (r_roles r) hdl of None \<Rightarrow> NoColor | Some c \<Rightarrow> c)))"

definition startDisconnectCountdown :: "string \<Rightarrow> color \<Rightarrow> string \<Rightarrow> int \<Rightarrow> registry \<Rightarrow> effect list \<times> registry" where
  "startDisconnectCountdown name c username elo reg =
     (if \<not> roomExists name reg then ([], reg)
      else let t = reg_next reg
           in ([TimerStarted t 0],
               withRoom name (\<lambda>r. r\<lparr>r_seatReservations := AList.update username c (r_seatReservations r),
                    r_pendingDisconnects := AList.update c \<lparr>pd_username = username, pd_timer = t\<rparr> (r_pendingDisconnects r)\<rparr>)
                 (reg\<lparr>reg_countdowns := AList.update t \<lparr>cd_roomName = name, cd_color = c, cd_username = username, cd_elo = elo,
                        cd_remaining = kDisconnectGraceSeconds, cd_cancelled = False\<rparr> (reg_countdowns reg),
                      reg_next := Suc t\<rparr>)))"

text \<open>
  The handler of the timer \<open>t\<close>; \<open>ec\<close> says that it is called with an error code, which asio does
  for a wait that was cancelled before its time had come. An exception of
  \<open>markDisconnectResign\<close> leaves the handler.
\<close>

definition countdownHandler :: "bool \<Rightarrow> nat \<Rightarrow> registry \<Rightarrow> (effect list \<times> registry) \<times> json_error option" where
  "countdownHandler ec t reg =
     (case map_of (reg_countdowns reg) t of
        None \<Rightarrow> (([], reg), None)
      | Some cd \<Rightarrow>
          let name = cd_roomName cd; c = cd_color cd;
              reg0 = reg\<lparr>reg_countdowns := AList.delete t (reg_countdowns reg)\<rparr>;
              store = (\<lambda>e. if reg_reconnectStore reg then [e] else [])
          in if ec \<or> \<not> roomExists name reg then (([], reg0), None)
             else let reg1 = withSession name (setDisconnectStatus
                               \<lparr>ds_active = True, ds_color = c, secondsRemaining = cd_remaining cd\<rparr>) reg0;
                      out1 = store (ReconnectSet name (roleName c) (cd_username cd) (cd_elo cd) (cd_remaining cd))
                  in if cd_remaining cd \<le> 0
                     then let reg2 = withRoom name (\<lambda>r. r\<lparr>r_pendingDisconnects := AList.delete c (r_pendingDisconnects r),
                                       r_seatReservations := AList.delete (cd_username cd) (r_seatReservations r)\<rparr>) reg1
                          in case roomNamed name reg2 of
                               None \<Rightarrow> ((out1 @ store (ReconnectClear name), reg2), None)
                             | Some s \<Rightarrow>
                                 let ((out, s'), ex) = markDisconnectResign c (cd_username cd) (cd_elo cd) s
                                 in ((out1 @ store (ReconnectClear name) @ map SessionOut out, withSession name (\<lambda>_. s') reg2), ex)
                     else ((out1 @ [TimerStarted t 1],
                            reg1\<lparr>reg_countdowns := AList.update t (cd\<lparr>cd_remaining := cd_remaining cd - 1, cd_cancelled := False\<rparr>)
                                   (reg_countdowns reg1)\<rparr>), None))"

definition cancelDisconnectCountdown :: "string \<Rightarrow> color \<Rightarrow> string \<Rightarrow> registry \<Rightarrow> bool \<times> effect list \<times> registry" where
  "cancelDisconnectCountdown name c username reg =
     (case map_of (reg_rooms reg) name of
        None \<Rightarrow> (False, [], reg)
      | Some r \<Rightarrow>
          (case map_of (r_pendingDisconnects r) c of
             None \<Rightarrow> (False, [], reg)
           | Some pd \<Rightarrow>
               if pd_username pd \<noteq> username then (False, [], reg)
               else (True, TimerCancelled (pd_timer pd) # (if reg_reconnectStore reg then [ReconnectClear name] else []),
                     withSession name (setDisconnectStatus \<lparr>ds_active = False, ds_color = NoColor, secondsRemaining = 0\<rparr>)
                       (withRoom name (\<lambda>r. r\<lparr>r_pendingDisconnects := AList.delete c (r_pendingDisconnects r)\<rparr>)
                         (reg\<lparr>reg_countdowns := AList.map_entry (pd_timer pd) (\<lambda>cd. cd\<lparr>cd_cancelled := True\<rparr>)
                                (reg_countdowns reg)\<rparr>)))))"

section \<open>Identities\<close>

record client_session =
  cs_username :: string
  cs_elo :: int
  searchingForGame :: bool

type_synonym client_sessions = "(conn, client_session) umap"

definition onLogin :: "conn \<Rightarrow> string \<Rightarrow> int \<Rightarrow> client_sessions \<Rightarrow> client_sessions" where
  "onLogin hdl username elo = AList.update hdl \<lparr>cs_username = username, cs_elo = elo, searchingForGame = False\<rparr>"

definition onDisconnect :: "conn \<Rightarrow> client_sessions \<Rightarrow> client_sessions" where
  "onDisconnect hdl = AList.delete hdl"

definition sessionFor :: "client_sessions \<Rightarrow> conn \<Rightarrow> client_session option" where
  "sessionFor cs hdl = map_of cs hdl"

definition addOccupant :: "registry \<Rightarrow> client_sessions \<Rightarrow> conn \<Rightarrow> room_identity \<Rightarrow> room_identity" where
  "addOccupant reg cs hdl i =
     (case (roleOf hdl reg, sessionFor cs hdl) of
        (NoColor, _) \<Rightarrow> i\<lparr>spectatorCount := spectatorCount i + 1\<rparr>
      | (White, Some s) \<Rightarrow> i\<lparr>whiteUsername := cs_username s, whiteElo := cs_elo s\<rparr>
      | (Black, Some s) \<Rightarrow> i\<lparr>blackUsername := cs_username s, blackElo := cs_elo s\<rparr>
      | _ \<Rightarrow> i)"

definition resolveIdentity :: "registry \<Rightarrow> client_sessions \<Rightarrow> string \<Rightarrow> room_identity" where
  "resolveIdentity reg cs name = fold (addOccupant reg cs) (connectionsInRoom name reg) noIdentity"

end
