(* ===== verification/Rooms_Laws.thy ===== *)
theory Rooms_Laws
  imports Rooms
begin

text \<open>
  The laws of the registry of rooms: its invariant under every sequence of operations, who gets
  which seat, that seats given out by arrival are unique, and the life of a disconnect countdown.
\<close>

section \<open>The invariant\<close>

definition room_ok :: "string \<Rightarrow> room \<Rightarrow> bool" where
  "room_ok n r \<longleftrightarrow> gs_roomName (r_session r) = n \<and> session_ok (r_session r) \<and>
     distinct (map fst (r_roles r)) \<and> int (length (r_roles r)) \<le> r_connectionCount r"

definition registry_ok :: "registry \<Rightarrow> bool" where
  "registry_ok reg \<longleftrightarrow> distinct (map fst (reg_rooms reg)) \<and> distinct (map fst (reg_countdowns reg)) \<and>
     (\<forall>n r. map_of (reg_rooms reg) n = Some r \<longrightarrow> room_ok n r \<and> r_session_ptr r < reg_next reg) \<and>
     (\<forall>n n' r r'. map_of (reg_rooms reg) n = Some r \<and> map_of (reg_rooms reg) n' = Some r' \<and>
        r_session_ptr r = r_session_ptr r' \<longrightarrow> n = n') \<and>
     (\<forall>t cd. map_of (reg_countdowns reg) t = Some cd \<longrightarrow> t < reg_next reg)"

lemma map_of_map_entry_iff [simp]:
  "map_of (AList.map_entry k f xs) x = (if x = k then map_option f (map_of xs k) else map_of xs x)"
  by (induction xs) (auto split: if_splits)

lemma map_fst_map_entry [simp]: "map fst (AList.map_entry k f xs) = map fst xs"
  by (induction xs) auto

lemma map_entry_map_entry [simp]:
  "AList.map_entry k g (AList.map_entry k f xs) = AList.map_entry k (\<lambda>v. g (f v)) xs"
  by (induction xs) auto

lemma delete_map_entry [simp]: "AList.delete k (AList.map_entry k f xs) = AList.delete k xs"
  by (induction xs) auto

lemma length_update_le: "length (AList.update k v xs) \<le> Suc (length xs)"
  by (induction xs) (auto split: if_splits)

lemma length_delete_le: "length (AList.delete k xs) \<le> length xs"
  by (simp add: AList.delete_eq)

lemma rooms_update_field [simp]:
  "reg_rooms (withRoom n f reg) = AList.map_entry n f (reg_rooms reg)"
  "reg_connectionRoom (withRoom n f reg) = reg_connectionRoom reg"
  "reg_countdowns (withRoom n f reg) = reg_countdowns reg" "reg_next (withRoom n f reg) = reg_next reg"
  "reg_directory (withRoom n f reg) = reg_directory reg" "reg_reconnectStore (withRoom n f reg) = reg_reconnectStore reg"
  by (simp_all add: withRoom_def)

lemma registry_okD:
  assumes "registry_ok reg"
  shows "distinct (map fst (reg_rooms reg))" "distinct (map fst (reg_countdowns reg))"
    and "map_of (reg_rooms reg) n = Some r \<Longrightarrow> room_ok n r \<and> r_session_ptr r < reg_next reg"
    and "map_of (reg_rooms reg) n = Some r \<Longrightarrow> map_of (reg_rooms reg) n' = Some r' \<Longrightarrow>
      r_session_ptr r = r_session_ptr r' \<Longrightarrow> n = n'"
    and "map_of (reg_countdowns reg) t = Some cd \<Longrightarrow> t < reg_next reg"
  using assms unfolding registry_ok_def by blast+

text \<open>A change of one room that keeps the session where it is.\<close>

lemma registry_ok_withRoom:
  assumes "registry_ok reg" and "\<And>r. map_of (reg_rooms reg) n = Some r \<Longrightarrow> room_ok n (f r) \<and> r_session_ptr (f r) = r_session_ptr r"
  shows "registry_ok (withRoom n f reg)"
  using assms registry_okD [OF assms(1)] unfolding registry_ok_def by auto

lemma map_entry_eq_update:
  "map_of xs k = Some v \<Longrightarrow> distinct (map fst xs) \<Longrightarrow> AList.update k (f v) xs = AList.map_entry k f xs"
  by (induction xs) (auto split: if_splits)

lemma map_entry_cong:
  "map_of xs k = Some v \<Longrightarrow> distinct (map fst xs) \<Longrightarrow> f v = g v \<Longrightarrow> AList.map_entry k f xs = AList.map_entry k g xs"
  using map_entry_eq_update [of xs k v f] map_entry_eq_update [of xs k v g] by simp

lemma withSession_cong:
  assumes "registry_ok reg" "roomNamed n reg = Some s" "f s = g s"
  shows "withSession n f reg = withSession n g reg"
proof -
  obtain r where r: "map_of (reg_rooms reg) n = Some r" "r_session r = s" using assms(2) by (auto simp: roomNamed_def)
  have "AList.map_entry n (\<lambda>r. r\<lparr>r_session := f (r_session r)\<rparr>) (reg_rooms reg) =
      AList.map_entry n (\<lambda>r. r\<lparr>r_session := g (r_session r)\<rparr>) (reg_rooms reg)"
    by (rule map_entry_cong [OF r(1) registry_okD(1) [OF assms(1)]]) (simp add: r(2) assms(3))
  then show ?thesis by (simp add: withSession_def withRoom_def)
qed

lemma registry_ok_withSession:
  assumes "registry_ok reg"
    and "\<And>s. session_ok s \<Longrightarrow> gs_roomName s = n \<Longrightarrow> session_ok (f s) \<and> gs_roomName (f s) = n"
  shows "registry_ok (withSession n f reg)"
  unfolding withSession_def using registry_okD(3) [OF assms(1)] assms(2)
  by (intro registry_ok_withRoom [OF assms(1)]) (auto simp: room_ok_def)

lemma registry_ok_other [simp]:
  "registry_ok (reg\<lparr>reg_connectionRoom := x\<rparr>) = registry_ok reg"
  by (simp add: registry_ok_def)

lemma registry_ok_countdowns:
  assumes "registry_ok reg" "distinct (map fst cds)" "\<And>t cd. map_of cds t = Some cd \<Longrightarrow> t < reg_next reg"
  shows "registry_ok (reg\<lparr>reg_countdowns := cds\<rparr>)"
  using assms by (simp add: registry_ok_def)

lemma registry_ok_eraseRoom: "registry_ok reg \<Longrightarrow> registry_ok (snd (eraseRoom n reg))"
  unfolding registry_ok_def eraseRoom_def by (auto simp: distinct_delete)


section \<open>The operations keep it\<close>

lemma createRoom_ok:
  assumes "registry_ok reg" "board_wf b" "\<And>q. isWithinBounds b q \<Longrightarrow> getState (slot b q) = Idle"
  shows "registry_ok (snd (snd (createRoom n b sm reg)))"
proof (cases "roomExists n reg")
  case True
  then show ?thesis using assms(1) by (simp add: createRoom_def)
next
  case False
  have "room_ok n (newRoom (newSession b n sm) p)" for p
    using newSession_ok [OF assms(2,3)] by (simp add: room_ok_def newRoom_def newSession_def)
  note new = this
  let ?p = "reg_next reg"
  let ?r = "newRoom (newSession b n sm) ?p"
  let ?reg = "reg\<lparr>reg_rooms := AList.update n ?r (reg_rooms reg), reg_next := Suc ?p\<rparr>"
  have ptr: "r_session_ptr ?r = ?p" by (simp add: newRoom_def)
  have old: "r_session_ptr r < ?p" if "map_of (reg_rooms reg) m = Some r" for m r
    using registry_okD(3) [OF assms(1) that] by simp
  have "registry_ok ?reg"
    unfolding registry_ok_def
  proof (intro conjI allI impI)
    show "room_ok m r" "r_session_ptr r < reg_next ?reg" if "map_of (reg_rooms ?reg) m = Some r" for m r
      using that new [of ?p] ptr registry_okD(3) [OF assms(1), of m r] by (auto split: if_splits)
    show "m = m'" if "map_of (reg_rooms ?reg) m = Some r \<and> map_of (reg_rooms ?reg) m' = Some r' \<and>
        r_session_ptr r = r_session_ptr r'" for m m' r r'
      using that old [of m r] old [of m' r'] ptr registry_okD(4) [OF assms(1), of m r m' r'] by (auto split: if_splits)
    show "t < reg_next ?reg" if "map_of (reg_countdowns ?reg) t = Some cd" for t cd
      using registry_okD(5) [OF assms(1), of t cd] that by simp
  qed (use registry_okD(1,2) [OF assms(1)] in \<open>simp_all add: distinct_update\<close>)
  then show ?thesis using False by (simp add: createRoom_def)
qed

lemma joinRoom_withRoom:
  assumes "registry_ok reg" "map_of (reg_rooms reg) n = Some r"
  shows "joinRoom n h u reg = (True, (withRoom n (\<lambda>r0. let r = r0\<lparr>r_connectionCount := r_connectionCount r0 + 1\<rparr>
      in r\<lparr>r_roles := AList.update h (seatFor r u) (r_roles r)\<rparr>) reg)\<lparr>reg_connectionRoom := AList.update h n (reg_connectionRoom reg)\<rparr>)"
  using map_entry_eq_update [OF assms(2) registry_okD(1) [OF assms(1)],
      of "\<lambda>r0. let r = r0\<lparr>r_connectionCount := r_connectionCount r0 + 1\<rparr>
        in r\<lparr>r_roles := AList.update h (seatFor r u) (r_roles r)\<rparr>"] assms(2)
  by (simp add: joinRoom_def Let_def withRoom_def)

lemma joinRoom_ok:
  assumes "registry_ok reg"
  shows "registry_ok (snd (joinRoom n h u reg))"
proof (cases "map_of (reg_rooms reg) n")
  case None
  then show ?thesis using assms by (simp add: joinRoom_def)
next
  case (Some r)
  have l: "int (length (AList.update h c (r_roles r))) \<le> r_connectionCount r + 1" for c
    using length_update_le [of h c "r_roles r"] registry_okD(3) [OF assms Some] by (auto simp: room_ok_def)
  show ?thesis
    unfolding joinRoom_withRoom [OF assms Some] snd_conv registry_ok_other
    using Some registry_okD(3) [OF assms Some] l
    by (intro registry_ok_withRoom [OF assms]) (auto simp: room_ok_def Let_def distinct_update)
qed

lemma leave_cases:
  assumes "registry_ok reg"
  obtains (absent) "roomOf h reg = None" "leave h reg = (NoColor, [], reg)"
  | (stale) n where "roomOf h reg = Some n" "map_of (reg_rooms reg) n = None"
      "leave h reg = (NoColor, [], reg\<lparr>reg_connectionRoom := AList.delete h (reg_connectionRoom reg)\<rparr>)"
  | (left) n r f out reg1 where "roomOf h reg = Some n" "map_of (reg_rooms reg) n = Some r"
      "f = (\<lambda>r. r\<lparr>r_roles := AList.delete h (r_roles r)\<rparr>)"
      "leave h reg = (roleOf h reg, out, reg1\<lparr>reg_connectionRoom := AList.delete h (reg_connectionRoom reg)\<rparr>)"
      "(r_roles (f r) \<noteq> [] \<and> out = [] \<and> reg1 = withRoom n f reg) \<or>
       (r_roles (f r) = [] \<and> gs_tickInFlight (r_session r) \<and> out = [] \<and>
          reg1 = withRoom n (\<lambda>r. (f r)\<lparr>r_pendingRemoval := True\<rparr>) reg) \<or>
       (r_roles (f r) = [] \<and> \<not> gs_tickInFlight (r_session r) \<and> (out, reg1) = eraseRoom n reg)"
proof (cases "roomOf h reg")
  case None
  then show ?thesis using absent by (simp add: leave_def roomOf_def)
next
  case (Some n)
  show ?thesis
  proof (cases "map_of (reg_rooms reg) n")
    case None
    then show ?thesis using stale [OF Some] Some by (simp add: leave_def roomOf_def)
  next
    case r: (Some r)
    let ?f = "\<lambda>r. r\<lparr>r_roles := AList.delete h (r_roles r)\<rparr>"
    have u: "AList.update n (?f r) (reg_rooms reg) = AList.map_entry n ?f (reg_rooms reg)"
      using map_entry_eq_update [OF r registry_okD(1) [OF assms], of ?f] .
    then have u': "AList.delete h (r_roles r) = [] \<Longrightarrow>
        AList.update n (r\<lparr>r_roles := []\<rparr>) (reg_rooms reg) = AList.map_entry n ?f (reg_rooms reg)" by simp
    define reg1 where "reg1 = (if r_roles (?f r) \<noteq> [] then withRoom n ?f reg
      else if gs_tickInFlight (r_session r) then withRoom n (\<lambda>r. (?f r)\<lparr>r_pendingRemoval := True\<rparr>) reg
      else snd (eraseRoom n reg))"
    define out where "out = (if r_roles (?f r) = [] \<and> \<not> gs_tickInFlight (r_session r) then fst (eraseRoom n reg) else [])"
    show ?thesis
    proof (rule left [OF Some r refl, of out reg1])
      show "leave h reg = (roleOf h reg, out, reg1\<lparr>reg_connectionRoom := AList.delete h (reg_connectionRoom reg)\<rparr>)"
        using Some r by (simp add: leave_def roomOf_def roleOf_def Let_def u u' out_def reg1_def withRoom_def eraseRoom_def)
    qed (auto simp: out_def reg1_def)
  qed
qed

lemma leave_ok:
  assumes "registry_ok reg"
  shows "registry_ok (snd (snd (leave h reg)))"
  using assms
proof (cases rule: leave_cases [where h = h])
  case (left n r f out reg1)
  have "int (length (AList.delete h (r_roles r))) \<le> int (length (r_roles r))"
    using length_delete_le [of h "r_roles r"] by simp
  then have "room_ok n (f r)" "room_ok n ((f r)\<lparr>r_pendingRemoval := True\<rparr>)"
    using registry_okD(3) [OF assms left(2)] by (auto simp: room_ok_def left(3) distinct_delete)
  then have "registry_ok (withRoom n f reg)" "registry_ok (withRoom n (\<lambda>r. (f r)\<lparr>r_pendingRemoval := True\<rparr>) reg)"
    using left(2,3) by (auto intro!: registry_ok_withRoom [OF assms])
  then have "registry_ok reg1"
    using left(5) registry_ok_eraseRoom [OF assms, of n] by (metis snd_conv)
  then show ?thesis by (simp add: left(4))
qed (simp_all add: assms)

lemma reapIfSafe_ok: "registry_ok reg \<Longrightarrow> registry_ok (snd (reapIfSafe n reg))"
  by (simp add: reapIfSafe_def registry_ok_eraseRoom split: option.split)

lemma reserveSeats_ok: "registry_ok reg \<Longrightarrow> registry_ok (reserveSeats n w b reg)"
  unfolding reserveSeats_def
  by (rule registry_ok_withRoom) (auto simp: room_ok_def dest: registry_okD(3))

lemma startDisconnectCountdown_ok:
  assumes "registry_ok reg"
  shows "registry_ok (snd (startDisconnectCountdown n c u elo reg))"
proof -
  have "registry_ok (reg\<lparr>reg_countdowns := AList.update (reg_next reg) cd (reg_countdowns reg), reg_next := Suc (reg_next reg)\<rparr>)" for cd
    using assms registry_okD(5) [OF assms] unfolding registry_ok_def
    by (simp add: distinct_update less_Suc_eq) blast
  then show ?thesis
    using assms registry_okD(3) [OF assms]
    by (auto simp: startDisconnectCountdown_def Let_def room_ok_def intro!: registry_ok_withRoom)
qed

lemma cancelDisconnectCountdown_ok:
  assumes "registry_ok reg"
  shows "registry_ok (snd (snd (cancelDisconnectCountdown n c u reg)))"
proof -
  have "registry_ok (reg\<lparr>reg_countdowns := AList.map_entry t f (reg_countdowns reg)\<rparr>)" for t f
    using registry_okD(2,5) [OF assms] by (intro registry_ok_countdowns [OF assms]) (auto split: if_splits)
  then have "registry_ok (withRoom n (\<lambda>r. r\<lparr>r_pendingDisconnects := g r\<rparr>) (reg\<lparr>reg_countdowns := AList.map_entry t f (reg_countdowns reg)\<rparr>))" for t f g
    using registry_okD(3) [OF assms] by (intro registry_ok_withRoom) (auto simp: room_ok_def)
  then show ?thesis
    using assms by (auto simp: cancelDisconnectCountdown_def split: option.split
        intro!: registry_ok_withSession simp: setDisconnectStatus_def session_ok_def queue_ok_def)
qed


text \<open>The parts of the countdown handler: what the last firing and what an earlier one does.\<close>

lemma markDisconnectResign_eq:
  fixes c u elo s
  defines "r \<equiv> \<lparr>winner = (if c \<noteq> White then White else Black), end_reason = Disconnect,
      winnerUsername = (if c \<noteq> White then whiteUsername (gs_identity s) else blackUsername (gs_identity s)),
      winnerElo = (if c \<noteq> White then whiteElo (gs_identity s) else blackElo (gs_identity s)),
      loserUsername = u, loserElo = elo, moveLog = fullMoveLog s\<rparr>"
  shows "gs_gameResultPublished s \<or> game_over (gs_engine s) \<Longrightarrow> markDisconnectResign c u elo s = (([], s), None)"
    and "\<not> gs_gameResultPublished s \<Longrightarrow> \<not> game_over (gs_engine s) \<Longrightarrow> \<exists>j. encodeResult r = Inr j \<and>
      markDisconnectResign c u elo s =
        (([Published (gameEndedTopic (gs_roomName s)) j], s\<lparr>gs_gameResultPublished := True\<rparr>), None)"
  using publishGameEnded_eq(2) [of r s] by (auto simp: markDisconnectResign_def Let_def r_def)

lemma markDisconnectResign_session:
  assumes "markDisconnectResign c u elo s = ((out, s'), ex)" "session_ok s"
  shows "session_ok s'" "gs_roomName s' = gs_roomName s" "ex = None" "gs_tickInFlight s' = gs_tickInFlight s"
proof -
  show "session_ok s'" "gs_roomName s' = gs_roomName s"
    using markDisconnectResign_lawful [OF assms(1)] assms(2) by (simp_all add: lawful_def)
  show "ex = None" "gs_tickInFlight s' = gs_tickInFlight s"
    using assms(1) markDisconnectResign_eq [of s c u elo]
    by (cases "gs_gameResultPublished s \<or> game_over (gs_engine s)"; auto)+
qed

lemma countdownHandler_cases:
  obtains (unknown) "map_of (reg_countdowns reg) t = None" "countdownHandler ec t reg = (([], reg), None)"
  | (dropped) cd where "map_of (reg_countdowns reg) t = Some cd" "ec \<or> \<not> roomExists (cd_roomName cd) reg"
      "countdownHandler ec t reg = (([], reg\<lparr>reg_countdowns := AList.delete t (reg_countdowns reg)\<rparr>), None)"
  | (waiting) cd out where "map_of (reg_countdowns reg) t = Some cd" "\<not> ec" "roomExists (cd_roomName cd) reg" "0 < cd_remaining cd"
      "countdownHandler ec t reg = ((out, withSession (cd_roomName cd)
          (setDisconnectStatus \<lparr>ds_active = True, ds_color = cd_color cd, secondsRemaining = cd_remaining cd\<rparr>)
        (reg\<lparr>reg_countdowns := AList.update t (cd\<lparr>cd_remaining := cd_remaining cd - 1, cd_cancelled := False\<rparr>)
               (AList.delete t (reg_countdowns reg))\<rparr>)), None)"
      "out = (if reg_reconnectStore reg then [ReconnectSet (cd_roomName cd) (roleName (cd_color cd)) (cd_username cd) (cd_elo cd)
           (cd_remaining cd)] else []) @ [TimerStarted t 1]"
  | (expired) cd r out s' ex out0 where "map_of (reg_countdowns reg) t = Some cd" "\<not> ec" "map_of (reg_rooms reg) (cd_roomName cd) = Some r"
      "cd_remaining cd \<le> 0"
      "markDisconnectResign (cd_color cd) (cd_username cd) (cd_elo cd) (setDisconnectStatus
          \<lparr>ds_active = True, ds_color = cd_color cd, secondsRemaining = cd_remaining cd\<rparr> (r_session r)) = ((out, s'), ex)"
      "countdownHandler ec t reg = ((out0 @ map SessionOut out, withRoom (cd_roomName cd) (\<lambda>r. r\<lparr>
            r_pendingDisconnects := AList.delete (cd_color cd) (r_pendingDisconnects r),
            r_seatReservations := AList.delete (cd_username cd) (r_seatReservations r), r_session := s'\<rparr>)
          (reg\<lparr>reg_countdowns := AList.delete t (reg_countdowns reg)\<rparr>)), ex)"
      "out0 = (if reg_reconnectStore reg then [ReconnectSet (cd_roomName cd) (roleName (cd_color cd)) (cd_username cd) (cd_elo cd)
           (cd_remaining cd), ReconnectClear (cd_roomName cd)] else [])"
proof (cases "map_of (reg_countdowns reg) t")
  case None
  then show ?thesis using unknown by (simp add: countdownHandler_def)
next
  case (Some cd)
  show ?thesis
  proof (cases "ec \<or> \<not> roomExists (cd_roomName cd) reg")
    case True
    then show ?thesis using dropped [OF Some] Some by (simp add: countdownHandler_def Let_def)
  next
    case False
    then obtain r where r: "map_of (reg_rooms reg) (cd_roomName cd) = Some r" by (auto simp: roomExists_def)
    show ?thesis
    proof (cases "cd_remaining cd \<le> 0")
      case True
      obtain out s' ex where m: "markDisconnectResign (cd_color cd) (cd_username cd) (cd_elo cd) (setDisconnectStatus
          \<lparr>ds_active = True, ds_color = cd_color cd, secondsRemaining = cd_remaining cd\<rparr> (r_session r)) = ((out, s'), ex)"
        by (metis prod.collapse)
      show ?thesis
        by (rule expired [OF Some _ r True m _ refl])
          (use False Some r m True in \<open>simp_all add: countdownHandler_def Let_def roomNamed_def withSession_def withRoom_def\<close>)
    next
      case later: False
      show ?thesis
        by (rule waiting [OF Some _ _ _ _ refl])
          (use False Some later in \<open>simp_all add: countdownHandler_def Let_def withSession_def withRoom_def\<close>)
    qed
  qed
qed

lemma setDisconnectStatus_ok [simp]:
  "session_ok (setDisconnectStatus st s) = session_ok s" "gs_roomName (setDisconnectStatus st s) = gs_roomName s"
  "gs_tickInFlight (setDisconnectStatus st s) = gs_tickInFlight s"
  by (simp_all add: setDisconnectStatus_def session_ok_def queue_ok_def)

lemma countdownHandler_ok:
  assumes "registry_ok reg"
  shows "registry_ok (snd (fst (countdownHandler ec t reg)))" "snd (countdownHandler ec t reg) = None"
proof -
  have del: "registry_ok (reg\<lparr>reg_countdowns := AList.delete t (reg_countdowns reg)\<rparr>)"
    using registry_okD(2,5) [OF assms] by (intro registry_ok_countdowns [OF assms]) (auto split: if_splits simp: distinct_delete)
  show "registry_ok (snd (fst (countdownHandler ec t reg)))"
  proof (cases rule: countdownHandler_cases [where reg = reg and t = t and ec = ec])
    case (waiting cd out)
    have "registry_ok (reg\<lparr>reg_countdowns := AList.update t cd' (AList.delete t (reg_countdowns reg))\<rparr>)" for cd'
      using registry_okD(2,5) [OF assms] waiting(1)
      by (intro registry_ok_countdowns [OF assms]) (auto split: if_splits simp: distinct_delete distinct_update)
    then show ?thesis using waiting(5) by (auto intro!: registry_ok_withSession)
  next
    case (expired cd r out s' ex out0)
    have "session_ok (r_session r)" "gs_roomName (r_session r) = cd_roomName cd"
      using registry_okD(3) [OF assms expired(3)] by (simp_all add: room_ok_def)
    then show ?thesis
      using markDisconnectResign_session [OF expired(5)] registry_okD(3) [OF assms] expired(6)
      by (auto simp: room_ok_def intro!: registry_ok_withRoom [OF del])
  qed (simp_all add: assms del)
  show "snd (countdownHandler ec t reg) = None"
  proof (cases rule: countdownHandler_cases [where reg = reg and t = t and ec = ec])
    case (expired cd r out s' ex out0)
    then show ?thesis
      using registry_okD(3) [OF assms expired(3)] markDisconnectResign_session(3) [OF expired(5)] by (simp add: room_ok_def)
  qed simp_all
qed


section \<open>Runs\<close>

text \<open>
  Everything that happens to a registry, in any order. A timer calls its handler with an error
  code only when it was cancelled; a cancelled wait may still be called without one, when its
  time had already come.
\<close>

inductive registry_step :: "(json \<Rightarrow> string) \<Rightarrow> (string \<Rightarrow> json option) \<Rightarrow> (json_error \<Rightarrow> string) \<Rightarrow>
    registry \<Rightarrow> effect list \<Rightarrow> registry \<Rightarrow> bool"
  for dump parse what where
  create: "board_wf b \<Longrightarrow> (\<And>q. isWithinBounds b q \<Longrightarrow> getState (slot b q) = Idle) \<Longrightarrow>
    createRoom n b sm reg = (ok, out, reg') \<Longrightarrow> registry_step dump parse what reg out reg'"
| join: "joinRoom n h u reg = (ok, reg') \<Longrightarrow> registry_step dump parse what reg [] reg'"
| reserve: "registry_step dump parse what reg [] (reserveSeats n w b reg)"
| leave: "leave h reg = (c, out, reg') \<Longrightarrow> registry_step dump parse what reg out reg'"
| reap: "reapIfSafe n reg = (out, reg') \<Longrightarrow> registry_step dump parse what reg out reg'"
| disconnect: "startDisconnectCountdown n c u elo reg = (out, reg') \<Longrightarrow> registry_step dump parse what reg out reg'"
| fire: "map_of (reg_countdowns reg) t = Some cd \<Longrightarrow> (ec \<Longrightarrow> cd_cancelled cd) \<Longrightarrow>
    countdownHandler ec t reg = ((out, reg'), ex) \<Longrightarrow> registry_step dump parse what reg out reg'"
| cancel: "cancelDisconnectCountdown n c u reg = (ok, out, reg') \<Longrightarrow> registry_step dump parse what reg out reg'"
| work: "roomNamed n reg = Some s \<Longrightarrow> session_step dump parse what s out s' \<Longrightarrow>
    registry_step dump parse what reg (map SessionOut out) (withSession n (\<lambda>_. s') reg)"

lemma registry_ok_work:
  assumes "registry_ok reg" "roomNamed n reg = Some s" "session_step dump parse what s out s'"
  shows "registry_ok (withSession n (\<lambda>_. s') reg)"
proof -
  obtain r where r: "map_of (reg_rooms reg) n = Some r" "r_session r = s" using assms(2) by (auto simp: roomNamed_def)
  then have "session_ok s'" "gs_roomName s' = n"
    using registry_okD(3) [OF assms(1) r(1)] session_step_lawful [OF assms(3)] by (auto simp: room_ok_def lawful_def)
  then show ?thesis by (intro registry_ok_withSession [OF assms(1)]) simp
qed

lemma registry_step_ok: "registry_step dump parse what reg out reg' \<Longrightarrow> registry_ok reg \<Longrightarrow> registry_ok reg'"
proof (induction rule: registry_step.induct)
  case (create b n sm reg ok out reg')
  then show ?case using createRoom_ok [OF create(4,1,2)] by (metis snd_conv)
next
  case (work n reg s out s')
  then show ?case by (intro registry_ok_work)
qed (metis joinRoom_ok reserveSeats_ok leave_ok reapIfSafe_ok startDisconnectCountdown_ok countdownHandler_ok(1)
    cancelDisconnectCountdown_ok fst_conv snd_conv)+

lemma newRegistry_ok: "registry_ok (newRegistry d a rs)"
  by (simp add: registry_ok_def newRegistry_def)

section \<open>Seats\<close>

lemma joinRoom_seat:
  assumes "registry_ok reg"
  shows "map_of (reg_rooms reg) n = None \<Longrightarrow> joinRoom n h u reg = (False, reg)"
    and "map_of (reg_rooms reg) n = Some r \<Longrightarrow>
      fst (joinRoom n h u reg) \<and> roomOf h (snd (joinRoom n h u reg)) = Some n \<and>
      roleOf h (snd (joinRoom n h u reg)) =
        (if u \<noteq> [] \<and> map_of (r_seatReservations r) u \<noteq> None then the (map_of (r_seatReservations r) u)
         else if r_connectionCount r = 0 then White else if r_connectionCount r = 1 then Black else NoColor) \<and>
      (\<forall>h'. h' \<noteq> h \<longrightarrow> roomOf h' (snd (joinRoom n h u reg)) = roomOf h' reg \<and> roleOf h' (snd (joinRoom n h u reg)) = roleOf h' reg)"
proof -
  show "joinRoom n h u reg = (False, reg)" if "map_of (reg_rooms reg) n = None"
    using that by (simp add: joinRoom_def)
  assume r: "map_of (reg_rooms reg) n = Some r"
  show "fst (joinRoom n h u reg) \<and> roomOf h (snd (joinRoom n h u reg)) = Some n \<and>
      roleOf h (snd (joinRoom n h u reg)) =
        (if u \<noteq> [] \<and> map_of (r_seatReservations r) u \<noteq> None then the (map_of (r_seatReservations r) u)
         else if r_connectionCount r = 0 then White else if r_connectionCount r = 1 then Black else NoColor) \<and>
      (\<forall>h'. h' \<noteq> h \<longrightarrow> roomOf h' (snd (joinRoom n h u reg)) = roomOf h' reg \<and> roleOf h' (snd (joinRoom n h u reg)) = roleOf h' reg)"
    unfolding joinRoom_withRoom [OF assms r]
    using r by (auto simp: roleOf_def roomOf_def Let_def seatFor_def split: option.split)
qed

text \<open>The life of rooms in which no seat is reserved.\<close>

datatype lobby_event = Create string board bool | Join string conn string | Leave conn | Reap string | Tick string bool

fun lobby_step :: "lobby_event \<Rightarrow> registry \<Rightarrow> registry" where
  "lobby_step (Create n b sm) reg = snd (snd (createRoom n b sm reg))"
| "lobby_step (Join n h u) reg = snd (joinRoom n h u reg)"
| "lobby_step (Leave h) reg = snd (snd (leave h reg))"
| "lobby_step (Reap n) reg = snd (reapIfSafe n reg)"
| "lobby_step (Tick n inFlight) reg = withSession n (if inFlight then \<lambda>s. snd (tryBeginTick s) else endTick) reg"

fun lobby_guard :: "lobby_event \<Rightarrow> bool" where
  "lobby_guard (Create n b sm) \<longleftrightarrow> board_wf b \<and> (\<forall>q. isWithinBounds b q \<longrightarrow> getState (slot b q) = Idle)"
| "lobby_guard _ \<longleftrightarrow> True"

definition one_each :: "(conn, color) umap \<Rightarrow> bool" where
  "one_each roles \<longleftrightarrow> (\<forall>c h h'. c \<noteq> NoColor \<and> map_of roles h = Some c \<and> map_of roles h' = Some c \<longrightarrow> h = h')"

definition seats_ok :: "room \<Rightarrow> bool" where
  "seats_ok r \<longleftrightarrow> r_seatReservations r = [] \<and> one_each (r_roles r) \<and> 0 \<le> r_connectionCount r \<and>
     (\<forall>h. (map_of (r_roles r) h = Some White \<longrightarrow> 1 \<le> r_connectionCount r) \<and>
          (map_of (r_roles r) h = Some Black \<longrightarrow> 2 \<le> r_connectionCount r))"

definition lobby_ok :: "registry \<Rightarrow> bool" where
  "lobby_ok reg \<longleftrightarrow> registry_ok reg \<and> (\<forall>n r. map_of (reg_rooms reg) n = Some r \<longrightarrow> seats_ok r)"

lemma seats_ok_join:
  assumes "seats_ok r0"
  defines "r \<equiv> r0\<lparr>r_connectionCount := r_connectionCount r0 + 1\<rparr>"
  shows "seats_ok (r\<lparr>r_roles := AList.update h (seatFor r u) (r_roles r)\<rparr>)"
proof -
  have w: "map_of (r_roles r0) x \<noteq> Some White" if "r_connectionCount r0 = 0" for x
    using assms(1) that by (force simp: seats_ok_def)
  have b: "map_of (r_roles r0) x \<noteq> Some Black" if "r_connectionCount r0 \<le> 1" for x
    using assms(1) that by (force simp: seats_ok_def)
  have "seatFor r u = (if r_connectionCount r0 = 0 then White else if r_connectionCount r0 = 1 then Black else NoColor)"
    using assms(1) by (simp add: seatFor_def r_def seats_ok_def)
  then show ?thesis
    using assms(1) w b unfolding seats_ok_def one_each_def r_def by (auto split: if_splits)
qed

lemma seats_ok_frame:
  "seats_ok r \<Longrightarrow> seats_ok (r\<lparr>r_roles := AList.delete h (r_roles r)\<rparr>)"
  "seats_ok (r\<lparr>r_pendingRemoval := x\<rparr>) = seats_ok r" "seats_ok (r\<lparr>r_session := s\<rparr>) = seats_ok r"
  "seats_ok (newRoom s p)"
  unfolding seats_ok_def one_each_def by (auto simp: newRoom_def)

lemma lobby_ok_withRoom:
  assumes "lobby_ok reg" "registry_ok (withRoom n f reg)" "\<And>r. seats_ok r \<Longrightarrow> seats_ok (f r)"
  shows "lobby_ok (withRoom n f reg)"
  using assms by (auto simp: lobby_ok_def)

lemma lobby_ok_other [simp]: "lobby_ok (reg\<lparr>reg_connectionRoom := x\<rparr>) = lobby_ok reg"
  by (simp add: lobby_ok_def)

lemma lobby_ok_eraseRoom: "lobby_ok reg \<Longrightarrow> lobby_ok (snd (eraseRoom n reg))"
  using registry_ok_eraseRoom by (auto simp: lobby_ok_def eraseRoom_def)


lemma lobby_ok_leave:
  assumes "lobby_ok reg"
  shows "lobby_ok (snd (snd (leave h reg)))"
proof -
  have ok: "registry_ok reg" using assms by (simp add: lobby_ok_def)
  then show ?thesis
  proof (cases rule: leave_cases [where h = h])
    case (left n r f out reg1)
    have "registry_ok reg1" using leave_ok [OF ok, of h] left(4) by simp
    then have "lobby_ok reg1"
      using left(3,5) lobby_ok_eraseRoom [OF assms, of n] seats_ok_frame(1,2)
      by (auto intro!: lobby_ok_withRoom [OF assms]) (metis snd_conv)
    then show ?thesis using left(4) by simp
  qed (simp_all add: assms)
qed

interpretation lobby: guarded_steps lobby_step lobby_ok lobby_guard
proof
  fix reg e assume ok: "lobby_ok reg" and g: "lobby_guard e"
  have reg_ok: "registry_ok reg" using ok by (simp add: lobby_ok_def)
  show "lobby_ok (lobby_step e reg)"
  proof (cases e)
    case (Create n b sm)
    then have "registry_ok (snd (snd (createRoom n b sm reg)))" using g by (intro createRoom_ok [OF reg_ok]) auto
    then show ?thesis
      using ok Create by (auto simp: lobby_ok_def createRoom_def seats_ok_frame(4) split: if_splits)
  next
    case (Join n h u)
    show ?thesis
    proof (cases "map_of (reg_rooms reg) n")
      case None
      then show ?thesis using ok Join by (simp add: joinRoom_def)
    next
      case (Some r)
      show ?thesis
        using joinRoom_ok [OF reg_ok, of n h u] seats_ok_join
        unfolding Join lobby_step.simps joinRoom_withRoom [OF reg_ok Some] snd_conv lobby_ok_other registry_ok_other
        by (intro lobby_ok_withRoom [OF ok]) (simp_all add: Let_def)
    qed
  next
    case (Leave h)
    then show ?thesis using lobby_ok_leave [OF ok] by simp
  next
    case (Reap n)
    then show ?thesis using ok lobby_ok_eraseRoom [OF ok, of n] by (simp add: reapIfSafe_def split: option.split)
  next
    case (Tick n inFlight)
    have "registry_ok (withSession n (if inFlight then \<lambda>s. snd (tryBeginTick s) else endTick) reg)"
      by (rule registry_ok_withSession [OF reg_ok])
        (auto simp: tryBeginTick_def endTick_def session_ok_def queue_ok_def)
    then show ?thesis
      using lobby_ok_withRoom [OF ok] seats_ok_frame(3) by (simp add: Tick withSession_def)
  qed
qed

section \<open>The grace period\<close>

text \<open>
  The timer \<open>t\<close> of an open room counts, with \<open>k\<close> seconds to go; the seat is held for the player
  when, moreover, the room keeps it reserved under the name and knows which timer counts.
\<close>

definition counting :: "string \<Rightarrow> color \<Rightarrow> string \<Rightarrow> int \<Rightarrow> nat \<Rightarrow> int \<Rightarrow> registry \<Rightarrow> bool" where
  "counting n c u elo t k reg \<longleftrightarrow> roomExists n reg \<and> (\<exists>cd. map_of (reg_countdowns reg) t = Some cd \<and>
     cd_roomName cd = n \<and> cd_color cd = c \<and> cd_username cd = u \<and> cd_elo cd = elo \<and> cd_remaining cd = k)"

definition held :: "string \<Rightarrow> color \<Rightarrow> string \<Rightarrow> int \<Rightarrow> nat \<Rightarrow> int \<Rightarrow> registry \<Rightarrow> bool" where
  "held n c u elo t k reg \<longleftrightarrow> counting n c u elo t k reg \<and> (\<exists>r. map_of (reg_rooms reg) n = Some r \<and>
     map_of (r_seatReservations r) u = Some c \<and> map_of (r_pendingDisconnects r) c = Some \<lparr>pd_username = u, pd_timer = t\<rparr>)"

lemma held_start:
  assumes "roomExists n reg"
  shows "held n c u elo (reg_next reg) 20 (snd (startDisconnectCountdown n c u elo reg))"
  using assms
  by (auto simp: startDisconnectCountdown_def held_def counting_def roomExists_def Let_def kDisconnectGraceSeconds_def)

abbreviation fire :: "nat \<Rightarrow> registry \<Rightarrow> registry" where
  "fire t reg \<equiv> snd (fst (countdownHandler False t reg))"

lemma counting_fire:
  assumes "counting n c u elo t k reg" "0 < k"
  obtains cd where "fire t reg = withSession n (setDisconnectStatus \<lparr>ds_active = True, ds_color = c, secondsRemaining = k\<rparr>)
      (reg\<lparr>reg_countdowns := AList.update t (cd\<lparr>cd_remaining := k - 1, cd_cancelled := False\<rparr>) (AList.delete t (reg_countdowns reg))\<rparr>)"
    "map_of (reg_countdowns reg) t = Some cd" "counting n c u elo t (k - 1) (fire t reg)"
proof -
  obtain cd where h: "roomExists n reg" "map_of (reg_countdowns reg) t = Some cd" "cd_roomName cd = n" "cd_color cd = c"
      "cd_username cd = u" "cd_elo cd = elo" "cd_remaining cd = k" using assms(1) unfolding counting_def by blast
  have f: "fire t reg = withSession n (setDisconnectStatus \<lparr>ds_active = True, ds_color = c, secondsRemaining = k\<rparr>)
      (reg\<lparr>reg_countdowns := AList.update t (cd\<lparr>cd_remaining := k - 1, cd_cancelled := False\<rparr>) (AList.delete t (reg_countdowns reg))\<rparr>)"
    using h assms(2)
    by (cases rule: countdownHandler_cases [where reg = reg and t = t and ec = False]) (auto simp: roomExists_def)
  have "counting n c u elo t (k - 1) (fire t reg)"
    unfolding f counting_def withSession_def using h by (auto simp: roomExists_def)
  with f h(2) show thesis using that by blast
qed

lemma counting_session:
  assumes "counting n c u elo t k reg" "0 < k" "roomNamed n reg = Some s"
  shows "roomNamed n (fire t reg) = Some (setDisconnectStatus \<lparr>ds_active = True, ds_color = c, secondsRemaining = k\<rparr> s)"
  using assms(3) by (rule_tac counting_fire [OF assms(1,2)]) (auto simp: roomNamed_def withSession_def)

lemma held_fire:
  assumes "held n c u elo t k reg" "0 < k"
  shows "held n c u elo t (k - 1) (fire t reg)"
proof -
  have c: "counting n c u elo t k reg" using assms(1) by (simp add: held_def)
  show ?thesis using assms(1) by (rule_tac counting_fire [OF c assms(2)]) (auto simp: held_def withSession_def)
qed

lemma fires:
  "counting n c u elo t k reg \<Longrightarrow> int m \<le> k \<Longrightarrow> counting n c u elo t (k - int m) ((fire t ^^ m) reg)"
  "held n c u elo t k reg \<Longrightarrow> int m \<le> k \<Longrightarrow> held n c u elo t (k - int m) ((fire t ^^ m) reg)"
proof (induction m)
  case (Suc m)
  { case 1
    then have "counting n c u elo t (k - int m) ((fire t ^^ m) reg)" "0 < k - int m" using Suc.IH(1) by simp_all
    then show ?case by (rule counting_fire) (simp add: algebra_simps) }
  { case 2
    then have "held n c u elo t (k - int m) ((fire t ^^ m) reg)" "0 < k - int m" using Suc.IH(2) by simp_all
    from held_fire [OF this] show ?case by (simp add: algebra_simps) }
qed simp_all

lemma counting_sessions:
  assumes "counting n c u elo t k reg" "int m \<le> k" "roomNamed n reg = Some s"
  shows "\<exists>ds. roomNamed n ((fire t ^^ m) reg) = Some (setDisconnectStatus ds s)"
  using assms(2)
proof (induction m)
  case 0
  have "s = setDisconnectStatus (gs_disconnectStatus s) s" by (simp add: setDisconnectStatus_def)
  then show ?case using assms(3) by auto
next
  case (Suc m)
  then obtain ds where ds: "roomNamed n ((fire t ^^ m) reg) = Some (setDisconnectStatus ds s)" by auto
  have "counting n c u elo t (k - int m) ((fire t ^^ m) reg)" "0 < k - int m" using fires(1) [OF assms(1), of m] Suc.prems by auto
  from counting_session [OF this ds] show ?case by (auto simp: setDisconnectStatus_def)
qed

text \<open>Whoever comes back under that name while the seat is held gets it back.\<close>

lemma held_return:
  assumes "held n c u elo t k reg" "registry_ok reg" "u \<noteq> []"
  shows "roleOf h (snd (joinRoom n h u reg)) = c"
    and "\<exists>out reg' s r cd. cancelDisconnectCountdown n c u (snd (joinRoom n h u reg)) = (True, out, reg') \<and>
      TimerCancelled t \<in> set out \<and> roomNamed n reg' = Some s \<and> \<not> ds_active (gs_disconnectStatus s) \<and> roleOf h reg' = c \<and>
      map_of (reg_rooms reg') n = Some r \<and> map_of (r_pendingDisconnects r) c = None \<and>
      counting n c u elo t k reg' \<and> map_of (reg_countdowns reg') t = Some cd \<and> cd_cancelled cd"
proof -
  obtain r where r: "map_of (reg_rooms reg) n = Some r" "map_of (r_seatReservations r) u = Some c"
     "map_of (r_pendingDisconnects r) c = Some \<lparr>pd_username = u, pd_timer = t\<rparr>" and k: "counting n c u elo t k reg"
    using assms(1) unfolding held_def by blast
  show seat: "roleOf h (snd (joinRoom n h u reg)) = c" using joinRoom_seat(2) [OF assms(2) r(1)] r(2) assms(3) by simp
  show "\<exists>out reg' s r cd. cancelDisconnectCountdown n c u (snd (joinRoom n h u reg)) = (True, out, reg') \<and>
      TimerCancelled t \<in> set out \<and> roomNamed n reg' = Some s \<and> \<not> ds_active (gs_disconnectStatus s) \<and> roleOf h reg' = c \<and>
      map_of (reg_rooms reg') n = Some r \<and> map_of (r_pendingDisconnects r) c = None \<and>
      counting n c u elo t k reg' \<and> map_of (reg_countdowns reg') t = Some cd \<and> cd_cancelled cd"
    using r seat k unfolding joinRoom_withRoom [OF assms(2) r(1)]
    by (auto simp: cancelDisconnectCountdown_def Let_def withSession_def roomNamed_def setDisconnectStatus_def roleOf_def roomOf_def
        counting_def roomExists_def delete_conv cong: option.case_cong)
qed

text \<open>The wait that was cancelled reports its error and does nothing but give up the timer.\<close>

lemma cancelled_wait:
  "map_of (reg_countdowns reg) t = Some cd \<Longrightarrow>
   countdownHandler True t reg = (([], reg\<lparr>reg_countdowns := AList.delete t (reg_countdowns reg)\<rparr>), None)"
  by (simp add: countdownHandler_def Let_def)

lemma counting_expired:
  assumes "counting n c u elo t k reg" "k \<le> 0" "roomNamed n reg = Some s"
  shows "\<exists>out out0 s' ex. countdownHandler False t reg = ((out0 @ map SessionOut out, fire t reg), ex) \<and>
      set out0 \<inter> range SessionOut = {} \<and>
      markDisconnectResign c u elo (setDisconnectStatus \<lparr>ds_active = True, ds_color = c, secondsRemaining = k\<rparr> s) = ((out, s'), ex) \<and>
      roomNamed n (fire t reg) = Some s'"
    and "map_of (reg_countdowns (fire t reg)) t = None"
proof -
  obtain r cd where h: "map_of (reg_rooms reg) n = Some r" "r_session r = s"
     "map_of (reg_countdowns reg) t = Some cd" "cd_roomName cd = n" "cd_color cd = c" "cd_username cd = u"
     "cd_elo cd = elo" "cd_remaining cd = k" using assms(1,3) unfolding counting_def roomNamed_def by auto
  have "\<exists>out out0 s' ex. countdownHandler False t reg = ((out0 @ map SessionOut out, fire t reg), ex) \<and>
      set out0 \<inter> range SessionOut = {} \<and>
      markDisconnectResign c u elo (setDisconnectStatus \<lparr>ds_active = True, ds_color = c, secondsRemaining = k\<rparr> s) = ((out, s'), ex) \<and>
      roomNamed n (fire t reg) = Some s' \<and> map_of (reg_countdowns (fire t reg)) t = None"
  proof (cases rule: countdownHandler_cases [where reg = reg and t = t and ec = False])
    case (expired cd' r' out s' ex out0)
    then show ?thesis
      using h assms(2) by (intro exI [of _ out] exI [of _ out0] exI [of _ s'] exI [of _ ex]) (auto simp: roomNamed_def)
  qed (use h assms(2) in \<open>auto simp: roomExists_def\<close>)
  then show "\<exists>out out0 s' ex. countdownHandler False t reg = ((out0 @ map SessionOut out, fire t reg), ex) \<and>
      set out0 \<inter> range SessionOut = {} \<and>
      markDisconnectResign c u elo (setDisconnectStatus \<lparr>ds_active = True, ds_color = c, secondsRemaining = k\<rparr> s) = ((out, s'), ex) \<and>
      roomNamed n (fire t reg) = Some s'" "map_of (reg_countdowns (fire t reg)) t = None" by blast+
qed

text \<open>What the room reports when the time of a player is over.\<close>

definition resignation :: "color \<Rightarrow> string \<Rightarrow> int \<Rightarrow> game_session \<Rightarrow> game_result" where
  "resignation c u elo s = \<lparr>winner = (if c \<noteq> White then White else Black), end_reason = Disconnect,
      winnerUsername = (if c \<noteq> White then whiteUsername (gs_identity s) else blackUsername (gs_identity s)),
      winnerElo = (if c \<noteq> White then whiteElo (gs_identity s) else blackElo (gs_identity s)),
      loserUsername = u, loserElo = elo, moveLog = fullMoveLog s\<rparr>"

lemma counting_resigns:
  assumes "counting n c u elo t k reg" "0 \<le> k" "roomNamed n reg = Some s"
    "\<not> gs_gameResultPublished s" "\<not> game_over (gs_engine s)"
  shows "\<exists>j out0 reg'. countdownHandler False t ((fire t ^^ nat k) reg) =
      ((out0 @ [SessionOut (Published (gameEndedTopic (gs_roomName s)) j)], reg'), None) \<and>
    encodeResult (resignation c u elo s) = Inr j \<and> set out0 \<inter> range SessionOut = {} \<and> map_of (reg_countdowns reg') t = None"
proof -
  let ?reg = "(fire t ^^ nat k) reg"
  obtain ds where ds: "roomNamed n ?reg = Some (setDisconnectStatus ds s)"
    using counting_sessions [OF assms(1) _ assms(3), of "nat k"] assms(2) by auto
  have c: "counting n c u elo t 0 ?reg" using fires(1) [OF assms(1), of "nat k"] assms(2) by simp
  let ?s = "setDisconnectStatus \<lparr>ds_active = True, ds_color = c, secondsRemaining = 0\<rparr> (setDisconnectStatus ds s)"
  obtain out out0 s' ex where e: "countdownHandler False t ?reg = ((out0 @ map SessionOut out, fire t ?reg), ex)"
      "set out0 \<inter> range SessionOut = {}" "markDisconnectResign c u elo ?s = ((out, s'), ex)"
    using counting_expired(1) [OF c _ ds] by auto
  have r: "resignation c u elo ?s = resignation c u elo s" by (simp add: resignation_def setDisconnectStatus_def fullMoveLog_def)
  obtain j where j: "encodeResult (resignation c u elo s) = Inr j"
      "markDisconnectResign c u elo ?s = (([Published (gameEndedTopic (gs_roomName s)) j], ?s\<lparr>gs_gameResultPublished := True\<rparr>), None)"
    using markDisconnectResign_eq(2) [of ?s c u elo, folded resignation_def, unfolded r] assms(4,5)
    by (auto simp: setDisconnectStatus_def)
  then show ?thesis using e counting_expired(2) [OF c _ ds] by auto
qed

end
