(* ===== verification/Services.thy ===== *)
theory Services
  imports Rooms_Laws
begin

text \<open>
  What listens to a room and what stands behind the handlers: \<open>server/app/logic/MatchTicketRegistry\<close>,
  \<open>EloCalculator\<close>, \<open>EloService\<close>, \<open>GameHistoryService\<close>, \<open>GameStateMirrorService\<close>,
  \<open>server/app/networking/BroadcasterManager\<close> and \<open>NetworkBroadcaster\<close>, \<open>server/db/UserRepository.cpp\<close>
  and \<open>IUserRepository.h\<close>. The users table is an association list: the three SQL statements read,
  insert and update the row of one primary key.
\<close>

section \<open>Match tickets\<close>

record tickets =
  tk_shardAddress :: string
  tk_nextId :: int
  ticketByConnection :: "(conn, string) umap"
  connectionByTicket :: "(string, conn) umap"

definition newTickets :: "string \<Rightarrow> tickets" where
  "newTickets addr = \<lparr>tk_shardAddress = addr, tk_nextId = 1, ticketByConnection = [], connectionByTicket = []\<rparr>"

definition ticketName :: "string \<Rightarrow> int \<Rightarrow> string" where
  "ticketName addr k = addr @ ''#'' @ showInt k"

definition addTicket :: "conn \<Rightarrow> tickets \<Rightarrow> string \<times> tickets" where
  "addTicket hdl tk =
     (let ticketId = ticketName (tk_shardAddress tk) (tk_nextId tk)
      in (ticketId, tk\<lparr>tk_nextId := tk_nextId tk + 1,
            ticketByConnection := AList.update hdl ticketId (ticketByConnection tk),
            connectionByTicket := AList.update ticketId hdl (connectionByTicket tk)\<rparr>))"

definition cancelTicket :: "conn \<Rightarrow> tickets \<Rightarrow> string option \<times> tickets" where
  "cancelTicket hdl tk =
     (case map_of (ticketByConnection tk) hdl of
        None \<Rightarrow> (None, tk)
      | Some ticketId \<Rightarrow> (Some ticketId, tk\<lparr>connectionByTicket := AList.delete ticketId (connectionByTicket tk),
            ticketByConnection := AList.delete hdl (ticketByConnection tk)\<rparr>))"

definition resolveTicket :: "string \<Rightarrow> tickets \<Rightarrow> conn option \<times> tickets" where
  "resolveTicket ticketId tk =
     (case map_of (connectionByTicket tk) ticketId of
        None \<Rightarrow> (None, tk)
      | Some hdl \<Rightarrow> (Some hdl, tk\<lparr>connectionByTicket := AList.delete ticketId (connectionByTicket tk),
            ticketByConnection := AList.delete hdl (ticketByConnection tk)\<rparr>))"

section \<open>Users\<close>

record login_result =
  lr_success :: bool
  lr_message :: string
  lr_elo :: int

text \<open>A row: password hash and rating. \<open>sqlite3_bind_text\<close> with length \<open>-1\<close> stops at the first null character.\<close>

type_synonym users = "(string, string \<times> int) umap"

definition kStartingElo :: int where "kStartingElo = 1200"

definition c_str :: "string \<Rightarrow> string" where
  "c_str s = takeWhile (\<lambda>c. c \<noteq> CHR 0x00) s"

definition nul_free :: "string \<Rightarrow> bool" where
  "nul_free s \<longleftrightarrow> c_str s = s"

lemma c_str_prefix: "nul_free p \<Longrightarrow> c_str (p @ n) = p @ c_str n"
  by (simp add: nul_free_def c_str_def takeWhile_append)

lemma nul_free_iff: "nul_free s \<longleftrightarrow> CHR 0x00 \<notin> set s"
  by (auto simp: nul_free_def c_str_def takeWhile_eq_all_conv)

lemma c_str_c_str [simp]: "nul_free (c_str s)"
  by (auto simp: nul_free_iff c_str_def dest: set_takeWhileD)

text \<open>\<open>hash\<close> is \<open>std::hash\<close>; \<open>writable\<close> says whether the insertion of a row succeeds.\<close>

definition hashPassword :: "(string \<Rightarrow> nat) \<Rightarrow> string \<Rightarrow> string" where
  "hashPassword hash password = showNat (hash password)"

definition login :: "(string \<Rightarrow> nat) \<Rightarrow> bool \<Rightarrow> string \<Rightarrow> string \<Rightarrow> users \<Rightarrow> login_result \<times> users" where
  "login hash writable username password us =
     (let hashed = hashPassword hash password
      in case map_of us (c_str username) of
           Some (storedHash, elo) \<Rightarrow>
             (if storedHash \<noteq> hashed then \<lparr>lr_success = False, lr_message = ''wrong password'', lr_elo = 0\<rparr>
              else \<lparr>lr_success = True, lr_message = ''login successful'', lr_elo = elo\<rparr>, us)
         | None \<Rightarrow>
             if \<not> writable then (\<lparr>lr_success = False, lr_message = ''could not create account'', lr_elo = 0\<rparr>, us)
             else (\<lparr>lr_success = True, lr_message = ''account created'', lr_elo = kStartingElo\<rparr>,
                   AList.update (c_str username) (c_str hashed, kStartingElo) us))"

definition updateElo :: "string \<Rightarrow> int \<Rightarrow> users \<Rightarrow> users" where
  "updateElo username newElo = AList.map_entry (c_str username) (\<lambda>(h, _). (h, newElo))"

section \<open>Ratings\<close>

text \<open>\<open>double\<close> is modelled by the reals; \<open>std::lround\<close> rounds halves away from zero.\<close>

definition kFactor :: int where "kFactor = 32"

definition lround :: "real \<Rightarrow> int" where
  "lround x = (if x < 0 then - \<lfloor>- x + 1 / 2\<rfloor> else \<lfloor>x + 1 / 2\<rfloor>)"

definition applyElo :: "int \<Rightarrow> int \<Rightarrow> int \<times> int" where
  "applyElo winnerRating loserRating =
     (let expectedWinner = 1 / (1 + 10 powr (of_int (loserRating - winnerRating) / 400));
          expectedLoser = 1 - expectedWinner
      in (winnerRating + lround (of_int kFactor * (1 - expectedWinner)),
          loserRating + lround (of_int kFactor * (0 - expectedLoser))))"

definition eloGameEnded :: "json \<Rightarrow> users \<Rightarrow> json_error + users" where
  "eloGameEnded data us =
     sbind (decodeResult data) (\<lambda>r.
       if winnerUsername r = [] \<or> loserUsername r = [] then Inr us
       else let (newWinner, newLoser) = applyElo (winnerElo r) (loserElo r)
            in Inr (updateElo (loserUsername r) newLoser (updateElo (winnerUsername r) newWinner us)))"

section \<open>History and mirror\<close>

record game_record =
  rec_roomName :: string
  rec_winnerUsername :: string
  rec_winnerElo :: int
  rec_loserUsername :: string
  rec_loserElo :: int
  rec_reason :: string
  rec_moveLog :: json

text \<open>The record handed to the repository, if there is one to hand it to.\<close>

definition historyGameEnded :: "bool \<Rightarrow> string \<Rightarrow> json \<Rightarrow> json_error + game_record option" where
  "historyGameEnded repository roomName data =
     (if \<not> repository then Inr None
      else sbind (decodeResult data) (\<lambda>r.
        if winnerUsername r = [] \<or> loserUsername r = [] then Inr None
        else Inr (Some \<lparr>rec_roomName = roomName, rec_winnerUsername = winnerUsername r, rec_winnerElo = winnerElo r,
               rec_loserUsername = loserUsername r, rec_loserElo = loserElo r,
               rec_reason = (if end_reason r = KingCapture then ''KingCapture'' else ''Disconnect''),
               rec_moveLog = moveLog r\<rparr>)))"

record mirrored =
  mir_roomName :: string
  mir_board :: string
  mir_moveLog :: string
  mir_whiteUsername :: string
  mir_whiteElo :: int
  mir_blackUsername :: string
  mir_blackElo :: int

definition mirror :: "(json \<Rightarrow> string) \<Rightarrow> bool \<Rightarrow> string \<Rightarrow> registry \<Rightarrow> json_error + mirrored option" where
  "mirror dump store roomName reg =
     (if \<not> store then Inr None
      else case roomNamed roomName reg of
             None \<Rightarrow> Inr None
           | Some s \<Rightarrow>
               sbind (encodeSnapshot (snapshot (gs_engine s))) (\<lambda>j.
               Inr (Some \<lparr>mir_roomName = roomName, mir_board = dump j, mir_moveLog = dump (fullMoveLog s),
                      mir_whiteUsername = whiteUsername (gs_identity s), mir_whiteElo = whiteElo (gs_identity s),
                      mir_blackUsername = blackUsername (gs_identity s), mir_blackElo = blackElo (gs_identity s)\<rparr>)))"

section \<open>Subscribers\<close>

text \<open>
  The callbacks on the event bus. The one of a \<open>NetworkBroadcaster\<close> captures \<open>this\<close>, the address of
  the broadcaster; the manager owns the broadcasters of the current attachment of each room.
\<close>

datatype subscriber =
    Broadcaster nat string
  | RateGame
  | RecordGame string
  | MirrorRoom string
  | ClearMirror string

record hub =
  hub_bus :: "subscriber event_bus"
  hub_broadcasters :: "(string, nat list) umap"
  hub_next :: nat

definition newBroadcaster :: "string \<Rightarrow> string \<Rightarrow> hub \<Rightarrow> nat \<times> hub" where
  "newBroadcaster topic roomName hb =
     (hub_next hb, hb\<lparr>hub_bus := subscribe topic (Broadcaster (hub_next hb) roomName) (hub_bus hb), hub_next := Suc (hub_next hb)\<rparr>)"

definition attachBroadcasters :: "string \<Rightarrow> hub \<Rightarrow> hub" where
  "attachBroadcasters roomName hb =
     (let (b1, hb1) = newBroadcaster (moveLogTopic roomName) roomName hb;
          (b2, hb2) = newBroadcaster (captureTopic roomName) roomName hb1
      in hb2\<lparr>hub_broadcasters := AList.update roomName [b1, b2] (hub_broadcasters hb2)\<rparr>)"

definition attachElo :: "string \<Rightarrow> hub \<Rightarrow> hub" where
  "attachElo roomName hb = hb\<lparr>hub_bus := subscribe (gameEndedTopic roomName) RateGame (hub_bus hb)\<rparr>"

definition attachHistory :: "string \<Rightarrow> hub \<Rightarrow> hub" where
  "attachHistory roomName hb = hb\<lparr>hub_bus := subscribe (gameEndedTopic roomName) (RecordGame roomName) (hub_bus hb)\<rparr>"

definition attachMirror :: "string \<Rightarrow> hub \<Rightarrow> hub" where
  "attachMirror roomName hb = hb\<lparr>hub_bus := subscribe (gameEndedTopic roomName) (ClearMirror roomName)
     (subscribe (moveLogTopic roomName) (MirrorRoom roomName) (hub_bus hb))\<rparr>"

text \<open>The closure \<open>attachBroadcaster\<close> of the message dispatcher.\<close>

definition attachRoom :: "string \<Rightarrow> registry \<times> hub \<Rightarrow> registry \<times> hub" where
  "attachRoom roomName = (\<lambda>(reg, hb).
     (withSession roomName setSnapshotSender reg,
      attachMirror roomName (attachHistory roomName (attachElo roomName (attachBroadcasters roomName hb)))))"

text \<open>What a broadcaster sends: the text of the payload to everyone in its room.\<close>

definition broadcast :: "(json \<Rightarrow> string) \<Rightarrow> registry \<Rightarrow> string \<Rightarrow> json \<Rightarrow> (conn \<times> string) list" where
  "broadcast dump reg roomName data = map (\<lambda>h. (h, dump data)) (connectionsInRoom roomName reg)"

definition alive :: "hub \<Rightarrow> subscriber \<Rightarrow> bool" where
  "alive hb s = (case s of Broadcaster b r \<Rightarrow> b \<in> set (concat (map snd (hub_broadcasters hb))) | _ \<Rightarrow> True)"

end
