(* ===== verification/Services_Laws.thy ===== *)
theory Services_Laws
  imports Services
begin

text \<open>
  The laws of the services: a ticket is settled at most once, ratings are exchanged and not made,
  accounts keep their passwords, and what the subscriptions of a room amount to.
\<close>

section \<open>Numbers as text\<close>

definition digitValue :: "char \<Rightarrow> nat" where
  "digitValue c = of_char c - 48"

definition readNat :: "string \<Rightarrow> nat" where
  "readNat s = foldl (\<lambda>n c. 10 * n + digitValue c) 0 s"

lemma readNat_showNat [simp]: "readNat (showNat n) = n"
proof (induction n rule: showNat.induct)
  case (1 n)
  have d: "digitValue (char_of (48 + k)) = k" if "k < 10" for k :: nat
    using that by (simp add: digitValue_def of_char_of)
  show ?case
  proof (cases "n < 10")
    case True
    then show ?thesis using d [of n] by (simp add: showNat.simps [of n] readNat_def)
  next
    case False
    then have "readNat (showNat n) = 10 * readNat (showNat (n div 10)) + n mod 10"
      using d [of "n mod 10"] by (simp add: showNat.simps [of n] readNat_def)
    then show ?thesis using False 1 by simp
  qed
qed

lemma showNat_inject [simp]: "showNat m = showNat n \<longleftrightarrow> m = n"
  by (metis readNat_showNat)

lemma ticketName_inject: "0 \<le> k \<Longrightarrow> 0 \<le> k' \<Longrightarrow> ticketName a k = ticketName a k' \<longleftrightarrow> k = k'"
  by (auto simp: ticketName_def showInt_def nat_eq_iff2)

section \<open>Tickets\<close>

definition tickets_ok :: "tickets \<Rightarrow> bool" where
  "tickets_ok tk \<longleftrightarrow> 1 \<le> tk_nextId tk \<and>
     (\<forall>h t. map_of (ticketByConnection tk) h = Some t \<longrightarrow> map_of (connectionByTicket tk) t = Some h) \<and>
     (\<forall>t h. map_of (connectionByTicket tk) t = Some h \<longrightarrow> (\<exists>k. 1 \<le> k \<and> k < tk_nextId tk \<and> t = ticketName (tk_shardAddress tk) k))"

datatype ticket_event = AddTicket conn | CancelTicket conn | ResolveTicket string

text \<open>One operation, with the ticket it issues and the ticket it settles.\<close>

fun ticket_step :: "ticket_event \<Rightarrow> tickets \<Rightarrow> string list \<times> string list \<times> tickets" where
  "ticket_step (AddTicket h) tk = (let (t, tk') = addTicket h tk in ([t], [], tk'))"
| "ticket_step (CancelTicket h) tk = (let (r, tk') = cancelTicket h tk in ([], case r of None \<Rightarrow> [] | Some t \<Rightarrow> [t], tk'))"
| "ticket_step (ResolveTicket t) tk = (let (r, tk') = resolveTicket t tk in ([], case r of None \<Rightarrow> [] | Some h \<Rightarrow> [t], tk'))"

fun ticket_run :: "ticket_event list \<Rightarrow> tickets \<Rightarrow> string list \<times> string list \<times> tickets" where
  "ticket_run [] tk = ([], [], tk)"
| "ticket_run (e # es) tk =
     (let (iss, ss, tk1) = ticket_step e tk; (iss', ss', tk2) = ticket_run es tk1 in (iss @ iss', ss @ ss', tk2))"

abbreviation open_tickets :: "tickets \<Rightarrow> string set" where
  "open_tickets tk \<equiv> dom (map_of (connectionByTicket tk))"

definition fresh_tickets :: "tickets \<Rightarrow> string set" where
  "fresh_tickets tk = ticketName (tk_shardAddress tk) ` {k. tk_nextId tk \<le> k}"

lemma open_not_fresh: "tickets_ok tk \<Longrightarrow> open_tickets tk \<inter> fresh_tickets tk = {}"
  by (fastforce simp: tickets_ok_def fresh_tickets_def ticketName_inject)

lemma tickets_ok_settle:
  assumes ok: "tickets_ok tk" and t: "map_of (connectionByTicket tk) t = Some h"
  shows "tickets_ok (tk\<lparr>connectionByTicket := AList.delete t (connectionByTicket tk),
      ticketByConnection := AList.delete h (ticketByConnection tk)\<rparr>)" (is "tickets_ok ?tk")
  unfolding tickets_ok_def
proof (intro conjI allI impI)
  show "1 \<le> tk_nextId ?tk" using ok by (simp add: tickets_ok_def)
  fix h' t' assume "map_of (ticketByConnection ?tk) h' = Some t'"
  then have h': "h' \<noteq> h" "map_of (ticketByConnection tk) h' = Some t'" by (auto split: if_splits)
  then have "map_of (connectionByTicket tk) t' = Some h'" using ok unfolding tickets_ok_def by blast
  then show "map_of (connectionByTicket ?tk) t' = Some h'" using h'(1) t by auto
next
  fix t' h' assume "map_of (connectionByTicket ?tk) t' = Some h'"
  then have "map_of (connectionByTicket tk) t' = Some h'" by (simp split: if_splits)
  then obtain k where "1 \<le> k" "k < tk_nextId tk" "t' = ticketName (tk_shardAddress tk) k"
    using ok unfolding tickets_ok_def by blast
  then show "\<exists>k. 1 \<le> k \<and> k < tk_nextId ?tk \<and> t' = ticketName (tk_shardAddress ?tk) k" by (intro exI [of _ k]) simp
qed

text \<open>
  The step law: every ticket it issues was fresh and is open after it; every ticket it settles
  was open and is neither open nor fresh after it.
\<close>

lemma ticket_step_laws:
  assumes ok: "tickets_ok tk" and step: "ticket_step e tk = (iss, ss, tk')"
  shows "tickets_ok tk'" "distinct iss \<and> set iss \<subseteq> fresh_tickets tk" "distinct ss \<and> set ss \<subseteq> open_tickets tk"
    and "open_tickets tk' = open_tickets tk \<union> set iss - set ss" "fresh_tickets tk' = fresh_tickets tk - set iss"
    and "set iss \<inter> set ss = {}"
proof -
  have issue: "tickets_ok (snd (addTicket h tk))" "fst (addTicket h tk) \<in> fresh_tickets tk"
    "open_tickets (snd (addTicket h tk)) = insert (fst (addTicket h tk)) (open_tickets tk)"
    "fresh_tickets (snd (addTicket h tk)) = fresh_tickets tk - {fst (addTicket h tk)}" for h
  proof -
    let ?t = "ticketName (tk_shardAddress tk) (tk_nextId tk)"
    have n: "1 \<le> tk_nextId tk" using ok by (simp add: tickets_ok_def)
    have new: "?t \<in> fresh_tickets tk" by (simp add: fresh_tickets_def)
    then have "map_of (connectionByTicket tk) ?t = None" using open_not_fresh [OF ok] by auto
    then show "tickets_ok (snd (addTicket h tk))"
      using ok n unfolding tickets_ok_def addTicket_def Let_def by (auto split: if_splits) force
    show "fst (addTicket h tk) \<in> fresh_tickets tk" using new by (simp add: addTicket_def Let_def)
    show "open_tickets (snd (addTicket h tk)) = insert (fst (addTicket h tk)) (open_tickets tk)"
      by (auto simp: addTicket_def Let_def dom_update)
    show "fresh_tickets (snd (addTicket h tk)) = fresh_tickets tk - {fst (addTicket h tk)}"
      using n by (auto simp: fresh_tickets_def addTicket_def Let_def ticketName_inject)
  qed
  note settle = tickets_ok_settle [OF ok]
  have r: "map_of (ticketByConnection tk) h = Some t \<Longrightarrow> map_of (connectionByTicket tk) t = Some h" for h t
    using ok by (simp add: tickets_ok_def)
  have "tickets_ok tk' \<and> (distinct iss \<and> set iss \<subseteq> fresh_tickets tk) \<and> (distinct ss \<and> set ss \<subseteq> open_tickets tk) \<and>
    open_tickets tk' = open_tickets tk \<union> set iss - set ss \<and> fresh_tickets tk' = fresh_tickets tk - set iss \<and> set iss \<inter> set ss = {}"
  proof (cases e)
    case (AddTicket h)
    then have "iss = [fst (addTicket h tk)]" "ss = []" "tk' = snd (addTicket h tk)"
      using step by (simp_all add: case_prod_beta)
    then show ?thesis using issue(1) [of h] issue(2) [of h] issue(3) [of h] issue(4) [of h] by simp
  next
    case (CancelTicket h)
    show ?thesis
    proof (cases "map_of (ticketByConnection tk) h")
      case None
      then show ?thesis using step ok CancelTicket by (simp add: cancelTicket_def)
    next
      case (Some t)
      then show ?thesis using step settle [OF r [OF Some]] r [OF Some] CancelTicket
        by (auto simp: cancelTicket_def fresh_tickets_def split: if_splits)
    qed
  next
    case (ResolveTicket t)
    show ?thesis
    proof (cases "map_of (connectionByTicket tk) t")
      case None
      then show ?thesis using step ok ResolveTicket by (simp add: resolveTicket_def)
    next
      case (Some h)
      then show ?thesis using step settle [OF Some] ResolveTicket
        by (auto simp: resolveTicket_def fresh_tickets_def split: if_splits)
    qed
  qed
  then show "tickets_ok tk'" "distinct iss \<and> set iss \<subseteq> fresh_tickets tk" "distinct ss \<and> set ss \<subseteq> open_tickets tk"
    "open_tickets tk' = open_tickets tk \<union> set iss - set ss" "fresh_tickets tk' = fresh_tickets tk - set iss"
    "set iss \<inter> set ss = {}" by blast+
qed

lemma issue_settle_sets:
  assumes "Op \<inter> F = {}" "I1 \<subseteq> F" "S1 \<subseteq> Op" "Op1 = Op \<union> I1 - S1" "F1 = F - I1" "I2 \<subseteq> F1" "S2 \<subseteq> Op1 \<union> I2"
  shows "I1 \<inter> I2 = {}" "S1 \<inter> S2 = {}" "I1 \<union> I2 \<subseteq> F" "S1 \<union> S2 \<subseteq> Op \<union> (I1 \<union> I2)"
    "Op1 \<union> I2 - S2 = Op \<union> (I1 \<union> I2) - (S1 \<union> S2)"
  using assms by blast+

lemma ticket_run_laws:
  assumes "tickets_ok tk" "ticket_run es tk = (iss, ss, tk')"
  shows "tickets_ok tk' \<and> distinct iss \<and> distinct ss \<and> set iss \<subseteq> fresh_tickets tk \<and> set ss \<subseteq> open_tickets tk \<union> set iss \<and>
    open_tickets tk' = open_tickets tk \<union> set iss - set ss"
  using assms
proof (induction es arbitrary: tk iss ss)
  case (Cons e es)
  obtain is1 ss1 tk1 where s: "ticket_step e tk = (is1, ss1, tk1)" by (cases "ticket_step e tk")
  obtain is2 ss2 where run: "ticket_run es tk1 = (is2, ss2, tk')" "iss = is1 @ is2" "ss = ss1 @ ss2"
    using Cons.prems(2) by (auto simp: s split: prod.splits)
  note l = ticket_step_laws [OF Cons.prems(1) s]
  note ih = Cons.IH [OF l(1) run(1)]
  then have i: "set is2 \<subseteq> fresh_tickets tk1" "set ss2 \<subseteq> open_tickets tk1 \<union> set is2" by simp_all
  note sets = issue_settle_sets [OF open_not_fresh [OF Cons.prems(1)] conjunct2 [OF l(2)] conjunct2 [OF l(3)] l(4,5) i]
  show ?case
    unfolding run(2,3) distinct_append set_append using sets ih l(2,3) by simp
qed auto


section \<open>Ratings\<close>

lemma lround_minus: "lround (- x) = - lround x"
  by (cases x "0 :: real" rule: linorder_cases) (simp_all add: lround_def floor_eq_iff)

lemma lround_mono: "0 \<le> x \<Longrightarrow> x \<le> y \<Longrightarrow> lround x \<le> lround y"
  by (simp add: lround_def floor_mono)

lemma lround_of_int: "lround (of_int i) = i"
  by (simp add: lround_def floor_eq_iff)

text \<open>What the winner gains, as a function of the difference of the ratings.\<close>

definition eloGain :: "int \<Rightarrow> int" where
  "eloGain d = lround (32 * (1 - 1 / (1 + 10 powr (of_int (- d) / 400))))"

lemma applyElo_eq: "applyElo w l = (w + eloGain (w - l), l - eloGain (w - l))"
proof -
  let ?e = "1 / (1 + 10 powr (of_int (l - w) / 400)) :: real"
  have "lround (32 * (0 - (1 - ?e))) = - lround (32 * (1 - ?e))"
    using lround_minus [of "32 * (1 - ?e)"] by (simp add: algebra_simps)
  then show ?thesis by (simp add: applyElo_def eloGain_def kFactor_def Let_def)
qed

lemma expected_range:
  fixes x :: real
  shows "0 \<le> 1 - 1 / (1 + 10 powr x)" "1 - 1 / (1 + 10 powr x) \<le> 1"
proof -
  have p: "0 < 10 powr x" by simp
  then have "1 / (1 + 10 powr x) \<le> 1" by (intro divide_le_eq_1 [THEN iffD2] disjI1 conjI) linarith+
  then show "0 \<le> 1 - 1 / (1 + 10 powr x)" by simp
  from p have "0 \<le> 1 / (1 + 10 powr x)" by (intro divide_nonneg_pos) linarith+
  then show "1 - 1 / (1 + 10 powr x) \<le> 1" by simp
qed

lemma eloGain_range: "0 \<le> eloGain d" "eloGain d \<le> 32"
proof -
  note r = expected_range [of "of_int (- d) / 400"]
  show "0 \<le> eloGain d"
    using lround_mono [of 0 "32 * (1 - 1 / (1 + 10 powr (of_int (- d) / 400)))"] r lround_of_int [of 0]
    by (simp add: eloGain_def)
  show "eloGain d \<le> 32"
    using lround_mono [of "32 * (1 - 1 / (1 + 10 powr (of_int (- d) / 400)))" 32] r lround_of_int [of 32]
    by (simp add: eloGain_def)
qed

lemma eloGain_antimono:
  assumes "d \<le> d'"
  shows "eloGain d' \<le> eloGain d"
proof -
  let ?x = "10 powr (of_int (- d) / 400) :: real" and ?y = "10 powr (of_int (- d') / 400) :: real"
  have "?y \<le> ?x" using assms by (intro powr_mono) simp_all
  moreover have "0 < ?y" by simp
  ultimately have "1 / (1 + ?x) \<le> 1 / (1 + ?y)" by (intro divide_left_mono mult_pos_pos) linarith+
  then show ?thesis
    unfolding eloGain_def using expected_range(1) [of "of_int (- d') / 400"] by (intro lround_mono) simp_all
qed

lemma eloGain_0: "eloGain 0 = 16"
  using lround_of_int [of 16] by (simp add: eloGain_def)

section \<open>Accounts\<close>

lemma showNat_no_null: "CHR 0x00 \<notin> set (showNat n)"
proof (induction n rule: showNat.induct)
  case (1 n)
  have d: "CHR 0x00 \<noteq> char_of (48 + k)" if "k < 10" for k :: nat
  proof
    assume "CHR 0x00 = char_of (48 + k)"
    then have "(of_char CHR 0x00 :: nat) = of_char (char_of (48 + k) :: char)" by (rule arg_cong)
    then show False using that by (simp add: of_char_of)
  qed
  show ?case using 1 d [of n] d [of "n mod 10"] by (cases "n < 10") (simp_all add: showNat.simps [of n])
qed

lemma login_twice:
  assumes "login hash w u pw us = (r, us')" "lr_success r"
  shows "login hash w' u pw us' = (\<lparr>lr_success = True, lr_message = ''login successful'', lr_elo = lr_elo r\<rparr>, us')"
    and "hash pw' \<noteq> hash pw \<Longrightarrow> login hash w' u pw' us' = (\<lparr>lr_success = False, lr_message = ''wrong password'', lr_elo = 0\<rparr>, us')"
proof -
  have c: "c_str (hashPassword hash pw) = hashPassword hash pw" for pw
    unfolding c_str_def hashPassword_def by (intro takeWhile_eq_all_conv [THEN iffD2]) (metis showNat_no_null)
  show "login hash w' u pw us' = (\<lparr>lr_success = True, lr_message = ''login successful'', lr_elo = lr_elo r\<rparr>, us')"
    using assms c by (auto simp: login_def Let_def split: option.splits if_splits)
  show "login hash w' u pw' us' = (\<lparr>lr_success = False, lr_message = ''wrong password'', lr_elo = 0\<rparr>, us')" if "hash pw' \<noteq> hash pw"
    using assms that c by (auto simp: login_def Let_def hashPassword_def split: option.splits if_splits)
qed

lemma login_frame:
  assumes "c_str u' \<noteq> c_str u"
  shows "map_of (snd (login hash w u pw us)) (c_str u') = map_of us (c_str u')"
  using assms by (auto simp: login_def Let_def split: option.splits)

end
