(* ===== verification/Handlers.thy ===== *)
theory Handlers
  imports Services_Laws
begin

text \<open>
  What a shard does with a message and with a connection that closes: \<open>server/app/handlers/\<close> and
  \<open>server/app/session/ConnectionHandler.cpp\<close>. A handler returns its reply, the actions it takes
  on the outside and the new state; an exception is raised before a handler changes anything,
  with the exception of the two subscriptions of \<open>FindGameHandler\<close>, which return both.
\<close>

section \<open>State and surroundings\<close>

record server =
  sv_registry :: registry
  sv_clients :: client_sessions
  sv_tickets :: tickets
  sv_hub :: hub
  sv_users :: users
  sv_idCounter :: int

datatype action =
    Did effect
  | NatsPublish string json
  | Push conn string

record client_session_data =
  csd_username :: string
  csd_elo :: int

text \<open>
  What the handlers use of other code: the JSON library, \<open>std::hash\<close>, whether the users database
  can be written, the session store if there is one, and whether there are a NATS client, a game
  history repository and a game state store.
\<close>

record environment =
  env_dump :: "json \<Rightarrow> string"
  env_parse :: "string \<Rightarrow> json option"
  env_what :: "json_error \<Rightarrow> string"
  env_parseWhat :: "string \<Rightarrow> string"
  env_hash :: "string \<Rightarrow> nat"
  env_writable :: bool
  env_sessionStore :: "(string \<Rightarrow> client_session_data option) option"
  env_nats :: bool
  env_gameHistory :: bool
  env_gameStateStore :: bool

definition jstring :: "string \<Rightarrow> json \<Rightarrow> json_error + string" where
  "jstring k j = sbind (jat k j) getString"

definition failure :: "string \<Rightarrow> json" where
  "failure m = JObj [(''success'', JBool False), (''message'', JStr m)]"

section \<open>The handlers\<close>

definition handleLogin :: "environment \<Rightarrow> conn \<Rightarrow> json \<Rightarrow> server \<Rightarrow> json_error + (json \<times> action list \<times> server)" where
  "handleLogin env hdl pl sv =
     sbind (jstring ''username'' pl) (\<lambda>username.
     sbind (jstring ''password'' pl) (\<lambda>password.
     let (r, us) = login (env_hash env) (env_writable env) username password (sv_users sv);
         sv1 = sv\<lparr>sv_users := us\<rparr>;
         sv2 = (if lr_success r then sv1\<lparr>sv_clients := onLogin hdl username (lr_elo r) (sv_clients sv1)\<rparr> else sv1)
     in Inr (JObj [(''success'', JBool (lr_success r)), (''message'', JStr (lr_message r)), (''elo'', JInt (lr_elo r))], [], sv2)))"

text \<open>The reply of the two handlers that seat a connection.\<close>

definition seatedReply :: "string \<Rightarrow> string \<Rightarrow> color \<Rightarrow> game_session \<Rightarrow> room_identity \<Rightarrow> json" where
  "seatedReply m name role s i =
     JObj [(''success'', JBool True), (''message'', JStr m), (''role'', JStr (roleName role)), (''roomName'', JStr name),
       (''moveLog'', fullMoveLog s), (''whiteName'', JStr (whiteUsername i)), (''whiteElo'', JInt (whiteElo i)),
       (''blackName'', JStr (blackUsername i)), (''blackElo'', JInt (blackElo i))]"

definition handleJoinRoom :: "environment \<Rightarrow> conn \<Rightarrow> json \<Rightarrow> server \<Rightarrow> json_error + (json \<times> action list \<times> server)" where
  "handleJoinRoom env hdl pl sv =
     sbind (jstring ''name'' pl) (\<lambda>name.
     if \<not> roomExists name (sv_registry sv) then Inr (failure ''room not found'', [], sv)
     else let reg = snd (joinRoom name hdl [] (sv_registry sv));
              i = resolveIdentity reg (sv_clients sv) name
          in Inr (case roomNamed name reg of
                    None \<Rightarrow> (failure ''room not found'', [], sv)
                  | Some s \<Rightarrow> (seatedReply ''joined room'' name (roleOf hdl reg) s i, [], sv\<lparr>sv_registry := reg\<rparr>)))"

definition handleAuth :: "(string \<Rightarrow> client_session_data option) \<Rightarrow> conn \<Rightarrow> json \<Rightarrow> server \<Rightarrow>
    json_error + (json \<times> action list \<times> server)" where
  "handleAuth store hdl pl sv =
     sbind (jstring ''token'' pl) (\<lambda>token.
     Inr (case store token of
            None \<Rightarrow> (failure ''invalid or expired token'', [], sv)
          | Some d \<Rightarrow> (JObj [(''success'', JBool True), (''message'', JStr ''authenticated'')], [],
              sv\<lparr>sv_clients := onLogin hdl (csd_username d) (csd_elo d) (sv_clients sv)\<rparr>)))"

definition handleEnterRoom :: "(string \<Rightarrow> client_session_data option) \<Rightarrow> conn \<Rightarrow> json \<Rightarrow> server \<Rightarrow>
    json_error + (json \<times> action list \<times> server)" where
  "handleEnterRoom store hdl pl sv =
     sbind (jstring ''token'' pl) (\<lambda>token.
     sbind (jstring ''roomName'' pl) (\<lambda>name.
     Inr (case store token of
            None \<Rightarrow> (failure ''invalid or expired token'', [], sv)
          | Some d \<Rightarrow>
              let sv1 = sv\<lparr>sv_clients := onLogin hdl (csd_username d) (csd_elo d) (sv_clients sv)\<rparr>
              in if \<not> roomExists name (sv_registry sv1) then (failure ''room not found'', [], sv1)
                 else let reg1 = snd (joinRoom name hdl (csd_username d) (sv_registry sv1));
                          role = roleOf hdl reg1;
                          (back_in, out, reg2) = cancelDisconnectCountdown name role (csd_username d) reg1;
                          i = resolveIdentity reg2 (sv_clients sv1) name
                      in case roomNamed name reg2 of
                           None \<Rightarrow> (failure ''room not found'', [], sv1)
                         | Some s \<Rightarrow> (seatedReply ''entered room'' name role s i, map Did out, sv1\<lparr>sv_registry := reg2\<rparr>))))"

definition handleFindGame :: "environment \<Rightarrow> conn \<Rightarrow> json \<Rightarrow> server \<Rightarrow> json_error + (json \<times> action list \<times> server)" where
  "handleFindGame env hdl pl sv =
     Inr (if \<not> env_nats env then (failure ''matchmaking unavailable'', [], sv)
          else case sessionFor (sv_clients sv) hdl of
                 None \<Rightarrow> (failure ''must be logged in to find a game'', [], sv)
               | Some cs \<Rightarrow>
                   let (ticketId, tk) = addTicket hdl (sv_tickets sv)
                   in (JObj [(''success'', JBool True), (''message'', JStr ''searching for opponent'')],
                       [NatsPublish ''matchmaking.request'' (JObj [(''ticketId'', JStr ticketId), (''username'', JStr (cs_username cs)),
                          (''elo'', JInt (cs_elo cs))])],
                       sv\<lparr>sv_tickets := tk\<rparr>))"

text \<open>
  One side of the pair in \<open>matchmaking.assigned\<close>. The ticket is consumed before the fields of the
  event are read, so an exception leaves it consumed.
\<close>

definition assignSide :: "environment \<Rightarrow> json \<Rightarrow> string \<Rightarrow> server \<Rightarrow> (action list \<times> server) \<times> json_error option" where
  "assignSide env event side sv =
     (case jstring (''ticket'' @ side) event of
        Inl ex \<Rightarrow> (([], sv), Some ex)
      | Inr ticketId \<Rightarrow>
          (case resolveTicket ticketId (sv_tickets sv) of
             (None, tk) \<Rightarrow> (([], sv), None)
           | (Some hdl, tk) \<Rightarrow>
               let sv1 = sv\<lparr>sv_tickets := tk\<rparr>
               in case sbind (mapE (\<lambda>k. sbind (jat k event) (\<lambda>v. Inr (k, v))) [''roomName'', ''shard'']) (\<lambda>fs.
                       sbind (jat (''role'' @ side) event) (\<lambda>role.
                       sbind (mapE (\<lambda>k. sbind (jat k event) (\<lambda>v. Inr (k, v))) [''whiteName'', ''whiteElo'', ''blackName'', ''blackElo'']) (\<lambda>gs.
                       encodeMessage (env_dump env) \<lparr>msg_type = GameFound,
                         payload = JObj ([(''success'', JBool True), (''message'', JStr ''match found'')] @ fs @
                           [(''role'', role), (''moveLog'', encodeAllMoves [] [])] @ gs)\<rparr>))) of
                    Inl ex \<Rightarrow> (([], sv1), Some ex)
                  | Inr txt1 \<Rightarrow> (([Push hdl txt1], sv1), None)))"

definition handleAssigned :: "environment \<Rightarrow> json \<Rightarrow> server \<Rightarrow> (action list \<times> server) \<times> json_error option" where
  "handleAssigned env event sv =
     (case assignSide env event ''A'' sv of
        ((out, sv1), Some ex) \<Rightarrow> ((out, sv1), Some ex)
      | ((out, sv1), None) \<Rightarrow>
          (case assignSide env event ''B'' sv1 of ((out', sv2), ex) \<Rightarrow> ((out @ out', sv2), ex)))"

definition handleTimeout :: "environment \<Rightarrow> json \<Rightarrow> server \<Rightarrow> (action list \<times> server) \<times> json_error option" where
  "handleTimeout env event sv =
     (case jstring ''ticketId'' event of
        Inl ex \<Rightarrow> (([], sv), Some ex)
      | Inr ticketId \<Rightarrow>
          (case resolveTicket ticketId (sv_tickets sv) of
             (None, tk) \<Rightarrow> (([], sv), None)
           | (Some hdl, tk) \<Rightarrow>
               (case encodeMessage (env_dump env) \<lparr>msg_type = GameFound, payload = failure ''no players available''\<rparr> of
                  Inl ex \<Rightarrow> (([], sv\<lparr>sv_tickets := tk\<rparr>), Some ex)
                | Inr txt1 \<Rightarrow> (([Push hdl txt1], sv\<lparr>sv_tickets := tk\<rparr>), None))))"

definition jvalueString :: "string \<Rightarrow> string \<Rightarrow> json \<Rightarrow> json_error + string" where
  "jvalueString k dflt j = sbind (jvalue k (JStr dflt) j) getString"

definition doAllocate :: "json \<Rightarrow> server \<Rightarrow> json_error + (json \<times> action list \<times> server)" where
  "doAllocate request sv =
     sbind (jstring ''roomName'' request) (\<lambda>name.
     sbind (jvalueString ''whiteUsername'' [] request) (\<lambda>white.
     sbind (jvalueString ''blackUsername'' [] request) (\<lambda>black.
     case makeStartingBoard (sv_idCounter sv) of
       Inl err \<Rightarrow> Inl (RuntimeError err)
     | Inr (b, n, _) \<Rightarrow>
         let (ok, out, reg1) = createRoom name b True (sv_registry sv);
             sv1 = sv\<lparr>sv_idCounter := n\<rparr>
         in if \<not> ok then Inr (failure ''room already exists'', [], sv1)
            else let (reg2, hb) = attachRoom name (reg1, sv_hub sv);
                     reg3 = (if white \<noteq> [] \<and> black \<noteq> [] then reserveSeats name white black reg2 else reg2)
                 in Inr (JObj [(''success'', JBool True), (''roomName'', JStr name)], map Did out,
                         sv1\<lparr>sv_registry := reg3, sv_hub := hb\<rparr>))))"

section \<open>Routing\<close>

type_synonym handler = "conn \<Rightarrow> json \<Rightarrow> server \<Rightarrow> json_error + (json \<times> action list \<times> server)"

type_synonym router = "(message_type, handler) umap"

definition registerHandler :: "message_type \<Rightarrow> handler \<Rightarrow> router \<Rightarrow> router" where
  "registerHandler ty h = AList.update ty h"

definition findHandler :: "router \<Rightarrow> message_type \<Rightarrow> handler option" where
  "findHandler = map_of"

definition makeRouter :: "environment \<Rightarrow> router" where
  "makeRouter env =
     (let r = registerHandler FindGame (handleFindGame env)
                (registerHandler JoinRoom (handleJoinRoom env) (registerHandler Login (handleLogin env) []))
      in case env_sessionStore env of
           None \<Rightarrow> r
         | Some store \<Rightarrow> registerHandler Auth (handleAuth store) (registerHandler EnterRoom (handleEnterRoom store) r))"

definition runCommand :: "environment \<Rightarrow> conn \<Rightarrow> message \<Rightarrow> server \<Rightarrow> json_error + (json \<times> action list \<times> server)" where
  "runCommand env hdl m sv =
     (let reg = sv_registry sv; role = roleOf hdl reg
      in case roomOf hdl reg of
           None \<Rightarrow> Inl (RuntimeError ''connection is not in a room'')
         | Some name \<Rightarrow>
             (case roomNamed name reg of
                None \<Rightarrow> Inl (RuntimeError ''connection is not in a room'')
              | Some s \<Rightarrow>
                  let (r, e) = dispatch (env_what env) m (gs_engine s) role
                  in Inr (JObj [(''success'', JBool (success r)), (''message'', JStr (dr_message r)), (''role'', JStr (roleName role))],
                          [], sv\<lparr>sv_registry := withSession name (\<lambda>s. s\<lparr>gs_engine := e\<rparr>) reg\<rparr>)))"

definition hasKey :: "string \<Rightarrow> json \<Rightarrow> bool" where
  "hasKey k j = (case j of JObj kvs \<Rightarrow> map_of kvs k \<noteq> None | _ \<Rightarrow> False)"

definition handleText :: "environment \<Rightarrow> conn \<Rightarrow> string \<Rightarrow> server \<Rightarrow> json_error + (json \<times> action list \<times> server)" where
  "handleText env hdl txt1 sv =
     sbind (decodeMessage (env_parse env) txt1) (\<lambda>m.
     sbind (typeName (msg_type m)) (\<lambda>ty.
     sbind (case findHandler (makeRouter env) (msg_type m) of
              Some h \<Rightarrow> h hdl (payload m) sv
            | None \<Rightarrow> runCommand env hdl m sv) (\<lambda>(reply, out, sv1).
     if hasKey ''type'' reply then Inr (reply, out, sv1)
     else sbind (jset ''type'' (JStr ty) reply) (\<lambda>reply1. Inr (reply1, out, sv1)))))"

text \<open>
  The reply to a text: what an exception says becomes the reply. It is printed outside the \<open>try\<close>
  block, and printing throws when the reply is not UTF-8.
\<close>

definition replyTo :: "environment \<Rightarrow> conn \<Rightarrow> string \<Rightarrow> server \<Rightarrow> json \<times> action list \<times> server" where
  "replyTo env hdl txt1 sv =
     (case handleText env hdl txt1 sv of
        Inr r \<Rightarrow> r
      | Inl ex \<Rightarrow> (failure (''decode failed: '' @ exceptionText (env_what env) (env_parseWhat env) txt1 ex), [], sv))"

definition process :: "environment \<Rightarrow> conn \<Rightarrow> string \<Rightarrow> server \<Rightarrow> (json_error + string) \<times> action list \<times> server" where
  "process env hdl txt1 sv =
     (case replyTo env hdl txt1 sv of (reply, out, sv1) \<Rightarrow> (dumpStrict (env_dump env) reply, out, sv1))"

section \<open>Connections\<close>

definition onClose :: "environment \<Rightarrow> conn \<Rightarrow> server \<Rightarrow> action list \<times> server" where
  "onClose env hdl sv =
     (let roomName = (case roomOf hdl (sv_registry sv) of None \<Rightarrow> [] | Some n \<Rightarrow> n);
          (role, out1, reg1) = leave hdl (sv_registry sv);
          (username, elo) = (case sessionFor (sv_clients sv) hdl of None \<Rightarrow> ([], 0) | Some cs \<Rightarrow> (cs_username cs, cs_elo cs));
          clients = onDisconnect hdl (sv_clients sv);
          (ticketId, tk) = cancelTicket hdl (sv_tickets sv);
          out2 = (case ticketId of
                    None \<Rightarrow> []
                  | Some t \<Rightarrow> if env_nats env then [NatsPublish ''matchmaking.cancel'' (JObj [(''ticketId'', JStr t)])] else []);
          (out3, reg2) = (if roomName \<noteq> [] \<and> (role = White \<or> role = Black)
                          then startDisconnectCountdown roomName role username elo reg1 else ([], reg1))
      in (map Did out1 @ out2 @ map Did out3,
          sv\<lparr>sv_registry := reg2, sv_clients := clients, sv_tickets := tk\<rparr>))"

end
