(* ===== verification/Handlers_Laws.thy ===== *)
theory Handlers_Laws
  imports Handlers
begin

text \<open>
  The laws of message handling: the invariant of the shard, that a message changes the game of no
  room but the sender's and there only on the sender's behalf, that every text gets an answer, and
  how a disconnect and a return fit together.
\<close>

section \<open>The invariant\<close>

definition server_ok :: "server \<Rightarrow> bool" where
  "server_ok sv \<longleftrightarrow> registry_ok (sv_registry sv) \<and> tickets_ok (sv_tickets sv) \<and> 0 < sv_idCounter sv"

text \<open>The game in each room.\<close>

definition gameIn :: "string \<Rightarrow> registry \<Rightarrow> game_engine option" where
  "gameIn n reg = map_option gs_engine (roomNamed n reg)"

lemma gameIn_withRoom: "gameIn n (withRoom m f reg) =
    (if n = m then map_option (\<lambda>r. gs_engine (r_session (f r))) (map_of (reg_rooms reg) m) else gameIn n reg)"
  by (simp add: gameIn_def roomNamed_def option.map_comp comp_def)

lemma gameIn_other [simp]:
  "gameIn n (reg\<lparr>reg_connectionRoom := x\<rparr>) = gameIn n reg" "gameIn n (reg\<lparr>reg_countdowns := y\<rparr>) = gameIn n reg"
  by (simp_all add: gameIn_def roomNamed_def)

lemma gameIn_joinRoom: "registry_ok reg \<Longrightarrow> gameIn m (snd (joinRoom n h u reg)) = gameIn m reg"
proof (cases "map_of (reg_rooms reg) n")
  case None
  then show ?thesis by (simp add: joinRoom_def)
next
  case (Some r)
  assume "registry_ok reg"
  from joinRoom_withRoom [OF this Some] show ?thesis
    using Some by (auto simp: gameIn_withRoom Let_def gameIn_def roomNamed_def)
qed

lemma gameIn_cancel: "gameIn m (snd (snd (cancelDisconnectCountdown n c u reg))) = gameIn m reg"
  by (auto simp: cancelDisconnectCountdown_def gameIn_withRoom withSession_def setDisconnectStatus_def gameIn_def roomNamed_def
      split: option.split)

lemma gameIn_withSession:
  "gameIn n (withSession m f reg) = (if n = m then map_option (\<lambda>s. gs_engine (f s)) (roomNamed m reg) else gameIn n reg)"
  by (simp add: withSession_def gameIn_withRoom roomNamed_def option.map_comp comp_def)

section \<open>Messages\<close>

text \<open>The registered handlers leave every game alone.\<close>

lemma registered_handler_cases:
  assumes "findHandler (makeRouter env) ty = Some h"
  obtains "h = handleLogin env" | "h = handleJoinRoom env" | "h = handleFindGame env"
  | store where "h = handleAuth store" | store where "h = handleEnterRoom store"
  using assms by (auto simp: makeRouter_def findHandler_def registerHandler_def Let_def split: if_splits option.splits)

lemma handleEnterRoom_cases:
  assumes "handleEnterRoom store hdl pl sv = Inr (reply, out, sv')"
  obtains (invalid) "reply = failure ''invalid or expired token''" "out = []" "sv' = sv"
  | (no_room) cl m where "reply = failure m" "out = []" "sv' = sv\<lparr>sv_clients := cl\<rparr>"
  | (entered) token name d reg1 role was_away fx reg2 s i where "jstring ''token'' pl = Inr token" "jstring ''roomName'' pl = Inr name"
      "store token = Some d" "roomExists name (sv_registry sv)"
      "reg1 = snd (joinRoom name hdl (csd_username d) (sv_registry sv))" "role = roleOf hdl reg1"
      "cancelDisconnectCountdown name role (csd_username d) reg1 = (was_away, fx, reg2)" "roomNamed name reg2 = Some s"
      "reply = seatedReply ''entered room'' name role s i" "out = map Did fx"
      "sv' = sv\<lparr>sv_clients := onLogin hdl (csd_username d) (csd_elo d) (sv_clients sv), sv_registry := reg2\<rparr>"
proof -
  from assms obtain token name where tn: "jstring ''token'' pl = Inr token" "jstring ''roomName'' pl = Inr name"
    by (auto simp: handleEnterRoom_def sbind_Inr_iff)
  show ?thesis
  proof (cases "store token")
    case None
    then show ?thesis using assms invalid by (auto simp: handleEnterRoom_def tn)
  next
    case (Some d)
    show ?thesis
    proof (cases "roomExists name (sv_registry sv)")
      case False
      then show ?thesis using assms no_room by (auto simp: handleEnterRoom_def tn Some)
    next
      case True
      define reg1 where "reg1 = snd (joinRoom name hdl (csd_username d) (sv_registry sv))"
      obtain was_away fx reg2 where c: "cancelDisconnectCountdown name (roleOf hdl reg1) (csd_username d) reg1 = (was_away, fx, reg2)"
        by (cases "cancelDisconnectCountdown name (roleOf hdl reg1) (csd_username d) reg1")
      show ?thesis
      proof (cases "roomNamed name reg2")
        case None
        then show ?thesis using assms no_room c True by (auto simp: handleEnterRoom_def tn Some Let_def reg1_def)
      next
        case s: (Some s)
        show ?thesis
          by (rule entered [OF tn Some True reg1_def refl c s])
            (use assms c s True in \<open>auto simp: handleEnterRoom_def tn Some Let_def reg1_def\<close>)
      qed
    qed
  qed
qed

lemma registered_handler_laws:
  assumes "findHandler (makeRouter env) ty = Some h" "h hdl pl sv = Inr (reply, out, sv')" "server_ok sv"
  shows "server_ok sv' \<and> (\<forall>n. gameIn n (sv_registry sv') = gameIn n (sv_registry sv)) \<and> sv_hub sv' = sv_hub sv \<and>
    (\<exists>kvs. reply = JObj kvs \<and> map_of kvs ''success'' \<noteq> None)"
proof -
  have ok: "registry_ok (sv_registry sv)" "tickets_ok (sv_tickets sv)" "0 < sv_idCounter sv"
    using assms(3) by (simp_all add: server_ok_def)
  have tk: "tickets_ok (snd (addTicket hdl (sv_tickets sv)))"
    using ticket_step_laws(1) [OF ok(2), of "AddTicket hdl"] by (simp add: case_prod_beta)
  from assms(1) show ?thesis
  proof (cases rule: registered_handler_cases)
    case 1
    then show ?thesis using assms(2) ok
      by (auto simp: handleLogin_def sbind_Inr_iff server_ok_def Let_def case_prod_beta)
  next
    case 2
    then show ?thesis
      using assms(2) ok joinRoom_ok [OF ok(1)] gameIn_joinRoom [OF ok(1)]
      by (auto simp: handleJoinRoom_def sbind_Inr_iff server_ok_def Let_def failure_def seatedReply_def split: if_splits option.splits)
  next
    case 3
    then show ?thesis using assms(2) ok tk
      by (auto simp: handleFindGame_def server_ok_def failure_def split: prod.splits if_splits option.splits)
  next
    case (4 store)
    then show ?thesis using assms(2) ok
      by (auto simp: handleAuth_def sbind_Inr_iff server_ok_def failure_def split: option.splits)
  next
    case (5 store)
    from assms(2) have "handleEnterRoom store hdl pl sv = Inr (reply, out, sv')" by (simp add: 5)
    then show ?thesis
    proof (cases rule: handleEnterRoom_cases)
      case (entered token name d reg1 role was_away fx reg2 s i)
      have "registry_ok reg1" unfolding entered(5) by (rule joinRoom_ok [OF ok(1)])
      then have "registry_ok reg2" using cancelDisconnectCountdown_ok [of reg1 name role "csd_username d"] entered(7) by simp
      moreover have "gameIn n reg2 = gameIn n (sv_registry sv)" for n
        using gameIn_cancel [of n name role "csd_username d" reg1] gameIn_joinRoom [OF ok(1)] entered(5,7) by simp
      ultimately show ?thesis using ok entered(9,11) by (simp add: server_ok_def seatedReply_def)
    qed (use ok in \<open>simp_all add: server_ok_def failure_def\<close>)
  qed
qed

lemma runCommand_cases:
  assumes "runCommand env hdl m sv = Inr (reply, out, sv')"
  obtains n s r e where "roomOf hdl (sv_registry sv) = Some n" "roomNamed n (sv_registry sv) = Some s"
    "dispatch (env_what env) m (gs_engine s) (roleOf hdl (sv_registry sv)) = (r, e)" "out = []"
    "sv' = sv\<lparr>sv_registry := withSession n (\<lambda>s. s\<lparr>gs_engine := e\<rparr>) (sv_registry sv)\<rparr>"
    "reply = JObj [(''success'', JBool (success r)), (''message'', JStr (dr_message r)),
       (''role'', JStr (roleName (roleOf hdl (sv_registry sv))))]"
  using assms by (auto simp: runCommand_def Let_def split: option.splits prod.splits)

lemma runCommand_ok:
  assumes "runCommand env hdl m sv = Inr (reply, out, sv')" "server_ok sv"
  shows "server_ok sv'"
  using assms(1)
proof (cases rule: runCommand_cases)
  case (1 n s r e)
  have ok: "registry_ok (sv_registry sv)" using assms(2) by (simp add: server_ok_def)
  have "registry_ok (withSession n (\<lambda>_. s\<lparr>gs_engine := e\<rparr>) (sv_registry sv))"
    using registry_ok_work [OF ok 1(2) session_step.command [OF 1(3)]] .
  moreover have "withSession n (\<lambda>_. s\<lparr>gs_engine := e\<rparr>) (sv_registry sv) = withSession n (\<lambda>s. s\<lparr>gs_engine := e\<rparr>) (sv_registry sv)"
    by (rule withSession_cong [OF ok 1(2)]) simp
  ultimately show ?thesis using assms(2) 1(5) by (simp add: server_ok_def)
qed


lemma handleText_cases:
  assumes "handleText env hdl txt1 sv = Inr (reply, out, sv')"
  obtains (registered) m ty h r where "decodeMessage (env_parse env) txt1 = Inr m" "typeName (msg_type m) = Inr ty"
      "findHandler (makeRouter env) (msg_type m) = Some h" "h hdl (payload m) sv = Inr (r, out, sv')"
      "(if hasKey ''type'' r then Inr r else jset ''type'' (JStr ty) r) = Inr reply"
  | (command) m ty r where "decodeMessage (env_parse env) txt1 = Inr m" "typeName (msg_type m) = Inr ty"
      "findHandler (makeRouter env) (msg_type m) = None" "runCommand env hdl m sv = Inr (r, out, sv')"
      "(if hasKey ''type'' r then Inr r else jset ''type'' (JStr ty) r) = Inr reply"
proof -
  define act where "act m = (case findHandler (makeRouter env) (msg_type m) of
      Some h \<Rightarrow> h hdl (payload m) sv | None \<Rightarrow> runCommand env hdl m sv)" for m
  from assms obtain m ty r out1 sv1 where a: "decodeMessage (env_parse env) txt1 = Inr m" "typeName (msg_type m) = Inr ty"
    "act m = Inr (r, out1, sv1)"
    "(if hasKey ''type'' r then Inr (r, out1, sv1) else sbind (jset ''type'' (JStr ty) r) (\<lambda>reply1. Inr (reply1, out1, sv1))) =
      Inr (reply, out, sv')"
    unfolding handleText_def act_def [symmetric] by (auto simp: sbind_Inr_iff)
  then have t: "(if hasKey ''type'' r then Inr r else jset ''type'' (JStr ty) r) = Inr reply" "out1 = out" "sv1 = sv'"
    by (auto simp: sbind_Inr_iff split: if_splits)
  show ?thesis
  proof (cases "findHandler (makeRouter env) (msg_type m)")
    case None
    with a(3) t show ?thesis by (intro command [OF a(1,2) None _ t(1)]) (simp add: act_def)
  next
    case (Some h)
    with a(3) t show ?thesis by (intro registered [OF a(1,2) Some _ t(1)]) (simp add: act_def)
  qed
qed

text \<open>
  A text changes at most the game of the room the sender is in, and there it makes one request
  for a piece of the sender's colour.
\<close>

lemma replyTo_isolation:
  assumes "server_ok sv" "replyTo env hdl txt1 sv = (reply, out, sv')"
  shows "server_ok sv'" "sv_hub sv' = sv_hub sv"
    and "gameIn n (sv_registry sv') = gameIn n (sv_registry sv) \<or>
      (\<exists>e. roomOf hdl (sv_registry sv) = Some n \<and> gameIn n (sv_registry sv) = Some e \<and> roleOf hdl (sv_registry sv) \<noteq> NoColor \<and>
         ((\<exists>from to. ownedBy e from (roleOf hdl (sv_registry sv)) \<and> gameIn n (sv_registry sv') = Some (snd (requestMove from to e))) \<or>
          (\<exists>pos. ownedBy e pos (roleOf hdl (sv_registry sv)) \<and> gameIn n (sv_registry sv') = Some (snd (requestJump pos e)))))"
    and "\<exists>kvs. reply = JObj kvs \<and> map_of kvs ''success'' \<noteq> None"
proof -
  let ?reg = "sv_registry sv"
  define good where "good \<longleftrightarrow> server_ok sv' \<and> sv_hub sv' = sv_hub sv \<and>
      (gameIn n (sv_registry sv') = gameIn n ?reg \<or>
      (\<exists>e. roomOf hdl ?reg = Some n \<and> gameIn n ?reg = Some e \<and> roleOf hdl ?reg \<noteq> NoColor \<and>
         ((\<exists>from to. ownedBy e from (roleOf hdl ?reg) \<and> gameIn n (sv_registry sv') = Some (snd (requestMove from to e))) \<or>
          (\<exists>pos. ownedBy e pos (roleOf hdl ?reg) \<and> gameIn n (sv_registry sv') = Some (snd (requestJump pos e)))))) \<and>
      (\<exists>kvs. reply = JObj kvs \<and> map_of kvs ''success'' \<noteq> None)"
  have tagged: "\<exists>kvs. reply = JObj kvs \<and> map_of kvs ''success'' \<noteq> None"
    if "(if hasKey ''type'' r then Inr r else jset ''type'' (JStr ty) r) = Inr reply" "r = JObj kvs" "map_of kvs ''success'' \<noteq> None"
    for r kvs ty using that by (auto simp: jset_def split: if_splits)
  have good
  proof (cases "handleText env hdl txt1 sv")
    case (Inl ex)
    then show ?thesis using assms by (auto simp: replyTo_def good_def failure_def)
  next
    case (Inr x)
    then have x: "handleText env hdl txt1 sv = Inr (reply, out, sv')" using assms(2) by (simp add: replyTo_def)
    then show ?thesis
    proof (cases rule: handleText_cases)
      case (registered m ty h r)
      note l = registered_handler_laws [OF registered(3,4) assms(1)]
      then obtain kvs where "r = JObj kvs" "map_of kvs ''success'' \<noteq> None" by blast
      from tagged [OF registered(5) this] l show ?thesis by (simp add: good_def)
    next
      case (command m ty r)
      have ok': "server_ok sv'" using runCommand_ok [OF command(4) assms(1)] .
      from command(4) show ?thesis
      proof (cases rule: runCommand_cases)
        case (1 k s r' e)
        have g: "gameIn n (sv_registry sv') = (if n = k then Some e else gameIn n ?reg)"
          using 1(2,5) by (simp add: gameIn_withSession)
        have "e = gs_engine s \<or> roleOf hdl ?reg \<noteq> NoColor \<and>
            ((\<exists>from to. ownedBy (gs_engine s) from (roleOf hdl ?reg) \<and> e = snd (requestMove from to (gs_engine s))) \<or>
             (\<exists>pos. ownedBy (gs_engine s) pos (roleOf hdl ?reg) \<and> e = snd (requestJump pos (gs_engine s))))"
          using 1(3) by (cases rule: dispatch_effect [where what = "env_what env" and m = m and e = "gs_engine s" and c = "roleOf hdl ?reg"])
            (auto simp: answer_def case_prod_beta)
        then show ?thesis
          using ok' g 1(1,2,5) tagged [OF command(5) 1(6)] by (auto simp: good_def gameIn_def)
      qed
    qed
  qed
  then show "server_ok sv'" "sv_hub sv' = sv_hub sv"
    "gameIn n (sv_registry sv') = gameIn n ?reg \<or>
      (\<exists>e. roomOf hdl ?reg = Some n \<and> gameIn n ?reg = Some e \<and> roleOf hdl ?reg \<noteq> NoColor \<and>
         ((\<exists>from to. ownedBy e from (roleOf hdl ?reg) \<and> gameIn n (sv_registry sv') = Some (snd (requestMove from to e))) \<or>
          (\<exists>pos. ownedBy e pos (roleOf hdl ?reg) \<and> gameIn n (sv_registry sv') = Some (snd (requestJump pos e)))))"
    "\<exists>kvs. reply = JObj kvs \<and> map_of kvs ''success'' \<noteq> None" unfolding good_def by blast+
qed

lemma process_replyTo:
  assumes "process env hdl txt1 sv = (res, out, sv')"
  obtains reply where "replyTo env hdl txt1 sv = (reply, out, sv')" "res = dumpStrict (env_dump env) reply"
  using assms by (cases "replyTo env hdl txt1 sv") (auto simp: process_def)

lemma process_ok:
  assumes "server_ok sv" "process env hdl txt1 sv = (res, out, sv')"
  shows "server_ok sv'"
  using assms(1) by (rule_tac process_replyTo [OF assms(2)]) (rule replyTo_isolation(1))

text \<open>When the text makes a handler throw, the reply can be printed exactly when the message of the exception is UTF-8.\<close>

lemma failure_utf8: "json_utf8 (failure m) = validUtf8 m"
proof -
  have "validUtf8 ''success''" "validUtf8 ''message''" by code_simp+
  then show ?thesis by (simp add: failure_def)
qed

lemma process_failed:
  assumes "handleText env hdl txt1 sv = Inl ex"
  defines "m \<equiv> exceptionText (env_what env) (env_parseWhat env) txt1 ex"
  shows "process env hdl txt1 sv =
    (if validUtf8 m then Inr (env_dump env (failure (''decode failed: '' @ m))) else Inl TypeError, [], sv)"
proof -
  have "ascii ''decode failed: ''" by code_simp
  note u = validUtf8_ascii_append [OF this]
  show ?thesis
    unfolding process_def replyTo_def assms(1) dumpStrict_def sum.case prod.case failure_utf8 u m_def by simp
qed


section \<open>Allocation and connections\<close>

lemma makeStartingBoard_ok:
  assumes "makeStartingBoard n0 = Inr (b, n, rest)" "0 < n0"
  shows "board_wf b" "0 < n" "isWithinBounds b q \<Longrightarrow> getState (slot b q) = Idle"
  using parse_well_formed [OF assms [unfolded makeStartingBoard_def]] assms(2) by auto

lemma attachRoom_ok: "registry_ok reg \<Longrightarrow> registry_ok (fst (attachRoom n (reg, hb)))"
  unfolding attachRoom_def
  by (auto intro!: registry_ok_withSession simp: setSnapshotSender_def session_ok_def queue_ok_def)

lemma doAllocate_cases:
  assumes "doAllocate request sv = Inr (reply, out, sv')"
  obtains (taken) name b n rest where "jstring ''roomName'' request = Inr name" "makeStartingBoard (sv_idCounter sv) = Inr (b, n, rest)"
      "roomExists name (sv_registry sv)" "reply = failure ''room already exists''" "out = []" "sv' = sv\<lparr>sv_idCounter := n\<rparr>"
  | (allocated) name white black b n rest fx reg1 reg2 hb where "jstring ''roomName'' request = Inr name"
      "jvalueString ''whiteUsername'' [] request = Inr white" "jvalueString ''blackUsername'' [] request = Inr black"
      "makeStartingBoard (sv_idCounter sv) = Inr (b, n, rest)"
      "createRoom name b True (sv_registry sv) = (True, fx, reg1)" "attachRoom name (reg1, sv_hub sv) = (reg2, hb)"
      "reply = JObj [(''success'', JBool True), (''roomName'', JStr name)]" "out = map Did fx"
      "sv' = sv\<lparr>sv_idCounter := n, sv_registry := (if white \<noteq> [] \<and> black \<noteq> [] then reserveSeats name white black reg2 else reg2),
         sv_hub := hb\<rparr>"
proof -
  from assms obtain name white black where f: "jstring ''roomName'' request = Inr name"
      "jvalueString ''whiteUsername'' [] request = Inr white" "jvalueString ''blackUsername'' [] request = Inr black"
    by (auto simp: doAllocate_def sbind_Inr_iff)
  from assms obtain b n rest where b: "makeStartingBoard (sv_idCounter sv) = Inr (b, n, rest)"
    by (auto simp: doAllocate_def f split: sum.splits)
  obtain ok fx reg1 where c: "createRoom name b True (sv_registry sv) = (ok, fx, reg1)"
    by (cases "createRoom name b True (sv_registry sv)")
  show ?thesis
  proof (cases ok)
    case False
    then have "roomExists name (sv_registry sv)" using c by (auto simp: createRoom_def split: if_splits)
    then show ?thesis using assms c False by (intro taken [OF f(1) b]) (auto simp: doAllocate_def f b)
  next
    case True
    then have c': "createRoom name b True (sv_registry sv) = (True, fx, reg1)" using c by simp
    obtain reg2 hb where a: "attachRoom name (reg1, sv_hub sv) = (reg2, hb)" by (cases "attachRoom name (reg1, sv_hub sv)")
    show ?thesis
      by (rule allocated [OF f b c' a])
        (use assms True in \<open>auto simp: doAllocate_def f b c' a Let_def simp del: if_split\<close>)
  qed
qed

lemma doAllocate_ok:
  assumes "doAllocate request sv = Inr (reply, out, sv')" "server_ok sv"
  shows "server_ok sv'"
  using assms(1)
proof (cases rule: doAllocate_cases)
  case (taken name b n rest)
  then show ?thesis using assms(2) makeStartingBoard_ok(2) [OF taken(2)] by (simp add: server_ok_def)
next
  case (allocated name white black b n rest fx reg1 reg2 hb)
  have i: "registry_ok (sv_registry sv)" "0 < sv_idCounter sv" using assms(2) by (simp_all add: server_ok_def)
  note m = makeStartingBoard_ok [OF allocated(4) i(2)]
  have "registry_ok reg1" using createRoom_ok [OF i(1) m(1) m(3), of name True] allocated(5) by simp
  then have "registry_ok reg2" using attachRoom_ok [of reg1 name "sv_hub sv"] allocated(6) by simp
  then show ?thesis using assms(2) m(2) allocated(9) reserveSeats_ok by (simp add: server_ok_def)
qed

lemma cancelTicket_ok: "tickets_ok tk \<Longrightarrow> tickets_ok (snd (cancelTicket h tk))"
  using ticket_step_laws(1) [of tk "CancelTicket h"] by (simp add: case_prod_beta)

lemma resolveTicket_ok: "tickets_ok tk \<Longrightarrow> tickets_ok (snd (resolveTicket t tk))"
  using ticket_step_laws(1) [of tk "ResolveTicket t"] by (simp add: case_prod_beta)

lemma onClose_eq:
  "snd (onClose env hdl sv) = sv\<lparr>
     sv_registry := (let n = (case roomOf hdl (sv_registry sv) of None \<Rightarrow> [] | Some n \<Rightarrow> n);
         (role, _, reg1) = leave hdl (sv_registry sv);
         (u, elo) = (case sessionFor (sv_clients sv) hdl of None \<Rightarrow> ([], 0) | Some cs \<Rightarrow> (cs_username cs, cs_elo cs))
       in if n \<noteq> [] \<and> (role = White \<or> role = Black) then snd (startDisconnectCountdown n role u elo reg1) else reg1),
     sv_clients := onDisconnect hdl (sv_clients sv), sv_tickets := snd (cancelTicket hdl (sv_tickets sv))\<rparr>"
  by (simp add: onClose_def Let_def case_prod_beta)

lemma onClose_ok: "server_ok sv \<Longrightarrow> server_ok (snd (onClose env hdl sv))"
  unfolding onClose_eq server_ok_def
  by (auto simp: Let_def case_prod_beta cancelTicket_ok intro!: startDisconnectCountdown_ok leave_ok)

lemma assignSide_ok: "server_ok sv \<Longrightarrow> server_ok (snd (fst (assignSide env event side sv)))"
  and assignSide_frame: "sv_registry (snd (fst (assignSide env event side sv))) = sv_registry sv"
    "sv_hub (snd (fst (assignSide env event side sv))) = sv_hub sv"
  using resolveTicket_ok [of "sv_tickets sv"]
  by (auto simp: assignSide_def Let_def server_ok_def split: sum.splits option.splits prod.splits) (metis snd_conv)+

lemma handleAssigned_ok: "server_ok sv \<Longrightarrow> server_ok (snd (fst (handleAssigned env event sv)))"
  and handleAssigned_frame: "sv_registry (snd (fst (handleAssigned env event sv))) = sv_registry sv"
    "sv_hub (snd (fst (handleAssigned env event sv))) = sv_hub sv"
  using assignSide_ok [of sv env event "''A''"] assignSide_ok [of "snd (fst (assignSide env event ''A'' sv))" env event "''B''"]
    assignSide_frame [of env event "''A''" sv] assignSide_frame [of env event "''B''" "snd (fst (assignSide env event ''A'' sv))"]
  by (auto simp: handleAssigned_def split: prod.splits option.splits)

lemma handleTimeout_ok: "server_ok sv \<Longrightarrow> server_ok (snd (fst (handleTimeout env event sv)))"
  and handleTimeout_frame: "sv_registry (snd (fst (handleTimeout env event sv))) = sv_registry sv"
    "sv_hub (snd (fst (handleTimeout env event sv))) = sv_hub sv"
  using resolveTicket_ok [of "sv_tickets sv"]
  by (auto simp: handleTimeout_def server_ok_def split: sum.splits option.splits prod.splits) (metis snd_conv)+

end
