(* ===== verification/Matchmaking.thy ===== *)
theory Matchmaking
  imports Handlers_Laws
begin

text \<open>
  Finding an opponent and a place to play: \<open>shared/matchmaking/Matchmaker.cpp\<close> and
  \<open>RedisMatchPool.cpp\<close>, the service \<open>matchmaker/matchmaker_main.cpp\<close>, the allocator
  \<open>allocator/allocator_main.cpp\<close>, \<open>shared/discovery/ShardRegistry.cpp\<close>, \<open>shared/bus/SubjectSafe.h\<close>
  and \<open>shared/db/RedisSequence.cpp\<close>. Redis is a parameter: a record of the commands the code sends,
  with what Redis documents about them as hypotheses of the lemmas.
\<close>

section \<open>The pool in memory\<close>

definition kEloRange :: int where "kEloRange = 100"

type_synonym pool = "(string, int) umap"

definition addToPool :: "string \<Rightarrow> int \<Rightarrow> pool \<Rightarrow> pool" where
  "addToPool ticketId elo = AList.update ticketId elo"

definition removeFromPool :: "string \<Rightarrow> pool \<Rightarrow> pool" where
  "removeFromPool ticketId = AList.delete ticketId"

text \<open>\<open>std::map\<close> is visited in the order of the keys.\<close>

definition findMatch :: "int \<Rightarrow> pool \<Rightarrow> string option" where
  "findMatch elo p = map_option fst (find (\<lambda>(t, waitingElo). \<bar>waitingElo - elo\<bar> \<le> kEloRange) (sort_key fst p))"

definition isWaiting :: "string \<Rightarrow> pool \<Rightarrow> bool" where
  "isWaiting ticketId p \<longleftrightarrow> map_of p ticketId \<noteq> None"

section \<open>The pool in Redis\<close>

record 'r redis =
  zadd :: "string \<Rightarrow> int \<Rightarrow> string \<Rightarrow> 'r \<Rightarrow> 'r"
  zrem :: "string \<Rightarrow> string \<Rightarrow> 'r \<Rightarrow> 'r"
  zscore :: "string \<Rightarrow> string \<Rightarrow> 'r \<Rightarrow> int option"
  zrangebyscore :: "string \<Rightarrow> int \<Rightarrow> int \<Rightarrow> 'r \<Rightarrow> string list"
  hset :: "string \<Rightarrow> (string \<times> string) list \<Rightarrow> 'r \<Rightarrow> 'r"
  hget :: "string \<Rightarrow> string \<Rightarrow> 'r \<Rightarrow> string option"
  del :: "string \<Rightarrow> 'r \<Rightarrow> 'r"
  incr :: "string \<Rightarrow> 'r \<Rightarrow> int \<times> 'r"

definition kPoolKey :: string where "kPoolKey = ''matchpool''"

definition ticketInfoKey :: "string \<Rightarrow> string" where
  "ticketInfoKey ticketId = ''ticket:'' @ ticketId"

record match_candidate =
  mc_ticketId :: string
  mc_username :: string
  mc_elo :: int

text \<open>
  The arguments of a command are passed as C strings, so a ticket or a name ends at its first null
  character; the rating is printed, which leaves nothing to cut.
\<close>

definition poolAdd :: "'r redis \<Rightarrow> string \<Rightarrow> string \<Rightarrow> int \<Rightarrow> 'r \<Rightarrow> 'r" where
  "poolAdd R ticketId username elo r =
     zadd R kPoolKey elo (c_str ticketId)
       (hset R (c_str (ticketInfoKey ticketId)) [(''username'', c_str username), (''elo'', showInt elo)] r)"

definition poolRemove :: "'r redis \<Rightarrow> string \<Rightarrow> 'r \<Rightarrow> 'r" where
  "poolRemove R ticketId r = del R (c_str (ticketInfoKey ticketId)) (zrem R kPoolKey (c_str ticketId) r)"

text \<open>
  \<open>std::stoi\<close> on texts of the form \<open>std::to_string\<close> writes; any other text is taken as one it throws
  on, which no field written by \<open>poolAdd\<close> is. Its range check is left out: it is only applied to a
  text that \<open>std::to_string\<close> made of an \<open>int\<close>.
\<close>

definition isDigits :: "string \<Rightarrow> bool" where
  "isDigits s \<longleftrightarrow> s \<noteq> [] \<and> list_all (\<lambda>c. CHR ''0'' \<le> c \<and> c \<le> CHR ''9'') s"

definition stoi :: "string \<Rightarrow> int option" where
  "stoi s = (case s of
       c # cs \<Rightarrow> if c = CHR ''-'' then (if isDigits cs then Some (- int (readNat cs)) else None)
                 else if isDigits s then Some (int (readNat s)) else None
     | [] \<Rightarrow> None)"

text \<open>
  The script \<open>kFindAndRemoveScript\<close>, which Redis runs as one step: the first ticket in the range leaves
  the pool, and its fields, where it has them, are the reply.
\<close>

definition findAndRemove :: "'r redis \<Rightarrow> int \<Rightarrow> int \<Rightarrow> 'r \<Rightarrow> (string \<times> string option \<times> string option) option \<times> 'r" where
  "findAndRemove R lo hi r =
     (case zrangebyscore R kPoolKey lo hi r of
        [] \<Rightarrow> (None, r)
      | ticketId # _ \<Rightarrow>
          let r1 = zrem R kPoolKey ticketId r
          in (Some (ticketId, hget R (ticketInfoKey ticketId) ''username'' r1, hget R (ticketInfoKey ticketId) ''elo'' r1),
              del R (ticketInfoKey ticketId) r1))"

text \<open>
  A reply with a missing field counts as no match, though the ticket is gone from the pool. The last
  component is an exception of \<open>std::stoi\<close>.
\<close>

definition poolFindMatch :: "'r redis \<Rightarrow> int \<Rightarrow> int \<Rightarrow> 'r \<Rightarrow> (match_candidate option \<times> 'r) \<times> json_error option" where
  "poolFindMatch R elo eloRange r =
     (case findAndRemove R (elo - eloRange) (elo + eloRange) r of
        (Some (ticketId, Some u, Some e), r1) \<Rightarrow>
          (case stoi e of
             Some k \<Rightarrow> ((Some \<lparr>mc_ticketId = ticketId, mc_username = u, mc_elo = k\<rparr>, r1), None)
           | None \<Rightarrow> ((None, r1), Some (RuntimeError ''stoi'')))
      | (_, r1) \<Rightarrow> ((None, r1), None))"

definition poolIsWaiting :: "'r redis \<Rightarrow> string \<Rightarrow> 'r \<Rightarrow> bool" where
  "poolIsWaiting R ticketId r \<longleftrightarrow> zscore R kPoolKey (c_str ticketId) r \<noteq> None"

section \<open>The matchmaker\<close>

text \<open>
  The state of one replica. \<open>mm_searching\<close> and \<open>mm_watching\<close> are the detached threads that sleep:
  one per ticket put into the pool and one per pair that was matched.
\<close>

record 'r matchmaker =
  mm_redis :: 'r
  mm_pendingAssignment :: "string list"
  mm_searching :: "string list"
  mm_watching :: "(string \<times> string) list"
  mm_matchesFound :: nat
  mm_assignmentTimeouts :: nat

definition waitForMatch :: "'r redis \<Rightarrow> string \<Rightarrow> string \<Rightarrow> int \<Rightarrow> 'r matchmaker \<Rightarrow> 'r matchmaker" where
  "waitForMatch R ticketId username elo mm =
     mm\<lparr>mm_redis := poolAdd R ticketId username elo (mm_redis mm), mm_searching := mm_searching mm @ [ticketId]\<rparr>"

definition watchForAssignment :: "string \<Rightarrow> string \<Rightarrow> 'r matchmaker \<Rightarrow> 'r matchmaker" where
  "watchForAssignment ticketA ticketB mm =
     mm\<lparr>mm_pendingAssignment := List.insert ticketB (List.insert ticketA (mm_pendingAssignment mm)),
        mm_watching := mm_watching mm @ [(ticketA, ticketB)]\<rparr>"

definition matchedEvent :: "match_candidate \<Rightarrow> string \<Rightarrow> string \<Rightarrow> int \<Rightarrow> json" where
  "matchedEvent opponent ticketId username elo =
     JObj [(''ticketA'', JStr (mc_ticketId opponent)), (''usernameA'', JStr (mc_username opponent)), (''eloA'', JInt (mc_elo opponent)),
           (''ticketB'', JStr ticketId), (''usernameB'', JStr username), (''eloB'', JInt elo)]"

text \<open>
  An exception in a callback of the bus is caught by the NATS client; what the callback did before
  stays done.
\<close>

definition requestFields :: "json \<Rightarrow> json_error + (string \<times> string \<times> int)" where
  "requestFields request =
     sbind (jstring ''ticketId'' request) (\<lambda>ticketId.
     sbind (jstring ''username'' request) (\<lambda>username.
     sbind (sbind (jat ''elo'' request) getInt) (\<lambda>elo. Inr (ticketId, username, elo))))"

definition onMatchRequest :: "'r redis \<Rightarrow> json \<Rightarrow> 'r matchmaker \<Rightarrow> (action list \<times> 'r matchmaker) \<times> json_error option" where
  "onMatchRequest R request mm =
     (case requestFields request of
        Inl ex \<Rightarrow> (([], mm), Some ex)
      | Inr (ticketId, username, elo) \<Rightarrow>
          (case poolFindMatch R elo kEloRange (mm_redis mm) of
             ((_, r), Some ex) \<Rightarrow> (([], mm\<lparr>mm_redis := r\<rparr>), Some ex)
           | ((Some o1, r), None) \<Rightarrow>
               (([NatsPublish ''matchmaking.matched'' (matchedEvent o1 ticketId username elo)],
                 watchForAssignment (mc_ticketId o1) ticketId
                   (mm\<lparr>mm_redis := r, mm_matchesFound := Suc (mm_matchesFound mm)\<rparr>)), None)
           | ((None, r), None) \<Rightarrow> (([], waitForMatch R ticketId username elo (mm\<lparr>mm_redis := r\<rparr>)), None)))"

definition onMatchCancel :: "'r redis \<Rightarrow> json \<Rightarrow> 'r matchmaker \<Rightarrow> json_error + 'r matchmaker" where
  "onMatchCancel R event mm =
     sbind (jstring ''ticketId'' event) (\<lambda>ticketId. Inr (mm\<lparr>mm_redis := poolRemove R ticketId (mm_redis mm)\<rparr>))"

text \<open>The searching thread of a ticket wakes up after \<open>kSearchTimeoutSeconds\<close>.\<close>

definition onSearchTimeout :: "'r redis \<Rightarrow> string \<Rightarrow> 'r matchmaker \<Rightarrow> action list \<times> 'r matchmaker" where
  "onSearchTimeout R ticketId mm =
     (let mm1 = mm\<lparr>mm_searching := remove1 ticketId (mm_searching mm)\<rparr>
      in if \<not> poolIsWaiting R ticketId (mm_redis mm1) then ([], mm1)
         else ([NatsPublish ''matchmaking.timeout'' (JObj [(''ticketId'', JStr ticketId)])],
               mm1\<lparr>mm_redis := poolRemove R ticketId (mm_redis mm1)\<rparr>))"

definition onPairAssigned :: "json \<Rightarrow> 'r matchmaker \<Rightarrow> json_error + 'r matchmaker" where
  "onPairAssigned event mm =
     sbind (jstring ''ticketA'' event) (\<lambda>a.
     sbind (jstring ''ticketB'' event) (\<lambda>b.
     Inr (mm\<lparr>mm_pendingAssignment := removeAll b (removeAll a (mm_pendingAssignment mm))\<rparr>)))"

definition giveUp :: "string \<Rightarrow> action list \<times> 'r matchmaker \<Rightarrow> action list \<times> 'r matchmaker" where
  "giveUp ticketId = (\<lambda>(out, mm).
     if ticketId \<in> set (mm_pendingAssignment mm)
     then (out @ [NatsPublish ''matchmaking.timeout'' (JObj [(''ticketId'', JStr ticketId)])],
           mm\<lparr>mm_pendingAssignment := removeAll ticketId (mm_pendingAssignment mm),
              mm_assignmentTimeouts := Suc (mm_assignmentTimeouts mm)\<rparr>)
     else (out, mm))"

text \<open>The watching thread of a pair wakes up after \<open>kAssignmentTimeoutSeconds\<close>.\<close>

definition onAssignmentTimeout :: "string \<Rightarrow> string \<Rightarrow> 'r matchmaker \<Rightarrow> action list \<times> 'r matchmaker" where
  "onAssignmentTimeout ticketA ticketB mm =
     fold giveUp [ticketA, ticketB] ([], mm\<lparr>mm_watching := remove1 (ticketA, ticketB) (mm_watching mm)\<rparr>)"

section \<open>The allocator\<close>

definition isAlnum :: "char \<Rightarrow> bool" where
  "isAlnum c \<longleftrightarrow> (CHR ''0'' \<le> c \<and> c \<le> CHR ''9'') \<or> (CHR ''A'' \<le> c \<and> c \<le> CHR ''Z'') \<or> (CHR ''a'' \<le> c \<and> c \<le> CHR ''z'')"

definition subjectSafe :: "string \<Rightarrow> string" where
  "subjectSafe raw = map (\<lambda>c. if isAlnum c then c else CHR ''_'') raw"

definition LLONG_MAX :: int where "LLONG_MAX = 9223372036854775807"

text \<open>\<open>get<long long>\<close>.\<close>

definition wrap64 :: "int \<Rightarrow> int" where
  "wrap64 i = (i + 9223372036854775808) mod 18446744073709551616 - 9223372036854775808"

definition getLong :: "json \<Rightarrow> json_error + int" where
  "getLong j = (case j of JInt i \<Rightarrow> Inr (wrap64 i) | JFloat r \<Rightarrow> Inr (wrap64 (truncRat r))
     | JBool b \<Rightarrow> Inr (if b then 1 else 0) | _ \<Rightarrow> Inl TypeError)"

record allocator =
  al_shardLoad :: "(string, int) umap"
  al_allocations :: nat

definition onHeartbeat :: "json \<Rightarrow> allocator \<Rightarrow> json_error + allocator" where
  "onHeartbeat event al =
     sbind (jstring ''shard'' event) (\<lambda>shard.
     sbind (jat ''roomCount'' event) (\<lambda>j.
     sbind (getLong j) (\<lambda>n. Inr (al\<lparr>al_shardLoad := AList.update shard n (al_shardLoad al)\<rparr>))))"

definition lessLoaded :: "string \<times> int \<Rightarrow> string \<times> int \<Rightarrow> string \<times> int" where
  "lessLoaded = (\<lambda>(shard, roomCount) (chosen, best). if roomCount < best then (shard, roomCount) else (chosen, best))"

definition pickLeastLoadedShard :: "(nat \<Rightarrow> nat list) \<Rightarrow> allocator \<Rightarrow> string" where
  "pickLeastLoadedShard ord al = fst (fold lessLoaded (iter ord (al_shardLoad al)) ([], LLONG_MAX))"

definition allocateSubject :: "string \<Rightarrow> string" where
  "allocateSubject shard = ''shard.'' @ subjectSafe shard @ ''.allocate''"

text \<open>\<open>reply->value("success", false)\<close>.\<close>

definition replySuccess :: "json \<Rightarrow> json_error + bool" where
  "replySuccess j = sbind (jvalue ''success'' (JBool False) j) getBool"

text \<open>\<open>rpc\<close> is \<open>nats.request\<close>: the reply to a request on a subject, or nothing in time.\<close>

definition assignedEvent :: "json \<Rightarrow> string \<Rightarrow> string \<Rightarrow> string \<Rightarrow> string \<Rightarrow> json_error + json" where
  "assignedEvent event roomName shard white black =
     sbind (jat ''ticketA'' event) (\<lambda>ta. sbind (jat ''ticketB'' event) (\<lambda>tb.
     sbind (jat ''eloA'' event) (\<lambda>ea. sbind (jat ''eloB'' event) (\<lambda>eb.
     Inr (JObj [(''ticketA'', ta), (''roleA'', JStr ''White''), (''ticketB'', tb), (''roleB'', JStr ''Black''),
                (''roomName'', JStr roomName), (''shard'', JStr shard),
                (''whiteName'', JStr white), (''whiteElo'', ea), (''blackName'', JStr black), (''blackElo'', eb)])))))"

definition onMatched :: "'r redis \<Rightarrow> (string \<Rightarrow> json \<Rightarrow> json option) \<Rightarrow> (nat \<Rightarrow> nat list) \<Rightarrow> json \<Rightarrow> allocator \<times> 'r \<Rightarrow>
    (action list \<times> allocator \<times> 'r) \<times> json_error option" where
  "onMatched R rpc ord event = (\<lambda>(al, r).
     let shard = pickLeastLoadedShard ord al
     in if shard = [] then (([], al, r), None)
        else let (k, r1) = incr R ''matchmaking:nextRoomId'' r; roomName = ''match-'' @ showInt k
             in case sbind (jstring ''usernameA'' event) (\<lambda>white. sbind (jstring ''usernameB'' event) (\<lambda>black. Inr (white, black))) of
                  Inl ex \<Rightarrow> (([], al, r1), Some ex)
                | Inr (white, black) \<Rightarrow>
                    (case rpc (allocateSubject shard)
                           (JObj [(''roomName'', JStr roomName), (''whiteUsername'', JStr white), (''blackUsername'', JStr black)]) of
                       None \<Rightarrow> (([], al, r1), None)
                     | Some reply \<Rightarrow>
                         (case replySuccess reply of
                            Inl ex \<Rightarrow> (([], al, r1), Some ex)
                          | Inr False \<Rightarrow> (([], al, r1), None)
                          | Inr True \<Rightarrow>
                              let al1 = al\<lparr>al_allocations := Suc (al_allocations al)\<rparr>
                              in case assignedEvent event roomName shard white black of
                                   Inl ex \<Rightarrow> (([], al1, r1), Some ex)
                                 | Inr j \<Rightarrow> (([NatsPublish ''matchmaking.assigned'' j], al1, r1), None))))"

definition onAllocationRequest :: "(string \<Rightarrow> json \<Rightarrow> json option) \<Rightarrow> (nat \<Rightarrow> nat list) \<Rightarrow> json \<Rightarrow> allocator \<Rightarrow>
    json_error + (json \<times> allocator)" where
  "onAllocationRequest rpc ord request al =
     sbind (jstring ''roomName'' request) (\<lambda>roomName.
     let shard = pickLeastLoadedShard ord al
     in if shard = [] then Inr (failure ''no game-server shard available'', al)
        else case rpc (allocateSubject shard) (JObj [(''roomName'', JStr roomName)]) of
               None \<Rightarrow> Inr (failure ''shard unavailable'', al)
             | Some reply \<Rightarrow>
                 sbind (replySuccess reply) (\<lambda>ok.
                 if \<not> ok then Inr (reply, al)
                 else Inr (JObj [(''success'', JBool True), (''message'', JStr ''room created''), (''roomName'', JStr roomName),
                            (''shard'', JStr shard)], al\<lparr>al_allocations := Suc (al_allocations al)\<rparr>)))"

section \<open>Shards that are alive\<close>

text \<open>Times are in nanoseconds; a shard is dropped when its last heartbeat is too old.\<close>

type_synonym shard_registry = "(string, int) umap"

definition shardSeen :: "int \<Rightarrow> json \<Rightarrow> shard_registry \<Rightarrow> json_error + shard_registry" where
  "shardSeen now event sr = sbind (jstring ''shard'' event) (\<lambda>shard. Inr (AList.update shard now sr))"

definition liveShards :: "int \<Rightarrow> int \<Rightarrow> (nat \<Rightarrow> nat list) \<Rightarrow> shard_registry \<Rightarrow> string list \<times> shard_registry" where
  "liveShards staleAfterSeconds now ord sr =
     (let fresh = filter (\<lambda>(s, seen). \<not> (now - seen) sdiv 1000000000 > staleAfterSeconds)
      in (map fst (fresh (iter ord sr)), fresh sr))"

end
