(* ===== verification/Gateway.thy ===== *)
theory Gateway
  imports Matchmaking "HOL-Library.Word"
begin

text \<open>
  The two halves of the gateway: \<open>gateway/WsGateway.cpp\<close> forwards the frames between a client and
  the shard it was routed to, \<open>gateway/ApiGateway.cpp\<close> answers the HTTP requests. Both run on one
  thread, so a handler is one step. Shared objects that the code reaches through pointers (a link,
  the state of a relay, an HTTP connection kept for a later answer) are named by numbers.
\<close>

section \<open>Forwarding\<close>

text \<open>
  A frame has the opcode text or binary. The WebSocket library refuses to send text that is not
  UTF-8 (the error is logged and the frame lost) and never delivers such text.
\<close>

datatype opcode = TextFrame | BinaryFrame

type_synonym frame = "opcode \<times> string"

definition sendable :: "frame \<Rightarrow> bool" where
  "sendable = (\<lambda>(op, t). op = BinaryFrame \<or> validUtf8 t)"

definition sendFrame :: "(frame \<Rightarrow> 'e) \<Rightarrow> frame \<Rightarrow> 'e list" where
  "sendFrame eff f = (if sendable f then [eff f] else [])"

record link =
  lk_downstreamHdl :: conn
  lk_upstreamHdl :: conn
  lk_upstreamOpen :: bool
  lk_pending :: "string list"

record ws_gateway =
  wg_links :: "(nat, link) umap"
  wg_byDownstream :: "(conn, nat) umap"
  wg_byUpstream :: "(conn, nat) umap"
  wg_roundRobinNext :: nat
  wg_next :: nat

datatype ws_effect =
    SendUpstream conn frame
  | SendDownstream conn frame
  | CloseUpstream conn
  | CloseDownstream conn string
  | ConnectUpstream conn string

text \<open>\<open>size_t\<close> has 64 bits.\<close>

definition incSize :: "nat \<Rightarrow> nat" where
  "incSize n = (n + 1) mod 18446744073709551616"

text \<open>
  The shard for a new client among the live ones; the hint is the header \<open>X-Shard-Hint\<close>, empty when
  it is missing, and \<open>None\<close> when the connection is already gone.
\<close>

definition routeClient :: "string option \<Rightarrow> string list \<Rightarrow> nat \<Rightarrow> string \<times> nat" where
  "routeClient hint shards rr =
     (let uri = (case hint of Some h \<Rightarrow> if h \<noteq> [] \<and> h \<in> set shards then h else [] | None \<Rightarrow> [])
      in if uri = [] then (shards ! (rr mod length shards), incSize rr) else (uri, rr))"

text \<open>\<open>connect\<close> is \<open>upstream.get_connection\<close>: the handle of the new connection, or an error.\<close>

definition onClientOpen :: "string list \<Rightarrow> string option \<Rightarrow> (string \<Rightarrow> conn option) \<Rightarrow> conn \<Rightarrow> ws_gateway \<Rightarrow>
    ws_effect list \<times> ws_gateway" where
  "onClientOpen shards hint connect d gw =
     (if shards = [] then ([CloseDownstream d ''no shard available''], gw)
      else let (uri, rr) = routeClient hint shards (wg_roundRobinNext gw); gw1 = gw\<lparr>wg_roundRobinNext := rr\<rparr>
           in case connect uri of
                None \<Rightarrow> ([CloseDownstream d ''upstream unavailable''], gw1)
              | Some u \<Rightarrow>
                  ([ConnectUpstream u uri],
                   gw1\<lparr>wg_links := AList.update (wg_next gw) \<lparr>lk_downstreamHdl = d, lk_upstreamHdl = u, lk_upstreamOpen = False, lk_pending = []\<rparr>
                          (wg_links gw1),
                       wg_byDownstream := AList.update d (wg_next gw) (wg_byDownstream gw1),
                       wg_byUpstream := AList.update u (wg_next gw) (wg_byUpstream gw1), wg_next := Suc (wg_next gw)\<rparr>))"

definition linkAt :: "(conn, nat) umap \<Rightarrow> conn \<Rightarrow> ws_gateway \<Rightarrow> (nat \<times> link) option" where
  "linkAt m h gw = (case map_of m h of None \<Rightarrow> None | Some i \<Rightarrow> map_option (Pair i) (map_of (wg_links gw) i))"

text \<open>An open link forwards the frame with its opcode; one that still waits keeps the payload only.\<close>

definition onClientMessage :: "conn \<Rightarrow> frame \<Rightarrow> ws_gateway \<Rightarrow> ws_effect list \<times> ws_gateway" where
  "onClientMessage d f gw =
     (case linkAt (wg_byDownstream gw) d gw of
        None \<Rightarrow> ([], gw)
      | Some (i, lk) \<Rightarrow>
          if lk_upstreamOpen lk then (sendFrame (SendUpstream (lk_upstreamHdl lk)) f, gw)
          else ([], gw\<lparr>wg_links := AList.map_entry i (\<lambda>lk. lk\<lparr>lk_pending := lk_pending lk @ [snd f]\<rparr>) (wg_links gw)\<rparr>))"

definition onClientClose :: "conn \<Rightarrow> ws_gateway \<Rightarrow> ws_effect list \<times> ws_gateway" where
  "onClientClose d gw =
     (case linkAt (wg_byDownstream gw) d gw of
        None \<Rightarrow> ([], gw)
      | Some (i, lk) \<Rightarrow> ([CloseUpstream (lk_upstreamHdl lk)],
          gw\<lparr>wg_byUpstream := AList.delete (lk_upstreamHdl lk) (wg_byUpstream gw),
             wg_byDownstream := AList.delete d (wg_byDownstream gw)\<rparr>))"

definition onUpstreamOpen :: "conn \<Rightarrow> ws_gateway \<Rightarrow> ws_effect list \<times> ws_gateway" where
  "onUpstreamOpen u gw =
     (case linkAt (wg_byUpstream gw) u gw of
        None \<Rightarrow> ([], gw)
      | Some (i, lk) \<Rightarrow> (concat (map (\<lambda>t. sendFrame (SendUpstream u) (TextFrame, t)) (lk_pending lk)),
          gw\<lparr>wg_links := AList.map_entry i (\<lambda>lk. lk\<lparr>lk_upstreamOpen := True, lk_pending := []\<rparr>) (wg_links gw)\<rparr>))"

definition onUpstreamMessage :: "conn \<Rightarrow> frame \<Rightarrow> ws_gateway \<Rightarrow> ws_effect list \<times> ws_gateway" where
  "onUpstreamMessage u f gw =
     (case linkAt (wg_byUpstream gw) u gw of
        None \<Rightarrow> ([], gw)
      | Some (i, lk) \<Rightarrow> (sendFrame (SendDownstream (lk_downstreamHdl lk)) f, gw))"

definition onUpstreamGone :: "conn \<Rightarrow> ws_gateway \<Rightarrow> ws_effect list \<times> ws_gateway" where
  "onUpstreamGone u gw =
     (case linkAt (wg_byUpstream gw) u gw of
        None \<Rightarrow> ([], gw)
      | Some (i, lk) \<Rightarrow> ([CloseDownstream (lk_downstreamHdl lk) ''upstream lost''],
          gw\<lparr>wg_byDownstream := AList.delete (lk_downstreamHdl lk) (wg_byDownstream gw),
             wg_byUpstream := AList.delete u (wg_byUpstream gw)\<rparr>))"

section \<open>HTTP\<close>

text \<open>\<open>makeToken\<close> writes two random 64-bit numbers with 16 hexadecimal digits each.\<close>

definition hexDigit :: "nat \<Rightarrow> char" where
  "hexDigit n = (if n < 10 then char_of (48 + n) else char_of (87 + n))"

fun hexDigits :: "nat \<Rightarrow> nat \<Rightarrow> string" where
  "hexDigits 0 n = []"
| "hexDigits (Suc k) n = hexDigits k (n div 16) @ [hexDigit (n mod 16)]"

definition makeToken :: "64 word \<Rightarrow> 64 word \<Rightarrow> string" where
  "makeToken a b = hexDigits 16 (unat a) @ hexDigits 16 (unat b)"

definition extractJoinRoomName :: "string \<Rightarrow> string" where
  "extractJoinRoomName uri =
     (let prefix1 = ''/rooms/''; suffix1 = ''/join''
      in if length uri \<le> length prefix1 + length suffix1 then []
         else if take (length prefix1) uri \<noteq> prefix1 then []
         else if drop (length uri - length suffix1) uri \<noteq> suffix1 then []
         else take (length uri - length prefix1 - length suffix1) (drop (length prefix1) uri))"

definition gaugeMetric :: "string \<Rightarrow> string \<Rightarrow> nat \<Rightarrow> string" where
  "gaugeMetric name help n =
     ''# HELP '' @ name @ '' '' @ help @ [newline] @ ''# TYPE '' @ name @ '' gauge'' @ [newline] @
     name @ '' '' @ showNat n @ ''.000000'' @ [newline]"

text \<open>
  The callback of a relay is the answer to a \<open>POST /login\<close>: it holds the HTTP connection and the name.
\<close>

record relay_state =
  rl_outgoing :: string
  rl_con :: conn
  rl_username :: string
  rl_done :: bool

text \<open>\<open>ag_allocations\<close> are the threads that wait for the allocator, with the connection to answer.\<close>

record api_gateway =
  ag_relays :: "(conn, relay_state) umap"
  ag_roundRobinNext :: nat
  ag_playTickets :: "(string, conn) umap"
  ag_allocations :: "(conn \<times> string) list"

datatype api_effect =
    Respond conn int json
  | RespondText conn int string
  | RelayConnect conn string
  | RelaySend conn string
  | RelayClose conn
  | SessionPut string string int
  | PublishNats string json

text \<open>
  What the gateway uses of other code: the JSON library, the session store, the room directory, the
  history repository if there is one, the live shards, the creation of a relay connection and the
  numbers the next token is made of.
\<close>

record api_environment =
  ae_dump :: "json \<Rightarrow> string"
  ae_parse :: "string \<Rightarrow> json option"
  ae_parseWhat :: "string \<Rightarrow> string"
  ae_session :: "string \<Rightarrow> client_session_data option"
  ae_room :: "string \<Rightarrow> string"
  ae_rooms :: "string list"
  ae_history :: "game_record list option"
  ae_live :: "string list"
  ae_connect :: "string \<Rightarrow> conn option"
  ae_random :: "64 word \<times> 64 word"

definition newToken :: "api_environment \<Rightarrow> string" where
  "newToken env = makeToken (fst (ae_random env)) (snd (ae_random env))"

definition pickShard :: "string list \<Rightarrow> api_gateway \<Rightarrow> string option \<times> api_gateway" where
  "pickShard shards ag =
     (if shards = [] then (None, ag)
      else (Some (shards ! (ag_roundRobinNext ag mod length shards)), ag\<lparr>ag_roundRobinNext := incSize (ag_roundRobinNext ag)\<rparr>))"

text \<open>
  The callback given to \<open>relayToShard\<close>. \<open>value\<close> throws on a reply that is not an object or a field of
  another type; the token may be stored by then.
\<close>

definition loginCallback :: "string \<Rightarrow> conn \<Rightarrow> string \<Rightarrow> json option \<Rightarrow> api_effect list \<times> json_error option" where
  "loginCallback token con username reply =
     (case reply of
        None \<Rightarrow> ([Respond con 502 (failure ''upstream unavailable'')], None)
      | Some j \<Rightarrow>
          (case replySuccess j of
             Inl ex \<Rightarrow> ([], Some ex)
           | Inr False \<Rightarrow> ([Respond con 401 j], None)
           | Inr True \<Rightarrow>
               (case sbind (jvalue ''elo'' (JInt 0) j) getInt of
                  Inl ex \<Rightarrow> ([], Some ex)
                | Inr elo \<Rightarrow>
                    (case jvalueString ''message'' [] j of
                       Inl ex \<Rightarrow> ([SessionPut token username elo], Some ex)
                     | Inr m \<Rightarrow> ([SessionPut token username elo,
                         Respond con 200 (JObj [(''success'', JBool True), (''message'', JStr m), (''elo'', JInt elo), (''token'', JStr token)])],
                         None)))))"

definition relayToShard :: "api_environment \<Rightarrow> string \<Rightarrow> string \<Rightarrow> json \<Rightarrow> conn \<Rightarrow> string \<Rightarrow> api_gateway \<Rightarrow>
    (api_effect list \<times> api_gateway) \<times> json_error option" where
  "relayToShard env uri typ data con username ag =
     (case ae_connect env uri of
        None \<Rightarrow> (let (out, ex) = loginCallback (newToken env) con username None in ((out, ag), ex))
      | Some h \<Rightarrow> (([RelayConnect h uri],
          ag\<lparr>ag_relays := AList.update h \<lparr>rl_outgoing = ae_dump env (JObj [(''type'', JStr typ), (''payload'', data)]),
                rl_con = con, rl_username = username, rl_done = False\<rparr> (ag_relays ag)\<rparr>), None))"

definition onRelayOpen :: "conn \<Rightarrow> api_gateway \<Rightarrow> api_effect list" where
  "onRelayOpen h ag = (case map_of (ag_relays ag) h of None \<Rightarrow> [] | Some rl \<Rightarrow> [RelaySend h (rl_outgoing rl)])"

definition onRelayMessage :: "api_environment \<Rightarrow> conn \<Rightarrow> string \<Rightarrow> api_gateway \<Rightarrow>
    (api_effect list \<times> api_gateway) \<times> json_error option" where
  "onRelayMessage env h t ag =
     (case map_of (ag_relays ag) h of
        None \<Rightarrow> (([], ag), None)
      | Some rl \<Rightarrow>
          let ag1 = ag\<lparr>ag_relays := AList.update h (rl\<lparr>rl_done := True\<rparr>) (ag_relays ag)\<rparr>
          in case loginCallback (newToken env) (rl_con rl) (rl_username rl) (ae_parse env t) of
               (out, Some ex) \<Rightarrow> ((out, ag1), Some ex)
             | (out, None) \<Rightarrow> ((out @ [RelayClose h], ag1\<lparr>ag_relays := AList.delete h (ag_relays ag1)\<rparr>), None))"

definition onRelayGone :: "api_environment \<Rightarrow> conn \<Rightarrow> api_gateway \<Rightarrow> api_effect list \<times> api_gateway" where
  "onRelayGone env h ag =
     (case map_of (ag_relays ag) h of
        None \<Rightarrow> ([], ag)
      | Some rl \<Rightarrow> (if rl_done rl then [] else fst (loginCallback (newToken env) (rl_con rl) (rl_username rl) None),
          ag\<lparr>ag_relays := AList.delete h (ag_relays ag)\<rparr>))"

text \<open>The two subscriptions that answer a waiting \<open>POST /play\<close>.\<close>

definition playAssignedSide :: "json \<Rightarrow> string \<Rightarrow> api_gateway \<Rightarrow> (api_effect list \<times> api_gateway) \<times> json_error option" where
  "playAssignedSide event side ag =
     (case jstring (''ticket'' @ side) event of
        Inl ex \<Rightarrow> (([], ag), Some ex)
      | Inr ticketId \<Rightarrow>
          (case map_of (ag_playTickets ag) ticketId of
             None \<Rightarrow> (([], ag), None)
           | Some con \<Rightarrow>
               (case sbind (jat ''roomName'' event) (\<lambda>n. sbind (jat ''shard'' event) (\<lambda>s. Inr (n, s))) of
                  Inl ex \<Rightarrow> (([], ag), Some ex)
                | Inr (n, s) \<Rightarrow>
                    (([Respond con 200 (JObj [(''success'', JBool True), (''message'', JStr ''match found''), (''roomName'', n), (''shard'', s)])],
                      ag\<lparr>ag_playTickets := AList.delete ticketId (ag_playTickets ag)\<rparr>), None))))"

definition playAssigned :: "json \<Rightarrow> api_gateway \<Rightarrow> (api_effect list \<times> api_gateway) \<times> json_error option" where
  "playAssigned event ag =
     (case playAssignedSide event ''A'' ag of
        ((out, ag1), Some ex) \<Rightarrow> ((out, ag1), Some ex)
      | ((out, ag1), None) \<Rightarrow> (case playAssignedSide event ''B'' ag1 of ((out', ag2), ex) \<Rightarrow> ((out @ out', ag2), ex)))"

definition playTimeout :: "json \<Rightarrow> api_gateway \<Rightarrow> (api_effect list \<times> api_gateway) \<times> json_error option" where
  "playTimeout event ag =
     (case jstring ''ticketId'' event of
        Inl ex \<Rightarrow> (([], ag), Some ex)
      | Inr ticketId \<Rightarrow>
          (case map_of (ag_playTickets ag) ticketId of
             None \<Rightarrow> (([], ag), None)
           | Some con \<Rightarrow> (([Respond con 200 (failure ''no players available'')],
               ag\<lparr>ag_playTickets := AList.delete ticketId (ag_playTickets ag)\<rparr>), None)))"

text \<open>The closure that the thread of a \<open>POST /rooms\<close> posts once the allocator has answered or not.\<close>

definition allocationAnswer :: "conn \<Rightarrow> json option \<Rightarrow> json_error + (api_effect list)" where
  "allocationAnswer con reply =
     (case reply of
        None \<Rightarrow> Inr [Respond con 502 (failure ''upstream unavailable'')]
      | Some j \<Rightarrow>
          sbind (replySuccess j) (\<lambda>ok.
          if \<not> ok then Inr [Respond con 409 j]
          else sbind (jvalueString ''message'' [] j) (\<lambda>m. sbind (jvalueString ''roomName'' [] j) (\<lambda>n. sbind (jvalueString ''shard'' [] j) (\<lambda>s.
            Inr [Respond con 200 (JObj [(''success'', JBool True), (''message'', JStr m), (''roomName'', JStr n), (''shard'', JStr s)])])))))"

definition onAllocationReply :: "conn \<Rightarrow> string \<Rightarrow> json option \<Rightarrow> api_gateway \<Rightarrow> (api_effect list \<times> api_gateway) \<times> json_error option" where
  "onAllocationReply con name reply ag =
     (let ag1 = ag\<lparr>ag_allocations := remove1 (con, name) (ag_allocations ag)\<rparr>
      in case allocationAnswer con reply of Inl ex \<Rightarrow> (([], ag1), Some ex) | Inr out \<Rightarrow> ((out, ag1), None))"

section \<open>The routes\<close>

definition badToken :: json where
  "badToken = failure ''invalid or expired token''"

definition postLogin :: "api_environment \<Rightarrow> conn \<Rightarrow> json \<Rightarrow> api_gateway \<Rightarrow> (api_effect list \<times> api_gateway) \<times> json_error option" where
  "postLogin env con request ag =
     (case sbind (jvalueString ''username'' [] request) (\<lambda>u. sbind (jvalueString ''password'' [] request) (\<lambda>p. Inr (u, p))) of
        Inl ex \<Rightarrow> (([], ag), Some ex)
      | Inr (u, p) \<Rightarrow>
          (case pickShard (ae_live env) ag of
             (None, ag1) \<Rightarrow> (([Respond con 503 (failure ''no game-server shard available'')], ag1), None)
           | (Some uri, ag1) \<Rightarrow>
               relayToShard env uri ''LOGIN'' (JObj [(''username'', JStr u), (''password'', JStr p)]) con u ag1))"

definition postRooms :: "api_environment \<Rightarrow> conn \<Rightarrow> json \<Rightarrow> api_gateway \<Rightarrow> (api_effect list \<times> api_gateway) \<times> json_error option" where
  "postRooms env con request ag =
     (case sbind (jvalueString ''token'' [] request) (\<lambda>t. sbind (jvalueString ''name'' [] request) (\<lambda>n. Inr (t, n))) of
        Inl ex \<Rightarrow> (([], ag), Some ex)
      | Inr (t, n) \<Rightarrow>
          if ae_session env t = None then (([Respond con 401 badToken], ag), None)
          else (([], ag\<lparr>ag_allocations := ag_allocations ag @ [(con, n)]\<rparr>), None))"

definition postPlay :: "api_environment \<Rightarrow> conn \<Rightarrow> json \<Rightarrow> api_gateway \<Rightarrow> (api_effect list \<times> api_gateway) \<times> json_error option" where
  "postPlay env con request ag =
     (case jvalueString ''token'' [] request of
        Inl ex \<Rightarrow> (([], ag), Some ex)
      | Inr t \<Rightarrow>
          (case ae_session env t of
             None \<Rightarrow> (([Respond con 401 badToken], ag), None)
           | Some s \<Rightarrow> (([PublishNats ''matchmaking.request'' (JObj [(''ticketId'', JStr (newToken env)), (''username'', JStr (csd_username s)),
                 (''elo'', JInt (csd_elo s))])],
               ag\<lparr>ag_playTickets := AList.update (newToken env) con (ag_playTickets ag)\<rparr>), None)))"

definition postJoin :: "api_environment \<Rightarrow> conn \<Rightarrow> string \<Rightarrow> json \<Rightarrow> json_error + (api_effect list)" where
  "postJoin env con name request =
     sbind (jvalueString ''token'' [] request) (\<lambda>t.
     Inr (if ae_session env t = None then [Respond con 401 badToken]
          else let shard = ae_room env name
               in if shard = [] then [Respond con 404 (failure ''room not found'')]
                  else [Respond con 200 (JObj [(''success'', JBool True), (''message'', JStr ''room found''),
                          (''roomName'', JStr name), (''shard'', JStr shard)])]))"

definition recordJson :: "game_record \<Rightarrow> json" where
  "recordJson r = JObj [(''roomName'', JStr (rec_roomName r)), (''winnerUsername'', JStr (rec_winnerUsername r)),
     (''winnerElo'', JInt (rec_winnerElo r)), (''loserUsername'', JStr (rec_loserUsername r)), (''loserElo'', JInt (rec_loserElo r)),
     (''reason'', JStr (rec_reason r)), (''moveLog'', rec_moveLog r)]"

definition metricsText :: "api_gateway \<Rightarrow> string" where
  "metricsText ag =
     gaugeMetric ''pending_play_tickets'' ''POST /play requests waiting on a match'' (length (ag_playTickets ag)) @
     gaugeMetric ''in_flight_shard_relays'' ''Relay connections waiting on a shard reply'' (length (ag_relays ag))"

text \<open>
  A body that does not parse is answered with the message of the exception, outside the \<open>try\<close> block;
  printing the answer throws when that message is not UTF-8.
\<close>

definition onHttp :: "api_environment \<Rightarrow> conn \<Rightarrow> string \<Rightarrow> string \<Rightarrow> string \<Rightarrow> api_gateway \<Rightarrow>
    (api_effect list \<times> api_gateway) \<times> json_error option" where
  "onHttp env con meth uri body ag =
     (case (if body = [] then Some (JObj []) else ae_parse env body) of
        None \<Rightarrow>
          (let reply = failure (''malformed body: '' @ ae_parseWhat env body)
           in if json_utf8 reply then (([Respond con 400 reply], ag), None) else (([], ag), Some TypeError))
      | Some request \<Rightarrow>
          if meth = ''POST'' \<and> uri = ''/login'' then postLogin env con request ag
          else if meth = ''POST'' \<and> uri = ''/rooms'' then postRooms env con request ag
          else if meth = ''POST'' \<and> uri = ''/play'' then postPlay env con request ag
          else if meth = ''POST'' \<and> extractJoinRoomName uri \<noteq> [] then
            (case postJoin env con (extractJoinRoomName uri) request of
               Inl ex \<Rightarrow> (([], ag), Some ex) | Inr out \<Rightarrow> ((out, ag), None))
          else if meth = ''GET'' \<and> uri = ''/health'' then (([Respond con 200 (JObj [(''success'', JBool True)])], ag), None)
          else if meth = ''GET'' \<and> uri = ''/metrics'' then (([RespondText con 200 (metricsText ag)], ag), None)
          else if meth = ''GET'' \<and> uri = ''/rooms'' then
            (([Respond con 200 (JObj [(''success'', JBool True), (''rooms'', JArr (map JStr (ae_rooms env)))])], ag), None)
          else if meth = ''GET'' \<and> uri = ''/history'' then
            (([Respond con 200 (JObj [(''success'', JBool True),
                (''games'', JArr (case ae_history env of None \<Rightarrow> [] | Some rs \<Rightarrow> map recordJson rs))])], ag), None)
          else (([Respond con 404 (failure ''no such route'')], ag), None))"

end
