(* ===== verification/Client.thy ===== *)
theory Client
  imports Gateway
begin

text \<open>
  The client next to the controller: what it makes of the messages of the server
  (\<open>client/net/NetworkMessageHandler.cpp\<close>, \<open>BlockingRequest.cpp\<close>), logging in (\<open>client/app/LoginFlow.cpp\<close>),
  the buttons of the home screen (\<open>HomeScreen.cpp\<close>) and the mouse (\<open>GraphicalApplication.cpp\<close>,
  \<open>client/view/BoardScale.h\<close>). Sounds are the names of the files that are played, in order.
\<close>

section \<open>Messages from the server\<close>

record network_state =
  ns_snapshot :: game_snapshot
  ns_disconnectActive :: bool
  ns_disconnectMessage :: string
  ns_whiteScore :: int
  ns_blackScore :: int
  ns_whiteMoves :: "move_entry list"
  ns_blackMoves :: "move_entry list"
  ns_whiteName :: string
  ns_whiteElo :: int
  ns_blackName :: string
  ns_blackElo :: int
  ns_spectatorCount :: int

record network_handler =
  nh_state :: network_state
  nh_pendingCaptures :: "capture_event list"

definition soundMove :: string where "soundMove = ''move.wav''"
definition soundCapture :: string where "soundCapture = ''capture.wav''"
definition soundIllegalMove :: string where "soundIllegalMove = ''illegal_move.wav''"
definition soundJump :: string where "soundJump = ''jump.wav''"
definition soundClick :: string where "soundClick = ''click.wav''"

definition opponentName :: "string \<Rightarrow> string" where
  "opponentName c = (if c = ''White'' then ''Black'' else ''White'')"

definition seedMoveLog :: "move_entry list \<Rightarrow> move_entry list \<Rightarrow> network_handler \<Rightarrow> network_handler" where
  "seedMoveLog white black h = h\<lparr>nh_state := (nh_state h)\<lparr>ns_whiteMoves := white, ns_blackMoves := black\<rparr>\<rparr>"

definition handleMoveLogged :: "json \<Rightarrow> network_handler \<Rightarrow> json_error + (string list \<times> network_handler)" where
  "handleMoveLogged data h =
     sbind (decodeMoveLog data) (\<lambda>(c, entry).
     let ns = nh_state h
     in Inr ([soundMove],
          if c = White then h\<lparr>nh_state := ns\<lparr>ns_whiteMoves := ns_whiteMoves ns @ [entry]\<rparr>\<rparr>
          else if c = Black then h\<lparr>nh_state := ns\<lparr>ns_blackMoves := ns_blackMoves ns @ [entry]\<rparr>\<rparr>
          else h))"

definition handleCaptureEvent :: "json \<Rightarrow> network_handler \<Rightarrow> json_error + (string list \<times> network_handler)" where
  "handleCaptureEvent data h =
     sbind (decodeCapture data) (\<lambda>ev. Inr ([], h\<lparr>nh_pendingCaptures := nh_pendingCaptures h @ [ev]\<rparr>))"

definition handleCommandAck :: "json \<Rightarrow> network_handler \<Rightarrow> json_error + (string list \<times> network_handler)" where
  "handleCommandAck j h =
     sbind (sbind (jvalue ''success'' (JBool True) j) getBool) (\<lambda>ok. Inr (if ok then [] else [soundIllegalMove], h))"

definition jvalueInt :: "string \<Rightarrow> int \<Rightarrow> json \<Rightarrow> json_error + int" where
  "jvalueInt k dflt j = sbind (jvalue k (JInt dflt) j) getInt"

text \<open>The part of \<open>handleSnapshot\<close> that reads the member \<open>disconnect\<close>: whether it is active, and the text to show.\<close>

definition disconnectText :: "json \<Rightarrow> json_error + (bool \<times> string)" where
  "disconnectText j =
     (case jat ''disconnect'' j of
        Inl _ \<Rightarrow> Inr (False, [])
      | Inr d \<Rightarrow>
          sbind (sbind (jvalue ''active'' (JBool False) d) getBool) (\<lambda>act.
          if \<not> act then Inr (False, [])
          else sbind (jvalueString ''color'' [] d) (\<lambda>c.
               sbind (jvalueInt ''secondsRemaining'' 0 d) (\<lambda>n.
               Inr (True, if n > 0 then c @ '' disconnected - auto-resign in '' @ showInt n @ ''s''
                          else c @ '' resigned (disconnected) - '' @ opponentName c @ '' wins!'')))))"

definition handleSnapshot :: "json \<Rightarrow> network_handler \<Rightarrow> json_error + (string list \<times> network_handler)" where
  "handleSnapshot j h =
     sbind (decodeSnapshot j) (\<lambda>decoded.
     sbind (disconnectText j) (\<lambda>(act, txt1).
     sbind (sbind (jvalue ''score'' (JObj []) j) (jvalueInt ''white'' 0)) (\<lambda>ws.
     sbind (sbind (jvalue ''score'' (JObj []) j) (jvalueInt ''black'' 0)) (\<lambda>bs.
     sbind (jvalue ''identity'' (JObj []) j) (\<lambda>identity.
     sbind (jvalueString ''whiteName'' [] identity) (\<lambda>wn.
     sbind (jvalueInt ''whiteElo'' 0 identity) (\<lambda>we.
     sbind (jvalueString ''blackName'' [] identity) (\<lambda>bn.
     sbind (jvalueInt ''blackElo'' 0 identity) (\<lambda>be.
     sbind (jvalueInt ''spectatorCount'' 0 identity) (\<lambda>sc.
     Inr ([], h\<lparr>nh_state := (nh_state h)\<lparr>ns_snapshot := decoded, ns_disconnectActive := act, ns_disconnectMessage := txt1,
       ns_whiteScore := ws, ns_blackScore := bs, ns_whiteName := wn, ns_whiteElo := we, ns_blackName := bn, ns_blackElo := be,
       ns_spectatorCount := sc\<rparr>\<rparr>)))))))))))"

text \<open>Every exception is caught and logged; a handler throws before it changes anything.\<close>

definition onMessage :: "(string \<Rightarrow> json option) \<Rightarrow> string \<Rightarrow> network_handler \<Rightarrow> string list \<times> network_handler" where
  "onMessage parse t h =
     (case (case parse t of
              None \<Rightarrow> Inl ParseError
            | Some j \<Rightarrow>
                sbind (sbind (jvalueString ''type'' [] j) typeFromName) (\<lambda>ty.
                case ty of
                  MoveLogged \<Rightarrow> sbind (jat ''payload'' j) (\<lambda>p. handleMoveLogged p h)
                | CaptureEventMsg \<Rightarrow> sbind (jat ''payload'' j) (\<lambda>p. handleCaptureEvent p h)
                | SnapshotMsg \<Rightarrow> handleSnapshot j h
                | MoveMsg \<Rightarrow> handleCommandAck j h
                | JumpMsg \<Rightarrow> handleCommandAck j h
                | _ \<Rightarrow> Inr ([], h))) of
        Inl ex \<Rightarrow> ([], h)
      | Inr r \<Rightarrow> r)"

definition isCaptureSoundReady :: "snapshot_piece option \<Rightarrow> rat \<Rightarrow> bool" where
  "isCaptureSoundReady watched impact =
     (case watched of None \<Rightarrow> True | Some p \<Rightarrow> sp_state p \<noteq> Moving \<or> travelProgress p \<ge> impact)"

definition captureReady :: "game_snapshot \<Rightarrow> capture_event \<Rightarrow> bool" where
  "captureReady snap ev =
     isCaptureSoundReady (find (\<lambda>p. sp_id p = ce_capturingPieceId ev) (pieces snap)) (ce_impactProgress ev)"

definition checkPendingCaptureSounds :: "network_handler \<Rightarrow> string list \<times> network_handler" where
  "checkPendingCaptureSounds h =
     (let ready = captureReady (ns_snapshot (nh_state h))
      in (replicate (length (filter ready (nh_pendingCaptures h))) soundCapture,
          h\<lparr>nh_pendingCaptures := filter (\<lambda>ev. \<not> ready ev) (nh_pendingCaptures h)\<rparr>))"

section \<open>A request that waits for its reply\<close>

text \<open>
  The handler \<open>sendAndWaitForReply\<close> installs, on one incoming text; \<open>value\<close> throws on a message that is
  no object, out of the network thread.
\<close>

definition onReplyText :: "(string \<Rightarrow> json option) \<Rightarrow> string \<Rightarrow> string \<Rightarrow> json option \<Rightarrow> json_error + json option" where
  "onReplyText parse expectedTypeName t reply =
     (case reply of
        Some _ \<Rightarrow> Inr reply
      | None \<Rightarrow>
          (case parse t of
             None \<Rightarrow> Inr None
           | Some parsed \<Rightarrow>
               sbind (jvalueString ''type'' [] parsed) (\<lambda>ty. Inr (if ty \<noteq> expectedTypeName then None else Some parsed))))"

fun awaitReply :: "(string \<Rightarrow> json option) \<Rightarrow> string \<Rightarrow> string list \<Rightarrow> json option \<Rightarrow> json_error + json option" where
  "awaitReply parse ty [] reply = Inr reply"
| "awaitReply parse ty (t # ts) reply = sbind (onReplyText parse ty t reply) (awaitReply parse ty ts)"

section \<open>Logging in\<close>

record client_login =
  cl_success :: bool
  cl_message :: string
  cl_elo :: int
  cl_token :: string

definition kMaxAttempts :: nat where "kMaxAttempts = 3"

text \<open>\<open>post\<close> is \<open>HttpClient::post\<close>.\<close>

definition postLoginRequest :: "(string \<Rightarrow> json \<Rightarrow> json) \<Rightarrow> string \<Rightarrow> string \<Rightarrow> json_error + client_login" where
  "postLoginRequest post username password =
     (let reply = post ''/login'' (JObj [(''username'', JStr username), (''password'', JStr password)])
      in sbind (replySuccess reply) (\<lambda>ok. sbind (jvalueString ''message'' [] reply) (\<lambda>m.
         sbind (jvalueInt ''elo'' 0 reply) (\<lambda>elo. sbind (jvalueString ''token'' [] reply) (\<lambda>token.
         Inr \<lparr>cl_success = ok, cl_message = m, cl_elo = elo, cl_token = token\<rparr>)))))"

text \<open>\<open>in >> word\<close>: at the end of the input the word stays empty.\<close>

definition readWord :: "string \<Rightarrow> string \<times> string" where
  "readWord s = (let s1 = dropWhile isSpace s in (takeWhile (\<lambda>c. \<not> isSpace c) s1, dropWhile (\<lambda>c. \<not> isSpace c) s1))"

text \<open>The loop from \<open>n\<close> remaining attempts: the result and what was written to \<open>out\<close>.\<close>

fun loginAttempts :: "(string \<Rightarrow> json \<Rightarrow> json) \<Rightarrow> nat \<Rightarrow> string \<Rightarrow> json_error + (client_login \<times> string)" where
  "loginAttempts post 0 inp = Inr (\<lparr>cl_success = False, cl_message = [], cl_elo = 0, cl_token = []\<rparr>,
     ''Too many failed login attempts.'' @ [newline])"
| "loginAttempts post (Suc n) inp =
     (let (username, inp1) = readWord inp; (password, inp2) = readWord inp1
      in sbind (postLoginRequest post username password) (\<lambda>r.
         if cl_success r then Inr (r, ''Username: Password: Login successful (ELO '' @ showInt (cl_elo r) @ '')'' @ [newline])
         else sbind (loginAttempts post n inp2) (\<lambda>(r', out).
           Inr (r', ''Username: Password: Login failed: '' @ cl_message r @ [newline] @
             (if n > 0 then showNat n @ '' attempt(s) remaining.'' @ [newline] else []) @ out))))"

definition runLoginFlow :: "(string \<Rightarrow> json \<Rightarrow> json) \<Rightarrow> string \<Rightarrow> json_error + (client_login \<times> string)" where
  "runLoginFlow post inp = loginAttempts post kMaxAttempts inp"

section \<open>The home screen\<close>

datatype home_screen_choice = NoChoice | PlayChoice | RoomChoice

record button_bounds =
  bb_x :: int
  bb_y :: int
  bb_width :: int
  bb_height :: int

definition containsPoint :: "button_bounds \<Rightarrow> int \<Rightarrow> int \<Rightarrow> bool" where
  "containsPoint b x y \<longleftrightarrow> x \<ge> bb_x b \<and> x < bb_x b + bb_width b \<and> y \<ge> bb_y b \<and> y < bb_y b + bb_height b"

definition playButtonBounds :: button_bounds where
  "playButtonBounds = \<lparr>bb_x = 300, bb_y = 150, bb_width = 200, bb_height = 60\<rparr>"

definition roomButtonBounds :: button_bounds where
  "roomButtonBounds = \<lparr>bb_x = 300, bb_y = 260, bb_width = 200, bb_height = 60\<rparr>"

definition hitTest :: "int \<Rightarrow> int \<Rightarrow> home_screen_choice" where
  "hitTest x y =
     (if containsPoint playButtonBounds x y then PlayChoice
      else if containsPoint roomButtonBounds x y then RoomChoice else NoChoice)"

definition isValidRoomName :: "string \<Rightarrow> bool" where
  "isValidRoomName name \<longleftrightarrow> name \<noteq> [] \<and> list_all isAlnum name"

section \<open>The mouse\<close>

definition PANEL_WIDTH :: int where "PANEL_WIDTH = 280"
definition BOARD_MARGIN :: int where "BOARD_MARGIN = 30"
definition HANDLE_SIZE :: int where "HANDLE_SIZE = 18"

definition playerLabel :: "string \<Rightarrow> int \<Rightarrow> string" where
  "playerLabel name elo = (if name = [] then ''Waiting for player...'' else name @ '' ('' @ showInt elo @ '')'')"

record window =
  wn_snapshot :: game_snapshot
  wn_cellSize :: int
  wn_controller :: controller
  wn_resizing :: bool
  wn_dragStartX :: int
  wn_dragStartY :: int
  wn_dragStartCellSize :: int

definition handleTopLeft :: "int \<Rightarrow> int \<Rightarrow> int \<Rightarrow> int \<times> int" where
  "handleTopLeft cellSize cols rows =
     (PANEL_WIDTH + cols * cellSize - HANDLE_SIZE, BOARD_MARGIN + rows * cellSize - HANDLE_SIZE)"

definition isInHandle :: "int \<Rightarrow> int \<Rightarrow> int \<Rightarrow> int \<Rightarrow> int \<Rightarrow> bool" where
  "isInHandle cellSize cols rows px py =
     (let (x, y) = handleTopLeft cellSize cols rows
      in px \<ge> x \<and> px < x + HANDLE_SIZE \<and> py \<ge> y \<and> py < y + HANDLE_SIZE)"

definition onMouseClick :: "int \<Rightarrow> int \<Rightarrow> window \<Rightarrow> string list \<times> window" where
  "onMouseClick x y w =
     (let (outcome, c) = handleMouseClick (wn_snapshot w) (wn_cellSize w) (x - PANEL_WIDTH) (y - BOARD_MARGIN) (wn_controller w)
      in ([if outcome = SendJump then soundJump else soundClick], w\<lparr>wn_controller := c\<rparr>))"

datatype mouse_event = LButtonDown | MouseMove | LButtonUp | OtherMouse

definition onMouseEvent :: "mouse_event \<Rightarrow> int \<Rightarrow> int \<Rightarrow> window \<Rightarrow> string list \<times> window" where
  "onMouseEvent event x y w =
     (let cols = board_width (wn_snapshot w); rows = board_height (wn_snapshot w)
      in case event of
           LButtonDown \<Rightarrow>
             if isInHandle (wn_cellSize w) cols rows x y
             then ([], w\<lparr>wn_resizing := True, wn_dragStartX := x, wn_dragStartY := y, wn_dragStartCellSize := wn_cellSize w\<rparr>)
             else onMouseClick x y w
         | MouseMove \<Rightarrow>
             if \<not> wn_resizing w \<or> cols \<le> 0 then ([], w)
             else let delta = ((x - wn_dragStartX w) + (y - wn_dragStartY w)) sdiv 2
                  in ([], w\<lparr>wn_cellSize := setCellSize (wn_dragStartCellSize w + delta sdiv cols)\<rparr>)
         | LButtonUp \<Rightarrow> ([], w\<lparr>wn_resizing := False\<rparr>)
         | OtherMouse \<Rightarrow> ([], w))"

end
