(* ===== verification/Client_Laws.thy ===== *)
theory Client_Laws
  imports Client
begin

text \<open>
  The laws of the client: what the room sends at the end of a tick is what the client shows, a
  queued capture makes its sound once, and the board keeps a size at which it can be clicked.
\<close>

section \<open>Values in canonical form\<close>

lemma jat_canonical: "jat k (canon j) = (case jat k j of Inl ex \<Rightarrow> Inl ex | Inr v \<Rightarrow> Inr (canon v))"
  by (cases j) (auto simp: jat_canon simp del: canon.simps(2), simp_all add: jat_def split: option.split)

lemma get_canonical [simp]:
  "getInt (canon j) = getInt j" "getDouble (canon j) = getDouble j" "getBool (canon j) = getBool j" "getString (canon j) = getString j"
  by (cases j; simp add: getInt_def getDouble_def getBool_def getString_def)+

lemma sbind_jat_canonical:
  assumes "\<And>v. f (canon v) = f v"
  shows "sbind (jat k (canon j)) f = sbind (jat k j) f"
  using assms by (simp add: jat_canonical sbind_def split: sum.split)

lemma decodePosition_canonical [simp]: "decodePosition (canon j) = decodePosition j"
  unfolding decodePosition_def by (simp add: sbind_jat_canonical)

lemma decodeSnapshotPiece_canonical [simp]: "decodeSnapshotPiece (canon j) = decodeSnapshotPiece j"
  unfolding decodeSnapshotPiece_def by (simp add: sbind_jat_canonical)

lemma mapE_canonical:
  assumes "\<And>v. f (canon v) = f v"
  shows "mapE f (map canon xs) = mapE f xs"
  using assms by (induction xs) simp_all

section \<open>The client shows what the room sends\<close>

definition session_fits :: "game_session \<Rightarrow> bool" where
  "session_fits s \<longleftrightarrow> snapshot_fits (snapshot (gs_engine s)) \<and>
     fits_int (getScore (gs_scoreObserver s) White) \<and> fits_int (getScore (gs_scoreObserver s) Black) \<and>
     fits_int (whiteElo (gs_identity s)) \<and> fits_int (blackElo (gs_identity s)) \<and> fits_int (spectatorCount (gs_identity s)) \<and>
     fits_int (secondsRemaining (gs_disconnectStatus s))"

definition banner :: "disconnect_status \<Rightarrow> string" where
  "banner d = (let c = colorName (ds_color d)
     in if \<not> ds_active d then []
        else if secondsRemaining d > 0 then c @ '' disconnected - auto-resign in '' @ showInt (secondsRemaining d) @ ''s''
        else c @ '' resigned (disconnected) - '' @ opponentName c @ '' wins!'')"

definition shown :: "game_session \<Rightarrow> network_state \<Rightarrow> network_state" where
  "shown s ns = ns\<lparr>ns_snapshot := snapshot (gs_engine s), ns_disconnectActive := ds_active (gs_disconnectStatus s),
     ns_disconnectMessage := banner (gs_disconnectStatus s),
     ns_whiteScore := getScore (gs_scoreObserver s) White, ns_blackScore := getScore (gs_scoreObserver s) Black,
     ns_whiteName := whiteUsername (gs_identity s), ns_whiteElo := whiteElo (gs_identity s),
     ns_blackName := blackUsername (gs_identity s), ns_blackElo := blackElo (gs_identity s),
     ns_spectatorCount := spectatorCount (gs_identity s)\<rparr>"

definition snapshotKeys :: "string list" where
  "snapshotKeys = [''board_width'', ''board_height'', ''pieces'', ''game_over'', ''has_selection'', ''selected_cell'', ''legalMoves'']"

text \<open>The members of a step payload: those of the snapshot, and the others after them.\<close>

lemma stepPayload_members:
  assumes "stepPayload s = Inr j"
  obtains kvs extra where "encodeSnapshot (snapshot (gs_engine s)) = Inr (JObj kvs)" "j = JObj (kvs @ extra)"
    "list_all (\<lambda>k. map_of kvs k \<noteq> None) snapshotKeys" "map_of kvs ''type'' = None" "map_of kvs ''score'' = None" "map_of kvs ''identity'' = None" "map_of kvs ''disconnect'' = None"
    "\<exists>ps. map_of kvs ''pieces'' = Some (JArr ps)" "\<exists>ms. map_of kvs ''legalMoves'' = Some (JArr ms)"
    "map_of extra ''type'' = Some (JStr ''SNAPSHOT'')"
    "map_of extra ''score'' = Some (JObj [(''white'', JInt (getScore (gs_scoreObserver s) White)),
                                  (''black'', JInt (getScore (gs_scoreObserver s) Black))])"
    "map_of extra ''identity'' = Some (JObj [(''whiteName'', JStr (whiteUsername (gs_identity s))),
                                     (''whiteElo'', JInt (whiteElo (gs_identity s))),
                                     (''blackName'', JStr (blackUsername (gs_identity s))),
                                     (''blackElo'', JInt (blackElo (gs_identity s))),
                                     (''spectatorCount'', JInt (spectatorCount (gs_identity s)))])"
    "map_of extra ''disconnect'' = (if ds_active (gs_disconnectStatus s)
       then Some (JObj [(''active'', JBool True), (''color'', JStr (colorName (ds_color (gs_disconnectStatus s)))),
                                     (''secondsRemaining'', JInt (secondsRemaining (gs_disconnectStatus s)))]) else None)"
proof -
  have tn: "typeName SnapshotMsg = Inr ''SNAPSHOT''" by (simp add: typeName_def nameOf_def kTypeToName_def)
  obtain ps where ps: "mapE encodeSnapshotPiece (pieces (snapshot (gs_engine s))) = Inr ps"
    using assms by (auto simp: stepPayload_def encodeSnapshot_def sbind_Inr_iff)
  show thesis
  proof (rule that)
    show "encodeSnapshot (snapshot (gs_engine s)) = Inr (JObj [(''board_width'', JInt (board_width (snapshot (gs_engine s)))),
       (''board_height'', JInt (board_height (snapshot (gs_engine s)))),
       (''pieces'', JArr ps), (''game_over'', JBool (snap_game_over (snapshot (gs_engine s)))),
       (''has_selection'', JBool (has_selection (snapshot (gs_engine s)))),
       (''selected_cell'', encodePosition (selected_cell (snapshot (gs_engine s)))),
       (''legalMoves'', JArr (map encodePosition (legalMoves (snapshot (gs_engine s)))))])"
      by (simp add: encodeSnapshot_def ps)
    show "j = JObj ([(''board_width'', JInt (board_width (snapshot (gs_engine s)))),
       (''board_height'', JInt (board_height (snapshot (gs_engine s)))),
       (''pieces'', JArr ps), (''game_over'', JBool (snap_game_over (snapshot (gs_engine s)))),
       (''has_selection'', JBool (has_selection (snapshot (gs_engine s)))),
       (''selected_cell'', encodePosition (selected_cell (snapshot (gs_engine s)))),
       (''legalMoves'', JArr (map encodePosition (legalMoves (snapshot (gs_engine s)))))] @
      ([(''type'', JStr ''SNAPSHOT''), (''score'', JObj [(''white'', JInt (getScore (gs_scoreObserver s) White)),
                                  (''black'', JInt (getScore (gs_scoreObserver s) Black))]),
        (''identity'', JObj [(''whiteName'', JStr (whiteUsername (gs_identity s))),
                                     (''whiteElo'', JInt (whiteElo (gs_identity s))),
                                     (''blackName'', JStr (blackUsername (gs_identity s))),
                                     (''blackElo'', JInt (blackElo (gs_identity s))),
                                     (''spectatorCount'', JInt (spectatorCount (gs_identity s)))])] @
       (if ds_active (gs_disconnectStatus s)
        then [(''disconnect'', JObj [(''active'', JBool True), (''color'', JStr (colorName (ds_color (gs_disconnectStatus s)))),
                                     (''secondsRemaining'', JInt (secondsRemaining (gs_disconnectStatus s)))])] else [])))"
      using assms by (simp add: stepPayload_def encodeSnapshot_def ps tn jset_def split: if_splits)
  qed (simp_all add: snapshotKeys_def)
qed

lemma sbind_jat_append:
  assumes "map_of kvs k \<noteq> None" "\<And>x. f (canon x) = f x"
  shows "sbind (jat k (canon (JObj (kvs @ extra)))) f = sbind (jat k (JObj kvs)) f"
  using assms by (auto simp: sbind_jat_canonical simp del: canon.simps)

lemma sbind_jat_array:
  assumes "map_of kvs k = Some (JArr xs)" "\<And>x. f (canon x) = f x"
  shows "sbind (jat k (canon (JObj (kvs @ extra)))) (\<lambda>js. mapE f (jelems js)) = sbind (jat k (JObj kvs)) (\<lambda>js. mapE f (jelems js))"
proof -
  have "jat k (canon (JObj (kvs @ extra))) = Inr (canon (JArr xs))" unfolding jat_canon using assms(1) by simp
  then show ?thesis using assms(1) mapE_canonical [of f, OF assms(2)] by simp
qed

lemma decodeSnapshot_members:
  assumes keys: "list_all (\<lambda>k. map_of kvs k \<noteq> None) snapshotKeys"
    and ps: "map_of kvs ''pieces'' = Some (JArr ps)" and ms: "map_of kvs ''legalMoves'' = Some (JArr ms)"
  shows "decodeSnapshot (canon (JObj (kvs @ extra))) = decodeSnapshot (JObj kvs)"
proof -
  have k: "map_of kvs ''board_width'' \<noteq> None" "map_of kvs ''board_height'' \<noteq> None" "map_of kvs ''game_over'' \<noteq> None"
    "map_of kvs ''has_selection'' \<noteq> None" "map_of kvs ''selected_cell'' \<noteq> None"
    using keys by (simp_all add: snapshotKeys_def)
  show ?thesis unfolding decodeSnapshot_def
    by (simp only: sbind_jat_append [OF k(1)] sbind_jat_append [OF k(2)] sbind_jat_append [OF k(3)] sbind_jat_append [OF k(4)]
        sbind_jat_append [OF k(5)] sbind_jat_array [OF ps] sbind_jat_array [OF ms] get_canonical decodePosition_canonical
        decodeSnapshotPiece_canonical)
qed

lemma disconnectText_sent:
  assumes "jat ''disconnect'' j = (if ds_active d then Inr (canon (JObj [(''active'', JBool True), (''color'', JStr (colorName (ds_color d))),
                                     (''secondsRemaining'', JInt (secondsRemaining d))])) else Inl ex)"
    and "fits_int (secondsRemaining d)"
  shows "disconnectText j = Inr (ds_active d, banner d)"
  using assms
  by (auto simp: disconnectText_def banner_def Let_def jvalueString_def jvalueInt_def jvalue_canon simp del: canon.simps(2))

lemma client_shows_room:
  assumes s: "session_fits s" and j: "stepPayload s = Inr j" and p: "parse t = Some (canon j)"
  shows "onMessage parse t h = ([], h\<lparr>nh_state := shown s (nh_state h)\<rparr>)"
  using j
proof (cases rule: stepPayload_members)
  case (1 kvs extra)
  obtain ps ms where a: "map_of kvs ''pieces'' = Some (JArr ps)" "map_of kvs ''legalMoves'' = Some (JArr ms)" using 1(8,9) by blast
  have "snapshot_fits (snapshot (gs_engine s))" using s by (simp add: session_fits_def)
  then have d: "decodeSnapshot (canon j) = Inr (snapshot (gs_engine s))"
    using snapshot_codec.roundtrip 1(1) decodeSnapshot_members [OF 1(3) a, of extra] 1(2) by fastforce
  have m: "jvalue k dflt (canon j) = (case map_of kvs k of None \<Rightarrow> (case map_of extra k of None \<Rightarrow> Inr dflt | Some v \<Rightarrow> Inr (canon v))
      | Some v \<Rightarrow> Inr (canon v))" for k dflt
    unfolding 1(2) jvalue_canon by (simp add: map_add_def split: option.split)
  have ty: "sbind (jvalueString ''type'' [] (canon j)) typeFromName = Inr SnapshotMsg"
    by (simp add: jvalueString_def m 1(3-) typeFromName_def fromName_def kTypeToName_def)
  have dis: "disconnectText (canon j) = Inr (ds_active (gs_disconnectStatus s), banner (gs_disconnectStatus s))"
  proof (rule disconnectText_sent)
    show "jat ''disconnect'' (canon j) = (if ds_active (gs_disconnectStatus s)
      then Inr (canon (JObj [(''active'', JBool True), (''color'', JStr (colorName (ds_color (gs_disconnectStatus s)))),
        (''secondsRemaining'', JInt (secondsRemaining (gs_disconnectStatus s)))])) else Inl (OutOfRange ''disconnect''))"
      unfolding 1(2) jat_canon by (simp add: map_add_def 1(3-) del: canon.simps)
    show "fits_int (secondsRemaining (gs_disconnectStatus s))" using s by (simp add: session_fits_def)
  qed
  have fits: "fits_int (getScore (gs_scoreObserver s) White)" "fits_int (getScore (gs_scoreObserver s) Black)"
    "fits_int (whiteElo (gs_identity s))" "fits_int (blackElo (gs_identity s))" "fits_int (spectatorCount (gs_identity s))"
    using s by (simp_all add: session_fits_def)
  have "handleSnapshot (canon j) h = Inr ([], h\<lparr>nh_state := shown s (nh_state h)\<rparr>)"
    by (simp add: handleSnapshot_def d dis m 1(3-) jvalueInt_def jvalueString_def jvalue_canon fits shown_def del: canon.simps(2))
  then show ?thesis by (simp add: onMessage_def p ty)
qed

section \<open>Sounds of captures\<close>

lemma checkPendingCaptureSounds_laws:
  assumes "checkPendingCaptureSounds h = (sounds, h')"
  shows "length sounds + length (nh_pendingCaptures h') = length (nh_pendingCaptures h)" "set sounds \<subseteq> {soundCapture}"
    "nh_state h' = nh_state h"
    "ev \<in> set (nh_pendingCaptures h') \<longleftrightarrow> ev \<in> set (nh_pendingCaptures h) \<and>
       (\<exists>p. find (\<lambda>p. sp_id p = ce_capturingPieceId ev) (pieces (ns_snapshot (nh_state h))) = Some p \<and> sp_state p = Moving \<and>
          travelProgress p < ce_impactProgress ev)"
proof -
  have h: "sounds = replicate (length (filter (captureReady (ns_snapshot (nh_state h))) (nh_pendingCaptures h))) soundCapture"
    "h' = h\<lparr>nh_pendingCaptures := filter (\<lambda>ev. \<not> captureReady (ns_snapshot (nh_state h)) ev) (nh_pendingCaptures h)\<rparr>"
    using assms by (auto simp: checkPendingCaptureSounds_def Let_def)
  show "length sounds + length (nh_pendingCaptures h') = length (nh_pendingCaptures h)"
    by (simp add: h sum_length_filter_compl)
  show "set sounds \<subseteq> {soundCapture}" "nh_state h' = nh_state h" by (auto simp: h)
  show "ev \<in> set (nh_pendingCaptures h') \<longleftrightarrow> ev \<in> set (nh_pendingCaptures h) \<and>
       (\<exists>p. find (\<lambda>p. sp_id p = ce_capturingPieceId ev) (pieces (ns_snapshot (nh_state h))) = Some p \<and> sp_state p = Moving \<and>
          travelProgress p < ce_impactProgress ev)"
    by (auto simp: h captureReady_def isCaptureSoundReady_def not_le split: option.splits)
qed

section \<open>Waiting for a reply\<close>

text \<open>The reply is the first message of the expected type; what cannot be parsed is passed over.\<close>

lemma awaitReply_first:
  assumes "awaitReply parse ty ts None = Inr r"
  shows "r = find (\<lambda>j. jvalueString ''type'' [] j = Inr ty) (List.map_filter parse ts)"
proof -
  have some: "awaitReply parse ty xs (Some v) = Inr (Some v)" for xs v by (induction xs) (simp_all add: onReplyText_def)
  show ?thesis using assms
  proof (induction ts)
    case Nil
    then show ?case by (simp add: map_filter_simps)
  next
    case (Cons t ts)
    show ?case
    proof (cases "parse t")
      case None
      then show ?thesis using Cons by (simp add: onReplyText_def map_filter_simps)
    next
      case (Some j)
      then obtain ty' where "jvalueString ''type'' [] j = Inr ty'" using Cons.prems by (auto simp: onReplyText_def sbind_Inr_iff)
      then show ?thesis using Cons Some by (cases "ty' = ty") (auto simp: onReplyText_def map_filter_simps some)
    qed
  qed
qed

section \<open>Logging in\<close>

text \<open>The names and passwords read for the attempts.\<close>

fun credentials :: "nat \<Rightarrow> string \<Rightarrow> (string \<times> string) list" where
  "credentials 0 inp = []"
| "credentials (Suc n) inp = (let (u, inp1) = readWord inp; (p, inp2) = readWord inp1 in (u, p) # credentials n inp2)"

lemma loginAttempts_result:
  assumes "loginAttempts post n inp = Inr (r, out)"
  shows "if cl_success r then \<exists>(u, p) \<in> set (credentials n inp). postLoginRequest post u p = Inr r
     else \<forall>(u, p) \<in> set (credentials n inp). \<exists>r'. postLoginRequest post u p = Inr r' \<and> \<not> cl_success r'"
  using assms
proof (induction n arbitrary: inp out)
  case (Suc n)
  obtain u inp1 where u: "readWord inp = (u, inp1)" by (cases "readWord inp")
  obtain p inp2 where p: "readWord inp1 = (p, inp2)" by (cases "readWord inp1")
  obtain r1 where r1: "postLoginRequest post u p = Inr r1" using Suc.prems by (auto simp: u p sbind_Inr_iff)
  show ?case
  proof (cases "cl_success r1")
    case True
    then show ?thesis using Suc.prems by (auto simp: u p r1)
  next
    case False
    then obtain out1 where "loginAttempts post n inp2 = Inr (r, out1)" using Suc.prems by (auto simp: u p r1 sbind_Inr_iff)
    from Suc.IH [OF this] show ?thesis using r1 False by (auto simp: u p split: if_splits)
  qed
qed auto

section \<open>The window\<close>

definition window_ok :: "window \<Rightarrow> bool" where
  "window_ok w \<longleftrightarrow> MIN_CELL_SIZE \<le> wn_cellSize w \<and> wn_cellSize w \<le> MAX_CELL_SIZE"

fun window_step :: "mouse_event \<times> int \<times> int \<Rightarrow> window \<Rightarrow> window" where
  "window_step (ev, x, y) w = snd (onMouseEvent ev x y w)"

interpretation mouse: guarded_steps window_step window_ok "\<lambda>_. True"
proof
  fix w and ev :: "mouse_event \<times> int \<times> int"
  assume ok: "window_ok w"
  obtain e x y where ev: "ev = (e, x, y)" by (cases ev) auto
  show "window_ok (window_step ev w)"
    using ok by (cases e) (auto simp: ev onMouseEvent_def onMouseClick_def window_ok_def setCellSize_def Let_def MIN_CELL_SIZE_def
        MAX_CELL_SIZE_def case_prod_beta)
qed

text \<open>While the handle is dragged no click reaches the board: the controller is left alone.\<close>

lemma drag_no_click:
  assumes "isInHandle (wn_cellSize w) (board_width (wn_snapshot w)) (board_height (wn_snapshot w)) x y"
  shows "wn_controller (fold window_step ((LButtonDown, x, y) # map (\<lambda>(a, b). (MouseMove, a, b)) moves @ [(LButtonUp, x', y')]) w) = wn_controller w"
proof -
  have m: "wn_controller (fold window_step (map (\<lambda>(a, b). (MouseMove, a, b)) moves) w1) = wn_controller w1" for w1
    by (induction moves arbitrary: w1) (auto simp: onMouseEvent_def Let_def)
  show ?thesis using assms m by (simp add: onMouseEvent_def Let_def)
qed

lemma hitTest_iff:
  "hitTest x y = PlayChoice \<longleftrightarrow> containsPoint playButtonBounds x y"
  "hitTest x y = RoomChoice \<longleftrightarrow> containsPoint roomButtonBounds x y"
  by (auto simp: hitTest_def containsPoint_def playButtonBounds_def roomButtonBounds_def)

end
