(* ===== verification/Matchmaking_Laws.thy ===== *)
theory Matchmaking_Laws
  imports Matchmaking
begin

text \<open>
  The laws of matchmaking: the pool in Redis refines a map from tickets to players, the pool in
  memory finds a match exactly when there is one, no ticket is matched twice, the allocator picks
  a least loaded shard, and the roles it announces are the seats the shard gives.
\<close>

section \<open>Redis\<close>

text \<open>
  What Redis documents of the commands the code sends, for keys that are used with one type each:
  the code uses \<open>matchpool\<close> as a sorted set only and the keys of the tickets as hashes only.
\<close>

definition redis_laws :: "'r redis \<Rightarrow> bool" where
  "redis_laws R \<longleftrightarrow>
     (\<forall>k k' m m' s r. zscore R k m (zadd R k' s m' r) = (if k = k' \<and> m = m' then Some s else zscore R k m r)) \<and>
     (\<forall>k k' m m' r. zscore R k m (zrem R k' m' r) = (if k = k' \<and> m = m' then None else zscore R k m r)) \<and>
     (\<forall>k k' m fs r. k \<noteq> k' \<longrightarrow> zscore R k m (hset R k' fs r) = zscore R k m r) \<and>
     (\<forall>k k' m r. zscore R k m (del R k' r) = (if k = k' then None else zscore R k m r)) \<and>
     (\<forall>k lo hi r. set (zrangebyscore R k lo hi r) = {m. \<exists>s. zscore R k m r = Some s \<and> lo \<le> s \<and> s \<le> hi}) \<and>
     (\<forall>k k' f s m r. k \<noteq> k' \<longrightarrow> hget R k f (zadd R k' s m r) = hget R k f r) \<and>
     (\<forall>k k' f m r. k \<noteq> k' \<longrightarrow> hget R k f (zrem R k' m r) = hget R k f r) \<and>
     (\<forall>k k' f fs r. distinct (map fst fs) \<longrightarrow> hget R k f (hset R k' fs r) =
        (if k = k' then (case map_of fs f of Some v \<Rightarrow> Some v | None \<Rightarrow> hget R k f r) else hget R k f r)) \<and>
     (\<forall>k k' f r. hget R k f (del R k' r) = (if k = k' then None else hget R k f r))"

lemma redis_lawsD:
  assumes "redis_laws R"
  shows "zscore R k m (zadd R k' s m' r) = (if k = k' \<and> m = m' then Some s else zscore R k m r)"
    "zscore R k m (zrem R k' m' r) = (if k = k' \<and> m = m' then None else zscore R k m r)"
    "k \<noteq> k' \<Longrightarrow> zscore R k m (hset R k' fs r) = zscore R k m r"
    "zscore R k m (del R k' r) = (if k = k' then None else zscore R k m r)"
    "set (zrangebyscore R k lo hi r) = {m. \<exists>s. zscore R k m r = Some s \<and> lo \<le> s \<and> s \<le> hi}"
    "k \<noteq> k' \<Longrightarrow> hget R k f (zadd R k' s m r) = hget R k f r"
    "k \<noteq> k' \<Longrightarrow> hget R k f (zrem R k' m r) = hget R k f r"
    "distinct (map fst fs) \<Longrightarrow> hget R k f (hset R k' fs r) =
        (if k = k' then (case map_of fs f of Some v \<Rightarrow> Some v | None \<Rightarrow> hget R k f r) else hget R k f r)"
    "hget R k f (del R k' r) = (if k = k' then None else hget R k f r)"
  using assms unfolding redis_laws_def by simp_all

lemma pool_keys [simp]: "kPoolKey \<noteq> ticketInfoKey t" "ticketInfoKey t \<noteq> kPoolKey" "ticketInfoKey t = ticketInfoKey t' \<longleftrightarrow> t = t'"
  by (simp_all add: kPoolKey_def ticketInfoKey_def)

lemma ticketInfoKey_c_str [simp]: "c_str (ticketInfoKey t) = ticketInfoKey (c_str t)"
  unfolding ticketInfoKey_def by (rule c_str_prefix) (simp add: nul_free_iff)

section \<open>Numbers read back\<close>

lemma isDigits_showNat: "isDigits (showNat n)"
proof (induction n rule: showNat.induct)
  case (1 n)
  have d: "CHR ''0'' \<le> char_of (48 + k) \<and> char_of (48 + k) \<le> CHR ''9''" if "k < 10" for k :: nat
    using that by (simp add: less_eq_char_def of_char_of)
  show ?case using 1 d [of n] d [of "n mod 10"] by (cases "n < 10") (auto simp: showNat.simps [of n] isDigits_def)
qed

lemma stoi_showInt [simp]: "stoi (showInt i) = Some i"
proof (cases "i < 0")
  case True
  then show ?thesis using isDigits_showNat [of "nat (- i)"] by (simp add: stoi_def showInt_def)
next
  case False
  obtain c cs where c: "showNat (nat i) = c # cs" using isDigits_showNat [of "nat i"] by (cases "showNat (nat i)") (auto simp: isDigits_def)
  have "c \<noteq> CHR ''-''" using isDigits_showNat [of "nat i"] by (auto simp: c isDigits_def less_eq_char_def)
  then show ?thesis
    using False isDigits_showNat [of "nat i"] readNat_showNat [of "nat i"] by (simp add: stoi_def showInt_def c)
qed

section \<open>The pool as a map\<close>

definition pool_ok :: "'r redis \<Rightarrow> 'r \<Rightarrow> bool" where
  "pool_ok R r \<longleftrightarrow> (\<forall>t e. zscore R kPoolKey t r = Some e \<longrightarrow>
     hget R (ticketInfoKey t) ''username'' r \<noteq> None \<and> hget R (ticketInfoKey t) ''elo'' r = Some (showInt e))"

text \<open>Who waits: the name and the rating behind each ticket in the pool.\<close>

definition waiting :: "'r redis \<Rightarrow> 'r \<Rightarrow> (string \<rightharpoonup> string \<times> int)" where
  "waiting R r t = (case zscore R kPoolKey t r of None \<Rightarrow> None
     | Some e \<Rightarrow> map_option (\<lambda>u. (u, e)) (hget R (ticketInfoKey t) ''username'' r))"

lemma dom_waiting: "pool_ok R r \<Longrightarrow> c_str t \<in> dom (waiting R r) \<longleftrightarrow> poolIsWaiting R t r"
  by (auto simp: waiting_def pool_ok_def poolIsWaiting_def split: option.splits)

lemma poolAdd_refines:
  assumes "redis_laws R" "pool_ok R r"
  shows "pool_ok R (poolAdd R t u e r)" "waiting R (poolAdd R t u e r) = (waiting R r)(c_str t \<mapsto> (c_str u, e))"
  using assms(2) by (auto simp: pool_ok_def poolAdd_def waiting_def redis_lawsD [OF assms(1)] fun_eq_iff split: option.split)

lemma poolRemove_refines:
  assumes "redis_laws R" "pool_ok R r"
  shows "pool_ok R (poolRemove R t r)" "waiting R (poolRemove R t r) = (waiting R r)(c_str t := None)"
  using assms(2) by (auto simp: pool_ok_def poolRemove_def waiting_def redis_lawsD [OF assms(1)] fun_eq_iff split: option.split)

text \<open>A ticket found in the pool went through a command, so the script removes it as \<open>poolRemove\<close> does.\<close>

lemma findAndRemove_refines:
  assumes "redis_laws R" "pool_ok R r"
  shows "pool_ok R (del R (ticketInfoKey t) (zrem R kPoolKey t r))"
    "waiting R (del R (ticketInfoKey t) (zrem R kPoolKey t r)) = (waiting R r)(t := None)"
  using assms(2) by (auto simp: pool_ok_def waiting_def redis_lawsD [OF assms(1)] fun_eq_iff split: option.split)

lemma poolFindMatch_refines:
  assumes R: "redis_laws R" and ok: "pool_ok R r"
  obtains (none) "poolFindMatch R elo d r = ((None, r), None)" "\<And>t u e. waiting R r t = Some (u, e) \<Longrightarrow> \<not> \<bar>e - elo\<bar> \<le> d"
  | (found) c r' where "poolFindMatch R elo d r = ((Some c, r'), None)" "waiting R r (mc_ticketId c) = Some (mc_username c, mc_elo c)"
      "\<bar>mc_elo c - elo\<bar> \<le> d" "pool_ok R r'" "waiting R r' = (waiting R r)(mc_ticketId c := None)"
proof (cases "zrangebyscore R kPoolKey (elo - d) (elo + d) r")
  case Nil
  have "\<not> \<bar>e - elo\<bar> \<le> d" if w: "waiting R r t = Some (u, e)" for t u e
  proof
    assume a: "\<bar>e - elo\<bar> \<le> d"
    have "zscore R kPoolKey t r = Some e" using w by (auto simp: waiting_def split: option.splits)
    then have "t \<in> set (zrangebyscore R kPoolKey (elo - d) (elo + d) r)" using a by (auto simp: redis_lawsD(5) [OF R])
    then show False using Nil by simp
  qed
  then show ?thesis using none Nil by (simp add: poolFindMatch_def findAndRemove_def)
next
  case (Cons t ts)
  then have "t \<in> set (zrangebyscore R kPoolKey (elo - d) (elo + d) r)" by simp
  then obtain e where e: "zscore R kPoolKey t r = Some e" "elo - d \<le> e" "e \<le> elo + d"
    by (auto simp: redis_lawsD(5) [OF R])
  then obtain u where u: "hget R (ticketInfoKey t) ''username'' r = Some u" "hget R (ticketInfoKey t) ''elo'' r = Some (showInt e)"
    using ok by (auto simp: pool_ok_def)
  let ?r = "del R (ticketInfoKey t) (zrem R kPoolKey t r)"
  show ?thesis
  proof (rule found [of "\<lparr>mc_ticketId = t, mc_username = u, mc_elo = e\<rparr>" ?r])
    show "poolFindMatch R elo d r = ((Some \<lparr>mc_ticketId = t, mc_username = u, mc_elo = e\<rparr>, ?r), None)"
      using u by (simp add: poolFindMatch_def findAndRemove_def Cons Let_def redis_lawsD(7) [OF R])
    show "waiting R r (mc_ticketId \<lparr>mc_ticketId = t, mc_username = u, mc_elo = e\<rparr>) =
        Some (mc_username \<lparr>mc_ticketId = t, mc_username = u, mc_elo = e\<rparr>, mc_elo \<lparr>mc_ticketId = t, mc_username = u, mc_elo = e\<rparr>)"
      using e(1) u(1) by (simp add: waiting_def)
  qed (use e(2,3) findAndRemove_refines [OF R ok, of t] in simp_all)
qed

section \<open>The pool in memory\<close>

lemma findMatch_iff:
  assumes "distinct (map fst p)"
  shows "findMatch elo p = Some t \<Longrightarrow> \<exists>e. map_of p t = Some e \<and> \<bar>e - elo\<bar> \<le> 100"
    and "findMatch elo p = None \<longleftrightarrow> (\<forall>t e. map_of p t = Some e \<longrightarrow> 100 < \<bar>e - elo\<bar>)"
proof -
  let ?s = "sort_key fst p"
  show "\<exists>e. map_of p t = Some e \<and> \<bar>e - elo\<bar> \<le> 100" if f: "findMatch elo p = Some t"
  proof -
    obtain e where e: "find (\<lambda>(t, w). \<bar>w - elo\<bar> \<le> kEloRange) ?s = Some (t, e)" using f by (auto simp: findMatch_def)
    then have "(t, e) \<in> set p" "\<bar>e - elo\<bar> \<le> 100"
      using find_SomeD [OF e] by (simp_all add: kEloRange_def)
    then show ?thesis using assms by (intro exI [of _ e]) (simp add: map_of_is_SomeI)
  qed
  show "findMatch elo p = None \<longleftrightarrow> (\<forall>t e. map_of p t = Some e \<longrightarrow> 100 < \<bar>e - elo\<bar>)"
  proof -
    have "findMatch elo p = None \<longleftrightarrow> (\<forall>x \<in> set p. \<not> \<bar>snd x - elo\<bar> \<le> 100)"
      unfolding findMatch_def option.map_disc_iff find_None_iff set_sort by (auto simp: kEloRange_def case_prod_beta)
    also have "\<dots> \<longleftrightarrow> (\<forall>t e. (t, e) \<in> set p \<longrightarrow> 100 < \<bar>e - elo\<bar>)" by (auto simp: not_le)
    finally show ?thesis by (simp only: map_of_eq_Some_iff [OF assms])
  qed
qed

section \<open>A matchmaker at work\<close>

datatype mm_event =
  MatchRequest json
| MatchCancel json
| PairAssigned json
| SearchTimeout string
| AssignmentTimeout string string

text \<open>A callback that throws leaves what it did before; a throwing cancel or assignment has done nothing.\<close>

fun mm_step :: "'r redis \<Rightarrow> mm_event \<Rightarrow> 'r matchmaker \<Rightarrow> action list \<times> 'r matchmaker" where
  "mm_step R (MatchRequest j) mm = fst (onMatchRequest R j mm)"
| "mm_step R (MatchCancel j) mm = ([], case onMatchCancel R j mm of Inl _ \<Rightarrow> mm | Inr mm' \<Rightarrow> mm')"
| "mm_step R (PairAssigned j) mm = ([], case onPairAssigned j mm of Inl _ \<Rightarrow> mm | Inr mm' \<Rightarrow> mm')"
| "mm_step R (SearchTimeout t) mm = onSearchTimeout R t mm"
| "mm_step R (AssignmentTimeout a b) mm = onAssignmentTimeout a b mm"

fun mm_run :: "'r redis \<Rightarrow> mm_event list \<Rightarrow> 'r matchmaker \<Rightarrow> action list \<times> 'r matchmaker" where
  "mm_run R [] mm = ([], mm)"
| "mm_run R (ev # evs) mm = (let (o1, mm1) = mm_step R ev mm; (o2, mm2) = mm_run R evs mm1 in (o1 @ o2, mm2))"

fun matchesIn :: "action list \<Rightarrow> json list" where
  "matchesIn [] = []"
| "matchesIn (NatsPublish s j # as) = (if s = ''matchmaking.matched'' then [j] else []) @ matchesIn as"
| "matchesIn (_ # as) = matchesIn as"

definition ticketsIn :: "json \<Rightarrow> string list" where
  "ticketsIn j = (case (jstring ''ticketA'' j, jstring ''ticketB'' j) of (Inr a, Inr b) \<Rightarrow> [a, b] | _ \<Rightarrow> [])"

definition matchedTickets :: "action list \<Rightarrow> string list" where
  "matchedTickets as = concat (map ticketsIn (matchesIn as))"

fun requestedTickets :: "mm_event list \<Rightarrow> string list" where
  "requestedTickets [] = []"
| "requestedTickets (MatchRequest j # evs) = (case requestFields j of Inl _ \<Rightarrow> [] | Inr (t, _, _) \<Rightarrow> [t]) @ requestedTickets evs"
| "requestedTickets (_ # evs) = requestedTickets evs"

lemma matchesIn_append [simp]: "matchesIn (as @ bs) = matchesIn as @ matchesIn bs"
  by (induction as rule: matchesIn.induct) simp_all

lemma matchedTickets_append [simp]: "matchedTickets (as @ bs) = matchedTickets as @ matchedTickets bs"
  by (simp add: matchedTickets_def)

lemma matchedTickets_Nil [simp]: "matchedTickets [] = []"
  by (simp add: matchedTickets_def)

lemma ticketsIn_matchedEvent [simp]: "ticketsIn (matchedEvent c t u e) = [mc_ticketId c, t]"
  by (simp add: ticketsIn_def matchedEvent_def jstring_def jat_def getString_def)

lemma giveUp_frame:
  assumes "giveUp t (out, mm) = (out', mm')"
  shows "matchesIn out' = matchesIn out \<and> mm_redis mm' = mm_redis mm"
  using assms by (auto simp: giveUp_def split: if_splits)

lemma onAssignmentTimeout_frame:
  "matchesIn (fst (onAssignmentTimeout a b mm)) = [] \<and> mm_redis (snd (onAssignmentTimeout a b mm)) = mm_redis mm"
  by (auto simp: onAssignmentTimeout_def giveUp_def)

text \<open>The pair of tickets that a request makes with what the pool holds: the one that waited and the new one.\<close>

definition pairedBy :: "'r redis \<Rightarrow> json \<Rightarrow> 'r \<Rightarrow> (string \<times> string) list" where
  "pairedBy R request r =
     (case requestFields request of
        Inl ex \<Rightarrow> []
      | Inr (t, u, e) \<Rightarrow> (case poolFindMatch R e kEloRange r of ((Some c, r1), None) \<Rightarrow> [(mc_ticketId c, t)] | _ \<Rightarrow> []))"

text \<open>What one callback does to the pool, and the match it may announce.\<close>

lemma mm_step_cases:
  assumes R: "redis_laws R" and ok: "pool_ok R (mm_redis mm)" and s: "mm_step R ev mm = (out, mm')"
  obtains (quiet) "matchesIn out = []" "pool_ok R (mm_redis mm')" "waiting R (mm_redis mm') \<subseteq>\<^sub>m waiting R (mm_redis mm)"
  | (wait) j t u e where "ev = MatchRequest j" "requestFields j = Inr (t, u, e)" "matchesIn out = []" "pool_ok R (mm_redis mm')"
      "waiting R (mm_redis mm') = (waiting R (mm_redis mm))(c_str t \<mapsto> (c_str u, e))"
  | (match) j t u e c where "ev = MatchRequest j" "requestFields j = Inr (t, u, e)" "matchesIn out = [matchedEvent c t u e]"
      "waiting R (mm_redis mm) (mc_ticketId c) = Some (mc_username c, mc_elo c)" "\<bar>mc_elo c - e\<bar> \<le> 100"
      "pool_ok R (mm_redis mm')" "waiting R (mm_redis mm') = (waiting R (mm_redis mm))(mc_ticketId c := None)"
      "pairedBy R j (mm_redis mm) = [(mc_ticketId c, t)]"
proof (cases ev)
  case (MatchRequest j)
  show thesis
  proof (cases "requestFields j")
    case (Inl ex)
    then show thesis using quiet s ok MatchRequest by (auto simp: onMatchRequest_def)
  next
    case (Inr q)
    obtain t u e where q: "q = (t, u, e)" by (cases q)
    from R ok show thesis
    proof (cases rule: poolFindMatch_refines [where elo = e and d = kEloRange])
      case none
      then show thesis
        using wait [OF MatchRequest Inr [unfolded q]] s MatchRequest poolAdd_refines [OF R ok, of t u e] Inr
        by (auto simp: onMatchRequest_def q waitForMatch_def)
    next
      case (found c r')
      then show thesis
        using match [OF MatchRequest Inr [unfolded q], of c] s MatchRequest Inr
        by (auto simp: onMatchRequest_def q watchForAssignment_def kEloRange_def pairedBy_def)
    qed
  qed
next
  case (MatchCancel j)
  then show thesis using quiet s ok poolRemove_refines [OF R ok]
    by (auto simp: onMatchCancel_def map_le_def sbind_Inr_iff split: sum.splits)
next
  case (PairAssigned j)
  then show thesis using quiet s ok by (auto simp: onPairAssigned_def sbind_Inr_iff split: sum.splits)
next
  case (SearchTimeout t)
  then show thesis using quiet s ok poolRemove_refines [OF R ok, of t]
    by (auto simp: onSearchTimeout_def Let_def map_le_def split: if_splits)
next
  case (AssignmentTimeout a b)
  then show thesis using quiet s ok onAssignmentTimeout_frame [of a b mm] by simp
qed

text \<open>No ticket is in two announced pairs. Below \<open>W\<close> stands for the tickets in the pool, \<open>A\<close> for those of the
  requests still to come and \<open>M\<close> for those matched later.\<close>

lemma ticket_sets:
  fixes A B M W :: "'a set"
  assumes "A \<inter> W = {}" "B \<subseteq> A"
  shows "t \<notin> B \<Longrightarrow> B \<inter> insert t W = {}" "M \<subseteq> insert t W \<union> B \<Longrightarrow> t \<in> A \<Longrightarrow> M \<subseteq> W \<union> A"
    "B \<inter> (W - {c}) = {}" "t \<in> A \<Longrightarrow> t \<notin> W" "c \<in> W \<Longrightarrow> c \<notin> B"
    "M \<subseteq> W - {c} \<union> B \<Longrightarrow> t \<in> A \<Longrightarrow> t \<notin> B \<Longrightarrow> c \<in> W \<Longrightarrow>
      c \<notin> M \<and> t \<notin> M \<and> c \<noteq> t \<and> insert c (insert t M) \<subseteq> W \<union> A"
  using assms by blast+

lemma mm_run_matched:
  assumes "redis_laws R" "pool_ok R (mm_redis mm)" "mm_run R evs mm = (out, mm')"
    "distinct (requestedTickets evs)" "set (requestedTickets evs) \<inter> dom (waiting R (mm_redis mm)) = {}"
    "list_all nul_free (requestedTickets evs)"
  shows "distinct (matchedTickets out)"
    "set (matchedTickets out) \<subseteq> dom (waiting R (mm_redis mm)) \<union> set (requestedTickets evs)"
  using assms(2-)
proof (induction evs arbitrary: mm out mm')
  case Nil
  { case 1 then show ?case by simp }
  { case 2 then show ?case by simp }
next
  case (Cons ev evs)
  have *: "distinct (matchedTickets out) \<and> set (matchedTickets out) \<subseteq> dom (waiting R (mm_redis mm)) \<union> set (requestedTickets (ev # evs))"
    if ok: "pool_ok R (mm_redis mm)" and run: "mm_run R (ev # evs) mm = (out, mm')" and d: "distinct (requestedTickets (ev # evs))"
      and dis: "set (requestedTickets (ev # evs)) \<inter> dom (waiting R (mm_redis mm)) = {}"
      and nul: "list_all nul_free (requestedTickets (ev # evs))" for mm out mm'
  proof -
    obtain o1 mm1 where s: "mm_step R ev mm = (o1, mm1)" by (cases "mm_step R ev mm")
    obtain o2 mm2 where s2: "mm_run R evs mm1 = (o2, mm2)" by (cases "mm_run R evs mm1")
    have out: "matchedTickets out = concat (map ticketsIn (matchesIn o1)) @ matchedTickets o2"
      using run s s2 by (auto simp: matchedTickets_def)
    have sub: "set (requestedTickets evs) \<subseteq> set (requestedTickets (ev # evs))" and d': "distinct (requestedTickets evs)"
      and nul': "list_all nul_free (requestedTickets evs)" using d nul by (cases ev; auto)+
    note IH = Cons.IH [OF _ s2 d' _ nul']
    from assms(1) ok s show ?thesis
    proof (cases rule: mm_step_cases)
      case quiet
      have W: "dom (waiting R (mm_redis mm1)) \<subseteq> dom (waiting R (mm_redis mm))" using map_le_implies_dom_le [OF quiet(3)] .
      then have 0: "set (requestedTickets evs) \<inter> dom (waiting R (mm_redis mm1)) = {}" using sub dis by blast
      have o: "matchedTickets out = matchedTickets o2" using out quiet(1) by simp
      show ?thesis unfolding o using IH(1) [OF quiet(2) 0] order_trans [OF IH(2) [OF quiet(2) 0] Un_mono [OF W sub]] ..
    next
      case (wait j t u e)
      then have t: "t \<notin> set (requestedTickets evs)" "t \<in> set (requestedTickets (ev # evs))" using d by auto
      have "nul_free t" using t(2) nul by (simp only: list_all_iff)
      then have W: "dom (waiting R (mm_redis mm1)) = insert t (dom (waiting R (mm_redis mm)))" using wait(5) by (simp add: nul_free_def)
      have 0: "set (requestedTickets evs) \<inter> dom (waiting R (mm_redis mm1)) = {}"
        unfolding W by (rule ticket_sets(1) [OF dis sub t(1)])
      have o: "matchedTickets out = matchedTickets o2" using out wait(3) by simp
      show ?thesis unfolding o
        using IH(1) [OF wait(4) 0] ticket_sets(2) [OF dis sub IH(2) [OF wait(4) 0, unfolded W] t(2)] ..
    next
      case (match j t u e c)
      have t: "t \<notin> set (requestedTickets evs)" "t \<in> set (requestedTickets (ev # evs))" using d match(1,2) by auto
      have c: "mc_ticketId c \<in> dom (waiting R (mm_redis mm))" using match(4) by auto
      have W: "dom (waiting R (mm_redis mm1)) = dom (waiting R (mm_redis mm)) - {mc_ticketId c}" using match(7) by auto
      have 0: "set (requestedTickets evs) \<inter> dom (waiting R (mm_redis mm1)) = {}" unfolding W by (rule ticket_sets(3) [OF dis sub])
      have o: "matchedTickets out = mc_ticketId c # t # matchedTickets o2" using out match(3) by simp
      show ?thesis unfolding o using IH(1) [OF match(6) 0] ticket_sets(6) [OF dis sub IH(2) [OF match(6) 0, unfolded W] t(2,1) c]
        unfolding list.set distinct.simps by blast
    qed
  qed
  { case 1 then show ?case using * by blast }
  { case 2 then show ?case using * by blast }
qed

lemma mm_run_matches_close:
  assumes "redis_laws R" "pool_ok R (mm_redis mm)" "mm_run R evs mm = (out, mm')"
  shows "pool_ok R (mm_redis mm')" "j \<in> set (matchesIn out) \<Longrightarrow> \<exists>c t u e. j = matchedEvent c t u e \<and> \<bar>mc_elo c - e\<bar> \<le> 100"
  using assms(2-)
proof (induction evs arbitrary: mm out mm')
  case Nil
  { case 1 then show ?case by simp }
  { case 2 then show ?case by simp }
next
  case (Cons ev evs)
  { case 1
    obtain o1 mm1 where s: "mm_step R ev mm = (o1, mm1)" by (cases "mm_step R ev mm")
    have "pool_ok R (mm_redis mm1)" using mm_step_cases [OF assms(1) 1(1) s] by metis
    then show ?case using Cons.IH(1) 1(2) s by (auto split: prod.splits) }
  { case 2
    obtain o1 mm1 where s: "mm_step R ev mm = (o1, mm1)" by (cases "mm_step R ev mm")
    obtain o2 mm2 where s2: "mm_run R evs mm1 = (o2, mm2)" by (cases "mm_run R evs mm1")
    have "j \<in> set (matchesIn o1) \<or> j \<in> set (matchesIn o2)" using 2(1,3) s s2 by auto
    from assms(1) 2(2) s show ?case
    proof (cases rule: mm_step_cases)
      case quiet
      then show ?thesis using \<open>j \<in> _ \<or> _\<close> Cons.IH(2) [OF _ quiet(2) s2] by auto
    next
      case (wait j t u e)
      then show ?thesis using \<open>_ \<in> _ \<or> _\<close> Cons.IH(2) [OF _ wait(4) s2] by auto
    next
      case (match j t u e c)
      then show ?thesis using \<open>_ \<in> _ \<or> _\<close> Cons.IH(2) [OF _ match(6) s2] by auto
    qed }
qed

section \<open>The allocator\<close>

lemma fold_lessLoaded:
  "fold lessLoaded xs (s, n) = (s, n) \<and> (\<forall>(s', k) \<in> set xs. n \<le> k) \<or>
   fold lessLoaded xs (s, n) \<in> set xs \<and> snd (fold lessLoaded xs (s, n)) < n \<and>
     (\<forall>(s', k) \<in> set xs. snd (fold lessLoaded xs (s, n)) \<le> k)"
proof (induction xs arbitrary: s n)
  case (Cons x xs)
  obtain s' k where x: "x = (s', k)" by (cases x)
  show ?case
  proof (cases "k < n")
    case True
    then show ?thesis using Cons.IH [of s' k] by (auto simp: x lessLoaded_def split: prod.splits)
  next
    case False
    then show ?thesis using Cons.IH [of s n] by (auto simp: x lessLoaded_def split: prod.splits)
  qed
qed simp

lemma pickLeastLoadedShard_laws:
  assumes "iteration_order ord" "distinct (map fst (al_shardLoad al))" "map_of (al_shardLoad al) [] = None"
    "\<And>s k. map_of (al_shardLoad al) s = Some k \<Longrightarrow> k < LLONG_MAX"
  shows "al_shardLoad al \<noteq> [] \<Longrightarrow> \<exists>k. map_of (al_shardLoad al) (pickLeastLoadedShard ord al) = Some k \<and>
      (\<forall>s' k'. map_of (al_shardLoad al) s' = Some k' \<longrightarrow> k \<le> k')"
    and "pickLeastLoadedShard ord al = [] \<longleftrightarrow> al_shardLoad al = []"
proof -
  let ?xs = "iter ord (al_shardLoad al)" and ?p = "fold lessLoaded (iter ord (al_shardLoad al)) ([], LLONG_MAX)"
  have s: "(a, k) \<in> set ?xs \<longleftrightarrow> map_of (al_shardLoad al) a = Some k" for a k
    using assms(1,2) by (simp add: set_iter)
  have ne: "?p \<in> set ?xs \<and> (\<forall>(s', k) \<in> set ?xs. snd ?p \<le> k)" if "al_shardLoad al \<noteq> []"
  proof -
    have "set ?xs \<noteq> {}" using that by (simp add: set_iter [OF assms(1)])
    then obtain a k where "(a, k) \<in> set ?xs" by (metis ex_in_conv prod.exhaust)
    then have "\<not> (\<forall>(s', k) \<in> set ?xs. LLONG_MAX \<le> k)" using s assms(4) by fastforce
    then show ?thesis using fold_lessLoaded [of ?xs "[]" LLONG_MAX] by blast
  qed
  have e: "?p = (pickLeastLoadedShard ord al, snd ?p)" by (simp add: pickLeastLoadedShard_def)
  show least: "\<exists>k. map_of (al_shardLoad al) (pickLeastLoadedShard ord al) = Some k \<and>
      (\<forall>s' k'. map_of (al_shardLoad al) s' = Some k' \<longrightarrow> k \<le> k')" if "al_shardLoad al \<noteq> []"
    using ne [OF that] e s by (intro exI [of _ "snd ?p"]) (metis (mono_tags, lifting) case_prodD)
  show "pickLeastLoadedShard ord al = [] \<longleftrightarrow> al_shardLoad al = []"
  proof
    assume "pickLeastLoadedShard ord al = []"
    then show "al_shardLoad al = []" using least assms(3) by (cases "al_shardLoad al = []") auto
  next
    assume "al_shardLoad al = []"
    then show "pickLeastLoadedShard ord al = []" using set_iter [OF assms(1), of "al_shardLoad al"] by (simp add: pickLeastLoadedShard_def)
  qed
qed

text \<open>
  The request the allocator sends for a matched pair, and the shard that answers it. The colours
  the event announces are the seats the two names get in the room, whoever comes first.
\<close>

definition allocateRequest :: "string \<Rightarrow> string \<Rightarrow> string \<Rightarrow> json" where
  "allocateRequest name white black =
     JObj [(''roomName'', JStr name), (''whiteUsername'', JStr white), (''blackUsername'', JStr black)]"

definition holds_seats :: "string \<Rightarrow> string \<Rightarrow> string \<Rightarrow> registry \<Rightarrow> bool" where
  "holds_seats name white black reg \<longleftrightarrow> registry_ok reg \<and> (\<exists>r. map_of (reg_rooms reg) name = Some r \<and>
     map_of (r_seatReservations r) white = Some White \<and> map_of (r_seatReservations r) black = Some Black)"

lemma holds_seats_reserve:
  assumes "registry_ok reg" "roomExists name reg" "white \<noteq> black"
  shows "holds_seats name white black (reserveSeats name white black reg)"
  using assms reserveSeats_ok [OF assms(1)]
  by (auto simp: holds_seats_def reserveSeats_def withRoom_def roomExists_def map_of_map_entry)

lemma holds_seats_join:
  assumes "holds_seats name white black reg"
  shows "holds_seats name white black (snd (joinRoom name h u reg))"
    "white \<noteq> [] \<Longrightarrow> roleOf h (snd (joinRoom name h white reg)) = White"
    "black \<noteq> [] \<Longrightarrow> roleOf h (snd (joinRoom name h black reg)) = Black"
    "h' \<noteq> h \<Longrightarrow> roleOf h' (snd (joinRoom name h u reg)) = roleOf h' reg"
proof -
  obtain r where r: "registry_ok reg" "map_of (reg_rooms reg) name = Some r" "map_of (r_seatReservations r) white = Some White"
      "map_of (r_seatReservations r) black = Some Black"
    using assms by (auto simp: holds_seats_def)
  show "holds_seats name white black (snd (joinRoom name h u reg))"
    using joinRoom_ok [OF r(1), of name h u] r(2-) by (auto simp: holds_seats_def joinRoom_def Let_def)
  show "white \<noteq> [] \<Longrightarrow> roleOf h (snd (joinRoom name h white reg)) = White"
    "black \<noteq> [] \<Longrightarrow> roleOf h (snd (joinRoom name h black reg)) = Black"
    "h' \<noteq> h \<Longrightarrow> roleOf h' (snd (joinRoom name h u reg)) = roleOf h' reg"
    using joinRoom_seat(2) [OF r(1,2)] r(3,4) by simp_all
qed

lemma doAllocate_holds:
  assumes "server_ok sv" "doAllocate (allocateRequest name white black) sv = Inr (reply, acts, sv')"
    "replySuccess reply = Inr True" "white \<noteq> []" "black \<noteq> []" "white \<noteq> black"
  shows "holds_seats name white black (sv_registry sv')"
  using assms(2)
proof (cases rule: doAllocate_cases)
  case (taken n b i rest)
  then show ?thesis using assms(3) by (simp add: replySuccess_def failure_def jvalue_def getBool_def)
next
  case (allocated n w k b i rest fx reg1 reg2 hb)
  have f: "n = name" "w = white" "k = black"
    using allocated(1-3) by (simp_all add: allocateRequest_def jstring_def jat_def getString_def jvalueString_def jvalue_def)
  have i: "registry_ok (sv_registry sv)" "0 < sv_idCounter sv" using assms(1) by (simp_all add: server_ok_def)
  note m = makeStartingBoard_ok [OF allocated(4) i(2)]
  have "registry_ok reg1" using createRoom_ok [OF i(1) m(1) m(3), of n True] allocated(5) by simp
  then have "registry_ok reg2" using attachRoom_ok [of reg1 n "sv_hub sv"] allocated(6) by simp
  moreover have "roomExists name reg2"
    using allocated(5,6) f(1) by (auto simp: createRoom_def attachRoom_def roomExists_def withSession_def withRoom_def
      map_of_map_entry split: if_splits)
  ultimately show ?thesis using holds_seats_reserve [OF _ _ assms(6)] assms(4,5) allocated(9) f by simp
qed

lemma onMatched_announces:
  assumes "onMatched R rpc ord (matchedEvent c t u e) (al, r) = ((out, al', r'), ex)" "out \<noteq> []"
  obtains name reply j where "out = [NatsPublish ''matchmaking.assigned'' j]"
    "rpc (allocateSubject (pickLeastLoadedShard ord al)) (allocateRequest name (mc_username c) u) = Some reply"
    "replySuccess reply = Inr True" "pickLeastLoadedShard ord al \<noteq> []"
    "j = JObj [(''ticketA'', JStr (mc_ticketId c)), (''roleA'', JStr ''White''), (''ticketB'', JStr t), (''roleB'', JStr ''Black''),
       (''roomName'', JStr name), (''shard'', JStr (pickLeastLoadedShard ord al)), (''whiteName'', JStr (mc_username c)),
       (''whiteElo'', JInt (mc_elo c)), (''blackName'', JStr u), (''blackElo'', JInt e)]"
proof -
  obtain k r1 where k: "incr R ''matchmaking:nextRoomId'' r = (k, r1)" by (cases "incr R ''matchmaking:nextRoomId'' r")
  have ev: "jstring ''usernameA'' (matchedEvent c t u e) = Inr (mc_username c)" "jstring ''usernameB'' (matchedEvent c t u e) = Inr u"
    "assignedEvent (matchedEvent c t u e) n s w b =
       Inr (JObj [(''ticketA'', JStr (mc_ticketId c)), (''roleA'', JStr ''White''), (''ticketB'', JStr t), (''roleB'', JStr ''Black''),
       (''roomName'', JStr n), (''shard'', JStr s), (''whiteName'', JStr w),
       (''whiteElo'', JInt (mc_elo c)), (''blackName'', JStr b), (''blackElo'', JInt e)])" for n s w b
    by (simp_all add: matchedEvent_def jstring_def jat_def getString_def assignedEvent_def)
  show thesis
    using assms that [of _ "''match-'' @ showInt k"]
    by (auto simp: onMatched_def Let_def k ev allocateRequest_def [symmetric] split: if_splits option.splits sum.splits bool.splits)
qed

end
