(* ===== verification/Sprites.thy ===== *)
theory Sprites
  imports Client_Laws Matchmaking_Laws
begin

text \<open>
  Where the pictures of the pieces come from (\<open>client/view/assets/\<close>): the folders of
  \<open>AssetPathBuilder.cpp\<close>, the frame of an animation (\<open>AnimationFrameSelector.cpp\<close>) and the two caches
  (\<open>CachingImageLoader.cpp\<close>, \<open>SpriteRepository.cpp\<close>). The files themselves are a parameter: what
  loading an image or a configuration gives. The lemmas: a frame index is always one of the frames,
  and the caches change nothing but how often a file is read.
\<close>

section \<open>Paths\<close>

datatype asset_error =
    NoSpriteFolderForKind | NoSpriteFolderForState | CannotLoad string | ImageNotLoaded | ImageDoesNotFit
  | CannotOpen string | MissingKey string | UnknownState string | BadNumber string | OutsideText | OutsideImage

definition pieceFolder :: "kind \<Rightarrow> color \<Rightarrow> asset_error + string" where
  "pieceFolder k c =
     sbind (case k of King \<Rightarrow> Inr CHR ''K'' | Queen \<Rightarrow> Inr CHR ''Q'' | Rook \<Rightarrow> Inr CHR ''R'' | Bishop \<Rightarrow> Inr CHR ''B''
              | Knight \<Rightarrow> Inr CHR ''N'' | Pawn \<Rightarrow> Inr CHR ''P'' | NoKind \<Rightarrow> Inl NoSpriteFolderForKind) (\<lambda>kindChar.
     Inr [if c = White then CHR ''w'' else CHR ''b'', kindChar])"

definition stateDir :: "string \<Rightarrow> kind \<Rightarrow> color \<Rightarrow> state \<Rightarrow> asset_error + string" where
  "stateDir assetsRoot k c s =
     sbind (pieceFolder k c) (\<lambda>folder.
     case stateToFolderName s of
       Inl _ \<Rightarrow> Inl NoSpriteFolderForState
     | Inr n \<Rightarrow> Inr (assetsRoot @ ''/'' @ folder @ ''/states/'' @ n))"

definition configPath :: "string \<Rightarrow> kind \<Rightarrow> color \<Rightarrow> state \<Rightarrow> asset_error + string" where
  "configPath assetsRoot k c s = sbind (stateDir assetsRoot k c s) (\<lambda>d. Inr (d @ ''/config.json''))"

definition spritePath :: "string \<Rightarrow> kind \<Rightarrow> color \<Rightarrow> state \<Rightarrow> int \<Rightarrow> asset_error + string" where
  "spritePath assetsRoot k c s frameIndex =
     sbind (stateDir assetsRoot k c s) (\<lambda>d. Inr (d @ ''/sprites/'' @ showInt (frameIndex + 1) @ ''.png''))"

section \<open>Frames\<close>

definition selectAnimationFrame :: "int \<Rightarrow> int \<Rightarrow> bool \<Rightarrow> int \<Rightarrow> int" where
  "selectAnimationFrame elapsedMs framesPerSec isLoop frameCount =
     (if frameCount \<le> 0 \<or> framesPerSec \<le> 0 then 0
      else let rawIndex = (elapsedMs * framesPerSec) sdiv 1000;
               index = (if isLoop then rawIndex smod frameCount else min rawIndex (frameCount - 1))
           in if index < 0 then (index smod frameCount + frameCount) smod frameCount else index)"

section \<open>Caches\<close>

record image =
  im_path :: string
  im_width :: int
  im_height :: int

record animation_config =
  speed_m_per_sec :: rat
  next_state_when_finished :: state
  frames_per_sec :: int
  frame_count :: int
  is_loop :: bool

text \<open>The files: what \<open>loadAnimationConfig\<close> and the wrapped \<open>IImageLoader\<close> give.\<close>

record assets =
  as_root :: string
  as_config :: "string \<Rightarrow> asset_error + animation_config"
  as_image :: "string \<Rightarrow> int \<times> int \<Rightarrow> asset_error + image"

record sprite_caches =
  sc_configCache :: "(kind \<times> color \<times> state, animation_config) umap"
  sc_images :: "(string, image) umap"

definition imageKey :: "string \<Rightarrow> int \<times> int \<Rightarrow> string" where
  "imageKey location targetSize = location @ ''@'' @ showInt (fst targetSize) @ ''x'' @ showInt (snd targetSize)"

text \<open>The result, the requests that reached the wrapped loader, and the cache.\<close>

definition cachingLoad ::
  "assets \<Rightarrow> string \<Rightarrow> int \<times> int \<Rightarrow> (string, image) umap \<Rightarrow> (asset_error + image) \<times> (string \<times> int \<times> int) list \<times> (string, image) umap" where
  "cachingLoad as location targetSize cache =
     (let key = imageKey location targetSize
      in case map_of cache key of
           Some im \<Rightarrow> (Inr im, [], cache)
         | None \<Rightarrow>
             (case as_image as location targetSize of
                Inl ex \<Rightarrow> (Inl ex, [(location, targetSize)], cache)
              | Inr im \<Rightarrow> (Inr im, [(location, targetSize)], AList.update key im cache)))"

definition getConfig :: "assets \<Rightarrow> kind \<times> color \<times> state \<Rightarrow> sprite_caches \<Rightarrow> (asset_error + animation_config) \<times> sprite_caches" where
  "getConfig as key sc =
     (case map_of (sc_configCache sc) key of
        Some config \<Rightarrow> (Inr config, sc)
      | None \<Rightarrow>
          (case sbind (case key of (k, c, s) \<Rightarrow> configPath (as_root as) k c s) (as_config as) of
             Inl ex \<Rightarrow> (Inl ex, sc)
           | Inr config \<Rightarrow> (Inr config, sc\<lparr>sc_configCache := AList.update key config (sc_configCache sc)\<rparr>)))"

definition getSprite ::
  "assets \<Rightarrow> int \<Rightarrow> kind \<Rightarrow> color \<Rightarrow> state \<Rightarrow> int \<Rightarrow> sprite_caches \<Rightarrow>
     (asset_error + image) \<times> (string \<times> int \<times> int) list \<times> sprite_caches" where
  "getSprite as cellSize k c s elapsedMs sc =
     (case getConfig as (k, c, s) sc of
        (Inl ex, sc1) \<Rightarrow> (Inl ex, [], sc1)
      | (Inr config, sc1) \<Rightarrow>
          let frameIndex = selectAnimationFrame elapsedMs (frames_per_sec config) (is_loop config) (frame_count config)
          in case spritePath (as_root as) k c s frameIndex of
               Inl ex \<Rightarrow> (Inl ex, [], sc1)
             | Inr path \<Rightarrow>
                 let (r, loads, images) = cachingLoad as path (cellSize, cellSize) (sc_images sc1)
                 in (r, loads, sc1\<lparr>sc_images := images\<rparr>))"

section \<open>The frame shown\<close>

lemma smod_bounds:
  fixes a n :: int
  assumes "0 < n"
  shows "- n < a smod n" "a smod n < n" "0 \<le> a \<Longrightarrow> a smod n = a mod n" "0 \<le> a \<Longrightarrow> 0 \<le> a smod n"
proof -
  have nn: "0 \<le> b smod n \<and> b smod n < n \<and> b smod n = b mod n" if "0 \<le> b" for b :: int
  proof -
    have "b smod n = b mod n"
      using that assms by (cases "b = 0") (simp_all add: signed_modulo_int_def signed_divide_int_def minus_mult_div_eq_mod [symmetric])
    then show ?thesis using assms by simp
  qed
  have neg: "a smod n = - ((- a) smod n)" if "a < 0"
    using that assms by (simp add: signed_modulo_int_def signed_divide_int_def)
  show "- n < a smod n" "a smod n < n"
  proof -
    have "- n < a smod n \<and> a smod n < n"
    proof (cases "a < 0")
      case True
      then have "0 \<le> - a" by simp
      then show ?thesis using nn [of "- a"] neg [OF True] assms by linarith
    next
      case False
      then show ?thesis using nn [of a] assms by linarith
    qed
    then show "- n < a smod n" "a smod n < n" by simp_all
  qed
  show "0 \<le> a \<Longrightarrow> a smod n = a mod n" "0 \<le> a \<Longrightarrow> 0 \<le> a smod n" using nn [of a] by blast+
qed

lemma sdiv_1000: "0 \<le> (a :: int) \<Longrightarrow> a sdiv 1000 = a div 1000"
  by (cases "a = 0") (simp_all add: signed_divide_int_def)

lemma selectAnimationFrame_range:
  assumes "0 < frameCount"
  shows "0 \<le> selectAnimationFrame elapsedMs fps isLoop frameCount \<and> selectAnimationFrame elapsedMs fps isLoop frameCount < frameCount"
proof -
  have wrap: "0 \<le> (i smod frameCount + frameCount) smod frameCount \<and> (i smod frameCount + frameCount) smod frameCount < frameCount" for i
    using smod_bounds(1) [OF assms, of i] smod_bounds(2,4) [OF assms, of "i smod frameCount + frameCount"] by simp
  show ?thesis
    using assms wrap smod_bounds(2) [OF assms, of "(elapsedMs * fps) sdiv 1000"]
    by (auto simp: selectAnimationFrame_def Let_def not_less min_def)
qed

lemma selectAnimationFrame_eq:
  assumes "0 < frameCount" "0 < fps" "0 \<le> elapsedMs"
  shows "selectAnimationFrame elapsedMs fps isLoop frameCount =
    (if isLoop then (elapsedMs * fps div 1000) mod frameCount else min (elapsedMs * fps div 1000) (frameCount - 1))"
proof -
  have n: "0 \<le> elapsedMs * fps" using assms by simp
  then have "0 \<le> elapsedMs * fps div 1000" by (simp add: pos_imp_zdiv_nonneg_iff)
  then show ?thesis
    using assms by (auto simp: selectAnimationFrame_def Let_def sdiv_1000 [OF n] smod_bounds(3) [OF assms(1)])
qed

section \<open>The caches are transparent\<close>

lemma showInt_chars: "set (showInt i) \<inter> {CHR ''@'', CHR ''x''} = {}"
proof -
  have "list_all (\<lambda>c. CHR ''0'' \<le> c \<and> c \<le> CHR ''9'') (showNat n)" for n
    using isDigits_showNat [of n] by (simp add: isDigits_def)
  then have "c \<in> set (showNat n) \<Longrightarrow> c \<noteq> CHR ''@'' \<and> c \<noteq> CHR ''x''" for n c
    by (force simp: list_all_iff less_eq_char_def)
  then show ?thesis by (auto simp: showInt_def split: if_splits)
qed

lemma append_marker_eq:
  assumes "xs @ [m] @ ys = xs' @ [m] @ ys'" "m \<notin> set ys" "m \<notin> set ys'"
  shows "xs = xs' \<and> ys = ys'"
proof -
  have t: "takeWhile (\<lambda>c. c \<noteq> m) (rev (as @ [m] @ bs)) = rev bs" if "m \<notin> set bs" for as bs
  proof -
    have "takeWhile (\<lambda>c. c \<noteq> m) (cs @ m # ds) = cs" if "m \<notin> set cs" for cs ds using that by (induction cs) auto
    then show ?thesis using that by simp
  qed
  from arg_cong [OF assms(1), of "\<lambda>zs. takeWhile (\<lambda>c. c \<noteq> m) (rev zs)"] have "rev ys = rev ys'"
    unfolding t [OF assms(2)] t [OF assms(3)] .
  then show ?thesis using assms(1) by simp
qed

lemma imageKey_inject: "imageKey l s = imageKey l' s' \<longleftrightarrow> l = l' \<and> s = s'"
proof
  assume e: "imageKey l s = imageKey l' s'"
  have c: "CHR ''@'' \<notin> set (showInt a @ ''x'' @ showInt b)" "CHR ''x'' \<notin> set (showInt a)" for a b
    using showInt_chars [of a] showInt_chars [of b] by auto
  have 1: "l = l' \<and> showInt (fst s) @ ''x'' @ showInt (snd s) = showInt (fst s') @ ''x'' @ showInt (snd s')"
    by (rule append_marker_eq [where m = "CHR ''@''"]) (use e c in \<open>simp_all add: imageKey_def\<close>)
  have "showInt (fst s) = showInt (fst s') \<and> showInt (snd s) = showInt (snd s')"
    by (rule append_marker_eq [where m = "CHR ''x''"]) (use 1 c in simp_all)
  then have "fst s = fst s' \<and> snd s = snd s'" by (metis stoi_showInt option.inject)
  then show "l = l' \<and> s = s'" using 1 by (simp add: prod_eq_iff)
qed simp

text \<open>What the repository would return without caches.\<close>

definition plainSprite :: "assets \<Rightarrow> int \<Rightarrow> kind \<Rightarrow> color \<Rightarrow> state \<Rightarrow> int \<Rightarrow> asset_error + image" where
  "plainSprite as cellSize k c s elapsedMs =
     sbind (sbind (configPath (as_root as) k c s) (as_config as)) (\<lambda>config.
     sbind (spritePath (as_root as) k c s
       (selectAnimationFrame elapsedMs (frames_per_sec config) (is_loop config) (frame_count config))) (\<lambda>path.
     as_image as path (cellSize, cellSize)))"

text \<open>Every entry is what the files give, and every image read is in the cache.\<close>

definition caches_ok :: "assets \<Rightarrow> sprite_caches \<Rightarrow> bool" where
  "caches_ok as sc \<longleftrightarrow>
     (\<forall>k c s config. map_of (sc_configCache sc) (k, c, s) = Some config \<longrightarrow>
        sbind (configPath (as_root as) k c s) (as_config as) = Inr config) \<and>
     (\<forall>l n im. map_of (sc_images sc) (imageKey l n) = Some im \<longrightarrow> as_image as l n = Inr im)"

lemma getSprite_plain:
  assumes "caches_ok as sc" "getSprite as n k c s t sc = (r, loads, sc')"
  shows "r = plainSprite as n k c s t" "caches_ok as sc'" "distinct loads"
    and "\<forall>(l, m) \<in> set loads. map_of (sc_images sc) (imageKey l m) = None \<and>
      (case r of Inl _ \<Rightarrow> True | Inr _ \<Rightarrow> map_of (sc_images sc') (imageKey l m) \<noteq> None)"
    and "map_of (sc_images sc) key = Some im \<Longrightarrow> map_of (sc_images sc') key = Some im"
proof -
  obtain cr sc1 where g: "getConfig as (k, c, s) sc = (cr, sc1)" by (cases "getConfig as (k, c, s) sc")
  have c1: "cr = sbind (configPath (as_root as) k c s) (as_config as)" "caches_ok as sc1" "sc_images sc1 = sc_images sc"
    using g assms(1) by (auto simp: getConfig_def caches_ok_def split: option.splits sum.splits if_splits)
  show "r = plainSprite as n k c s t"
    using assms(2) g c1
    by (auto simp: getSprite_def plainSprite_def cachingLoad_def Let_def caches_ok_def split: sum.splits option.splits prod.splits)
  show "caches_ok as sc'"
    using assms(2) g c1
    by (auto simp: getSprite_def cachingLoad_def Let_def caches_ok_def imageKey_inject split: sum.splits option.splits prod.splits if_splits)
  show "distinct loads" "\<forall>(l, m) \<in> set loads. map_of (sc_images sc) (imageKey l m) = None \<and>
      (case r of Inl _ \<Rightarrow> True | Inr _ \<Rightarrow> map_of (sc_images sc') (imageKey l m) \<noteq> None)"
    using assms(2) g c1
    by (auto simp: getSprite_def cachingLoad_def Let_def split: sum.splits option.splits prod.splits)
  show "map_of (sc_images sc) key = Some im \<Longrightarrow> map_of (sc_images sc') key = Some im"
    using assms(2) g c1
    by (auto simp: getSprite_def cachingLoad_def Let_def split: sum.splits option.splits prod.splits)
qed

text \<open>A series of requests: the results, and the images read for those that succeeded.\<close>

fun spriteRun :: "assets \<Rightarrow> (int \<times> kind \<times> color \<times> state \<times> int) list \<Rightarrow> sprite_caches \<Rightarrow>
    (asset_error + image) list \<times> (string \<times> int \<times> int) list \<times> sprite_caches" where
  "spriteRun as [] sc = ([], [], sc)"
| "spriteRun as ((n, k, c, s, t) # reqs) sc =
     (let (r, loads, sc1) = getSprite as n k c s t sc; (rs, more, sc2) = spriteRun as reqs sc1
      in (r # rs, (case r of Inl _ \<Rightarrow> [] | Inr _ \<Rightarrow> loads) @ more, sc2))"

lemma spriteRun_plain:
  assumes "caches_ok as sc" "spriteRun as reqs sc = (rs, loads, sc')"
  shows "rs = map (\<lambda>(n, k, c, s, t). plainSprite as n k c s t) reqs \<and> caches_ok as sc' \<and> distinct loads \<and>
    (\<forall>(l, m) \<in> set loads. map_of (sc_images sc) (imageKey l m) = None)"
  using assms
proof (induction reqs arbitrary: sc rs loads)
  case (Cons q reqs)
  obtain n k c s t where q: "q = (n, k, c, s, t)" by (cases q) auto
  obtain r l1 sc1 where g: "getSprite as n k c s t sc = (r, l1, sc1)" by (metis prod.exhaust)
  obtain rs2 l2 sc2 where run: "spriteRun as reqs sc1 = (rs2, l2, sc2)" by (metis prod.exhaust)
  note 1 = getSprite_plain [OF Cons.prems(1) g]
  have l: "loads = (case r of Inl _ \<Rightarrow> [] | Inr _ \<Rightarrow> l1) @ l2" "rs = r # rs2" "sc' = sc2"
    using Cons.prems(2) by (auto simp: q g run)
  have 2: "rs2 = map (\<lambda>(n, k, c, s, t). plainSprite as n k c s t) reqs" "caches_ok as sc2" "distinct l2"
      "\<forall>(l, m) \<in> set l2. map_of (sc_images sc1) (imageKey l m) = None"
    using Cons.IH [OF 1(2) run [folded l(3)]] l(3) by blast+
  have old: "map_of (sc_images sc) (imageKey a b) = None" if "(a, b) \<in> set l2" for a b
    using that 2(4) 1(5) [of "imageKey a b"] by (cases "map_of (sc_images sc) (imageKey a b)") auto
  have "distinct loads"
    using 1(3,4) 2(3,4) by (fastforce simp: l(1) split: sum.splits)
  then show ?case using 1 2 old by (auto simp: l q split: sum.splits)
qed simp

end
