(* ===== verification/View.thy ===== *)
theory View
  imports Sprites
begin

text \<open>
  What the client draws (\<open>client/view/ImageView.cpp\<close>, \<open>client/view/src/img.cpp\<close>): a frame is the list of
  the drawing operations on the canvas, in order, with their coordinates. OpenCV enters as what
  \<open>imread\<close> finds, as the operations themselves and as the exception \<open>OutsideImage\<close> with which \<open>cv::Mat\<close>
  refuses a region that does not lie in the image.
\<close>

section \<open>Images\<close>

text \<open>\<open>imread\<close> gives the size of a picture, or nothing when it cannot be read.\<close>

definition imgRead :: "(string \<Rightarrow> (int \<times> int) option) \<Rightarrow> string \<Rightarrow> int \<times> int \<Rightarrow> asset_error + image" where
  "imgRead imread path s =
     (case imread path of
        None \<Rightarrow> Inl (CannotLoad path)
      | Some (w, h) \<Rightarrow>
          Inr (if fst s \<noteq> 0 \<and> snd s \<noteq> 0 then \<lparr>im_path = path, im_width = fst s, im_height = snd s\<rparr>
               else \<lparr>im_path = path, im_width = w, im_height = h\<rparr>))"

type_synonym bgr = "int \<times> int \<times> int"

datatype draw_op =
    DrawImage image int int
  | FillRect int int int int bgr rat
  | PutText string int int rat bgr
  | FillCircle int int int bgr rat
  | DrawLine int int int int bgr int

definition imgEmpty :: "image \<Rightarrow> bool" where
  "imgEmpty im \<longleftrightarrow> im_width im = 0 \<or> im_height im = 0"

text \<open>The regions \<open>cv::Mat::operator()\<close> gives a view of; for any other it throws.\<close>

definition inRegion :: "image \<Rightarrow> int \<Rightarrow> int \<Rightarrow> int \<Rightarrow> int \<Rightarrow> bool" where
  "inRegion im x y w h \<longleftrightarrow> 0 \<le> x \<and> 0 \<le> w \<and> x + w \<le> im_width im \<and> 0 \<le> y \<and> 0 \<le> h \<and> y + h \<le> im_height im"

definition drawOn :: "image \<Rightarrow> image \<Rightarrow> int \<Rightarrow> int \<Rightarrow> asset_error + draw_op list" where
  "drawOn im other x y =
     (if imgEmpty im \<or> imgEmpty other then Inl ImageNotLoaded
      else if y + im_height im > im_height other \<or> x + im_width im > im_width other then Inl ImageDoesNotFit
      else if \<not> inRegion other x y (im_width im) (im_height im) then Inl OutsideImage
      else Inr [DrawImage im x y])"

text \<open>
  The other operations of \<open>Img\<close>: all of them need a loaded image, and \<open>fill_rect\<close> needs a region of it; text,
  circles and lines are cut off at the border by OpenCV. A list of them stops at the first exception.
\<close>

definition paintOp :: "image \<Rightarrow> draw_op \<Rightarrow> asset_error + draw_op" where
  "paintOp im op =
     (if imgEmpty im then Inl ImageNotLoaded
      else case op of
          FillRect x y w h _ _ \<Rightarrow> if inRegion im x y w h then Inr op else Inl OutsideImage
        | _ \<Rightarrow> Inr op)"

definition paint :: "image \<Rightarrow> draw_op list \<Rightarrow> asset_error + draw_op list" where
  "paint im = mapE (paintOp im)"

section \<open>The panels\<close>

definition PANEL_Y :: int where "PANEL_Y = 10"
definition PANEL_HEADER_H :: int where "PANEL_HEADER_H = 28"
definition PANEL_INFO_H :: int where "PANEL_INFO_H = 40"
definition PANEL_LINE_H :: int where "PANEL_LINE_H = 18"
definition PANEL_MAX_LINES :: int where "PANEL_MAX_LINES = 20"
definition PANEL_TOTAL_H :: int where "PANEL_TOTAL_H = PANEL_HEADER_H + PANEL_INFO_H + PANEL_MAX_LINES * PANEL_LINE_H"
definition PLAYER_PANEL_WIDTH :: int where "PLAYER_PANEL_WIDTH = 220"
definition PLAYER_PANEL_GAP_PX :: int where "PLAYER_PANEL_GAP_PX = 15"

text \<open>The rows of the table of moves, from the given height downwards.\<close>

fun moveRows :: "int \<Rightarrow> int \<Rightarrow> move_entry list \<Rightarrow> draw_op list" where
  "moveRows panelX y [] = []"
| "moveRows panelX y (m # ms) =
     PutText (timestamp m) (panelX + 8) y (35/100) (255, 255, 255) #
     PutText (notation_of m) (panelX + 90) y (35/100) (255, 255, 255) # moveRows panelX (y + PANEL_LINE_H) ms"

definition drawPlayerPanel :: "int \<Rightarrow> string \<Rightarrow> string \<Rightarrow> int \<Rightarrow> move_entry list \<Rightarrow> draw_op list" where
  "drawPlayerPanel panelX title playerName score moves =
     (let white = (255, 255, 255); y1 = PANEL_Y + PANEL_HEADER_H + 18; y2 = y1 + 20; y3 = y2 + 20; y4 = y3 + PANEL_LINE_H; y5 = y4 + 4;
          start = max 0 (int (length moves) - PANEL_MAX_LINES)
      in [FillRect panelX PANEL_Y PLAYER_PANEL_WIDTH PANEL_TOTAL_H (50, 50, 50) 1,
          FillRect panelX PANEL_Y PLAYER_PANEL_WIDTH 2 (0, 0, 0) 1,
          FillRect panelX (PANEL_Y + PANEL_TOTAL_H - 2) PLAYER_PANEL_WIDTH 2 (0, 0, 0) 1,
          FillRect panelX PANEL_Y 2 PANEL_TOTAL_H (0, 0, 0) 1,
          FillRect (panelX + PLAYER_PANEL_WIDTH - 2) PANEL_Y 2 PANEL_TOTAL_H (0, 0, 0) 1,
          FillRect panelX PANEL_Y PLAYER_PANEL_WIDTH PANEL_HEADER_H (70, 70, 70) 1,
          PutText title (panelX + PLAYER_PANEL_WIDTH div 2 - 20) (PANEL_Y + PANEL_HEADER_H - 9) (6/10) white,
          PutText (''Name: '' @ playerName) (panelX + 8) y1 (45/100) white,
          PutText (''Score: '' @ showInt score) (panelX + 8) y2 (45/100) white,
          PutText ''Time'' (panelX + 8) y3 (4/10) white,
          PutText ''Move'' (panelX + 90) y3 (4/10) white,
          FillRect (panelX + 4) (y4 - 12) (PLAYER_PANEL_WIDTH - 8) 1 (0, 0, 0) 1] @
         moveRows panelX y5 (drop (nat start) moves))"

section \<open>The board\<close>

definition frameBands :: "int \<Rightarrow> int \<Rightarrow> draw_op list" where
  "frameBands boardW boardH =
     (let boardX = PANEL_WIDTH; boardY = BOARD_MARGIN; margin = BOARD_MARGIN
      in [FillRect boardX (boardY - margin) boardW margin (0, 0, 0) 1,
          FillRect boardX (boardY + boardH) boardW margin (0, 0, 0) 1,
          FillRect (boardX - margin) (boardY - margin) margin (boardH + 2 * margin) (0, 0, 0) 1,
          FillRect (boardX + boardW) (boardY - margin) margin (boardH + 2 * margin) (0, 0, 0) 1])"

definition coordinateLabels :: "int \<Rightarrow> int \<Rightarrow> int \<Rightarrow> draw_op list" where
  "coordinateLabels cell cols rows =
     (let boardX = PANEL_WIDTH; boardY = BOARD_MARGIN; margin = BOARD_MARGIN; boardW = cols * cell; boardH = rows * cell;
          white = (255, 255, 255)
      in concat (map (\<lambda>c. let file = [char_of (nat ((65 + c) mod 256))]; labelX = boardX + c * cell + cell sdiv 2 - 6
           in [PutText file labelX (boardY - margin sdiv 2 + 5) (1/2) white,
               PutText file labelX (boardY + boardH + margin sdiv 2 + 5) (1/2) white]) [0..cols - 1]) @
         concat (map (\<lambda>r. let rank = showInt (rows - r); labelY = boardY + r * cell + cell sdiv 2 + 5
           in [PutText rank (boardX - margin + 8) labelY (1/2) white,
               PutText rank (boardX + boardW + margin sdiv 2 - 4) labelY (1/2) white]) [0..rows - 1]))"

definition legalMoveMarkers :: "int \<Rightarrow> game_snapshot \<Rightarrow> draw_op list" where
  "legalMoveMarkers cell snap =
     (if \<not> has_selection snap then []
      else let selectedPiece = pieceAt snap (selected_cell snap);
               selectedIsKnight = (case selectedPiece of None \<Rightarrow> False | Some p \<Rightarrow> sp_kind p = Knight)
           in concat (map (\<lambda>dest.
                let friendlyOccupied = (case (pieceAt snap dest, selectedPiece) of
                      (Some occupant, Some p) \<Rightarrow> sp_color occupant = sp_color p | _ \<Rightarrow> False)
                in if friendlyOccupied \<and> \<not> selectedIsKnight then []
                   else [FillCircle (PANEL_WIDTH + col dest * cell + cell sdiv 2) (BOARD_MARGIN + row dest * cell + cell sdiv 2)
                           (cell sdiv 6) (60, 60, 60) (1/2)]) (legalMoves snap)))"

definition restHighlight :: "int \<Rightarrow> snapshot_piece \<Rightarrow> draw_op list" where
  "restHighlight cell p =
     (if sp_state p = LongRest \<or> sp_state p = ShortRest then
        let fromX = PANEL_WIDTH + col (sp_cell p) * cell; fromY = BOARD_MARGIN + row (sp_cell p) * cell;
            fillHeight = truncRat (of_int cell * (1 - restProgress p))
        in [FillRect fromX (fromY + (cell - fillHeight)) cell fillHeight
              (if sp_state p = LongRest then (0, 165, 255) else (144, 238, 144)) (4/10)]
      else [])"

definition drawX :: "int \<Rightarrow> snapshot_piece \<Rightarrow> int" where
  "drawX cell p = (let fromX = PANEL_WIDTH + col (sp_cell p) * cell; toX = PANEL_WIDTH + col (targetCell p) * cell
     in fromX + truncRat (of_int (toX - fromX) * travelProgress p))"

definition drawY :: "int \<Rightarrow> snapshot_piece \<Rightarrow> int" where
  "drawY cell p = (let fromY = BOARD_MARGIN + row (sp_cell p) * cell; toY = BOARD_MARGIN + row (targetCell p) * cell
     in fromY + truncRat (of_int (toY - fromY) * travelProgress p))"

type_synonym sprite_source = "kind \<Rightarrow> color \<Rightarrow> state \<Rightarrow> int \<Rightarrow> asset_error + image"

definition drawPiece :: "sprite_source \<Rightarrow> int \<Rightarrow> image \<Rightarrow> snapshot_piece \<Rightarrow> asset_error + draw_op list" where
  "drawPiece sprites cell frame p =
     (if sp_kind p = NoKind then Inr []
      else sbind (paint frame (restHighlight cell p)) (\<lambda>rest.
           sbind (sprites (sp_kind p) (sp_color p) (sp_state p) (elapsed_in_state_ms p)) (\<lambda>sprite.
           sbind (drawOn sprite frame (drawX cell p) (drawY cell p)) (\<lambda>ops. Inr (rest @ ops)))))"

section \<open>A frame\<close>

record view =
  vw_background :: image
  vw_canvas :: image
  vw_lastRenderedCellSize :: int
  vw_whiteScore :: int
  vw_blackScore :: int
  vw_whiteMoves :: "move_entry list"
  vw_blackMoves :: "move_entry list"
  vw_whitePlayerName :: string
  vw_blackPlayerName :: string
  vw_disconnectActive :: bool
  vw_disconnectMessage :: string
  vw_roomName :: string
  vw_titledRoomName :: string
  vw_spectatorCount :: int

definition noImage :: image where
  "noImage = \<lparr>im_path = [], im_width = 0, im_height = 0\<rparr>"

definition newView :: view where
  "newView = \<lparr>vw_background = noImage, vw_canvas = noImage, vw_lastRenderedCellSize = -1, vw_whiteScore = 0, vw_blackScore = 0,
     vw_whiteMoves = [], vw_blackMoves = [], vw_whitePlayerName = [], vw_blackPlayerName = [], vw_disconnectActive = False,
     vw_disconnectMessage = [], vw_roomName = [], vw_titledRoomName = [], vw_spectatorCount = 0\<rparr>"

definition canvasSize :: "int \<Rightarrow> int \<Rightarrow> int \<times> int" where
  "canvasSize boardW boardH =
     (PANEL_WIDTH + boardW + BOARD_MARGIN + PLAYER_PANEL_GAP_PX + PLAYER_PANEL_WIDTH + PLAYER_PANEL_GAP_PX,
      BOARD_MARGIN + boardH + BOARD_MARGIN)"

text \<open>The pictures are read again when the size of a cell has changed.\<close>

definition reloadImages :: "(string \<Rightarrow> (int \<times> int) option) \<Rightarrow> string \<Rightarrow> int \<Rightarrow> game_snapshot \<Rightarrow> view \<Rightarrow> asset_error + view" where
  "reloadImages imread assetsRoot cell snap v =
     (let reloadCols = (if board_width snap > 0 then board_width snap else 8);
          reloadRows = (if board_height snap > 0 then board_height snap else 8);
          reloadBoardW = reloadCols * cell; reloadBoardH = reloadRows * cell
      in if cell \<noteq> vw_lastRenderedCellSize v then
           sbind (imgRead imread (assetsRoot @ ''/board.png'') (reloadBoardW, reloadBoardH)) (\<lambda>bg.
           sbind (imgRead imread (assetsRoot @ ''/canvas.png'') (canvasSize reloadBoardW reloadBoardH)) (\<lambda>cv.
           Inr (v\<lparr>vw_background := bg, vw_canvas := cv, vw_lastRenderedCellSize := cell\<rparr>)))
         else Inr v)"

definition gameOverText :: "int \<Rightarrow> game_snapshot \<Rightarrow> draw_op list" where
  "gameOverText cell snap =
     (if snap_game_over snap then
        let w = survivingKingColor snap
        in [PutText (''Game Over'' @ (if w = White then '' - White Wins!'' else if w = Black then '' - Black Wins!'' else []))
              (PANEL_WIDTH + (board_width snap * cell) sdiv 2 - 180) (BOARD_MARGIN + (board_height snap * cell) sdiv 2) 1 (255, 255, 255)]
      else [])"

definition resizeGrip :: "int \<Rightarrow> game_snapshot \<Rightarrow> draw_op list" where
  "resizeGrip cell snap =
     (let (hx, hy) = handleTopLeft cell (board_width snap) (board_height snap);
          right = hx + HANDLE_SIZE - 2; bottom = hy + HANDLE_SIZE - 2
      in concat (map (\<lambda>offset. [DrawLine (right - offset) bottom right (bottom - offset) (0, 0, 0) 2,
           DrawLine (right - offset) bottom right (bottom - offset) (230, 230, 230) 1]) [5, 10, 15]))"

text \<open>The operations of one frame, the new title of the window if it is set, and the view.\<close>

definition render ::
  "(string \<Rightarrow> (int \<times> int) option) \<Rightarrow> sprite_source \<Rightarrow> string \<Rightarrow> int \<Rightarrow> game_snapshot \<Rightarrow> view \<Rightarrow>
     asset_error + (draw_op list \<times> string option \<times> view)" where
  "render imread sprites assetsRoot cell snap v0 =
     sbind (reloadImages imread assetsRoot cell snap v0) (\<lambda>v.
     let boardW = board_width snap * cell; boardH = board_height snap * cell; frame = vw_canvas v;
         leftPanelX = 10; rightPanelX = PANEL_WIDTH + boardW + BOARD_MARGIN + PLAYER_PANEL_GAP_PX;
         retitle = (vw_roomName v \<noteq> [] \<and> vw_roomName v \<noteq> vw_titledRoomName v)
     in sbind (drawOn (vw_background v) frame PANEL_WIDTH BOARD_MARGIN) (\<lambda>board.
        sbind (paint frame (frameBands boardW boardH @ coordinateLabels cell (board_width snap) (board_height snap) @
               legalMoveMarkers cell snap)) (\<lambda>bands.
        sbind (mapE (drawPiece sprites cell frame) (pieces snap)) (\<lambda>ps.
        sbind (paint frame (
               drawPlayerPanel leftPanelX ''Black'' (vw_blackPlayerName v) (vw_blackScore v) (vw_blackMoves v) @
               drawPlayerPanel rightPanelX ''White'' (vw_whitePlayerName v) (vw_whiteScore v) (vw_whiteMoves v) @
               gameOverText cell snap @
               [PutText (''Spectators: '' @ showInt (vw_spectatorCount v)) leftPanelX (PANEL_Y + PANEL_TOTAL_H + 20) (6/10) (255, 255, 255)] @
               (if vw_disconnectActive v
                then [PutText (vw_disconnectMessage v) (PANEL_WIDTH + boardW sdiv 2 - 200) (BOARD_MARGIN + boardH + BOARD_MARGIN - 8) (8/10) (0, 0, 255)]
                else []) @
               resizeGrip cell snap)) (\<lambda>panels.
        Inr (board @ bands @ concat ps @ panels,
             if retitle then Some (''Kung Fu Chess - Room '' @ vw_roomName v) else None,
             if retitle then v\<lparr>vw_titledRoomName := vw_roomName v\<rparr> else v))))))"

end
