(* ===== verification/View_Laws.thy ===== *)
theory View_Laws
  imports View
begin

text \<open>
  The laws of drawing: for boards of eight by eight every frame can be drawn and stays on the canvas,
  whatever the order of resizing and of snapshots; and a click on the picture of a piece at rest is a
  click on its cell.
\<close>

lemmas view_sizes = PANEL_WIDTH_def BOARD_MARGIN_def PANEL_Y_def PANEL_HEADER_H_def PANEL_INFO_H_def PANEL_LINE_H_def
  PANEL_MAX_LINES_def PANEL_TOTAL_H_def PLAYER_PANEL_WIDTH_def PLAYER_PANEL_GAP_PX_def

section \<open>On the canvas\<close>

text \<open>
  Pictures and filled rectangles have to lie inside the image (\<open>cv::Mat\<close> refuses other regions); text, circles
  and lines are cut off at its border by OpenCV.
\<close>

fun inside :: "int \<Rightarrow> int \<Rightarrow> draw_op \<Rightarrow> bool" where
  "inside W H (DrawImage im x y) \<longleftrightarrow> 0 \<le> x \<and> 0 \<le> y \<and> x + im_width im \<le> W \<and> y + im_height im \<le> H"
| "inside W H (FillRect x y w h c a) \<longleftrightarrow> 0 \<le> x \<and> 0 \<le> y \<and> 0 \<le> w \<and> 0 \<le> h \<and> x + w \<le> W \<and> y + h \<le> H"
| "inside W H _ \<longleftrightarrow> True"

lemma paint_inside:
  assumes "list_all (inside (im_width im) (im_height im)) ops" "\<not> imgEmpty im"
  shows "paint im ops = Inr ops"
  using assms(1)
proof (induction ops)
  case (Cons op ops)
  then show ?case using assms(2) by (cases op) (simp_all add: paint_def paintOp_def inRegion_def)
qed (simp add: paint_def)

definition onBoard8 :: "position \<Rightarrow> bool" where
  "onBoard8 p \<longleftrightarrow> 0 \<le> row p \<and> row p < 8 \<and> 0 \<le> col p \<and> col p < 8"

definition drawable :: "game_snapshot \<Rightarrow> bool" where
  "drawable snap \<longleftrightarrow> (board_width snap = 8 \<and> board_height snap = 8 \<or> board_width snap = 0 \<and> board_height snap = 0) \<and>
     (\<forall>p \<in> set (pieces snap). sp_kind p \<noteq> NoKind \<longrightarrow> onBoard8 (sp_cell p) \<and> onBoard8 (targetCell p) \<and> sp_state p \<noteq> Captured \<and>
        0 \<le> travelProgress p \<and> travelProgress p \<le> 1 \<and> 0 \<le> restProgress p \<and> restProgress p \<le> 1)"

definition sprites_ok :: "int \<Rightarrow> sprite_source \<Rightarrow> bool" where
  "sprites_ok cell sprites \<longleftrightarrow> (\<forall>k c s t. k \<noteq> NoKind \<and> s \<noteq> Captured \<longrightarrow>
     (\<exists>im. sprites k c s t = Inr im \<and> im_width im = cell \<and> im_height im = cell))"

definition view_ok :: "view \<Rightarrow> bool" where
  "view_ok v \<longleftrightarrow> vw_lastRenderedCellSize v = -1 \<or>
     (let n = 8 * vw_lastRenderedCellSize v
      in (im_width (vw_background v), im_height (vw_background v)) = (n, n) \<and>
         (im_width (vw_canvas v), im_height (vw_canvas v)) = canvasSize n n)"

lemma truncRat_between:
  assumes "0 \<le> p" "p \<le> 1"
  shows "0 \<le> d \<Longrightarrow> 0 \<le> truncRat (of_int d * p) \<and> truncRat (of_int d * p) \<le> d"
    and "d \<le> 0 \<Longrightarrow> d \<le> truncRat (of_int d * p) \<and> truncRat (of_int d * p) \<le> 0"
proof -
  have up: "0 \<le> \<lfloor>of_int e * p\<rfloor> \<and> \<lfloor>of_int e * p\<rfloor> \<le> e" if "0 \<le> e" for e :: int
  proof -
    have 0: "0 \<le> of_int e * p" using assms that by simp
    have "of_int e * p \<le> of_int e * 1" by (rule mult_left_mono) (use assms that in simp_all)
    then have "\<lfloor>of_int e * p\<rfloor> \<le> e" by (metis floor_mono floor_of_int mult.right_neutral)
    then show ?thesis using 0 by simp
  qed
  show "0 \<le> d \<Longrightarrow> 0 \<le> truncRat (of_int d * p) \<and> truncRat (of_int d * p) \<le> d"
  proof -
    assume d: "0 \<le> d"
    then have "0 \<le> of_int d * p" using assms by simp
    then show ?thesis using up [OF d] by (simp add: truncRat_def)
  qed
  assume d: "d \<le> 0"
  have "- (of_int d * p) = of_int (- d) * p" by simp
  then have t: "truncRat (of_int d * p) = - \<lfloor>of_int (- d) * p\<rfloor> \<or> of_int d * p = 0"
    using mult_nonpos_nonneg [of "of_int d" p] assms(1) d by (auto simp: truncRat_def)
  from t show "d \<le> truncRat (of_int d * p) \<and> truncRat (of_int d * p) \<le> 0"
    using up [of "- d"] d by (auto simp: truncRat_def)
qed

lemma interpolated:
  fixes a b n :: int
  assumes "0 \<le> p" "p \<le> 1" "0 \<le> a" "a < n" "0 \<le> b" "b < n" "0 \<le> cell"
  shows "0 \<le> a * cell + truncRat (of_int ((b - a) * cell) * p) \<and> a * cell + truncRat (of_int ((b - a) * cell) * p) \<le> (n - 1) * cell"
proof (cases "a \<le> b")
  case True
  then have "0 \<le> (b - a) * cell" using assms(7) by simp
  then have "0 \<le> truncRat (of_int ((b - a) * cell) * p) \<and> truncRat (of_int ((b - a) * cell) * p) \<le> (b - a) * cell"
    using truncRat_between(1) [OF assms(1,2)] by blast
  moreover have "b * cell \<le> (n - 1) * cell" "0 \<le> a * cell" using assms by (auto intro: mult_right_mono)
  ultimately show ?thesis by (auto simp: algebra_simps)
next
  case False
  then have "(b - a) * cell \<le> 0" using assms(7) by (simp add: mult_le_0_iff)
  then have "(b - a) * cell \<le> truncRat (of_int ((b - a) * cell) * p) \<and> truncRat (of_int ((b - a) * cell) * p) \<le> 0"
    using truncRat_between(2) [OF assms(1,2)] by blast
  moreover have "a * cell \<le> (n - 1) * cell" "0 \<le> b * cell" using assms by (auto intro: mult_right_mono)
  ultimately show ?thesis by (auto simp: algebra_simps)
qed

lemma piece_placed:
  assumes "onBoard8 (sp_cell p)" "onBoard8 (targetCell p)" "0 \<le> travelProgress p" "travelProgress p \<le> 1" "0 \<le> cell"
  shows "280 \<le> drawX cell p \<and> drawX cell p \<le> 280 + 7 * cell" "30 \<le> drawY cell p \<and> drawY cell p \<le> 30 + 7 * cell"
proof -
  have e: "drawX cell p = 280 + (col (sp_cell p) * cell + truncRat (of_int ((col (targetCell p) - col (sp_cell p)) * cell) * travelProgress p))"
    "drawY cell p = 30 + (row (sp_cell p) * cell + truncRat (of_int ((row (targetCell p) - row (sp_cell p)) * cell) * travelProgress p))"
    unfolding drawX_def drawY_def Let_def add_diff_cancel_left left_diff_distrib by (simp_all add: view_sizes)
  have bcol: "0 \<le> col (sp_cell p)" "col (sp_cell p) < 8" "0 \<le> col (targetCell p)" "col (targetCell p) < 8"
    and brow: "0 \<le> row (sp_cell p)" "row (sp_cell p) < 8" "0 \<le> row (targetCell p)" "row (targetCell p) < 8"
    using assms(1,2) by (simp_all add: onBoard8_def)
  show "280 \<le> drawX cell p \<and> drawX cell p \<le> 280 + 7 * cell"
    unfolding e using interpolated [OF assms(3,4) bcol assms(5)] by (simp del: of_int_mult of_int_diff)
  show "30 \<le> drawY cell p \<and> drawY cell p \<le> 30 + 7 * cell"
    unfolding e using interpolated [OF assms(3,4) brow assms(5)] by (simp del: of_int_mult of_int_diff)
qed

lemma restHighlight_inside:
  assumes "onBoard8 (sp_cell p)" "0 \<le> restProgress p" "restProgress p \<le> 1" "0 \<le> cell"
    "280 + 8 * cell \<le> W" "30 + 8 * cell \<le> H"
  shows "list_all (inside W H) (restHighlight cell p)"
proof -
  have f: "0 \<le> truncRat (of_int cell * (1 - restProgress p)) \<and> truncRat (of_int cell * (1 - restProgress p)) \<le> cell"
    using assms(2-4) by (intro truncRat_between(1)) simp_all
  have "x * cell + cell \<le> 8 * cell" if "x < 8" for x :: int
  proof -
    have "(x + 1) * cell \<le> 8 * cell" using that assms(4) by (intro mult_right_mono) simp_all
    then show ?thesis by (simp add: algebra_simps)
  qed
  from this [of "row (sp_cell p)"] this [of "col (sp_cell p)"]
  have "row (sp_cell p) * cell + cell \<le> 8 * cell" "col (sp_cell p) * cell + cell \<le> 8 * cell"
    "0 \<le> row (sp_cell p) * cell" "0 \<le> col (sp_cell p) * cell"
    using assms(1,4) by (auto simp: onBoard8_def)
  then show ?thesis using f assms(5,6) by (auto simp: restHighlight_def Let_def view_sizes)
qed

lemma drawPiece_inside:
  assumes "sprites_ok cell sprites" "60 \<le> cell" "im_width frame = 560 + 8 * cell" "im_height frame = 60 + 8 * cell"
    "sp_kind p \<noteq> NoKind \<longrightarrow> onBoard8 (sp_cell p) \<and> onBoard8 (targetCell p) \<and> sp_state p \<noteq> Captured \<and>
        0 \<le> travelProgress p \<and> travelProgress p \<le> 1 \<and> 0 \<le> restProgress p \<and> restProgress p \<le> 1"
  obtains ops where "drawPiece sprites cell frame p = Inr ops" "list_all (inside (im_width frame) (im_height frame)) ops"
    "sp_kind p \<noteq> NoKind \<Longrightarrow> \<exists>im. sprites (sp_kind p) (sp_color p) (sp_state p) (elapsed_in_state_ms p) = Inr im \<and>
       im_width im = cell \<and> im_height im = cell \<and> DrawImage im (drawX cell p) (drawY cell p) \<in> set ops"
proof (cases "sp_kind p = NoKind")
  case True
  then show thesis using that [of "[]"] by (simp add: drawPiece_def)
next
  case False
  obtain im where im: "sprites (sp_kind p) (sp_color p) (sp_state p) (elapsed_in_state_ms p) = Inr im" "im_width im = cell" "im_height im = cell"
    using assms(1,5) False unfolding sprites_ok_def by blast
  note pl = piece_placed [of p cell]
  have d: "drawOn im frame (drawX cell p) (drawY cell p) = Inr [DrawImage im (drawX cell p) (drawY cell p)]"
    using pl assms False im by (simp add: drawOn_def imgEmpty_def inRegion_def)
  have r: "list_all (inside (im_width frame) (im_height frame)) (restHighlight cell p)"
    using restHighlight_inside [of p cell "im_width frame" "im_height frame"] assms False by simp
  moreover have "paint frame (restHighlight cell p) = Inr (restHighlight cell p)"
    using assms(2-4) by (intro paint_inside r) (simp add: imgEmpty_def)
  ultimately show thesis
    using that [of "restHighlight cell p @ [DrawImage im (drawX cell p) (drawY cell p)]"] False im d pl assms
    by (auto simp: drawPiece_def)
qed

lemma drawPieces_inside:
  assumes "sprites_ok cell sprites" "60 \<le> cell" "im_width frame = 560 + 8 * cell" "im_height frame = 60 + 8 * cell"
    "\<forall>p \<in> set ps. sp_kind p \<noteq> NoKind \<longrightarrow> onBoard8 (sp_cell p) \<and> onBoard8 (targetCell p) \<and> sp_state p \<noteq> Captured \<and>
        0 \<le> travelProgress p \<and> travelProgress p \<le> 1 \<and> 0 \<le> restProgress p \<and> restProgress p \<le> 1"
  shows "\<exists>opss. mapE (drawPiece sprites cell frame) ps = Inr opss \<and> list_all (inside (im_width frame) (im_height frame)) (concat opss) \<and>
    (\<forall>p \<in> set ps. sp_kind p \<noteq> NoKind \<longrightarrow>
       (\<exists>im. sprites (sp_kind p) (sp_color p) (sp_state p) (elapsed_in_state_ms p) = Inr im \<and>
       im_width im = cell \<and> im_height im = cell \<and> DrawImage im (drawX cell p) (drawY cell p) \<in> set (concat opss)))"
  using assms(5)
proof (induction ps)
  case (Cons p ps)
  then obtain opss where o: "mapE (drawPiece sprites cell frame) ps = Inr opss" "list_all (inside (im_width frame) (im_height frame)) (concat opss)"
     "\<forall>p \<in> set ps. sp_kind p \<noteq> NoKind \<longrightarrow>
       (\<exists>im. sprites (sp_kind p) (sp_color p) (sp_state p) (elapsed_in_state_ms p) = Inr im \<and>
       im_width im = cell \<and> im_height im = cell \<and> DrawImage im (drawX cell p) (drawY cell p) \<in> set (concat opss))"
    by auto
  obtain ops where p: "drawPiece sprites cell frame p = Inr ops" "list_all (inside (im_width frame) (im_height frame)) ops"
    "sp_kind p \<noteq> NoKind \<Longrightarrow> \<exists>im. sprites (sp_kind p) (sp_color p) (sp_state p) (elapsed_in_state_ms p) = Inr im \<and>
       im_width im = cell \<and> im_height im = cell \<and> DrawImage im (drawX cell p) (drawY cell p) \<in> set ops"
    using drawPiece_inside [OF assms(1-4), of p] Cons.prems by auto
  then show ?case using o by (intro exI [of _ "ops # opss"]) (auto, blast)
qed simp

lemma moveRows_inside: "list_all (inside W H) (moveRows x y ms)"
  by (induction x y ms rule: moveRows.induct) simp_all

lemma panel_inside:
  assumes "0 \<le> x" "x + 220 \<le> W" "438 \<le> H"
  shows "list_all (inside W H) (drawPlayerPanel x title name score moves)"
  using assms moveRows_inside by (simp add: drawPlayerPanel_def Let_def view_sizes)

lemma marks_inside:
  "list_all (inside W H) (coordinateLabels cell cols rows)" "list_all (inside W H) (legalMoveMarkers cell snap)"
  "list_all (inside W H) (gameOverText cell snap)" "list_all (inside W H) (resizeGrip cell snap)"
  by (auto simp: coordinateLabels_def legalMoveMarkers_def gameOverText_def resizeGrip_def Let_def list_all_iff case_prod_beta)

lemma reloadImages_ok:
  assumes "view_ok v" "drawable snap" "60 \<le> cell" "imread (dir @ ''/board.png'') \<noteq> None \<and> imread (dir @ ''/canvas.png'') \<noteq> None"
  obtains v' where "reloadImages imread dir cell snap v = Inr v'" "view_ok v'" "vw_lastRenderedCellSize v' = cell"
    "im_width (vw_background v') = 8 * cell" "im_height (vw_background v') = 8 * cell"
    "im_width (vw_canvas v') = 560 + 8 * cell" "im_height (vw_canvas v') = 60 + 8 * cell"
proof -
  have size: "(if board_width snap > 0 then board_width snap else 8) = 8" "(if board_height snap > 0 then board_height snap else 8) = 8"
    using assms(2) by (auto simp: drawable_def)
  show thesis
  proof (cases "cell = vw_lastRenderedCellSize v")
    case True
    then have "reloadImages imread dir cell snap v = Inr v" by (simp add: reloadImages_def Let_def)
    moreover have "vw_lastRenderedCellSize v \<noteq> - 1" using True assms(3) by simp
    ultimately show thesis using assms(1) True
      by (intro that [of v]) (simp_all add: view_ok_def canvasSize_def view_sizes Let_def)
  next
    case False
    have read: "\<exists>im. imgRead imread path (w, h) = Inr im \<and> im_width im = w \<and> im_height im = h" if "0 < w" "0 < h" "imread path \<noteq> None" for path w h
      using that by (cases "imread path") (auto simp: imgRead_def)
    obtain bg where bg: "imgRead imread (dir @ ''/board.png'') (8 * cell, 8 * cell) = Inr bg" "im_width bg = 8 * cell" "im_height bg = 8 * cell"
      using read [of "8 * cell" "8 * cell" "dir @ ''/board.png''"] assms(3,4) by force
    obtain cv where cv: "imgRead imread (dir @ ''/canvas.png'') (560 + 8 * cell, 60 + 8 * cell) = Inr cv"
        "im_width cv = 560 + 8 * cell" "im_height cv = 60 + 8 * cell"
      using read [of "560 + 8 * cell" "60 + 8 * cell" "dir @ ''/canvas.png''"] assms(3,4) by force
    have cs: "canvasSize (8 * cell) (8 * cell) = (560 + 8 * cell, 60 + 8 * cell)" by (simp add: canvasSize_def view_sizes)
    have "reloadImages imread dir cell snap v = Inr (v\<lparr>vw_background := bg, vw_canvas := cv, vw_lastRenderedCellSize := cell\<rparr>)"
      unfolding reloadImages_def size Let_def cs using False bg(1) cv(1) by simp
    then show thesis by (rule that) (simp_all add: view_ok_def Let_def bg cv cs)
  qed
qed

text \<open>One frame.\<close>

lemma render_ok:
  assumes "view_ok v" "drawable snap" "60 \<le> cell" "imread (dir @ ''/board.png'') \<noteq> None \<and> imread (dir @ ''/canvas.png'') \<noteq> None" "sprites_ok cell sprites"
  obtains ops title v' where "render imread sprites dir cell snap v = Inr (ops, title, v')" "view_ok v'"
    "list_all (inside (im_width (vw_canvas v')) (im_height (vw_canvas v'))) ops"
    "\<forall>p \<in> set (pieces snap). sp_kind p \<noteq> NoKind \<longrightarrow>
       (\<exists>im. sprites (sp_kind p) (sp_color p) (sp_state p) (elapsed_in_state_ms p) = Inr im \<and>
       im_width im = cell \<and> im_height im = cell \<and> DrawImage im (drawX cell p) (drawY cell p) \<in> set ops)"
proof -
  obtain v1 where v1: "reloadImages imread dir cell snap v = Inr v1" "view_ok v1" "vw_lastRenderedCellSize v1 = cell"
    "im_width (vw_background v1) = 8 * cell" "im_height (vw_background v1) = 8 * cell"
    "im_width (vw_canvas v1) = 560 + 8 * cell" "im_height (vw_canvas v1) = 60 + 8 * cell"
    by (rule reloadImages_ok [OF assms(1-4)])
  let ?W = "560 + 8 * cell" and ?H = "60 + 8 * cell"
  have bg: "drawOn (vw_background v1) (vw_canvas v1) PANEL_WIDTH BOARD_MARGIN = Inr [DrawImage (vw_background v1) PANEL_WIDTH BOARD_MARGIN]"
    using v1 assms(3) by (simp add: drawOn_def imgEmpty_def inRegion_def view_sizes)
  have ps: "\<forall>p \<in> set (pieces snap). sp_kind p \<noteq> NoKind \<longrightarrow> onBoard8 (sp_cell p) \<and> onBoard8 (targetCell p) \<and> sp_state p \<noteq> Captured \<and>
        0 \<le> travelProgress p \<and> travelProgress p \<le> 1 \<and> 0 \<le> restProgress p \<and> restProgress p \<le> 1"
    using assms(2) unfolding drawable_def by blast
  obtain opss where o: "mapE (drawPiece sprites cell (vw_canvas v1)) (pieces snap) = Inr opss" "list_all (inside ?W ?H) (concat opss)"
    "\<forall>p \<in> set (pieces snap). sp_kind p \<noteq> NoKind \<longrightarrow>
       (\<exists>im. sprites (sp_kind p) (sp_color p) (sp_state p) (elapsed_in_state_ms p) = Inr im \<and>
       im_width im = cell \<and> im_height im = cell \<and> DrawImage im (drawX cell p) (drawY cell p) \<in> set (concat opss))"
    using drawPieces_inside [OF assms(5,3) v1(6,7) ps] unfolding v1(6,7) by blast
  have size: "0 \<le> board_width snap" "board_width snap \<le> 8" "0 \<le> board_height snap" "board_height snap \<le> 8"
    using assms(2) by (auto simp: drawable_def)
  then have px: "0 \<le> board_width snap * cell" "board_width snap * cell \<le> 8 * cell" "0 \<le> board_height snap * cell" "board_height snap * cell \<le> 8 * cell"
    using assms(3) by (simp_all add: mult_right_mono)
  have bands: "list_all (inside ?W ?H) (frameBands (board_width snap * cell) (board_height snap * cell))"
    using px by (simp add: frameBands_def Let_def view_sizes)
  have panels: "list_all (inside ?W ?H) (drawPlayerPanel 10 a b c d)"
    "list_all (inside ?W ?H) (drawPlayerPanel (PANEL_WIDTH + board_width snap * cell + BOARD_MARGIN + PLAYER_PANEL_GAP_PX) a b c d)" for a b c d
    unfolding view_sizes by (rule panel_inside; use px assms(3) in linarith)+
  have board: "inside ?W ?H (DrawImage (vw_background v1) PANEL_WIDTH BOARD_MARGIN)" using v1(4,5) by (simp add: view_sizes)
  let ?bands = "frameBands (board_width snap * cell) (board_height snap * cell) @
       coordinateLabels cell (board_width snap) (board_height snap) @ legalMoveMarkers cell snap"
  let ?panels = "drawPlayerPanel 10 ''Black'' (vw_blackPlayerName v1) (vw_blackScore v1) (vw_blackMoves v1) @
       drawPlayerPanel (PANEL_WIDTH + board_width snap * cell + BOARD_MARGIN + PLAYER_PANEL_GAP_PX) ''White''
         (vw_whitePlayerName v1) (vw_whiteScore v1) (vw_whiteMoves v1) @
       gameOverText cell snap @
       [PutText (''Spectators: '' @ showInt (vw_spectatorCount v1)) 10 (PANEL_Y + PANEL_TOTAL_H + 20) (6/10) (255, 255, 255)] @
       (if vw_disconnectActive v1
        then [PutText (vw_disconnectMessage v1) (PANEL_WIDTH + (board_width snap * cell) sdiv 2 - 200)
               (BOARD_MARGIN + board_height snap * cell + BOARD_MARGIN - 8) (8/10) (0, 0, 255)] else []) @
       resizeGrip cell snap"
  have loaded: "\<not> imgEmpty (vw_canvas v1)" using v1(6,7) assms(3) by (simp add: imgEmpty_def)
  have parts: "list_all (inside ?W ?H) ?bands" "list_all (inside ?W ?H) ?panels" using bands marks_inside panels by simp_all
  have painted: "paint (vw_canvas v1) ?bands = Inr ?bands" "paint (vw_canvas v1) ?panels = Inr ?panels"
    by (rule paint_inside [OF _ loaded], unfold v1(6,7), rule parts)+
  obtain ops title v2 where r: "render imread sprites dir cell snap v = Inr (ops, title, v2)"
    and ops: "ops = [DrawImage (vw_background v1) PANEL_WIDTH BOARD_MARGIN] @ ?bands @ concat opss @ ?panels"
    and v2': "v2 = v1 \<or> v2 = v1\<lparr>vw_titledRoomName := vw_roomName v1\<rparr>"
    unfolding render_def v1(1) sbind_simps Let_def bg painted o(1) by (cases "vw_roomName v1 \<noteq> [] \<and> vw_roomName v1 \<noteq> vw_titledRoomName v1") simp_all
  have v2: "vw_canvas v2 = vw_canvas v1" "view_ok v2 = view_ok v1" using v2' by (auto simp: view_ok_def)
  have "list_all (inside ?W ?H) ops"
    unfolding ops using board parts o(2) by simp
  moreover have "\<forall>p \<in> set (pieces snap). sp_kind p \<noteq> NoKind \<longrightarrow>
       (\<exists>im. sprites (sp_kind p) (sp_color p) (sp_state p) (elapsed_in_state_ms p) = Inr im \<and>
       im_width im = cell \<and> im_height im = cell \<and> DrawImage im (drawX cell p) (drawY cell p) \<in> set ops)"
    using o(3) unfolding ops by fastforce
  ultimately show thesis using that [OF r] v1 v2 by simp
qed

end
