(* ===== verification/App.thy ===== *)
theory App
  imports View_Laws
begin

text \<open>
  The running client (\<open>client/app/GraphicalApplication.cpp\<close>): the render loop together with the mouse
  callback and the messages that arrive on the network thread. The three touch the state under a mutex
  or on the one thread of the window, so a run of the client is a sequence of texts, mouse events and
  frames. The lemmas: the loop never ends by an exception of \<open>render\<close>, every frame shows the last
  snapshot of the room, and a piece is selected by a click on its picture.
\<close>

section \<open>Operations\<close>

definition soundGameOver :: string where "soundGameOver = ''game over.wav''"

text \<open>\<open>FileImageLoader\<close> as the loader the sprite repository reads from.\<close>

definition fileAssets :: "(string \<Rightarrow> (int \<times> int) option) \<Rightarrow> (string \<Rightarrow> asset_error + animation_config) \<Rightarrow> string \<Rightarrow> assets" where
  "fileAssets imread configs assetsRoot = \<lparr>as_root = assetsRoot, as_config = configs, as_image = imgRead imread\<rparr>"

record app =
  ap_window :: window
  ap_handler :: network_handler
  ap_view :: view
  ap_wasGameOver :: bool
  ap_frame :: nat

definition emptySnapshot :: game_snapshot where
  "emptySnapshot = \<lparr>board_width = 0, board_height = 0, pieces = [], snap_game_over = False, has_selection = False,
     selected_cell = Pos 0 0, legalMoves = []\<rparr>"

text \<open>
  The state before the first message. \<open>board_width\<close>, \<open>board_height\<close> and \<open>game_over\<close> of its snapshot have no
  initialiser in the code: \<open>stale\<close> is what the memory held. \<open>render\<close> is written for zeros (\<open>emptySnapshot\<close>).
\<close>

definition newNetworkHandler :: "game_snapshot \<Rightarrow> network_handler" where
  "newNetworkHandler stale = \<lparr>nh_state = \<lparr>ns_snapshot = emptySnapshot\<lparr>board_width := board_width stale,
       board_height := board_height stale, snap_game_over := snap_game_over stale\<rparr>, ns_disconnectActive = False, ns_disconnectMessage = [],
     ns_whiteScore = 0, ns_blackScore = 0, ns_whiteMoves = [], ns_blackMoves = [], ns_whiteName = [], ns_whiteElo = 0,
     ns_blackName = [], ns_blackElo = 0, ns_spectatorCount = 0\<rparr>, nh_pendingCaptures = []\<rparr>"

text \<open>What the home screen returns (\<open>HomeScreenResult\<close>).\<close>

record home_result =
  hr_joinedRoom :: bool
  hr_roomName :: string
  hr_moveLog :: json
  hr_whiteName :: string
  hr_whiteElo :: int
  hr_blackName :: string
  hr_blackElo :: int
  hr_role :: color

text \<open>From the result of the home screen to the first frame.\<close>

definition enterGame :: "game_snapshot \<Rightarrow> home_result \<Rightarrow> json_error + app" where
  "enterGame stale home =
     sbind (decodeAllMoves (hr_moveLog home)) (\<lambda>(white, black).
     Inr \<lparr>ap_window = \<lparr>wn_snapshot = emptySnapshot, wn_cellSize = CELL_SIZE,
            wn_controller = \<lparr>selectedPos = None, myColor = Some (hr_role home), sent = []\<rparr>,
            wn_resizing = False, wn_dragStartX = 0, wn_dragStartY = 0, wn_dragStartCellSize = 0\<rparr>,
          ap_handler = seedMoveLog white black (newNetworkHandler stale),
          ap_view = newView\<lparr>vw_roomName := hr_roomName home,
            vw_whitePlayerName := playerLabel (hr_whiteName home) (hr_whiteElo home),
            vw_blackPlayerName := playerLabel (hr_blackName home) (hr_blackElo home)\<rparr>,
          ap_wasGameOver = False, ap_frame = 0\<rparr>)"

definition feedView :: "network_state \<Rightarrow> view \<Rightarrow> view" where
  "feedView net v = v\<lparr>vw_disconnectActive := ns_disconnectActive net, vw_disconnectMessage := ns_disconnectMessage net,
     vw_whiteScore := ns_whiteScore net, vw_blackScore := ns_blackScore net,
     vw_whiteMoves := ns_whiteMoves net, vw_blackMoves := ns_blackMoves net,
     vw_whitePlayerName := playerLabel (ns_whiteName net) (ns_whiteElo net),
     vw_blackPlayerName := playerLabel (ns_blackName net) (ns_blackElo net),
     vw_spectatorCount := ns_spectatorCount net\<rparr>"

text \<open>One turn of the loop: the sounds, and the operations of the frame or the exception that ends the loop.\<close>

definition appFrame ::
  "(string \<Rightarrow> (int \<times> int) option) \<Rightarrow> assets \<Rightarrow> app \<Rightarrow> string list \<times> (asset_error + draw_op list) \<times> app" where
  "appFrame imread as a =
     (let (captures, handler) = checkPendingCaptureSounds (ap_handler a);
          net = nh_state handler;
          w = (ap_window a)\<lparr>wn_snapshot := ns_snapshot net\<rparr>;
          over = snap_game_over (ns_snapshot net);
          sounds = captures @ (if over \<and> \<not> ap_wasGameOver a then [soundGameOver] else []);
          a1 = a\<lparr>ap_handler := handler, ap_window := w, ap_wasGameOver := over, ap_view := feedView net (ap_view a)\<rparr>;
          cell = wn_cellSize w
      in case render imread (plainSprite as cell) (as_root as) cell (controllerSnapshot (wn_snapshot w) (wn_controller w)) (ap_view a1) of
           Inl ex \<Rightarrow> (sounds, Inl ex, a1)
         | Inr (ops, title, v) \<Rightarrow> (sounds, Inr ops, a1\<lparr>ap_view := v, ap_frame := ap_frame a + 1\<rparr>))"

datatype app_event = NetText string | Mouse mouse_event int int | Frame

fun app_step ::
  "(string \<Rightarrow> json option) \<Rightarrow> (string \<Rightarrow> (int \<times> int) option) \<Rightarrow> assets \<Rightarrow> app_event \<Rightarrow> app \<Rightarrow>
     string list \<times> (asset_error + draw_op list) \<times> app" where
  "app_step parse imread as (NetText t) a =
     (let (sounds, h) = onMessage parse t (ap_handler a) in (sounds, Inr [], a\<lparr>ap_handler := h\<rparr>))"
| "app_step parse imread as (Mouse ev x y) a =
     (let (sounds, w) = onMouseEvent ev x y (ap_window a) in (sounds, Inr [], a\<lparr>ap_window := w\<rparr>))"
| "app_step parse imread as Frame a = appFrame imread as a"

text \<open>The loop stops at the first exception: the sounds, the frames drawn, and how it ended.\<close>

fun app_run ::
  "(string \<Rightarrow> json option) \<Rightarrow> (string \<Rightarrow> (int \<times> int) option) \<Rightarrow> assets \<Rightarrow> app_event list \<Rightarrow> app \<Rightarrow>
     string list \<times> draw_op list list \<times> (asset_error + app)" where
  "app_run parse imread as [] a = ([], [], Inr a)"
| "app_run parse imread as (ev # evs) a =
     (case app_step parse imread as ev a of
        (sounds, Inl ex, a1) \<Rightarrow> (sounds, [], Inl ex)
      | (sounds, Inr ops, a1) \<Rightarrow>
          let (more, frames, r) = app_run parse imread as evs a1
          in (sounds @ more, (if ev = Frame then ops # frames else frames), r))"

section \<open>What a room sends can be drawn\<close>

lemma snapshotPiece_target:
  assumes "engine_ok e" "isWithinBounds (eng_board e) p"
  shows "isWithinBounds (eng_board e) (targetCell (snapshotPiece (eng_arbiter e) p x))"
proof (cases "find (\<lambda>m. piece_id m = getId x) (active_motions (eng_arbiter e))")
  case (Some m)
  then have "m \<in> set (active_motions (eng_arbiter e))" by (auto simp: find_Some_iff)
  then have "isWithinBounds (eng_board e) (m_to m)"
    using arbiter_okD(3) [OF engine_okD(1) [OF assms(1)]] by (auto simp: motion_ok_def)
  then show ?thesis using Some by (simp add: snapshotPiece_def Let_def)
qed (use assms(2) in \<open>simp add: snapshotPiece_def Let_def\<close>)

lemma stateStart_past:
  assumes "engine_ok e" "0 \<le> clock e"
  shows "getStateStartMs (eng_arbiter e) i st \<le> clock e"
proof -
  have "start_time_ms m \<le> clock e" if "find P (active_motions (eng_arbiter e)) = Some m" for P m
    using that arbiter_okD(3) [OF engine_okD(1) [OF assms(1)]] by (auto simp: motion_ok_def find_Some_iff)
  then show ?thesis using assms(2) by (auto simp: getStateStartMs_def Let_def split: option.split)
qed

lemma snapshotPiece_rest:
  assumes "engine_ok e" "0 \<le> clock e"
  shows "0 \<le> restProgress (snapshotPiece (eng_arbiter e) p x)"
  using stateStart_past [OF assms]
  by (auto simp: snapshotPiece_def Let_def SHORT_REST_MS_def LONG_REST_MS_def split: option.split prod.split)

definition onBoard64 :: "game_engine \<Rightarrow> bool" where
  "onBoard64 e \<longleftrightarrow> engine_ok e \<and> 0 \<le> clock e \<and> getWidth (eng_board e) = 8 \<and> getHeight (eng_board e) = 8"

lemma drawable_snapshot:
  assumes "onBoard64 e"
  shows "drawable (snapshot e)"
proof -
  have ok: "engine_ok e" and c: "0 \<le> clock e" and b: "isWithinBounds (eng_board e) p \<longleftrightarrow> onBoard8 p" for p
    using assms by (auto simp: onBoard64_def isWithinBounds_def onBoard8_def)
  have "onBoard8 (sp_cell sp) \<and> onBoard8 (targetCell sp) \<and> sp_state sp \<noteq> Captured \<and>
      0 \<le> travelProgress sp \<and> travelProgress sp \<le> 1 \<and> 0 \<le> restProgress sp \<and> restProgress sp \<le> 1"
    if sp: "sp \<in> set (pieces (snapshot e))" for sp
  proof -
    obtain p where p: "isWithinBounds (eng_board e) p" "getKind (slot (eng_board e) p) \<noteq> NoKind"
        "sp = snapshotPiece (eng_arbiter e) p (slot (eng_board e) p)"
      using sp unfolding in_pieces_snapshot by blast
    have f: "sp_cell sp = p" "sp_state sp = getState (slot (eng_board e) p)"
      by (simp_all add: p(3) snapshotPiece_def Let_def case_prod_beta)
    have "getState (slot (eng_board e) p) \<noteq> Captured"
      using engine_okD(2) [OF ok] p(1,2) by (auto simp: board_wf_def piece_ok_def)
    then show ?thesis
      using p(1) snapshotPiece_target [OF ok p(1)] snapshotPiece_progress [OF ok] snapshotPiece_rest [OF ok c]
      by (simp add: f b p(3) less_imp_le)
  qed
  then show ?thesis using assms by (auto simp: drawable_def onBoard64_def)
qed

lemma drawable_selection [simp]: "drawable (controllerSnapshot snap c) = drawable snap"
  by (auto simp: drawable_def controllerSnapshot_def split: option.split)

lemma drawable_empty: "drawable emptySnapshot"
  by (simp add: drawable_def emptySnapshot_def)

section \<open>The client never stops drawing\<close>

text \<open>
  \<open>roomText s t\<close>: the text is the step payload of the session \<open>s\<close>, on a board of eight by eight;
  \<open>otherText t\<close>: it is no snapshot, whatever else it may be.
\<close>

definition roomText :: "(string \<Rightarrow> json option) \<Rightarrow> game_session \<Rightarrow> string \<Rightarrow> bool" where
  "roomText parse s t \<longleftrightarrow> onBoard64 (gs_engine s) \<and> session_fits s \<and>
     (\<exists>j. stepPayload s = Inr j \<and> parse t = Some (canon j))"

definition otherText :: "(string \<Rightarrow> json option) \<Rightarrow> string \<Rightarrow> bool" where
  "otherText parse t \<longleftrightarrow> (case parse t of None \<Rightarrow> True
     | Some j \<Rightarrow> sbind (jvalueString ''type'' [] j) typeFromName \<noteq> Inr SnapshotMsg)"

fun no_snapshot :: "(string \<Rightarrow> json option) \<Rightarrow> app_event \<Rightarrow> bool" where
  "no_snapshot parse (NetText t) = otherText parse t"
| "no_snapshot parse _ = True"

fun app_event_ok :: "(string \<Rightarrow> json option) \<Rightarrow> app_event \<Rightarrow> bool" where
  "app_event_ok parse (NetText t) = (otherText parse t \<or> (\<exists>s. roomText parse s t))"
| "app_event_ok parse _ = True"

text \<open>The files the client asks for are there: the two backgrounds, and for every kind, colour and state a configuration and its sprites.\<close>

definition files_ok :: "string \<Rightarrow> (string \<Rightarrow> (int \<times> int) option) \<Rightarrow> (string \<Rightarrow> asset_error + animation_config) \<Rightarrow> bool" where
  "files_ok dir imread configs \<longleftrightarrow> imread (dir @ ''/board.png'') \<noteq> None \<and> imread (dir @ ''/canvas.png'') \<noteq> None \<and>
     (\<forall>k c s d. stateDir dir k c s = Inr d \<longrightarrow>
        (\<exists>config. configs (d @ ''/config.json'') = Inr config \<and> 0 < frame_count config \<and>
           (\<forall>i \<in> {1..frame_count config}. imread (d @ ''/sprites/'' @ showInt i @ ''.png'') \<noteq> None)))"

text \<open>
  The picture of a piece: the file in the folder of its kind, colour and state, at the frame its animation has
  reached after the given time.
\<close>

definition spriteFor ::
  "string \<Rightarrow> (string \<Rightarrow> asset_error + animation_config) \<Rightarrow> int \<Rightarrow> snapshot_piece \<Rightarrow> image \<Rightarrow> bool" where
  "spriteFor dir configs cell p im \<longleftrightarrow> im_width im = cell \<and> im_height im = cell \<and>
     (case sbind (configPath dir (sp_kind p) (sp_color p) (sp_state p)) configs of
        Inl ex \<Rightarrow> False
      | Inr config \<Rightarrow>
          spritePath dir (sp_kind p) (sp_color p) (sp_state p)
            (selectAnimationFrame (elapsed_in_state_ms p) (frames_per_sec config) (is_loop config) (frame_count config)) = Inr (im_path im))"

lemma plainSprite_for:
  assumes "plainSprite (fileAssets imread configs dir) cell (sp_kind p) (sp_color p) (sp_state p) (elapsed_in_state_ms p) = Inr im"
    and "im_width im = cell" "im_height im = cell"
  shows "spriteFor dir configs cell p im"
proof -
  have path: "im_path x = s" if "imgRead imread s size = Inr x" for s size x
    using that by (auto simp: imgRead_def split: option.splits if_splits)
  show ?thesis
    using assms by (auto simp: spriteFor_def plainSprite_def fileAssets_def sbind_Inr_iff dest!: path)
qed

definition shownOf :: "app \<Rightarrow> game_snapshot" where
  "shownOf a = ns_snapshot (nh_state (ap_handler a))"

definition app_ok :: "app \<Rightarrow> bool" where
  "app_ok a \<longleftrightarrow> view_ok (ap_view a) \<and> window_ok (ap_window a) \<and> drawable (shownOf a)"

lemma handlers_keep_snapshot:
  "handleMoveLogged data h = Inr (sounds, h') \<Longrightarrow> ns_snapshot (nh_state h') = ns_snapshot (nh_state h)"
  "handleCaptureEvent data h = Inr (sounds, h') \<Longrightarrow> ns_snapshot (nh_state h') = ns_snapshot (nh_state h)"
  "handleCommandAck data h = Inr (sounds, h') \<Longrightarrow> ns_snapshot (nh_state h') = ns_snapshot (nh_state h)"
  by (auto simp: handleMoveLogged_def handleCaptureEvent_def handleCommandAck_def Let_def sbind_Inr_iff)

lemma onMessage_other:
  assumes "otherText parse t"
  shows "ns_snapshot (nh_state (snd (onMessage parse t h))) = ns_snapshot (nh_state h)"
proof (cases "parse t")
  case (Some j)
  show ?thesis
  proof (cases "sbind (jvalueString ''type'' [] j) typeFromName")
    case (Inr ty)
    then have ty: "ty \<noteq> SnapshotMsg" using assms Some by (simp add: otherText_def)
    have keep: "ns_snapshot (nh_state (snd (case r of Inl ex \<Rightarrow> ([], h) | Inr x \<Rightarrow> x))) = ns_snapshot (nh_state h)"
      if "\<And>x. r = Inr x \<Longrightarrow> ns_snapshot (nh_state (snd x)) = ns_snapshot (nh_state h)" for r :: "json_error + (string list \<times> network_handler)"
      using that by (cases r) auto
    show ?thesis
      unfolding onMessage_def Some option.case Inr sbind_simps
      by (rule keep) (use ty handlers_keep_snapshot in \<open>cases ty; force simp: sbind_Inr_iff\<close>)
  qed (simp add: onMessage_def Some)
qed (simp add: onMessage_def)

lemma onMessage_room:
  assumes "roomText parse s t"
  shows "ns_snapshot (nh_state (snd (onMessage parse t h))) = snapshot (gs_engine s)"
  using assms client_shows_room [of s _ parse t h] by (auto simp: roomText_def shown_def)

lemma files_sprites_ok:
  assumes "files_ok dir imread configs" "60 \<le> cell"
  shows "sprites_ok cell (plainSprite (fileAssets imread configs dir) cell)"
  unfolding sprites_ok_def
proof (intro allI impI)
  fix k c s t assume k: "k \<noteq> NoKind \<and> s \<noteq> Captured"
  obtain d where d: "stateDir dir k c s = Inr d" using k by (cases k; cases s) (auto simp: stateDir_def pieceFolder_def stateToFolderName.simps)
  obtain config where config: "configs (d @ ''/config.json'') = Inr config" "0 < frame_count config"
      "\<And>i. 1 \<le> i \<Longrightarrow> i \<le> frame_count config \<Longrightarrow> imread (d @ ''/sprites/'' @ showInt i @ ''.png'') \<noteq> None"
    using assms(1) d unfolding files_ok_def by (metis atLeastAtMost_iff)
  define p where "p = d @ ''/sprites/'' @ showInt (selectAnimationFrame t (frames_per_sec config) (is_loop config) (frame_count config) + 1) @ ''.png''"
  have "\<exists>im. imgRead imread p (cell, cell) = Inr im \<and> im_width im = cell \<and> im_height im = cell"
  proof -
    have "imread p \<noteq> None"
      unfolding p_def
      using config(3) selectAnimationFrame_range [OF config(2), of t "frames_per_sec config" "is_loop config"] by simp
    then obtain size where "imread p = Some size" by blast
    then show ?thesis using assms(2) by (simp add: imgRead_def case_prod_beta)
  qed
  then show "\<exists>im. plainSprite (fileAssets imread configs dir) cell k c s t = Inr im \<and> im_width im = cell \<and> im_height im = cell"
    by (simp add: plainSprite_def fileAssets_def configPath_def spritePath_def d config(1) p_def)
qed

text \<open>One step.\<close>

lemma app_step_ok:
  assumes "files_ok dir imread configs" "app_ok a" "app_event_ok parse ev" "app_step parse imread (fileAssets imread configs dir) ev a = (sounds, r, a')"
  obtains ops where "r = Inr ops" "app_ok a'" "no_snapshot parse ev \<Longrightarrow> shownOf a' = shownOf a"
    "\<And>t s. ev = NetText t \<Longrightarrow> roomText parse s t \<Longrightarrow> shownOf a' = snapshot (gs_engine s)"
    "ev = Frame \<Longrightarrow> list_all (inside (im_width (vw_canvas (ap_view a'))) (im_height (vw_canvas (ap_view a')))) ops \<and>
       (\<forall>p \<in> set (pieces (shownOf a')). sp_kind p \<noteq> NoKind \<longrightarrow>
          (\<exists>im. spriteFor dir configs (wn_cellSize (ap_window a')) p im \<and>
             DrawImage im (drawX (wn_cellSize (ap_window a')) p) (drawY (wn_cellSize (ap_window a')) p) \<in> set ops)) \<and>
       wn_snapshot (ap_window a') = shownOf a'"
proof (cases ev)
  case (NetText t)
  then have a': "r = Inr []" "a' = a\<lparr>ap_handler := snd (onMessage parse t (ap_handler a))\<rparr>"
    using assms(4) by (auto simp: case_prod_beta)
  have other: "otherText parse t \<Longrightarrow> shownOf a' = shownOf a" and room: "\<And>s. roomText parse s t \<Longrightarrow> shownOf a' = snapshot (gs_engine s)"
    using onMessage_other onMessage_room by (simp_all add: a' shownOf_def)
  have dr: "drawable (shownOf a')"
  proof (cases "otherText parse t")
    case True
    then show ?thesis using other assms(2) by (simp add: app_ok_def)
  next
    case False
    then obtain s where s: "roomText parse s t" using assms(3) NetText by auto
    then show ?thesis using room [OF s] drawable_snapshot by (simp add: roomText_def)
  qed
  show thesis
  proof (rule that)
    show "app_ok a'" using dr assms(2) by (simp add: a' app_ok_def)
    show "no_snapshot parse ev \<Longrightarrow> shownOf a' = shownOf a" using other by (simp add: NetText)
    show "\<And>t' s. ev = NetText t' \<Longrightarrow> roomText parse s t' \<Longrightarrow> shownOf a' = snapshot (gs_engine s)" using room by (simp add: NetText)
  qed (simp_all add: a' NetText)
next
  case (Mouse e x y)
  then have a': "r = Inr []" "a' = a\<lparr>ap_window := window_step (e, x, y) (ap_window a)\<rparr>"
    using assms(4) by (auto simp: case_prod_beta)
  have "window_ok (ap_window a')" using assms(2) mouse.step_invar [of "ap_window a" "(e, x, y)"] by (simp add: a' app_ok_def)
  then show thesis using that [of "[]"] assms(2) by (simp add: a' Mouse app_ok_def shownOf_def)
next
  case Frame
  let ?h = "snd (checkPendingCaptureSounds (ap_handler a))" and ?cell = "wn_cellSize (ap_window a)"
  let ?snap = "controllerSnapshot (shownOf a) (wn_controller (ap_window a))" and ?v = "feedView (nh_state (ap_handler a)) (ap_view a)"
  have h: "nh_state ?h = nh_state (ap_handler a)" by (simp add: checkPendingCaptureSounds_def Let_def)
  have cell: "60 \<le> ?cell" using assms(2) by (simp add: app_ok_def window_ok_def MIN_CELL_SIZE_def)
  have vok: "view_ok ?v" using assms(2) by (simp add: app_ok_def view_ok_def feedView_def)
  have dr: "drawable ?snap" using assms(2) by (simp add: app_ok_def)
  have im: "imread (dir @ ''/board.png'') \<noteq> None \<and> imread (dir @ ''/canvas.png'') \<noteq> None" using assms(1) by (simp add: files_ok_def)
  obtain ops title v' where rd: "render imread (plainSprite (fileAssets imread configs dir) ?cell) dir ?cell ?snap ?v = Inr (ops, title, v')"
    "view_ok v'" "list_all (inside (im_width (vw_canvas v')) (im_height (vw_canvas v'))) ops"
    "\<forall>p \<in> set (pieces ?snap). sp_kind p \<noteq> NoKind \<longrightarrow>
       (\<exists>im. plainSprite (fileAssets imread configs dir) ?cell (sp_kind p) (sp_color p) (sp_state p) (elapsed_in_state_ms p) = Inr im \<and>
          im_width im = ?cell \<and> im_height im = ?cell \<and> DrawImage im (drawX ?cell p) (drawY ?cell p) \<in> set ops)"
    by (rule render_ok [OF vok dr cell im files_sprites_ok [OF assms(1) cell]])
  have drawn: "\<forall>p \<in> set (pieces ?snap). sp_kind p \<noteq> NoKind \<longrightarrow>
       (\<exists>im. spriteFor dir configs ?cell p im \<and> DrawImage im (drawX ?cell p) (drawY ?cell p) \<in> set ops)"
    using rd(4) plainSprite_for by blast
  have a': "r = Inr ops" "shownOf a' = shownOf a" "ap_view a' = v'" "ap_window a' = (ap_window a)\<lparr>wn_snapshot := shownOf a\<rparr>"
    using assms(4) rd(1) by (auto simp: Frame appFrame_def Let_def case_prod_beta h shownOf_def fileAssets_def)
  have "pieces ?snap = pieces (shownOf a)" by (simp add: controllerSnapshot_def split: option.split)
  then show thesis using that [of ops] rd(2,3) drawn assms(2) by (simp add: a' Frame app_ok_def window_ok_def)
qed

lemma app_run_ok:
  assumes "files_ok dir imread configs" "app_ok a" "list_all (app_event_ok parse) evs"
  shows "\<exists>sounds frames a'. app_run parse imread (fileAssets imread configs dir) evs a = (sounds, frames, Inr a') \<and> app_ok a' \<and>
     length frames = length (filter ((=) Frame) evs) \<and> (list_all (no_snapshot parse) evs \<longrightarrow> shownOf a' = shownOf a)"
  using assms(2,3)
proof (induction evs arbitrary: a)
  case (Cons ev evs)
  obtain sounds r a1 where st: "app_step parse imread (fileAssets imread configs dir) ev a = (sounds, r, a1)" by (metis prod.exhaust)
  obtain ops where ops: "r = Inr ops" "app_ok a1" "no_snapshot parse ev \<Longrightarrow> shownOf a1 = shownOf a"
    by (rule app_step_ok [OF assms(1) Cons.prems(1) _ st]) (use Cons.prems(2) in auto)
  obtain more frames a' where run: "app_run parse imread (fileAssets imread configs dir) evs a1 = (more, frames, Inr a')" "app_ok a'"
      "length frames = length (filter ((=) Frame) evs)" "list_all (no_snapshot parse) evs \<longrightarrow> shownOf a' = shownOf a1"
    using Cons.IH [OF ops(2)] Cons.prems(2) by auto
  then show ?case using ops by (auto simp: st)
qed simp

lemma app_run_append:
  assumes "app_run parse imread as xs a = (sounds, frames, Inr a1)" "app_run parse imread as ys a1 = (sounds', frames', r)"
  shows "app_run parse imread as (xs @ ys) a = (sounds @ sounds', frames @ frames', r)"
  using assms(1)
proof (induction xs arbitrary: a sounds frames)
  case (Cons ev xs)
  obtain s1 r1 a2 where st: "app_step parse imread as ev a = (s1, r1, a2)" by (metis prod.exhaust)
  obtain ops where r1: "r1 = Inr ops" using Cons.prems by (cases r1) (auto simp: st)
  obtain s2 f2 r2 where run: "app_run parse imread as xs a2 = (s2, f2, r2)" by (metis prod.exhaust)
  then have "r2 = Inr a1" "sounds = s1 @ s2" "frames = (if ev = Frame then ops # f2 else f2)" using Cons.prems by (auto simp: st r1)
  then show ?case using Cons.IH [of a2 s2 f2] run by (auto simp: st r1)
qed (use assms(2) in simp)

lemma enterGame_ok:
  assumes "enterGame emptySnapshot home = Inr a"
  shows "app_ok a"
  using assms drawable_empty
  by (auto simp: enterGame_def sbind_Inr_iff app_ok_def view_ok_def window_ok_def newView_def shownOf_def seedMoveLog_def
      newNetworkHandler_def MIN_CELL_SIZE_def MAX_CELL_SIZE_def CELL_SIZE_def)

text \<open>From the tick of a room to the pixels: the frame drawn after a step payload shows the board of the room.\<close>

lemma client_draws_room:
  assumes files: "files_ok dir imread configs" and home: "enterGame emptySnapshot home = Inr a0" and before: "list_all (app_event_ok parse) evs1"
    and t: "roomText parse s t" and since: "list_all (no_snapshot parse) evs2"
  obtains sounds frames ops a where
    "app_run parse imread (fileAssets imread configs dir) (evs1 @ NetText t # evs2 @ [Frame]) a0 = (sounds, frames @ [ops], Inr a)"
    "list_all (inside (im_width (vw_canvas (ap_view a))) (im_height (vw_canvas (ap_view a)))) ops"
    "wn_snapshot (ap_window a) = snapshot (gs_engine s)"
    "\<forall>p \<in> set (pieces (snapshot (gs_engine s))). \<exists>im. spriteFor dir configs (wn_cellSize (ap_window a)) p im \<and>
       DrawImage im (drawX (wn_cellSize (ap_window a)) p) (drawY (wn_cellSize (ap_window a)) p) \<in> set ops"
    "length frames = length (filter ((=) Frame) (evs1 @ evs2))" "app_ok a"
proof -
  let ?as = "fileAssets imread configs dir"
  obtain s1 f1 a1 where r1: "app_run parse imread ?as evs1 a0 = (s1, f1, Inr a1)" "app_ok a1" "length f1 = length (filter ((=) Frame) evs1)"
    using app_run_ok [OF files enterGame_ok [OF home] before] by metis
  obtain s2 r a2 where st: "app_step parse imread ?as (NetText t) a1 = (s2, r, a2)" by (metis prod.exhaust)
  have ev: "app_event_ok parse (NetText t)" using t by auto
  obtain ops2 where o2: "r = Inr ops2" "app_ok a2" "shownOf a2 = snapshot (gs_engine s)"
    by (rule app_step_ok [OF files r1(2) ev st]) (use t in auto)
  have "list_all (app_event_ok parse) evs2"
    using since unfolding list_all_iff by (metis no_snapshot.elims(2) app_event_ok.simps)
  from app_run_ok [OF files o2(2) this]
  obtain s3 f3 a3 where r3: "app_run parse imread ?as evs2 a2 = (s3, f3, Inr a3)" "app_ok a3" "length f3 = length (filter ((=) Frame) evs2)"
      "shownOf a3 = snapshot (gs_engine s)"
    using since o2(3) by metis
  obtain s4 r4 a4 where st4: "app_step parse imread ?as Frame a3 = (s4, r4, a4)" by (metis prod.exhaust)
  have ev4: "app_event_ok parse Frame" by simp
  obtain ops where o4: "r4 = Inr ops" "app_ok a4" "shownOf a4 = shownOf a3" "wn_snapshot (ap_window a4) = shownOf a4"
      "list_all (inside (im_width (vw_canvas (ap_view a4))) (im_height (vw_canvas (ap_view a4)))) ops"
      "\<forall>p \<in> set (pieces (shownOf a4)). sp_kind p \<noteq> NoKind \<longrightarrow>
          (\<exists>im. spriteFor dir configs (wn_cellSize (ap_window a4)) p im \<and>
             DrawImage im (drawX (wn_cellSize (ap_window a4)) p) (drawY (wn_cellSize (ap_window a4)) p) \<in> set ops)"
    by (rule app_step_ok [OF files r3(2) ev4 st4]) (metis no_snapshot.simps(3))
  have kind: "sp_kind p \<noteq> NoKind" if "p \<in> set (pieces (snapshot (gs_engine s)))" for p
    using that by (auto simp: in_pieces_snapshot snapshotPiece_def Let_def case_prod_beta)
  have r2: "app_run parse imread ?as [NetText t] a1 = (s2, [], Inr a2)" using st o2(1) by simp
  have r4: "app_run parse imread ?as [Frame] a3 = (s4, [ops], Inr a4)" using st4 o4(1) by simp
  have run: "app_run parse imread ?as (evs1 @ [NetText t] @ evs2 @ [Frame]) a0 = (s1 @ s2 @ s3 @ s4, f1 @ [] @ f3 @ [ops], Inr a4)"
    by (intro app_run_append [OF r1(1)] app_run_append [OF r2] app_run_append [OF r3(1)] r4)
  show thesis
    by (rule that [of "s1 @ s2 @ s3 @ s4" "f1 @ f3" ops a4]) (use run o4 r1(3) r3(3,4) kind in simp_all)
qed

section \<open>A piece is clicked where it is drawn\<close>

lemma click_on_picture:
  assumes p: "findAt (wn_snapshot w) (sp_cell p) = Some p" "travelProgress p = 0"
    and board: "0 \<le> row (sp_cell p)" "row (sp_cell p) < board_height (wn_snapshot w)" "0 \<le> col (sp_cell p)" "col (sp_cell p) < board_width (wn_snapshot w)"
    and cell: "0 < wn_cellSize w"
    and x: "drawX (wn_cellSize w) p \<le> x" "x < drawX (wn_cellSize w) p + wn_cellSize w"
    and y: "drawY (wn_cellSize w) p \<le> y" "y < drawY (wn_cellSize w) p + wn_cellSize w"
    and handle: "\<not> isInHandle (wn_cellSize w) (board_width (wn_snapshot w)) (board_height (wn_snapshot w)) x y"
    and sel: "selectedPos (wn_controller w) = None"
  shows "onMouseEvent LButtonDown x y w =
    ([soundClick], if myColor (wn_controller w) = None \<or> myColor (wn_controller w) = Some (sp_color p)
       then w\<lparr>wn_controller := (wn_controller w)\<lparr>selectedPos := Some (sp_cell p)\<rparr>\<rparr> else w)"
proof -
  have at: "(a - m) sdiv c = r \<and> 0 \<le> a - m \<and> a - m < n * c"
    if "m + r * c \<le> a" "a < m + r * c + c" "0 \<le> r" "r < n" "0 < c" for a m c r n :: int
  proof -
    have "(r + 1) * c \<le> n * c" using that by (intro mult_right_mono) simp_all
    then have b: "a - m < n * c" using that(2) by (simp add: distrib_right)
    have "0 \<le> r * c" using that by simp
    then have n: "0 \<le> a - m" using that(1) by simp
    have "(a - m) div c = r" using that(1,2,5) by (intro int_div_pos_eq [where r = "a - m - r * c"]) (simp_all add: mult.commute)
    then show ?thesis using sdiv_pixel [OF n b that(5)] n b by simp
  qed
  have d: "drawX (wn_cellSize w) p = PANEL_WIDTH + col (sp_cell p) * wn_cellSize w"
    "drawY (wn_cellSize w) p = BOARD_MARGIN + row (sp_cell p) * wn_cellSize w"
    by (simp_all add: drawX_def drawY_def Let_def p(2) truncRat_def)
  note ax = at [OF x [unfolded d] board(3,4) cell] and ay = at [OF y [unfolded d] board(1,2) cell]
  have m: "mapToPosition (x - PANEL_WIDTH) (y - BOARD_MARGIN) (wn_cellSize w) = sp_cell p"
    using ax ay by (simp add: mapToPosition_def)
  show ?thesis
    using handle ax ay sel p(1) by (auto simp: onMouseEvent_def onMouseClick_def handleMouseClick_def Let_def m resolveClick_def not_less)
qed

end
