(* ===== verification/Gateway_Laws.thy ===== *)
theory Gateway_Laws
  imports Gateway
begin

text \<open>
  The laws of the gateway: a link forwards every frame once and in order and to nobody else, every
  HTTP request is answered or waits in exactly one place, and a token is only given to somebody a
  shard has let in.
\<close>

section \<open>Links\<close>

datatype ws_event =
  ClientOpen "string list" "string option" "string \<Rightarrow> conn option" conn
| ClientMessage conn frame
| ClientClose conn
| UpstreamOpen conn
| UpstreamMessage conn frame
| UpstreamGone conn

fun ws_step :: "ws_event \<Rightarrow> ws_gateway \<Rightarrow> ws_effect list \<times> ws_gateway" where
  "ws_step (ClientOpen shards hint connect d) gw = onClientOpen shards hint connect d gw"
| "ws_step (ClientMessage d f) gw = onClientMessage d f gw"
| "ws_step (ClientClose d) gw = onClientClose d gw"
| "ws_step (UpstreamOpen u) gw = onUpstreamOpen u gw"
| "ws_step (UpstreamMessage u f) gw = onUpstreamMessage u f gw"
| "ws_step (UpstreamGone u) gw = onUpstreamGone u gw"

fun ws_run :: "ws_event list \<Rightarrow> ws_gateway \<Rightarrow> ws_effect list \<times> ws_gateway" where
  "ws_run [] gw = ([], gw)"
| "ws_run (ev # evs) gw = (let (o1, gw1) = ws_step ev gw; (o2, gw2) = ws_run evs gw1 in (o1 @ o2, gw2))"

text \<open>A new connection gets a handle no open connection has.\<close>

fun ws_fresh :: "ws_event \<Rightarrow> ws_gateway \<Rightarrow> bool" where
  "ws_fresh (ClientOpen shards hint connect d) gw \<longleftrightarrow>
     map_of (wg_byDownstream gw) d = None \<and> (\<forall>uri u. connect uri = Some u \<longrightarrow> map_of (wg_byUpstream gw) u = None)"
| "ws_fresh _ gw \<longleftrightarrow> True"

fun ws_valid :: "ws_event list \<Rightarrow> ws_gateway \<Rightarrow> bool" where
  "ws_valid [] gw \<longleftrightarrow> True"
| "ws_valid (ev # evs) gw \<longleftrightarrow> ws_fresh ev gw \<and> ws_valid evs (snd (ws_step ev gw))"

text \<open>
  The two maps of the gateway, as functions to the links: they lead to the same links, each under
  its own two handles.
\<close>

definition links_ok :: "(conn \<rightharpoonup> nat) \<Rightarrow> (conn \<rightharpoonup> nat) \<Rightarrow> (nat \<rightharpoonup> link) \<Rightarrow> nat \<Rightarrow> bool" where
  "links_ok D U L n \<longleftrightarrow>
     (\<forall>d i. D d = Some i \<longrightarrow> (\<exists>lk. L i = Some lk \<and> lk_downstreamHdl lk = d \<and> U (lk_upstreamHdl lk) = Some i)) \<and>
     (\<forall>u i. U u = Some i \<longrightarrow> (\<exists>lk. L i = Some lk \<and> lk_upstreamHdl lk = u \<and> D (lk_downstreamHdl lk) = Some i)) \<and>
     (\<forall>i lk. L i = Some lk \<longrightarrow> i < n \<and> (lk_upstreamOpen lk \<longrightarrow> lk_pending lk = []))"

lemma links_okD:
  assumes "links_ok D U L n"
  shows "D d = Some i \<Longrightarrow> \<exists>lk. L i = Some lk \<and> lk_downstreamHdl lk = d \<and> U (lk_upstreamHdl lk) = Some i"
    "U u = Some i \<Longrightarrow> \<exists>lk. L i = Some lk \<and> lk_upstreamHdl lk = u \<and> D (lk_downstreamHdl lk) = Some i"
    "L i = Some lk \<Longrightarrow> i < n" "L i = Some lk \<Longrightarrow> lk_upstreamOpen lk \<Longrightarrow> lk_pending lk = []"
    "D d = Some i \<Longrightarrow> i < n" "U u = Some i \<Longrightarrow> i < n"
  using assms unfolding links_ok_def by blast+

lemma links_ok_add:
  assumes "links_ok D U L n" "D d = None" "U u = None" "lk_downstreamHdl lk = d" "lk_upstreamHdl lk = u" "\<not> lk_upstreamOpen lk"
  shows "links_ok (D(d \<mapsto> n)) (U(u \<mapsto> n)) (L(n \<mapsto> lk)) (Suc n)"
proof -
  note ok = links_okD [OF assms(1)]
  have "\<exists>k. (L(n \<mapsto> lk)) i = Some k \<and> lk_downstreamHdl k = e \<and> (U(u \<mapsto> n)) (lk_upstreamHdl k) = Some i"
    if D: "(D(d \<mapsto> n)) e = Some i" for e i
  proof (cases "e = d")
    case True
    then show ?thesis using that assms(4,5) by simp
  next
    case False
    then obtain k where k: "L i = Some k" "lk_downstreamHdl k = e" "U (lk_upstreamHdl k) = Some i" "i < n"
      using D ok(1,5) [of e i] by auto
    then have "lk_upstreamHdl k \<noteq> u" using assms(3) by auto
    then show ?thesis using k by (intro exI [of _ k]) simp
  qed
  moreover have "\<exists>k. (L(n \<mapsto> lk)) i = Some k \<and> lk_upstreamHdl k = v \<and> (D(d \<mapsto> n)) (lk_downstreamHdl k) = Some i"
    if U: "(U(u \<mapsto> n)) v = Some i" for v i
  proof (cases "v = u")
    case True
    then show ?thesis using that assms(4,5) by simp
  next
    case False
    then obtain k where k: "L i = Some k" "lk_upstreamHdl k = v" "D (lk_downstreamHdl k) = Some i" "i < n"
      using U ok(2,6) [of v i] by auto
    then have "lk_downstreamHdl k \<noteq> d" using assms(2) by auto
    then show ?thesis using k by (intro exI [of _ k]) simp
  qed
  moreover have "i < Suc n \<and> (lk_upstreamOpen k \<longrightarrow> lk_pending k = [])" if "(L(n \<mapsto> lk)) i = Some k" for i k
    using that ok(3,4) [of i k] assms(6) by (cases "i = n") auto
  ultimately show ?thesis unfolding links_ok_def by blast
qed

lemma links_ok_remove:
  assumes "links_ok D U L n" "D d = Some i" "L i = Some lk"
  shows "links_ok (D(d := None)) (U(lk_upstreamHdl lk := None)) L n"
proof -
  note ok = links_okD [OF assms(1)]
  have lk: "lk_downstreamHdl lk = d" "U (lk_upstreamHdl lk) = Some i" using ok(1) [OF assms(2)] assms(3) by auto
  have "\<exists>k. L j = Some k \<and> lk_downstreamHdl k = e \<and> (U(lk_upstreamHdl lk := None)) (lk_upstreamHdl k) = Some j"
    if "(D(d := None)) e = Some j" for e j
  proof -
    have e: "e \<noteq> d" "D e = Some j" using that by (auto split: if_splits)
    then obtain k where k: "L j = Some k" "lk_downstreamHdl k = e" "U (lk_upstreamHdl k) = Some j" using ok(1) by blast
    then have "lk_upstreamHdl k \<noteq> lk_upstreamHdl lk" using e(1) lk assms(3) by auto
    then show ?thesis using k by (intro exI [of _ k]) simp
  qed
  moreover have "\<exists>k. L j = Some k \<and> lk_upstreamHdl k = v \<and> (D(d := None)) (lk_downstreamHdl k) = Some j"
    if "(U(lk_upstreamHdl lk := None)) v = Some j" for v j
  proof -
    have v: "v \<noteq> lk_upstreamHdl lk" "U v = Some j" using that by (auto split: if_splits)
    then obtain k where k: "L j = Some k" "lk_upstreamHdl k = v" "D (lk_downstreamHdl k) = Some j" using ok(2) by blast
    then have "lk_downstreamHdl k \<noteq> d" using v(1) assms(2,3) by auto
    then show ?thesis using k by (intro exI [of _ k]) simp
  qed
  ultimately show ?thesis using ok(3,4) unfolding links_ok_def by blast
qed

lemma links_ok_update:
  assumes "links_ok D U L n" "\<And>lk. lk_downstreamHdl (f lk) = lk_downstreamHdl lk \<and> lk_upstreamHdl (f lk) = lk_upstreamHdl lk"
    "\<And>lk. L i = Some lk \<Longrightarrow> lk_upstreamOpen (f lk) \<Longrightarrow> lk_pending (f lk) = []"
  shows "links_ok D U (L(i := map_option f (L i))) n"
proof -
  note ok = links_okD [OF assms(1)]
  have "\<exists>k. (L(i := map_option f (L i))) j = Some k \<and> lk_downstreamHdl k = e \<and> U (lk_upstreamHdl k) = Some j" if "D e = Some j" for e j
    using ok(1) [OF that] assms(2) by (cases "j = i") auto
  moreover have "\<exists>k. (L(i := map_option f (L i))) j = Some k \<and> lk_upstreamHdl k = v \<and> D (lk_downstreamHdl k) = Some j" if "U v = Some j" for v j
    using ok(2) [OF that] assms(2) by (cases "j = i") auto
  moreover have "j < n \<and> (lk_upstreamOpen k \<longrightarrow> lk_pending k = [])" if "(L(i := map_option f (L i))) j = Some k" for j k
    using that ok(3,4) [of j] assms(3) by (cases "j = i") auto
  ultimately show ?thesis unfolding links_ok_def by blast
qed

definition gateway_ok :: "ws_gateway \<Rightarrow> bool" where
  "gateway_ok gw \<longleftrightarrow> links_ok (map_of (wg_byDownstream gw)) (map_of (wg_byUpstream gw)) (map_of (wg_links gw)) (wg_next gw)"

lemmas gateway_okD = links_okD [OF gateway_ok_def [THEN iffD1]]

lemma map_of_map_entry_fun: "map_of (AList.map_entry k f al) = (map_of al)(k := map_option f (map_of al k))"
  by (auto simp: fun_eq_iff map_of_map_entry split: option.split)

text \<open>The link between the client \<open>d\<close> and the shard connection \<open>u\<close>.\<close>

definition linked :: "conn \<Rightarrow> conn \<Rightarrow> link \<Rightarrow> ws_gateway \<Rightarrow> bool" where
  "linked d u lk gw \<longleftrightarrow> (\<exists>i. map_of (wg_byDownstream gw) d = Some i \<and> map_of (wg_byUpstream gw) u = Some i \<and>
     map_of (wg_links gw) i = Some lk \<and> lk_downstreamHdl lk = d \<and> lk_upstreamHdl lk = u)"

lemma linkAt_cases:
  assumes "gateway_ok gw"
  shows "linkAt (wg_byDownstream gw) d gw = None \<longleftrightarrow> map_of (wg_byDownstream gw) d = None"
    "linkAt (wg_byUpstream gw) u gw = None \<longleftrightarrow> map_of (wg_byUpstream gw) u = None"
    "linkAt (wg_byDownstream gw) d gw = Some (i, lk) \<longleftrightarrow> map_of (wg_byDownstream gw) d = Some i \<and> map_of (wg_links gw) i = Some lk"
    "linkAt (wg_byUpstream gw) u gw = Some (i, lk) \<longleftrightarrow> map_of (wg_byUpstream gw) u = Some i \<and> map_of (wg_links gw) i = Some lk"
  using gateway_okD(1,2) [OF assms] by (force simp: linkAt_def split: option.splits)+

fun sentUp :: "conn \<Rightarrow> ws_effect list \<Rightarrow> frame list" where
  "sentUp u [] = []"
| "sentUp u (SendUpstream v t # fx) = (if v = u then [t] else []) @ sentUp u fx"
| "sentUp u (_ # fx) = sentUp u fx"

fun sentDown :: "conn \<Rightarrow> ws_effect list \<Rightarrow> frame list" where
  "sentDown d [] = []"
| "sentDown d (SendDownstream v t # fx) = (if v = d then [t] else []) @ sentDown d fx"
| "sentDown d (_ # fx) = sentDown d fx"

fun fromClient :: "conn \<Rightarrow> ws_event list \<Rightarrow> frame list" where
  "fromClient d [] = []"
| "fromClient d (ClientMessage v t # evs) = (if v = d then [t] else []) @ fromClient d evs"
| "fromClient d (_ # evs) = fromClient d evs"

fun fromShard :: "conn \<Rightarrow> ws_event list \<Rightarrow> frame list" where
  "fromShard u [] = []"
| "fromShard u (UpstreamMessage v t # evs) = (if v = u then [t] else []) @ fromShard u evs"
| "fromShard u (_ # evs) = fromShard u evs"

lemma sentUp_append [simp]: "sentUp u (fx @ gx) = sentUp u fx @ sentUp u gx"
  by (induction u fx rule: sentUp.induct) simp_all

lemma sentDown_append [simp]: "sentDown d (fx @ gx) = sentDown d fx @ sentDown d gx"
  by (induction d fx rule: sentDown.induct) simp_all

text \<open>What waits is flushed as text: valid text unchanged, anything else is lost.\<close>

abbreviation flushed :: "string list \<Rightarrow> frame list" where
  "flushed ts \<equiv> map (Pair TextFrame) (filter validUtf8 ts)"

lemma sent_flush [simp]:
  "sentUp u (concat (map (\<lambda>t. sendFrame (SendUpstream v) (TextFrame, t)) ts)) = (if v = u then flushed ts else [])"
  "sentDown d (concat (map (\<lambda>t. sendFrame (SendUpstream v) (TextFrame, t)) ts)) = []"
  by (induction ts) (simp_all add: sendFrame_def sendable_def)

lemma sent_frame [simp]:
  "sentUp u (sendFrame (SendUpstream v) f) = (if v = u \<and> sendable f then [f] else [])"
  "sentDown d (sendFrame (SendUpstream v) f) = []"
  "sentUp u (sendFrame (SendDownstream v) f) = []"
  "sentDown d (sendFrame (SendDownstream v) f) = (if v = d \<and> sendable f then [f] else [])"
  by (simp_all add: sendFrame_def)

lemma from_Cons:
  "fromClient d (ev # evs) = fromClient d [ev] @ fromClient d evs" "fromShard u (ev # evs) = fromShard u [ev] @ fromShard u evs"
  by (cases ev; simp)+

lemma map_of_fun: "map_of (AList.update k v al) = (map_of al)(k \<mapsto> v)" "map_of (AList.delete k al) = (map_of al)(k := None)"
  by (auto simp: fun_eq_iff)

lemma gateway_ok_step:
  assumes ok: "gateway_ok gw" and f: "ws_fresh ev gw"
  shows "gateway_ok (snd (ws_step ev gw))"
proof (cases ev)
  case (ClientOpen shards hint connect d)
  obtain uri rr where r: "routeClient hint shards (wg_roundRobinNext gw) = (uri, rr)" by (cases "routeClient hint shards (wg_roundRobinNext gw)")
  show ?thesis
  proof (cases "shards = [] \<or> connect uri = None")
    case True
    then show ?thesis using ok ClientOpen by (auto simp: onClientOpen_def r Let_def gateway_ok_def)
  next
    case False
    then obtain u where u: "shards \<noteq> []" "connect uri = Some u" by auto
    let ?lk = "\<lparr>lk_downstreamHdl = d, lk_upstreamHdl = u, lk_upstreamOpen = False, lk_pending = []\<rparr>"
    have "map_of (wg_byDownstream gw) d = None" "map_of (wg_byUpstream gw) u = None" using f ClientOpen u(2) by auto
    then show ?thesis
      using links_ok_add [OF ok [unfolded gateway_ok_def], of d u ?lk] u ClientOpen
      by (simp add: onClientOpen_def r Let_def gateway_ok_def map_of_fun del: map_of_update_iff)
  qed
next
  case (ClientMessage d t)
  show ?thesis
  proof (cases "linkAt (wg_byDownstream gw) d gw")
    case (Some p)
    obtain i lk where p: "p = (i, lk)" by (cases p)
    then have "map_of (wg_links gw) i = Some lk" using Some linkAt_cases(3) [OF ok] by simp
    then show ?thesis
      using ok Some p ClientMessage links_ok_update [OF ok [unfolded gateway_ok_def], of "\<lambda>lk. lk\<lparr>lk_pending := lk_pending lk @ [snd t]\<rparr>" i]
      by (cases "lk_upstreamOpen lk") (simp_all add: onClientMessage_def gateway_ok_def map_of_map_entry_fun)
  qed (simp add: ClientMessage onClientMessage_def ok)
next
  case (ClientClose d)
  show ?thesis
  proof (cases "linkAt (wg_byDownstream gw) d gw")
    case (Some p)
    obtain i lk where p: "p = (i, lk)" by (cases p)
    then show ?thesis
      using Some ClientClose links_ok_remove [OF ok [unfolded gateway_ok_def], of d i lk] linkAt_cases(3) [OF ok, of d i lk]
      by (simp add: onClientClose_def gateway_ok_def map_of_fun del: map_of_delete_iff)
  qed (simp add: ClientClose onClientClose_def ok)
next
  case (UpstreamOpen u)
  show ?thesis
  proof (cases "linkAt (wg_byUpstream gw) u gw")
    case (Some p)
    obtain i lk where p: "p = (i, lk)" by (cases p)
    show ?thesis
      using Some p UpstreamOpen links_ok_update [OF ok [unfolded gateway_ok_def], of "\<lambda>lk. lk\<lparr>lk_upstreamOpen := True, lk_pending := []\<rparr>" i]
      by (simp add: onUpstreamOpen_def gateway_ok_def map_of_map_entry_fun)
  qed (simp add: UpstreamOpen onUpstreamOpen_def ok)
next
  case (UpstreamMessage u t)
  then show ?thesis using ok by (auto simp: onUpstreamMessage_def split: option.split)
next
  case (UpstreamGone u)
  show ?thesis
  proof (cases "linkAt (wg_byUpstream gw) u gw")
    case (Some p)
    obtain i lk where p: "p = (i, lk)" by (cases p)
    then have l: "map_of (wg_byUpstream gw) u = Some i" "map_of (wg_links gw) i = Some lk" using Some linkAt_cases(4) [OF ok] by simp_all
    then have "lk_upstreamHdl lk = u" "map_of (wg_byDownstream gw) (lk_downstreamHdl lk) = Some i" using gateway_okD(2) [OF ok l(1)] by auto
    then show ?thesis
      using Some p UpstreamGone links_ok_remove [OF ok [unfolded gateway_ok_def], of "lk_downstreamHdl lk" i lk] l(2)
      by (simp add: onUpstreamGone_def gateway_ok_def map_of_fun del: map_of_delete_iff)
  qed (simp add: UpstreamGone onUpstreamGone_def ok)
qed

text \<open>
  The frames of a link that pass it unchanged: those the library can deliver at all, and of the client's frames before
  the connection to the shard is open those that are text.
\<close>

definition passes :: "conn \<Rightarrow> conn \<Rightarrow> bool \<Rightarrow> ws_event \<Rightarrow> bool" where
  "passes d u already ev =
     (case ev of
        ClientMessage e f \<Rightarrow> e = d \<longrightarrow> sendable f \<and> (already \<or> fst f = TextFrame)
      | UpstreamMessage v f \<Rightarrow> v = u \<longrightarrow> sendable f
      | _ \<Rightarrow> True)"

lemma passes_all:
  assumes "\<forall>f \<in> set (fromClient d evs) \<union> set (fromShard u evs). sendable f"
    "already \<or> (\<forall>f \<in> set (fromClient d evs). fst f = TextFrame)"
  shows "list_all (passes d u already) evs"
  using assms
proof (induction evs)
  case (Cons ev evs)
  then have "list_all (passes d u already) evs" using from_Cons [of _ ev evs] by auto
  moreover have "passes d u already ev" using Cons.prems by (cases ev) (auto simp: passes_def)
  ultimately show ?case by simp
qed simp

lemma passes_mono: "passes d u a ev \<Longrightarrow> (a \<Longrightarrow> b) \<Longrightarrow> passes d u b ev"
  by (auto simp: passes_def split: ws_event.splits)

text \<open>One step, seen from one link that it does not close.\<close>

lemma linked_step:
  assumes ok: "gateway_ok gw" and f: "ws_fresh ev gw" and l: "linked d u lk gw"
    and n: "ev \<noteq> ClientClose d" "ev \<noteq> UpstreamGone u" and s: "ws_step ev gw = (out, gw')"
    and a: "passes d u (lk_upstreamOpen lk) ev"
  shows "\<exists>lk'. linked d u lk' gw' \<and> sentUp u out @ flushed (lk_pending lk') = flushed (lk_pending lk) @ fromClient d [ev] \<and>
    sentDown d out = fromShard u [ev] \<and> (lk_upstreamOpen lk \<or> ev = UpstreamOpen u \<longrightarrow> lk_upstreamOpen lk')"
proof -
  obtain i where i: "map_of (wg_byDownstream gw) d = Some i" "map_of (wg_byUpstream gw) u = Some i" "map_of (wg_links gw) i = Some lk"
      "lk_downstreamHdl lk = d" "lk_upstreamHdl lk = u" using l unfolding linked_def by blast
  have p: "lk_upstreamOpen lk \<Longrightarrow> lk_pending lk = []" and next_i: "wg_next gw \<noteq> i" using gateway_okD(3,4) [OF ok i(3)] by auto
  have other: "j \<noteq> i \<and> lk_downstreamHdl k \<noteq> d \<and> lk_upstreamHdl k \<noteq> u"
    if k: "map_of (wg_links gw) j = Some k" "map_of (wg_byDownstream gw) (lk_downstreamHdl k) = Some j"
      "map_of (wg_byUpstream gw) (lk_upstreamHdl k) = Some j" "lk_downstreamHdl k \<noteq> d \<or> lk_upstreamHdl k \<noteq> u" for j k
  proof -
    have "j \<noteq> i" using k(1,4) i(3-5) by auto
    then show ?thesis using k(2,3) i(1,2) by auto
  qed
  show ?thesis
  proof (cases ev)
    case (ClientOpen shards hint connect e)
    obtain uri rr where r: "routeClient hint shards (wg_roundRobinNext gw) = (uri, rr)" by (cases "routeClient hint shards (wg_roundRobinNext gw)")
    have "e \<noteq> d" "connect uri \<noteq> Some u" using f ClientOpen i(1,2) by auto
    then show ?thesis
      using s i next_i ClientOpen
      by (intro exI [of _ lk]) (auto simp: onClientOpen_def r Let_def linked_def split: if_splits option.splits)
  next
    case (ClientMessage e t)
    show ?thesis
    proof (cases "e = d")
      case True
      have at: "linkAt (wg_byDownstream gw) e gw = Some (i, lk)" using True i linkAt_cases(3) [OF ok] by simp
      have f: "sendable t" "\<not> lk_upstreamOpen lk \<Longrightarrow> t = (TextFrame, snd t)" "\<not> lk_upstreamOpen lk \<Longrightarrow> validUtf8 (snd t)"
        using a ClientMessage True by (cases t; auto simp: passes_def sendable_def)+
      show ?thesis
        using s i p at ClientMessage True f
        by (cases "lk_upstreamOpen lk") (auto simp: onClientMessage_def linked_def map_of_map_entry)
    next
      case False
      then show ?thesis
        using s i ClientMessage gateway_okD(1) [OF ok, of e] other
        by (intro exI [of _ lk]) (auto simp: onClientMessage_def linked_def map_of_map_entry linkAt_def split: option.splits if_splits)
    qed
  next
    case (ClientClose e)
    then show ?thesis
      using s i n gateway_okD(1) [OF ok, of e] other
      by (intro exI [of _ lk]) (auto simp: onClientClose_def linked_def linkAt_def split: option.splits)
  next
    case (UpstreamOpen v)
    show ?thesis
    proof (cases "v = u")
      case True
      have at: "linkAt (wg_byUpstream gw) v gw = Some (i, lk)" using True i linkAt_cases(4) [OF ok] by simp
      show ?thesis using s i p at UpstreamOpen True by (auto simp: onUpstreamOpen_def linked_def map_of_map_entry)
    next
      case False
      then show ?thesis
        using s i UpstreamOpen gateway_okD(2) [OF ok, of v] other
        by (intro exI [of _ lk]) (auto simp: onUpstreamOpen_def linked_def map_of_map_entry linkAt_def split: option.splits if_splits)
    qed
  next
    case (UpstreamMessage v t)
    then have "v = u \<Longrightarrow> sendable t" using a by (simp add: passes_def)
    then show ?thesis
      using UpstreamMessage s i gateway_okD(2) [OF ok, of v] other
      by (intro exI [of _ lk]) (auto simp: onUpstreamMessage_def linked_def linkAt_def split: option.splits)
  next
    case (UpstreamGone v)
    then show ?thesis
      using s i n gateway_okD(2) [OF ok, of v] other
      by (intro exI [of _ lk]) (auto simp: onUpstreamGone_def linked_def linkAt_def split: option.splits)
  qed
qed

lemma linked_run:
  assumes "gateway_ok gw" "ws_valid evs gw" "linked d u lk gw" "ClientClose d \<notin> set evs" "UpstreamGone u \<notin> set evs"
    "ws_run evs gw = (out, gw')" "list_all (passes d u (lk_upstreamOpen lk)) evs"
  shows "\<exists>lk'. linked d u lk' gw' \<and> sentUp u out @ flushed (lk_pending lk') = flushed (lk_pending lk) @ fromClient d evs \<and>
    sentDown d out = fromShard u evs \<and> (lk_upstreamOpen lk \<or> UpstreamOpen u \<in> set evs \<longrightarrow> lk_upstreamOpen lk' \<and> lk_pending lk' = [])"
  using assms
proof (induction evs arbitrary: gw lk out)
  case Nil
  then show ?case using gateway_okD(4) by (auto simp: linked_def)
next
  case (Cons ev evs)
  obtain o1 gw1 where s: "ws_step ev gw = (o1, gw1)" by (cases "ws_step ev gw")
  obtain o2 where r: "ws_run evs gw1 = (o2, gw')" "out = o1 @ o2" using Cons.prems(6) s by (auto split: prod.splits)
  have ok: "gateway_ok gw1" using gateway_ok_step [OF Cons.prems(1), of ev] Cons.prems(2) s by simp
  obtain lk1 where l: "linked d u lk1 gw1" "sentUp u o1 @ flushed (lk_pending lk1) = flushed (lk_pending lk) @ fromClient d [ev]"
      "sentDown d o1 = fromShard u [ev]" "lk_upstreamOpen lk \<or> ev = UpstreamOpen u \<longrightarrow> lk_upstreamOpen lk1"
    using linked_step [OF Cons.prems(1) _ Cons.prems(3) _ _ s] Cons.prems(2,4,5,7) by auto
  have later: "list_all (passes d u (lk_upstreamOpen lk1)) evs"
    using Cons.prems(7) l(4) passes_mono [of d u "lk_upstreamOpen lk" _ "lk_upstreamOpen lk1"] by (simp add: list_all_iff)
  obtain lk2 where l2: "linked d u lk2 gw'" "sentUp u o2 @ flushed (lk_pending lk2) = flushed (lk_pending lk1) @ fromClient d evs"
      "sentDown d o2 = fromShard u evs" "lk_upstreamOpen lk1 \<or> UpstreamOpen u \<in> set evs \<longrightarrow> lk_upstreamOpen lk2 \<and> lk_pending lk2 = []"
    using Cons.IH [OF ok _ l(1) _ _ r(1) later] Cons.prems(2,4,5) s by auto
  have "sentUp u out @ flushed (lk_pending lk2) = flushed (lk_pending lk) @ fromClient d (ev # evs)"
    using l(2) l2(2) r(2) from_Cons(1) [of d ev evs] by (metis append.assoc sentUp_append)
  moreover have "sentDown d out = fromShard u (ev # evs)" using l(3) l2(3) r(2) from_Cons(2) [of u ev evs] by simp
  ultimately show ?case using l2(1,4) l(4) by auto
qed

lemma routeClient_alive: "shards \<noteq> [] \<Longrightarrow> [] \<notin> set shards \<Longrightarrow> fst (routeClient hint shards rr) \<in> set shards"
  by (auto simp: routeClient_def Let_def split: option.split)

section \<open>HTTP requests\<close>

lemma extractJoinRoomName_iff:
  assumes "n \<noteq> []"
  shows "extractJoinRoomName uri = n \<longleftrightarrow> uri = ''/rooms/'' @ n @ ''/join''"
proof
  assume "uri = ''/rooms/'' @ n @ ''/join''"
  then show "extractJoinRoomName uri = n" using assms by (simp add: extractJoinRoomName_def Let_def)
next
  assume e: "extractJoinRoomName uri = n"
  let ?k = "length uri - 12"
  have l: "12 < length uri" "take 7 uri = ''/rooms/''" "drop (length uri - 5) uri = ''/join''" and n: "n = take ?k (drop 7 uri)"
    using e assms by (auto simp: extractJoinRoomName_def Let_def eval_nat_numeral split: if_splits)
  have "uri = take 7 uri @ take ?k (drop 7 uri) @ drop ?k (drop 7 uri)" by (metis append_take_drop_id)
  also have "drop ?k (drop 7 uri) = drop (length uri - 5) uri" using l(1) by simp
  finally show "uri = ''/rooms/'' @ n @ ''/join''" using l(2,3) n by simp
qed

lemma hexDigit_inject:
  assumes "m < 16" "n < 16" "hexDigit m = hexDigit n"
  shows "m = n"
proof -
  have "of_char (hexDigit k) = (if k < 10 then 48 + k else 87 + k)" if "k < 16" for k :: nat
    using that by (simp add: hexDigit_def of_char_of)
  then have "(if m < 10 then 48 + m else 87 + m) = (if n < 10 then 48 + n else 87 + n)" using assms by metis
  then show ?thesis using assms(1,2) by (auto split: if_splits)
qed

lemma length_hexDigits [simp]: "length (hexDigits k n) = k"
  by (induction k arbitrary: n) simp_all

lemma hexDigits_inject:
  assumes "hexDigits k m = hexDigits k n" "m < 16 ^ k" "n < 16 ^ k"
  shows "m = n"
  using assms
proof (induction k arbitrary: m n)
  case (Suc k)
  have d: "m div 16 < 16 ^ k" "n div 16 < 16 ^ k" using Suc.prems(2,3) by (simp_all add: less_mult_imp_div_less mult.commute)
  have "hexDigits k (m div 16) = hexDigits k (n div 16)" "hexDigit (m mod 16) = hexDigit (n mod 16)" using Suc.prems(1) by simp_all
  then have "m div 16 = n div 16" "m mod 16 = n mod 16" using Suc.IH d hexDigit_inject by simp_all
  then show ?case by (metis div_mult_mod_eq)
qed simp

lemma makeToken_inject: "makeToken a b = makeToken a' b' \<longleftrightarrow> a = a' \<and> b = b'"
proof -
  have w: "unat (x :: 64 word) < 16 ^ 16" for x using unsigned_less [of x, where ?'a = nat] by simp
  have "hexDigits 16 (unat x) = hexDigits 16 (unat y) \<longleftrightarrow> x = y" for x y :: "64 word"
    using hexDigits_inject [OF _ w [of x] w [of y]] by (auto simp: word_unat_eq_iff)
  then show ?thesis by (simp add: makeToken_def)
qed

text \<open>Events of the gateway for HTTP requests; each comes with the surroundings it meets.\<close>

datatype api_event =
  HttpRequest api_environment conn string string string
| RelayOpened conn
| RelayMessage api_environment conn string
| RelayGone api_environment conn
| PlayAssigned json
| PlayTimeout json
| AllocationReply conn string "json option"

fun api_step :: "api_event \<Rightarrow> api_gateway \<Rightarrow> (api_effect list \<times> api_gateway) \<times> json_error option" where
  "api_step (HttpRequest env con meth uri body) ag = onHttp env con meth uri body ag"
| "api_step (RelayOpened h) ag = ((onRelayOpen h ag, ag), None)"
| "api_step (RelayMessage env h t) ag = onRelayMessage env h t ag"
| "api_step (RelayGone env h) ag = (onRelayGone env h ag, None)"
| "api_step (PlayAssigned event) ag = playAssigned event ag"
| "api_step (PlayTimeout event) ag = playTimeout event ag"
| "api_step (AllocationReply con name reply) ag = onAllocationReply con name reply ag"

text \<open>The run stops at an exception: it leaves \<open>io.run()\<close> and ends the process.\<close>

fun api_run :: "api_event list \<Rightarrow> api_gateway \<Rightarrow> (api_effect list \<times> api_gateway) \<times> json_error option" where
  "api_run [] ag = (([], ag), None)"
| "api_run (ev # evs) ag =
     (case api_step ev ag of
        ((out, ag1), Some ex) \<Rightarrow> ((out, ag1), Some ex)
      | ((out, ag1), None) \<Rightarrow> (case api_run evs ag1 of ((out', ag2), ex) \<Rightarrow> ((out @ out', ag2), ex)))"

text \<open>
  Handles and random numbers do not repeat, a thread answers once, and a relay asks with the
  JSON library of the gateway.
\<close>

fun api_fresh :: "(json \<Rightarrow> string) \<Rightarrow> api_event \<Rightarrow> api_gateway \<Rightarrow> bool" where
  "api_fresh dump (HttpRequest env con meth uri body) ag \<longleftrightarrow> ae_dump env = dump \<and>
     map_of (ag_playTickets ag) (newToken env) = None \<and> (\<forall>u h. ae_connect env u = Some h \<longrightarrow> map_of (ag_relays ag) h = None)"
| "api_fresh dump (AllocationReply con name reply) ag \<longleftrightarrow> (con, name) \<in> set (ag_allocations ag)"
| "api_fresh dump _ ag \<longleftrightarrow> True"

fun api_valid :: "(json \<Rightarrow> string) \<Rightarrow> api_event list \<Rightarrow> api_gateway \<Rightarrow> bool" where
  "api_valid dump [] ag \<longleftrightarrow> True"
| "api_valid dump (ev # evs) ag \<longleftrightarrow> api_fresh dump ev ag \<and> api_valid dump evs (snd (fst (api_step ev ag)))"

definition loginRequest :: "(json \<Rightarrow> string) \<Rightarrow> string \<Rightarrow> string \<Rightarrow> string" where
  "loginRequest dump u p = dump (JObj [(''type'', JStr ''LOGIN''), (''payload'', JObj [(''username'', JStr u), (''password'', JStr p)])])"

definition api_ok :: "(json \<Rightarrow> string) \<Rightarrow> api_gateway \<Rightarrow> bool" where
  "api_ok dump ag \<longleftrightarrow> distinct (map fst (ag_relays ag)) \<and> distinct (map fst (ag_playTickets ag)) \<and>
     (\<forall>(h, rl) \<in> set (ag_relays ag). \<not> rl_done rl \<and> (\<exists>p. rl_outgoing rl = loginRequest dump (rl_username rl) p))"

text \<open>The connections that have an answer, and those that wait for one.\<close>

fun answered :: "api_effect list \<Rightarrow> conn list" where
  "answered [] = []"
| "answered (Respond con s j # fx) = con # answered fx"
| "answered (RespondText con s t # fx) = con # answered fx"
| "answered (_ # fx) = answered fx"

definition unanswered :: "api_gateway \<Rightarrow> conn multiset" where
  "unanswered ag = mset (map (rl_con \<circ> snd) (ag_relays ag)) + mset (map snd (ag_playTickets ag)) + mset (map fst (ag_allocations ag))"

fun requested :: "api_event list \<Rightarrow> conn list" where
  "requested [] = []"
| "requested (HttpRequest env con meth uri body # evs) = con # requested evs"
| "requested (_ # evs) = requested evs"

lemma answered_append [simp]: "answered (fx @ gx) = answered fx @ answered gx"
  by (induction fx rule: answered.induct) simp_all

lemma mset_update_new: "map_of al k = None \<Longrightarrow> mset (AList.update k v al) = add_mset (k, v) (mset al)"
  by (induction al) (auto split: if_splits)

lemma mset_delete_old: "distinct (map fst al) \<Longrightarrow> map_of al k = Some v \<Longrightarrow> mset al = add_mset (k, v) (mset (AList.delete k al))"
  by (induction al) (auto simp: delete_notin_dom split: if_splits)

lemma in_update: "x \<in> set (AList.update k v al) \<Longrightarrow> x = (k, v) \<or> x \<in> set al"
  by (induction al) (auto split: if_splits)

lemma delete_update_same [simp]: "AList.delete k (AList.update k v al) = AList.delete k al"
  by (induction al) (auto simp: AList.delete_eq)

lemma distinct_delete_keys: "distinct (map fst al) \<Longrightarrow> distinct (map fst (AList.delete k al))"
  by (rule distinct_delete)

lemma in_delete: "x \<in> set (AList.delete k al) \<Longrightarrow> x \<in> set al"
  by (simp add: AList.delete_eq)

lemma loginCallback_answers:
  assumes "loginCallback token con u reply = (out, None)"
  shows "answered out = [con]"
  using assms by (auto simp: loginCallback_def split: option.splits sum.splits bool.splits)

lemma loginCallback_None: "loginCallback token con u None = ([Respond con 502 (failure ''upstream unavailable'')], None)"
  by (simp add: loginCallback_def)

lemma unanswered_simps:
  "unanswered (ag\<lparr>ag_roundRobinNext := n\<rparr>) = unanswered ag"
  "unanswered (ag\<lparr>ag_allocations := ag_allocations ag @ [(c, x)]\<rparr>) = add_mset c (unanswered ag)"
  by (simp_all add: unanswered_def)

lemma unanswered_relay:
  "map_of (ag_relays ag) h = None \<Longrightarrow> unanswered (ag\<lparr>ag_relays := AList.update h rl (ag_relays ag)\<rparr>) = add_mset (rl_con rl) (unanswered ag)"
  "distinct (map fst (ag_relays ag)) \<Longrightarrow> map_of (ag_relays ag) h = Some rl \<Longrightarrow>
     unanswered ag = add_mset (rl_con rl) (unanswered (ag\<lparr>ag_relays := AList.delete h (ag_relays ag)\<rparr>))"
  using mset_update_new [of "ag_relays ag" h rl] mset_delete_old [of "ag_relays ag" h rl] by (simp_all add: unanswered_def mset_map)

lemma unanswered_ticket:
  "map_of (ag_playTickets ag) k = None \<Longrightarrow> unanswered (ag\<lparr>ag_playTickets := AList.update k c (ag_playTickets ag)\<rparr>) = add_mset c (unanswered ag)"
  "distinct (map fst (ag_playTickets ag)) \<Longrightarrow> map_of (ag_playTickets ag) k = Some c \<Longrightarrow>
     unanswered ag = add_mset c (unanswered (ag\<lparr>ag_playTickets := AList.delete k (ag_playTickets ag)\<rparr>))"
  using mset_update_new [of "ag_playTickets ag" k c] mset_delete_old [of "ag_playTickets ag" k c] by (simp_all add: unanswered_def mset_map)

lemma unanswered_allocation:
  "(c, x) \<in> set (ag_allocations ag) \<Longrightarrow> unanswered ag = add_mset c (unanswered (ag\<lparr>ag_allocations := remove1 (c, x) (ag_allocations ag)\<rparr>))"
proof -
  assume "(c, x) \<in> set (ag_allocations ag)"
  then have "mset (ag_allocations ag) = add_mset (c, x) (mset (remove1 (c, x) (ag_allocations ag)))" by simp
  from arg_cong [OF this, of "image_mset fst"] show ?thesis by (simp add: unanswered_def)
qed

lemma api_ok_simps [simp]:
  "api_ok dump (ag\<lparr>ag_roundRobinNext := n\<rparr>) = api_ok dump ag" "api_ok dump (ag\<lparr>ag_allocations := xs\<rparr>) = api_ok dump ag"
  by (simp_all add: api_ok_def)

lemma api_ok_changes:
  assumes "api_ok dump ag"
  shows "\<not> rl_done rl \<Longrightarrow> rl_outgoing rl = loginRequest dump (rl_username rl) p \<Longrightarrow> api_ok dump (ag\<lparr>ag_relays := AList.update h rl (ag_relays ag)\<rparr>)"
    "api_ok dump (ag\<lparr>ag_relays := AList.delete h (ag_relays ag)\<rparr>)"
    "api_ok dump (ag\<lparr>ag_playTickets := AList.update k c (ag_playTickets ag)\<rparr>)"
    "api_ok dump (ag\<lparr>ag_playTickets := AList.delete k (ag_playTickets ag)\<rparr>)"
  using assms by (auto simp: api_ok_def distinct_update distinct_delete distinct_delete_keys dest: in_update in_delete)

lemma play_side_conserves:
  assumes "api_ok dump ag" "playAssignedSide event side ag = ((out, ag'), None)"
  shows "api_ok dump ag'" "mset (answered out) + unanswered ag' = unanswered ag"
  using assms unanswered_ticket(2) [of ag] api_ok_changes(4) [OF assms(1)]
  by (auto simp: playAssignedSide_def api_ok_def split: sum.splits option.splits)

lemma if_chain: "(if c then x else y) = z \<Longrightarrow> (x = z \<Longrightarrow> P) \<Longrightarrow> (y = z \<Longrightarrow> P) \<Longrightarrow> P"
  by (cases c) simp_all

lemma http_conserves:
  assumes ok: "api_ok dump ag" and f: "api_fresh dump (HttpRequest env con meth uri body) ag"
    and s: "onHttp env con meth uri body ag = ((out, ag'), None)"
  shows "api_ok dump ag' \<and> mset (answered out) + unanswered ag' = add_mset con (unanswered ag)"
proof -
  have relay: "api_ok dump ag2 \<and> mset (answered out) + unanswered ag2 = add_mset con (unanswered ag1)"
    if "relayToShard env v ''LOGIN'' (JObj [(''username'', JStr u), (''password'', JStr p)]) con u ag1 = ((out, ag2), None)"
      "api_ok dump ag1" "ag_relays ag1 = ag_relays ag" for v u p ag1 ag2
    using that f unanswered_relay(1) [of ag1] api_ok_changes(1) [OF that(2)]
    by (auto simp: relayToShard_def loginCallback_None loginRequest_def split: option.splits)
  have login: "api_ok dump ag' \<and> mset (answered out) + unanswered ag' = add_mset con (unanswered ag)"
    if "postLogin env con r ag = ((out, ag'), None)" for r
    using that ok relay [of _ _ _ "ag\<lparr>ag_roundRobinNext := incSize (ag_roundRobinNext ag)\<rparr>" ag']
    by (auto simp: postLogin_def pickShard_def unanswered_simps split: sum.splits if_splits)
  have rooms: "api_ok dump ag' \<and> mset (answered out) + unanswered ag' = add_mset con (unanswered ag)"
    if "postRooms env con r ag = ((out, ag'), None)" for r
    using that ok by (auto simp: postRooms_def unanswered_simps split: sum.splits if_splits)
  have play: "api_ok dump ag' \<and> mset (answered out) + unanswered ag' = add_mset con (unanswered ag)"
    if "postPlay env con r ag = ((out, ag'), None)" for r
    using that ok f unanswered_ticket(1) [of ag "newToken env"] api_ok_changes(3) [OF ok]
    by (auto simp: postPlay_def split: sum.splits option.splits)
  have join: "answered fx = [con]" if "postJoin env con n r = Inr fx" for n r fx
    using that by (auto simp: postJoin_def sbind_Inr_iff Let_def split: if_splits)
  show ?thesis
  proof (cases "if body = [] then Some (JObj []) else ae_parse env body")
    case None
    then show ?thesis using s ok by (auto simp: onHttp_def Let_def split: if_splits)
  next
    case (Some r)
    note s1 = s [unfolded onHttp_def Some option.case]
    define answer where "answer \<longleftrightarrow> api_ok dump ag' \<and> mset (answered out) + unanswered ag' = add_mset con (unanswered ag)"
    have now: answer if "((fx, ag), None) = ((out, ag'), None)" "answered fx = [con]" for fx
      using that ok unfolding answer_def by auto
    have joined: answer if "(case postJoin env con n r of Inl ex \<Rightarrow> (([], ag), Some ex) | Inr fx \<Rightarrow> ((fx, ag), None)) = ((out, ag'), None)" for n
      using that join [of n r] ok unfolding answer_def by (auto split: sum.splits)
    note deferred = login [of r, folded answer_def] rooms [of r, folded answer_def] play [of r, folded answer_def] joined
    have answer using s1 by (elim if_chain) ((erule deferred | (erule now, simp))+)
    then show ?thesis by (simp add: answer_def)
  qed
qed

lemma api_step_conserves:
  assumes ok: "api_ok dump ag" and f: "api_fresh dump ev ag" and s: "api_step ev ag = ((out, ag'), None)"
  shows "api_ok dump ag' \<and> mset (answered out) + unanswered ag' = unanswered ag + mset (requested [ev])"
proof (cases ev)
  case (HttpRequest env con meth uri body)
  then show ?thesis using http_conserves [OF ok] f s by simp
next
  case (RelayMessage env h t)
  show ?thesis
  proof (cases "map_of (ag_relays ag) h")
    case None
    then show ?thesis using s ok RelayMessage by (auto simp: onRelayMessage_def)
  next
    case (Some rl)
    obtain fx ex where c: "loginCallback (newToken env) (rl_con rl) (rl_username rl) (ae_parse env t) = (fx, ex)"
      by (cases "loginCallback (newToken env) (rl_con rl) (rl_username rl) (ae_parse env t)")
    have "ex = None" "out = fx @ [RelayClose h]" "ag' = ag\<lparr>ag_relays := AList.delete h (ag_relays ag)\<rparr>"
      using s RelayMessage Some c by (auto simp: onRelayMessage_def Let_def split: option.splits)
    then show ?thesis
      using unanswered_relay(2) [OF _ Some] ok api_ok_changes(2) [OF ok, of h] loginCallback_answers [of _ _ _ _ fx] c RelayMessage
      by (auto simp: api_ok_def)
  qed
next
  case (RelayGone env h)
  have "\<not> rl_done rl" if "map_of (ag_relays ag) h = Some rl" for rl
    using ok map_of_SomeD [OF that] by (auto simp: api_ok_def)
  then show ?thesis
    using s ok RelayGone unanswered_relay(2) [of ag h] api_ok_changes(2) [OF ok, of h]
    by (auto simp: onRelayGone_def loginCallback_None api_ok_def split: option.splits)
next
  case (PlayAssigned event)
  obtain o1 ag1 e1 where a: "playAssignedSide event ''A'' ag = ((o1, ag1), e1)" by (metis prod.exhaust)
  obtain o2 ag2 e2 where b: "playAssignedSide event ''B'' ag1 = ((o2, ag2), e2)" by (metis prod.exhaust)
  have e: "e1 = None" "e2 = None" "out = o1 @ o2" "ag' = ag2"
    using s a b PlayAssigned by (auto simp: playAssigned_def split: option.splits)
  show ?thesis
    using play_side_conserves [OF ok a [unfolded e]] play_side_conserves [OF play_side_conserves(1) [OF ok a [unfolded e]] b [unfolded e]]
    by (simp add: e PlayAssigned) (metis union_assoc)
next
  case (PlayTimeout event)
  then show ?thesis
    using s ok unanswered_ticket(2) [of ag] api_ok_changes(4) [OF ok]
    by (auto simp: playTimeout_def api_ok_def split: sum.splits option.splits)
next
  case (AllocationReply con name reply)
  have a: "answered fx = [con]" if "allocationAnswer con reply = Inr fx" for fx
    using that by (auto simp: allocationAnswer_def sbind_Inr_iff split: option.splits if_splits)
  show ?thesis
    using s ok AllocationReply f unanswered_allocation [of con name ag] a
    by (auto simp: onAllocationReply_def Let_def split: sum.splits)
qed (use s ok in \<open>auto simp: onRelayOpen_def split: option.splits\<close>)

lemma requested_Cons: "requested (ev # evs) = requested [ev] @ requested evs"
  by (cases ev) simp_all

lemma api_run_conserves:
  assumes "api_ok dump ag" "api_valid dump evs ag" "api_run evs ag = ((out, ag'), None)"
  shows "api_ok dump ag' \<and> mset (answered out) + unanswered ag' = unanswered ag + mset (requested evs)"
  using assms
proof (induction evs arbitrary: ag out ag')
  case (Cons ev evs)
  obtain o1 ag1 e1 where s: "api_step ev ag = ((o1, ag1), e1)" by (metis prod.exhaust)
  obtain o2 ag2 e2 where r: "api_run evs ag1 = ((o2, ag2), e2)" by (metis prod.exhaust)
  have e: "e1 = None" "e2 = None" "out = o1 @ o2" "ag' = ag2" using Cons.prems(3) s r by (auto split: option.splits)
  have 1: "api_ok dump ag1 \<and> mset (answered o1) + unanswered ag1 = unanswered ag + mset (requested [ev])"
    using api_step_conserves [OF Cons.prems(1) _ s [unfolded e]] Cons.prems(2) by simp
  have 2: "api_ok dump ag2 \<and> mset (answered o2) + unanswered ag2 = unanswered ag1 + mset (requested evs)"
    using Cons.IH [OF _ _ r [unfolded e(2)]] Cons.prems(2) s 1 e by simp
  have "mset (answered out) + unanswered ag' = mset (answered o1) + (mset (answered o2) + unanswered ag2)" by (simp add: e ac_simps)
  also have "\<dots> = (mset (answered o1) + unanswered ag1) + mset (requested evs)" using 2 by (simp add: ac_simps)
  also have "\<dots> = unanswered ag + mset (requested (ev # evs))" using 1 requested_Cons [of ev evs] by (simp add: ac_simps)
  finally show ?case using 2 e by simp
qed simp

text \<open>A token is stored only by the answer to a relay, for the name that was sent, after the shard has let it in.\<close>

lemma token_granted:
  assumes "api_ok dump ag" "api_step ev ag = ((out, ag'), ex)" "SessionPut token u elo \<in> set out"
  shows "\<exists>env h t rl p j. ev = RelayMessage env h t \<and> map_of (ag_relays ag) h = Some rl \<and> rl_outgoing rl = loginRequest dump u p \<and>
     ae_parse env t = Some j \<and> replySuccess j = Inr True \<and> sbind (jvalue ''elo'' (JInt 0) j) getInt = Inr elo"
proof -
  define mute where "mute r \<longleftrightarrow> SessionPut token u elo \<notin> set (fst (fst r))" for r :: "(api_effect list \<times> api_gateway) \<times> json_error option"
  have if_mute: "mute x \<Longrightarrow> mute y \<Longrightarrow> mute (if c then x else y)" for x y c by simp
  have post: "mute (postLogin env con r ag)" "mute (postRooms env con r ag)" "mute (postPlay env con r ag)"
    "mute (case postJoin env con n r of Inl ex \<Rightarrow> (([], ag), Some ex) | Inr fx \<Rightarrow> ((fx, ag), None))" for env con r n
    by (auto simp: mute_def postLogin_def relayToShard_def loginCallback_None postRooms_def postPlay_def postJoin_def sbind_Inr_iff Let_def
        split: sum.splits option.splits prod.splits if_splits)
  have get: "mute (([Respond con s j], ag), None)" "mute (([RespondText con s t], ag), None)" "mute (([], ag), Some ex)"
    for con s j t ex by (simp_all add: mute_def)
  have no: "mute (onHttp env con meth uri body ag)" for env con meth uri body
    by (cases "if body = [] then Some (JObj []) else ae_parse env body")
      (simp_all only: onHttp_def option.case Let_def, (intro if_mute post get)+)
  show ?thesis
  proof (cases ev)
    case (RelayMessage env h t)
    then obtain rl where rl: "map_of (ag_relays ag) h = Some rl"
      using assms(2,3) by (auto simp: onRelayMessage_def split: option.splits)
    obtain fx e where c: "loginCallback (newToken env) (rl_con rl) (rl_username rl) (ae_parse env t) = (fx, e)"
      by (cases "loginCallback (newToken env) (rl_con rl) (rl_username rl) (ae_parse env t)")
    have "SessionPut token u elo \<in> set fx" using assms(2,3) RelayMessage rl c by (auto simp: onRelayMessage_def Let_def split: option.splits)
    then have "u = rl_username rl" "\<exists>j. ae_parse env t = Some j \<and> replySuccess j = Inr True \<and> sbind (jvalue ''elo'' (JInt 0) j) getInt = Inr elo"
      using c by (auto simp: loginCallback_def split: option.splits sum.splits bool.splits)
    moreover have "\<exists>p. rl_outgoing rl = loginRequest dump (rl_username rl) p" using assms(1) map_of_SomeD [OF rl] by (auto simp: api_ok_def)
    ultimately show ?thesis using RelayMessage rl by blast
  next
    case (HttpRequest env con meth uri body)
    then show ?thesis using assms(2,3) no [of env con meth uri body] by (simp add: mute_def)
  next
    case (PlayAssigned event)
    then show ?thesis using assms(2,3)
      by (auto simp: playAssigned_def playAssignedSide_def split: sum.splits option.splits prod.splits)
  qed (use assms(2,3) in \<open>auto simp: onRelayOpen_def onRelayGone_def loginCallback_None playTimeout_def onAllocationReply_def
      allocationAnswer_def sbind_Inr_iff Let_def split: option.splits sum.splits if_splits\<close>)
qed

text \<open>A body that is JSON but no object makes \<open>value\<close> throw, and nothing catches that.\<close>

lemma malformed_request_throws:
  assumes "ae_parse env body = Some j" "body \<noteq> []" "\<And>kvs. j \<noteq> JObj kvs" "uri \<in> {''/login'', ''/rooms'', ''/play''}"
  shows "onHttp env con ''POST'' uri body ag = (([], ag), Some TypeError)"
proof -
  have j: "jvalueString k d j = Inl TypeError" for k d using assms(3) by (cases j) (auto simp: jvalueString_def jvalue_def)
  show ?thesis using assms(1,2,4) by (auto simp: onHttp_def postLogin_def postRooms_def postPlay_def j)
qed

text \<open>Nor does anything catch the exception that a body makes whose error message is not UTF-8.\<close>

lemma broken_body_throws:
  assumes "body \<noteq> []" "ae_parse env body = None" "\<not> validUtf8 (ae_parseWhat env body)"
  shows "onHttp env con meth uri body ag = (([], ag), Some TypeError)"
proof -
  have "ascii ''malformed body: ''" by code_simp
  note u = validUtf8_ascii_append [OF this]
  show ?thesis using assms unfolding onHttp_def Let_def failure_utf8 u by simp
qed

section \<open>Example runs\<close>

text \<open>A gateway with one link; and Alice logging in through the only shard while another client asks for the health.\<close>

definition idleGateway :: ws_gateway where
  "idleGateway = \<lparr>wg_links = [], wg_byDownstream = [], wg_byUpstream = [], wg_roundRobinNext = 0, wg_next = 0\<rparr>"

definition oneLink :: ws_gateway where
  "oneLink = snd (ws_step (ClientOpen [''s''] None (\<lambda>_. Some 2) 3) idleGateway)"

lemma oneLink_ok:
  "gateway_ok oneLink" "linked 3 2 \<lparr>lk_downstreamHdl = 3, lk_upstreamHdl = 2, lk_upstreamOpen = False, lk_pending = []\<rparr> oneLink"
proof -
  have "gateway_ok idleGateway" by (simp add: idleGateway_def gateway_ok_def links_ok_def)
  then show "gateway_ok oneLink" unfolding oneLink_def by (rule gateway_ok_step) (simp add: idleGateway_def)
  show "linked 3 2 \<lparr>lk_downstreamHdl = 3, lk_upstreamHdl = 2, lk_upstreamOpen = False, lk_pending = []\<rparr> oneLink"
    by (simp add: oneLink_def idleGateway_def linked_def onClientOpen_def routeClient_def Let_def)
qed

text \<open>A binary frame that has to wait arrives as text, or not at all.\<close>

lemma queued_binary:
  "sentUp 2 (fst (ws_run [ClientMessage 3 (BinaryFrame, ''a''), UpstreamOpen 2] oneLink)) = [(TextFrame, ''a'')]"
  "sentUp 2 (fst (ws_run [ClientMessage 3 (BinaryFrame, [CHR 0xFF]), UpstreamOpen 2] oneLink)) = []"
proof -
  have u: "validUtf8 ''a''" "\<not> validUtf8 [CHR 0xFF]" by code_simp+
  show "sentUp 2 (fst (ws_run [ClientMessage 3 (BinaryFrame, ''a''), UpstreamOpen 2] oneLink)) = [(TextFrame, ''a'')]"
    "sentUp 2 (fst (ws_run [ClientMessage 3 (BinaryFrame, [CHR 0xFF]), UpstreamOpen 2] oneLink)) = []"
    by (simp_all add: oneLink_def idleGateway_def onClientOpen_def routeClient_def Let_def onClientMessage_def linkAt_def
      onUpstreamOpen_def sendable_def u)
qed

definition apiEnv :: api_environment where
  "apiEnv = \<lparr>ae_dump = (\<lambda>_. []),
     ae_parse = (\<lambda>t. Some (if t = ''login'' then JObj [(''username'', JStr ''alice''), (''password'', JStr ''pw'')]
       else JObj [(''success'', JBool True), (''elo'', JInt 1200)])),
     ae_parseWhat = (\<lambda>_. []), ae_session = (\<lambda>_. None), ae_room = (\<lambda>_. []), ae_rooms = [], ae_history = None, ae_live = [''s''],
     ae_connect = (\<lambda>_. Some 9), ae_random = (0, 0)\<rparr>"

definition idleApi :: api_gateway where
  "idleApi = \<lparr>ag_relays = [], ag_roundRobinNext = 0, ag_playTickets = [], ag_allocations = []\<rparr>"

definition loginRun :: "api_event list" where
  "loginRun = [HttpRequest apiEnv 5 ''POST'' ''/login'' ''login'', HttpRequest (apiEnv\<lparr>ae_connect := \<lambda>_. None\<rparr>) 6 ''GET'' ''/health'' [],
     RelayMessage apiEnv 9 ''reply'']"

lemmas login_run_defs = loginRun_def apiEnv_def idleApi_def onHttp_def postLogin_def pickShard_def relayToShard_def onRelayMessage_def
  loginCallback_def replySuccess_def jvalueString_def jvalue_def getString_def getBool_def getInt_def extractJoinRoomName_def newToken_def
  failure_def

lemma loginRun_ok: "api_ok (\<lambda>_. []) idleApi" "unanswered idleApi = {#}" "api_valid (\<lambda>_. []) loginRun idleApi"
  by (simp_all add: api_ok_def unanswered_def login_run_defs)

lemma loginRun_result:
  "(case api_run loginRun idleApi of ((out, ag), ex) \<Rightarrow>
     ex = None \<and> ag_relays ag = [] \<and> ag_playTickets ag = [] \<and> ag_allocations ag = [] \<and>
     list_ex (\<lambda>x. case x of SessionPut token u elo \<Rightarrow> u = ''alice'' \<and> elo = 1200 | _ \<Rightarrow> False) out)"
  by (simp add: login_run_defs Let_def wrap32_def)

end
