(* ===== verification/Home.thy ===== *)
theory Home
  imports App Gateway_Laws
begin

text \<open>
  From the login to a seat (\<open>client/app/HomeScreenView.cpp\<close>, \<open>client/app/RoomDialog.cpp\<close>): the home screen,
  the room dialog, and the requests that find a shard and claim a seat on it. What lies outside the
  client - the HTTP gateway and the shard at the other end of the connection - is a parameter with a
  state of its own. The lemmas: the dialog only lets names pass that the gateway finds in the path, at
  most one search is outstanding, and against the handlers of a shard the client ends in the seat the
  shard has given it.
\<close>

section \<open>The room dialog\<close>

datatype dialog_action = CreateRoom | JoinRoomAction | CancelDialog

record room_dialog =
  rd_action :: dialog_action
  rd_roomName :: string
  rd_open :: bool

definition newDialog :: room_dialog where
  "newDialog = \<lparr>rd_action = CancelDialog, rd_roomName = [], rd_open = True\<rparr>"

text \<open>\<open>typed\<close> is the text in the edit control.\<close>

definition finish :: "string \<Rightarrow> dialog_action \<Rightarrow> room_dialog \<Rightarrow> room_dialog" where
  "finish typed action d =
     (if action \<noteq> CancelDialog then
        if typed = [] then d\<lparr>rd_action := CancelDialog, rd_roomName := [], rd_open := False\<rparr>
        else if \<not> isValidRoomName typed then d
        else d\<lparr>rd_action := action, rd_roomName := typed, rd_open := False\<rparr>
      else d\<lparr>rd_action := action, rd_roomName := [], rd_open := False\<rparr>)"

text \<open>\<open>None\<close> is the close button of the window.\<close>

definition dialogEvent :: "string \<times> dialog_action option \<Rightarrow> room_dialog \<Rightarrow> room_dialog" where
  "dialogEvent = (\<lambda>(typed, button) d.
     if \<not> rd_open d then d else finish typed (case button of None \<Rightarrow> CancelDialog | Some action \<Rightarrow> action) d)"

definition showRoomDialog :: "(string \<times> dialog_action option) list \<Rightarrow> room_dialog" where
  "showRoomDialog evs = fold dialogEvent evs newDialog"

section \<open>Claiming a seat\<close>

datatype home_stop = Thrown json_error | Terminated json_error | StillWaiting

text \<open>
  The other side: what \<open>HttpClient::post\<close> returns, what opening a connection does, and the texts that
  arrive after a text has been sent on the connection.
\<close>

record 'w outside =
  out_dump :: "json \<Rightarrow> string"
  out_parse :: "string \<Rightarrow> json option"
  out_post :: "string \<Rightarrow> json \<Rightarrow> 'w \<Rightarrow> json \<times> 'w"
  out_connect :: "string \<Rightarrow> 'w \<Rightarrow> 'w"
  out_send :: "string \<Rightarrow> 'w \<Rightarrow> string list \<times> 'w"

definition thrown :: "json_error + 'a \<Rightarrow> home_stop + 'a" where
  "thrown r = (case r of Inl ex \<Rightarrow> Inl (Thrown ex) | Inr x \<Rightarrow> Inr x)"

definition sendAndWaitForReply :: "'w outside \<Rightarrow> message \<Rightarrow> message_type \<Rightarrow> 'w \<Rightarrow> (home_stop + json) \<times> 'w" where
  "sendAndWaitForReply out request expectedType w =
     (case sbind (typeName expectedType) (\<lambda>ty. sbind (encodeMessage (out_dump out) request) (\<lambda>t. Inr (ty, t))) of
        Inl ex \<Rightarrow> (Inl (Thrown ex), w)
      | Inr (ty, t) \<Rightarrow>
          let (texts, w1) = out_send out t w
          in (case awaitReply (out_parse out) ty texts None of
                Inl ex \<Rightarrow> Inl (Terminated ex) | Inr None \<Rightarrow> Inl StillWaiting | Inr (Some j) \<Rightarrow> Inr j, w1))"

definition colorFromRole :: "string \<Rightarrow> color" where
  "colorFromRole r = (if r = ''White'' then White else if r = ''Black'' then Black else NoColor)"

text \<open>\<open>value("success", false)\<close>, and if it is false the message that is shown.\<close>

definition refusal :: "json \<Rightarrow> json_error + string option" where
  "refusal reply =
     sbind (sbind (jvalue ''success'' (JBool False) reply) getBool) (\<lambda>ok.
     if ok then Inr None else sbind (jvalueString ''message'' [] reply) (\<lambda>m. Inr (Some m)))"

text \<open>\<open>None\<close>: authenticated; otherwise the message of the dialog.\<close>

definition authenticateConnection :: "'w outside \<Rightarrow> string \<Rightarrow> 'w \<Rightarrow> (home_stop + string option) \<times> 'w" where
  "authenticateConnection out token w =
     (let (r, w1) = sendAndWaitForReply out \<lparr>msg_type = Auth, payload = JObj [(''token'', JStr token)]\<rparr> Auth w
      in (sbind r (\<lambda>reply. thrown (refusal reply)), w1))"

definition emptyMoveLog :: json where
  "emptyMoveLog = JObj [(''white'', JArr []), (''black'', JArr [])]"

definition homeResult :: "string \<Rightarrow> json \<Rightarrow> json_error + home_result" where
  "homeResult roomName reply =
     sbind (jvalueString ''roomName'' roomName reply) (\<lambda>name.
     sbind (jvalue ''moveLog'' emptyMoveLog reply) (\<lambda>log.
     sbind (jvalueString ''whiteName'' [] reply) (\<lambda>wn. sbind (jvalueInt ''whiteElo'' 0 reply) (\<lambda>we.
     sbind (jvalueString ''blackName'' [] reply) (\<lambda>bn. sbind (jvalueInt ''blackElo'' 0 reply) (\<lambda>be.
     sbind (jvalueString ''role'' [] reply) (\<lambda>r.
     Inr \<lparr>hr_joinedRoom = True, hr_roomName = name, hr_moveLog = log, hr_whiteName = wn, hr_whiteElo = we,
          hr_blackName = bn, hr_blackElo = be, hr_role = colorFromRole r\<rparr>)))))))"

text \<open>The seat, or the message of the dialog. The callers take an empty room name for a failure.\<close>

definition enterRoomOnShard ::
  "'w outside \<Rightarrow> string \<Rightarrow> string \<Rightarrow> string \<Rightarrow> 'w \<Rightarrow> (home_stop + (string + home_result)) \<times> 'w" where
  "enterRoomOnShard out token shard roomName w =
     (case authenticateConnection out token (out_connect out shard w) of
        (Inl st, w1) \<Rightarrow> (Inl st, w1)
      | (Inr (Some m), w1) \<Rightarrow> (Inr (Inl m), w1)
      | (Inr None, w1) \<Rightarrow>
          let (r, w2) = sendAndWaitForReply out
                \<lparr>msg_type = EnterRoom, payload = JObj [(''token'', JStr token), (''roomName'', JStr roomName)]\<rparr> EnterRoom w1
          in (sbind r (\<lambda>reply. thrown (sbind (refusal reply) (\<lambda>no.
                case no of Some m \<Rightarrow> Inr (Inl m) | None \<Rightarrow> sbind (homeResult roomName reply) (\<lambda>hr. Inr (Inr hr))))), w2))"

definition sendRoomRequest ::
  "'w outside \<Rightarrow> string \<Rightarrow> dialog_action \<Rightarrow> string \<Rightarrow> 'w \<Rightarrow> (home_stop + (string + home_result)) \<times> 'w" where
  "sendRoomRequest out token action roomName w =
     (let isCreate = (action = CreateRoom);
          path = (if isCreate then ''/rooms'' else ''/rooms/'' @ roomName @ ''/join'');
          body = (if isCreate then JObj [(''token'', JStr token), (''name'', JStr roomName)] else JObj [(''token'', JStr token)]);
          (restReply, w1) = out_post out path body w
      in case sbind (refusal restReply) (\<lambda>no. case no of Some m \<Rightarrow> Inr (Inl m) | None \<Rightarrow>
                sbind (jvalueString ''shard'' [] restReply) (\<lambda>shard. sbind (jvalueString ''roomName'' roomName restReply) (\<lambda>name.
                Inr (Inr (shard, name))))) of
           Inl ex \<Rightarrow> (Inl (Thrown ex), w1)
         | Inr (Inl m) \<Rightarrow> (Inr (Inl m), w1)
         | Inr (Inr (shard, name)) \<Rightarrow> enterRoomOnShard out token shard name w1)"

section \<open>The screen\<close>

record home =
  hm_pendingChoice :: home_screen_choice
  hm_mousePos :: "int \<times> int"
  hm_searching :: bool
  hm_playResult :: "json option"
  hm_posting :: nat
  hm_posted :: nat

definition newHome :: home where
  "newHome = \<lparr>hm_pendingChoice = NoChoice, hm_mousePos = (-1, -1), hm_searching = False, hm_playResult = None,
     hm_posting = 0, hm_posted = 0\<rparr>"

definition onHomeMouseEvent :: "mouse_event \<Rightarrow> int \<Rightarrow> int \<Rightarrow> home \<Rightarrow> home" where
  "onHomeMouseEvent event x y h =
     (let h1 = h\<lparr>hm_mousePos := (x, y)\<rparr>; choice = hitTest x y
      in if event \<noteq> LButtonDown then h1 else if choice \<noteq> NoChoice then h1\<lparr>hm_pendingChoice := choice\<rparr> else h1)"

text \<open>\<open>hm_posting\<close> counts the detached threads whose \<open>POST /play\<close> has not returned, \<open>hm_posted\<close> the requests so far.\<close>

definition sendPlayRequest :: "home \<Rightarrow> home" where
  "sendPlayRequest h = h\<lparr>hm_playResult := None, hm_posting := hm_posting h + 1, hm_posted := hm_posted h + 1\<rparr>"

definition playReplied :: "json \<Rightarrow> home \<Rightarrow> home" where
  "playReplied reply h = (if hm_posting h = 0 then h else h\<lparr>hm_playResult := Some reply, hm_posting := hm_posting h - 1\<rparr>)"

definition pollGameFound :: "home \<Rightarrow> json option \<times> home" where
  "pollGameFound h = (hm_playResult h, h\<lparr>hm_playResult := None\<rparr>)"

definition ignoreClicks :: "home \<Rightarrow> home" where
  "ignoreClicks h = h\<lparr>hm_pendingChoice := NoChoice\<rparr>"

text \<open>
  One turn of the loop: the dialogs shown, the seat if there is one, and the screen. \<open>dialogResult\<close> is
  what the room dialog returns if it is opened.
\<close>

definition homeTurn ::
  "'w outside \<Rightarrow> string \<Rightarrow> room_dialog \<Rightarrow> home \<Rightarrow> 'w \<Rightarrow> (home_stop + (string list \<times> home_result option \<times> home)) \<times> 'w" where
  "homeTurn out token dialogResult h w =
     (if hm_searching h then
        (case pollGameFound h of
           (None, h1) \<Rightarrow> (Inr ([], None, ignoreClicks h1), w)
         | (Some found, h1) \<Rightarrow>
             let h2 = h1\<lparr>hm_searching := False\<rparr>
             in case sbind (sbind (jvalue ''success'' (JBool False) found) getBool) (\<lambda>ok.
                       if ok then sbind (jvalueString ''shard'' [] found) (\<lambda>shard. sbind (jvalueString ''roomName'' [] found) (\<lambda>name.
                              Inr (Inr (shard, name))))
                       else sbind (jvalueString ''message'' ''no players available'' found) (\<lambda>m. Inr (Inl m))) of
                  Inl ex \<Rightarrow> (Inl (Thrown ex), w)
                | Inr (Inl m) \<Rightarrow> (Inr ([m], None, ignoreClicks h2), w)
                | Inr (Inr (shard, name)) \<Rightarrow>
                    (case enterRoomOnShard out token shard name w of
                       (Inl st, w1) \<Rightarrow> (Inl st, w1)
                     | (Inr (Inl m), w1) \<Rightarrow> (Inr ([m], None, h2), w1)
                     | (Inr (Inr r), w1) \<Rightarrow> (Inr ([], if hr_roomName r = [] then None else Some r, h2), w1)))
      else if hm_pendingChoice h = PlayChoice then
        (Inr ([], None, (sendPlayRequest (ignoreClicks h))\<lparr>hm_searching := True\<rparr>), w)
      else if hm_pendingChoice h = RoomChoice then
        let h1 = ignoreClicks h
        in if rd_action dialogResult = CancelDialog \<or> rd_roomName dialogResult = [] then (Inr ([], None, h1), w)
           else (case sendRoomRequest out token (rd_action dialogResult) (rd_roomName dialogResult) w of
                   (Inl st, w1) \<Rightarrow> (Inl st, w1)
                 | (Inr (Inl m), w1) \<Rightarrow> (Inr ([m], None, h1), w1)
                 | (Inr (Inr r), w1) \<Rightarrow> (Inr ([], if hr_roomName r = [] then None else Some r, h1), w1))
      else (Inr ([], None, ignoreClicks h), w))"

datatype home_event = HomeMouse mouse_event int int | PlayReplied json | HomeTurn room_dialog

text \<open>The screen until the window is closed (the end of the list), a seat is found or an exception ends it.\<close>

fun home_run ::
  "'w outside \<Rightarrow> string \<Rightarrow> home_event list \<Rightarrow> home \<Rightarrow> 'w \<Rightarrow> (home_stop + (string list \<times> home_result option \<times> home)) \<times> 'w" where
  "home_run out token [] h w = (Inr ([], None, h), w)"
| "home_run out token (HomeMouse ev x y # evs) h w = home_run out token evs (onHomeMouseEvent ev x y h) w"
| "home_run out token (PlayReplied j # evs) h w = home_run out token evs (playReplied j h) w"
| "home_run out token (HomeTurn d # evs) h w =
     (case homeTurn out token d h w of
        (Inl st, w1) \<Rightarrow> (Inl st, w1)
      | (Inr (ms, Some r, h1), w1) \<Rightarrow> (Inr (ms, Some r, h1), w1)
      | (Inr (ms, None, h1), w1) \<Rightarrow>
          (case home_run out token evs h1 w1 of
             (Inl st, w2) \<Rightarrow> (Inl st, w2)
           | (Inr (ms', r, h2), w2) \<Rightarrow> (Inr (ms @ ms', r, h2), w2)))"

end
