(* ===== verification/Home_Laws.thy ===== *)
theory Home_Laws
  imports Home
begin

text \<open>
  The laws of the home screen: what the dialog lets through, that a search is never started twice, and
  that client and shard agree on the seat after the exchange that claims it.
\<close>

section \<open>The dialog\<close>

definition dialog_ok :: "room_dialog \<Rightarrow> bool" where
  "dialog_ok d \<longleftrightarrow> (rd_action d = CancelDialog \<and> rd_roomName d = []) \<or>
     (\<not> rd_open d \<and> rd_action d \<noteq> CancelDialog \<and> isValidRoomName (rd_roomName d))"

interpretation dialog: guarded_steps dialogEvent dialog_ok "\<lambda>_. True"
proof
  fix d and ev :: "string \<times> dialog_action option"
  assume "dialog_ok d"
  then show "dialog_ok (dialogEvent ev d)"
    by (auto simp: dialogEvent_def finish_def dialog_ok_def split: prod.split option.split)
qed

lemma showRoomDialog_ok: "dialog_ok (showRoomDialog evs)"
  unfolding showRoomDialog_def by (rule dialog.run_invar) (simp_all add: newDialog_def dialog_ok_def list_all_iff)

text \<open>A name the dialog has let through arrives at the route of the gateway as it was typed.\<close>

lemma join_reaches_room:
  assumes "isValidRoomName n" "ae_parse env body = Some request" "body \<noteq> []"
  shows "onHttp env con ''POST'' (''/rooms/'' @ n @ ''/join'') body ag =
    (case postJoin env con n request of Inl ex \<Rightarrow> (([], ag), Some ex) | Inr out \<Rightarrow> ((out, ag), None))"
proof -
  have n: "n \<noteq> []" using assms(1) by (simp add: isValidRoomName_def)
  have "extractJoinRoomName (''/rooms/'' @ n @ ''/join'') = n" using extractJoinRoomName_iff [OF n] by blast
  then show ?thesis using assms(2,3) n by (simp add: onHttp_def)
qed

section \<open>The search\<close>

text \<open>While a search runs there is one request under way or its reply is waiting, and otherwise neither.\<close>

definition home_ok :: "home \<Rightarrow> bool" where
  "home_ok h \<longleftrightarrow> hm_posting h + (case hm_playResult h of None \<Rightarrow> 0 | Some _ \<Rightarrow> 1) = (if hm_searching h then 1 else 0)"

lemma newHome_ok: "home_ok newHome"
  by (simp add: home_ok_def newHome_def)

lemma home_ok_mouse: "home_ok h \<Longrightarrow> home_ok (onHomeMouseEvent ev x y h)"
  by (auto simp: home_ok_def onHomeMouseEvent_def Let_def split: if_splits)

lemma home_ok_reply: "home_ok h \<Longrightarrow> home_ok (playReplied j h)"
  by (auto simp: home_ok_def playReplied_def split: option.splits if_splits)

lemma home_ok_turn:
  assumes "homeTurn out token d h w = (Inr (ms, r, h'), w')" "home_ok h"
  shows "home_ok h'" "hm_posted h' = hm_posted h + (if \<not> hm_searching h \<and> hm_pendingChoice h = PlayChoice then 1 else 0)"
  using assms
  by (auto simp: homeTurn_def home_ok_def pollGameFound_def ignoreClicks_def sendPlayRequest_def Let_def
      split: if_splits option.splits sum.splits prod.splits)

lemma home_run_ok:
  assumes "home_run out token evs h w = (Inr (ms, r, h'), w')" "home_ok h"
  shows "home_ok h'"
  using assms
proof (induction out token evs h w arbitrary: ms rule: home_run.induct)
  case (4 out token d evs h w)
  obtain t w1 where t: "homeTurn out token d h w = (t, w1)" by (metis prod.exhaust)
  show ?case
  proof (cases t)
    case (Inr x)
    obtain ms1 r1 h1 where x: "x = (ms1, r1, h1)" by (cases x) auto
    have ok1: "home_ok h1" using home_ok_turn(1) [OF t [unfolded Inr x] 4(3)] .
    show ?thesis
    proof (cases r1)
      case None
      obtain q w2 where q: "home_run out token evs h1 w1 = (q, w2)" by (metis prod.exhaust)
      show ?thesis using 4(1) [OF t [symmetric] Inr x [symmetric] refl None] 4(2) ok1 None by (cases q) (auto simp: t Inr x q)
    qed (use 4(2) ok1 in \<open>simp add: t Inr x\<close>)
  qed (use 4(2) in \<open>simp add: t\<close>)
qed (auto simp: home_ok_mouse home_ok_reply)

section \<open>The seat\<close>

text \<open>
  The shard at the other end: its reply, with other texts before it. The client's own requests were
  printed by the JSON library, so the texts in such a reply are UTF-8 and printing it does not throw.
\<close>

definition shardSide :: "environment \<Rightarrow> conn \<Rightarrow> string list \<Rightarrow> (string \<Rightarrow> json \<Rightarrow> json) \<Rightarrow> server outside" where
  "shardSide env con chatter post =
     \<lparr>out_dump = env_dump env, out_parse = env_parse env, out_post = (\<lambda>path body sv. (post path body, sv)), out_connect = (\<lambda>_ sv. sv),
      out_send = (\<lambda>t sv. case replyTo env con t sv of (reply, acts, sv') \<Rightarrow> (chatter @ [env_dump env reply], sv'))\<rparr>"

definition chatter_ok :: "(string \<Rightarrow> json option) \<Rightarrow> string list \<Rightarrow> bool" where
  "chatter_ok parse ts \<longleftrightarrow> list_all (\<lambda>t. case parse t of None \<Rightarrow> True
     | Some j \<Rightarrow> \<exists>ty. jvalueString ''type'' [] j = Inr ty \<and> ty \<notin> {''AUTH'', ''ENTER_ROOM''}) ts"

lemma awaitReply_chatter:
  assumes "chatter_ok parse ts" "ty \<in> {''AUTH'', ''ENTER_ROOM''}"
  shows "awaitReply parse ty (ts @ us) None = awaitReply parse ty us None"
  using assms(1)
proof (induction ts)
  case (Cons t ts)
  then have "onReplyText parse ty t None = Inr None" using assms(2) by (auto simp: chatter_ok_def onReplyText_def split: option.splits)
  then show ?case using Cons by (simp add: chatter_ok_def)
qed simp

definition json_ok :: "environment \<Rightarrow> bool" where
  "json_ok env \<longleftrightarrow> (\<forall>j. env_parse env (env_dump env j) = Some (canon j))"

text \<open>A request of the client to the shard, and the reply of the registered handler.\<close>

lemma shard_exchange:
  assumes json: "json_ok env" and chat: "chatter_ok (env_parse env) chatter" and ty: "(ty, n) \<in> {(Auth, ''AUTH''), (EnterRoom, ''ENTER_ROOM'')}"
    and h: "findHandler (makeRouter env) ty = Some h" "h con (canon pl) sv = Inr (JObj kvs, acts, sv')" "map_of kvs ''type'' = None"
  shows "sendAndWaitForReply (shardSide env con chatter post) \<lparr>msg_type = ty, payload = pl\<rparr> ty sv =
    (Inr (canon (JObj (AList.update ''type'' (JStr n) kvs))), sv')"
proof -
  have n: "nameOf kTypeToName ty = Inr n" "typeName ty = Inr n" "n \<in> {''AUTH'', ''ENTER_ROOM''}"
    using ty by (auto simp: nameOf_def typeName_def kTypeToName_def)
  let ?m = "\<lparr>msg_type = ty, payload = pl\<rparr>" and ?r = "JObj (AList.update ''type'' (JStr n) kvs)"
  let ?t = "env_dump env (JObj [(''type'', JStr n), (''payload'', pl)])"
  have e: "encodeMessage (env_dump env) ?m = Inr ?t" "decodeMessage (env_parse env) ?t = Inr \<lparr>msg_type = ty, payload = canon pl\<rparr>"
    using message_roundtrip [of ?m n "env_parse env" "env_dump env"] json n(1) by (simp_all add: json_ok_def)
  have "handleText env con ?t sv = Inr (?r, acts, sv')"
    using h by (simp add: handleText_def e(2) n(2) hasKey_def jset_def)
  then have p: "replyTo env con ?t sv = (?r, acts, sv')" by (simp add: replyTo_def)
  have "jvalueString ''type'' [] (canon ?r) = Inr n"
    unfolding jvalueString_def jvalue_canon by (simp add: update_conv')
  then have "awaitReply (env_parse env) n (chatter @ [env_dump env ?r]) None = Inr (Some (canon ?r))"
    using json n(3) by (simp add: awaitReply_chatter [OF chat] onReplyText_def json_ok_def)
  then show ?thesis by (simp add: sendAndWaitForReply_def n(2) e(1) shardSide_def p)
qed

text \<open>What the two handlers answer.\<close>

lemma refusal_simps:
  "map_of kvs ''success'' = Some (JBool True) \<Longrightarrow> refusal (canon (JObj kvs)) = Inr None"
  "map_of kvs ''success'' = Some (JBool False) \<Longrightarrow> map_of kvs ''message'' = Some (JStr m) \<Longrightarrow> refusal (canon (JObj kvs)) = Inr (Some m)"
  by (simp_all add: refusal_def jvalueString_def jvalue_canon del: canon.simps(2))

lemma router_store:
  assumes "env_sessionStore env = Some store"
  shows "findHandler (makeRouter env) Auth = Some (handleAuth store)" "findHandler (makeRouter env) EnterRoom = Some (handleEnterRoom store)"
  using assms by (simp_all add: makeRouter_def findHandler_def registerHandler_def Let_def)

lemma token_payload:
  "jstring ''token'' (canon (JObj ((''token'', JStr t) # kvs))) = Inr t"
  "jstring ''roomName'' (canon (JObj [(''token'', JStr t), (''roomName'', JStr n)])) = Inr n"
  by (simp_all add: jstring_def jat_canon del: canon.simps(2))

lemma authenticate_shard:
  assumes json: "json_ok env" and chat: "chatter_ok (env_parse env) chatter" and st: "env_sessionStore env = Some store"
  shows "authenticateConnection (shardSide env con chatter post) token sv =
     (case store token of
        None \<Rightarrow> (Inr (Some ''invalid or expired token''), sv)
      | Some d \<Rightarrow> (Inr None, sv\<lparr>sv_clients := onLogin con (csd_username d) (csd_elo d) (sv_clients sv)\<rparr>))"
proof -
  have ask: "sendAndWaitForReply (shardSide env con chatter post) \<lparr>msg_type = Auth, payload = JObj [(''token'', JStr token)]\<rparr> Auth sv =
      (Inr (canon (JObj (AList.update ''type'' (JStr ''AUTH'') kvs))), sv')"
    if "handleAuth store con (canon (JObj [(''token'', JStr token)])) sv = Inr (JObj kvs, [], sv')" "map_of kvs ''type'' = None" for kvs sv'
    by (rule shard_exchange [OF json chat _ router_store(1) [OF st] that]) simp
  show ?thesis
  proof (cases "store token")
    case None
    show ?thesis
      using ask [of "[(''success'', JBool False), (''message'', JStr ''invalid or expired token'')]" sv] None
      by (simp add: authenticateConnection_def refusal_simps thrown_def handleAuth_def token_payload failure_def del: canon.simps)
  next
    case (Some d)
    show ?thesis
      using ask [of "[(''success'', JBool True), (''message'', JStr ''authenticated'')]"
          "sv\<lparr>sv_clients := onLogin con (csd_username d) (csd_elo d) (sv_clients sv)\<rparr>"] Some
      by (simp add: authenticateConnection_def refusal_simps thrown_def handleAuth_def token_payload del: canon.simps)
  qed
qed

text \<open>The seat and its reply, after the exchange.\<close>

lemma cancel_keeps_seats:
  assumes "cancelDisconnectCountdown n c u reg = (was_away, fx, reg')"
  shows "roomOf h reg' = roomOf h reg" "roleOf h reg' = roleOf h reg" "roomExists m reg' = roomExists m reg"
  using assms
  by (auto simp: cancelDisconnectCountdown_def withSession_def withRoom_def roomOf_def roleOf_def roomExists_def map_of_map_entry
      split: option.splits if_splits)

lemma decode_sent_log: "decodeAllMoves (canon (encodeAllMoves w b)) = Inr (w, b)"
proof -
  have "decodeEntry (canon (encodeEntry e)) = Inr e" for e
    by (simp add: decodeEntry_def encodeEntry_def jat_canon del: canon.simps(2))
  then have "mapE decodeEntry (map canon (map encodeEntry es)) = Inr es" for es by (induction es) auto
  then show ?thesis by (simp add: decodeAllMoves_def encodeAllMoves_def jat_canon del: canon.simps(2))
qed

lemma roleName_back: "colorFromRole (roleName c) = c"
  by (cases c) (simp_all add: colorFromRole_def roleName_def)

definition seatResult :: "string \<Rightarrow> color \<Rightarrow> game_session \<Rightarrow> room_identity \<Rightarrow> home_result" where
  "seatResult name role s i = \<lparr>hr_joinedRoom = True, hr_roomName = name, hr_moveLog = canon (fullMoveLog s),
     hr_whiteName = whiteUsername i, hr_whiteElo = wrap32 (whiteElo i), hr_blackName = blackUsername i, hr_blackElo = wrap32 (blackElo i),
     hr_role = role\<rparr>"

lemma homeResult_seated:
  assumes "seatedReply m name role s i = JObj kvs"
  shows "homeResult dflt (canon (JObj (AList.update ''type'' (JStr ty) kvs))) = Inr (seatResult name role s i)"
    "map_of kvs ''type'' = None" "map_of kvs ''success'' = Some (JBool True)"
  using assms
  by (auto simp: seatedReply_def homeResult_def jvalueString_def jvalueInt_def jvalue_canon update_conv' seatResult_def roleName_back
      simp del: canon.simps(2))

lemma seat_claimed_on_shard:
  assumes json: "json_ok env" and chat: "chatter_ok (env_parse env) chatter" and st: "env_sessionStore env = Some store"
    and d: "store token = Some d" and room: "roomExists name (sv_registry sv)"
  obtains s sv' where
    "enterRoomOnShard (shardSide env con chatter post) token shard name sv =
       (Inr (Inr (seatResult name (roleOf con (sv_registry sv')) s (resolveIdentity (sv_registry sv') (sv_clients sv') name))), sv')"
    "roomOf con (sv_registry sv') = Some name" "roomNamed name (sv_registry sv') = Some s"
    "sv_clients sv' = onLogin con (csd_username d) (csd_elo d) (onLogin con (csd_username d) (csd_elo d) (sv_clients sv))"
proof -
  let ?sv1 = "sv\<lparr>sv_clients := onLogin con (csd_username d) (csd_elo d) (sv_clients sv)\<rparr>"
  let ?pl = "JObj [(''token'', JStr token), (''roomName'', JStr name)]"
  have auth: "authenticateConnection (shardSide env con chatter post) token sv = (Inr None, ?sv1)"
    using authenticate_shard [OF json chat st] d by simp
  have pl: "jstring ''token'' (canon ?pl) = Inr token" "jstring ''roomName'' (canon ?pl) = Inr name" by (rule token_payload)+
  define reg1 where "reg1 = snd (joinRoom name con (csd_username d) (sv_registry sv))"
  obtain was fx reg2 where c: "cancelDisconnectCountdown name (roleOf con reg1) (csd_username d) reg1 = (was, fx, reg2)" by (metis prod.exhaust)
  have in1: "roomOf con reg1 = Some name" "roomExists name reg1"
    using room by (auto simp: reg1_def joinRoom_def roomExists_def roomOf_def Let_def update_conv')
  note keep = cancel_keeps_seats [OF c]
  obtain s where s: "roomNamed name reg2 = Some s" using keep(3) [of name] in1(2) by (auto simp: roomExists_def roomNamed_def)
  let ?sv2 = "?sv1\<lparr>sv_clients := onLogin con (csd_username d) (csd_elo d) (sv_clients ?sv1), sv_registry := reg2\<rparr>"
  let ?i = "resolveIdentity reg2 (sv_clients ?sv2) name"
  obtain kvs where kvs: "seatedReply ''entered room'' name (roleOf con reg1) s ?i = JObj kvs" by (simp add: seatedReply_def)
  note reply = homeResult_seated [OF kvs]
  have "handleEnterRoom store con (canon ?pl) ?sv1 = Inr (JObj kvs, map Did fx, ?sv2)"
    unfolding handleEnterRoom_def pl sbind_simps using d room c s kvs by (simp add: Let_def reg1_def)
  from shard_exchange [OF json chat _ router_store(2) [OF st] this reply(2)]
  have ask: "sendAndWaitForReply (shardSide env con chatter post) \<lparr>msg_type = EnterRoom, payload = ?pl\<rparr> EnterRoom ?sv1 =
      (Inr (canon (JObj (AList.update ''type'' (JStr ''ENTER_ROOM'') kvs))), ?sv2)" by simp
  have ok: "refusal (canon (JObj (AList.update ''type'' (JStr ''ENTER_ROOM'') kvs))) = Inr None"
    by (rule refusal_simps(1)) (simp add: update_conv' reply(3))
  have "enterRoomOnShard (shardSide env con chatter post) token shard name sv = (Inr (Inr (seatResult name (roleOf con reg1) s ?i)), ?sv2)"
    unfolding enterRoomOnShard_def
    by (simp add: auth ask ok reply(1) thrown_def shardSide_def [of _ _ _ post, THEN arg_cong, of out_connect] del: canon.simps)
  then show thesis by (intro that [of ?sv2 s]) (simp_all add: keep in1 s)
qed

text \<open>What the player sees of a refusal: an unknown token, and a room that is gone.\<close>

lemma seat_refused_on_shard:
  assumes json: "json_ok env" and chat: "chatter_ok (env_parse env) chatter" and st: "env_sessionStore env = Some store"
  shows "store token = None \<Longrightarrow>
      enterRoomOnShard (shardSide env con chatter post) token shard name sv = (Inr (Inl ''invalid or expired token''), sv)"
    and "store token = Some d \<Longrightarrow> \<not> roomExists name (sv_registry sv) \<Longrightarrow>
      fst (enterRoomOnShard (shardSide env con chatter post) token shard name sv) = Inr (Inl ''room not found'')"
proof -
  note auth = authenticate_shard [OF json chat st]
  have conn: "out_connect (shardSide env con chatter post) shard sv = sv" by (simp add: shardSide_def)
  show "enterRoomOnShard (shardSide env con chatter post) token shard name sv = (Inr (Inl ''invalid or expired token''), sv)" if "store token = None"
    by (simp add: enterRoomOnShard_def conn auth that)
  assume d: "store token = Some d" and r: "\<not> roomExists name (sv_registry sv)"
  let ?sv1 = "sv\<lparr>sv_clients := onLogin con (csd_username d) (csd_elo d) (sv_clients sv)\<rparr>"
  let ?sv2 = "?sv1\<lparr>sv_clients := onLogin con (csd_username d) (csd_elo d) (sv_clients ?sv1)\<rparr>"
  let ?pl = "JObj [(''token'', JStr token), (''roomName'', JStr name)]" and ?kvs = "[(''success'', JBool False), (''message'', JStr ''room not found'')]"
  have "handleEnterRoom store con (canon ?pl) ?sv1 = Inr (JObj ?kvs, [], ?sv2)"
    unfolding handleEnterRoom_def token_payload sbind_simps using d r by (simp add: Let_def failure_def)
  from shard_exchange [OF json chat _ router_store(2) [OF st] this]
  have ask: "sendAndWaitForReply (shardSide env con chatter post) \<lparr>msg_type = EnterRoom, payload = ?pl\<rparr> EnterRoom ?sv1 =
      (Inr (canon (JObj (AList.update ''type'' (JStr ''ENTER_ROOM'') ?kvs))), ?sv2)" by simp
  have "refusal (canon (JObj (AList.update ''type'' (JStr ''ENTER_ROOM'') ?kvs))) = Inr (Some ''room not found'')"
    by (rule refusal_simps(2)) simp_all
  then show "fst (enterRoomOnShard (shardSide env con chatter post) token shard name sv) = Inr (Inl ''room not found'')"
    unfolding enterRoomOnShard_def conn using ask by (simp add: auth d thrown_def del: canon.simps AList.update.simps)
qed

text \<open>
  A shard without a session store has no handler for \<open>AUTH\<close>; its answer carries no type, and the client
  goes on waiting.
\<close>

lemma no_store_no_answer:
  assumes json: "json_ok env" and chat: "chatter_ok (env_parse env) chatter" and st: "env_sessionStore env = None"
    and room: "roomOf con (sv_registry sv) = None"
  shows "authenticateConnection (shardSide env con chatter post) token sv = (Inl StillWaiting, sv)"
proof -
  let ?m = "\<lparr>msg_type = Auth, payload = JObj [(''token'', JStr token)]\<rparr>"
  let ?t = "env_dump env (JObj [(''type'', JStr ''AUTH''), (''payload'', JObj [(''token'', JStr token)])])"
  let ?r = "failure (''decode failed: '' @ env_what env (RuntimeError ''connection is not in a room''))"
  have n: "nameOf kTypeToName Auth = Inr ''AUTH''" "typeName Auth = Inr ''AUTH''" by (simp_all add: nameOf_def typeName_def kTypeToName_def)
  have e: "encodeMessage (env_dump env) ?m = Inr ?t"
      "decodeMessage (env_parse env) ?t = Inr \<lparr>msg_type = Auth, payload = canon (JObj [(''token'', JStr token)])\<rparr>"
    using message_roundtrip [of ?m "''AUTH''" "env_parse env" "env_dump env"] json n(1) by (simp_all add: json_ok_def)
  have h: "findHandler (makeRouter env) Auth = None" using st by (simp add: makeRouter_def findHandler_def registerHandler_def Let_def)
  have "handleText env con ?t sv = Inl (RuntimeError ''connection is not in a room'')"
    by (simp add: handleText_def e(2) n h runCommand_def room Let_def)
  then have p: "replyTo env con ?t sv = (?r, [], sv)" by (simp add: replyTo_def exceptionText_def)
  have "jvalueString ''type'' [] (canon ?r) = Inr []" by (simp add: jvalueString_def failure_def jvalue_canon del: canon.simps(2))
  then have "awaitReply (env_parse env) ''AUTH'' (chatter @ [env_dump env ?r]) None = Inr None"
    using json by (simp add: awaitReply_chatter [OF chat] onReplyText_def json_ok_def)
  then show ?thesis by (simp add: authenticateConnection_def sendAndWaitForReply_def n e(1) shardSide_def p)
qed

text \<open>
  Every turn forgets a click that was made during a search, but for the one in which a game was found
  whose seat could not be claimed.
\<close>

lemma stray_clicks:
  assumes "homeTurn out token d h w = (Inr (ms, None, h'), w')"
  shows "hm_pendingChoice h' = NoChoice \<or> hm_searching h \<and> (\<exists>found. hm_playResult h = Some found \<and> hm_pendingChoice h' = hm_pendingChoice h)"
  using assms
  by (auto simp: homeTurn_def pollGameFound_def ignoreClicks_def sendPlayRequest_def Let_def
      split: if_splits option.splits sum.splits prod.splits)

lemma stray_click_kept:
  assumes "hm_searching h" "hm_playResult h = Some found" "refusal found = Inr None"
    and "jvalueString ''shard'' [] found = Inr shard" "jvalueString ''roomName'' [] found = Inr name"
    and "enterRoomOnShard out token shard name w = (Inr (Inl m), w1)" "hm_pendingChoice h = PlayChoice"
  shows "\<exists>h1 h2. homeTurn out token d h w = (Inr ([m], None, h1), w1) \<and> homeTurn out token d h1 w1 = (Inr ([], None, h2), w1) \<and>
    hm_searching h2 \<and> hm_posted h2 = hm_posted h + 1"
proof -
  have "sbind (jvalue ''success'' (JBool False) found) getBool = Inr True"
    using assms(3) by (auto simp: refusal_def sbind_Inr_iff split: if_splits)
  then show ?thesis
    using assms by (simp add: homeTurn_def pollGameFound_def ignoreClicks_def sendPlayRequest_def Let_def)
qed

text \<open>The game the client enters: the colour of the seat, and the moves so far.\<close>

lemma enterGame_seated:
  obtains a where "enterGame stale (seatResult name role s i) = Inr a" "myColor (wn_controller (ap_window a)) = Some role"
    "ns_whiteMoves (nh_state (ap_handler a)) = getMoves (gs_moveLogObserver s) White"
    "ns_blackMoves (nh_state (ap_handler a)) = getMoves (gs_moveLogObserver s) Black"
  using that by (simp add: enterGame_def seatResult_def fullMoveLog_def decode_sent_log seedMoveLog_def newNetworkHandler_def)

end
