(* ===== verification/Stores.thy ===== *)
theory Stores
  imports Gateway_Laws
begin

text \<open>
  The stores behind the shards and gateways: the Redis classes of \<open>shared/db/\<close> (\<open>RedisRoomDirectory\<close>,
  \<open>RedisClientSessionStore\<close>, \<open>RedisReconnectStore\<close>, \<open>RedisGameStateStore\<close>, \<open>RedisSequence\<close>), the Postgres
  classes (\<open>server/db/PostgresUserRepository.cpp\<close>, \<open>shared/db/PostgresGameHistoryRepository.cpp\<close>) and the
  NATS client (\<open>shared/bus/NatsClient.cpp\<close>). The servers themselves are parameters: what a command
  answers and does to their state.
\<close>

section \<open>Redis\<close>

datatype redis_reply =
    ReplyString string
  | ReplyInteger int
  | ReplyArray "redis_reply list"
  | ReplyNil
  | ReplyStatus string
  | ReplyError string

text \<open>
  \<open>redisCommand\<close> splits its format at the blanks, so a command is the list of its arguments; \<open>%s\<close> reads
  to the first null character. \<open>None\<close> is the null pointer it returns when the connection is broken.
\<close>

type_synonym 'r redis_conn = "string list \<Rightarrow> 'r \<Rightarrow> redis_reply option \<times> 'r"

text \<open>The context \<open>redisConnect\<close> returns: \<open>None\<close> if it cannot be allocated, and its error text if there is one.\<close>

definition redisOpen :: "string option option \<Rightarrow> string option" where
  "redisOpen ctx = (case ctx of None \<Rightarrow> Some ''Cannot allocate Redis context''
     | Some (Some errstr) \<Rightarrow> Some (''Cannot connect to Redis: '' @ errstr) | Some None \<Rightarrow> None)"

definition roomKey :: "string \<Rightarrow> string" where "roomKey roomName = ''room:'' @ c_str roomName"

definition dirSet :: "'r redis_conn \<Rightarrow> string \<Rightarrow> string \<Rightarrow> 'r \<Rightarrow> 'r" where
  "dirSet R roomName shardAddress r = snd (R [''SET'', roomKey roomName, c_str shardAddress] r)"

definition dirErase :: "'r redis_conn \<Rightarrow> string \<Rightarrow> 'r \<Rightarrow> 'r" where
  "dirErase R roomName r = snd (R [''DEL'', roomKey roomName] r)"

definition dirGet :: "'r redis_conn \<Rightarrow> string \<Rightarrow> 'r \<Rightarrow> string \<times> 'r" where
  "dirGet R roomName r =
     (case R [''GET'', roomKey roomName] r of
        (Some (ReplyString s), r1) \<Rightarrow> (s, r1)
      | (_, r1) \<Rightarrow> ([], r1))"

definition kPrefixLen :: nat where "kPrefixLen = 5"

definition dirList :: "'r redis_conn \<Rightarrow> 'r \<Rightarrow> string list \<times> 'r" where
  "dirList R r =
     (case R [''KEYS'', ''room:*''] r of
        (Some (ReplyArray elements), r1) \<Rightarrow>
          (concat (map (\<lambda>e. case e of ReplyString s \<Rightarrow> if length s > kPrefixLen then [drop kPrefixLen s] else [] | _ \<Rightarrow> []) elements), r1)
      | (_, r1) \<Rightarrow> ([], r1))"

definition kSessionTtlSeconds :: int where "kSessionTtlSeconds = 3600"

definition sessionPut :: "(json \<Rightarrow> string) \<Rightarrow> 'r redis_conn \<Rightarrow> string \<Rightarrow> string \<Rightarrow> int \<Rightarrow> 'r \<Rightarrow> 'r" where
  "sessionPut dump R token username elo r =
     (let v = dump (JObj [(''username'', JStr username), (''elo'', JInt elo)])
      in snd (R [''SETEX'', ''session:'' @ c_str token, showInt kSessionTtlSeconds, c_str v] r))"

definition sessionGet :: "(string \<Rightarrow> json option) \<Rightarrow> 'r redis_conn \<Rightarrow> string \<Rightarrow> 'r \<Rightarrow> client_session_data option \<times> 'r" where
  "sessionGet parse R token r =
     (case R [''GET'', ''session:'' @ c_str token] r of
        (Some (ReplyString s), r1) \<Rightarrow>
          (case parse s of
             None \<Rightarrow> (None, r1)
           | Some blob \<Rightarrow>
               (case sbind (jstring ''username'' blob) (\<lambda>u. sbind (sbind (jat ''elo'' blob) getInt) (\<lambda>e. Inr (u, e))) of
                  Inl _ \<Rightarrow> (None, r1)
                | Inr (u, e) \<Rightarrow> (Some \<lparr>csd_username = u, csd_elo = e\<rparr>, r1)))
      | (_, r1) \<Rightarrow> (None, r1))"

definition reconnectKey :: "string \<Rightarrow> string" where "reconnectKey roomName = ''reconnect:'' @ roomName"

definition setDisconnected :: "'r redis_conn \<Rightarrow> string \<Rightarrow> string \<Rightarrow> string \<Rightarrow> int \<Rightarrow> int \<Rightarrow> 'r \<Rightarrow> 'r" where
  "setDisconnected R roomName c username elo seconds r =
     snd (R [''HSET'', c_str (reconnectKey roomName), ''color'', c_str c, ''username'', c_str username, ''elo'', showInt elo,
       ''secondsRemaining'', showInt seconds] r)"

definition clearDisconnected :: "'r redis_conn \<Rightarrow> string \<Rightarrow> 'r \<Rightarrow> 'r" where
  "clearDisconnected R roomName r = snd (R [''DEL'', c_str (reconnectKey roomName)] r)"

definition gameStateKey :: "string \<Rightarrow> string" where "gameStateKey roomName = ''gamestate:'' @ roomName"

definition saveGameState :: "'r redis_conn \<Rightarrow> mirrored \<Rightarrow> 'r \<Rightarrow> 'r" where
  "saveGameState R m r =
     snd (R [''HSET'', c_str (gameStateKey (mir_roomName m)), ''board'', c_str (mir_board m), ''moveLog'', c_str (mir_moveLog m),
       ''whiteUsername'', c_str (mir_whiteUsername m), ''whiteElo'', showInt (mir_whiteElo m),
       ''blackUsername'', c_str (mir_blackUsername m), ''blackElo'', showInt (mir_blackElo m)] r)"

definition clearGameState :: "'r redis_conn \<Rightarrow> string \<Rightarrow> 'r \<Rightarrow> 'r" where
  "clearGameState R roomName r = snd (R [''DEL'', c_str (gameStateKey roomName)] r)"

definition sequenceNext :: "'r redis_conn \<Rightarrow> string \<Rightarrow> 'r \<Rightarrow> (string + int) \<times> 'r" where
  "sequenceNext R key r =
     (case R [''INCR'', c_str key] r of
        (None, r1) \<Rightarrow> (Inl ''RedisSequence::next: no reply'', r1)
      | (Some (ReplyInteger n), r1) \<Rightarrow> (Inr n, r1)
      | (Some _, r1) \<Rightarrow> (Inr 0, r1))"

text \<open>What the registry does to the stores it was given.\<close>

definition storeEffect :: "'r redis_conn \<Rightarrow> effect \<Rightarrow> 'r \<Rightarrow> 'r" where
  "storeEffect R ef r =
     (case ef of
        DirectorySet n a \<Rightarrow> dirSet R n a r
      | DirectoryErase n \<Rightarrow> dirErase R n r
      | ReconnectSet n c u elo k \<Rightarrow> setDisconnected R n c u elo k r
      | ReconnectClear n \<Rightarrow> clearDisconnected R n r
      | _ \<Rightarrow> r)"

section \<open>Postgres\<close>

text \<open>
  \<open>pq_select\<close>: the rows of the query by user name, or \<open>None\<close> if it failed; \<open>pq_insert\<close>: whether the row was
  inserted; columns are text, as \<open>PQgetvalue\<close> gives them.
\<close>

record 'p postgres =
  pq_select :: "string \<Rightarrow> 'p \<Rightarrow> (string \<times> string) list option"
  pq_insert :: "string \<Rightarrow> string \<Rightarrow> string \<Rightarrow> 'p \<Rightarrow> bool \<times> 'p"
  pq_update :: "string \<Rightarrow> string \<Rightarrow> 'p \<Rightarrow> 'p"
  pq_insert_game :: "string list \<Rightarrow> 'p \<Rightarrow> 'p"
  pq_list_games :: "string \<Rightarrow> 'p \<Rightarrow> string list list option"

text \<open>The outcome of \<open>CREATE TABLE\<close>: \<open>sqlState\<close> is the state of a failure. The result is the exception.\<close>

definition createTable :: "string \<Rightarrow> (string \<times> string) option \<Rightarrow> string option" where
  "createTable what failed =
     (case failed of
        None \<Rightarrow> None
      | Some (sqlState, message) \<Rightarrow>
          let alreadyExists = (sqlState = ''42P07'' \<or> sqlState = ''23505'')
          in if alreadyExists then None else Some (''Cannot create '' @ what @ '' table: '' @ message))"

definition pgLogin :: "(string \<Rightarrow> nat) \<Rightarrow> 'p postgres \<Rightarrow> string \<Rightarrow> string \<Rightarrow> 'p \<Rightarrow> (json_error + login_result) \<times> 'p" where
  "pgLogin hash P username password p =
     (let hashed = hashPassword hash password
      in case pq_select P (c_str username) p of
           Some ((storedHash, eloText) # _) \<Rightarrow>
             (case stoi eloText of
                None \<Rightarrow> (Inl (RuntimeError ''stoi''), p)
              | Some elo \<Rightarrow>
                  (Inr (if storedHash \<noteq> hashed then \<lparr>lr_success = False, lr_message = ''wrong password'', lr_elo = 0\<rparr>
                        else \<lparr>lr_success = True, lr_message = ''login successful'', lr_elo = elo\<rparr>), p))
         | _ \<Rightarrow>
             (case pq_insert P (c_str username) (c_str hashed) (showInt kStartingElo) p of
                (inserted, p1) \<Rightarrow>
                  (Inr (if \<not> inserted then \<lparr>lr_success = False, lr_message = ''could not create account'', lr_elo = 0\<rparr>
                        else \<lparr>lr_success = True, lr_message = ''account created'', lr_elo = kStartingElo\<rparr>), p1)))"

definition pgUpdateElo :: "'p postgres \<Rightarrow> string \<Rightarrow> int \<Rightarrow> 'p \<Rightarrow> 'p" where
  "pgUpdateElo P username newElo p = pq_update P (showInt newElo) (c_str username) p"

definition pgRecord :: "(json \<Rightarrow> string) \<Rightarrow> 'p postgres \<Rightarrow> game_record \<Rightarrow> 'p \<Rightarrow> 'p" where
  "pgRecord dump P g p =
     pq_insert_game P [c_str (rec_roomName g), c_str (rec_winnerUsername g), showInt (rec_winnerElo g), c_str (rec_loserUsername g),
       showInt (rec_loserElo g), c_str (rec_reason g), c_str (dump (rec_moveLog g))] p"

definition gameOfRow :: "(string \<Rightarrow> json option) \<Rightarrow> string list \<Rightarrow> json_error + game_record" where
  "gameOfRow parse cols =
     (case (stoi (cols ! 2), stoi (cols ! 4)) of
        (Some we, Some le) \<Rightarrow>
          Inr \<lparr>rec_roomName = cols ! 0, rec_winnerUsername = cols ! 1, rec_winnerElo = we, rec_loserUsername = cols ! 3, rec_loserElo = le,
            rec_reason = cols ! 5, rec_moveLog = (case parse (cols ! 6) of None \<Rightarrow> JObj [] | Some j \<Rightarrow> j)\<rparr>
      | _ \<Rightarrow> Inl (RuntimeError ''stoi''))"

definition pgList :: "(string \<Rightarrow> json option) \<Rightarrow> 'p postgres \<Rightarrow> int \<Rightarrow> 'p \<Rightarrow> json_error + game_record list" where
  "pgList parse P limit p =
     (case pq_list_games P (showInt limit) p of None \<Rightarrow> Inr [] | Some rows \<Rightarrow> mapE (gameOfRow parse) rows)"

section \<open>NATS\<close>

text \<open>
  A handler returns the state even when it throws. A subscription drops what it cannot parse and every
  exception; a request is answered in any case, if there is a subject to answer on.
\<close>

definition natsMessage :: "(string \<Rightarrow> json option) \<Rightarrow> (json \<Rightarrow> 's \<Rightarrow> json_error option \<times> 's) \<Rightarrow> string \<Rightarrow> 's \<Rightarrow> 's" where
  "natsMessage parse handler data s = (case parse data of None \<Rightarrow> s | Some p \<Rightarrow> snd (handler p s))"

text \<open>An exception of a handler becomes the reply, which is printed outside the \<open>try\<close> block.\<close>

definition natsRequest ::
  "(json \<Rightarrow> string) \<Rightarrow> (string \<Rightarrow> json option) \<Rightarrow> (json_error \<Rightarrow> string) \<Rightarrow> (string \<Rightarrow> string) \<Rightarrow>
     (json \<Rightarrow> 's \<Rightarrow> (json_error + json) \<times> 's) \<Rightarrow> string option \<Rightarrow> string \<Rightarrow> 's \<Rightarrow> (json_error + (string \<times> string) list) \<times> 's" where
  "natsRequest dump parse what parseWhat handler replySubject data s =
     (case replySubject of
        None \<Rightarrow> (Inr [], s)
      | Some subject \<Rightarrow>
          let (r, s1) = (case parse data of None \<Rightarrow> (Inl ParseError, s) | Some p \<Rightarrow> handler p s);
              replyPayload = (case r of Inr j \<Rightarrow> j | Inl ex \<Rightarrow> JObj [(''success'', JBool False), (''message'', JStr (exceptionText what parseWhat data ex))])
          in (sbind (dumpStrict dump replyPayload) (\<lambda>body. Inr [(subject, body)]), s1))"

text \<open>The other end: \<open>answered\<close> is the data of the reply, \<open>None\<close> after the timeout or an error.\<close>

definition natsAsk :: "(string \<Rightarrow> json option) \<Rightarrow> string option \<Rightarrow> json option" where
  "natsAsk parse reply = (case reply of None \<Rightarrow> None | Some d \<Rightarrow> parse d)"

end
