(* ===== verification/Stores_Laws.thy ===== *)
theory Stores_Laws
  imports Stores Matchmaking_Laws
begin

text \<open>
  The laws of the stores, from what Redis and Postgres document: the room directory holds exactly the rooms
  of the shards as long as no name is given twice, a token brings back the identity it was minted for, the
  two user repositories agree, and a request on NATS is always answered.
\<close>

section \<open>What Redis promises\<close>

datatype rvalue = RText string | RHash "string \<rightharpoonup> string"

fun hashArgs :: "string list \<Rightarrow> (string \<rightharpoonup> string) \<Rightarrow> (string \<rightharpoonup> string)" where
  "hashArgs (f # v # args) h = hashArgs args (h(f \<mapsto> v))"
| "hashArgs _ h = h"

text \<open>
  \<open>db\<close> is the value of each key. The commands the stores use, as Redis documents them: keys are overwritten
  by \<open>SET\<close> and \<open>SETEX\<close> (whose expiry is a step of its own), fields are added by \<open>HSET\<close>, and \<open>KEYS\<close> lists
  each matching key once.
\<close>

definition redis_kv :: "'r redis_conn \<Rightarrow> ('r \<Rightarrow> string \<rightharpoonup> rvalue) \<Rightarrow> bool" where
  "redis_kv R db \<longleftrightarrow> (\<forall>r k v n args.
     db (snd (R [''SET'', k, v] r)) = (db r)(k \<mapsto> RText v) \<and>
     db (snd (R [''SETEX'', k, n, v] r)) = (db r)(k \<mapsto> RText v) \<and>
     db (snd (R [''DEL'', k] r)) = (db r)(k := None) \<and>
     db (snd (R (''HSET'' # k # args) r)) =
       (case db r k of Some (RText _) \<Rightarrow> db r | Some (RHash h) \<Rightarrow> (db r)(k \<mapsto> RHash (hashArgs args h))
        | None \<Rightarrow> (db r)(k \<mapsto> RHash (hashArgs args Map.empty))) \<and>
     R [''GET'', k] r = (Some (case db r k of None \<Rightarrow> ReplyNil | Some (RText t) \<Rightarrow> ReplyString t | Some (RHash _) \<Rightarrow> ReplyError ''WRONGTYPE''), r) \<and>
     (\<exists>ks. R [''KEYS'', ''room:*''] r = (Some (ReplyArray (map ReplyString ks)), r) \<and> distinct ks \<and>
        set ks = {k \<in> dom (db r). take 5 k = ''room:''}))"

lemma redis_kvD:
  assumes "redis_kv R db"
  shows "db (snd (R [''SET'', k, v] r)) = (db r)(k \<mapsto> RText v)"
    and "db (snd (R [''SETEX'', k, n, v] r)) = (db r)(k \<mapsto> RText v)"
    and "db (snd (R [''DEL'', k] r)) = (db r)(k := None)"
    and "R [''GET'', k] r = (Some (case db r k of None \<Rightarrow> ReplyNil | Some (RText t) \<Rightarrow> ReplyString t | Some (RHash _) \<Rightarrow> ReplyError ''WRONGTYPE''), r)"
    and "l \<noteq> k \<Longrightarrow> db (snd (R (''HSET'' # k # args) r)) l = db r l"
    and "\<exists>ks. R [''KEYS'', ''room:*''] r = (Some (ReplyArray (map ReplyString ks)), r) \<and> distinct ks \<and>
        set ks = {k \<in> dom (db r). take 5 k = ''room:''}"
  using assms by (auto simp: redis_kv_def split: option.splits rvalue.splits)

section \<open>Tokens\<close>

definition sessionEntry :: "(string \<Rightarrow> json option) \<Rightarrow> rvalue option \<Rightarrow> client_session_data option" where
  "sessionEntry parse v =
     (case v of
        Some (RText s) \<Rightarrow>
          (case parse s of
             None \<Rightarrow> None
           | Some blob \<Rightarrow>
               (case sbind (jstring ''username'' blob) (\<lambda>u. sbind (sbind (jat ''elo'' blob) getInt) (\<lambda>e. Inr (u, e))) of
                  Inl _ \<Rightarrow> None | Inr (u, e) \<Rightarrow> Some \<lparr>csd_username = u, csd_elo = e\<rparr>))
      | _ \<Rightarrow> None)"

lemma sessionGet_entry:
  assumes "redis_kv R db"
  shows "sessionGet parse R t r = (sessionEntry parse (db r (''session:'' @ c_str t)), r)"
  unfolding sessionGet_def sessionEntry_def redis_kvD(4) [OF assms] by (auto split: option.split rvalue.split sum.split)

text \<open>A session that was put is found under its token, and no other token is touched.\<close>

lemma session_roundtrip:
  assumes laws: "redis_kv R db" and elo: "fits_int elo"
    and json: "parse (c_str (dump (JObj [(''username'', JStr u), (''elo'', JInt elo)]))) =
      Some (canon (JObj [(''username'', JStr u), (''elo'', JInt elo)]))"
  shows "fst (sessionGet parse R t (sessionPut dump R t' u elo r)) =
    (if c_str t = c_str t' then Some \<lparr>csd_username = u, csd_elo = elo\<rparr> else fst (sessionGet parse R t r))"
proof -
  have "sessionEntry parse (Some (RText (c_str (dump (JObj [(''username'', JStr u), (''elo'', JInt elo)]))))) =
      Some \<lparr>csd_username = u, csd_elo = elo\<rparr>"
    using elo by (simp add: sessionEntry_def json jstring_def jat_canon del: canon.simps(2))
  then show ?thesis by (simp add: sessionGet_entry [OF laws] sessionPut_def Let_def redis_kvD(2) [OF laws])
qed

section \<open>The directory\<close>

definition dirEntry :: "('r \<Rightarrow> string \<rightharpoonup> rvalue) \<Rightarrow> 'r \<Rightarrow> string \<Rightarrow> string option" where
  "dirEntry db r n = (case db r (roomKey n) of Some (RText a) \<Rightarrow> Some a | _ \<Rightarrow> None)"

lemma dirGet_entry:
  assumes "redis_kv R db"
  shows "dirGet R n r = (case dirEntry db r n of Some a \<Rightarrow> a | None \<Rightarrow> [], r)"
  by (simp add: dirGet_def redis_kvD [OF assms] dirEntry_def split: option.split rvalue.split)

definition dirEffect :: "effect \<Rightarrow> bool" where
  "dirEffect ef = (case ef of DirectorySet _ _ \<Rightarrow> True | DirectoryErase _ \<Rightarrow> True | _ \<Rightarrow> False)"

lemma storeEffect_entry:
  assumes laws: "redis_kv R db" and nul: "nul_free n"
  shows "nul_free m \<Longrightarrow> dirEntry db (storeEffect R (DirectorySet m a) r) n = (if n = m then Some (c_str a) else dirEntry db r n)"
    and "nul_free m \<Longrightarrow> dirEntry db (storeEffect R (DirectoryErase m) r) n = (if n = m then None else dirEntry db r n)"
    and "\<not> dirEffect ef \<Longrightarrow> dirEntry db (storeEffect R ef r) n = dirEntry db r n"
proof -
  have k: "roomKey n = roomKey m \<longleftrightarrow> n = m" if "nul_free m" for m using nul that by (simp add: roomKey_def nul_free_def)
  show "nul_free m \<Longrightarrow> dirEntry db (storeEffect R (DirectorySet m a) r) n = (if n = m then Some (c_str a) else dirEntry db r n)"
    "nul_free m \<Longrightarrow> dirEntry db (storeEffect R (DirectoryErase m) r) n = (if n = m then None else dirEntry db r n)"
    using k by (simp_all add: storeEffect_def dirSet_def dirErase_def dirEntry_def redis_kvD [OF laws])
  have other: "roomKey n \<noteq> c_str (reconnectKey m)" for m
    using c_str_prefix [of "''reconnect:''" m] by (simp add: roomKey_def reconnectKey_def nul_free_def c_str_def)
  show "\<not> dirEffect ef \<Longrightarrow> dirEntry db (storeEffect R ef r) n = dirEntry db r n"
    using other by (cases ef)
      (simp_all add: storeEffect_def dirEffect_def setDisconnected_def clearDisconnected_def dirEntry_def redis_kvD [OF laws])
qed

text \<open>A step of a registry adds one room, erases one, or leaves the rooms as they are.\<close>

lemma registry_step_rooms:
  assumes "registry_step dump parse what reg out reg'" "reg_directory reg"
  shows "reg_directory reg' \<and> reg_shardAddress reg' = reg_shardAddress reg \<and>
    ((\<forall>n. roomExists n reg' = roomExists n reg) \<and> list_all (\<lambda>ef. \<not> dirEffect ef) out \<or>
     (\<exists>n. \<not> roomExists n reg \<and> out = [DirectorySet n (reg_shardAddress reg)] \<and> (\<forall>m. roomExists m reg' \<longleftrightarrow> m = n \<or> roomExists m reg)) \<or>
     (\<exists>n. roomExists n reg \<and> out = [DirectoryErase n] \<and> (\<forall>m. roomExists m reg' \<longleftrightarrow> m \<noteq> n \<and> roomExists m reg)))"
  using assms
proof (induction rule: registry_step.induct)
  case (leave h reg c out reg')
  then show ?case
    by (auto simp: leave_def eraseRoom_def roomExists_def withRoom_def Let_def update_conv' map_of_map_entry delete_conv' split: option.splits if_splits)
next
  case (reap n reg out reg')
  then show ?case by (auto simp: reapIfSafe_def eraseRoom_def roomExists_def delete_conv' split: option.splits if_splits)
next
  case (create b n sm reg ok out reg')
  then show ?case by (auto simp: createRoom_def roomExists_def update_conv' split: if_splits)
next
  case (work n reg s out s')
  then show ?case by (auto simp: withSession_def withRoom_def roomExists_def map_of_map_entry dirEffect_def list_all_iff split: option.splits)
next
  case (fire reg t cd ec out reg' ex)
  then show ?case
    by (auto simp: countdownHandler_def withSession_def withRoom_def roomExists_def map_of_map_entry dirEffect_def list_all_iff Let_def
        split: option.splits if_splits prod.splits)
qed (auto simp: joinRoom_def reserveSeats_def startDisconnectCountdown_def cancelDisconnectCountdown_def withSession_def withRoom_def
    roomExists_def map_of_map_entry update_conv' dirEffect_def Let_def split: option.splits if_splits)

text \<open>
  The shards and the one Redis they share: any shard makes a step, and its effects reach the stores. A
  name is fresh if no other shard has a room under it.
\<close>

type_synonym 'r fleet = "(nat \<Rightarrow> registry) \<times> 'r"

inductive fleet_step :: "(json \<Rightarrow> string) \<Rightarrow> (string \<Rightarrow> json option) \<Rightarrow> (json_error \<Rightarrow> string) \<Rightarrow> 'r redis_conn \<Rightarrow> 'r fleet \<Rightarrow> 'r fleet \<Rightarrow> bool"
  for dump parse what R where
  shard: "registry_step dump parse what (regs i) out reg' \<Longrightarrow>
    (\<And>n a j. DirectorySet n a \<in> set out \<Longrightarrow> nul_free n \<and> (j \<noteq> i \<longrightarrow> \<not> roomExists n (regs j))) \<Longrightarrow>
    fleet_step dump parse what R (regs, r) (regs(i := reg'), fold (storeEffect R) out r)"

definition fleet_ok :: "('r \<Rightarrow> string \<rightharpoonup> rvalue) \<Rightarrow> (nat \<Rightarrow> string) \<Rightarrow> 'r fleet \<Rightarrow> bool" where
  "fleet_ok db addr = (\<lambda>(regs, r).
     (\<forall>i. reg_directory (regs i) \<and> reg_shardAddress (regs i) = addr i) \<and>
     (\<forall>i n. roomExists n (regs i) \<longrightarrow> nul_free n \<and> dirEntry db r n = Some (c_str (addr i)) \<and> (\<forall>j. roomExists n (regs j) \<longrightarrow> j = i)) \<and>
     (\<forall>n. nul_free n \<and> dirEntry db r n \<noteq> None \<longrightarrow> (\<exists>i. roomExists n (regs i))))"

lemma stores_keep_entry:
  assumes "redis_kv R db" "nul_free n" "list_all (\<lambda>ef. \<not> dirEffect ef) out"
  shows "dirEntry db (fold (storeEffect R) out r) n = dirEntry db r n"
  using assms(3)
proof (induction out arbitrary: r)
  case (Cons ef out)
  then show ?case using storeEffect_entry(3) [OF assms(1,2)] by simp
qed simp

lemma fleet_step_ok:
  assumes "fleet_step dump parse what R fl fl'" "redis_kv R db" "fleet_ok db addr fl"
  shows "fleet_ok db addr fl'"
  using assms(1,3)
proof (induction rule: fleet_step.induct)
  case (shard regs i out reg' r)
  have reg: "reg_directory (regs i)" "reg_shardAddress (regs i) = addr i" using shard(3) by (auto simp: fleet_ok_def)
  have room: "nul_free n" "dirEntry db r n = Some (c_str (addr j))" "roomExists n (regs k) \<Longrightarrow> k = j" if "roomExists n (regs j)" for n j k
    using shard(3) that by (auto simp: fleet_ok_def)
  have entry: "\<exists>j. roomExists n (regs j)" if "nul_free n" "dirEntry db r n \<noteq> None" for n
    using shard(3) that by (auto simp: fleet_ok_def)
  note ent = storeEffect_entry [OF assms(2)]
  note st = registry_step_rooms [OF shard(1) reg(1)]
  have st0: "reg_directory reg'" "reg_shardAddress reg' = addr i" using st reg by auto
  have 1: "\<forall>j. reg_directory ((regs(i := reg')) j) \<and> reg_shardAddress ((regs(i := reg')) j) = addr j"
    using st0 shard(3) by (simp add: fleet_ok_def)
  consider (same) "\<forall>n. roomExists n reg' = roomExists n (regs i)" "list_all (\<lambda>ef. \<not> dirEffect ef) out"
    | (added) n where "\<not> roomExists n (regs i)" "out = [DirectorySet n (addr i)]" "\<forall>m. roomExists m reg' \<longleftrightarrow> m = n \<or> roomExists m (regs i)"
    | (erased) n where "roomExists n (regs i)" "out = [DirectoryErase n]" "\<forall>m. roomExists m reg' \<longleftrightarrow> m \<noteq> n \<and> roomExists m (regs i)"
    using st reg(2) by metis
  then show ?case
  proof cases
    case same
    then have "dirEntry db (fold (storeEffect R) out r) n = dirEntry db r n" if "nul_free n" for n
      using that stores_keep_entry [OF assms(2)] by blast
    moreover have ex: "roomExists m ((regs(i := reg')) j) = roomExists m (regs j)" for m j using same(1) by simp
    ultimately show ?thesis unfolding fleet_ok_def prod.case ex using shard(3) st0 by (auto simp: fleet_ok_def)
  next
    case (added n)
    have n: "nul_free n" "\<And>j. \<not> roomExists n (regs j)" using shard(2) [of n "addr i"] added(1,2) by (metis list.set_intros(1))+
    have e: "dirEntry db (fold (storeEffect R) out r) m = (if m = n then Some (c_str (addr i)) else dirEntry db r m)" if "nul_free m" for m
      using ent(1) [OF that n(1)] by (simp add: added(2))
    have ex: "roomExists m ((regs(i := reg')) j) \<longleftrightarrow> m = n \<and> j = i \<or> roomExists m (regs j)" for m j using added(3) by auto
    have 2: "nul_free m \<and> dirEntry db (fold (storeEffect R) out r) m = Some (c_str (addr j)) \<and> (\<forall>k. roomExists m ((regs(i := reg')) k) \<longrightarrow> k = j)"
      if "roomExists m ((regs(i := reg')) j)" for m j
    proof (cases "m = n")
      case True
      then show ?thesis using that n e [of n] unfolding ex by simp
    next
      case False
      then have "roomExists m (regs j)" using that unfolding ex by simp
      moreover have "k = j" if "roomExists m ((regs(i := reg')) k)" for k
        using that room(3) [OF \<open>roomExists m (regs j)\<close>] False unfolding ex by simp
      ultimately show ?thesis using room(1,2) [of m j] e [of m] False by simp
    qed
    have 3: "\<exists>j. roomExists m ((regs(i := reg')) j)" if "nul_free m" "dirEntry db (fold (storeEffect R) out r) m \<noteq> None" for m
      using that e [OF that(1)] entry [OF that(1)] unfolding ex by (cases "m = n") auto
    show ?thesis unfolding fleet_ok_def prod.case using 1 2 3 by blast
  next
    case (erased n)
    have n: "nul_free n" "\<And>j. roomExists n (regs j) \<Longrightarrow> j = i" using room(1,3) [OF erased(1)] by simp_all
    have e: "dirEntry db (fold (storeEffect R) out r) m = (if m = n then None else dirEntry db r m)" if "nul_free m" for m
      using ent(2) [OF that n(1)] by (simp add: erased(2))
    have ex: "roomExists m ((regs(i := reg')) j) \<longleftrightarrow> m \<noteq> n \<and> roomExists m (regs j)" for m j using erased(3) n(2) [of j] by auto
    have 2: "nul_free m \<and> dirEntry db (fold (storeEffect R) out r) m = Some (c_str (addr j)) \<and> (\<forall>k. roomExists m ((regs(i := reg')) k) \<longrightarrow> k = j)"
      if "roomExists m ((regs(i := reg')) j)" for m j
      using room(3) [of m j] room(1,2) [of m j] e [of m] that unfolding ex by simp
    have 3: "\<exists>j. roomExists m ((regs(i := reg')) j)" if "nul_free m" "dirEntry db (fold (storeEffect R) out r) m \<noteq> None" for m
      using that e [OF that(1)] entry [OF that(1)] unfolding ex by (cases "m = n") auto
    show ?thesis unfolding fleet_ok_def prod.case using 1 2 3 by blast
  qed
qed

text \<open>Shards that have just started, with no room in the directory.\<close>

definition freshFleet :: "(nat \<Rightarrow> string) \<Rightarrow> bool \<Rightarrow> 'r \<Rightarrow> 'r fleet" where
  "freshFleet addr rs r = (\<lambda>i. newRegistry True (addr i) rs, r)"

lemma freshFleet_ok: "(\<And>n. dirEntry db r n = None) \<Longrightarrow> fleet_ok db addr (freshFleet addr rs r)"
  by (simp add: fleet_ok_def freshFleet_def newRegistry_def roomExists_def)

lemma fleet_run_ok:
  assumes "(fleet_step dump parse what R)\<^sup>*\<^sup>* fl fl'" "redis_kv R db" "fleet_ok db addr fl"
  shows "fleet_ok db addr fl'"
  using assms by (induction rule: rtranclp_induct) (auto intro: fleet_step_ok)

lemma dirGet_owner:
  assumes "fleet_ok db addr (regs, r)" "redis_kv R db" "nul_free n" "\<And>i. nul_free (addr i) \<and> addr i \<noteq> []"
  shows "roomExists n (regs i) \<Longrightarrow> fst (dirGet R n r) = addr i"
    and "fst (dirGet R n r) = [] \<longleftrightarrow> (\<forall>i. \<not> roomExists n (regs i))"
proof -
  have a: "\<And>i. c_str (addr i) = addr i" "\<And>i. addr i \<noteq> []" using assms(4) by (auto simp: nul_free_def)
  have room: "roomExists n (regs i) \<Longrightarrow> dirEntry db r n = Some (addr i)" for i using assms(1) a(1) by (auto simp: fleet_ok_def)
  have none: "dirEntry db r n = None" if "\<forall>i. \<not> roomExists n (regs i)" using assms(1,3) that by (auto simp: fleet_ok_def)
  have g: "fst (dirGet R n r) = (case dirEntry db r n of Some a \<Rightarrow> a | None \<Rightarrow> [])" by (simp add: dirGet_entry [OF assms(2)])
  show "roomExists n (regs i) \<Longrightarrow> fst (dirGet R n r) = addr i" using room unfolding g by simp
  show "fst (dirGet R n r) = [] \<longleftrightarrow> (\<forall>i. \<not> roomExists n (regs i))"
    using room none a(2) unfolding g by (cases "\<exists>j. roomExists n (regs j)") auto
qed

text \<open>The list of the rooms: every named room once.\<close>

lemma concat_keep: "concat (map (\<lambda>s. if P s then [f s] else []) xs) = map f (filter P xs)"
  by (induction xs) auto

lemma dirList_rooms:
  assumes "fleet_ok db addr (regs, r)" "redis_kv R db" and clean: "\<And>k. k \<in> dom (db r) \<Longrightarrow> take 5 k = ''room:'' \<Longrightarrow> nul_free k \<and> (\<exists>a. db r k = Some (RText a))"
  shows "distinct (fst (dirList R r)) \<and> set (fst (dirList R r)) = {n. n \<noteq> [] \<and> (\<exists>i. roomExists n (regs i))}"
proof -
  obtain ks where ks: "R [''KEYS'', ''room:*''] r = (Some (ReplyArray (map ReplyString ks)), r)" "distinct ks"
      "set ks = {k \<in> dom (db r). take 5 k = ''room:''}"
    using redis_kvD(6) [OF assms(2)] by blast
  have l: "fst (dirList R r) = map (drop 5) (filter (\<lambda>k. 5 < length k) ks)"
    unfolding dirList_def ks(1) by (simp add: comp_def kPrefixLen_def concat_keep)
  have key: "k = ''room:'' @ drop 5 k" if "k \<in> set ks" for k using that ks(3) append_take_drop_id [of 5 k] by auto
  have inj: "inj_on (drop 5) (set ks)" by (rule inj_onI) (metis key)
  have "n \<in> set (fst (dirList R r)) \<longleftrightarrow> n \<noteq> [] \<and> (\<exists>i. roomExists n (regs i))" for n
  proof
    assume "n \<in> set (fst (dirList R r))"
    then obtain k where k: "k \<in> set ks" "5 < length k" "n = drop 5 k" by (auto simp: l)
    then have kn: "k = ''room:'' @ n" using key by simp
    obtain a where a: "nul_free k" "db r k = Some (RText a)" using clean k(1) ks(3) by blast
    then have n: "nul_free n" using kn by (simp add: nul_free_def c_str_def)
    then have "dirEntry db r n = Some a" using a(2) kn by (simp add: dirEntry_def roomKey_def nul_free_def)
    then show "n \<noteq> [] \<and> (\<exists>i. roomExists n (regs i))" using k(2,3) n assms(1) by (auto simp: fleet_ok_def)
  next
    assume n: "n \<noteq> [] \<and> (\<exists>i. roomExists n (regs i))"
    then obtain i where i: "nul_free n" "dirEntry db r n = Some (c_str (addr i))" using assms(1) by (auto simp: fleet_ok_def)
    then have "''room:'' @ n \<in> set ks" by (auto simp: ks(3) dirEntry_def roomKey_def nul_free_def split: option.splits)
    then show "n \<in> set (fst (dirList R r))" using n unfolding l by (intro image_eqI [of _ _ "''room:'' @ n"] | simp)+
  qed
  moreover have "distinct (fst (dirList R r))"
    unfolding l using ks(2) inj by (auto simp: distinct_map intro: inj_on_subset)
  ultimately show ?thesis by auto
qed

text \<open>
  Nothing keeps two shards from creating rooms of one name: the second entry replaces the first, and
  when one of the rooms goes, the entry of the other goes with it.
\<close>

lemma same_name_twice:
  fixes b :: board and A B :: registry and n :: string and r :: 'r and R :: "'r redis_conn"
  assumes laws: "redis_kv R db" and n: "nul_free n" and dir: "reg_directory A" "reg_directory B"
    and fresh: "\<not> roomExists n A" "\<not> roomExists n B"
  defines "c1 \<equiv> createRoom n b True A" and "c2 \<equiv> createRoom n b True B"
  defines "A1 \<equiv> snd (snd c1)" and "B1 \<equiv> snd (snd c2)"
  defines "r2 \<equiv> fold (storeEffect R) (fst (snd c1) @ fst (snd c2)) r"
  shows "fst c1 \<and> fst c2 \<and> roomExists n A1 \<and> roomExists n B1 \<and>
    dirEntry db r2 n = Some (c_str (reg_shardAddress B)) \<and>
    (let (out, A2) = eraseRoom n A1 in roomExists n B1 \<and> dirEntry db (fold (storeEffect R) out r2) n = None)"
  using fresh dir storeEffect_entry(1,2) [OF laws n n]
  by (simp add: c1_def c2_def A1_def B1_def r2_def createRoom_def eraseRoom_def roomExists_def update_conv')

section \<open>The two user repositories\<close>

text \<open>\<open>tbl\<close> is the table of users; the statements as Postgres documents them, a failed insertion included.\<close>

definition postgres_laws :: "'p postgres \<Rightarrow> bool \<Rightarrow> ('p \<Rightarrow> users) \<Rightarrow> bool" where
  "postgres_laws P writable tbl \<longleftrightarrow> (\<forall>u h e p.
     pq_select P u p = Some (case map_of (tbl p) u of None \<Rightarrow> [] | Some (hash, elo) \<Rightarrow> [(hash, showInt elo)]) \<and>
     (map_of (tbl p) u = None \<longrightarrow> fst (pq_insert P u h (showInt e) p) = writable \<and>
        tbl (snd (pq_insert P u h (showInt e) p)) = (if writable then AList.update u (h, e) (tbl p) else tbl p)) \<and>
     tbl (pq_update P (showInt e) u p) = AList.map_entry u (\<lambda>(h, _). (h, e)) (tbl p))"

lemma postgres_lawsD:
  assumes "postgres_laws P writable tbl"
  shows "pq_select P u p = Some (case map_of (tbl p) u of None \<Rightarrow> [] | Some (hash, elo) \<Rightarrow> [(hash, showInt elo)])"
    and "map_of (tbl p) u = None \<Longrightarrow> fst (pq_insert P u h (showInt e) p) = writable"
    and "map_of (tbl p) u = None \<Longrightarrow> tbl (snd (pq_insert P u h (showInt e) p)) = (if writable then AList.update u (h, e) (tbl p) else tbl p)"
    and "tbl (pq_update P (showInt e) u p) = AList.map_entry u (\<lambda>(h, _). (h, e)) (tbl p)"
  using assms by (auto simp: postgres_laws_def)

lemma pgLogin_refines:
  assumes "postgres_laws P writable tbl" "pgLogin hash P u pw p = (r, p')"
  shows "r = Inr (fst (login hash writable u pw (tbl p)))" "tbl p' = snd (login hash writable u pw (tbl p))"
proof -
  note laws = postgres_lawsD [OF assms(1)]
  have "r = Inr (fst (login hash writable u pw (tbl p))) \<and> tbl p' = snd (login hash writable u pw (tbl p))"
  proof (cases "map_of (tbl p) (c_str u)")
    case None
    obtain ok p1 where i: "pq_insert P (c_str u) (c_str (hashPassword hash pw)) (showInt kStartingElo) p = (ok, p1)" by (metis prod.exhaust)
    then show ?thesis
      using assms(2) laws(2,3) [OF None, of "c_str (hashPassword hash pw)" kStartingElo] None
      by (auto simp: pgLogin_def login_def laws(1) Let_def)
  next
    case (Some x)
    then show ?thesis using assms(2) by (cases x) (auto simp: pgLogin_def login_def laws(1) stoi_showInt Let_def)
  qed
  then show "r = Inr (fst (login hash writable u pw (tbl p)))" "tbl p' = snd (login hash writable u pw (tbl p))" by simp_all
qed

lemma pgUpdateElo_refines:
  assumes "postgres_laws P writable tbl"
  shows "tbl (pgUpdateElo P u e p) = updateElo u e (tbl p)"
  using postgres_lawsD(4) [OF assms] by (simp add: pgUpdateElo_def updateElo_def)

text \<open>Series of operations on either repository.\<close>

datatype user_op = LoginOp string string | UpdateEloOp string int

fun sqliteRun :: "(string \<Rightarrow> nat) \<Rightarrow> bool \<Rightarrow> user_op list \<Rightarrow> users \<Rightarrow> login_result list \<times> users" where
  "sqliteRun hash writable [] us = ([], us)"
| "sqliteRun hash writable (LoginOp u pw # ops) us =
     (let (r, us1) = login hash writable u pw us; (rs, us2) = sqliteRun hash writable ops us1 in (r # rs, us2))"
| "sqliteRun hash writable (UpdateEloOp u e # ops) us = sqliteRun hash writable ops (updateElo u e us)"

fun postgresRun :: "(string \<Rightarrow> nat) \<Rightarrow> 'p postgres \<Rightarrow> user_op list \<Rightarrow> 'p \<Rightarrow> (json_error + login_result) list \<times> 'p" where
  "postgresRun hash P [] p = ([], p)"
| "postgresRun hash P (LoginOp u pw # ops) p =
     (let (r, p1) = pgLogin hash P u pw p; (rs, p2) = postgresRun hash P ops p1 in (r # rs, p2))"
| "postgresRun hash P (UpdateEloOp u e # ops) p = postgresRun hash P ops (pgUpdateElo P u e p)"

text \<open>A row of the games table brings its game back, the move log in canonical form.\<close>

lemma game_row_roundtrip:
  assumes "parse (c_str (dump (rec_moveLog g))) = Some (canon (rec_moveLog g))"
    and "nul_free (rec_roomName g)" "nul_free (rec_winnerUsername g)" "nul_free (rec_loserUsername g)" "nul_free (rec_reason g)"
    and "\<And>row. \<exists>rest. pq_list_games P limit (pq_insert_game P row p) = Some (row # rest)"
  shows "\<exists>rows. pq_list_games P limit (pgRecord dump P g p) = Some rows \<and>
    gameOfRow parse (hd rows) = Inr (g\<lparr>rec_moveLog := canon (rec_moveLog g)\<rparr>)"
proof -
  let ?row = "[c_str (rec_roomName g), c_str (rec_winnerUsername g), showInt (rec_winnerElo g), c_str (rec_loserUsername g),
       showInt (rec_loserElo g), c_str (rec_reason g), c_str (dump (rec_moveLog g))]"
  obtain rest where "pq_list_games P limit (pq_insert_game P ?row p) = Some (?row # rest)" using assms(6) by blast
  moreover have "gameOfRow parse ?row = Inr (g\<lparr>rec_moveLog := canon (rec_moveLog g)\<rparr>)"
    using assms(1-5) by (simp add: gameOfRow_def stoi_showInt nul_free_def)
  ultimately show ?thesis by (auto simp: pgRecord_def)
qed

section \<open>Requests on NATS\<close>

text \<open>A request is answered once, with what the handler returned or with the exception it threw, if that is UTF-8.\<close>

lemma nats_request_answered:
  fixes what parseWhat
  assumes "\<And>j. parse (dump j) = Some (canon j)"
  defines "reply \<equiv> \<lambda>p r. case r of Inr j \<Rightarrow> j | Inl ex \<Rightarrow> failure (exceptionText what parseWhat (dump p) ex)"
  assumes "json_utf8 (reply p (fst (handler (canon p) s)))"
  shows "case natsRequest dump parse what parseWhat handler (Some subject) (dump p) s of
      (replies, s') \<Rightarrow> \<exists>d. replies = Inr [(subject, d)] \<and> s' = snd (handler (canon p) s) \<and>
        natsAsk parse (Some d) = Some (canon (reply p (fst (handler (canon p) s))))"
proof -
  obtain a s1 where h: "handler (canon p) s = (a, s1)" by (metis prod.exhaust)
  show ?thesis using assms
    by (cases a) (simp_all add: h natsRequest_def natsAsk_def failure_def dumpStrict_def sbind_def del: canon.simps)
qed

end
