(* ===== verification/Process_Start.thy ===== *)
theory Process_Start
  imports Home_Laws Stores_Laws
begin

text \<open>
  How the processes start and talk to what they run on: \<open>server/server_main.cpp\<close>, the two gateway mains, those of the
  matchmaker and the allocator with their metrics,
  the client's HTTP transport (\<open>client/net/HttpClient.cpp\<close>) and its sound commands
  (\<open>client/audio/SoundPlayer.cpp\<close>). The environment variables, the build options and the outcome of
  opening a connection are parameters.
\<close>

section \<open>Numbers from the environment\<close>

text \<open>The digits \<open>strtol\<close> reads: white space, a sign, digits; \<open>None\<close> if there are none.\<close>

definition strtol :: "string \<Rightarrow> int option" where
  "strtol s =
     (let s1 = dropWhile isSpace s;
          (neg, s2) = (case s1 of c # cs \<Rightarrow> if c = CHR ''-'' then (True, cs) else if c = CHR ''+'' then (False, cs) else (False, s1) | [] \<Rightarrow> (False, s1));
          ds = takeWhile (\<lambda>c. CHR ''0'' \<le> c \<and> c \<le> CHR ''9'') s2
      in if ds = [] then None else Some (if neg then - int (readNat ds) else int (readNat ds)))"

text \<open>\<open>atoi\<close> on a value that fits, and \<open>std::stoi\<close> with its two exceptions.\<close>

definition atoi :: "string \<Rightarrow> int" where
  "atoi s = (case strtol s of None \<Rightarrow> 0 | Some i \<Rightarrow> i)"

definition stdStoi :: "string \<Rightarrow> string + int" where
  "stdStoi s = (case strtol s of None \<Rightarrow> Inl ''invalid stoi argument''
     | Some i \<Rightarrow> if fits_int i then Inr i else Inl ''stoi argument out of range'')"

definition envPort :: "(string \<Rightarrow> string option) \<Rightarrow> string \<Rightarrow> int \<Rightarrow> string + int" where
  "envPort getenv name fallback =
     (case getenv name of None \<Rightarrow> Inr fallback | Some v \<Rightarrow> sbind (stdStoi v) (\<lambda>i. Inr (i mod 65536)))"

definition redisPort :: "(string \<Rightarrow> string option) \<Rightarrow> int" where
  "redisPort getenv = (case getenv ''REDIS_PORT'' of None \<Rightarrow> 6379 | Some v \<Rightarrow> atoi v)"

section \<open>A shard\<close>

text \<open>
  \<open>opens\<close> says how connecting ends: the exception, if there is one. \<open>have_*\<close> are the options of the build.
\<close>

record surroundings =
  su_getenv :: "string \<Rightarrow> string option"
  su_hostname :: "string option"
  have_postgres :: bool
  have_redis :: bool
  have_nats :: bool
  opens_redis :: "string \<Rightarrow> int \<Rightarrow> string option"
  opens_postgres :: "string \<Rightarrow> string option"
  opens_sqlite :: "string \<Rightarrow> string option"
  opens_nats :: "string \<Rightarrow> string option"

datatype user_backend = Sqlite string | Postgres string

definition deriveShardAddress :: "surroundings \<Rightarrow> string" where
  "deriveShardAddress su =
     (case su_getenv su ''SHARD_ADDRESS'' of
        Some a \<Rightarrow> a
      | None \<Rightarrow> (case su_hostname su of None \<Rightarrow> [] | Some h \<Rightarrow> ''ws://'' @ h @ '':9002''))"

definition opened :: "string option \<Rightarrow> 'a \<Rightarrow> string + 'a" where
  "opened err x = (case err of Some m \<Rightarrow> Inl m | None \<Rightarrow> Inr x)"

text \<open>The five optional Redis stores are made alike: whether there is one, or the exception of its constructor.\<close>

definition makeRedisStore :: "surroundings \<Rightarrow> string + bool" where
  "makeRedisStore su =
     (if \<not> have_redis su then Inr False
      else case su_getenv su ''REDIS_HOST'' of
             None \<Rightarrow> Inr False
           | Some host \<Rightarrow> opened (opens_redis su host (redisPort (su_getenv su))) True)"

definition makeUserRepository :: "surroundings \<Rightarrow> string + user_backend" where
  "makeUserRepository su =
     (case (if have_postgres su then su_getenv su ''DATABASE_URL'' else None) of
        Some url \<Rightarrow> opened (opens_postgres su url) (Postgres url)
      | None \<Rightarrow> opened (opens_sqlite su ''users.db'') (Sqlite ''users.db''))"

definition makeGameHistoryRepository :: "surroundings \<Rightarrow> string + bool" where
  "makeGameHistoryRepository su =
     (case (if have_postgres su then su_getenv su ''DATABASE_URL'' else None) of
        Some url \<Rightarrow> opened (opens_postgres su url) True | None \<Rightarrow> Inr False)"

definition makeNatsClient :: "surroundings \<Rightarrow> string + bool" where
  "makeNatsClient su =
     (case (if have_nats su then su_getenv su ''NATS_URL'' else None) of
        Some url \<Rightarrow> opened (opens_nats su url) True | None \<Rightarrow> Inr False)"

record shard_setup =
  ss_registry :: registry
  ss_users :: user_backend
  ss_sessionStore :: bool
  ss_nats :: bool
  ss_gameHistory :: bool
  ss_gameStateStore :: bool

text \<open>\<open>main\<close> up to \<open>server.run\<close>; an exception ends it with exit code 1.\<close>

definition serverMain :: "surroundings \<Rightarrow> string + shard_setup" where
  "serverMain su =
     sbind (makeRedisStore su) (\<lambda>directory. sbind (makeNatsClient su) (\<lambda>nats. sbind (makeRedisStore su) (\<lambda>reconnect.
     sbind (makeUserRepository su) (\<lambda>users. sbind (makeRedisStore su) (\<lambda>sessions. sbind (makeGameHistoryRepository su) (\<lambda>history.
     sbind (makeRedisStore su) (\<lambda>states.
     Inr \<lparr>ss_registry = newRegistry directory (deriveShardAddress su) reconnect, ss_users = users, ss_sessionStore = sessions,
          ss_nats = nats, ss_gameHistory = history, ss_gameStateStore = states\<rparr>)))))))"

text \<open>The heartbeat of a shard, as the allocator and the gateways read it.\<close>

definition heartbeat :: "(nat \<Rightarrow> nat list) \<Rightarrow> string \<Rightarrow> registry \<Rightarrow> json" where
  "heartbeat ord shardAddress reg =
     JObj [(''shard'', JStr shardAddress), (''roomCount'', JInt (int (length (roomNames ord reg))))]"

section \<open>The gateways\<close>

text \<open>\<open>Inl\<close>: exit code 1 with a message; the exceptions outside the \<open>try\<close> block leave \<open>main\<close> and are \<open>Inr None\<close>.\<close>

definition wsGatewayMain :: "surroundings \<Rightarrow> string + int option" where
  "wsGatewayMain su =
     (case envPort (su_getenv su) ''GATEWAY_PORT'' 8080 of
        Inl _ \<Rightarrow> Inr None
      | Inr port \<Rightarrow>
          (case su_getenv su ''NATS_URL'' of
             None \<Rightarrow> Inl ''ws-gateway: NATS_URL not set, nothing to discover shards with''
           | Some url \<Rightarrow> sbind (opened (opens_nats su url) ()) (\<lambda>_. Inr (Some port))))"

definition apiGatewayMain :: "surroundings \<Rightarrow> string + (int \<times> bool) option" where
  "apiGatewayMain su =
     (case envPort (su_getenv su) ''API_PORT'' 8081 of
        Inl _ \<Rightarrow> Inr None
      | Inr port \<Rightarrow>
          (case su_getenv su ''REDIS_HOST'' of
             None \<Rightarrow> Inl ''api-gateway: REDIS_HOST not set, nothing to serve without it''
           | Some host \<Rightarrow>
               (case su_getenv su ''NATS_URL'' of
                  None \<Rightarrow> Inl ''api-gateway: NATS_URL not set, nothing to discover shards with''
                | Some url \<Rightarrow>
                    (case (case su_getenv su ''DATABASE_URL'' of None \<Rightarrow> Inr False | Some db \<Rightarrow> opened (opens_postgres su db) True) of
                       Inl _ \<Rightarrow> Inr None
                     | Inr history \<Rightarrow>
                         sbind (opened (opens_redis su host (redisPort (su_getenv su))) ()) (\<lambda>_.
                         sbind (opened (opens_nats su url) ()) (\<lambda>_. Inr (Some (port, history))))))))"

section \<open>The matchmaker and the allocator\<close>

definition envString :: "(string \<Rightarrow> string option) \<Rightarrow> string \<Rightarrow> string \<Rightarrow> string" where
  "envString getenv name fallback = (case getenv name of None \<Rightarrow> fallback | Some v \<Rightarrow> v)"

definition healthPort :: "(string \<Rightarrow> string option) \<Rightarrow> int \<Rightarrow> int" where
  "healthPort getenv fallback = (case getenv ''HEALTH_PORT'' of None \<Rightarrow> fallback | Some v \<Rightarrow> atoi v mod 65536)"

text \<open>Exit code 1 with a message, or the port that answers \<open>/health\<close> and \<open>/metrics\<close>.\<close>

definition matchmakerMain :: "surroundings \<Rightarrow> string + int" where
  "matchmakerMain su =
     (let natsUrl = envString (su_getenv su) ''NATS_URL'' ''nats://localhost:4222''
      in case su_getenv su ''REDIS_HOST'' of
           None \<Rightarrow> Inl ''matchmaker: REDIS_HOST not set, nothing to share the waiting pool with''
         | Some host \<Rightarrow>
             sbind (opened (opens_nats su natsUrl) ()) (\<lambda>_.
             sbind (opened (opens_redis su host (redisPort (su_getenv su))) ()) (\<lambda>_.
             Inr (healthPort (su_getenv su) 9101))))"

definition allocatorMain :: "surroundings \<Rightarrow> string + int" where
  "allocatorMain su =
     (let natsUrl = envString (su_getenv su) ''NATS_URL'' ''nats://localhost:4222''
      in case su_getenv su ''REDIS_HOST'' of
           None \<Rightarrow> Inl ''game-allocator: REDIS_HOST not set, nothing to allocate room names with''
         | Some host \<Rightarrow>
             sbind (opened (opens_nats su natsUrl) ()) (\<lambda>_.
             sbind (opened (opens_redis su host (redisPort (su_getenv su))) ()) (\<lambda>_.
             Inr (healthPort (su_getenv su) 9102))))"

definition counterMetric :: "string \<Rightarrow> string \<Rightarrow> nat \<Rightarrow> string" where
  "counterMetric name help n =
     ''# HELP '' @ name @ '' '' @ help @ [newline] @ ''# TYPE '' @ name @ '' counter'' @ [newline] @
     name @ '' '' @ showNat n @ ''.000000'' @ [newline]"

text \<open>The answer to a request of either process: its content type if one is set, and its body.\<close>

definition healthAnswer :: "string \<Rightarrow> string \<Rightarrow> string option \<times> string" where
  "healthAnswer metrics uri = (if uri = ''/metrics'' then (Some ''text/plain; version=0.0.4'', metrics) else (None, ''OK''))"

definition matchmakerHttp :: "'r matchmaker \<Rightarrow> string \<Rightarrow> string option \<times> string" where
  "matchmakerHttp mm = healthAnswer
     (counterMetric ''matches_found_total'' ''Matches found by this replica'' (mm_matchesFound mm) @
      counterMetric ''assignment_timeouts_total'' ''Matches whose room assignment never arrived in time'' (mm_assignmentTimeouts mm))"

definition allocatorHttp :: "allocator \<Rightarrow> string \<Rightarrow> string option \<times> string" where
  "allocatorHttp al = healthAnswer
     (counterMetric ''allocations_total'' ''Rooms successfully allocated by this replica'' (al_allocations al) @
      gaugeMetric ''known_shard_count'' ''Game-server shards heard from via shard.heartbeat'' (length (al_shardLoad al)))"

text \<open>A shard and the WebSocket gateway answer in the same way.\<close>

definition shardHttp :: "(nat \<Rightarrow> nat list) \<Rightarrow> server \<Rightarrow> string \<Rightarrow> string option \<times> string" where
  "shardHttp ord sv = healthAnswer
     (gaugeMetric ''active_rooms'' ''Rooms currently open on this shard'' (length (roomNames ord (sv_registry sv))) @
      gaugeMetric ''active_connections'' ''Logged-in WebSocket connections on this shard'' (length (sv_clients sv)))"

definition wsGatewayHttp :: "ws_gateway \<Rightarrow> string \<Rightarrow> string option \<times> string" where
  "wsGatewayHttp wg = healthAnswer
     (gaugeMetric ''active_links'' ''Client<->shard links currently proxied by this gateway'' (length (wg_byDownstream wg)))"

section \<open>The transport of the client\<close>

datatype http_outcome = NoConnection | NoRequest | NotSent | Body string

definition transportError :: "string \<Rightarrow> json" where
  "transportError message = JObj [(''success'', JBool False), (''message'', JStr message)]"

definition doRequest :: "(string \<Rightarrow> json option) \<Rightarrow> http_outcome \<Rightarrow> json" where
  "doRequest parse r =
     (case r of
        NoConnection \<Rightarrow> transportError ''could not connect to server''
      | NoRequest \<Rightarrow> transportError ''could not open request''
      | NotSent \<Rightarrow> transportError ''server unreachable''
      | Body b \<Rightarrow> (case parse b of Some j \<Rightarrow> j | None \<Rightarrow> transportError ''malformed response from server''))"

definition httpPost :: "(json \<Rightarrow> string) \<Rightarrow> (string \<Rightarrow> json option) \<Rightarrow> bool \<Rightarrow> (string \<Rightarrow> string \<Rightarrow> http_outcome) \<Rightarrow> string \<Rightarrow> json \<Rightarrow> json" where
  "httpPost dump parse hSession wire path body =
     (if \<not> hSession then transportError ''http session not initialized'' else doRequest parse (wire path (dump body)))"

section \<open>Sounds\<close>

definition aliasFor :: "string \<Rightarrow> string" where
  "aliasFor fileName = ''kfc_'' @ filter isAlnum fileName"

text \<open>The commands sent to MCI; \<open>isRealWav\<close> looks at the file, \<open>opens\<close> says whether the open command succeeds.\<close>

definition playSound :: "(string \<Rightarrow> bool) \<Rightarrow> (string \<Rightarrow> bool) \<Rightarrow> string \<Rightarrow> string \<Rightarrow> string list" where
  "playSound isRealWav opens assetsRoot fileName =
     (let path = assetsRoot @ ''/sounds/'' @ fileName; alias = aliasFor fileName;
          deviceType = (if isRealWav path then ''waveaudio'' else ''MPEGVideo'');
          openCmd = ''open '' @ [CHR 0x22] @ path @ [CHR 0x22] @ '' type '' @ deviceType @ '' alias '' @ alias
      in (''close '' @ alias) # openCmd # (if opens openCmd then [''play '' @ alias] else []))"

section \<open>Laws\<close>

lemma envPort_range:
  assumes "envPort getenv name fallback = Inr port" "0 \<le> fallback" "fallback < 65536"
  shows "0 \<le> port \<and> port < 65536"
  using assms by (auto simp: envPort_def sbind_Inr_iff split: option.splits)

text \<open>A port beyond 65535 is not refused: the process listens on the port modulo 65536.\<close>

lemma envPort_wraps: "envPort (\<lambda>_. Some ''70000'') ''API_PORT'' 8081 = Inr 4464"
  by (simp add: envPort_def stdStoi_def strtol_def isSpace_def readNat_def digitValue_def less_eq_char_def fits_int_def INT_MAX_def INT_MIN_def Let_def)

lemma healthPort_range: "0 \<le> fallback \<Longrightarrow> fallback < 65536 \<Longrightarrow> 0 \<le> healthPort getenv fallback \<and> healthPort getenv fallback < 65536"
  by (auto simp: healthPort_def split: option.split)

text \<open>Neither process starts without a Redis to share; a missing \<open>NATS_URL\<close> is replaced by the local one.\<close>

lemma main_needs_redis:
  assumes "matchmakerMain su = Inr port \<or> allocatorMain su = Inr port"
  shows "\<exists>host. su_getenv su ''REDIS_HOST'' = Some host \<and> opens_redis su host (redisPort (su_getenv su)) = None \<and> 0 \<le> port \<and> port < 65536"
  using assms healthPort_range [of 9101 "su_getenv su"] healthPort_range [of 9102 "su_getenv su"]
  by (auto simp: matchmakerMain_def allocatorMain_def Let_def sbind_Inr_iff opened_def split: option.splits)

text \<open>The counters that \<open>/metrics\<close> shows: the pairs announced, and the tickets given up.\<close>

lemma mm_step_counts:
  assumes "mm_step R ev mm = (out, mm')"
  shows "mm_matchesFound mm' = mm_matchesFound mm + length (matchesIn out)"
proof (cases ev)
  case (MatchRequest j)
  then show ?thesis
    using assms by (auto simp: onMatchRequest_def watchForAssignment_def waitForMatch_def split: sum.splits prod.splits option.splits)
next
  case (AssignmentTimeout a b)
  then show ?thesis using assms by (auto simp: onAssignmentTimeout_def giveUp_def split: if_splits)
qed (use assms in \<open>auto simp: onMatchCancel_def onPairAssigned_def onSearchTimeout_def Let_def sbind_Inr_iff split: sum.splits if_splits\<close>)

lemma mm_run_counts: "mm_run R evs mm = (out, mm') \<Longrightarrow> mm_matchesFound mm' = mm_matchesFound mm + length (matchesIn out)"
  by (induction evs arbitrary: mm out) (auto simp: Let_def dest: mm_step_counts split: prod.splits)

text \<open>The stores of a shard come together: all of them are there, or none.\<close>

lemma serverMain_stores:
  assumes "serverMain su = Inr s"
  shows "reg_directory (ss_registry s) = ss_sessionStore s \<and> reg_reconnectStore (ss_registry s) = ss_sessionStore s \<and>
    ss_gameStateStore s = ss_sessionStore s \<and> registry_ok (ss_registry s) \<and> reg_shardAddress (ss_registry s) = deriveShardAddress su \<and>
    (ss_sessionStore s \<longleftrightarrow> have_redis su \<and> su_getenv su ''REDIS_HOST'' \<noteq> None)"
proof -
  obtain d where d: "makeRedisStore su = Inr d" using assms by (cases "makeRedisStore su") (simp_all add: serverMain_def)
  have "d \<longleftrightarrow> have_redis su \<and> su_getenv su ''REDIS_HOST'' \<noteq> None"
    using d by (auto simp: makeRedisStore_def opened_def split: if_splits option.splits)
  moreover obtain nats users history where
    "s = \<lparr>ss_registry = newRegistry d (deriveShardAddress su) d, ss_users = users, ss_sessionStore = d, ss_nats = nats,
       ss_gameHistory = history, ss_gameStateStore = d\<rparr>"
    using assms unfolding serverMain_def d sbind_simps by (auto simp: sbind_Inr_iff)
  ultimately show ?thesis using newRegistry_ok by (simp add: newRegistry_def)
qed

text \<open>The allocator reads from a heartbeat the number of rooms of the shard.\<close>

lemma heartbeat_read:
  assumes "iteration_order ord" "int (length (reg_rooms reg)) \<le> LLONG_MAX"
  shows "onHeartbeat (canon (heartbeat ord a reg)) al =
    Inr (al\<lparr>al_shardLoad := AList.update a (int (length (reg_rooms reg))) (al_shardLoad al)\<rparr>)"
proof -
  have "mset (iter ord (reg_rooms reg)) = mset (reg_rooms reg)" by (rule mset_iter [OF assms(1)])
  then have l: "length (roomNames ord reg) = length (reg_rooms reg)" unfolding roomNames_def by (metis length_map size_mset)
  have "wrap64 (int (length (reg_rooms reg))) = int (length (reg_rooms reg))" using assms(2) by (simp add: wrap64_def LLONG_MAX_def)
  then show ?thesis by (simp add: onHeartbeat_def heartbeat_def jstring_def jat_canon getLong_def l del: canon.simps(2))
qed

text \<open>A broken transport is a refused login with a message, never an exception.\<close>

lemma login_transport_failure:
  assumes "\<not> hSession \<or> (\<exists>r. wire ''/login'' (dump (JObj [(''username'', JStr u), (''password'', JStr p)])) = r \<and>
      (case r of Body b \<Rightarrow> parse b = None | _ \<Rightarrow> True))"
  shows "\<exists>m. postLoginRequest (httpPost dump parse hSession wire) u p = Inr \<lparr>cl_success = False, cl_message = m, cl_elo = 0, cl_token = []\<rparr> \<and> m \<noteq> []"
proof -
  let ?r = "wire ''/login'' (dump (JObj [(''username'', JStr u), (''password'', JStr p)]))"
  have f: "\<exists>m. doRequest parse r = transportError m \<and> m \<noteq> []" if "case r of Body b \<Rightarrow> parse b = None | _ \<Rightarrow> True" for r
    using that by (cases r) (simp_all add: doRequest_def, force+)
  obtain m where "httpPost dump parse hSession wire ''/login'' (JObj [(''username'', JStr u), (''password'', JStr p)]) = transportError m" "m \<noteq> []"
    using assms f [of ?r] by (cases hSession) (auto simp: httpPost_def)
  then show ?thesis
    by (intro exI [of _ m]) (simp add: postLoginRequest_def Let_def transportError_def replySuccess_def jvalueString_def jvalueInt_def wrap32_def)
qed

text \<open>Every sound has its own channel: the device alias is different for each file.\<close>

lemma sound_channels: "distinct (map aliasFor [soundClick, soundMove, soundCapture, soundIllegalMove, soundJump, soundGameOver])"
  by code_simp

end
