(* ===== verification/Asset_Files.thy ===== *)
theory Asset_Files
  imports Process_Start
begin

text \<open>
  The files of the client as text: \<open>config.json\<close> of an animation (\<open>client/view/assets/AnimationConfig.cpp\<close>),
  the root folder of the assets (\<open>AssetsRootConfig.cpp\<close>) and the kind of a sound file (\<open>isRealWav\<close> of
  \<open>client/audio/SoundPlayer.cpp\<close>). \<open>readFile\<close> gives the contents of a file, \<open>None\<close> if it cannot be opened. The
  lemmas: the search by positions in \<open>extractRawValue\<close> is a search in the rest of the text, and a
  configuration written in the layout of the repository's files is read back as it is.
\<close>

section \<open>Searching a text\<close>

text \<open>\<open>std::string::find\<close> for a character class from a position and for a word; \<open>None\<close> is \<open>npos\<close>.\<close>

fun findIndex :: "(char \<Rightarrow> bool) \<Rightarrow> string \<Rightarrow> nat option" where
  "findIndex P [] = None"
| "findIndex P (c # cs) = (if P c then Some 0 else map_option Suc (findIndex P cs))"

definition findFrom :: "(char \<Rightarrow> bool) \<Rightarrow> nat \<Rightarrow> string \<Rightarrow> nat option" where
  "findFrom P n s = map_option ((+) n) (findIndex P (drop n s))"

fun findWord :: "string \<Rightarrow> string \<Rightarrow> nat option" where
  "findWord w [] = (if w = [] then Some 0 else None)"
| "findWord w (c # cs) = (if take (length w) (c # cs) = w then Some 0 else map_option Suc (findWord w cs))"

abbreviation quote :: char where "quote \<equiv> CHR 0x22"

definition isBlank :: "char \<Rightarrow> bool" where
  "isBlank c \<longleftrightarrow> c \<in> {CHR '' '', CHR 0x09, CHR 0x0D, CHR 0x0A}"

definition endsValue :: "char \<Rightarrow> bool" where
  "endsValue c \<longleftrightarrow> c \<in> {CHR '','', CHR ''}'', CHR 0x0D, CHR 0x0A}"

definition stripEnd :: "string \<Rightarrow> string" where
  "stripEnd s = rev (dropWhile isSpace (rev s))"

text \<open>
  A missing colon gives \<open>npos\<close>, and \<open>npos + 1\<close> is 0, so that the value is searched from the start of the
  text; a missing value is an access outside the string.
\<close>

definition extractRawValue :: "string \<Rightarrow> string \<Rightarrow> asset_error + string" where
  "extractRawValue json key =
     (case findWord ([quote] @ key @ [quote]) json of
        None \<Rightarrow> Inl (MissingKey key)
      | Some keyPos \<Rightarrow>
          let colon = findFrom (\<lambda>c. c = CHR '':'') keyPos json;
              valueStart = findFrom (\<lambda>c. \<not> isBlank c) (case colon of None \<Rightarrow> 0 | Some i \<Rightarrow> i + 1) json
          in case valueStart of
               None \<Rightarrow> Inl OutsideText
             | Some st \<Rightarrow>
                 if json ! st = quote then
                   Inr (case findFrom (\<lambda>c. c = quote) (st + 1) json of
                          None \<Rightarrow> drop (st + 1) json | Some valueEnd \<Rightarrow> take (valueEnd - st - 1) (drop (st + 1) json))
                 else
                   Inr (stripEnd (case findFrom endsValue st json of
                          None \<Rightarrow> drop st json | Some valueEnd \<Rightarrow> take (valueEnd - st) (drop st json))))"

section \<open>Configurations\<close>

text \<open>
  \<open>std::stod\<close> on decimal notation: white space, a sign, digits with a point, an exponent; the value is
  exact. Hexadecimal numbers, infinities and rounding to a \<open>double\<close> are not modelled.
\<close>

abbreviation digit :: "char \<Rightarrow> bool" where "digit c \<equiv> CHR ''0'' \<le> c \<and> c \<le> CHR ''9''"

definition stod :: "string \<Rightarrow> string + rat" where
  "stod s =
     (let s1 = dropWhile isSpace s;
          (neg, s2) = (case s1 of c # cs \<Rightarrow> if c = CHR ''-'' then (True, cs) else if c = CHR ''+'' then (False, cs) else (False, s1) | [] \<Rightarrow> (False, s1));
          whole = takeWhile digit s2; s3 = dropWhile digit s2;
          (part, s4) = (case s3 of c # cs \<Rightarrow> if c = CHR ''.'' then (takeWhile digit cs, dropWhile digit cs) else ([], s3) | [] \<Rightarrow> ([], s3));
          e = (case s4 of
                 c # cs \<Rightarrow> if (c = CHR ''e'' \<or> c = CHR ''E'') \<and> cs \<noteq> [] \<and> \<not> isSpace (hd cs)
                            then (case strtol cs of None \<Rightarrow> 0 | Some i \<Rightarrow> i) else 0
               | [] \<Rightarrow> 0);
          m = of_nat (readNat (whole @ part)) / 10 ^ length part * (if e < 0 then 1 / 10 ^ nat (- e) else 10 ^ nat e)
      in if whole = [] \<and> part = [] then Inl ''invalid stod argument'' else Inr (if neg then - m else m))"

definition orBadNumber :: "string + 'a \<Rightarrow> asset_error + 'a" where
  "orBadNumber r = (case r of Inl m \<Rightarrow> Inl (BadNumber m) | Inr x \<Rightarrow> Inr x)"

definition loadAnimationConfig :: "(string \<Rightarrow> string option) \<Rightarrow> string \<Rightarrow> asset_error + animation_config" where
  "loadAnimationConfig readFile path =
     (case readFile path of
        None \<Rightarrow> Inl (CannotOpen path)
      | Some json \<Rightarrow>
          sbind (sbind (extractRawValue json ''speed_m_per_sec'') (\<lambda>t. orBadNumber (stod t))) (\<lambda>speed.
          sbind (sbind (extractRawValue json ''next_state_when_finished'') (\<lambda>t.
                   case stateFromString t of Inl _ \<Rightarrow> Inl (UnknownState t) | Inr s \<Rightarrow> Inr s)) (\<lambda>next.
          sbind (sbind (extractRawValue json ''frames_per_sec'') (\<lambda>t. orBadNumber (stdStoi t))) (\<lambda>fps.
          sbind (sbind (extractRawValue json ''frame_count'') (\<lambda>t. orBadNumber (stdStoi t))) (\<lambda>count.
          sbind (extractRawValue json ''is_loop'') (\<lambda>loop.
          Inr \<lparr>speed_m_per_sec = speed, next_state_when_finished = next, frames_per_sec = fps, frame_count = count,
               is_loop = (loop = ''true'')\<rparr>))))))"

text \<open>The first line of \<open>paths_config.txt\<close> without white space at its end.\<close>

definition readAssetsRoot :: "(string \<Rightarrow> string option) \<Rightarrow> asset_error + string" where
  "readAssetsRoot readFile =
     (case readFile ''client/view/paths_config.txt'' of
        None \<Rightarrow> Inl (CannotOpen ''client/view/paths_config.txt'')
      | Some t \<Rightarrow> Inr (stripEnd (takeWhile (\<lambda>c. c \<noteq> CHR 0x0A) t)))"

definition isRealWav :: "(string \<Rightarrow> string option) \<Rightarrow> string \<Rightarrow> bool" where
  "isRealWav readFile path = (case readFile path of None \<Rightarrow> False | Some bytes \<Rightarrow> 4 \<le> length bytes \<and> take 4 bytes = ''RIFF'')"

section \<open>The search in the rest of the text\<close>

lemma findIndex_None: "findIndex P s = None \<longleftrightarrow> (\<forall>c \<in> set s. \<not> P c)"
  by (induction s) auto

lemma findIndex_Some:
  assumes "findIndex P s = Some i"
  shows "i < length s \<and> P (s ! i) \<and> take i s = takeWhile (\<lambda>c. \<not> P c) s \<and> drop i s = dropWhile (\<lambda>c. \<not> P c) s"
  using assms by (induction s arbitrary: i) (auto split: if_splits)

fun fromWord :: "string \<Rightarrow> string \<Rightarrow> string option" where
  "fromWord w [] = (if w = [] then Some [] else None)"
| "fromWord w (c # cs) = (if take (length w) (c # cs) = w then Some (c # cs) else fromWord w cs)"

lemma fromWord_findWord: "fromWord w s = map_option (\<lambda>i. drop i s) (findWord w s)"
  by (induction s) (auto simp: option.map_comp comp_def)

definition rawAfter :: "string \<Rightarrow> asset_error + string" where
  "rawAfter t =
     (case dropWhile isBlank (tl (dropWhile (\<lambda>c. c \<noteq> CHR '':'') t)) of
        [] \<Rightarrow> Inl OutsideText
      | c # cs \<Rightarrow> if c = quote then Inr (takeWhile (\<lambda>c. c \<noteq> quote) cs)
                  else Inr (stripEnd (takeWhile (\<lambda>c. \<not> endsValue c) (c # cs))))"

lemma findFrom_take:
  "(case findFrom P n s of None \<Rightarrow> drop n s | Some e \<Rightarrow> take (e - n) (drop n s)) = takeWhile (\<lambda>c. \<not> P c) (drop n s)"
proof (cases "findIndex P (drop n s)")
  case None
  then have tw: "takeWhile (\<lambda>c. \<not> P c) (drop n s) = drop n s" by (simp add: findIndex_None takeWhile_eq_all_conv)
  show ?thesis unfolding findFrom_def None tw by simp
next
  case (Some i)
  then show ?thesis using findIndex_Some [OF Some] by (simp add: findFrom_def)
qed

lemma findFrom_drop:
  assumes "findFrom P n s = Some i"
  shows "i < length s" "P (s ! i)" "drop i s = dropWhile (\<lambda>c. \<not> P c) (drop n s)"
proof -
  obtain k where k: "findIndex P (drop n s) = Some k" "i = n + k" using assms by (auto simp: findFrom_def)
  have "k < length (drop n s)" "P (drop n s ! k)" "drop k (drop n s) = dropWhile (\<lambda>c. \<not> P c) (drop n s)"
    using findIndex_Some [OF k(1)] by blast+
  then show "i < length s" "P (s ! i)" "drop i s = dropWhile (\<lambda>c. \<not> P c) (drop n s)" by (simp_all add: k(2) add.commute)
qed

lemma findFrom_None: "findFrom P n s = None \<longleftrightarrow> dropWhile (\<lambda>c. \<not> P c) (drop n s) = []"
  by (simp add: findFrom_def findIndex_None)

text \<open>Where the key is followed by a colon, the positions are those of the text after the key.\<close>

lemma extractRawValue_after:
  assumes "fromWord ([quote] @ key @ [quote]) json = Some t" "CHR '':'' \<in> set t"
  shows "extractRawValue json key = rawAfter t"
proof -
  obtain k where k: "findWord ([quote] @ key @ [quote]) json = Some k" "t = drop k json"
    using assms(1) by (auto simp: fromWord_findWord)
  have "findFrom (\<lambda>c. c = CHR '':'') k json \<noteq> None" using assms(2) by (simp add: findFrom_None dropWhile_eq_Nil_conv k(2))
  then obtain i where i: "findFrom (\<lambda>c. c = CHR '':'') k json = Some i" by blast
  have "drop (i + 1) json = tl (drop i json)" by (simp add: drop_Suc drop_tl)
  then have r: "drop (i + 1) json = tl (dropWhile (\<lambda>c. c \<noteq> CHR '':'') t)" using findFrom_drop(3) [OF i] by (simp add: k(2))
  show ?thesis
  proof (cases "findFrom (\<lambda>c. \<not> isBlank c) (i + 1) json")
    case None
    then have e: "dropWhile isBlank (tl (dropWhile (\<lambda>c. c \<noteq> CHR '':'') t)) = []" unfolding findFrom_None r by simp
    show ?thesis unfolding rawAfter_def extractRawValue_def e using None k(1) i by simp
  next
    case (Some st)
    have v: "dropWhile isBlank (tl (dropWhile (\<lambda>c. c \<noteq> CHR '':'') t)) = json ! st # drop (st + 1) json"
      using findFrom_drop [OF Some] unfolding r by (simp add: Cons_nth_drop_Suc)
    have d: "drop st json = json ! st # drop (Suc st) json" using findFrom_drop(1) [OF Some] by (simp add: Cons_nth_drop_Suc)
    have q: "(case findFrom (\<lambda>c. c = quote) (st + 1) json of
        None \<Rightarrow> drop (st + 1) json | Some e \<Rightarrow> take (e - st - 1) (drop (st + 1) json)) = takeWhile (\<lambda>c. c \<noteq> quote) (drop (st + 1) json)"
      using findFrom_take [of "st + 1" json "\<lambda>c. c = quote"] unfolding diff_diff_left .
    show ?thesis
      unfolding extractRawValue_def rawAfter_def v k(1) Let_def i option.case Some q findFrom_take
      unfolding d by simp
  qed
qed

lemma extractRawValue_missing:
  "fromWord ([quote] @ key @ [quote]) json = None \<Longrightarrow> extractRawValue json key = Inl (MissingKey key)"
  by (simp add: extractRawValue_def fromWord_findWord)

section \<open>The layout of the repository's configurations\<close>

definition field :: "string \<Rightarrow> string \<Rightarrow> string" where
  "field key v = ''    '' @ [quote] @ key @ [quote] @ '': '' @ v"

definition configText :: "string \<Rightarrow> string \<Rightarrow> string \<Rightarrow> string \<Rightarrow> string \<Rightarrow> string" where
  "configText speed next fps cnt loop =
     ''{'' @ [newline] @ ''  '' @ [quote] @ ''physics'' @ [quote] @ '': {'' @ [newline] @
     field ''speed_m_per_sec'' speed @ '','' @ [newline] @
     field ''next_state_when_finished'' ([quote] @ next @ [quote]) @ [newline] @ ''  },'' @ [newline] @
     ''  '' @ [quote] @ ''graphics'' @ [quote] @ '': {'' @ [newline] @
     field ''frames_per_sec'' fps @ '','' @ [newline] @ field ''frame_count'' cnt @ '','' @ [newline] @
     field ''is_loop'' loop @ [newline] @ ''  }'' @ [newline] @ ''}''"

definition plainValue :: "string \<Rightarrow> bool" where
  "plainValue v \<longleftrightarrow> v \<noteq> [] \<and> list_all (\<lambda>c. \<not> isSpace c \<and> \<not> endsValue c \<and> c \<noteq> quote) v"

lemma fromWord_skip:
  assumes "quote \<notin> set xs"
  shows "fromWord (quote # w) (xs @ ys) = fromWord (quote # w) ys"
  using assms by (induction xs) auto

lemma stripEnd_plain: "plainValue v \<Longrightarrow> stripEnd v = v"
  by (cases v rule: rev_cases) (simp_all add: stripEnd_def plainValue_def list_all_iff)

lemma dropWhile_key: "CHR '':'' \<notin> set key \<Longrightarrow> dropWhile (\<lambda>c. c \<noteq> CHR '':'') (key @ ys) = dropWhile (\<lambda>c. c \<noteq> CHR '':'') ys"
  by (induction key) auto

lemma rawAfter_plain:
  assumes "plainValue v" "endsValue e" "CHR '':'' \<notin> set key"
  shows "rawAfter ([quote] @ key @ [quote] @ '': '' @ v @ e # rest) = Inr v"
proof -
  obtain c cs where v: "v = c # cs" using assms(1) by (cases v) (simp_all add: plainValue_def)
  have c: "\<not> isBlank c" "c \<noteq> quote" using assms(1) by (auto simp: v plainValue_def isBlank_def isSpace_def)
  have "dropWhile (\<lambda>c. c \<noteq> CHR '':'') ([quote] @ key @ [quote] @ '': '' @ v @ e # rest) = '': '' @ v @ e # rest"
    using assms(3) by (simp add: dropWhile_key)
  moreover have "takeWhile (\<lambda>c. \<not> endsValue c) (v @ e # rest) = v"
    using assms(1,2) by (auto simp: takeWhile_append2 plainValue_def list_all_iff)
  ultimately show ?thesis
    using c stripEnd_plain [OF assms(1)] by (simp add: rawAfter_def v isBlank_def)
qed

lemma rawAfter_quoted:
  assumes "quote \<notin> set v" "CHR '':'' \<notin> set key"
  shows "rawAfter ([quote] @ key @ [quote] @ '': '' @ [quote] @ v @ quote # rest) = Inr v"
proof -
  have "dropWhile (\<lambda>c. c \<noteq> CHR '':'') ([quote] @ key @ [quote] @ '': '' @ [quote] @ v @ quote # rest) = '': '' @ [quote] @ v @ quote # rest"
    using assms(2) by (simp add: dropWhile_key)
  moreover have "takeWhile (\<lambda>c. c \<noteq> quote) (v @ quote # rest) = v" using assms(1) by (induction v) auto
  ultimately show ?thesis by (simp add: rawAfter_def isBlank_def)
qed

lemma plain_value:
  assumes "\<exists>r. fromWord ([quote] @ key @ [quote]) json = Some ([quote] @ key @ [quote] @ '': '' @ v @ e # r)"
    and "plainValue v" "endsValue e" "CHR '':'' \<notin> set key"
  shows "extractRawValue json key = Inr v"
proof -
  obtain r where r: "fromWord ([quote] @ key @ [quote]) json = Some ([quote] @ key @ [quote] @ '': '' @ v @ e # r)" using assms(1) by blast
  show ?thesis using extractRawValue_after [OF r] rawAfter_plain [OF assms(2-4)] by simp
qed

lemma quoted_value:
  assumes "\<exists>r. fromWord ([quote] @ key @ [quote]) json = Some ([quote] @ key @ [quote] @ '': '' @ [quote] @ v @ quote # r)"
    and "quote \<notin> set v" "CHR '':'' \<notin> set key"
  shows "extractRawValue json key = Inr v"
proof -
  obtain r where r: "fromWord ([quote] @ key @ [quote]) json = Some ([quote] @ key @ [quote] @ '': '' @ [quote] @ v @ quote # r)"
    using assms(1) by blast
  show ?thesis using extractRawValue_after [OF r] rawAfter_quoted [OF assms(2,3)] by simp
qed

lemma configText_values:
  assumes "plainValue speed" "plainValue fps" "plainValue cnt" "plainValue loop" "stateToFolderName s = Inr next"
  shows "extractRawValue (configText speed next fps cnt loop) ''speed_m_per_sec'' = Inr speed"
    "extractRawValue (configText speed next fps cnt loop) ''next_state_when_finished'' = Inr next"
    "extractRawValue (configText speed next fps cnt loop) ''frames_per_sec'' = Inr fps"
    "extractRawValue (configText speed next fps cnt loop) ''frame_count'' = Inr cnt"
    "extractRawValue (configText speed next fps cnt loop) ''is_loop'' = Inr loop"
proof -
  have q: "quote \<notin> set speed" "quote \<notin> set fps" "quote \<notin> set cnt" "quote \<notin> set loop"
    using assms(1-4) by (auto simp: plainValue_def list_all_iff)
  let ?t = "configText speed next fps cnt loop"
  have nx: "next \<in> set [''idle'', ''move'', ''jump'', ''short_rest'', ''long_rest'']" using assms(5) by (cases s) auto
  note eval = configText_def field_def fromWord_skip [OF q(1)] fromWord_skip [OF q(2)] fromWord_skip [OF q(3)] fromWord_skip [OF q(4)]
  have w1: "\<exists>r. fromWord ([quote] @ ''speed_m_per_sec'' @ [quote]) ?t = Some ([quote] @ ''speed_m_per_sec'' @ [quote] @ '': '' @ speed @ CHR '','' # r)"
    by (simp add: eval)
  have w2: "\<exists>r. fromWord ([quote] @ ''next_state_when_finished'' @ [quote]) ?t =
      Some ([quote] @ ''next_state_when_finished'' @ [quote] @ '': '' @ [quote] @ next @ quote # r)"
    by (simp add: eval)
  have w3: "\<exists>r. fromWord ([quote] @ ''frames_per_sec'' @ [quote]) ?t = Some ([quote] @ ''frames_per_sec'' @ [quote] @ '': '' @ fps @ CHR '','' # r)"
    using nx by (auto simp: eval)
  have w4: "\<exists>r. fromWord ([quote] @ ''frame_count'' @ [quote]) ?t = Some ([quote] @ ''frame_count'' @ [quote] @ '': '' @ cnt @ CHR '','' # r)"
    using nx by (auto simp: eval)
  have w5: "\<exists>r. fromWord ([quote] @ ''is_loop'' @ [quote]) ?t = Some ([quote] @ ''is_loop'' @ [quote] @ '': '' @ loop @ newline # r)"
    using nx by (auto simp: eval)
  have e: "endsValue CHR '',''" "endsValue newline" by (simp_all add: endsValue_def)
  show "extractRawValue ?t ''speed_m_per_sec'' = Inr speed" by (rule plain_value [OF w1 assms(1) e(1)]) simp
  show "extractRawValue ?t ''next_state_when_finished'' = Inr next" using nx by (intro quoted_value [OF w2]) auto
  show "extractRawValue ?t ''frames_per_sec'' = Inr fps" by (rule plain_value [OF w3 assms(2) e(1)]) simp
  show "extractRawValue ?t ''frame_count'' = Inr cnt" by (rule plain_value [OF w4 assms(3) e(1)]) simp
  show "extractRawValue ?t ''is_loop'' = Inr loop" by (rule plain_value [OF w5 assms(4) e(2)]) simp
qed

lemma digits_showNat: "list_all digit (showNat n)" "showNat n \<noteq> []"
  using isDigits_showNat [of n] by (simp_all add: isDigits_def)

lemma digit_plain: "digit c \<Longrightarrow> \<not> isSpace c \<and> \<not> endsValue c \<and> c \<noteq> quote \<and> c \<noteq> CHR ''-'' \<and> c \<noteq> CHR ''+''"
  by (auto simp: isSpace_def endsValue_def less_eq_char_def)

lemma plain_showInt: "plainValue (showInt i)"
proof -
  have n: "list_all (\<lambda>c. \<not> isSpace c \<and> \<not> endsValue c \<and> c \<noteq> quote) (showNat n)" for n
    using digits_showNat(1) [of n] digit_plain by (auto simp: list_all_iff)
  show ?thesis using n digits_showNat(2) by (simp add: plainValue_def showInt_def isSpace_def endsValue_def)
qed

lemma strtol_showInt: "strtol (showInt i) = Some i"
proof -
  have n: "takeWhile digit (showNat n) = showNat n" for n
    using digits_showNat(1) [of n] by (simp add: takeWhile_eq_all_conv list_all_iff)
  show ?thesis
  proof (cases "i < 0")
    case True
    then show ?thesis using digits_showNat(2) [of "nat (- i)"]
      by (simp add: strtol_def showInt_def isSpace_def Let_def n)
  next
    case False
    obtain c cs where c: "showNat (nat i) = c # cs" using digits_showNat(2) by (cases "showNat (nat i)") auto
    have "digit c" using digits_showNat(1) [of "nat i"] by (simp add: c)
    then have "\<not> isSpace c" "c \<noteq> CHR ''-''" "c \<noteq> CHR ''+''" using digit_plain [of c] by simp_all
    then show ?thesis using False n [of "nat i"] readNat_showNat [of "nat i"] by (simp add: strtol_def showInt_def Let_def c)
  qed
qed

text \<open>A configuration in this layout is read back as it was written.\<close>

lemma load_configText:
  assumes "readFile path = Some (configText speed next (showInt fps) (showInt cnt) (if loop then ''true'' else ''false''))"
    and "plainValue speed" "stod speed = Inr v" "stateToFolderName s = Inr next" "fits_int fps" "fits_int cnt"
  shows "loadAnimationConfig readFile path =
    Inr \<lparr>speed_m_per_sec = v, next_state_when_finished = s, frames_per_sec = fps, frame_count = cnt, is_loop = loop\<rparr>"
proof -
  let ?loop = "if loop then ''true'' else ''false''"
  have "plainValue ?loop" by (simp add: plainValue_def isSpace_def endsValue_def)
  note vals = configText_values [OF assms(2) plain_showInt [of fps] plain_showInt [of cnt] this assms(4)]
  have "stateFromString next = Inr s" using assms(4) by (cases s) (auto simp: stateFromString_def)
  moreover have "stdStoi (showInt fps) = Inr fps" "stdStoi (showInt cnt) = Inr cnt"
    using assms(5,6) by (simp_all add: stdStoi_def strtol_showInt)
  ultimately show ?thesis unfolding loadAnimationConfig_def assms(1) option.case vals sbind_simps assms(3) orBadNumber_def by simp
qed

text \<open>The five configurations of the repository, the same for every piece.\<close>

fun shippedText :: "state \<Rightarrow> string" where
  "shippedText Idle = configText ''0'' ''idle'' (showInt 4) (showInt 5) ''true''"
| "shippedText Moving = configText ''1.5'' ''long_rest'' (showInt 8) (showInt 5) ''true''"
| "shippedText Jump = configText ''0'' ''short_rest'' (showInt 10) (showInt 5) ''false''"
| "shippedText ShortRest = configText ''0'' ''long_rest'' (showInt 6) (showInt 5) ''false''"
| "shippedText LongRest = configText ''0'' ''idle'' (showInt 2) (showInt 5) ''false''"
| "shippedText Captured = []"

fun shippedConfig :: "state \<Rightarrow> animation_config" where
  "shippedConfig Idle = \<lparr>speed_m_per_sec = 0, next_state_when_finished = Idle, frames_per_sec = 4, frame_count = 5, is_loop = True\<rparr>"
| "shippedConfig Moving = \<lparr>speed_m_per_sec = 3/2, next_state_when_finished = LongRest, frames_per_sec = 8, frame_count = 5, is_loop = True\<rparr>"
| "shippedConfig Jump = \<lparr>speed_m_per_sec = 0, next_state_when_finished = ShortRest, frames_per_sec = 10, frame_count = 5, is_loop = False\<rparr>"
| "shippedConfig ShortRest = \<lparr>speed_m_per_sec = 0, next_state_when_finished = LongRest, frames_per_sec = 6, frame_count = 5, is_loop = False\<rparr>"
| "shippedConfig LongRest = \<lparr>speed_m_per_sec = 0, next_state_when_finished = Idle, frames_per_sec = 2, frame_count = 5, is_loop = False\<rparr>"
| "shippedConfig Captured = \<lparr>speed_m_per_sec = 0, next_state_when_finished = Captured, frames_per_sec = 0, frame_count = 0, is_loop = False\<rparr>"

lemma stod_shipped: "stod ''0'' = Inr 0" "stod ''1.5'' = Inr (3/2)" "plainValue ''0''" "plainValue ''1.5''"
  by (simp_all add: stod_def plainValue_def isSpace_def endsValue_def readNat_def digitValue_def less_eq_char_def Let_def)

lemma fits_small: "0 \<le> i \<Longrightarrow> i \<le> 10 \<Longrightarrow> fits_int i"
  by (simp add: fits_int_def INT_MAX_def INT_MIN_def)

lemma load_shipped:
  assumes "readFile path = Some (shippedText s)" "s \<noteq> Captured"
  shows "loadAnimationConfig readFile path = Inr (shippedConfig s)"
  using assms
    load_configText [of readFile path "''0''" "''idle''" 4 5 True 0 Idle]
    load_configText [of readFile path "''1.5''" "''long_rest''" 8 5 True "3/2" LongRest]
    load_configText [of readFile path "''0''" "''short_rest''" 10 5 False 0 ShortRest]
    load_configText [of readFile path "''0''" "''long_rest''" 6 5 False 0 LongRest]
    load_configText [of readFile path "''0''" "''idle''" 2 5 False 0 Idle]
  by (cases s) (simp_all add: stod_shipped fits_small)

text \<open>
  The configuration of the short rest names the long rest as the next state; the state machine goes on to
  the idle state. The others agree with it, where the animation ends.
\<close>

lemma shipped_next_state:
  "isLegalTransition s (next_state_when_finished (shippedConfig s)) \<longleftrightarrow> s = Moving \<or> s = Jump \<or> s = LongRest \<or> s = Captured"
  by (cases s) (simp_all add: isLegalTransition_def kLegalTransitions_def)

lemma shipped_files_ok:
  assumes "imread (dir @ ''/board.png'') \<noteq> None" "imread (dir @ ''/canvas.png'') \<noteq> None"
    and "\<And>k c s d. stateDir dir k c s = Inr d \<Longrightarrow> readFile (d @ ''/config.json'') = Some (shippedText s)"
    and "\<And>k c s d i. stateDir dir k c s = Inr d \<Longrightarrow> i \<in> {1..5} \<Longrightarrow> imread (d @ ''/sprites/'' @ showInt i @ ''.png'') \<noteq> None"
  shows "files_ok dir imread (loadAnimationConfig readFile)"
proof -
  have "\<exists>config. loadAnimationConfig readFile (d @ ''/config.json'') = Inr config \<and> 0 < frame_count config \<and>
      (\<forall>i \<in> {1..frame_count config}. imread (d @ ''/sprites/'' @ showInt i @ ''.png'') \<noteq> None)" if d: "stateDir dir k c s = Inr d" for k c s d
  proof -
    have s: "s \<noteq> Captured" using d by (auto simp: stateDir_def sbind_Inr_iff)
    then have "frame_count (shippedConfig s) = 5" by (cases s) simp_all
    then show ?thesis
      using load_shipped [of readFile "d @ ''/config.json''" s] s assms(3) [OF d] assms(4) [OF d]
      by (intro exI [of _ "shippedConfig s"] conjI ballI) simp_all
  qed
  then show ?thesis using assms(1,2) unfolding files_ok_def by blast
qed

end
