(* ===== verification/Ws_Client.thy ===== *)
theory Ws_Client
  imports Asset_Files "HOL-Library.Sublist"
begin

text \<open>
  The connection of the client (\<open>client/net/WsClient.cpp\<close>) and \<open>GraphicalApplication::connect\<close>, which opens one
  and waits until it is open. What the network does is an event: the connection opens, fails or closes, a
  text arrives, or the network thread runs the next posted send. \<open>'s\<close> is the state the handlers change. The
  lemmas: texts reach the wire in the order they were sent and none is lost while the connection is up,
  every text that arrives reaches the handler, and opening returns exactly if the connection opens.
\<close>

section \<open>The connection\<close>

record 's ws_client =
  ws_connected :: bool
  ws_onMessage :: "(string \<Rightarrow> 's \<Rightarrow> 's) option"
  ws_onOpen :: "('s \<Rightarrow> 's) option"
  ws_posted :: "string list"
  ws_wire :: "string list"

definition newWsClient :: "'s ws_client" where
  "newWsClient = \<lparr>ws_connected = False, ws_onMessage = None, ws_onOpen = None, ws_posted = [], ws_wire = []\<rparr>"

definition setOnMessage :: "(string \<Rightarrow> 's \<Rightarrow> 's) \<Rightarrow> 's ws_client \<Rightarrow> 's ws_client" where
  "setOnMessage handler c = c\<lparr>ws_onMessage := Some handler\<rparr>"

definition setOnOpen :: "('s \<Rightarrow> 's) \<Rightarrow> 's ws_client \<Rightarrow> 's ws_client" where
  "setOnOpen handler c = c\<lparr>ws_onOpen := Some handler\<rparr>"

text \<open>The address and the headers of the request; \<open>None\<close> if the library refuses the address.\<close>

definition wsRequest :: "bool \<Rightarrow> string \<Rightarrow> int \<Rightarrow> string \<Rightarrow> (string \<times> (string \<times> string) list) option" where
  "wsRequest ec host port shardHint =
     (if ec then None
      else Some (''ws://'' @ host @ '':'' @ showInt port, if shardHint = [] then [] else [(''X-Shard-Hint'', shardHint)]))"

definition wsSend :: "string \<Rightarrow> 's ws_client \<Rightarrow> 's ws_client" where
  "wsSend text c = c\<lparr>ws_posted := ws_posted c @ [text]\<rparr>"

text \<open>\<open>WsTask ec\<close>: the network thread runs the first posted send; \<open>ec\<close> says that the library reports an error.\<close>

datatype ws_event = WsOpen | WsText string | WsFail | WsClosed | WsTask bool

definition sendPosted :: "bool \<Rightarrow> 's ws_client \<Rightarrow> 's ws_client" where
  "sendPosted ec c =
     (case ws_posted c of
        [] \<Rightarrow> c
      | text # rest \<Rightarrow> c\<lparr>ws_posted := rest, ws_wire := (if ws_connected c \<and> \<not> ec then ws_wire c @ [text] else ws_wire c)\<rparr>)"

fun ws_step :: "ws_event \<Rightarrow> 's ws_client \<times> 's \<Rightarrow> 's ws_client \<times> 's" where
  "ws_step WsOpen (c, s) = (c\<lparr>ws_connected := True\<rparr>, case ws_onOpen c of None \<Rightarrow> s | Some handler \<Rightarrow> handler s)"
| "ws_step (WsText t) (c, s) = (c, case ws_onMessage c of None \<Rightarrow> s | Some handler \<Rightarrow> handler t s)"
| "ws_step WsFail (c, s) = (c, s)"
| "ws_step WsClosed (c, s) = (c\<lparr>ws_connected := False\<rparr>, s)"
| "ws_step (WsTask ec) (c, s) = (sendPosted ec c, s)"

text \<open>
  \<open>GraphicalApplication::connect\<close>: the connection once it has opened, \<open>None\<close> while the call still waits. The
  state is the flag the open handler sets.
\<close>

fun awaitOpen :: "ws_event list \<Rightarrow> bool ws_client \<times> bool \<Rightarrow> bool ws_client option" where
  "awaitOpen [] (c, isOpen) = (if isOpen then Some c else None)"
| "awaitOpen (ev # evs) (c, isOpen) = (if isOpen then Some c else awaitOpen evs (ws_step ev (c, isOpen)))"

definition connect :: "bool \<Rightarrow> string \<Rightarrow> int \<Rightarrow> string \<Rightarrow> ws_event list \<Rightarrow> bool ws_client option" where
  "connect ec host port shardHint evs =
     (case wsRequest ec host port shardHint of
        None \<Rightarrow> None
      | Some _ \<Rightarrow> awaitOpen evs (setOnOpen (\<lambda>_. True) newWsClient, False))"

section \<open>Opening\<close>

lemma awaitOpen_ok:
  assumes "ws_onOpen c = Some (\<lambda>_. True)" "ws_onMessage c = None"
  shows "(awaitOpen evs (c, False) = None \<longleftrightarrow> WsOpen \<notin> set evs) \<and> (\<forall>c'. awaitOpen evs (c, False) = Some c' \<longrightarrow> ws_connected c')"
  using assms
proof (induction evs arbitrary: c)
  case (Cons ev evs)
  have opens: "awaitOpen evs (d, True) = Some d" for d by (cases evs) simp_all
  have keep: "ws_onOpen (sendPosted ec c) = ws_onOpen c" "ws_onMessage (sendPosted ec c) = ws_onMessage c" for ec
    by (simp_all add: sendPosted_def split: list.split)
  have task: "(awaitOpen evs (sendPosted ec c, False) = None \<longleftrightarrow> WsOpen \<notin> set evs) \<and>
      (\<forall>c'. awaitOpen evs (sendPosted ec c, False) = Some c' \<longrightarrow> ws_connected c')" for ec
    by (rule Cons.IH) (simp_all add: keep Cons.prems)
  show ?case
    using task Cons.IH [of c] Cons.IH [of "c\<lparr>ws_connected := False\<rparr>"] Cons.prems opens by (cases ev) simp_all
qed simp

text \<open>A connection that fails is only logged: the call returns exactly if the connection opens at some time.\<close>

lemma connect_returns:
  "connect ec host port hint evs \<noteq> None \<longleftrightarrow> \<not> ec \<and> WsOpen \<in> set evs"
  "connect ec host port hint evs = Some c \<Longrightarrow> ws_connected c"
  using awaitOpen_ok [of "setOnOpen (\<lambda>_. True) newWsClient" evs]
  by (auto simp: connect_def wsRequest_def setOnOpen_def newWsClient_def split: option.splits if_splits)

section \<open>Sending and receiving\<close>

datatype ws_action = Send string | Net ws_event

fun ws_act :: "ws_action \<Rightarrow> 's ws_client \<times> 's \<Rightarrow> 's ws_client \<times> 's" where
  "ws_act (Send t) (c, s) = (wsSend t c, s)"
| "ws_act (Net ev) cs = ws_step ev cs"

definition sends :: "ws_action list \<Rightarrow> string list" where
  "sends acts = concat (map (\<lambda>a. case a of Send t \<Rightarrow> [t] | Net _ \<Rightarrow> []) acts)"

definition arrivals :: "ws_action list \<Rightarrow> string list" where
  "arrivals acts = concat (map (\<lambda>a. case a of Net (WsText t) \<Rightarrow> [t] | _ \<Rightarrow> []) acts)"

lemma sends_simps [simp]:
  "sends [] = []" "sends (Send t # acts) = t # sends acts" "sends (Net ev # acts) = sends acts"
  by (simp_all add: sends_def)

lemma arrivals_simps [simp]:
  "arrivals [] = []" "arrivals (Send t # acts) = arrivals acts"
  "arrivals (Net ev # acts) = (case ev of WsText t \<Rightarrow> [t] | _ \<Rightarrow> []) @ arrivals acts"
  by (simp_all add: arrivals_def split: ws_event.split)

text \<open>The texts on the wire and those still posted, taken from what was there and what was sent since.\<close>

lemma act_order:
  "subseq (ws_wire (fst (ws_act a cs)) @ ws_posted (fst (ws_act a cs)) @ ts)
     (ws_wire (fst cs) @ ws_posted (fst cs) @ (case a of Send t \<Rightarrow> [t] | Net _ \<Rightarrow> []) @ ts)"
proof (cases cs)
  case (Pair c s)
  show ?thesis
  proof (cases a)
    case (Net ev)
    show ?thesis
      by (cases ev) (auto simp: Pair Net sendPosted_def split: list.split intro!: list_emb_append_mono)
  qed (simp add: Pair wsSend_def)
qed

lemma sent_in_order:
  "subseq (ws_wire (fst (fold ws_act acts cs)) @ ws_posted (fst (fold ws_act acts cs))) (ws_wire (fst cs) @ ws_posted (fst cs) @ sends acts)"
proof (induction acts arbitrary: cs)
  case (Cons a acts)
  have "sends (a # acts) = (case a of Send t \<Rightarrow> [t] | Net _ \<Rightarrow> []) @ sends acts" by (cases a) simp_all
  then show ?case using subseq_order.trans [OF Cons.IH [of "ws_act a cs"] act_order [of a cs "sends acts"]] by simp
qed simp

text \<open>While the connection is up and the library reports no error, nothing is lost.\<close>

fun smooth :: "ws_action \<Rightarrow> bool" where
  "smooth (Net WsClosed) = False"
| "smooth (Net (WsTask ec)) = (\<not> ec)"
| "smooth _ = True"

lemma nothing_lost:
  assumes "ws_connected (fst cs)" "list_all smooth acts"
  shows "ws_wire (fst (fold ws_act acts cs)) @ ws_posted (fst (fold ws_act acts cs)) = ws_wire (fst cs) @ ws_posted (fst cs) @ sends acts"
  using assms
proof (induction acts arbitrary: cs)
  case (Cons a acts)
  obtain c s where cs: "cs = (c, s)" by (cases cs)
  have "ws_connected (fst (ws_act a cs)) \<and> ws_wire (fst (ws_act a cs)) @ ws_posted (fst (ws_act a cs)) =
      ws_wire c @ ws_posted c @ (case a of Send t \<Rightarrow> [t] | Net _ \<Rightarrow> [])"
    using Cons.prems by (cases a rule: smooth.cases) (auto simp: cs wsSend_def sendPosted_def split: list.split)
  moreover have "sends (a # acts) = (case a of Send t \<Rightarrow> [t] | Net _ \<Rightarrow> []) @ sends acts" by (cases a) simp_all
  ultimately show ?case using Cons.IH [of "ws_act a cs"] Cons.prems(2) by (simp add: cs)
qed simp

text \<open>A text sent before the connection is open is dropped without an error.\<close>

lemma unconnected_send_dropped:
  "ws_wire (fst (fold ws_act [Send t, Net (WsTask False), Net WsOpen] (newWsClient, s))) = []"
  by (simp add: wsSend_def sendPosted_def newWsClient_def)

text \<open>Every text that arrives is handled, in its order.\<close>

lemma arrivals_handled:
  assumes "ws_onMessage c = Some handler" "ws_onOpen c = None"
  shows "snd (fold ws_act acts (c, s)) = fold handler (arrivals acts) s"
  using assms
proof (induction acts arbitrary: c s)
  case (Cons a acts)
  have keep: "ws_onMessage (sendPosted ec c) = ws_onMessage c" "ws_onOpen (sendPosted ec c) = ws_onOpen c" for ec
    by (simp_all add: sendPosted_def split: list.split)
  show ?case
  proof (cases a)
    case (Net ev)
    then show ?thesis using Cons.IH Cons.prems by (cases ev) (simp_all add: keep)
  qed (use Cons.IH Cons.prems in \<open>simp add: wsSend_def\<close>)
qed simp

end
