(* ===== verification/Cluster.thy ===== *)
theory Cluster
  imports Gateway_Laws Matchmaking_Laws
begin

text \<open>
  The processes behind the Play button together: an API gateway, a matchmaker, an allocator and the shards,
  which talk over NATS and share one Redis. The processes are those of the theories \<open>Gateway\<close>,
  \<open>Matchmaking\<close> and \<open>Handlers\<close>; this theory adds what connects them, the subscriptions that the \<open>main\<close>
  functions and constructors make. A published message waits on the bus until it is delivered or lost, in any
  order; the allocator's request to a shard may be carried out and its reply lost. \<open>cu_plays\<close> is a history
  of the accepted play requests (ticket, connection, user), \<open>cu_matches\<close> one of the pairs that were found in
  the pool: the ticket that waited there and the ticket of the request that found it. The invariant: a match
  is only ever announced for such a pair and for a room that the announced shard has, with White reserved for
  the player who waited and Black for the other.
\<close>

section \<open>The processes and the bus\<close>

record 'r cluster =
  cu_gateway :: api_gateway
  cu_matchmaker :: "'r matchmaker"
  cu_allocator :: allocator
  cu_shards :: "(string \<times> server) list"
  cu_bus :: "(string \<times> json) list"
  cu_answers :: "(conn \<times> json) list"
  cu_plays :: "(string \<times> conn \<times> string) list"
  cu_matches :: "(string \<times> string) list"

definition gatewayOut :: "api_effect list \<Rightarrow> 'r cluster \<Rightarrow> 'r cluster" where
  "gatewayOut out cu = cu\<lparr>
     cu_bus := cu_bus cu @ concat (map (\<lambda>ef. case ef of PublishNats s j \<Rightarrow> [(s, canon j)] | _ \<Rightarrow> []) out),
     cu_answers := cu_answers cu @ concat (map (\<lambda>ef. case ef of Respond con code j \<Rightarrow> [(con, j)] | _ \<Rightarrow> []) out)\<rparr>"

definition natsOut :: "action list \<Rightarrow> 'r cluster \<Rightarrow> 'r cluster" where
  "natsOut out cu = cu\<lparr>cu_bus := cu_bus cu @ concat (map (\<lambda>a. case a of NatsPublish s j \<Rightarrow> [(s, canon j)] | _ \<Rightarrow> []) out)\<rparr>"

text \<open>The body of a \<open>POST /play\<close> of the client is its token.\<close>

definition pressPlay :: "api_environment \<Rightarrow> conn \<Rightarrow> string \<Rightarrow> 64 word \<times> 64 word \<Rightarrow> 'r cluster \<Rightarrow> 'r cluster" where
  "pressPlay env con token rnd cu =
     (let env1 = env\<lparr>ae_random := rnd\<rparr>;
          ((out, ag), ex) = postPlay env1 con (JObj [(''token'', JStr token)]) (cu_gateway cu)
      in gatewayOut out (cu\<lparr>cu_gateway := ag, cu_plays := cu_plays cu @
           (case ae_session env token of None \<Rightarrow> [] | Some s \<Rightarrow> [(newToken env1, con, csd_username s)])\<rparr>))"

text \<open>
  A request on the bus reaches the shard that has subscribed to the subject; the client library answers an
  exception with its text.
\<close>

definition allocateOn :: "(json_error \<Rightarrow> string) \<Rightarrow> string \<Rightarrow> json \<Rightarrow> (string \<times> server) list \<Rightarrow> json option \<times> (string \<times> server) list" where
  "allocateOn what subject request shards =
     (case List.find (\<lambda>(a, sv). allocateSubject a = subject) shards of
        None \<Rightarrow> (None, shards)
      | Some (a, sv) \<Rightarrow>
          (case doAllocate (canon request) sv of
             Inl ex \<Rightarrow> (Some (canon (failure (what ex))), shards)
           | Inr (reply, acts, sv') \<Rightarrow> (Some (canon reply), AList.update a sv' shards)))"

text \<open>The request that \<open>onMatched\<close> sends, if it sends one (lemma \<open>onMatched_call\<close>).\<close>

definition matchedCall :: "'r redis \<Rightarrow> (nat \<Rightarrow> nat list) \<Rightarrow> json \<Rightarrow> allocator \<Rightarrow> 'r \<Rightarrow> (string \<times> json) option" where
  "matchedCall R ord event al r =
     (let shard = pickLeastLoadedShard ord al
      in if shard = [] then None
         else case (jstring ''usernameA'' event, jstring ''usernameB'' event) of
                (Inr white, Inr black) \<Rightarrow>
                  Some (allocateSubject shard, allocateRequest (''match-'' @ showInt (fst (incr R ''matchmaking:nextRoomId'' r))) white black)
              | _ \<Rightarrow> None)"

definition deliverMatched :: "'r redis \<Rightarrow> (json_error \<Rightarrow> string) \<Rightarrow> (nat \<Rightarrow> nat list) \<Rightarrow> bool \<Rightarrow> json \<Rightarrow> 'r cluster \<Rightarrow> 'r cluster" where
  "deliverMatched R what ord lost j cu =
     (let r = mm_redis (cu_matchmaker cu);
          rpc = (\<lambda>s q. if lost then None else fst (allocateOn what s q (cu_shards cu)));
          shards = (case matchedCall R ord j (cu_allocator cu) r of
                      None \<Rightarrow> cu_shards cu | Some (s, q) \<Rightarrow> snd (allocateOn what s q (cu_shards cu)));
          ((out, al, r1), ex) = onMatched R rpc ord j (cu_allocator cu, r)
      in natsOut out (cu\<lparr>cu_allocator := al, cu_shards := shards, cu_matchmaker := (cu_matchmaker cu)\<lparr>mm_redis := r1\<rparr>\<rparr>))"

text \<open>Who has subscribed to what.\<close>

definition deliver :: "'r redis \<Rightarrow> (json_error \<Rightarrow> string) \<Rightarrow> (nat \<Rightarrow> nat list) \<Rightarrow> bool \<Rightarrow> string \<times> json \<Rightarrow> 'r cluster \<Rightarrow> 'r cluster" where
  "deliver R what ord lost = (\<lambda>(subject, j) cu.
     if subject = ''matchmaking.request'' then
       let ((out, mm), ex) = onMatchRequest R j (cu_matchmaker cu)
       in natsOut out (cu\<lparr>cu_matches := cu_matches cu @ pairedBy R j (mm_redis (cu_matchmaker cu)), cu_matchmaker := mm\<rparr>)
     else if subject = ''matchmaking.matched'' then deliverMatched R what ord lost j cu
     else if subject = ''matchmaking.assigned'' then
       let mm = (case onPairAssigned j (cu_matchmaker cu) of Inl ex \<Rightarrow> cu_matchmaker cu | Inr m \<Rightarrow> m);
           ((out, ag), ex) = playAssigned j (cu_gateway cu)
       in gatewayOut out (cu\<lparr>cu_matchmaker := mm, cu_gateway := ag\<rparr>)
     else if subject = ''matchmaking.timeout'' then
       let ((out, ag), ex) = playTimeout j (cu_gateway cu) in gatewayOut out (cu\<lparr>cu_gateway := ag\<rparr>)
     else if subject = ''shard.heartbeat'' then
       cu\<lparr>cu_allocator := (case onHeartbeat j (cu_allocator cu) of Inl ex \<Rightarrow> cu_allocator cu | Inr al \<Rightarrow> al)\<rparr>
     else cu)"

datatype cluster_event =
    PressPlay conn string "64 word \<times> 64 word"
  | DeliverNats nat bool
  | LoseNats nat
  | SearchOver string
  | AssignmentOver string string
  | Beat nat int
  | Enter nat conn string string

definition dropAt :: "nat \<Rightarrow> 'a list \<Rightarrow> 'a list" where
  "dropAt i xs = take i xs @ drop (Suc i) xs"

fun cluster_step :: "'r redis \<Rightarrow> (json_error \<Rightarrow> string) \<Rightarrow> (nat \<Rightarrow> nat list) \<Rightarrow> api_environment \<Rightarrow> cluster_event \<Rightarrow> 'r cluster \<Rightarrow> 'r cluster" where
  "cluster_step R what ord env (PressPlay con token rnd) cu = pressPlay env con token rnd cu"
| "cluster_step R what ord env (DeliverNats i lost) cu =
     (if i < length (cu_bus cu) then deliver R what ord lost (cu_bus cu ! i) (cu\<lparr>cu_bus := dropAt i (cu_bus cu)\<rparr>) else cu)"
| "cluster_step R what ord env (LoseNats i) cu = cu\<lparr>cu_bus := dropAt i (cu_bus cu)\<rparr>"
| "cluster_step R what ord env (SearchOver t) cu =
     (let (out, mm) = onSearchTimeout R t (cu_matchmaker cu) in natsOut out (cu\<lparr>cu_matchmaker := mm\<rparr>))"
| "cluster_step R what ord env (AssignmentOver a b) cu =
     (let (out, mm) = onAssignmentTimeout a b (cu_matchmaker cu) in natsOut out (cu\<lparr>cu_matchmaker := mm\<rparr>))"
| "cluster_step R what ord env (Beat i n) cu =
     (if i < length (cu_shards cu)
      then natsOut [NatsPublish ''shard.heartbeat'' (JObj [(''shard'', JStr (fst (cu_shards cu ! i))), (''roomCount'', JInt n)])] cu else cu)"
| "cluster_step R what ord env (Enter i h name u) cu =
     (if i < length (cu_shards cu)
      then cu\<lparr>cu_shards := (cu_shards cu)[i := (fst (cu_shards cu ! i),
             (snd (cu_shards cu ! i))\<lparr>sv_registry := snd (joinRoom name h u (sv_registry (snd (cu_shards cu ! i))))\<rparr>)]\<rparr> else cu)"

section \<open>What is on the way\<close>

definition seated :: "(string \<times> server) list \<Rightarrow> string \<Rightarrow> string \<Rightarrow> string \<Rightarrow> string \<Rightarrow> bool" where
  "seated shards a name white black \<longleftrightarrow> (\<exists>sv. map_of shards a = Some sv \<and> roomExists name (sv_registry sv) \<and>
     (white \<noteq> [] \<and> black \<noteq> [] \<and> white \<noteq> black \<longrightarrow> holds_seats name white black (sv_registry sv)))"

definition playRequest :: "string \<Rightarrow> string \<Rightarrow> int \<Rightarrow> json" where
  "playRequest t u e = JObj [(''ticketId'', JStr t), (''username'', JStr u), (''elo'', JInt e)]"

definition matchFound :: "string \<Rightarrow> string \<Rightarrow> json" where
  "matchFound name shard = JObj [(''success'', JBool True), (''message'', JStr ''match found''), (''roomName'', JStr name), (''shard'', JStr shard)]"

abbreviation issued :: "(string \<times> conn \<times> string) list \<Rightarrow> string \<Rightarrow> string \<Rightarrow> bool" where
  "issued plays t u \<equiv> \<exists>con. (t, con, u) \<in> set plays"

definition request_ok :: "(string \<times> conn \<times> string) list \<Rightarrow> json \<Rightarrow> bool" where
  "request_ok plays j \<longleftrightarrow> (\<exists>t u e. issued plays t u \<and> j = canon (playRequest t u e))"

text \<open>The name of the player who waited has been through the pool, which cuts it at a null character.\<close>

definition pair_ok :: "(string \<times> conn \<times> string) list \<Rightarrow> (string \<times> string) list \<Rightarrow> json \<Rightarrow> bool" where
  "pair_ok plays ms j \<longleftrightarrow> (\<exists>c w t u e. j = canon (matchedEvent c t u e) \<and> (mc_ticketId c, t) \<in> set ms \<and>
     issued plays (mc_ticketId c) w \<and> mc_username c = c_str w \<and> issued plays t u)"

definition assigned_ok :: "(string \<times> conn \<times> string) list \<Rightarrow> (string \<times> string) list \<Rightarrow> (string \<times> server) list \<Rightarrow> json \<Rightarrow> bool" where
  "assigned_ok plays ms shards j \<longleftrightarrow> (\<exists>ta tb white black name a. jstring ''ticketA'' j = Inr ta \<and> jstring ''ticketB'' j = Inr tb \<and>
     jat ''roomName'' j = Inr (JStr name) \<and> jat ''shard'' j = Inr (JStr a) \<and>
     (ta, tb) \<in> set ms \<and> issued plays ta white \<and> issued plays tb black \<and> seated shards a name (c_str white) black)"

definition beat_ok :: "(string \<times> server) list \<Rightarrow> json \<Rightarrow> bool" where
  "beat_ok shards j \<longleftrightarrow> (\<exists>a \<in> fst ` set shards. jstring ''shard'' j = Inr a)"

definition message_ok :: "(string \<times> conn \<times> string) list \<Rightarrow> (string \<times> string) list \<Rightarrow> (string \<times> server) list \<Rightarrow> string \<times> json \<Rightarrow> bool" where
  "message_ok plays ms shards = (\<lambda>(s, j).
     (s = ''matchmaking.request'' \<longrightarrow> request_ok plays j) \<and> (s = ''matchmaking.matched'' \<longrightarrow> pair_ok plays ms j) \<and>
     (s = ''matchmaking.assigned'' \<longrightarrow> assigned_ok plays ms shards j) \<and> (s = ''shard.heartbeat'' \<longrightarrow> beat_ok shards j))"

definition answer_ok :: "(string \<times> conn \<times> string) list \<Rightarrow> (string \<times> string) list \<Rightarrow> (string \<times> server) list \<Rightarrow> conn \<times> json \<Rightarrow> bool" where
  "answer_ok plays ms shards = (\<lambda>(con, j). (\<exists>m. j = failure m) \<or>
     (\<exists>name a ta ca white tb cb black. j = matchFound name a \<and> (ta, ca, white) \<in> set plays \<and> (tb, cb, black) \<in> set plays \<and>
        (ta, tb) \<in> set ms \<and> con \<in> {ca, cb} \<and> seated shards a name (c_str white) black))"

text \<open>\<open>INCR\<close> leaves the other keys alone.\<close>

definition counter_laws :: "'r redis \<Rightarrow> bool" where
  "counter_laws R \<longleftrightarrow> (\<forall>k k' m f r. k \<noteq> k' \<longrightarrow>
     zscore R k m (snd (incr R k' r)) = zscore R k m r \<and> hget R k f (snd (incr R k' r)) = hget R k f r)"

definition shards_ok :: "(string \<times> server) list \<Rightarrow> bool" where
  "shards_ok shards \<longleftrightarrow> distinct (map fst shards) \<and> inj_on subjectSafe (fst ` set shards) \<and> (\<forall>(a, sv) \<in> set shards. server_ok sv)"

definition cluster_inv :: "'r redis \<Rightarrow> 'r cluster \<Rightarrow> bool" where
  "cluster_inv R cu \<longleftrightarrow>
     shards_ok (cu_shards cu) \<and> pool_ok R (mm_redis (cu_matchmaker cu)) \<and>
     (\<forall>t u e. waiting R (mm_redis (cu_matchmaker cu)) t = Some (u, e) \<longrightarrow> (\<exists>w. issued (cu_plays cu) t w \<and> u = c_str w)) \<and>
     (\<forall>(t, con, u) \<in> set (cu_plays cu). nul_free t) \<and>
     (\<forall>t con. map_of (ag_playTickets (cu_gateway cu)) t = Some con \<longrightarrow> (\<exists>u. (t, con, u) \<in> set (cu_plays cu))) \<and>
     fst ` set (al_shardLoad (cu_allocator cu)) \<subseteq> fst ` set (cu_shards cu) \<and>
     list_all (message_ok (cu_plays cu) (cu_matches cu) (cu_shards cu)) (cu_bus cu) \<and>
     list_all (answer_ok (cu_plays cu) (cu_matches cu) (cu_shards cu)) (cu_answers cu)"

text \<open>The invariant supposes that the random tickets have been different.\<close>

definition cluster_ok :: "'r redis \<Rightarrow> (nat \<Rightarrow> nat list) \<Rightarrow> 'r cluster \<Rightarrow> bool" where
  "cluster_ok R ord cu \<longleftrightarrow> redis_laws R \<and> counter_laws R \<and> iteration_order ord \<and>
     (distinct (map fst (cu_plays cu)) \<longrightarrow> cluster_inv R cu)"

end
