(* ===== verification/Cluster_Laws.thy ===== *)
theory Cluster_Laws
  imports Cluster
begin

text \<open>
  The laws of the processes behind the Play button: shards keep the rooms and the seats they have promised, every
  step of the system keeps the invariant, and so every match that a client is told about is a room on the
  announced shard with a seat for it.
\<close>

section \<open>Shards keep their promises\<close>

definition server_keeps :: "server \<Rightarrow> server \<Rightarrow> bool" where
  "server_keeps sv sv' \<longleftrightarrow> (\<forall>n. roomExists n (sv_registry sv) \<longrightarrow> roomExists n (sv_registry sv')) \<and>
     (\<forall>n w b. holds_seats n w b (sv_registry sv) \<longrightarrow> holds_seats n w b (sv_registry sv'))"

definition keeps_seats :: "(string \<times> server) list \<Rightarrow> (string \<times> server) list \<Rightarrow> bool" where
  "keeps_seats shards shards' \<longleftrightarrow> map fst shards' = map fst shards \<and> (\<forall>a n w b. seated shards a n w b \<longrightarrow> seated shards' a n w b)"

lemma keeps_seats_refl [simp]: "keeps_seats shards shards"
  by (simp add: keeps_seats_def)

lemma doAllocate_other:
  assumes "doAllocate q sv = Inr (reply, acts, sv')" "roomExists n (sv_registry sv)"
  shows "map_of (reg_rooms (sv_registry sv')) n = map_of (reg_rooms (sv_registry sv)) n"
  using assms(1)
proof (cases rule: doAllocate_cases)
  case (allocated name white black b k rest fx reg1 reg2 hb)
  have "n \<noteq> name" using allocated(5) assms(2) by (auto simp: createRoom_def split: if_splits)
  then show ?thesis
    using allocated(5,6,9)
    by (auto simp: createRoom_def attachRoom_def withSession_def withRoom_def reserveSeats_def update_conv' split: if_splits)
qed simp

lemma doAllocate_keeps:
  assumes "doAllocate q sv = Inr (reply, acts, sv')" "server_ok sv"
  shows "server_keeps sv sv'"
  unfolding server_keeps_def
proof (intro conjI allI impI)
  show "roomExists n (sv_registry sv')" if "roomExists n (sv_registry sv)" for n
    using that doAllocate_other [OF assms(1) that] by (simp add: roomExists_def)
  show "holds_seats n w b (sv_registry sv')" if h: "holds_seats n w b (sv_registry sv)" for n w b
  proof -
    have "roomExists n (sv_registry sv)" using h by (auto simp: holds_seats_def roomExists_def)
    then show ?thesis
      using h doAllocate_other [OF assms(1)] doAllocate_ok [OF assms] by (simp add: holds_seats_def server_ok_def)
  qed
qed

lemma joinRoom_keeps:
  assumes "server_ok sv"
  shows "server_keeps sv (sv\<lparr>sv_registry := snd (joinRoom name h u (sv_registry sv))\<rparr>)"
proof -
  have ok: "registry_ok (snd (joinRoom name h u (sv_registry sv)))" using joinRoom_ok assms by (simp add: server_ok_def)
  show ?thesis
    unfolding server_keeps_def
    using ok by (auto simp: roomExists_def holds_seats_def joinRoom_def Let_def update_conv' split: option.splits)
qed

lemma update_keeps:
  assumes "map_of shards a = Some sv" "server_keeps sv sv'"
  shows "keeps_seats shards (AList.update a sv' shards)"
proof -
  have "map fst (AList.update a sv' shards) = map fst shards" using assms(1) by (induction shards) auto
  then show ?thesis using assms by (auto simp: keeps_seats_def seated_def server_keeps_def update_conv')
qed

lemma shards_update:
  assumes "shards_ok shards" "map_of shards a = Some sv" "server_keeps sv sv'" "server_ok sv'"
  shows "shards_ok (AList.update a sv' shards) \<and> keeps_seats shards (AList.update a sv' shards)"
proof -
  have k: "keeps_seats shards (AList.update a sv' shards)" by (rule update_keeps [OF assms(2,3)])
  then have "map fst (AList.update a sv' shards) = map fst shards" by (simp add: keeps_seats_def)
  moreover from this have "fst ` set (AList.update a sv' shards) = fst ` set shards" by (metis list.set_map)
  moreover have "server_ok s" if "(b, s) \<in> set (AList.update a sv' shards)" for b s
  proof -
    have "distinct (map fst (AList.update a sv' shards))" using calculation(1) assms(1) by (simp add: shards_ok_def)
    then have "map_of (AList.update a sv' shards) b = Some s" using that by (rule map_of_is_SomeI)
    then have "s = sv' \<or> (b, s) \<in> set shards" by (auto simp: update_conv' split: if_splits dest: map_of_SomeD)
    then show ?thesis using assms(1,4) by (auto simp: shards_ok_def)
  qed
  ultimately show ?thesis using k assms(1) by (auto simp: shards_ok_def)
qed

lemma list_update_AList:
  "distinct (map fst xs) \<Longrightarrow> i < length xs \<Longrightarrow> xs[i := (fst (xs ! i), v)] = AList.update (fst (xs ! i)) v xs"
proof (induction xs arbitrary: i)
  case (Cons x xs)
  then show ?case by (cases x; cases i) (auto simp: nth_Cons' image_iff)
qed simp

section \<open>Allocation\<close>

lemma request_canon: "doAllocate (canon (allocateRequest n w b)) sv = doAllocate (allocateRequest n w b) sv"
proof -
  have "jstring ''roomName'' (canon (allocateRequest n w b)) = Inr n" "jvalueString ''whiteUsername'' [] (canon (allocateRequest n w b)) = Inr w"
    "jvalueString ''blackUsername'' [] (canon (allocateRequest n w b)) = Inr b"
    by (simp_all add: allocateRequest_def jstring_def jvalueString_def jat_canon jvalue_canon del: canon.simps(2))
  moreover have "jstring ''roomName'' (allocateRequest n w b) = Inr n" "jvalueString ''whiteUsername'' [] (allocateRequest n w b) = Inr w"
    "jvalueString ''blackUsername'' [] (allocateRequest n w b) = Inr b"
    by (simp_all add: allocateRequest_def jstring_def jvalueString_def jat_def jvalue_def)
  ultimately show ?thesis by (simp add: doAllocate_def)
qed

lemma doAllocate_exists:
  assumes "doAllocate (allocateRequest name w b) sv = Inr (reply, acts, sv')" "replySuccess (canon reply) = Inr True"
  shows "roomExists name (sv_registry sv')" "replySuccess reply = Inr True"
proof -
  have f: "replySuccess (canon (failure m)) = Inr False" for m
    by (simp add: replySuccess_def failure_def jvalue_canon del: canon.simps(2))
  have "roomExists name (sv_registry sv') \<and> replySuccess reply = Inr True"
    using assms(1)
  proof (cases rule: doAllocate_cases)
    case taken
    then show ?thesis using assms(2) f by simp
  next
    case (allocated n w' k bb i rest fx reg1 reg2 hb)
    have "n = name" using allocated(1) by (simp add: allocateRequest_def jstring_def jat_def)
    then show ?thesis
      using allocated(5-9)
      by (auto simp: createRoom_def attachRoom_def roomExists_def withSession_def withRoom_def reserveSeats_def update_conv'
        replySuccess_def jvalue_def getBool_def split: if_splits)
  qed
  then show "roomExists name (sv_registry sv')" "replySuccess reply = Inr True" by auto
qed

lemma find_shard:
  assumes "shards_ok shards" "List.find (\<lambda>(a, sv). allocateSubject a = s) shards = Some (a, sv)"
  shows "map_of shards a = Some sv" "server_ok sv" "allocateSubject a = s"
proof -
  have "(a, sv) \<in> set shards" "allocateSubject a = s" using assms(2) by (auto simp: find_Some_iff in_set_conv_nth)
  then show "map_of shards a = Some sv" "server_ok sv" "allocateSubject a = s" using assms(1) by (auto simp: shards_ok_def)
qed

lemma allocateOn_ok:
  assumes "shards_ok shards"
  shows "shards_ok (snd (allocateOn what s q shards)) \<and> keeps_seats shards (snd (allocateOn what s q shards))"
proof (cases "List.find (\<lambda>(a, sv). allocateSubject a = s) shards")
  case (Some p)
  then obtain a sv where p: "List.find (\<lambda>(a, sv). allocateSubject a = s) shards = Some (a, sv)" by (cases p) auto
  note f = find_shard [OF assms p]
  show ?thesis
  proof (cases "doAllocate (canon q) sv")
    case (Inr x)
    then obtain reply acts sv' where d: "doAllocate (canon q) sv = Inr (reply, acts, sv')" by (cases x) auto
    show ?thesis
      using shards_update [OF assms f(1) doAllocate_keeps [OF d f(2)] doAllocate_ok [OF d f(2)]] by (simp add: allocateOn_def p d)
  qed (simp add: allocateOn_def p assms)
qed (simp add: allocateOn_def assms)

text \<open>A successful reply means that the room is there, on the shard with that address.\<close>

lemma allocateOn_seats:
  assumes "shards_ok shards" "a \<in> fst ` set shards"
    and "fst (allocateOn what (allocateSubject a) (allocateRequest name w b) shards) = Some reply" "replySuccess reply = Inr True"
  shows "seated (snd (allocateOn what (allocateSubject a) (allocateRequest name w b) shards)) a name w b"
proof (cases "List.find (\<lambda>(a', sv). allocateSubject a' = allocateSubject a) shards")
  case None
  then show ?thesis using assms(3) by (simp add: allocateOn_def)
next
  case (Some p)
  then obtain a' sv where p: "List.find (\<lambda>(a', sv). allocateSubject a' = allocateSubject a) shards = Some (a', sv)" by (cases p) auto
  note f = find_shard [OF assms(1) p]
  have "a' \<in> fst ` set shards" using map_of_SomeD [OF f(1)] by force
  then have a: "a' = a" using f(3) assms(1,2) by (auto simp: shards_ok_def allocateSubject_def inj_on_def)
  show ?thesis
  proof (cases "doAllocate (canon (allocateRequest name w b)) sv")
    case (Inl ex)
    then show ?thesis
      using assms(3,4) by (auto simp: allocateOn_def p replySuccess_def failure_def jvalue_canon simp del: canon.simps(2))
  next
    case (Inr x)
    then obtain r acts sv' where d: "doAllocate (allocateRequest name w b) sv = Inr (r, acts, sv')" by (cases x) (auto simp: request_canon)
    have "replySuccess (canon r) = Inr True" using assms(3,4) by (simp add: allocateOn_def p request_canon d)
    note e = doAllocate_exists [OF d this]
    show ?thesis
      using e(1) doAllocate_holds [OF f(2) d e(2)] by (auto simp: allocateOn_def p request_canon d seated_def update_conv' a)
  qed
qed

lemma onMatched_call:
  assumes "\<And>s q. matchedCall R ord event al r = Some (s, q) \<Longrightarrow> rpc s q = rpc' s q"
  shows "onMatched R rpc ord event (al, r) = onMatched R rpc' ord event (al, r)"
proof (cases "jstring ''usernameA'' event")
  case a: (Inr w)
  show ?thesis
  proof (cases "jstring ''usernameB'' event")
    case b: (Inr k)
    have "rpc (allocateSubject (pickLeastLoadedShard ord al)) (allocateRequest (''match-'' @ showInt (fst (incr R ''matchmaking:nextRoomId'' r))) w k) =
        rpc' (allocateSubject (pickLeastLoadedShard ord al)) (allocateRequest (''match-'' @ showInt (fst (incr R ''matchmaking:nextRoomId'' r))) w k)"
      if "pickLeastLoadedShard ord al \<noteq> []"
      by (rule assms) (simp add: matchedCall_def Let_def a b that)
    then show ?thesis by (simp add: onMatched_def Let_def a b allocateRequest_def case_prod_beta)
  qed (simp add: onMatched_def Let_def a case_prod_beta)
qed (simp add: onMatched_def Let_def case_prod_beta)

lemma event_canon: "onMatched R rpc ord (canon (matchedEvent c t u e)) = onMatched R rpc ord (matchedEvent c t u e)"
proof -
  have c: "jstring ''usernameA'' (canon (matchedEvent c t u e)) = jstring ''usernameA'' (matchedEvent c t u e)"
    "jstring ''usernameB'' (canon (matchedEvent c t u e)) = jstring ''usernameB'' (matchedEvent c t u e)"
    "\<And>n s w b. assignedEvent (canon (matchedEvent c t u e)) n s w b = assignedEvent (matchedEvent c t u e) n s w b"
    unfolding matchedEvent_def jstring_def assignedEvent_def jat_canon by (simp_all add: jat_def)
  show ?thesis unfolding onMatched_def c ..
qed

lemma onMatched_redis:
  assumes "counter_laws R" "onMatched R rpc ord event (al, r) = ((out, al', r'), ex)"
  shows "waiting R r' = waiting R r" "pool_ok R r' = pool_ok R r" "al_shardLoad al' = al_shardLoad al"
proof -
  have k: "kPoolKey \<noteq> ''matchmaking:nextRoomId''" "ticketInfoKey t \<noteq> ''matchmaking:nextRoomId''" for t
    by (simp_all add: kPoolKey_def ticketInfoKey_def)
  have "r' = r \<or> r' = snd (incr R ''matchmaking:nextRoomId'' r)" and al: "al_shardLoad al' = al_shardLoad al"
    using assms(2) by (auto simp: onMatched_def Let_def case_prod_beta split: if_splits sum.splits option.splits bool.splits)
  then have z: "zscore R kPoolKey m r' = zscore R kPoolKey m r" "hget R (ticketInfoKey t) f r' = hget R (ticketInfoKey t) f r" for m t f
    using assms(1) k by (auto simp: counter_laws_def)
  show "waiting R r' = waiting R r" "pool_ok R r' = pool_ok R r" unfolding waiting_def pool_ok_def z fun_eq_iff by blast+
  show "al_shardLoad al' = al_shardLoad al" by (rule al)
qed

lemma pick_known:
  assumes "iteration_order ord" "pickLeastLoadedShard ord al \<noteq> []"
  shows "pickLeastLoadedShard ord al \<in> fst ` set (al_shardLoad al)"
proof -
  have "fold lessLoaded (iter ord (al_shardLoad al)) ([], LLONG_MAX) \<in> set (iter ord (al_shardLoad al))"
    using fold_lessLoaded [of "iter ord (al_shardLoad al)" "[]" LLONG_MAX] assms(2) by (auto simp: pickLeastLoadedShard_def)
  then show ?thesis using set_iter [OF assms(1)] unfolding pickLeastLoadedShard_def by (metis image_eqI)
qed

section \<open>Messages and answers stay true\<close>

lemma message_ok_mono:
  assumes "message_ok plays ms shards m" "set plays \<subseteq> set plays'" "set ms \<subseteq> set ms'" "keeps_seats shards shards'"
  shows "message_ok plays' ms' shards' m"
proof -
  have f: "fst ` set shards' = fst ` set shards" using assms(4) unfolding keeps_seats_def by (metis list.set_map)
  have s: "seated shards a n w b \<Longrightarrow> seated shards' a n w b" for a n w b using assms(4) by (simp add: keeps_seats_def)
  have "request_ok plays j \<Longrightarrow> request_ok plays' j" "pair_ok plays ms j \<Longrightarrow> pair_ok plays' ms' j"
    "assigned_ok plays ms shards j \<Longrightarrow> assigned_ok plays' ms' shards' j" "beat_ok shards j \<Longrightarrow> beat_ok shards' j" for j
    unfolding request_ok_def pair_ok_def assigned_ok_def beat_ok_def f using assms(2,3) s by blast+
  then show ?thesis using assms(1) by (simp add: message_ok_def case_prod_beta)
qed

lemma answer_ok_mono:
  assumes "answer_ok plays ms shards m" "set plays \<subseteq> set plays'" "set ms \<subseteq> set ms'" "keeps_seats shards shards'"
  shows "answer_ok plays' ms' shards' m"
proof -
  obtain con j where m: "m = (con, j)" by (cases m)
  have "seated shards a n w b \<Longrightarrow> seated shards' a n w b" for a n w b using assms(4) by (simp add: keeps_seats_def)
  then show ?thesis using assms(1-3) unfolding m answer_ok_def by (simp only: prod.case) blast
qed

text \<open>What changes beside the bus and the answers, and what is added to them.\<close>

lemma inv_step:
  assumes "cluster_inv R cu" "set (cu_plays cu) \<subseteq> set (cu_plays cu')" "set (cu_matches cu) \<subseteq> set (cu_matches cu')" "keeps_seats (cu_shards cu) (cu_shards cu')" "shards_ok (cu_shards cu')"
    and "pool_ok R (mm_redis (cu_matchmaker cu'))"
    and "\<And>t u e. waiting R (mm_redis (cu_matchmaker cu')) t = Some (u, e) \<Longrightarrow> \<exists>w. issued (cu_plays cu') t w \<and> u = c_str w"
    and "\<And>t con u. (t, con, u) \<in> set (cu_plays cu') \<Longrightarrow> nul_free t"
    and "\<And>t con. map_of (ag_playTickets (cu_gateway cu')) t = Some con \<Longrightarrow> \<exists>u. (t, con, u) \<in> set (cu_plays cu')"
    and "fst ` set (al_shardLoad (cu_allocator cu')) \<subseteq> fst ` set (cu_shards cu')"
    and "\<And>m. m \<in> set (cu_bus cu') \<Longrightarrow> m \<notin> set (cu_bus cu) \<Longrightarrow> message_ok (cu_plays cu') (cu_matches cu') (cu_shards cu') m"
    and "\<And>m. m \<in> set (cu_answers cu') \<Longrightarrow> m \<notin> set (cu_answers cu) \<Longrightarrow> answer_ok (cu_plays cu') (cu_matches cu') (cu_shards cu') m"
  shows "cluster_inv R cu'"
proof -
  have "message_ok (cu_plays cu') (cu_matches cu') (cu_shards cu') m" if "m \<in> set (cu_bus cu')" for m
  proof (cases "m \<in> set (cu_bus cu)")
    case True
    then have "message_ok (cu_plays cu) (cu_matches cu) (cu_shards cu) m" using assms(1) by (simp add: cluster_inv_def list_all_iff)
    then show ?thesis by (rule message_ok_mono [OF _ assms(2-4)])
  qed (rule assms(11) [OF that])
  moreover have "answer_ok (cu_plays cu') (cu_matches cu') (cu_shards cu') m" if "m \<in> set (cu_answers cu')" for m
  proof (cases "m \<in> set (cu_answers cu)")
    case True
    then have "answer_ok (cu_plays cu) (cu_matches cu) (cu_shards cu) m" using assms(1) by (simp add: cluster_inv_def list_all_iff)
    then show ?thesis by (rule answer_ok_mono [OF _ assms(2-4)])
  qed (rule assms(12) [OF that])
  ultimately show ?thesis unfolding cluster_inv_def list_all_iff using assms(5-10) by blast
qed

section \<open>Every step keeps the invariant\<close>

lemma cluster_invD:
  assumes "cluster_inv R cu"
  shows "shards_ok (cu_shards cu)" "pool_ok R (mm_redis (cu_matchmaker cu))"
    "waiting R (mm_redis (cu_matchmaker cu)) t = Some (u, e) \<Longrightarrow> \<exists>w. issued (cu_plays cu) t w \<and> u = c_str w"
    "map_of (ag_playTickets (cu_gateway cu)) t = Some con \<Longrightarrow> \<exists>u. (t, con, u) \<in> set (cu_plays cu)"
    "fst ` set (al_shardLoad (cu_allocator cu)) \<subseteq> fst ` set (cu_shards cu)"
    "m \<in> set (cu_bus cu) \<Longrightarrow> message_ok (cu_plays cu) (cu_matches cu) (cu_shards cu) m"
    "(t, con, u) \<in> set (cu_plays cu) \<Longrightarrow> nul_free t"
  using assms unfolding cluster_inv_def list_all_iff by blast+

lemma natsOut_sel [simp]:
  "cu_gateway (natsOut out cu) = cu_gateway cu" "cu_matchmaker (natsOut out cu) = cu_matchmaker cu"
  "cu_allocator (natsOut out cu) = cu_allocator cu" "cu_shards (natsOut out cu) = cu_shards cu"
  "cu_answers (natsOut out cu) = cu_answers cu" "cu_plays (natsOut out cu) = cu_plays cu" "cu_matches (natsOut out cu) = cu_matches cu"
  by (simp_all add: natsOut_def)

lemma natsOut_bus: "m \<in> set (cu_bus (natsOut out cu)) \<Longrightarrow> m \<notin> set (cu_bus cu) \<Longrightarrow> \<exists>s j. NatsPublish s j \<in> set out \<and> m = (s, canon j)"
  by (fastforce simp: natsOut_def split: action.splits)

lemma natsOut_Nil [simp]: "natsOut [] cu = cu"
  by (simp add: natsOut_def)

lemma gatewayOut_sel [simp]:
  "cu_gateway (gatewayOut out cu) = cu_gateway cu" "cu_matchmaker (gatewayOut out cu) = cu_matchmaker cu"
  "cu_allocator (gatewayOut out cu) = cu_allocator cu" "cu_shards (gatewayOut out cu) = cu_shards cu"
  "cu_plays (gatewayOut out cu) = cu_plays cu" "cu_matches (gatewayOut out cu) = cu_matches cu"
  by (simp_all add: gatewayOut_def)

lemma gatewayOut_bus: "m \<in> set (cu_bus (gatewayOut out cu)) \<Longrightarrow> m \<notin> set (cu_bus cu) \<Longrightarrow> \<exists>s j. PublishNats s j \<in> set out \<and> m = (s, canon j)"
  by (fastforce simp: gatewayOut_def split: api_effect.splits)

lemma gatewayOut_answers:
  "m \<in> set (cu_answers (gatewayOut out cu)) \<Longrightarrow> m \<notin> set (cu_answers cu) \<Longrightarrow> \<exists>con code j. Respond con code j \<in> set out \<and> m = (con, j)"
  by (fastforce simp: gatewayOut_def split: api_effect.splits)

subsection \<open>The gateway\<close>

lemma gateway_inv:
  assumes inv: "cluster_inv R cu" and le: "map_of (ag_playTickets ag) \<subseteq>\<^sub>m map_of (ag_playTickets (cu_gateway cu))"
    and bus: "\<And>s j. PublishNats s j \<notin> set out"
    and ans: "\<And>con code j. Respond con code j \<in> set out \<Longrightarrow> answer_ok (cu_plays cu) (cu_matches cu) (cu_shards cu) (con, j)"
  shows "cluster_inv R (gatewayOut out (cu\<lparr>cu_gateway := ag\<rparr>))"
proof -
  note d = cluster_invD [OF inv]
  have "\<exists>u. (t, con, u) \<in> set (cu_plays cu)" if "map_of (ag_playTickets ag) t = Some con" for t con
    using le that d(4) by (fastforce simp: map_le_def dom_def)
  then show ?thesis
    using gatewayOut_bus [of _ out "cu\<lparr>cu_gateway := ag\<rparr>"] gatewayOut_answers [of _ out "cu\<lparr>cu_gateway := ag\<rparr>"] bus ans d
    by (intro inv_step [OF inv]) (auto; fastforce)+
qed

text \<open>A ticket is made of hexadecimal digits.\<close>

lemma token_nul_free: "nul_free (makeToken a b)"
proof -
  have "hexDigit n \<noteq> CHR 0x00" if "n < 16" for n
  proof
    assume "hexDigit n = CHR 0x00"
    then have "of_char (hexDigit n) = (0::nat)" by simp
    then show False using that by (auto simp: hexDigit_def of_char_of split: if_splits)
  qed
  then have "CHR 0x00 \<notin> set (hexDigits k n)" for k n by (induction k n rule: hexDigits.induct) (auto simp: eq_commute [of "CHR 0x00"])
  then show ?thesis by (simp add: nul_free_iff makeToken_def)
qed

lemma pressPlay_inv:
  assumes inv: "cluster_inv R cu"
  shows "cluster_inv R (pressPlay env con token rnd cu)"
proof -
  note d = cluster_invD [OF inv]
  have tok: "jvalueString ''token'' [] (JObj [(''token'', JStr token)]) = Inr token" by (simp add: jvalueString_def jvalue_def)
  show ?thesis
  proof (cases "ae_session env token")
    case None
    have "pressPlay env con token rnd cu = gatewayOut [Respond con 401 badToken] (cu\<lparr>cu_gateway := cu_gateway cu\<rparr>)"
      by (simp add: pressPlay_def postPlay_def tok None)
    then show ?thesis using gateway_inv [OF inv, of "cu_gateway cu" "[Respond con 401 badToken]"] by (auto simp: answer_ok_def badToken_def)
  next
    case (Some s)
    define t where "t = newToken (env\<lparr>ae_random := rnd\<rparr>)"
    have p: "pressPlay env con token rnd cu = gatewayOut [PublishNats ''matchmaking.request'' (playRequest t (csd_username s) (csd_elo s))]
        (cu\<lparr>cu_gateway := (cu_gateway cu)\<lparr>ag_playTickets := AList.update t con (ag_playTickets (cu_gateway cu))\<rparr>,
            cu_plays := cu_plays cu @ [(t, con, csd_username s)]\<rparr>)" (is "_ = gatewayOut ?out ?cu")
      by (simp add: pressPlay_def postPlay_def tok Some t_def playRequest_def Let_def)
    have "nul_free t" by (simp add: t_def newToken_def token_nul_free)
    moreover have "message_ok (cu_plays ?cu) (cu_matches ?cu) (cu_shards cu) (''matchmaking.request'', canon (playRequest t (csd_username s) (csd_elo s)))"
      by (simp add: message_ok_def request_ok_def del: canon.simps(2)) blast
    ultimately show ?thesis
      unfolding p using d gatewayOut_bus [of _ ?out ?cu] gatewayOut_answers [of _ ?out ?cu]
      by (intro inv_step [OF inv]) (auto simp: update_conv' split: if_splits simp del: canon.simps(2); fastforce)+
  qed
qed

text \<open>The tickets are different, so the connection that waits for a ticket is the one that asked with it.\<close>

lemma delete_le: "map_of (AList.delete k xs) \<subseteq>\<^sub>m map_of xs"
  by (auto simp: map_le_def delete_conv' split: if_splits)

lemma playAssignedSide_out:
  assumes "playAssignedSide j side ag = ((out, ag'), ex)" "jstring (''ticket'' @ side) j = Inr t"
    "jat ''roomName'' j = Inr (JStr name)" "jat ''shard'' j = Inr (JStr a)"
  shows "map_of (ag_playTickets ag') \<subseteq>\<^sub>m map_of (ag_playTickets ag)"
    "\<And>ef. ef \<in> set out \<Longrightarrow> \<exists>con. map_of (ag_playTickets ag) t = Some con \<and> ef = Respond con 200 (matchFound name a)"
  using assms by (auto simp: playAssignedSide_def matchFound_def delete_le split: option.splits)

lemma played_by:
  "distinct (map fst plays) \<Longrightarrow> (t, con, u) \<in> set plays \<Longrightarrow> issued plays t w \<Longrightarrow> (t, con, w) \<in> set plays"
  by (auto dest: eq_key_imp_eq_value)

lemma playAssigned_out:
  assumes "playAssigned j ag = ((out, ag'), ex)" "jstring ''ticketA'' j = Inr ta" "jstring ''ticketB'' j = Inr tb"
    "jat ''roomName'' j = Inr (JStr name)" "jat ''shard'' j = Inr (JStr a)"
  shows "map_of (ag_playTickets ag') \<subseteq>\<^sub>m map_of (ag_playTickets ag)"
    "\<And>ef. ef \<in> set out \<Longrightarrow> \<exists>t \<in> {ta, tb}. \<exists>con. map_of (ag_playTickets ag) t = Some con \<and> ef = Respond con 200 (matchFound name a)"
proof -
  obtain o1 ag1 e1 where A: "playAssignedSide j ''A'' ag = ((o1, ag1), e1)" by (metis prod.exhaust)
  obtain o2 ag2 e2 where B: "playAssignedSide j ''B'' ag1 = ((o2, ag2), e2)" by (metis prod.exhaust)
  note a = playAssignedSide_out [OF A _ assms(4,5), of ta] and b = playAssignedSide_out [OF B _ assms(4,5), of tb]
  have split: "out = o1 \<and> ag' = ag1 \<or> out = o1 @ o2 \<and> ag' = ag2"
    using assms(1) by (auto simp: playAssigned_def A B split: option.splits)
  have le: "map_of (ag_playTickets ag1) \<subseteq>\<^sub>m map_of (ag_playTickets ag)" using a(1) assms(2) by simp
  then show "map_of (ag_playTickets ag') \<subseteq>\<^sub>m map_of (ag_playTickets ag)"
    using b(1) assms(3) split by (auto intro: map_le_trans)
  show "\<exists>t \<in> {ta, tb}. \<exists>con. map_of (ag_playTickets ag) t = Some con \<and> ef = Respond con 200 (matchFound name a)" if "ef \<in> set out" for ef
  proof -
    have "ef \<in> set o1 \<or> ef \<in> set o2" using that split by auto
    moreover have "map_of (ag_playTickets ag) tb = Some con" if "map_of (ag_playTickets ag1) tb = Some con" for con
      using le that by (metis domI map_le_def)
    ultimately show ?thesis using a(2) b(2) assms(2,3) by fastforce
  qed
qed

lemma assigned_inv:
  assumes inv: "cluster_inv R cu" and dist: "distinct (map fst (cu_plays cu))"
    and ok: "assigned_ok (cu_plays cu) (cu_matches cu) (cu_shards cu) j" and p: "playAssigned j (cu_gateway cu) = ((out, ag), ex)"
  shows "cluster_inv R (gatewayOut out (cu\<lparr>cu_gateway := ag\<rparr>))"
proof -
  obtain ta tb white black name a where j: "jstring ''ticketA'' j = Inr ta" "jstring ''ticketB'' j = Inr tb"
      "jat ''roomName'' j = Inr (JStr name)" "jat ''shard'' j = Inr (JStr a)"
    and i: "issued (cu_plays cu) ta white" "issued (cu_plays cu) tb black" "(ta, tb) \<in> set (cu_matches cu)"
    and s: "seated (cu_shards cu) a name (c_str white) black"
    using ok unfolding assigned_ok_def by blast
  note o = playAssigned_out [OF p j]
  show ?thesis
  proof (rule gateway_inv [OF inv o(1)])
    show "PublishNats s j \<notin> set out" for s j using o(2) by blast
    show "answer_ok (cu_plays cu) (cu_matches cu) (cu_shards cu) (con, j')" if r: "Respond con code j' \<in> set out" for con code j'
    proof -
      obtain t where t: "t \<in> {ta, tb}" "map_of (ag_playTickets (cu_gateway cu)) t = Some con" "j' = matchFound name a"
        using o(2) [OF r] by auto
      obtain u where u: "(t, con, u) \<in> set (cu_plays cu)" using cluster_invD(4) [OF inv t(2)] by blast
      note w = played_by [OF dist u]
      have "(t = ta \<longrightarrow> (ta, con, white) \<in> set (cu_plays cu)) \<and> (t = tb \<longrightarrow> (tb, con, black) \<in> set (cu_plays cu))"
        using w i by blast
      then show ?thesis using t(1,3) i s unfolding answer_ok_def by (simp only: prod.case) blast
    qed
  qed
qed

lemma timeout_inv:
  assumes inv: "cluster_inv R cu" and p: "playTimeout j (cu_gateway cu) = ((out, ag), ex)"
  shows "cluster_inv R (gatewayOut out (cu\<lparr>cu_gateway := ag\<rparr>))"
  using p by (intro gateway_inv [OF inv])
    (auto simp: playTimeout_def answer_ok_def delete_le split: sum.splits option.splits)

subsection \<open>The matchmaker\<close>

lemma mm_step_publishes:
  assumes "mm_step R ev mm = (out, mm')" "NatsPublish s j \<in> set out"
  shows "s = ''matchmaking.timeout'' \<or> s = ''matchmaking.matched'' \<and> j \<in> set (matchesIn out)"
  using assms
  by (cases ev) (auto simp: onMatchRequest_def onSearchTimeout_def onAssignmentTimeout_def giveUp_def Let_def
    split: sum.splits prod.splits option.splits if_splits)

lemma requestFields_play: "\<exists>e'. requestFields (canon (playRequest t u e)) = Inr (t, u, e')"
  by (simp add: requestFields_def playRequest_def jstring_def jat_canon getInt_def del: canon.simps(2))

lemma matchmaker_inv:
  assumes R: "redis_laws R" and inv: "cluster_inv R cu" and req: "\<And>j. ev = MatchRequest j \<Longrightarrow> request_ok (cu_plays cu) j"
    and paired: "\<And>j. ev = MatchRequest j \<Longrightarrow> set (pairedBy R j (mm_redis (cu_matchmaker cu))) \<subseteq> set (cu_matches cu)"
    and s: "mm_step R ev (cu_matchmaker cu) = (out, mm)"
  shows "cluster_inv R (natsOut out (cu\<lparr>cu_matchmaker := mm\<rparr>))"
proof -
  note d = cluster_invD [OF inv]
  have asked: "issued (cu_plays cu) t u" if q: "ev = MatchRequest j" "requestFields j = Inr (t, u, e)" for j t u e
  proof -
    obtain t' u' e' where j: "issued (cu_plays cu) t' u'" "j = canon (playRequest t' u' e')"
      using req [OF q(1)] unfolding request_ok_def by blast
    then have "t' = t \<and> u' = u" using requestFields_play [of t' u' e'] q(2) by (metis Inr_inject prod.inject)
    then show ?thesis using j(1) by simp
  qed
  have *: "pool_ok R (mm_redis mm) \<and> (\<forall>t u e. waiting R (mm_redis mm) t = Some (u, e) \<longrightarrow> (\<exists>w. issued (cu_plays cu) t w \<and> u = c_str w)) \<and>
      (\<forall>j \<in> set (matchesIn out). pair_ok (cu_plays cu) (cu_matches cu) (canon j))"
    using R d(2) s
  proof (cases rule: mm_step_cases)
    case quiet
    have "waiting R (mm_redis (cu_matchmaker cu)) t = Some p" if "waiting R (mm_redis mm) t = Some p" for t p
      using quiet(3) that by (metis domI map_le_def)
    then show ?thesis using quiet(1,2) d(3) by auto
  next
    case (wait j t u e)
    have i: "issued (cu_plays cu) t u" by (rule asked [OF wait(1,2)])
    then have "c_str t = t" using d(7) by (auto simp: nul_free_def)
    then show ?thesis using wait(3,4,5) i d(3) by (auto split: if_splits; blast)
  next
    case (match j t u e c)
    have "(mc_ticketId c, t) \<in> set (cu_matches cu)" using paired [OF match(1)] match(8) by simp
    then have "pair_ok (cu_plays cu) (cu_matches cu) (canon (matchedEvent c t u e))"
      unfolding pair_ok_def using asked [OF match(1,2)] d(3) [OF match(4)] by blast
    then show ?thesis using match(3,6,7) d(3) by (auto split: if_splits)
  qed
  show ?thesis
  proof (rule inv_step [OF inv])
    show "message_ok (cu_plays (natsOut out (cu\<lparr>cu_matchmaker := mm\<rparr>))) (cu_matches (natsOut out (cu\<lparr>cu_matchmaker := mm\<rparr>))) (cu_shards (natsOut out (cu\<lparr>cu_matchmaker := mm\<rparr>))) m"
      if m: "m \<in> set (cu_bus (natsOut out (cu\<lparr>cu_matchmaker := mm\<rparr>)))" "m \<notin> set (cu_bus cu)" for m
    proof -
      obtain sb j where j: "NatsPublish sb j \<in> set out" "m = (sb, canon j)" using natsOut_bus [OF m(1)] m(2) by auto
      show ?thesis using mm_step_publishes [OF s j(1)] * j(2) by (auto simp: message_ok_def)
    qed
  qed (use d * in auto)
qed

subsection \<open>The allocator and the shards\<close>

lemma assignedEvent_ok:
  assumes "(ta, tb) \<in> set ms" "issued plays ta w" "white = c_str w" "issued plays tb black" "seated shards a name white black"
  shows "assigned_ok plays ms shards (canon (JObj [(''ticketA'', JStr ta), (''roleA'', JStr ''White''), (''ticketB'', JStr tb),
    (''roleB'', JStr ''Black''), (''roomName'', JStr name), (''shard'', JStr a), (''whiteName'', JStr white),
    (''whiteElo'', JInt ea), (''blackName'', JStr black), (''blackElo'', JInt eb)]))"
proof -
  let ?j = "JObj [(''ticketA'', JStr ta), (''roleA'', JStr ''White''), (''ticketB'', JStr tb),
    (''roleB'', JStr ''Black''), (''roomName'', JStr name), (''shard'', JStr a), (''whiteName'', JStr white),
    (''whiteElo'', JInt ea), (''blackName'', JStr black), (''blackElo'', JInt eb)]"
  have "jstring ''ticketA'' (canon ?j) = Inr ta" "jstring ''ticketB'' (canon ?j) = Inr tb"
    "jat ''roomName'' (canon ?j) = Inr (JStr name)" "jat ''shard'' (canon ?j) = Inr (JStr a)"
    by (simp_all add: jstring_def jat_canon del: canon.simps(2))
  then show ?thesis unfolding assigned_ok_def using assms by blast
qed

lemma matched_inv:
  assumes c: "counter_laws R" and o: "iteration_order ord" and inv: "cluster_inv R cu" and p: "pair_ok (cu_plays cu) (cu_matches cu) j"
  shows "cluster_inv R (deliverMatched R what ord lost j cu)"
proof -
  note d = cluster_invD [OF inv]
  let ?al = "cu_allocator cu" and ?r = "mm_redis (cu_matchmaker cu)" and ?sh = "cu_shards cu"
  let ?rpc = "\<lambda>s q. if lost then None else fst (allocateOn what s q ?sh)"
  let ?call = "matchedCall R ord j ?al ?r"
  define shards where "shards = (case ?call of None \<Rightarrow> ?sh | Some (s, q) \<Rightarrow> snd (allocateOn what s q ?sh))"
  obtain out al r1 ex where m: "onMatched R ?rpc ord j (?al, ?r) = ((out, al, r1), ex)" by (metis prod.exhaust)
  let ?cu = "cu\<lparr>cu_allocator := al, cu_shards := shards, cu_matchmaker := (cu_matchmaker cu)\<lparr>mm_redis := r1\<rparr>\<rparr>"
  have D: "deliverMatched R what ord lost j cu = natsOut out ?cu" by (simp add: deliverMatched_def Let_def m shards_def)
  have sh: "shards_ok shards" "keeps_seats ?sh shards"
    using allocateOn_ok [OF d(1)] d(1) by (auto simp: shards_def split: option.split)
  have keys: "fst ` set shards = fst ` set ?sh" using sh(2) unfolding keeps_seats_def by (metis list.set_map)
  note w = onMatched_redis [OF c m]
  obtain ca w1 t u e where j: "j = canon (matchedEvent ca t u e)"
    and i: "(mc_ticketId ca, t) \<in> set (cu_matches cu)" "issued (cu_plays cu) (mc_ticketId ca) w1" "mc_username ca = c_str w1"
      "issued (cu_plays cu) t u"
    using p unfolding pair_ok_def by blast
  have msg: "message_ok (cu_plays cu) (cu_matches cu) shards (s, canon k)" if a: "NatsPublish s k \<in> set out" for s k
  proof -
    let ?only = "\<lambda>s q. if ?call = Some (s, q) then ?rpc s q else None"
    have "onMatched R ?only ord j (?al, ?r) = onMatched R ?rpc ord j (?al, ?r)" by (rule onMatched_call) simp
    then have "onMatched R ?only ord (matchedEvent ca t u e) (?al, ?r) = ((out, al, r1), ex)" using m unfolding j event_canon by simp
    moreover have "out \<noteq> []" using a by auto
    ultimately show ?thesis
    proof (cases rule: onMatched_announces)
      case (1 name reply k')
      let ?a = "pickLeastLoadedShard ord ?al"
      have known: "?a \<in> fst ` set ?sh" using pick_known [OF o 1(4)] d(5) by blast
      have seats: "seated (snd (allocateOn what (allocateSubject ?a) (allocateRequest name (mc_username ca) u) ?sh)) ?a name (mc_username ca) u"
        using 1(2) by (intro allocateOn_seats [OF d(1) known _ 1(3)]) (auto split: if_splits)
      have "?call = Some (allocateSubject ?a, allocateRequest name (mc_username ca) u)" using 1(2) by (auto split: if_splits)
      then have "seated shards ?a name (mc_username ca) u" using seats by (simp add: shards_def)
      from assignedEvent_ok [OF i this] show ?thesis using a 1(1,5) by (simp add: message_ok_def del: canon.simps(2))
    qed
  qed
  have bus: "message_ok (cu_plays cu) (cu_matches cu) shards b" if b: "b \<in> set (cu_bus (natsOut out ?cu))" "b \<notin> set (cu_bus cu)" for b
    using natsOut_bus [OF b(1)] b(2) msg by auto
  have wait: "\<exists>w. issued (cu_plays cu) t w \<and> u = c_str w" if "waiting R r1 t = Some (u, e)" for t u e
    using d(3) [of t u e] that w(1) by simp
  show ?thesis
    unfolding D by (rule inv_step [OF inv]) (use d(2,4,5,7) sh w(2,3) wait bus keys in simp_all)
qed

lemma heartbeat_inv:
  assumes inv: "cluster_inv R cu" and b: "beat_ok (cu_shards cu) j" and h: "onHeartbeat j (cu_allocator cu) = Inr al"
  shows "cluster_inv R (cu\<lparr>cu_allocator := al\<rparr>)"
proof -
  obtain a where a: "a \<in> fst ` set (cu_shards cu)" "jstring ''shard'' j = Inr a" using b unfolding beat_ok_def by blast
  obtain n where "al_shardLoad al = AList.update a n (al_shardLoad (cu_allocator cu))"
    using h a(2) by (auto simp: onHeartbeat_def sbind_Inr_iff)
  then show ?thesis using inv a(1) by (simp add: cluster_inv_def dom_update)
qed

lemma beat_inv:
  assumes inv: "cluster_inv R cu" and i: "i < length (cu_shards cu)"
  shows "cluster_inv R (natsOut [NatsPublish ''shard.heartbeat'' (JObj [(''shard'', JStr (fst (cu_shards cu ! i))), (''roomCount'', JInt n)])] cu)"
    (is "cluster_inv R (natsOut ?out cu)")
proof -
  have "cu_shards cu ! i \<in> set (cu_shards cu)" using i by simp
  then have "message_ok (cu_plays cu) (cu_matches cu) (cu_shards cu)
      (''shard.heartbeat'', canon (JObj [(''shard'', JStr (fst (cu_shards cu ! i))), (''roomCount'', JInt n)]))"
    by (auto simp: message_ok_def beat_ok_def jstring_def jat_canon simp del: canon.simps(2))
  then show ?thesis
    using natsOut_bus [of _ ?out cu] cluster_invD [OF inv] by (intro inv_step [OF inv]) (auto simp del: canon.simps(2); blast)+
qed

lemma enter_inv:
  assumes inv: "cluster_inv R cu" and i: "i < length (cu_shards cu)"
  shows "cluster_inv R (cu\<lparr>cu_shards := (cu_shards cu)[i := (fst (cu_shards cu ! i),
    (snd (cu_shards cu ! i))\<lparr>sv_registry := snd (joinRoom name h u (sv_registry (snd (cu_shards cu ! i))))\<rparr>)]\<rparr>)"
proof -
  note d = cluster_invD [OF inv]
  let ?a = "fst (cu_shards cu ! i)" and ?sv = "snd (cu_shards cu ! i)"
  let ?sv' = "?sv\<lparr>sv_registry := snd (joinRoom name h u (sv_registry ?sv))\<rparr>"
  have m: "(?a, ?sv) \<in> set (cu_shards cu)" using i by simp
  then have s: "map_of (cu_shards cu) ?a = Some ?sv" "server_ok ?sv" using d(1) by (auto simp: shards_ok_def)
  have "server_ok ?sv'" using s(2) joinRoom_ok by (simp add: server_ok_def)
  then have "shards_ok (AList.update ?a ?sv' (cu_shards cu)) \<and> keeps_seats (cu_shards cu) (AList.update ?a ?sv' (cu_shards cu))"
    by (rule shards_update [OF d(1) s(1) joinRoom_keeps [OF s(2)]])
  moreover have "(cu_shards cu)[i := (?a, ?sv')] = AList.update ?a ?sv' (cu_shards cu)"
    using d(1) by (intro list_update_AList i) (simp add: shards_ok_def)
  ultimately show ?thesis
    using d by (intro inv_step [OF inv]) (auto simp: dom_update)
qed

subsection \<open>The bus\<close>

lemma set_dropAt: "set (dropAt i xs) \<subseteq> set xs"
  using set_take_subset [of i xs] set_drop_subset [of "Suc i" xs] by (auto simp: dropAt_def)

lemma drop_inv: "cluster_inv R cu \<Longrightarrow> cluster_inv R (cu\<lparr>cu_bus := dropAt i (cu_bus cu)\<rparr>)"
  using set_dropAt [of i "cu_bus cu"] by (auto simp: cluster_inv_def list_all_iff)

lemma matches_inv:
  assumes inv: "cluster_inv R cu"
  shows "cluster_inv R (cu\<lparr>cu_matches := cu_matches cu @ ms\<rparr>)"
  by (rule inv_step [OF inv]) (use cluster_invD [OF inv] in simp_all)

lemma deliver_inv:
  assumes R: "redis_laws R" and c: "counter_laws R" and o: "iteration_order ord" and inv: "cluster_inv R cu"
    and dist: "distinct (map fst (cu_plays cu))" and m: "message_ok (cu_plays cu) (cu_matches cu) (cu_shards cu) (s, j)"
  shows "cluster_inv R (deliver R what ord lost (s, j) cu)"
proof -
  note ok = m [unfolded message_ok_def prod.case]
  have assigned: "cluster_inv R (gatewayOut out (cu\<lparr>cu_matchmaker := mm, cu_gateway := ag\<rparr>))"
    if a: "s = ''matchmaking.assigned''" "mm = (case onPairAssigned j (cu_matchmaker cu) of Inl ex \<Rightarrow> cu_matchmaker cu | Inr m \<Rightarrow> m)"
      "playAssigned j (cu_gateway cu) = ((out, ag), ex)" for mm out ag ex
  proof -
    have "cluster_inv R (cu\<lparr>cu_matchmaker := mm\<rparr>)" using matchmaker_inv [OF R inv, of "PairAssigned j" "[]" mm] a(2) by simp
    from assigned_inv [OF this, of j out ag ex] show ?thesis using dist ok a(1,3) by simp
  qed
  consider "s = ''matchmaking.request''" | "s = ''matchmaking.matched''" | "s = ''matchmaking.assigned''" | "s = ''matchmaking.timeout''"
    | "s = ''shard.heartbeat''" | "s \<noteq> ''matchmaking.request''" "s \<noteq> ''matchmaking.matched''" "s \<noteq> ''matchmaking.assigned''"
        "s \<noteq> ''matchmaking.timeout''" "s \<noteq> ''shard.heartbeat''"
    by argo
  then show ?thesis
  proof cases
    case 1
    then show ?thesis
      using matchmaker_inv [OF R matches_inv [OF inv, of "pairedBy R j (mm_redis (cu_matchmaker cu))"], of "MatchRequest j"] ok
      by (simp add: deliver_def Let_def split: prod.split)
  next
    case 2
    then show ?thesis using matched_inv [OF c o inv] ok by (simp add: deliver_def)
  next
    case 3
    then show ?thesis using assigned by (simp add: deliver_def Let_def split: prod.split)
  next
    case 4
    then show ?thesis using timeout_inv [OF inv] by (simp add: deliver_def Let_def split: prod.split)
  next
    case 5
    then show ?thesis using heartbeat_inv [OF inv] inv ok by (simp add: deliver_def split: sum.split)
  next
    case 6
    then show ?thesis using inv by (simp add: deliver_def)
  qed
qed

text \<open>The history of the play requests only grows.\<close>

lemma deliver_plays [simp]: "cu_plays (deliver R what ord lost m cu) = cu_plays cu"
  by (simp add: deliver_def deliverMatched_def Let_def split: prod.split)

lemma cluster_step_plays: "\<exists>ps. cu_plays (cluster_step R what ord env ev cu) = cu_plays cu @ ps"
  by (cases ev) (auto simp: pressPlay_def Let_def split: prod.split)

lemma cluster_step_inv:
  assumes "redis_laws R" "counter_laws R" "iteration_order ord" and inv: "cluster_inv R cu" and dist: "distinct (map fst (cu_plays cu))"
  shows "cluster_inv R (cluster_step R what ord env ev cu)"
proof (cases ev)
  case (PressPlay con token rnd)
  then show ?thesis using pressPlay_inv [OF inv] by simp
next
  case (DeliverNats i lost)
  have "message_ok (cu_plays cu) (cu_matches cu) (cu_shards cu) (cu_bus cu ! i)" if "i < length (cu_bus cu)"
    using cluster_invD(6) [OF inv] that by simp
  then show ?thesis
    using deliver_inv [OF assms(1-3) drop_inv [OF inv], of i "fst (cu_bus cu ! i)" "snd (cu_bus cu ! i)"] dist inv DeliverNats by simp
next
  case (LoseNats i)
  then show ?thesis using drop_inv [OF inv] by simp
next
  case (SearchOver t)
  then show ?thesis using matchmaker_inv [OF assms(1) inv, of "SearchTimeout t"] by (simp split: prod.split)
next
  case (AssignmentOver a b)
  then show ?thesis using matchmaker_inv [OF assms(1) inv, of "AssignmentTimeout a b"] by (simp split: prod.split)
next
  case (Beat i n)
  then show ?thesis using beat_inv [OF inv] inv by simp
next
  case (Enter i h name u)
  then show ?thesis using enter_inv [OF inv] inv by simp
qed

interpretation cluster: guarded_steps "cluster_step R what ord env" "cluster_ok R ord" "\<lambda>_. True" for R what ord env
proof unfold_locales
  show "cluster_ok R ord (cluster_step R what ord env ev cu)" if "cluster_ok R ord cu" for cu ev
    using that cluster_step_inv [of R ord cu what env ev] cluster_step_plays [of R what ord env ev cu] unfolding cluster_ok_def by auto
qed

section \<open>What a player who is told about a match finds\<close>

text \<open>Right after the start nobody has asked for anything.\<close>

definition cluster_started :: "'r redis \<Rightarrow> 'r cluster \<Rightarrow> bool" where
  "cluster_started R cu \<longleftrightarrow> shards_ok (cu_shards cu) \<and> pool_ok R (mm_redis (cu_matchmaker cu)) \<and>
     waiting R (mm_redis (cu_matchmaker cu)) = Map.empty \<and> ag_playTickets (cu_gateway cu) = [] \<and> al_shardLoad (cu_allocator cu) = [] \<and>
     cu_bus cu = [] \<and> cu_answers cu = [] \<and> cu_plays cu = [] \<and> cu_matches cu = []"

lemma started_inv: "cluster_started R cu \<Longrightarrow> cluster_inv R cu"
  by (simp add: cluster_started_def cluster_inv_def)

lemma answers_seated:
  assumes "redis_laws R" "counter_laws R" "iteration_order ord" "cluster_started R cu"
    and "cu' = fold (cluster_step R what ord env) evs cu" "distinct (map fst (cu_plays cu'))"
    and "(con, j) \<in> set (cu_answers cu')" "jat ''success'' j = Inr (JBool True)"
  obtains name a ta ca white tb cb black where "j = matchFound name a" "(ta, ca, white) \<in> set (cu_plays cu')" "(tb, cb, black) \<in> set (cu_plays cu')"
    "(ta, tb) \<in> set (cu_matches cu')" "con \<in> {ca, cb}" "seated (cu_shards cu') a name (c_str white) black"
proof -
  have "cluster_ok R ord cu'"
    unfolding assms(5) using assms(1-4) started_inv [of R cu] by (intro cluster.run_invar) (auto simp: cluster_ok_def list_all_iff)
  then have "answer_ok (cu_plays cu') (cu_matches cu') (cu_shards cu') (con, j)"
    using assms(6,7) by (simp add: cluster_ok_def cluster_inv_def list_all_iff)
  moreover have "j \<noteq> failure m" for m using assms(8) by (auto simp: failure_def jat_def)
  ultimately show thesis using that unfolding answer_ok_def by (simp only: prod.case) blast
qed

text \<open>The reserved seats are taken whoever of the two comes first.\<close>

lemma seated_join:
  assumes "seated shards a name white black"
  shows "\<exists>sv. map_of shards a = Some sv \<and> roomExists name (sv_registry sv) \<and>
    (white \<noteq> [] \<and> black \<noteq> [] \<and> white \<noteq> black \<longrightarrow> (\<forall>hA hB. hA \<noteq> hB \<longrightarrow>
      (let A = (\<lambda>reg. snd (joinRoom name hA white reg)); B = (\<lambda>reg. snd (joinRoom name hB black reg))
       in \<forall>reg \<in> {A (B (sv_registry sv)), B (A (sv_registry sv))}. roleOf hA reg = White \<and> roleOf hB reg = Black)))"
proof -
  obtain sv where sv: "map_of shards a = Some sv" "roomExists name (sv_registry sv)"
    and seats: "white \<noteq> [] \<and> black \<noteq> [] \<and> white \<noteq> black \<longrightarrow> holds_seats name white black (sv_registry sv)"
    using assms unfolding seated_def by blast
  have "\<forall>reg \<in> {snd (joinRoom name hA white (snd (joinRoom name hB black (sv_registry sv)))),
      snd (joinRoom name hB black (snd (joinRoom name hA white (sv_registry sv))))}. roleOf hA reg = White \<and> roleOf hB reg = Black"
    if n: "white \<noteq> [] \<and> black \<noteq> [] \<and> white \<noteq> black" and "hA \<noteq> hB" for hA hB
  proof -
    have h: "holds_seats name white black (sv_registry sv)" using seats n by blast
    note s = holds_seats_join [OF h] and s2 = holds_seats_join [OF holds_seats_join(1) [OF h]]
    show ?thesis using s(2-4) s2(2-4) n \<open>hA \<noteq> hB\<close> by auto
  qed
  then show ?thesis using sv by (simp only: Let_def) blast
qed

end
