(* ===== verification/Screens.thy ===== *)
theory Screens
  imports Home_Laws
begin

text \<open>
  The windows before the game: the message loops of the room dialog and of the error popup
  (\<open>client/app/RoomDialog.cpp\<close>) and the picture of the home screen (\<open>client/app/HomeScreenView.cpp\<close>).
  Windows enters with what is documented of \<open>GetMessage\<close>, \<open>DestroyWindow\<close> and \<open>PostQuitMessage\<close>; OpenCV with
  its drawing operations and the width of a text. The lemmas: the dialog's loop does what the events of
  \<open>Home\<close> say, but leaves a quit message behind, so a popup right after it does not wait; the button that is
  highlighted is the one that a click chooses, and both are drawn inside the window.
\<close>

section \<open>The message loops\<close>

text \<open>
  A message is dispatched to the window procedure. A click carries the number of the control and the text that
  is in the edit control then. The Boolean is whether a quit message is waiting: \<open>PostQuitMessage\<close> puts it there
  and \<open>GetMessage\<close> returns 0 when it takes it out, before the input that comes later.
\<close>

datatype win_message = Clicked nat string | WmClose | WmOther

definition kEditId :: nat where "kEditId = 101"
definition kCreateId :: nat where "kCreateId = 102"
definition kJoinId :: nat where "kJoinId = 103"
definition kCancelId :: nat where "kCancelId = 104"
definition kErrorOkId :: nat where "kErrorOkId = 105"

text \<open>What \<open>WM_CREATE\<close> and \<open>showRoomError\<close> put into the windows: class, text, place and number of each control.\<close>

record control =
  ct_class :: string
  ct_text :: string
  ct_place :: button_bounds
  ct_id :: "nat option"

definition control_at :: "string \<Rightarrow> string \<Rightarrow> int \<times> int \<times> int \<times> int \<Rightarrow> nat option \<Rightarrow> control" where
  "control_at c t = (\<lambda>(x, y, w, h) n. \<lparr>ct_class = c, ct_text = t, ct_place = \<lparr>bb_x = x, bb_y = y, bb_width = w, bb_height = h\<rparr>, ct_id = n\<rparr>)"

definition dialogControls :: "control list" where
  "dialogControls =
     [control_at ''STATIC'' ''Room name (English letters/digits):'' (20, 20, 260, 20) None,
      control_at ''EDIT'' [] (20, 45, 260, 24) (Some kEditId),
      control_at ''BUTTON'' ''Create'' (20, 85, 80, 30) (Some kCreateId),
      control_at ''BUTTON'' ''Join'' (110, 85, 80, 30) (Some kJoinId),
      control_at ''BUTTON'' ''Cancel'' (200, 85, 80, 30) (Some kCancelId)]"

definition errorControls :: "string \<Rightarrow> control list" where
  "errorControls message =
     [control_at ''STATIC'' message (20, 20, 260, 40) None, control_at ''BUTTON'' ''OK'' (110, 70, 80, 30) (Some kErrorOkId)]"

text \<open>\<open>DestroyWindow\<close> sends \<open>WM_DESTROY\<close>, whose case posts the quit message.\<close>

definition finishWindow :: "string \<Rightarrow> dialog_action \<Rightarrow> room_dialog \<times> bool \<Rightarrow> room_dialog \<times> bool" where
  "finishWindow typed action = (\<lambda>(d, quit). let d' = finish typed action d in (d', quit \<or> \<not> rd_open d'))"

definition dialogWndProc :: "win_message \<Rightarrow> room_dialog \<times> bool \<Rightarrow> room_dialog \<times> bool" where
  "dialogWndProc m s =
     (case m of
        Clicked ident typed \<Rightarrow>
          if ident = kCreateId then finishWindow typed CreateRoom s
          else if ident = kJoinId then finishWindow typed JoinRoomAction s
          else if ident = kCancelId then finishWindow typed CancelDialog s
          else s
      | WmClose \<Rightarrow> finishWindow [] CancelDialog s
      | WmOther \<Rightarrow> s)"

definition errorWndProc :: "win_message \<Rightarrow> bool \<times> bool \<Rightarrow> bool \<times> bool" where
  "errorWndProc m = (\<lambda>(isOpen, quit).
     case m of
        Clicked ident typed \<Rightarrow> if ident = kErrorOkId then (False, True) else (isOpen, quit)
      | WmClose \<Rightarrow> (False, True)
      | WmOther \<Rightarrow> (isOpen, quit))"

text \<open>
  The loop: \<open>None\<close> is to wait for more messages, otherwise the window, whether a quit message is waiting, and the
  messages that have not been taken.
\<close>

fun messageLoop :: "(win_message \<Rightarrow> 'd \<times> bool \<Rightarrow> 'd \<times> bool) \<Rightarrow> ('d \<Rightarrow> bool) \<Rightarrow> win_message list \<Rightarrow> 'd \<times> bool \<Rightarrow>
    (('d \<times> bool) \<times> win_message list) option" where
  "messageLoop wndProc isWindow [] (d, quit) = (if quit then Some ((d, False), []) else None)"
| "messageLoop wndProc isWindow (m # ms) (d, quit) =
     (if quit then Some ((d, False), m # ms)
      else let s = wndProc m (d, quit) in if \<not> isWindow (fst s) then Some (s, ms) else messageLoop wndProc isWindow ms s)"

definition roomDialogLoop :: "bool \<Rightarrow> win_message list \<Rightarrow> ((room_dialog \<times> bool) \<times> win_message list) option" where
  "roomDialogLoop quit msgs = messageLoop dialogWndProc rd_open msgs (newDialog, quit)"

definition showRoomError :: "bool \<Rightarrow> win_message list \<Rightarrow> ((bool \<times> bool) \<times> win_message list) option" where
  "showRoomError quit msgs = messageLoop errorWndProc id msgs (True, quit)"

section \<open>The picture of the home screen\<close>

datatype home_icon = PlayIcon | RoomIcon

type_synonym colour3 = "int \<times> int \<times> int"

datatype home_op =
    FilledRect button_bounds colour3
  | OutlineRect button_bounds colour3 int
  | Stroke "int \<times> int" "int \<times> int" colour3 int
  | FilledPoly "(int \<times> int) list" colour3
  | Dot "int \<times> int" int colour3
  | Label string "int \<times> int" rat colour3 int

definition kHomeWindowWidth :: int where "kHomeWindowWidth = 800"
definition kHomeWindowHeight :: int where "kHomeWindowHeight = 500"
definition kBgCenter :: colour3 where "kBgCenter = (34, 31, 28)"
definition kBgEdge :: colour3 where "kBgEdge = (12, 11, 10)"
definition kAccent :: colour3 where "kAccent = (58, 168, 214)"
definition kCream :: colour3 where "kCream = (232, 236, 238)"
definition kButtonFill :: colour3 where "kButtonFill = (52, 47, 44)"
definition kButtonFillHover :: colour3 where "kButtonFillHover = (70, 63, 58)"
definition kBevelLight :: colour3 where "kBevelLight = (92, 84, 78)"
definition kBevelDark :: colour3 where "kBevelDark = (18, 16, 14)"

text \<open>One channel of one pixel of the background, with real numbers for the doubles; \<open>mid\<close> and \<open>edge\<close> are the channel's two values.\<close>

definition vignette :: "int \<Rightarrow> int \<Rightarrow> int \<Rightarrow> int \<Rightarrow> int \<Rightarrow> int \<Rightarrow> int" where
  "vignette cols rows mid edge x y =
     (let cx = cols div 2; cy = rows div 2; maxDist = sqrt (of_int (cx * cx + cy * cy));
          dx = x - cx; dy = y - cy; t = min 1 (sqrt (of_int (dx * dx + dy * dy)) / maxDist)
      in \<lfloor>of_int mid * (1 - t) + of_int edge * t\<rfloor>)"

definition drawTitle :: "(string \<Rightarrow> int) \<Rightarrow> home_op list" where
  "drawTitle textWidth =
     (let title = ''KUNG FU CHESS''; width = textWidth title; x = (kHomeWindowWidth - width) sdiv 2; y = 90
      in [Label title (x + 2, y + 2) (16/10) (0, 0, 0) 3, Label title (x, y) (16/10) kCream 3,
          Stroke (x, y + 18) (x + width, y + 18) kAccent 2])"

definition drawIcon :: "button_bounds \<Rightarrow> home_icon \<Rightarrow> home_op list" where
  "drawIcon b icon =
     (let cx = bb_x b + 34; cy = bb_y b + bb_height b sdiv 2
      in case icon of
           PlayIcon \<Rightarrow> [FilledPoly [(cx - 8, cy - 12), (cx - 8, cy + 12), (cx + 12, cy)] kCream]
         | RoomIcon \<Rightarrow> [OutlineRect \<lparr>bb_x = cx - 10, bb_y = cy - 14, bb_width = 20, bb_height = 28\<rparr> kCream 2, Dot (cx + 4, cy) 2 kCream])"

definition drawButton :: "button_bounds \<Rightarrow> string \<Rightarrow> home_icon \<Rightarrow> bool \<Rightarrow> home_op list" where
  "drawButton b label icon hovered =
     (let left = bb_x b; top = bb_y b; right = bb_x b + bb_width b; bottom = bb_y b + bb_height b
      in [FilledRect b (if hovered then kButtonFillHover else kButtonFill),
          Stroke (left, top) (right, top) kBevelLight 2, Stroke (left, top) (left, bottom) kBevelLight 2,
          Stroke (left, bottom) (right, bottom) kBevelDark 2, Stroke (right, top) (right, bottom) kBevelDark 2,
          OutlineRect b kAccent (if hovered then 2 else 1)] @
         drawIcon b icon @
         [Label label (left + 62, top + bb_height b sdiv 2 + 8) (8/10) kCream 1])"

text \<open>What one turn of the loop draws over the background.\<close>

definition homeFrame :: "(string \<Rightarrow> int) \<Rightarrow> home \<Rightarrow> home_op list" where
  "homeFrame textWidth h =
     (let hovered = hitTest (fst (hm_mousePos h)) (snd (hm_mousePos h))
      in drawTitle textWidth @
         drawButton playButtonBounds ''PLAY'' PlayIcon (hovered = PlayChoice) @
         drawButton roomButtonBounds ''ROOM'' RoomIcon (hovered = RoomChoice) @
         (if hm_searching h then [Label ''Searching for opponent...'' (220, 420) (7/10) kAccent 2] else []))"

section \<open>Laws of the loops\<close>

fun asEvent :: "win_message \<Rightarrow> (string \<times> dialog_action option) list" where
  "asEvent (Clicked ident typed) =
     (if ident = kCreateId then [(typed, Some CreateRoom)] else if ident = kJoinId then [(typed, Some JoinRoomAction)]
      else if ident = kCancelId then [(typed, Some CancelDialog)] else [])"
| "asEvent WmClose = [([], None)]"
| "asEvent WmOther = []"

lemma dialogWndProc_event:
  assumes "rd_open d"
  shows "dialogWndProc m (d, False) = (let d' = fold dialogEvent (asEvent m) d in (d', \<not> rd_open d'))"
  using assms by (cases m) (auto simp: dialogWndProc_def finishWindow_def dialogEvent_def Let_def)

lemma messageLoop_dialog:
  assumes "messageLoop dialogWndProc rd_open msgs (d, False) = Some ((d', quit), rest)" "rd_open d"
  shows "\<exists>used. msgs = used @ rest \<and> d' = fold dialogEvent (concat (map asEvent used)) d \<and> \<not> rd_open d' \<and> quit"
  using assms
proof (induction msgs arbitrary: d)
  case (Cons m ms)
  let ?d = "fold dialogEvent (asEvent m) d"
  have p: "dialogWndProc m (d, False) = (?d, \<not> rd_open ?d)" using dialogWndProc_event [OF Cons.prems(2)] by (simp add: Let_def)
  show ?case
  proof (cases "rd_open ?d")
    case True
    then have "messageLoop dialogWndProc rd_open ms (?d, False) = Some ((d', quit), rest)" using Cons.prems(1) p by simp
    from Cons.IH [OF this True] obtain used where "ms = used @ rest" "d' = fold dialogEvent (concat (map asEvent used)) ?d" "\<not> rd_open d' \<and> quit"
      by blast
    then show ?thesis by (intro exI [of _ "m # used"]) simp
  next
    case False
    then show ?thesis using Cons.prems(1) p by (intro exI [of _ "[m]"]) auto
  qed
qed simp

text \<open>When the dialog returns, it has done what its events say, and a quit message is waiting.\<close>

lemma roomDialogLoop_refines:
  assumes "roomDialogLoop False msgs = Some ((d, quit), rest)"
  shows "\<exists>used. msgs = used @ rest \<and> d = showRoomDialog (concat (map asEvent used)) \<and> \<not> rd_open d \<and> quit"
  using messageLoop_dialog [OF assms [unfolded roomDialogLoop_def]] by (simp add: showRoomDialog_def newDialog_def)

lemma roomDialogLoop_cancel: "\<exists>s rest. roomDialogLoop False (msgs @ [WmClose]) = Some (s, rest)"
proof -
  have "\<exists>s rest. messageLoop dialogWndProc rd_open (msgs @ [WmClose]) (d, False) = Some (s, rest)" if "rd_open d" for d
    using that
  proof (induction msgs arbitrary: d)
    case Nil
    then have "dialogWndProc WmClose (d, False) = (finish [] CancelDialog d, True)" "\<not> rd_open (finish [] CancelDialog d)"
      by (simp_all add: dialogWndProc_def finishWindow_def finish_def)
    then show ?case by auto
  next
    case (Cons m ms)
    show ?case
      using Cons.IH [of "fold dialogEvent (asEvent m) d"] dialogWndProc_event [OF Cons.prems, of m] by (auto simp: Let_def)
  qed
  then show ?thesis by (simp add: roomDialogLoop_def newDialog_def)
qed

text \<open>
  A popup that follows without another message loop in between, as after a refused request for a room, takes the
  quit message: it returns at once, with its window on the screen and nothing dispatched.
\<close>

lemma showRoomError_quit: "showRoomError True msgs = Some ((True, False), msgs)"
  by (cases msgs) (simp_all add: showRoomError_def)

lemma error_does_not_wait:
  assumes "roomDialogLoop False msgs = Some ((d, quit), rest)"
  shows "showRoomError quit next_msgs = Some ((True, False), next_msgs)"
  using roomDialogLoop_refines [OF assms] showRoomError_quit by auto

text \<open>Otherwise it waits until the user has closed it.\<close>

lemma showRoomError_waits:
  assumes "showRoomError False msgs = Some ((isOpen, quit), rest)"
  shows "\<not> isOpen \<and> quit \<and> (WmClose \<in> set msgs \<or> (\<exists>typed. Clicked kErrorOkId typed \<in> set msgs))"
  using assms unfolding showRoomError_def
  by (induction msgs) (auto simp: errorWndProc_def Let_def split: win_message.splits if_splits)

text \<open>The controls do not overlap, and the procedures react to the buttons and to nothing else.\<close>

definition apart :: "control \<Rightarrow> control \<Rightarrow> bool" where
  "apart c d \<longleftrightarrow> (let a = ct_place c; b = ct_place d
     in bb_x a + bb_width a \<le> bb_x b \<or> bb_x b + bb_width b \<le> bb_x a \<or> bb_y a + bb_height a \<le> bb_y b \<or> bb_y b + bb_height b \<le> bb_y a)"

lemma controls_apart: "sorted_wrt apart dialogControls" "sorted_wrt apart (errorControls message)"
  by (simp_all add: dialogControls_def errorControls_def control_at_def apart_def)

definition buttonIds :: "control list \<Rightarrow> nat option list" where
  "buttonIds cs = map ct_id (filter (\<lambda>c. ct_class c = ''BUTTON'') cs)"

lemma buttonIds_windows:
  "buttonIds dialogControls = [Some kCreateId, Some kJoinId, Some kCancelId]" "buttonIds (errorControls message) = [Some kErrorOkId]"
  by (simp_all add: buttonIds_def dialogControls_def errorControls_def control_at_def)

lemma buttons_react:
  "asEvent (Clicked ident typed) \<noteq> [] \<longleftrightarrow> Some ident \<in> set (buttonIds dialogControls)"
  "errorWndProc (Clicked ident typed) (True, False) \<noteq> (True, False) \<longleftrightarrow> Some ident \<in> set (buttonIds (errorControls message))"
  by (simp_all add: buttonIds_windows errorWndProc_def)

section \<open>Laws of the picture\<close>

lemma highlighted:
  "FilledRect b kButtonFillHover \<in> set (homeFrame textWidth h) \<longleftrightarrow>
     b = playButtonBounds \<and> hitTest (fst (hm_mousePos h)) (snd (hm_mousePos h)) = PlayChoice \<or>
     b = roomButtonBounds \<and> hitTest (fst (hm_mousePos h)) (snd (hm_mousePos h)) = RoomChoice"
  by (auto simp: homeFrame_def drawTitle_def drawButton_def drawIcon_def Let_def kButtonFill_def kButtonFillHover_def)

text \<open>After a click at a point the highlighted button is the one around the point, and it is the choice that waits.\<close>

lemma click_highlighted:
  assumes "FilledRect b kButtonFillHover \<in> set (homeFrame textWidth (onHomeMouseEvent LButtonDown x y h))"
  shows "containsPoint b x y \<and>
    hm_pendingChoice (onHomeMouseEvent LButtonDown x y h) = (if b = playButtonBounds then PlayChoice else RoomChoice)"
  using assms hitTest_iff [of x y]
  by (auto simp: highlighted onHomeMouseEvent_def Let_def playButtonBounds_def roomButtonBounds_def)

fun op_points :: "home_op \<Rightarrow> (int \<times> int) list" where
  "op_points (FilledRect b c) = [(bb_x b, bb_y b), (bb_x b + bb_width b, bb_y b + bb_height b)]"
| "op_points (OutlineRect b c n) = [(bb_x b - n, bb_y b - n), (bb_x b + bb_width b + n, bb_y b + bb_height b + n)]"
| "op_points (Stroke p q c n) = [(fst p - n, snd p - n), (fst p + n, snd p + n), (fst q - n, snd q - n), (fst q + n, snd q + n)]"
| "op_points (FilledPoly ps c) = ps"
| "op_points (Dot p r c) = [(fst p - r, snd p - r), (fst p + r, snd p + r)]"
| "op_points (Label s p f c n) = [p]"

definition in_window :: "int \<times> int \<Rightarrow> bool" where
  "in_window p \<longleftrightarrow> 0 \<le> fst p \<and> fst p \<le> kHomeWindowWidth \<and> 0 \<le> snd p \<and> snd p \<le> kHomeWindowHeight"

lemma buttons_in_window:
  "list_all (list_all in_window \<circ> op_points) (drawButton playButtonBounds ''PLAY'' PlayIcon hovered)"
  "list_all (list_all in_window \<circ> op_points) (drawButton roomButtonBounds ''ROOM'' RoomIcon hovered)"
  by (simp_all add: drawButton_def drawIcon_def playButtonBounds_def roomButtonBounds_def in_window_def kHomeWindowWidth_def
    kHomeWindowHeight_def signed_divide_int_def Let_def)

lemma title_in_window:
  assumes "0 \<le> textWidth ''KUNG FU CHESS''" "textWidth ''KUNG FU CHESS'' \<le> 790"
  shows "list_all (list_all in_window \<circ> op_points) (drawTitle textWidth)"
proof -
  let ?w = "textWidth ''KUNG FU CHESS''"
  have "5 \<le> (kHomeWindowWidth - ?w) sdiv 2" "(kHomeWindowWidth - ?w) sdiv 2 + ?w \<le> 797"
    using assms by (simp_all add: kHomeWindowWidth_def signed_divide_int_def)
  then show ?thesis using assms(1) by (simp add: drawTitle_def Let_def in_window_def kHomeWindowWidth_def kHomeWindowHeight_def)
qed

lemma frame_in_window:
  assumes "0 \<le> textWidth ''KUNG FU CHESS''" "textWidth ''KUNG FU CHESS'' \<le> 790"
  shows "list_all (list_all in_window \<circ> op_points) (homeFrame textWidth h)"
  using title_in_window [of textWidth, OF assms] buttons_in_window
  by (simp add: homeFrame_def Let_def in_window_def kHomeWindowWidth_def kHomeWindowHeight_def)

text \<open>A channel lies between its two values, so the cast to a byte loses nothing.\<close>

lemma vignette_between:
  assumes "edge \<le> mid"
  shows "edge \<le> vignette cols rows mid edge x y \<and> vignette cols rows mid edge x y \<le> mid"
proof -
  define t where "t = min 1 (sqrt (of_int ((x - cols div 2) * (x - cols div 2) + (y - rows div 2) * (y - rows div 2))) /
    sqrt (of_int ((cols div 2) * (cols div 2) + (rows div 2) * (rows div 2))))"
  have t: "0 \<le> t" "t \<le> 1" by (simp_all add: t_def)
  have d: "0 \<le> real_of_int (mid - edge)" using assms by simp
  have "of_int mid * (1 - t) + of_int edge * t = of_int edge + real_of_int (mid - edge) * (1 - t)" by (simp add: algebra_simps)
  then have v: "vignette cols rows mid edge x y = \<lfloor>of_int edge + real_of_int (mid - edge) * (1 - t)\<rfloor>"
    by (simp only: vignette_def Let_def t_def [symmetric])
  have "real_of_int (mid - edge) * (1 - t) \<le> real_of_int (mid - edge) * 1" by (rule mult_left_mono) (use d t in auto)
  then have "of_int edge + real_of_int (mid - edge) * (1 - t) \<le> of_int mid" by simp
  moreover have "of_int edge \<le> of_int edge + real_of_int (mid - edge) * (1 - t)" using d t by simp
  ultimately show ?thesis unfolding v by (metis floor_mono floor_of_int)
qed

lemma background_bytes:
  "vignette kHomeWindowWidth kHomeWindowHeight (fst kBgCenter) (fst kBgEdge) x y \<in> {0..255}"
  "vignette kHomeWindowWidth kHomeWindowHeight (fst (snd kBgCenter)) (fst (snd kBgEdge)) x y \<in> {0..255}"
  "vignette kHomeWindowWidth kHomeWindowHeight (snd (snd kBgCenter)) (snd (snd kBgEdge)) x y \<in> {0..255}"
  using vignette_between [of 12 34 kHomeWindowWidth kHomeWindowHeight x y] vignette_between [of 11 31 kHomeWindowWidth kHomeWindowHeight x y]
    vignette_between [of 10 28 kHomeWindowWidth kHomeWindowHeight x y]
  by (auto simp: kBgCenter_def kBgEdge_def)

end
