(* ===== verification/Shard.thy ===== *)
theory Shard
  imports Handlers_Laws
begin

text \<open>
  A running shard: the tick loop and the wiring of \<open>server/net/WsServer.cpp\<close>, the thread pool of
  \<open>server/concurrency/ThreadPool.cpp\<close>, and the delivery of what a session publishes to the
  subscribers of its topics. A worker and the event loop hold a raw pointer to a session; using
  it when no room owns that session any more would be a use after free.

  The steps of the shard are atomic: the model says nothing about data races between the event
  loop and a worker that works on the same session.
\<close>

section \<open>State\<close>

record job =
  jb_room :: string
  jb_session :: nat

record shard =
  sh_server :: server
  sh_queue :: "job list"
  sh_running :: "job list"
  sh_posts :: "(job \<times> json) list"
  sh_down :: bool

definition sessionAt :: "nat \<Rightarrow> registry \<Rightarrow> (string \<times> room) option" where
  "sessionAt p reg = find (\<lambda>(n, r). r_session_ptr r = p) (reg_rooms reg)"

section \<open>The tick loop\<close>

definition submit :: "job \<Rightarrow> job list \<Rightarrow> job list" where
  "submit j q = q @ [j]"

definition tickRoom :: "client_sessions \<Rightarrow> string \<Rightarrow> registry \<times> job list \<Rightarrow> registry \<times> job list" where
  "tickRoom cs name = (\<lambda>(reg, q).
     (case map_of (reg_rooms reg) name of
        None \<Rightarrow> (reg, q)
      | Some r \<Rightarrow>
          let s1 = setIdentity (resolveIdentity reg cs name) (r_session r);
              (ok, s2) = tryBeginTick s1
          in if ok then (withSession name (\<lambda>_. s2) reg, submit \<lparr>jb_room = name, jb_session = r_session_ptr r\<rparr> q)
             else (withSession name (\<lambda>_. s1) reg, q)))"

definition onTick :: "(nat \<Rightarrow> nat list) \<Rightarrow> client_sessions \<Rightarrow> registry \<times> job list \<Rightarrow> registry \<times> job list" where
  "onTick ord cs st = fold (tickRoom cs) (roomNames ord (fst st)) st"

text \<open>A worker takes the first job of the queue.\<close>

definition takeJob :: "job list \<Rightarrow> (job \<times> job list) option" where
  "takeJob q = (case q of [] \<Rightarrow> None | j # js \<Rightarrow> Some (j, js))"

section \<open>Delivery\<close>

datatype call =
    Sent conn string
  | Recorded game_record
  | Mirrored mirrored
  | MirrorCleared string
  | UseAfterFree nat

definition runSubscriber :: "environment \<Rightarrow> subscriber \<Rightarrow> json \<Rightarrow> server \<Rightarrow> (call list \<times> server) \<times> json_error option" where
  "runSubscriber env s data sv =
     (case s of
        Broadcaster b name \<Rightarrow>
          if alive (sv_hub sv) s
          then ((map (\<lambda>(h, t). Sent h t) (broadcast (env_dump env) (sv_registry sv) name data), sv), None)
          else (([UseAfterFree b], sv), None)
      | RateGame \<Rightarrow>
          (case eloGameEnded data (sv_users sv) of
             Inl ex \<Rightarrow> (([], sv), Some ex)
           | Inr us \<Rightarrow> (([], sv\<lparr>sv_users := us\<rparr>), None))
      | RecordGame name \<Rightarrow>
          (case historyGameEnded (env_gameHistory env) name data of
             Inl ex \<Rightarrow> (([], sv), Some ex)
           | Inr None \<Rightarrow> (([], sv), None)
           | Inr (Some r) \<Rightarrow> (([Recorded r], sv), None))
      | MirrorRoom name \<Rightarrow>
          (case mirror (env_dump env) (env_gameStateStore env) name (sv_registry sv) of
             Inl ex \<Rightarrow> (([], sv), Some ex)
           | Inr None \<Rightarrow> (([], sv), None)
           | Inr (Some m) \<Rightarrow> (([Mirrored m], sv), None))
      | ClearMirror name \<Rightarrow> ((if env_gameStateStore env then [MirrorCleared name] else [], sv), None))"

fun runSubscribers :: "environment \<Rightarrow> (subscriber \<times> json) list \<Rightarrow> server \<Rightarrow> (call list \<times> server) \<times> json_error option" where
  "runSubscribers env [] sv = (([], sv), None)"
| "runSubscribers env ((s, data) # rest) sv =
     (case runSubscriber env s data sv of
        ((out, sv1), Some ex) \<Rightarrow> ((out, sv1), Some ex)
      | ((out, sv1), None) \<Rightarrow> (case runSubscribers env rest sv1 of ((out', sv2), ex) \<Rightarrow> ((out @ out', sv2), ex)))"

definition deliverOne :: "environment \<Rightarrow> string \<Rightarrow> outgoing \<Rightarrow> server \<Rightarrow> (call list \<times> server) \<times> json_error option" where
  "deliverOne env roomName out sv =
     (case out of
        Published topic data \<Rightarrow> runSubscribers env (publish (hub_bus (sv_hub sv)) topic data) sv
      | SnapshotSent t \<Rightarrow> ((map (\<lambda>h. Sent h t) (connectionsInRoom roomName (sv_registry sv)), sv), None))"

fun deliverAll :: "environment \<Rightarrow> string \<Rightarrow> outgoing list \<Rightarrow> server \<Rightarrow> (call list \<times> server) \<times> json_error option" where
  "deliverAll env roomName [] sv = (([], sv), None)"
| "deliverAll env roomName (x # xs) sv =
     (case deliverOne env roomName x sv of
        ((out, sv1), Some ex) \<Rightarrow> ((out, sv1), Some ex)
      | ((out, sv1), None) \<Rightarrow> (case deliverAll env roomName xs sv1 of ((out', sv2), ex) \<Rightarrow> ((out @ out', sv2), ex)))"

text \<open>The closure a worker posts to the event loop; \<open>None\<close> is a use after free.\<close>

definition deliverTick :: "environment \<Rightarrow> job \<Rightarrow> json \<Rightarrow> server \<Rightarrow> ((call list \<times> server) \<times> json_error option) option" where
  "deliverTick env j data sv =
     (case sessionAt (jb_session j) (sv_registry sv) of
        None \<Rightarrow> None
      | Some (name, r) \<Rightarrow>
          let ((out, s1), ex) = publishStep (env_dump env) data (r_session r);
              sv1 = sv\<lparr>sv_registry := withSession name (\<lambda>_. s1) (sv_registry sv)\<rparr>;
              ((calls, sv2), ex') = deliverAll env name out sv1
          in Some (if ex \<noteq> None \<or> ex' \<noteq> None then ((calls, sv2), if ex' \<noteq> None then ex' else ex)
             else let reg1 = withSession name endTick (sv_registry sv2);
                      (fx, reg2) = reapIfSafe (jb_room j) reg1
                  in ((calls, sv2\<lparr>sv_registry := reg2\<rparr>), None)))"

text \<open>What a worker does with a job.\<close>

definition computeJob :: "environment \<Rightarrow> orders \<Rightarrow> int \<Rightarrow> job \<Rightarrow> registry \<Rightarrow> (json_error + (json \<times> registry)) option" where
  "computeJob env ords tickMs j reg =
     (case sessionAt (jb_session j) reg of
        None \<Rightarrow> None
      | Some (name, r) \<Rightarrow>
          Some (sbind (computeStep (env_dump env) (env_parse env) ords tickMs (r_session r)) (\<lambda>(data, s').
            Inr (data, withSession name (\<lambda>_. s') reg))))"

text \<open>A countdown timer fires; a result it reports reaches the subscribers.\<close>

definition sessionOuts :: "effect list \<Rightarrow> outgoing list" where
  "sessionOuts fx = concat (map (\<lambda>e. case e of SessionOut x \<Rightarrow> [x] | _ \<Rightarrow> []) fx)"

definition timerFired :: "environment \<Rightarrow> bool \<Rightarrow> nat \<Rightarrow> server \<Rightarrow> (call list \<times> server) \<times> json_error option" where
  "timerFired env ec t sv =
     (let ((fx, reg), ex) = countdownHandler ec t (sv_registry sv);
          name = (case map_of (reg_countdowns (sv_registry sv)) t of None \<Rightarrow> [] | Some cd \<Rightarrow> cd_roomName cd);
          ((calls, sv1), ex') = deliverAll env name (sessionOuts fx) (sv\<lparr>sv_registry := reg\<rparr>)
      in ((calls, sv1), if ex' \<noteq> None then ex' else ex))"

section \<open>The steps of a shard\<close>

text \<open>
  An exception that leaves a closure of the event loop leaves \<open>server.run()\<close> and ends the process,
  as does one that leaves a worker thread.
\<close>

definition onServer :: "shard \<Rightarrow> server \<Rightarrow> shard" where
  "onServer sh sv = sh\<lparr>sh_server := sv\<rparr>"

inductive shard_step :: "environment \<Rightarrow> shard \<Rightarrow> shard \<Rightarrow> bool" for env where
  tick: "\<not> sh_down sh \<Longrightarrow> iteration_order ord \<Longrightarrow>
    onTick ord (sv_clients (sh_server sh)) (sv_registry (sh_server sh), sh_queue sh) = (reg, q) \<Longrightarrow>
    shard_step env sh (sh\<lparr>sh_server := (sh_server sh)\<lparr>sv_registry := reg\<rparr>, sh_queue := q\<rparr>)"
| take: "\<not> sh_down sh \<Longrightarrow> takeJob (sh_queue sh) = Some (j, q) \<Longrightarrow>
    shard_step env sh (sh\<lparr>sh_queue := q, sh_running := sh_running sh @ [j]\<rparr>)"
| compute: "\<not> sh_down sh \<Longrightarrow> sh_running sh = js @ j # js' \<Longrightarrow> orders_ok ords \<Longrightarrow> 0 \<le> tickMs \<Longrightarrow>
    computeJob env ords tickMs j (sv_registry (sh_server sh)) = Some (Inr (data, reg)) \<Longrightarrow>
    shard_step env sh (sh\<lparr>sh_server := (sh_server sh)\<lparr>sv_registry := reg\<rparr>, sh_running := js @ js', sh_posts := sh_posts sh @ [(j, data)]\<rparr>)"
| crash: "\<not> sh_down sh \<Longrightarrow> sh_running sh = js @ j # js' \<Longrightarrow>
    computeJob env ords tickMs j (sv_registry (sh_server sh)) = Some (Inl ex) \<Longrightarrow> shard_step env sh (sh\<lparr>sh_down := True\<rparr>)"
| deliver: "\<not> sh_down sh \<Longrightarrow> sh_posts sh = ps @ (j, data) # ps' \<Longrightarrow>
    deliverTick env j data (sh_server sh) = Some ((calls, sv), None) \<Longrightarrow>
    shard_step env sh (sh\<lparr>sh_server := sv, sh_posts := ps @ ps'\<rparr>)"
| deliver_throws: "\<not> sh_down sh \<Longrightarrow> sh_posts sh = ps @ (j, data) # ps' \<Longrightarrow>
    deliverTick env j data (sh_server sh) = Some ((calls, sv), Some ex) \<Longrightarrow>
    shard_step env sh (sh\<lparr>sh_server := sv, sh_down := True\<rparr>)"
| msg: "\<not> sh_down sh \<Longrightarrow> process env hdl t (sh_server sh) = (Inr reply, out, sv) \<Longrightarrow> shard_step env sh (onServer sh sv)"
| msg_throws: "\<not> sh_down sh \<Longrightarrow> process env hdl t (sh_server sh) = (Inl ex, out, sv) \<Longrightarrow>
    shard_step env sh ((onServer sh sv)\<lparr>sh_down := True\<rparr>)"
| close: "\<not> sh_down sh \<Longrightarrow> onClose env hdl (sh_server sh) = (out, sv) \<Longrightarrow> shard_step env sh (onServer sh sv)"
| allocate: "\<not> sh_down sh \<Longrightarrow> doAllocate request (sh_server sh) = Inr (reply, out, sv) \<Longrightarrow> shard_step env sh (onServer sh sv)"
| allocate_throws: "\<not> sh_down sh \<Longrightarrow> doAllocate request (sh_server sh) = Inl ex \<Longrightarrow> shard_step env sh (sh\<lparr>sh_down := True\<rparr>)"
| assigned: "\<not> sh_down sh \<Longrightarrow> handleAssigned env event (sh_server sh) = ((out, sv), ex) \<Longrightarrow>
    shard_step env sh ((onServer sh sv)\<lparr>sh_down := ex \<noteq> None\<rparr>)"
| timeout: "\<not> sh_down sh \<Longrightarrow> handleTimeout env event (sh_server sh) = ((out, sv), ex) \<Longrightarrow>
    shard_step env sh ((onServer sh sv)\<lparr>sh_down := ex \<noteq> None\<rparr>)"
| timer: "\<not> sh_down sh \<Longrightarrow> map_of (reg_countdowns (sv_registry (sh_server sh))) t = Some cd \<Longrightarrow> (ec \<Longrightarrow> cd_cancelled cd) \<Longrightarrow>
    timerFired env ec t (sh_server sh) = ((calls, sv), ex) \<Longrightarrow> shard_step env sh ((onServer sh sv)\<lparr>sh_down := ex \<noteq> None\<rparr>)"

inductive shard_reachable :: "environment \<Rightarrow> shard \<Rightarrow> shard \<Rightarrow> bool" for env where
  start: "shard_reachable env sh sh"
| next_step: "shard_reachable env sh sh' \<Longrightarrow> shard_step env sh' sh'' \<Longrightarrow> shard_reachable env sh sh''"

definition newShard :: "bool \<Rightarrow> string \<Rightarrow> bool \<Rightarrow> users \<Rightarrow> shard" where
  "newShard directory addr reconnectStore us =
     \<lparr>sh_server = \<lparr>sv_registry = newRegistry directory addr reconnectStore, sv_clients = [], sv_tickets = newTickets addr,
        sv_hub = \<lparr>hub_bus = [], hub_broadcasters = [], hub_next = 0\<rparr>, sv_users = us, sv_idCounter = 1\<rparr>,
      sh_queue = [], sh_running = [], sh_posts = [], sh_down = False\<rparr>"

end
