(* ===== verification/Thread_Pool.thy ===== *)
theory Thread_Pool
  imports Shard
begin

text \<open>
  The thread pool (\<open>server/concurrency/ThreadPool.cpp\<close>) with its workers and its destructor. Every
  section of code that holds the mutex is one step, and so is the end of a job. The lemmas: jobs
  are started in the order of submission and each once, the destructor waits for all of them, and
  it does not wait for ever.
\<close>

section \<open>The pool\<close>

datatype 'j worker = Waiting | Running 'j | Exited

record 'j thread_pool =
  tp_jobs :: "'j list"
  tp_stopping :: bool
  tp_workers :: "'j worker list"

definition newThreadPool :: "nat \<Rightarrow> 'j thread_pool" where
  "newThreadPool threadCount =
     \<lparr>tp_jobs = [], tp_stopping = False, tp_workers = replicate (if threadCount = 0 then 1 else threadCount) Waiting\<rparr>"

definition submitJob :: "'j \<Rightarrow> 'j thread_pool \<Rightarrow> 'j thread_pool" where
  "submitJob j p = p\<lparr>tp_jobs := tp_jobs p @ [j]\<rparr>"

text \<open>
  The locked part of \<open>workerLoop\<close> for a worker that waits: \<open>None\<close> while the condition does not hold,
  then the worker either returns or takes the first job.
\<close>

definition workerLoop :: "nat \<Rightarrow> 'j thread_pool \<Rightarrow> 'j thread_pool option" where
  "workerLoop i p =
     (if i < length (tp_workers p) \<and> tp_workers p ! i = Waiting \<and> (tp_stopping p \<or> tp_jobs p \<noteq> [])
      then Some (if tp_stopping p \<and> tp_jobs p = [] then p\<lparr>tp_workers := (tp_workers p)[i := Exited]\<rparr>
                 else p\<lparr>tp_workers := (tp_workers p)[i := Running (hd (tp_jobs p))], tp_jobs := tl (tp_jobs p)\<rparr>)
      else None)"

definition jobDone :: "nat \<Rightarrow> 'j thread_pool \<Rightarrow> 'j thread_pool option" where
  "jobDone i p =
     (if i < length (tp_workers p) then
        case tp_workers p ! i of Running j \<Rightarrow> Some (p\<lparr>tp_workers := (tp_workers p)[i := Waiting]\<rparr>) | _ \<Rightarrow> None
      else None)"

text \<open>The destructor sets the flag and then joins every worker; it returns when all have returned.\<close>

definition stopPool :: "'j thread_pool \<Rightarrow> 'j thread_pool" where
  "stopPool p = p\<lparr>tp_stopping := True\<rparr>"

definition allJoined :: "'j thread_pool \<Rightarrow> bool" where
  "allJoined p \<longleftrightarrow> list_all (\<lambda>w. w = Exited) (tp_workers p)"

section \<open>Runs\<close>

datatype 'j pool_event = Submit 'j | Stop | Pass nat | Done nat

fun pool_step :: "'j pool_event \<Rightarrow> 'j thread_pool \<Rightarrow> 'j thread_pool option" where
  "pool_step (Submit j) p = Some (submitJob j p)"
| "pool_step Stop p = Some (stopPool p)"
| "pool_step (Pass i) p = workerLoop i p"
| "pool_step (Done i) p = jobDone i p"

text \<open>The jobs a step starts and those it finishes.\<close>

fun startedBy :: "'j pool_event \<Rightarrow> 'j thread_pool \<Rightarrow> 'j list" where
  "startedBy (Pass i) p = take 1 (tp_jobs p)"
| "startedBy _ p = []"

fun finishedBy :: "'j pool_event \<Rightarrow> 'j thread_pool \<Rightarrow> 'j list" where
  "finishedBy (Done i) p = (case tp_workers p ! i of Running j \<Rightarrow> [j] | _ \<Rightarrow> [])"
| "finishedBy _ p = []"

fun submittedBy :: "'j pool_event \<Rightarrow> 'j list" where
  "submittedBy (Submit j) = [j]"
| "submittedBy _ = []"

text \<open>A run, with the jobs it has started and finished in the order it did so.\<close>

fun pool_run :: "'j pool_event list \<Rightarrow> 'j thread_pool \<Rightarrow> ('j list \<times> 'j list \<times> 'j thread_pool) option" where
  "pool_run [] p = Some ([], [], p)"
| "pool_run (ev # evs) p =
     (case pool_step ev p of
        None \<Rightarrow> None
      | Some p1 \<Rightarrow> map_option (\<lambda>(ss, fs, p2). (startedBy ev p @ ss, finishedBy ev p @ fs, p2)) (pool_run evs p1))"

definition runningJobs :: "'j worker list \<Rightarrow> 'j multiset" where
  "runningJobs ws = sum_list (map (\<lambda>w. case w of Running j \<Rightarrow> {#j#} | _ \<Rightarrow> {#}) ws)"

lemma runningJobs_update:
  assumes "i < length ws"
  shows "runningJobs (ws[i := w]) + (case ws ! i of Running j \<Rightarrow> {#j#} | _ \<Rightarrow> {#}) =
    runningJobs ws + (case w of Running j \<Rightarrow> {#j#} | _ \<Rightarrow> {#})"
  using assms
proof (induction ws arbitrary: i)
  case (Cons v ws)
  then show ?case by (cases i) (auto simp: runningJobs_def ac_simps)
qed simp

lemma runningJobs_new: "runningJobs (replicate n Waiting) = {#}"
  by (induction n) (simp_all add: runningJobs_def)

lemma pool_step_jobs:
  assumes "pool_step ev p = Some p'"
  shows "tp_jobs p @ submittedBy ev = startedBy ev p @ tp_jobs p'"
    and "mset (startedBy ev p) + runningJobs (tp_workers p) = mset (finishedBy ev p) + runningJobs (tp_workers p')"
    and "length (tp_workers p') = length (tp_workers p)" "tp_stopping p \<Longrightarrow> tp_stopping p'"
proof -
  show "tp_jobs p @ submittedBy ev = startedBy ev p @ tp_jobs p'"
    using assms by (cases ev; cases "tp_jobs p")
      (auto simp: submitJob_def stopPool_def workerLoop_def jobDone_def split: if_splits worker.splits)
  show "mset (startedBy ev p) + runningJobs (tp_workers p) = mset (finishedBy ev p) + runningJobs (tp_workers p')"
  proof (cases ev)
    case (Pass i)
    then show ?thesis
      using assms runningJobs_update [of i "tp_workers p" "Running (hd (tp_jobs p))"] runningJobs_update [of i "tp_workers p" Exited]
      by (cases "tp_jobs p") (auto simp: workerLoop_def split: if_splits)
  next
    case (Done i)
    then show ?thesis
      using assms runningJobs_update [of i "tp_workers p" Waiting]
      by (auto simp: jobDone_def split: if_splits worker.splits)
  qed (use assms in \<open>auto simp: submitJob_def stopPool_def\<close>)
  show "length (tp_workers p') = length (tp_workers p)" "tp_stopping p \<Longrightarrow> tp_stopping p'"
    using assms by (cases ev; auto simp: submitJob_def stopPool_def workerLoop_def jobDone_def split: if_splits worker.splits)+
qed

lemma pool_run_jobs:
  assumes "pool_run evs p = Some (ss, fs, p')"
  shows "tp_jobs p @ concat (map submittedBy evs) = ss @ tp_jobs p' \<and>
    mset ss + runningJobs (tp_workers p) = mset fs + runningJobs (tp_workers p') \<and> length (tp_workers p') = length (tp_workers p)"
  using assms
proof (induction evs arbitrary: p ss fs)
  case (Cons ev evs)
  then obtain p1 ss1 fs1 where s: "pool_step ev p = Some p1" "pool_run evs p1 = Some (ss1, fs1, p')"
      "ss = startedBy ev p @ ss1" "fs = finishedBy ev p @ fs1" by (auto split: option.splits)
  note 1 = pool_step_jobs [OF s(1)] and 2 = Cons.IH [OF s(2)]
  have "tp_jobs p @ concat (map submittedBy (ev # evs)) = (tp_jobs p @ submittedBy ev) @ concat (map submittedBy evs)" by simp
  also have "\<dots> = startedBy ev p @ (tp_jobs p1 @ concat (map submittedBy evs))" by (simp add: 1(1))
  also have "\<dots> = ss @ tp_jobs p'" using 2 by (simp add: s(3))
  moreover have "mset ss + runningJobs (tp_workers p) = mset fs + runningJobs (tp_workers p')"
  proof -
    have "mset ss + runningJobs (tp_workers p) = mset ss1 + (mset (startedBy ev p) + runningJobs (tp_workers p))"
      by (simp add: s(3) ac_simps)
    also have "\<dots> = mset (finishedBy ev p) + (mset ss1 + runningJobs (tp_workers p1))" unfolding 1(2) by (simp add: ac_simps)
    also have "\<dots> = mset fs + runningJobs (tp_workers p')" using 2 by (simp add: s(4) ac_simps)
    finally show ?thesis .
  qed
  ultimately show ?case using 1(3) 2 by simp
qed (simp add: ac_simps)

section \<open>Stopping\<close>

text \<open>What is left to do: a queued job is taken and finished, a running one finished, and each worker returns.\<close>

definition workLeft :: "'j thread_pool \<Rightarrow> nat" where
  "workLeft p = 2 * length (tp_jobs p) + sum_list (map (\<lambda>w. case w of Waiting \<Rightarrow> 1 | Running _ \<Rightarrow> 2 | Exited \<Rightarrow> 0) (tp_workers p))"

fun is_worker_event :: "'j pool_event \<Rightarrow> bool" where
  "is_worker_event (Pass i) = True"
| "is_worker_event (Done i) = True"
| "is_worker_event _ = False"

lemma sum_list_update_nat:
  fixes f :: "'a \<Rightarrow> nat"
  assumes "i < length ws"
  shows "sum_list (map f (ws[i := w])) + f (ws ! i) = sum_list (map f ws) + f w"
  using assms
proof (induction ws arbitrary: i)
  case (Cons v ws)
  then show ?case by (cases i) auto
qed simp

lemma workLeft_decreases:
  assumes "is_worker_event ev" "pool_step ev p = Some p'"
  shows "workLeft p' < workLeft p"
proof (cases ev)
  case (Pass i)
  then have i: "i < length (tp_workers p)" "tp_workers p ! i = Waiting" using assms(2) by (auto simp: workerLoop_def split: if_splits)
  show ?thesis
    using assms(2) Pass i
      sum_list_update_nat [OF i(1), of "\<lambda>w. case w of Waiting \<Rightarrow> 1 | Running _ \<Rightarrow> 2 | Exited \<Rightarrow> 0" "Running (hd (tp_jobs p))"]
      sum_list_update_nat [OF i(1), of "\<lambda>w. case w of Waiting \<Rightarrow> 1 | Running _ \<Rightarrow> 2 | Exited \<Rightarrow> 0" Exited]
    by (cases "tp_jobs p") (auto simp: workerLoop_def workLeft_def split: if_splits)
next
  case (Done i)
  then show ?thesis
    using assms(2) sum_list_update_nat [of i "tp_workers p" "\<lambda>w. case w of Waiting \<Rightarrow> 1 | Running _ \<Rightarrow> 2 | Exited \<Rightarrow> 0" Waiting]
    by (auto simp: jobDone_def workLeft_def split: if_splits worker.splits)
qed (use assms(1) in auto)

lemma pool_run_bounded:
  assumes "list_all is_worker_event evs" "pool_run evs p = Some (ss, fs, p')"
  shows "length evs + workLeft p' \<le> workLeft p"
  using assms
proof (induction evs arbitrary: p ss fs)
  case (Cons ev evs)
  then obtain p1 ss1 fs1 where s: "pool_step ev p = Some p1" "pool_run evs p1 = Some (ss1, fs1, p')" by (auto split: option.splits)
  then show ?case using Cons workLeft_decreases [OF _ s(1)] by fastforce
qed simp

text \<open>A worker returns only when the pool is being stopped and nothing is queued.\<close>

definition exits_ok :: "'j thread_pool \<Rightarrow> bool" where
  "exits_ok p \<longleftrightarrow> tp_workers p \<noteq> [] \<and> (Exited \<in> set (tp_workers p) \<longrightarrow> tp_stopping p \<and> tp_jobs p = [])"

lemma exits_ok_step:
  assumes "exits_ok p" "pool_step ev p = Some p'" "\<not> (tp_stopping p \<and> submittedBy ev \<noteq> [])"
  shows "exits_ok p'"
  using assms
  by (cases ev)
    (auto simp: exits_ok_def submitJob_def stopPool_def workerLoop_def jobDone_def split: if_splits worker.splits
      dest: set_update_subset_insert [THEN subsetD])

lemma exits_ok_run:
  assumes "exits_ok p" "pool_run evs p = Some (ss, fs, p')"
    "list_all is_worker_event evs \<or> \<not> tp_stopping p \<and> Stop \<notin> set evs"
  shows "exits_ok p' \<and> (Stop \<notin> set evs \<longrightarrow> tp_stopping p' = tp_stopping p)"
  using assms
proof (induction evs arbitrary: p ss fs)
  case (Cons ev evs)
  then obtain p1 ss1 fs1 where s: "pool_step ev p = Some p1" "pool_run evs p1 = Some (ss1, fs1, p')" by (auto split: option.splits)
  have st: "ev \<noteq> Stop" "tp_stopping p1 = tp_stopping p"
    using s(1) Cons.prems(3)
    by (cases ev; auto simp: submitJob_def workerLoop_def jobDone_def split: if_splits worker.splits)+
  have "exits_ok p1" using exits_ok_step [OF Cons.prems(1) s(1)] Cons.prems(3) by (cases ev) auto
  then show ?case using Cons.IH [OF _ s(2)] Cons.prems(3) st by auto
qed simp

text \<open>As long as not every worker of a stopping pool has returned, some worker can go on.\<close>

lemma stopping_progress:
  assumes "exits_ok p" "tp_stopping p" "\<not> (allJoined p \<and> tp_jobs p = [])"
  shows "\<exists>ev p'. is_worker_event ev \<and> pool_step ev p = Some p'"
proof (rule ccontr)
  assume "\<not> ?thesis"
  then have none: "pool_step ev p = None" if "is_worker_event ev" for ev
    using that by (cases "pool_step ev p") auto
  have w: "tp_workers p ! i = Exited" if i: "i < length (tp_workers p)" for i
    using assms(2) i none [of "Pass i"] none [of "Done i"]
    by (cases "tp_workers p ! i") (auto simp: workerLoop_def jobDone_def split: if_splits)
  then have "allJoined p" by (simp add: allJoined_def list_all_length)
  moreover have "Exited \<in> set (tp_workers p)" using w [of 0] assms(1) by (auto simp: exits_ok_def in_set_conv_nth)
  ultimately show False using assms(1,3) by (auto simp: exits_ok_def)
qed

lemma joined_no_running: "allJoined p \<Longrightarrow> runningJobs (tp_workers p) = {#}"
proof -
  have "list_all (\<lambda>w. w = Exited) ws \<Longrightarrow> runningJobs ws = {#}" for ws :: "'a worker list"
    by (induction ws) (auto simp: runningJobs_def)
  then show "allJoined p \<Longrightarrow> runningJobs (tp_workers p) = {#}" by (simp add: allJoined_def)
qed

lemma workLeft_bound: "workLeft p \<le> 2 * (length (tp_jobs p) + length (tp_workers p))"
proof -
  have "sum_list (map (\<lambda>w. case w of Waiting \<Rightarrow> 1 | Running _ \<Rightarrow> 2 | Exited \<Rightarrow> 0) ws) \<le> 2 * length ws" for ws :: "'a worker list"
    by (induction ws) (auto split: worker.split)
  from this [of "tp_workers p"] show ?thesis by (simp add: workLeft_def)
qed

lemma pool_run_append:
  "pool_run (xs @ ys) p = (case pool_run xs p of None \<Rightarrow> None
     | Some (ss, fs, p1) \<Rightarrow> map_option (\<lambda>(ss', fs', p2). (ss @ ss', fs @ fs', p2)) (pool_run ys p1))"
proof (induction xs arbitrary: p)
  case Nil
  show ?case by (simp add: option.map_id case_prod_beta)
next
  case (Cons ev xs)
  then show ?case by (auto split: option.split simp: option.map_comp comp_def case_prod_beta)
qed

section \<open>The pool of a shard\<close>

text \<open>The queue of a shard's ticks is the queue of a pool.\<close>

lemma submit_refines: "tp_jobs (submitJob j p) = submit j (tp_jobs p)"
  by (simp add: submitJob_def submit_def)

lemma takeJob_refines:
  assumes "workerLoop i p = Some p'" "tp_jobs p \<noteq> []"
  shows "takeJob (tp_jobs p) = Some (hd (tp_jobs p), tp_jobs p') \<and> tp_workers p' ! i = Running (hd (tp_jobs p))"
  using assms by (auto simp: workerLoop_def takeJob_def split: if_splits list.splits)

end
