(* ===== verification/Shard_Laws.thy ===== *)
theory Shard_Laws
  imports Shard
begin

text \<open>
  Memory safety of the tick loop: the session of every tick that is queued, running or waiting to
  be delivered is owned by the room the tick was started for. The registry defers the removal of
  a room while a tick is in flight, and only then.
\<close>

section \<open>Ticks in flight\<close>

definition flight :: "registry \<Rightarrow> (string \<times> nat) set" where
  "flight reg = {(n, p). \<exists>r. map_of (reg_rooms reg) n = Some r \<and> r_session_ptr r = p \<and> gs_tickInFlight (r_session r)}"

definition removal_ok :: "registry \<Rightarrow> bool" where
  "removal_ok reg \<longleftrightarrow> (\<forall>n r. map_of (reg_rooms reg) n = Some r \<and> r_pendingRemoval r \<longrightarrow> gs_tickInFlight (r_session r))"

text \<open>An operation that neither starts nor ends a tick, nor destroys a session with one.\<close>

definition quiet :: "registry \<Rightarrow> registry \<Rightarrow> bool" where
  "quiet reg reg' \<longleftrightarrow> flight reg' = flight reg \<and> (removal_ok reg \<longrightarrow> removal_ok reg')"

lemma quiet_refl [simp]: "quiet reg reg"
  by (simp add: quiet_def)

lemma quiet_trans: "quiet reg reg1 \<Longrightarrow> quiet reg1 reg2 \<Longrightarrow> quiet reg reg2"
  by (simp add: quiet_def)

lemma quiet_other [simp]:
  "quiet reg (reg'\<lparr>reg_connectionRoom := x\<rparr>) = quiet reg reg'" "quiet reg (reg'\<lparr>reg_countdowns := y\<rparr>) = quiet reg reg'"
  "quiet reg (reg'\<lparr>reg_next := z\<rparr>) = quiet reg reg'"
  by (simp_all add: quiet_def flight_def removal_ok_def)

lemma quiet_withRoom:
  assumes "\<And>r. map_of (reg_rooms reg) n = Some r \<Longrightarrow> r_session_ptr (f r) = r_session_ptr r \<and>
      gs_tickInFlight (r_session (f r)) = gs_tickInFlight (r_session r) \<and>
      (r_pendingRemoval (f r) \<longrightarrow> r_pendingRemoval r \<or> gs_tickInFlight (r_session r))"
  shows "quiet reg (withRoom n f reg)"
proof -
  have "flight (withRoom n f reg) = flight reg"
    using assms by (auto simp: flight_def split: if_splits)
  moreover have "removal_ok reg \<Longrightarrow> removal_ok (withRoom n f reg)"
    using assms unfolding removal_ok_def by (auto split: if_splits)
  ultimately show ?thesis by (simp add: quiet_def)
qed

lemma quiet_withSession:
  "(\<And>s. roomNamed n reg = Some s \<Longrightarrow> gs_tickInFlight (f s) = gs_tickInFlight s) \<Longrightarrow> quiet reg (withSession n f reg)"
  unfolding withSession_def by (rule quiet_withRoom) (simp add: roomNamed_def)

lemma quiet_eraseRoom:
  assumes "\<And>r. map_of (reg_rooms reg) n = Some r \<Longrightarrow> \<not> gs_tickInFlight (r_session r)"
  shows "quiet reg (snd (eraseRoom n reg))"
  using assms by (auto simp: quiet_def flight_def removal_ok_def eraseRoom_def split: if_splits)

lemma quiet_createRoom: "quiet reg (snd (snd (createRoom n b sm reg)))"
  by (auto simp: quiet_def flight_def removal_ok_def createRoom_def roomExists_def newRoom_def newSession_def split: if_splits)

lemma quiet_joinRoom: "registry_ok reg \<Longrightarrow> quiet reg (snd (joinRoom n h u reg))"
proof (cases "map_of (reg_rooms reg) n")
  case None
  then show ?thesis by (simp add: joinRoom_def)
next
  case (Some r)
  assume "registry_ok reg"
  from joinRoom_withRoom [OF this Some] show ?thesis by (simp add: Let_def quiet_withRoom)
qed

lemma quiet_leave:
  assumes "registry_ok reg"
  shows "quiet reg (snd (snd (leave h reg)))"
  using assms
proof (cases rule: leave_cases [where h = h])
  case (left n r f out reg1)
  have "quiet reg reg1"
    using left(5)
  proof (elim disjE conjE)
    assume "\<not> gs_tickInFlight (r_session r)" "(out, reg1) = eraseRoom n reg"
    then show ?thesis using quiet_eraseRoom [of reg n] left(2) by (metis option.inject snd_conv)
  qed (auto simp: left(2,3) intro!: quiet_withRoom)
  then show ?thesis using left(4) by simp
qed simp_all

lemma quiet_countdowns:
  "quiet reg (reserveSeats n w b reg)" "quiet reg (snd (startDisconnectCountdown n c u elo reg))"
  "quiet reg (snd (snd (cancelDisconnectCountdown n c u reg)))"
proof -
  show "quiet reg (reserveSeats n w b reg)" unfolding reserveSeats_def by (rule quiet_withRoom) simp
  show "quiet reg (snd (startDisconnectCountdown n c u elo reg))"
    by (auto simp: startDisconnectCountdown_def Let_def intro!: quiet_trans [OF _ quiet_withRoom])
  show "quiet reg (snd (snd (cancelDisconnectCountdown n c u reg)))"
    by (auto simp: cancelDisconnectCountdown_def split: option.split
        intro!: quiet_trans [OF quiet_trans [OF _ quiet_withRoom] quiet_withSession])
qed

lemma quiet_countdownHandler:
  assumes "registry_ok reg"
  shows "quiet reg (snd (fst (countdownHandler ec t reg)))"
proof (cases rule: countdownHandler_cases [where reg = reg and t = t and ec = ec])
  case (waiting cd out)
  then show ?thesis by (auto intro!: quiet_trans [OF _ quiet_withSession])
next
  case (expired cd r out s' ex out0)
  have "session_ok (r_session r)" using registry_okD(3) [OF assms expired(3)] by (simp add: room_ok_def)
  then have "gs_tickInFlight s' = gs_tickInFlight (r_session r)" using markDisconnectResign_session(4) [OF expired(5)] by simp
  then have "quiet reg (withRoom (cd_roomName cd) (\<lambda>r. r\<lparr>r_pendingDisconnects := AList.delete (cd_color cd) (r_pendingDisconnects r),
      r_seatReservations := AList.delete (cd_username cd) (r_seatReservations r), r_session := s'\<rparr>)
    (reg\<lparr>reg_countdowns := AList.delete t (reg_countdowns reg)\<rparr>))"
    using expired(3) by (intro quiet_trans [OF _ quiet_withRoom]) auto
  then show ?thesis using expired(6) by simp
qed simp_all


section \<open>Server operations are quiet\<close>

lemma quiet_handler:
  assumes "findHandler (makeRouter env) ty = Some h" "h hdl pl sv = Inr (reply, out, sv')" "server_ok sv"
  shows "quiet (sv_registry sv) (sv_registry sv')"
proof -
  have ok: "registry_ok (sv_registry sv)" using assms(3) by (simp add: server_ok_def)
  from assms(1) show ?thesis
  proof (cases rule: registered_handler_cases)
    case 1
    then show ?thesis using assms(2) by (auto simp: handleLogin_def sbind_Inr_iff Let_def case_prod_beta)
  next
    case 2
    then show ?thesis using assms(2) quiet_joinRoom [OF ok]
      by (auto simp: handleJoinRoom_def sbind_Inr_iff Let_def split: if_splits option.splits)
  next
    case 3
    then show ?thesis using assms(2) by (auto simp: handleFindGame_def split: prod.splits if_splits option.splits)
  next
    case (4 store)
    then show ?thesis using assms(2) by (auto simp: handleAuth_def sbind_Inr_iff split: option.splits)
  next
    case (5 store)
    from assms(2) have "handleEnterRoom store hdl pl sv = Inr (reply, out, sv')" by (simp add: 5)
    then show ?thesis
    proof (cases rule: handleEnterRoom_cases)
      case (entered token name d reg1 role was_away fx reg2 s i)
      have "quiet reg1 reg2" using quiet_countdowns(3) [of reg1 name role "csd_username d"] entered(7) by simp
      then show ?thesis using quiet_joinRoom [OF ok] entered(5,11) by (auto intro: quiet_trans)
    qed simp_all
  qed
qed

lemma quiet_process:
  assumes "process env hdl t sv = (res, out, sv')" "server_ok sv"
  shows "quiet (sv_registry sv) (sv_registry sv')"
proof (cases "handleText env hdl t sv")
  case (Inl ex)
  then show ?thesis using assms(1) by (simp add: process_failed)
next
  case (Inr x)
  then obtain reply where "handleText env hdl t sv = Inr (reply, out, sv')"
    using assms(1) by (auto simp: process_def replyTo_def split: prod.splits)
  then show ?thesis
  proof (cases rule: handleText_cases)
    case (registered m ty h r)
    then show ?thesis using quiet_handler assms(2) by blast
  next
    case (command m ty r)
    from command(4) show ?thesis
      by (cases rule: runCommand_cases) (auto intro!: quiet_withSession)
  qed
qed

lemma quiet_onClose: "server_ok sv \<Longrightarrow> quiet (sv_registry sv) (sv_registry (snd (onClose env hdl sv)))"
  unfolding onClose_eq server_ok_def
  by (auto simp: Let_def case_prod_beta intro: quiet_leave quiet_trans [OF quiet_leave quiet_countdowns(2)])

lemma quiet_doAllocate:
  assumes "doAllocate request sv = Inr (reply, out, sv')"
  shows "quiet (sv_registry sv) (sv_registry sv')"
  using assms
proof (cases rule: doAllocate_cases)
  case (allocated name white black b n rest fx reg1 reg2 hb)
  have "quiet (sv_registry sv) reg1" using quiet_createRoom [of "sv_registry sv" name b True] allocated(5) by simp
  moreover have "quiet reg1 reg2"
    using allocated(6) by (auto simp: attachRoom_def setSnapshotSender_def intro!: quiet_withSession)
  ultimately have "quiet (sv_registry sv) reg2" by (rule quiet_trans)
  then show ?thesis using allocated(9) quiet_countdowns(1) by (auto intro: quiet_trans)
qed simp

text \<open>Subscribers change nothing but the users table.\<close>

lemma server_self [simp]: "\<exists>us. sv = sv\<lparr>sv_users := us\<rparr>"
  by (intro exI [of _ "sv_users sv"]) simp

lemma runSubscriber_frame: "\<exists>us. snd (fst (runSubscriber env s data sv)) = sv\<lparr>sv_users := us\<rparr>"
  by (cases s) (auto simp: runSubscriber_def split: sum.split option.split)

lemma runSubscribers_frame: "\<exists>us. snd (fst (runSubscribers env cs sv)) = sv\<lparr>sv_users := us\<rparr>"
proof (induction env cs sv rule: runSubscribers.induct)
  case (1 env sv)
  show ?case by simp
next
  case (2 env s data rest sv)
  obtain out sv1 ex where r: "runSubscriber env s data sv = ((out, sv1), ex)" by (metis prod.collapse)
  obtain us where us: "sv1 = sv\<lparr>sv_users := us\<rparr>" using runSubscriber_frame [of env s data sv] r by auto
  show ?case
  proof (cases ex)
    case None
    from 2 [OF r [symmetric] refl None] us show ?thesis by (auto simp: r None split: prod.splits)
  next
    case (Some e)
    then show ?thesis using us by (auto simp: r)
  qed
qed

lemma deliverOne_frame: "\<exists>us. snd (fst (deliverOne env name x sv)) = sv\<lparr>sv_users := us\<rparr>"
proof (cases x)
  case (Published topic data)
  then show ?thesis using runSubscribers_frame by (simp add: deliverOne_def)
next
  case (SnapshotSent t)
  then show ?thesis by (simp add: deliverOne_def)
qed

lemma deliverAll_frame: "\<exists>us. snd (fst (deliverAll env name xs sv)) = sv\<lparr>sv_users := us\<rparr>"
proof (induction xs arbitrary: sv)
  case Nil
  show ?case by simp
next
  case (Cons x xs)
  obtain out sv1 ex where r: "deliverOne env name x sv = ((out, sv1), ex)" by (metis prod.collapse)
  obtain us where us: "sv1 = sv\<lparr>sv_users := us\<rparr>" using deliverOne_frame [of env name x sv] r by auto
  show ?case
  proof (cases ex)
    case None
    from Cons.IH [of sv1] us show ?thesis by (auto simp: r None split: prod.splits)
  next
    case (Some e)
    then show ?thesis using us by (auto simp: r)
  qed
qed

lemma timerFired_frame:
  "\<exists>us. snd (fst (timerFired env ec t sv)) = sv\<lparr>sv_registry := snd (fst (countdownHandler ec t (sv_registry sv))), sv_users := us\<rparr>"
proof -
  obtain fx reg ex where c: "countdownHandler ec t (sv_registry sv) = ((fx, reg), ex)" by (metis prod.collapse)
  define name where "name = (case map_of (reg_countdowns (sv_registry sv)) t of None \<Rightarrow> [] | Some cd \<Rightarrow> cd_roomName cd)"
  obtain calls sv1 ex' where d: "deliverAll env name (sessionOuts fx) (sv\<lparr>sv_registry := reg\<rparr>) = ((calls, sv1), ex')"
    by (metis prod.collapse)
  from deliverAll_frame [of env name "sessionOuts fx" "sv\<lparr>sv_registry := reg\<rparr>"] d show ?thesis
    by (auto simp: timerFired_def Let_def c name_def [symmetric])
qed


section \<open>The invariant of a shard\<close>

definition jobKey :: "job \<Rightarrow> string \<times> nat" where
  "jobKey j = (jb_room j, jb_session j)"

definition shardJobs :: "shard \<Rightarrow> job list" where
  "shardJobs sh = sh_queue sh @ sh_running sh @ map fst (sh_posts sh)"

text \<open>\<open>tracked_by\<close>: the jobs are exactly the ticks in flight, each once.\<close>

definition tracked_by :: "job list \<Rightarrow> registry \<Rightarrow> bool" where
  "tracked_by js reg \<longleftrightarrow> registry_ok reg \<and> removal_ok reg \<and> distinct (map jobKey js) \<and> jobKey ` set js = flight reg"

definition shard_ok :: "shard \<Rightarrow> bool" where
  "shard_ok sh \<longleftrightarrow> (\<not> sh_down sh \<longrightarrow> server_ok (sh_server sh) \<and> tracked_by (shardJobs sh) (sv_registry (sh_server sh)))"

lemma tracked_perm:
  assumes "mset js = mset js'"
  shows "tracked_by js reg = tracked_by js' reg"
proof -
  have "mset (map jobKey js) = mset (map jobKey js')" using assms by simp
  then have "distinct (map jobKey js) = distinct (map jobKey js')" by (rule mset_eq_imp_distinct_iff)
  moreover have "set js = set js'" using assms by (rule mset_eq_setD)
  ultimately show ?thesis by (simp add: tracked_by_def)
qed

lemma tracked_quiet: "tracked_by js reg \<Longrightarrow> quiet reg reg' \<Longrightarrow> registry_ok reg' \<Longrightarrow> tracked_by js reg'"
  by (simp add: tracked_by_def quiet_def)

lemma flight_sessionAt:
  assumes "registry_ok reg" "(n, p) \<in> flight reg"
  obtains r where "sessionAt p reg = Some (n, r)" "map_of (reg_rooms reg) n = Some r" "r_session_ptr r = p"
    "gs_tickInFlight (r_session r)"
proof -
  obtain r where r: "map_of (reg_rooms reg) n = Some r" "r_session_ptr r = p" "gs_tickInFlight (r_session r)"
    using assms(2) by (auto simp: flight_def)
  have "find (\<lambda>(n, r). r_session_ptr r = p) (reg_rooms reg) \<noteq> None"
    unfolding find_None_iff using r(2) map_of_SomeD [OF r(1)] by blast
  then obtain n' r' where f: "find (\<lambda>(n, r). r_session_ptr r = p) (reg_rooms reg) = Some (n', r')" by auto
  have "(n', r') \<in> set (reg_rooms reg)" "r_session_ptr r' = p" using find_SomeD [OF f] by auto
  moreover have "map_of (reg_rooms reg) n' = Some r'"
    using calculation(1) registry_okD(1) [OF assms(1)] by (intro map_of_is_SomeI) auto
  moreover have "n = n'" using registry_okD(4) [OF assms(1) r(1) calculation(3)] r(2) calculation(2) by simp
  ultimately show ?thesis using that [of r'] r f by (auto simp: sessionAt_def)
qed

lemma tracked_sessionAt:
  assumes "tracked_by js reg" "j \<in> set js"
  obtains r where "sessionAt (jb_session j) reg = Some (jb_room j, r)" "map_of (reg_rooms reg) (jb_room j) = Some r"
    "r_session_ptr r = jb_session j" "gs_tickInFlight (r_session r)"
proof -
  have "(jb_room j, jb_session j) \<in> flight reg" using assms by (force simp: tracked_by_def jobKey_def)
  then show ?thesis using flight_sessionAt [of reg] assms(1) that by (auto simp: tracked_by_def)
qed

section \<open>Every step keeps it\<close>

lemma tracked_tickRoom:
  assumes "tracked_by (snd st @ rest) (fst st)"
  shows "tracked_by (snd (tickRoom cs n st) @ rest) (fst (tickRoom cs n st))"
proof -
  obtain reg q where st: "st = (reg, q)" by (cases st)
  have ok: "registry_ok reg" using assms by (simp add: st tracked_by_def)
  show ?thesis
  proof (cases "map_of (reg_rooms reg) n")
    case None
    then show ?thesis using assms by (simp add: st tickRoom_def)
  next
    case (Some r)
    let ?s1 = "setIdentity (resolveIdentity reg cs n) (r_session r)"
    have s: "session_ok ?s1" "gs_roomName ?s1 = n" "gs_tickInFlight ?s1 = gs_tickInFlight (r_session r)"
      using registry_okD(3) [OF ok Some] by (auto simp: room_ok_def setIdentity_def session_ok_def queue_ok_def)
    show ?thesis
    proof (cases "gs_tickInFlight (r_session r)")
      case True
      have "quiet reg (withSession n (\<lambda>_. ?s1) reg)" using s True Some by (intro quiet_withSession) (simp add: roomNamed_def)
      moreover have "registry_ok (withSession n (\<lambda>_. ?s1) reg)" using s by (intro registry_ok_withSession [OF ok]) auto
      ultimately show ?thesis
        using assms True Some s by (simp add: st tickRoom_def Let_def tryBeginTick_def tracked_quiet)
    next
      case False
      let ?s2 = "?s1\<lparr>gs_tickInFlight := True\<rparr>" and ?j = "\<lparr>jb_room = n, jb_session = r_session_ptr r\<rparr>"
      let ?reg = "withSession n (\<lambda>_. ?s2) reg"
      have "registry_ok ?reg" using s by (intro registry_ok_withSession [OF ok]) (auto simp: session_ok_def queue_ok_def)
      moreover have "flight ?reg = insert (jobKey ?j) (flight reg)"
        using Some by (auto simp: flight_def withSession_def jobKey_def split: if_splits)
      moreover have "jobKey ?j \<notin> flight reg" using False Some by (auto simp: flight_def jobKey_def)
      moreover have "removal_ok ?reg" using assms Some unfolding tracked_by_def removal_ok_def
        by (auto simp: st withSession_def split: if_splits)
      ultimately have "tracked_by ((q @ [?j]) @ rest) ?reg"
        using assms by (auto simp: st tracked_by_def)
      then show ?thesis using False Some s by (simp add: st tickRoom_def Let_def tryBeginTick_def submit_def)
    qed
  qed
qed

lemma tracked_onTick:
  assumes "tracked_by (q @ rest) reg"
  shows "tracked_by (snd (onTick ord cs (reg, q)) @ rest) (fst (onTick ord cs (reg, q)))"
  unfolding onTick_def
  by (rule fold_invariant_on [where P = "\<lambda>st. tracked_by (snd st @ rest) (fst st)"]) (use assms tracked_tickRoom in auto)

lemma observe_tick: "observe dump parse x s = Inr s' \<Longrightarrow> gs_tickInFlight s' = gs_tickInFlight s"
  by (auto simp: observe_def sbind_Inr_iff split: notification.splits prod.splits option.splits)

lemma observeAll_tick: "observeAll dump parse xs s = Inr s' \<Longrightarrow> gs_tickInFlight s' = gs_tickInFlight s"
  by (induction xs arbitrary: s) (auto simp: sbind_Inr_iff dest!: observe_tick)

lemma computeStep_tick: "computeStep dump parse ords ms s = Inr (j, s') \<Longrightarrow> gs_tickInFlight s' = gs_tickInFlight s"
  by (auto simp: computeStep_def Let_def sbind_Inr_iff dest!: observeAll_tick)

lemma publishStep_tick: "publishStep dump j s = ((out, s'), ex) \<Longrightarrow> gs_tickInFlight s' = gs_tickInFlight s"
  by (auto simp: publishStep_def publishGameEnded_def Let_def split: if_splits prod.splits sum.splits)

lemma tracked_compute:
  assumes "tracked_by js reg" "j \<in> set js" "orders_ok ords" "0 \<le> ms" "computeJob env ords ms j reg = Some (Inr (data, reg'))"
  shows "tracked_by js reg'"
proof -
  obtain r where r: "sessionAt (jb_session j) reg = Some (jb_room j, r)" "map_of (reg_rooms reg) (jb_room j) = Some r"
    using tracked_sessionAt [OF assms(1,2)] by blast
  then obtain s' where s: "computeStep (env_dump env) (env_parse env) ords ms (r_session r) = Inr (data, s')"
    "reg' = withSession (jb_room j) (\<lambda>_. s') reg" using assms(5) by (auto simp: computeJob_def sbind_Inr_iff)
  have ok: "registry_ok reg" using assms(1) by (simp add: tracked_by_def)
  have n: "roomNamed (jb_room j) reg = Some (r_session r)" using r by (simp add: roomNamed_def)
  have "registry_ok reg'"
    unfolding s(2) by (rule registry_ok_work [OF ok n session_step.simulate [OF s(1) assms(4,3)]])
  moreover have "quiet reg reg'" unfolding s(2) using computeStep_tick [OF s(1)] n by (intro quiet_withSession) simp
  ultimately show ?thesis using tracked_quiet [OF assms(1)] by blast
qed


text \<open>The delivery of a tick ends it, and removes the room when its last occupant left meanwhile.\<close>

lemma tracked_endTick:
  assumes "tracked_by (js @ j # js') reg" "map_of (reg_rooms reg) (jb_room j) = Some r" "r_session_ptr r = jb_session j"
  shows "tracked_by (js @ js') (snd (reapIfSafe (jb_room j) (withSession (jb_room j) endTick reg)))"
proof -
  let ?n = "jb_room j" and ?reg1 = "withSession (jb_room j) endTick reg"
  have t: "registry_ok reg" "removal_ok reg" "distinct (map jobKey (js @ j # js'))" "jobKey ` set (js @ j # js') = flight reg"
    using assms(1) unfolding tracked_by_def by blast+
  have ok: "registry_ok ?reg1"
    by (rule registry_ok_withSession [OF t(1)]) (auto simp: endTick_def session_ok_def queue_ok_def)
  have f: "flight ?reg1 = flight reg - {jobKey j}"
    using assms(2,3) by (auto simp: flight_def withSession_def endTick_def jobKey_def split: if_splits)
  have "jobKey ` set (js @ js') = flight ?reg1" using t(3,4) by (auto simp: f)
  moreover have "distinct (map jobKey (js @ js'))" using t(3) by auto
  moreover have r1: "map_of (reg_rooms ?reg1) ?n = Some (r\<lparr>r_session := endTick (r_session r)\<rparr>)"
    using assms(2) by (simp add: withSession_def)
  moreover have "flight (snd (eraseRoom ?n ?reg1)) = flight ?reg1"
    using assms(2) by (auto simp: flight_def eraseRoom_def withSession_def endTick_def split: if_splits)
  moreover have "removal_ok (snd (eraseRoom ?n ?reg1))"
    using t(2) by (auto simp: removal_ok_def eraseRoom_def withSession_def split: if_splits)
  moreover have "removal_ok ?reg1" if "\<not> r_pendingRemoval r"
    using t(2) assms(2) that by (auto simp: removal_ok_def withSession_def split: if_splits)
  ultimately show ?thesis
    using ok registry_ok_eraseRoom [OF ok, of ?n] by (auto simp: tracked_by_def reapIfSafe_def endTick_def)
qed

lemma tracked_deliver:
  assumes "tracked_by (js @ j # js') (sv_registry sv)" "server_ok sv"
    and d: "deliverTick env j data sv = Some ((calls, sv'), None)"
  shows "tracked_by (js @ js') (sv_registry sv') \<and> server_ok sv'"
proof -
  let ?reg = "sv_registry sv"
  have "j \<in> set (js @ j # js')" by simp
  from tracked_sessionAt [OF assms(1) this] obtain r where r: "sessionAt (jb_session j) ?reg = Some (jb_room j, r)"
    "map_of (reg_rooms ?reg) (jb_room j) = Some r" "r_session_ptr r = jb_session j" by blast
  obtain out s1 ex where p: "publishStep (env_dump env) data (r_session r) = ((out, s1), ex)" by (metis prod.collapse)
  define reg1 where "reg1 = withSession (jb_room j) (\<lambda>_. s1) ?reg"
  obtain calls2 sv2 ex2 where a: "deliverAll env (jb_room j) out (sv\<lparr>sv_registry := reg1\<rparr>) = ((calls2, sv2), ex2)"
    by (metis prod.collapse)
  obtain us where sv2: "sv2 = sv\<lparr>sv_registry := reg1, sv_users := us\<rparr>"
    using deliverAll_frame [of env "jb_room j" out "sv\<lparr>sv_registry := reg1\<rparr>"] a by auto
  have "sv' = sv2\<lparr>sv_registry := snd (reapIfSafe (jb_room j) (withSession (jb_room j) endTick (sv_registry sv2)))\<rparr>"
    using d r(1) p a by (auto simp: deliverTick_def Let_def reg1_def case_prod_beta split: if_splits)
  then have sv': "sv' = sv2\<lparr>sv_registry := snd (reapIfSafe (jb_room j) (withSession (jb_room j) endTick reg1))\<rparr>"
    by (simp add: sv2)
  have n: "roomNamed (jb_room j) ?reg = Some (r_session r)" using r by (simp add: roomNamed_def)
  have ok: "registry_ok ?reg" using assms(2) by (simp add: server_ok_def)
  have "registry_ok reg1" unfolding reg1_def by (rule registry_ok_work [OF ok n session_step.deliver [OF p]])
  moreover have "quiet ?reg reg1" unfolding reg1_def using publishStep_tick [OF p] n by (intro quiet_withSession) simp
  ultimately have "tracked_by (js @ j # js') reg1" using tracked_quiet [OF assms(1)] by blast
  moreover have "map_of (reg_rooms reg1) (jb_room j) = Some (r\<lparr>r_session := s1\<rparr>)" using r by (simp add: reg1_def withSession_def)
  ultimately have "tracked_by (js @ js') (snd (reapIfSafe (jb_room j) (withSession (jb_room j) endTick reg1)))"
    by (rule tracked_endTick) (simp add: r(3))
  then show ?thesis using assms(2) by (simp add: sv' sv2 server_ok_def tracked_by_def)
qed

lemma shard_ok_server:
  assumes "shard_ok sh" "\<not> sh_down sh" "server_ok sv" "quiet (sv_registry (sh_server sh)) (sv_registry sv)"
  shows "shard_ok (onServer sh sv)" "shard_ok ((onServer sh sv)\<lparr>sh_down := x\<rparr>)"
  using assms tracked_quiet [of "shardJobs sh" "sv_registry (sh_server sh)" "sv_registry sv"]
  by (auto simp: shard_ok_def onServer_def shardJobs_def server_ok_def)

theorem shard_step_ok: "shard_step env sh sh' \<Longrightarrow> shard_ok sh \<Longrightarrow> shard_ok sh'"
proof (induction rule: shard_step.induct)
  case (tick sh ord reg q)
  then have "tracked_by (q @ sh_running sh @ map fst (sh_posts sh)) reg"
    using tracked_onTick [of "sh_queue sh" _ _ ord "sv_clients (sh_server sh)"] by (fastforce simp: shard_ok_def shardJobs_def)
  then show ?case using tick by (simp add: shard_ok_def shardJobs_def server_ok_def tracked_by_def)
next
  case (take sh j q)
  then have "tracked_by (q @ (sh_running sh @ [j]) @ map fst (sh_posts sh)) (sv_registry (sh_server sh))"
    using tracked_perm [of "q @ (sh_running sh @ [j]) @ map fst (sh_posts sh)" "shardJobs sh"]
    by (auto simp: shard_ok_def shardJobs_def takeJob_def split: list.splits)
  then show ?case using take by (simp add: shard_ok_def shardJobs_def)
next
  case (compute sh js j js' ords tickMs data reg)
  have "tracked_by (shardJobs sh) reg"
    using compute by (intro tracked_compute [OF _ _ compute(3,4,5)]) (auto simp: shard_ok_def shardJobs_def)
  then have "tracked_by (sh_queue sh @ (js @ js') @ map fst (sh_posts sh @ [(j, data)])) reg"
    using compute(2) tracked_perm [of "sh_queue sh @ (js @ js') @ map fst (sh_posts sh @ [(j, data)])" "shardJobs sh"]
    by (simp add: shardJobs_def)
  then show ?case using compute by (simp add: shard_ok_def shardJobs_def server_ok_def tracked_by_def)
next
  case (deliver sh ps j data ps' calls sv)
  have "tracked_by ((sh_queue sh @ sh_running sh @ map fst ps) @ j # map fst ps') (sv_registry (sh_server sh))" "server_ok (sh_server sh)"
    using deliver by (simp_all add: shard_ok_def shardJobs_def)
  from tracked_deliver [OF this deliver(3)] show ?case by (simp add: shard_ok_def shardJobs_def)
next
  case (msg sh hdl t reply out sv)
  then have ok: "server_ok (sh_server sh)" by (simp add: shard_ok_def)
  show ?case using shard_ok_server(1) [OF msg(3,1)] process_ok [OF ok msg(2)] quiet_process [OF msg(2) ok] by blast
next
  case (msg_throws sh hdl t ex out sv)
  then have ok: "server_ok (sh_server sh)" by (simp add: shard_ok_def)
  show ?case
    using shard_ok_server(2) [OF msg_throws(3,1)] process_ok [OF ok msg_throws(2)] quiet_process [OF msg_throws(2) ok] by blast
next
  case (close sh hdl out sv)
  then have ok: "server_ok (sh_server sh)" by (simp add: shard_ok_def)
  show ?case
    using shard_ok_server(1) [OF close(3,1)] onClose_ok [OF ok, of env hdl] quiet_onClose [OF ok, of env hdl] close(2) by simp
next
  case (allocate sh request reply out sv)
  then have ok: "server_ok (sh_server sh)" by (simp add: shard_ok_def)
  show ?case
    using shard_ok_server(1) [OF allocate(3,1)] doAllocate_ok [OF allocate(2) ok] quiet_doAllocate [OF allocate(2)] by blast
next
  case (assigned sh event out sv ex)
  then have ok: "server_ok (sh_server sh)" by (simp add: shard_ok_def)
  show ?case
    using handleAssigned_ok [OF ok, of env event] handleAssigned_frame(1) [of env event "sh_server sh"] assigned(2)
    by (intro shard_ok_server(2) [OF assigned(3,1)]) simp_all
next
  case (timeout sh event out sv ex)
  then have ok: "server_ok (sh_server sh)" by (simp add: shard_ok_def)
  show ?case
    using handleTimeout_ok [OF ok, of env event] handleTimeout_frame(1) [of env event "sh_server sh"] timeout(2)
    by (intro shard_ok_server(2) [OF timeout(3,1)]) simp_all
next
  case (timer sh t cd ec calls sv ex)
  then have ok: "server_ok (sh_server sh)" by (simp add: shard_ok_def)
  then have reg: "registry_ok (sv_registry (sh_server sh))" by (simp add: server_ok_def)
  obtain us where sv: "sv = (sh_server sh)\<lparr>sv_registry := snd (fst (countdownHandler ec t (sv_registry (sh_server sh)))), sv_users := us\<rparr>"
    using timerFired_frame [of env ec t "sh_server sh"] timer(4) by auto
  show ?case
    using ok countdownHandler_ok(1) [OF reg, of ec t] quiet_countdownHandler [OF reg, of ec t]
    by (intro shard_ok_server(2) [OF timer(5,1)]) (simp_all add: sv server_ok_def)
qed (simp_all add: shard_ok_def)

lemma newShard_ok: "shard_ok (newShard d a rs us)"
  by (simp add: shard_ok_def newShard_def server_ok_def newRegistry_ok tickets_ok_def newTickets_def tracked_by_def
      shardJobs_def removal_ok_def flight_def newRegistry_def [of d a rs] registry_ok_def)

lemma shard_reachable_ok: "shard_reachable env sh sh' \<Longrightarrow> shard_ok sh \<Longrightarrow> shard_ok sh'"
  by (induction rule: shard_reachable.induct) (auto intro: shard_step_ok)

end
