(* ===== verification/Scenarios.thy ===== *)
theory Scenarios
  imports Session_Laws First_Events
begin

text \<open>
  Concrete games: boards written in the format of the board parser, the engines and rooms that
  start on them, and runs evaluated in the kernel. Every such engine satisfies the invariants.
\<close>

definition boardOf :: "string \<Rightarrow> board" where
  "boardOf rows = (case parseBoardOnly rows 1 of Inr (b, n, rest) \<Rightarrow> b | Inl err \<Rightarrow> newBoard 0 0)"

definition engineOf :: "string \<Rightarrow> game_engine" where
  "engineOf rows = newEngine (boardOf rows) True"

definition sessionOf :: "string \<Rightarrow> game_session" where
  "sessionOf rows = newSession (boardOf rows) ''room'' True"

definition inOrder :: orders where
  "inOrder i n = [0..<n]"

definition reversed :: orders where
  "reversed i n = rev [0..<n]"

lemma inOrder_ok [simp]: "orders_ok inOrder" and reversed_ok [simp]: "orders_ok reversed"
  by (simp_all add: orders_ok_def inOrder_def reversed_def iteration_order_def)

lemma boardOf_wf: "board_wf (boardOf rows)"
  using parse_well_formed(1) [of rows 1] newBoard_wf(1) [of 0 0] by (auto simp: boardOf_def split: sum.split prod.split)

lemma boardOf_idle:
  assumes "isWithinBounds (boardOf rows) q"
  shows "getState (slot (boardOf rows) q) = Idle"
proof (cases "parseBoardOnly rows 1")
  case (Inl err)
  then show ?thesis using assms by (auto simp: boardOf_def isWithinBounds_def newBoard_def)
next
  case (Inr r)
  obtain b n rest where r: "r = (b, n, rest)" by (cases r)
  then show ?thesis using Inr assms parse_well_formed(5) [of rows 1 b n rest q] by (simp add: boardOf_def)
qed

lemma engineOf_ok [simp]: "engine_ok (engineOf rows)" "live (eng_arbiter (engineOf rows))"
  unfolding engineOf_def by (rule newEngine_ok [OF boardOf_wf boardOf_idle], assumption)+

lemma sessionOf_ok [simp]: "session_ok (sessionOf rows)"
  unfolding sessionOf_def by (rule newSession_ok [OF boardOf_wf boardOf_idle])

lemma engineOf_run_ok: "list_all event_ok evs \<Longrightarrow> engine_ok (fold engine_step evs (engineOf rows))"
  using engine.run_invar [of "engineOf rows" evs] by simp

text \<open>A king that attacks a rook in the middle of its jump.\<close>

definition jumpText :: string where
  "jumpText = ''bK wR'' @ [newline] @ ''. wK'' @ [newline]"

definition jumpRun :: "engine_event list" where
  "jumpRun = [JumpRequest (Pos 0 1), MoveRequest (Pos 0 0) (Pos 0 1), Elapse inOrder 1000]"

lemma jumpRun_result:
  "(let e = fold engine_step jumpRun (engineOf jumpText) in
    (game_over e, map (\<lambda>p. (getKind p, getColor p)) (captured_pieces (eng_arbiter e)))) = (False, [(King, Black)])"
  by code_simp

text \<open>A rook is captured on the square it is about to leave; its motion goes on without it.\<close>

definition ghostText :: string where
  "ghostText = ''wR . . . . . . .'' @ [newline] @ ''. . . . . . . .'' @ [newline] @ ''bR . . . wR . . .'' @ [newline]"

definition ghostRun :: "engine_event list" where
  "ghostRun = [MoveRequest (Pos 0 0) (Pos 0 7), MoveRequest (Pos 2 0) (Pos 0 0), Elapse inOrder 2000,
     MoveRequest (Pos 2 4) (Pos 0 4), Elapse inOrder 2000]"

fun captureOf :: "notification \<Rightarrow> (int \<times> color \<times> int) list" where
  "captureOf (PieceCaptured p im) = [(getId p, getColor p, capturingPieceId im)]"
| "captureOf (MoveCompleted p f t c k) = []"

lemma ghostRun_result:
  "concat (map captureOf (notifications (eng_arbiter (fold engine_step ghostRun (engineOf ghostText))))) =
     [(1, White, 2), (3, White, 1)]"
  by code_simp

text \<open>Both kings are captured in the same tick.\<close>

definition drawText :: string where
  "drawText = ''bK . wR'' @ [newline] @ ''. . .'' @ [newline] @ ''wK . bR'' @ [newline]"

definition drawRun :: "engine_event list" where
  "drawRun = [MoveRequest (Pos 0 2) (Pos 0 0), MoveRequest (Pos 2 2) (Pos 2 0), Elapse inOrder 2000]"

lemma drawRun_result:
  "(let e = fold engine_step drawRun (engineOf drawText) in
    (game_over e, survivingKingColor (snapshot e))) = (True, NoColor)"
  by code_simp

text \<open>Two rooks of one colour whose paths cross; the second one meets the first on its first square.\<close>

definition crossText :: string where
  "crossText = ''. wR .'' @ [newline] @ ''wR . .'' @ [newline] @ ''. . .'' @ [newline]"

definition crossMotions :: "motion list" where
  "crossMotions = [\<lparr>m_from = Pos 0 1, m_to = Pos 2 1, start_time_ms = 0, arrival_time_ms = 2000, piece_id = 1\<rparr>,
     \<lparr>m_from = Pos 1 0, m_to = Pos 1 2, start_time_ms = 0, arrival_time_ms = 2000, piece_id = 2\<rparr>]"

definition crossing :: arbiter where
  "crossing = (eng_arbiter (engineOf crossText))\<lparr>active_motions := crossMotions, game_clock_ms := 1000\<rparr>"

lemma crossing_stops: "stopTable (arb_board crossing) crossMotions 0 1000 = [(1, 0)]" by code_simp
lemma crossing_board: "arb_board crossing = boardOf crossText"
  by (simp add: crossing_def engineOf_def newEngine_def newArbiter_def)

lemma crossing_ok: "arbiter_ok crossing"
proof -
  have w: "isWithinBounds (boardOf crossText) (Pos 0 1) \<and> isWithinBounds (boardOf crossText) (Pos 2 1) \<and>
    isWithinBounds (boardOf crossText) (Pos 1 0) \<and> isWithinBounds (boardOf crossText) (Pos 1 2)" by code_simp
  show ?thesis using boardOf_wf [of crossText] w
    by (auto simp: arbiter_ok_def crossing_def engineOf_def newEngine_def newArbiter_def crossMotions_def
      motion_ok_def timedMotion_def calcTravelTime_chebyshev chebyshev_def)
qed

end
