(* ===== verification/Server_Scenarios.thy ===== *)
theory Server_Scenarios
  imports Shard_Laws Scenarios Matchmaking_Laws
begin

text \<open>
  Concrete runs of a shard and of its services: a store that satisfies the laws of Redis, rooms
  that are reaped, seats that are reserved, a room that is opened a second time under its old name
  and a countdown that is cancelled too late.
\<close>

section \<open>A store\<close>

record mem_store =
  ms_scores :: "((string \<times> string) \<times> int) list"
  ms_fields :: "((string \<times> string) \<times> string) list"
  ms_counters :: "(string \<times> int) list"

definition memRedis :: "mem_store redis" where
  "memRedis = \<lparr>
     zadd = (\<lambda>k s m r. r\<lparr>ms_scores := AList.update (k, m) s (ms_scores r)\<rparr>),
     zrem = (\<lambda>k m r. r\<lparr>ms_scores := AList.delete (k, m) (ms_scores r)\<rparr>),
     zscore = (\<lambda>k m r. map_of (ms_scores r) (k, m)),
     zrangebyscore = (\<lambda>k lo hi r. map (snd \<circ> fst) (filter (\<lambda>((k', m), _). k' = k \<and>
       (case map_of (ms_scores r) (k, m) of None \<Rightarrow> False | Some s \<Rightarrow> lo \<le> s \<and> s \<le> hi)) (ms_scores r))),
     hset = (\<lambda>k fs r. r\<lparr>ms_fields := fold (\<lambda>(f, v). AList.update (k, f) v) fs (ms_fields r)\<rparr>),
     hget = (\<lambda>k f r. map_of (ms_fields r) (k, f)),
     del = (\<lambda>k r. r\<lparr>ms_scores := filter (\<lambda>e. fst (fst e) \<noteq> k) (ms_scores r), ms_fields := filter (\<lambda>e. fst (fst e) \<noteq> k) (ms_fields r)\<rparr>),
     incr = (\<lambda>k r. let n = (case map_of (ms_counters r) k of None \<Rightarrow> 1 | Some n \<Rightarrow> n + 1)
                    in (n, r\<lparr>ms_counters := AList.update k n (ms_counters r)\<rparr>))\<rparr>"

definition emptyStore :: mem_store where
  "emptyStore = \<lparr>ms_scores = [], ms_fields = [], ms_counters = []\<rparr>"

lemma map_of_fold_update:
  assumes "distinct (map fst fs)"
  shows "map_of (fold (\<lambda>(f, v). AList.update (k', f) v) fs al) (k, f) =
    (if k = k' then (case map_of fs f of Some v \<Rightarrow> Some v | None \<Rightarrow> map_of al (k, f)) else map_of al (k, f))"
  using assms by (induction fs arbitrary: al) (auto split: option.split simp: rev_image_eqI)

lemma map_of_filter_key: "map_of (filter (\<lambda>e. fst (fst e) \<noteq> k) al) (k', f) = (if k' = k then None else map_of al (k', f))"
  by (induction al) auto

lemma memRedis_laws: "redis_laws memRedis"
proof -
  have "set (zrangebyscore memRedis k lo hi r) = {m. \<exists>s. zscore memRedis k m r = Some s \<and> lo \<le> s \<and> s \<le> hi}" for k lo hi r
  proof -
    have "((k, m), s) \<in> set (ms_scores r)" if "map_of (ms_scores r) (k, m) = Some s" for m s
      using that by (rule map_of_SomeD)
    then show ?thesis by (force simp: memRedis_def split: option.splits)
  qed
  then show ?thesis
    unfolding redis_laws_def by (simp add: memRedis_def map_of_fold_update map_of_filter_key cong: option.case_cong)
qed

lemma emptyStore_ok: "pool_ok memRedis emptyStore" "waiting memRedis emptyStore = Map.empty"
  by (simp_all add: pool_ok_def waiting_def memRedis_def emptyStore_def fun_eq_iff)

section \<open>Rooms and seats\<close>

text \<open>
  The only player leaves while a tick is in flight, so the room is marked; before the tick ends
  somebody else joins.
\<close>

definition reapRun :: "lobby_event list" where
  "reapRun = [Create ''r'' (boardOf drawText) True, Join ''r'' 1 [], Tick ''r'' True, Leave 1, Join ''r'' 2 [],
     Tick ''r'' False, Reap ''r'']"

definition reaped :: registry where
  "reaped = fold lobby_step reapRun (newRegistry False [] False)"

lemma reaped_result:
  "roleOf 2 (fold lobby_step (take 5 reapRun) (newRegistry False [] False)) = Black \<and>
   roomOf 2 reaped = Some ''r'' \<and> \<not> roomExists ''r'' reaped"
  by code_simp

text \<open>Seats are reserved for two names; somebody without a reservation comes first.\<close>

definition seatRegistry :: registry where
  "seatRegistry = reserveSeats ''r'' ''alice'' ''bob'' (lobby_step (Create ''r'' (boardOf drawText) True) (newRegistry False [] False))"

definition crowded :: registry where
  "crowded = snd (joinRoom ''r'' 2 ''alice'' (snd (joinRoom ''r'' 1 ''mallory'' seatRegistry)))"

lemma crowded_result: "roleOf 1 crowded = White \<and> roleOf 2 crowded = White"
  by code_simp

section \<open>A room opened twice\<close>

text \<open>
  A room is opened and given its subscribers, as \<open>AllocateRoomHandler\<close> does; its player leaves, which
  closes it; then it is opened again under the same name.
\<close>

definition openRoom :: "registry \<times> hub \<Rightarrow> registry \<times> hub" where
  "openRoom = (\<lambda>(reg, hb). attachRoom ''r'' (lobby_step (Create ''r'' (boardOf drawText) True) reg, hb))"

definition visit :: "registry \<times> hub \<Rightarrow> registry \<times> hub" where
  "visit = (\<lambda>(reg, hb). (lobby_step (Leave 1) (lobby_step (Join ''r'' 1 []) reg), hb))"

definition emptyHub :: hub where
  "emptyHub = \<lparr>hub_bus = [], hub_broadcasters = [], hub_next = 0\<rparr>"

definition reopened :: "registry \<times> hub" where
  "reopened = openRoom (visit (openRoom (newRegistry False [] False, emptyHub)))"

lemma visited: "\<not> roomExists ''r'' (fst (visit (openRoom (newRegistry False [] False, emptyHub))))"
  by code_simp

lemma reopened_hub:
  "snd reopened = \<lparr>hub_bus =
     [(''move-logged:r'', [Broadcaster 0 ''r'', MirrorRoom ''r'', Broadcaster 2 ''r'', MirrorRoom ''r'']),
      (''capture-event:r'', [Broadcaster 1 ''r'', Broadcaster 3 ''r'']),
      (''game-ended:r'', [RateGame, RecordGame ''r'', ClearMirror ''r'', RateGame, RecordGame ''r'', ClearMirror ''r''])],
     hub_broadcasters = [(''r'', [2, 3])], hub_next = 4\<rparr>"
  by code_simp

section \<open>A countdown\<close>

text \<open>Alice and Bob are seated and Alice, White, loses the connection.\<close>

definition leftRoom :: registry where
  "leftRoom = snd (snd (leave 1 (snd (joinRoom ''r'' 2 ''bob'' (snd (joinRoom ''r'' 1 ''alice'' seatRegistry))))))"

definition waitingRoom :: registry where
  "waitingRoom = snd (startDisconnectCountdown ''r'' White ''alice'' 1200 leftRoom)"

lemma seatRegistry_ok: "registry_ok seatRegistry"
  unfolding seatRegistry_def lobby_step.simps
  by (intro reserveSeats_ok createRoom_ok newRegistry_ok boardOf_wf boardOf_idle)

lemma waitingRoom_ok: "registry_ok waitingRoom"
  unfolding waitingRoom_def leftRoom_def by (intro startDisconnectCountdown_ok leave_ok joinRoom_ok seatRegistry_ok)

lemma waitingRoom_held: "held ''r'' White ''alice'' 1200 1 20 waitingRoom"
proof -
  have "roomExists ''r'' leftRoom \<and> reg_next leftRoom = 1" by code_simp
  then show ?thesis using held_start [of "''r''" leftRoom White "''alice''" 1200] by (simp add: waitingRoom_def)
qed

lemma waitingRoom_running:
  "map_option (\<lambda>s. gs_gameResultPublished s \<or> game_over (gs_engine s)) (roomNamed ''r'' waitingRoom) = Some False"
  by code_simp

section \<open>A shard at work\<close>

text \<open>
  Surroundings in which every frame parses to the given value; a shard that has just started, the
  same after a room has been allocated on it, and a server on which Alice plays.
\<close>

definition plainEnv :: "json option \<Rightarrow> environment" where
  "plainEnv j = \<lparr>env_dump = (\<lambda>_. []), env_parse = (\<lambda>_. j), env_what = (\<lambda>_. []), env_parseWhat = (\<lambda>_. []), env_hash = length, env_writable = True,
     env_sessionStore = None, env_nats = False, env_gameHistory = False, env_gameStateStore = False\<rparr>"

definition freshServer :: server where
  "freshServer = sh_server (newShard False ''s'' False [])"

definition allocatedServer :: server where
  "allocatedServer = (case doAllocate (allocateRequest ''r'' ''alice'' ''bob'') freshServer of Inr (_, _, sv) \<Rightarrow> sv | _ \<Rightarrow> freshServer)"

lemma allocated_ok: "case doAllocate (allocateRequest ''r'' ''alice'' ''bob'') freshServer of Inr (_, _, sv) \<Rightarrow> True | _ \<Rightarrow> False"
  by code_simp

lemma allocated_tick: "snd (onTick (\<lambda>n. [0..<n]) [] (sv_registry allocatedServer, [])) = [\<lparr>jb_room = ''r'', jb_session = 0\<rparr>]"
  by code_simp

definition seatedServer :: server where
  "seatedServer = freshServer\<lparr>sv_registry := snd (joinRoom ''r'' 1 ''alice'' seatRegistry)\<rparr>"

definition aliceMoves :: json where
  "aliceMoves = JObj [(''type'', JStr ''MOVE''), (''payload'', payload (moveMessage (Pos 0 2) (Pos 0 0)))]"

lemma alice_seated: "roomOf 1 (sv_registry seatedServer) = Some ''r'' \<and> roleOf 1 (sv_registry seatedServer) = White \<and>
  gameIn ''r'' (sv_registry (snd (snd (process (plainEnv (Some aliceMoves)) 1 ''move'' seatedServer)))) \<noteq> gameIn ''r'' (sv_registry seatedServer)"
  by code_simp

lemma freshServer_ok: "server_ok freshServer"
  using newShard_ok [of False "''s''" False "[]"] by (simp add: freshServer_def shard_ok_def newShard_def)

lemma seatedServer_ok: "server_ok seatedServer"
  using freshServer_ok joinRoom_ok [OF seatRegistry_ok] by (simp add: seatedServer_def server_ok_def)

text \<open>
  A frame whose only bytes are a quotation mark and \<open>0xFF\<close>, on a JSON library whose error message
  quotes what it has read: no reply can be printed, and the exception ends the shard.
\<close>

definition quotingEnv :: environment where
  "quotingEnv = (plainEnv None)\<lparr>env_parseWhat := (\<lambda>t. ''last read: '' @ t)\<rparr>"

definition brokenFrame :: string where
  "brokenFrame = [CHR 0x22, CHR 0xFF]"

lemma brokenFrame_throws: "process quotingEnv hdl brokenFrame sv = (Inl TypeError, [], sv)"
proof -
  have "handleText quotingEnv hdl brokenFrame sv = Inl ParseError"
    by (simp add: handleText_def decodeMessage_def quotingEnv_def plainEnv_def sbind_def)
  moreover have "\<not> validUtf8 (''last read: '' @ brokenFrame)" by code_simp
  ultimately show ?thesis by (simp add: process_failed exceptionText_def quotingEnv_def)
qed

lemma brokenFrame_ends_shard: "\<not> sh_down sh \<Longrightarrow> shard_step quotingEnv sh ((onServer sh (sh_server sh))\<lparr>sh_down := True\<rparr>)"
  using shard_step.msg_throws [OF _ brokenFrame_throws] .

section \<open>A match\<close>

text \<open>Alice and Bob ask for a game.\<close>

definition twoRequests :: "mm_event list" where
  "twoRequests = [MatchRequest (JObj [(''ticketId'', JStr ''t1''), (''username'', JStr ''alice''), (''elo'', JInt 1200)]),
     MatchRequest (JObj [(''ticketId'', JStr ''t2''), (''username'', JStr ''bob''), (''elo'', JInt 1290)])]"

definition idleMatchmaker :: "mem_store matchmaker" where
  "idleMatchmaker = \<lparr>mm_redis = emptyStore, mm_pendingAssignment = [], mm_searching = [], mm_watching = [], mm_matchesFound = 0,
     mm_assignmentTimeouts = 0\<rparr>"

end
