(* ===== verification/Surroundings.thy ===== *)
theory Surroundings
  imports Ws_Client Cluster_Laws Screens Thread_Pool Server_Scenarios "HOL-Library.Countable"
begin

text \<open>
  Concrete surroundings for the parts of the model that take other code as a parameter: a JSON library, a
  Redis and a Postgres that keep what they are told in lists, and files that can always be read. Each
  satisfies the laws that are assumed of the real one.
\<close>

section \<open>JSON\<close>

instance json :: countable
  by countable_datatype

text \<open>A text form of JSON values: as many letters as the number of the value.\<close>

definition tallyDump :: "json \<Rightarrow> string" where
  "tallyDump j = replicate (to_nat j) CHR ''x''"

definition tallyParse :: "string \<Rightarrow> json option" where
  "tallyParse s = Some (canon (from_nat (length s)))"

lemma tally_c_str: "c_str (tallyDump j) = tallyDump j"
proof -
  have "takeWhile P (replicate n c) = replicate n c" if "P c" for P n and c :: char using that by (induction n) auto
  then show ?thesis by (simp add: c_str_def tallyDump_def)
qed

lemma tally_roundtrip: "tallyParse (tallyDump j) = Some (canon j)"
  by (simp add: tallyParse_def tallyDump_def)

section \<open>Redis\<close>

definition redisHash :: "string list \<Rightarrow> rvalue option \<Rightarrow> rvalue" where
  "redisHash args v = (case v of Some (RText t) \<Rightarrow> RText t | Some (RHash h) \<Rightarrow> RHash (hashArgs args h) | None \<Rightarrow> RHash (hashArgs args Map.empty))"

fun listRedis :: "(string \<times> rvalue) list redis_conn" where
  "listRedis (cmd # k # args) r =
     (if cmd = ''SET'' \<and> length args = 1 then (Some (ReplyStatus ''OK''), AList.update k (RText (args ! 0)) r)
      else if cmd = ''SETEX'' \<and> length args = 2 then (Some (ReplyStatus ''OK''), AList.update k (RText (args ! 1)) r)
      else if cmd = ''DEL'' then (Some (ReplyInteger (if map_of r k = None then 0 else 1)), AList.delete k r)
      else if cmd = ''HSET'' then (Some (ReplyInteger 0), AList.update k (redisHash args (map_of r k)) r)
      else if cmd = ''GET'' then
        (Some (case map_of r k of None \<Rightarrow> ReplyNil | Some (RText t) \<Rightarrow> ReplyString t | Some (RHash _) \<Rightarrow> ReplyError ''WRONGTYPE''), r)
      else if cmd = ''KEYS'' then (Some (ReplyArray (map ReplyString (filter (\<lambda>k. take 5 k = ''room:'') (remdups (map fst r))))), r)
      else (None, r))"
| "listRedis _ r = (None, r)"

lemma listRedis_keys:
  "\<exists>ks. map ReplyString (filter (\<lambda>k. take 5 k = ''room:'') (remdups (map fst r))) = map ReplyString ks \<and> distinct ks \<and>
     set ks = {k \<in> fst ` set r. take 5 k = ''room:''}"
  by (rule exI [of _ "filter (\<lambda>k. take 5 k = ''room:'') (remdups (map fst r))"]) auto

lemma listRedis_laws: "redis_kv listRedis map_of"
  by (auto simp: redis_kv_def redisHash_def update_conv' delete_conv' dom_map_of_conv_image_fst fun_eq_iff
      split: option.split rvalue.split intro: listRedis_keys)

section \<open>Postgres\<close>

definition listPostgres :: "users postgres" where
  "listPostgres = \<lparr>
     pq_select = (\<lambda>u p. Some (case map_of p u of None \<Rightarrow> [] | Some (hash, elo) \<Rightarrow> [(hash, showInt elo)])),
     pq_insert = (\<lambda>u h e p. if map_of p u = None then (True, AList.update u (h, the (stoi e)) p) else (False, p)),
     pq_update = (\<lambda>e u p. AList.map_entry u (\<lambda>(h, _). (h, the (stoi e))) p),
     pq_insert_game = (\<lambda>row p. p), pq_list_games = (\<lambda>n p. Some [])\<rparr>"

lemma listPostgres_laws: "postgres_laws listPostgres True id"
  by (auto simp: postgres_laws_def listPostgres_def stoi_showInt)

section \<open>Files\<close>

definition anyImage :: "string \<Rightarrow> (int \<times> int) option" where
  "anyImage path = Some (64, 64)"

definition anyConfig :: "string \<Rightarrow> asset_error + animation_config" where
  "anyConfig = loadAnimationConfig (\<lambda>_. Some (shippedText Moving))"

lemma any_files_ok: "files_ok dir anyImage anyConfig"
  by (simp add: files_ok_def anyImage_def anyConfig_def load_shipped [of _ _ Moving] del: shippedText.simps)

section \<open>A room on a full-sized board\<close>

definition emptyRow :: string where
  "emptyRow = ''. . . . . . . .'' @ [newline]"

definition wideText :: string where
  "wideText = ''bK . . . . . . .'' @ [newline] @ concat (replicate 6 emptyRow) @ ''. . . . . . . wK'' @ [newline]"

lemma wide_board:
  "getWidth (boardOf wideText) = 8" "getHeight (boardOf wideText) = 8" "session_fits (sessionOf wideText)"
  "case stepPayload (sessionOf wideText) of Inl _ \<Rightarrow> False | Inr _ \<Rightarrow> True"
  by code_simp+

lemma wide_onBoard64: "onBoard64 (gs_engine (sessionOf wideText))"
proof -
  have e: "gs_engine (sessionOf wideText) = engineOf wideText" by (simp add: sessionOf_def newSession_def engineOf_def)
  have "eng_board (engineOf wideText) = boardOf wideText" "clock (engineOf wideText) = 0"
    by (simp_all add: engineOf_def newEngine_def newArbiter_def)
  then show ?thesis using wide_board(1,2) by (simp add: onBoard64_def e)
qed

section \<open>A shard and a window\<close>

text \<open>A shard whose session store is the Redis above, with one token in it, and the window of a player on the board above.\<close>

definition tallyEnv :: environment where
  "tallyEnv = \<lparr>env_dump = tallyDump, env_parse = tallyParse, env_what = (\<lambda>_. []), env_parseWhat = (\<lambda>_. []), env_hash = length, env_writable = True,
     env_sessionStore = Some (\<lambda>t. fst (sessionGet tallyParse listRedis t (sessionPut tallyDump listRedis ''token'' ''ann'' 1200 []))),
     env_nats = False, env_gameHistory = False, env_gameStateStore = False\<rparr>"

definition tallyServer :: server where
  "tallyServer = \<lparr>sv_registry = snd (snd (createRoom ''room'' (boardOf wideText) True (newRegistry False [] False))), sv_clients = [],
     sv_tickets = newTickets [], sv_hub = \<lparr>hub_bus = [], hub_broadcasters = [], hub_next = 0\<rparr>, sv_users = [], sv_idCounter = 1\<rparr>"

definition wideWindow :: window where
  "wideWindow = \<lparr>wn_snapshot = snapshot (engineOf wideText), wn_cellSize = CELL_SIZE,
     wn_controller = \<lparr>selectedPos = None, myColor = Some White, sent = []\<rparr>,
     wn_resizing = False, wn_dragStartX = 0, wn_dragStartY = 0, wn_dragStartCellSize = 0\<rparr>"

section \<open>A cluster\<close>

text \<open>
  One shard and a Redis in memory. Alice and Bob press Play; every message is delivered, and the shard has
  announced itself before.
\<close>

definition freshCluster :: "mem_store cluster" where
  "freshCluster = \<lparr>cu_gateway = idleApi, cu_matchmaker = idleMatchmaker, cu_allocator = \<lparr>al_shardLoad = [], al_allocations = 0\<rparr>,
     cu_shards = [(''s'', freshServer)], cu_bus = [], cu_answers = [], cu_plays = [], cu_matches = []\<rparr>"

definition playEnv :: api_environment where
  "playEnv = apiEnv\<lparr>ae_session := (\<lambda>t. Some \<lparr>csd_username = t, csd_elo = 1200\<rparr>)\<rparr>"

definition playRun :: "string \<Rightarrow> cluster_event list" where
  "playRun u = [Beat 0 0, DeliverNats 0 False, PressPlay 5 ''alice'' (0, 1), PressPlay 6 u (0, 2),
     DeliverNats 0 False, DeliverNats 0 False, DeliverNats 0 False, DeliverNats 0 False]"

definition playedBy :: "string \<Rightarrow> mem_store cluster" where
  "playedBy u = fold (cluster_step memRedis (\<lambda>_. []) (\<lambda>n. [0..<n]) playEnv) (playRun u) freshCluster"

definition told :: "'r cluster \<Rightarrow> (conn \<times> json) list \<times> (conn \<times> string) list \<times> bool" where
  "told cu = (cu_answers cu, map snd (cu_plays cu), distinct (map fst (cu_plays cu)))"

lemma memRedis_counter: "counter_laws memRedis"
  by (auto simp: counter_laws_def memRedis_def Let_def)

lemma freshCluster_started: "cluster_started memRedis freshCluster"
  using freshServer_ok emptyStore_ok by (simp add: cluster_started_def freshCluster_def shards_ok_def idleMatchmaker_def idleApi_def)

lemma both_told: "told (playedBy ''bob'') =
  ([(5, matchFound ''match-1'' ''s''), (6, matchFound ''match-1'' ''s'')], [(5, ''alice''), (6, ''bob'')], True)"
  by code_simp

text \<open>The one pair that was found: Alice had waited.\<close>

definition pairNames :: "'r cluster \<Rightarrow> (string option \<times> string option) list" where
  "pairNames cu = (let name = map_of (map (\<lambda>(t, con, u). (t, u)) (cu_plays cu)) in map (\<lambda>(a, b). (name a, name b)) (cu_matches cu))"

lemma pairNames_playedBy: "pairNames (playedBy ''bob'') = [(Some ''alice'', Some ''bob'')]"
  by code_simp

lemma both_matched:
  assumes "(ta, tb) \<in> set (cu_matches (playedBy ''bob''))" "(ta, ca, white) \<in> set (cu_plays (playedBy ''bob''))"
    "(tb, cb, black) \<in> set (cu_plays (playedBy ''bob''))"
  shows "white = ''alice''" "black = ''bob''"
proof -
  let ?ps = "cu_plays (playedBy ''bob'')" let ?name = "map_of (map (\<lambda>(t, con, u). (t, u)) ?ps)"
  have "distinct (map fst ?ps)" using both_told by (simp add: told_def)
  then have "distinct (map fst (map (\<lambda>(t, con, u). (t, u)) ?ps))" by (simp add: comp_def case_prod_beta)
  then have "?name ta = Some white" "?name tb = Some black" using assms(2,3) by (force intro!: map_of_is_SomeI)+
  moreover have "(?name ta, ?name tb) \<in> set (pairNames (playedBy ''bob''))" using assms(1) by (force simp: pairNames_def Let_def)
  ultimately show "white = ''alice''" "black = ''bob''" by (simp_all add: pairNames_playedBy)
qed

text \<open>
  Nothing compares the names of the two players: a user who asks a second time while the first ticket waits is
  matched with himself, and since the second reservation replaces the first, both connections play Black.
\<close>

lemma self_match:
  "matchesIn (fst (mm_run memRedis [MatchRequest (playRequest ''t1'' ''ann'' 1200), MatchRequest (playRequest ''t2'' ''ann'' 1200)] idleMatchmaker)) =
    [matchedEvent \<lparr>mc_ticketId = ''t1'', mc_username = ''ann'', mc_elo = 1200\<rparr> ''t2'' ''ann'' 1200]"
  by code_simp

lemma self_match_seats:
  assumes "registry_ok reg" "roomExists name reg" "u \<noteq> []"
  shows "roleOf h (snd (joinRoom name h u (reserveSeats name u u reg))) = Black"
proof -
  obtain r where r: "map_of (reg_rooms (reserveSeats name u u reg)) name = Some r" "map_of (r_seatReservations r) u = Some Black"
    using assms(2) by (auto simp: roomExists_def reserveSeats_def withRoom_def map_of_map_entry update_conv')
  show ?thesis
    using joinRoom_seat(2) [OF reserveSeats_ok [OF assms(1)] r(1), of h u] r(2) assms(3) by simp
qed

end
