(* ===== verification/Script.thy ===== *)
theory Script
  imports Matchmaking
begin

text \<open>
  The scripted games of \<open>texttests/\<close>: \<open>ScriptParser.cpp\<close> reads the commands that follow a board,
  \<open>ScriptRunner.cpp\<close> plays them on an engine. The lemmas say that a scripted click does what a click
  of the client and its message do together, and that a script keeps the engine consistent.
\<close>

section \<open>The parser\<close>

datatype script_command_type = ClickCommand | JumpCommand | WaitCommand | PrintBoardCommand

record script_command =
  sc_type :: script_command_type
  sc_x :: int
  sc_y :: int
  sc_ms :: int
  sc_expectedBoard :: "string list"

text \<open>
  \<open>ls >> n\<close> for an \<open>int\<close>: the value, whether the stream is still good, and the rest. A number that
  does not fit gives the nearest one that does and a failure.
\<close>

definition isDigit :: "char \<Rightarrow> bool" where
  "isDigit c \<longleftrightarrow> CHR ''0'' \<le> c \<and> c \<le> CHR ''9''"

definition extractInt :: "string \<Rightarrow> int \<times> bool \<times> string" where
  "extractInt s =
     (let s1 = dropWhile isSpace s;
          neg = (s1 \<noteq> [] \<and> hd s1 = CHR ''-'');
          s2 = (if s1 \<noteq> [] \<and> (hd s1 = CHR ''-'' \<or> hd s1 = CHR ''+'') then tl s1 else s1);
          ds = takeWhile isDigit s2;
          n = (if neg then - int (readNat ds) else int (readNat ds))
      in if ds = [] then (0, False, s2)
         else if n < INT_MIN then (INT_MIN, False, dropWhile isDigit s2)
         else if n > INT_MAX then (INT_MAX, False, dropWhile isDigit s2)
         else (n, True, dropWhile isDigit s2))"

text \<open>\<open>ls >> cmd.x >> cmd.y\<close>: after a failure the second number keeps its initial 0.\<close>

definition extractPair :: "string \<Rightarrow> int \<times> int" where
  "extractPair s =
     (let (x, ok, rest) = extractInt s in (x, if ok then fst (extractInt rest) else 0))"

fun readExpected :: "nat \<Rightarrow> string \<Rightarrow> (string list \<times> string) option" where
  "readExpected 0 inp = Some ([], inp)"
| "readExpected (Suc n) inp =
     (case getline inp of
        None \<Rightarrow> None
      | Some (line, rest) \<Rightarrow> map_option (\<lambda>(ls, r). (stripCR line # ls, r)) (readExpected n rest))"

lemma readExpected_shorter: "readExpected n inp = Some (ls, r) \<Longrightarrow> length r \<le> length inp"
proof (induction n arbitrary: inp ls)
  case (Suc n)
  then obtain line rest ls' where "getline inp = Some (line, rest)" "readExpected n rest = Some (ls', r)"
    by (auto split: option.splits)
  then show ?case using Suc.IH getline_shorter by fastforce
qed simp

definition firstWord :: "string \<Rightarrow> string \<times> string" where
  "firstWord s = (let s1 = dropWhile isSpace s in (takeWhile (\<lambda>c. \<not> isSpace c) s1, dropWhile (\<lambda>c. \<not> isSpace c) s1))"

definition pointCommand :: "script_command_type \<Rightarrow> string \<Rightarrow> script_command" where
  "pointCommand ty args = (let (x, y) = extractPair args
     in \<lparr>sc_type = ty, sc_x = x, sc_y = y, sc_ms = 0, sc_expectedBoard = []\<rparr>)"

function parseScript :: "int \<Rightarrow> script_command list \<Rightarrow> string \<Rightarrow> string + script_command list" where
  "parseScript height commands inp =
     (case getline inp of
        None \<Rightarrow> Inr commands
      | Some (line0, rest) \<Rightarrow>
          let line = stripCR line0; (word1, args) = firstWord line
          in if line = [] then parseScript height commands rest
             else if word1 = ''click'' then parseScript height (commands @ [pointCommand ClickCommand args]) rest
             else if word1 = ''jump'' then parseScript height (commands @ [pointCommand JumpCommand args]) rest
             else if word1 = ''wait'' then
               parseScript height (commands @ [\<lparr>sc_type = WaitCommand, sc_x = 0, sc_y = 0, sc_ms = fst (extractInt args),
                 sc_expectedBoard = []\<rparr>]) rest
             else if word1 = ''print'' then
               (if fst (firstWord args) \<noteq> ''board'' then Inl ''ERROR UNKNOWN_COMMAND''
                else case readExpected (nat height) rest of
                       None \<Rightarrow> Inl ''ERROR MISSING_EXPECTED_BOARD''
                     | Some (ls, rest') \<Rightarrow>
                         parseScript height (commands @ [\<lparr>sc_type = PrintBoardCommand, sc_x = 0, sc_y = 0, sc_ms = 0,
                           sc_expectedBoard = ls\<rparr>]) rest')
             else Inl ''ERROR UNKNOWN_COMMAND'')"
  by pat_completeness auto
termination
proof (relation "measure (\<lambda>(h, cs, inp). length inp)", goal_cases)
  case 1
  then show ?case by simp
next
  case (6 h cs inp x line0 rest line y word1 args z ls rest')
  have "getline inp = Some (line0, rest)" "readExpected (nat h) rest = Some (ls, rest')" using 6 by (simp_all only:)
  then show ?case using getline_shorter [of inp line0 rest] readExpected_shorter [of "nat h" rest ls rest'] by simp
qed (auto dest: getline_shorter)

declare parseScript.simps [simp del]

section \<open>The runner\<close>

record script_result =
  sr_passed :: bool
  sr_message :: string

definition outOfBounds :: "game_snapshot \<Rightarrow> int \<Rightarrow> int \<Rightarrow> bool" where
  "outOfBounds snap x y =
     (let boardWidthPx = board_width snap * CELL_SIZE; boardHeightPx = board_height snap * CELL_SIZE
      in x < 0 \<or> y < 0 \<or> x \<ge> boardWidthPx \<or> y \<ge> boardHeightPx)"

definition pieceColorAt :: "game_snapshot \<Rightarrow> position \<Rightarrow> color" where
  "pieceColorAt snap pos = (case find (\<lambda>p. sp_cell p = pos) (pieces snap) of None \<Rightarrow> NoColor | Some p \<Rightarrow> sp_color p)"

type_synonym script_state = "game_engine \<times> position option"

definition scriptClick :: "(json_error \<Rightarrow> string) \<Rightarrow> int \<Rightarrow> int \<Rightarrow> script_state \<Rightarrow> script_state" where
  "scriptClick what x y = (\<lambda>(e, selected).
     let snap = snapshot e
     in if outOfBounds snap x y then (e, None)
        else let outcome = resolveClick snap selected (mapToPosition x y CELL_SIZE) None
             in case co_type outcome of
                  Selected \<Rightarrow> (e, Some (co_pos outcome))
                | SendMove \<Rightarrow> (snd (dispatch what (moveMessage (co_from outcome) (co_to outcome)) e (pieceColorAt snap (co_from outcome))), None)
                | SendJump \<Rightarrow> (snd (dispatch what (jumpMessage (co_pos outcome)) e (pieceColorAt snap (co_pos outcome))), None)
                | NoOp \<Rightarrow> (e, selected))"

definition scriptJump :: "(json_error \<Rightarrow> string) \<Rightarrow> int \<Rightarrow> int \<Rightarrow> script_state \<Rightarrow> script_state" where
  "scriptJump what x y = (\<lambda>(e, selected).
     let snap = snapshot e
     in if outOfBounds snap x y then (e, selected)
        else let pos = mapToPosition x y CELL_SIZE in (snd (dispatch what (jumpMessage pos) e (pieceColorAt snap pos)), selected))"

definition expectedText :: "string list \<Rightarrow> string" where
  "expectedText ls = concat (map (\<lambda>l. l @ [newline]) ls)"

definition comparison :: "string \<Rightarrow> string \<Rightarrow> string" where
  "comparison expected actual = ''expected:'' @ [newline] @ expected @ ''actual:'' @ [newline] @ actual"

fun runCommands :: "(json_error \<Rightarrow> string) \<Rightarrow> orders \<Rightarrow> script_command list \<Rightarrow> script_state \<Rightarrow> script_result \<times> script_state" where
  "runCommands what ords [] st = (\<lparr>sr_passed = True, sr_message = []\<rparr>, st)"
| "runCommands what ords (cmd # cmds) st =
     (case sc_type cmd of
        ClickCommand \<Rightarrow> runCommands what ords cmds (scriptClick what (sc_x cmd) (sc_y cmd) st)
      | JumpCommand \<Rightarrow> runCommands what ords cmds (scriptJump what (sc_x cmd) (sc_y cmd) st)
      | WaitCommand \<Rightarrow> runCommands what ords cmds (wait ords (sc_ms cmd) (fst st), snd st)
      | PrintBoardCommand \<Rightarrow>
          let actual = printSnapshot (snapshot (fst st)); expected = expectedText (sc_expectedBoard cmd)
          in if actual \<noteq> expected then (\<lparr>sr_passed = False, sr_message = comparison expected actual\<rparr>, st)
             else runCommands what ords cmds st)"

definition runScript :: "(json_error \<Rightarrow> string) \<Rightarrow> orders \<Rightarrow> int \<Rightarrow> string \<Rightarrow> string + script_result" where
  "runScript what ords idCounter inp =
     sbind (parseBoardOnly inp idCounter) (\<lambda>(b, n, rest).
     sbind (parseScript (getHeight b) [] rest) (\<lambda>cmds.
     Inr (fst (runCommands what ords cmds (newEngine b False, None)))))"

section \<open>Scripts and the client\<close>

text \<open>The messages a controller has sent reach the engine in the name of the owner of the piece.\<close>

definition deliverSent :: "(json_error \<Rightarrow> string) \<Rightarrow> message list \<Rightarrow> color \<Rightarrow> game_engine \<Rightarrow> game_engine" where
  "deliverSent what ms c e = fold (\<lambda>m e. snd (dispatch what m e c)) ms e"

lemma scriptClick_controller:
  fixes e selected x y
  defines "r \<equiv> handleMouseClick (snapshot e) CELL_SIZE x y \<lparr>selectedPos = selected, myColor = None, sent = []\<rparr>"
  shows "scriptClick what x y (e, selected) =
    (deliverSent what (sent (snd r)) (case selected of None \<Rightarrow> NoColor | Some p \<Rightarrow> pieceColorAt (snapshot e) p) e, selectedPos (snd r))"
proof (cases "outOfBounds (snapshot e) x y")
  case True
  then show ?thesis by (simp add: r_def scriptClick_def handleMouseClick_def deliverSent_def outOfBounds_def Let_def)
next
  case False
  define o1 where "o1 = resolveClick (snapshot e) selected (mapToPosition x y CELL_SIZE) None"
  have o: "co_type o1 = SendMove \<Longrightarrow> selected = Some (co_from o1)" "co_type o1 = SendJump \<Longrightarrow> selected = Some (co_pos o1)"
    by (auto simp: o1_def resolveClick_def split: option.splits if_splits)
  have c: "r = (co_type o1, case co_type o1 of
        Selected \<Rightarrow> \<lparr>selectedPos = Some (co_pos o1), myColor = None, sent = []\<rparr>
      | SendMove \<Rightarrow> \<lparr>selectedPos = None, myColor = None, sent = [moveMessage (co_from o1) (co_to o1)]\<rparr>
      | SendJump \<Rightarrow> \<lparr>selectedPos = None, myColor = None, sent = [jumpMessage (co_pos o1)]\<rparr>
      | NoOp \<Rightarrow> \<lparr>selectedPos = selected, myColor = None, sent = []\<rparr>)"
    using False by (simp add: r_def handleMouseClick_def outOfBounds_def Let_def o1_def [symmetric] split: click_outcome_type.split)
  have s: "scriptClick what x y (e, selected) = (case co_type o1 of
      Selected \<Rightarrow> (e, Some (co_pos o1))
    | SendMove \<Rightarrow> (snd (dispatch what (moveMessage (co_from o1) (co_to o1)) e (pieceColorAt (snapshot e) (co_from o1))), None)
    | SendJump \<Rightarrow> (snd (dispatch what (jumpMessage (co_pos o1)) e (pieceColorAt (snapshot e) (co_pos o1))), None)
    | NoOp \<Rightarrow> (e, selected))"
    unfolding o1_def using False by (simp add: scriptClick_def Let_def)
  show ?thesis unfolding s c by (cases "co_type o1") (simp_all add: o deliverSent_def)
qed

lemma runCommands_ok:
  assumes "engine_ok (fst st)" "orders_ok ords" "list_all (\<lambda>cmd. 0 \<le> sc_ms cmd) cmds"
  shows "engine_ok (fst (snd (runCommands what ords cmds st)))"
  using assms
proof (induction cmds arbitrary: st)
  case (Cons cmd cmds)
  have "engine_ok (fst (scriptClick what x y st))" "engine_ok (fst (scriptJump what x y st))" for x y
    using dispatch_ok Cons.prems(1) by (cases st; auto simp: scriptClick_def scriptJump_def Let_def split: click_outcome_type.split)+
  moreover have "engine_ok (wait ords (sc_ms cmd) (fst st))"
    using engine.step_invar [of "fst st" "Elapse ords (sc_ms cmd)"] Cons.prems by simp
  ultimately show ?case using Cons by (simp add: Let_def split: script_command_type.split)
qed simp

text \<open>The boards a script passes through, one for each \<open>print board\<close> that is reached.\<close>

lemma runCommands_passed:
  assumes "fst (runCommands what ords (cmds @ cmd # cmds') st) = \<lparr>sr_passed = True, sr_message = []\<rparr>" "sc_type cmd = PrintBoardCommand"
  shows "printSnapshot (snapshot (fst (snd (runCommands what ords cmds st)))) = expectedText (sc_expectedBoard cmd)"
  using assms
proof (induction cmds arbitrary: st)
  case (Cons c cmds)
  then show ?case by (cases "sc_type c") (auto simp: Let_def split: if_splits)
qed (simp add: Let_def split: if_splits)

end
