(* ===== verification/Spec2Isabelle.thy ===== *)
theory Spec2Isabelle
  imports Surroundings Script
begin

text \<open>
  Kung Fu Chess is chess without turns, played over the network in real time. Paths below are
  relative to \<open>src/Kung_Fu_Chess\<close>.

  \<^bold>\<open>The program and its parts.\<close> A game server (a shard, \<open>server/\<close>) runs many rooms. A room
  (\<open>GameSession\<close>) owns an engine (\<open>GameEngine\<close>), which owns a board, a rule engine and a real-time
  arbiter: a move request that the rules accept becomes a motion, which takes one second per
  square; on every tick the arbiter resolves collisions, blocks and arrivals and lets pieces rest.
  Observers collect captures and moves. A timer starts a tick of each room on a thread pool; the
  result is delivered on the event loop. Clients talk to the shard in JSON messages; handlers log
  them in, seat them and pass moves and jumps to the engine of their room. A matchmaker pairs
  tickets by rating, an allocator opens rooms on the least loaded shard, and a gateway forwards
  WebSocket frames and serves an HTTP interface. Shards and gateways share a room directory and a store
  of login tokens in Redis. The client logs in, claims a seat from its home screen, draws snapshots and
  turns clicks into messages. \<open>texttests/\<close> plays scripted games.

  \<^bold>\<open>Which theory models what.\<close>
  \<^item> \<open>Prelude\<close>: hash maps with an unspecified iteration order, error monad, generic interfaces of
    components driven by events (locales \<open>guarded_steps\<close>, \<open>monotone_steps\<close>).
  \<^item> \<open>Chess_Model\<close>: \<open>shared/model\<close> (positions, pieces, board). \<open>Rules\<close>: \<open>server/rules\<close>.
  \<^item> \<open>Motion_Path\<close>, \<open>Collision\<close>, \<open>Arbiter\<close>: \<open>server/realtime\<close>. The state of the arbiter, the board
    included, is one record; \<open>tick\<close> composes the passes in the order of the code. What the passes
    do, without their loops, is in \<open>Collision_Outcome\<close> and \<open>First_Events\<close>; \<open>Arbiter_Laws\<close>,
    \<open>Liveness\<close> and \<open>Tick_Order\<close> hold the laws of a tick.
  \<^item> \<open>Engine\<close>, \<open>Engine_Laws\<close>: \<open>server/engine/GameEngine.cpp\<close>. \<open>Observers\<close>, \<open>Event_Log\<close>: the
    observers; a notification is an entry of the arbiter's event list.
  \<^item> \<open>Board_IO\<close>: \<open>server/io\<close> and the starting position. \<open>Json\<close>, \<open>Codecs\<close>: \<open>shared/protocol\<close>.
    \<open>Dispatch\<close>: \<open>client/input\<close>, \<open>shared/input\<close>, \<open>server/app/logic/CommandDispatcher.cpp\<close>.
  \<^item> \<open>Session\<close>, \<open>Session_Laws\<close>: \<open>GameSession\<close> and \<open>EventBus\<close>. \<open>Rooms\<close>, \<open>Rooms_Laws\<close>: \<open>SessionRegistry\<close>,
    client sessions, disconnect countdowns. \<open>Services\<close>, \<open>Services_Laws\<close>: tickets, accounts, Elo,
    game history, mirrored state, broadcasters. \<open>Handlers\<close>, \<open>Handlers_Laws\<close>: \<open>server/app/handlers\<close>,
    \<open>ConnectionHandler\<close>. \<open>Shard\<close>, \<open>Shard_Laws\<close>: the tick loop of \<open>WsServer\<close>.
    \<open>Thread_Pool\<close>: \<open>server/concurrency/ThreadPool.cpp\<close> with its workers and its destructor.
  \<^item> \<open>Matchmaking\<close>, \<open>Matchmaking_Laws\<close>: \<open>shared/matchmaking\<close>, \<open>matchmaker\<close>, \<open>allocator\<close>, shard discovery.
    \<open>Gateway\<close>, \<open>Gateway_Laws\<close>: \<open>gateway\<close>. \<open>Script\<close>: \<open>texttests\<close>.
  \<^item> \<open>Stores\<close>, \<open>Stores_Laws\<close>: the Redis and Postgres classes of \<open>shared/db\<close> and \<open>server/db\<close> and the NATS
    client; the shards that share one Redis are the relation \<open>fleet_step\<close>.
  \<^item> \<open>Client\<close>, \<open>Client_Laws\<close>: \<open>client/net\<close>, login, mouse input. \<open>Sprites\<close>: \<open>client/view/assets\<close>, with the two
    caches. \<open>View\<close>, \<open>View_Laws\<close>: \<open>ImageView.cpp\<close> and \<open>img.cpp\<close>; a frame is the list of its drawing operations.
    \<open>App\<close>: the loop of \<open>GraphicalApplication.cpp\<close> as a run of texts, mouse events and frames. \<open>Home\<close>,
    \<open>Home_Laws\<close>: \<open>HomeScreenView.cpp\<close>, \<open>RoomDialog.cpp\<close> and the exchange that claims a seat. \<open>Screens\<close>: the
    message loops of the dialogs and what the home screen draws. \<open>Asset_Files\<close>: the readers of \<open>config.json\<close> and
    \<open>paths_config.txt\<close> and the check of a sound file. \<open>Ws_Client\<close>: \<open>WsClient.cpp\<close> and the connect function of the
    application.
  \<^item> \<open>Process_Start\<close>: what the \<open>main\<close> functions make of their environment, what \<open>/health\<close> and \<open>/metrics\<close>
    answer, the HTTP transport of the client, the commands of the sound player.
  \<^item> \<open>Cluster\<close>, \<open>Cluster_Laws\<close>: a gateway, a matchmaker, an allocator and the shards together, with the messages
    on their way between them as part of the state.
  \<^item> \<open>Scenarios\<close>, \<open>Server_Scenarios\<close>: concrete games and servers, evaluated in the kernel. \<open>Surroundings\<close>:
    instances of the parameters that satisfy the laws assumed of them.

  \<^bold>\<open>What is shown.\<close> Sections below: whole games (invariant, conservation of pieces, liveness,
  independence of the hash order), the exact outcome of collisions and arrivals, the rules,
  requests and snapshots, board text, messages and their authority, rooms and results, seats and
  disconnects, memory safety of the tick loop, isolation of connections, the thread pool, the two
  user repositories, matchmaking from the Play button up to the seat in the room, the gateway and the room directory, the way
  from a token to a seat, and the client from the message of a room to the picture and from a click
  on the picture to the cell. Some facts state what the code does where it does not do what it means
  to: \<open>game_end_report\<close> below, and the lemmas \<open>jumpRun_result\<close> and \<open>ghostRun_result\<close> of \<open>Scenarios\<close> (a king
  captured without an end of the game, a captured piece that captures), \<open>reaped_result\<close> and
  \<open>crowded_result\<close> of \<open>Server_Scenarios\<close> (a room removed under a player, a seat given twice),
  \<open>capture_of_nothing_throws\<close> of \<open>Codecs\<close>, \<open>brokenFrame_ends_shard\<close> of \<open>Server_Scenarios\<close> and \<open>broken_body_throws\<close>
  of \<open>Gateway_Laws\<close> (an error reply that cannot be printed), \<open>malformed_request_throws\<close> and \<open>queued_binary\<close> of
  \<open>Gateway_Laws\<close> (a binary frame that has to wait is sent on as text, or lost), \<open>held_return\<close> of \<open>Rooms_Laws\<close>, \<open>same_name_twice\<close> of
  \<open>Stores_Laws\<close> (two rooms of one name on two shards), \<open>no_store_no_answer\<close> and \<open>stray_click_kept\<close> of
  \<open>Home_Laws\<close>, \<open>connect_returns\<close> of \<open>Ws_Client\<close> (a failed connection is waited for), \<open>shipped_next_state\<close> of
  \<open>Asset_Files\<close>, \<open>error_does_not_wait\<close> of \<open>Screens\<close> (a popup that returns at once), \<open>self_match\<close> and
  \<open>self_match_seats\<close> of \<open>Surroundings\<close> (a player matched with himself). In four places the code does more than the
  course specification \<open>src/docs/kung_fu_chess_spec.md\<close> allows, and the theorems state what the code does: two-square pawn moves and
  passing of blockers in simultaneous mode (\<open>legal_destinations\<close>), friendly destinations (\<open>move_verdict\<close>), promotion and the
  defence by a jump (\<open>arrival_outcome\<close>), and a second click that moves the selection (\<open>second_click_effect\<close>).

  \<^bold>\<open>Conventions.\<close> \<open>int\<close> is \<open>int\<close> because overflow is undefined in C++; conversions of the JSON
  library wrap at 32 bits (\<open>wrap32\<close>), random tokens are 64-bit words, \<open>size_t\<close> counters wrap. A \<open>std::string\<close> is a list of bytes:
  the JSON library refuses to print one that is not UTF-8 (\<open>dumpStrict\<close>, \<open>validUtf8\<close>), the WebSocket library to send it as text
  (\<open>sendable\<close>), and the commands of hiredis take it up to its first null character (\<open>c_str\<close>). \<open>double\<close>
  is \<open>rat\<close> in progress values and \<open>real\<close> in the Elo formula: rounding is not modelled. Exceptions are
  \<open>Inl\<close> values, or an optional error beside the state reached before the throw. The loops of the
  source are structural recursion or \<open>function\<close>s with a termination proof; no definition needs fuel,
  and a waiting loop is a sequence of events. Iteration orders of hash maps are parameters and every
  theorem holds for all of them. \<open>Cluster\<close> keeps two histories for its theorem, the tickets played and the pairs the matchmaker
  found in its pool; no step reads them. Wake-ups of the thread pool's condition variable are taken as given: a worker that can go on is a possible step. Steps of a shard are atomic: data races between the event loop and
  a worker that uses the same session are outside the model.

  \<^bold>\<open>Parameters.\<close> Code that is not part of the repository's own sources enters as an argument: the text
  form of JSON (\<open>dump\<close>, \<open>parse\<close>), exception texts, \<open>std::hash\<close>, random numbers, the commands of Redis
  (\<open>redis_laws\<close> and \<open>redis_kv\<close> state what Redis documents; \<open>memRedis\<close> and \<open>listRedis\<close> satisfy them) and of
  Postgres (\<open>postgres_laws\<close>, \<open>listPostgres\<close>), replies over NATS, the contents of the image, sound and configuration files, environment
  variables, connections that succeed or fail, the messages of Windows.

  \<^bold>\<open>Not modelled.\<close> What OpenCV, MCI, Win32 and the socket libraries (websocketpp, asio, WinHTTP, nats.c) do with
  the calls they get: pixels, blending and fonts, playing a sound, handshakes and frames. Logging. The detached
  threads as threads: their steps are atomic. Rooms that close while the messages of \<open>Cluster\<close> are on their way.
  Vendored code and tests are left out.
\<close>

section \<open>The engine over whole games\<close>

text \<open>C1. Whatever sequence of move requests, jump requests and passages of time an engine in a
  consistent state goes through, it stays consistent, its clock never runs backwards, a finished
  game stays finished and the board keeps its size.\<close>

theorem engine_run_invariant:
  assumes "engine_ok e" "list_all event_ok evs"
  shows "engine_ok (fold engine_step evs e) \<and> clock e \<le> clock (fold engine_step evs e) \<and>
    (game_over e \<longrightarrow> game_over (fold engine_step evs e)) \<and>
    getWidth (eng_board (fold engine_step evs e)) = getWidth (eng_board e) \<and>
    getHeight (eng_board (fold engine_step evs e)) = getHeight (eng_board e)"
  using engine.run_invar [OF assms] engine.run_clock [OF assms] engine_run_frame [OF assms] by simp

theorem engine_run_invariant_witness:
  "engine_ok (engineOf jumpText) \<and> list_all event_ok jumpRun \<and> engine_ok (fold engine_step jumpRun (engineOf jumpText))"
  using engine_run_invariant [of "engineOf jumpText" jumpRun] by (simp add: jumpRun_def)

text \<open>C2. Pieces are neither lost nor duplicated: after any run of a game, the identifiers on the
  board together with those in the captured list are exactly the identifiers of the starting
  position, each of them once.\<close>

theorem pieces_conserved:
  assumes "board_wf b" "\<And>q. isWithinBounds b q \<Longrightarrow> getState (slot b q) = Idle" "list_all event_ok evs"
  shows "allIds (eng_arbiter (fold engine_step evs (newEngine b simultaneous))) = boardIds b \<and>
    (\<forall>i. count (allIds (eng_arbiter (fold engine_step evs (newEngine b simultaneous)))) i \<le> 1)"
  using engine_run_ids [OF newEngine_ok(1) [OF assms(1,2)] assms(3)] newEngine_ok(3) [OF assms(1,2)] board_wfD(4) [OF assms(1)]
  by simp

theorem pieces_conserved_witness:
  "board_wf (boardOf jumpText) \<and> list_all event_ok jumpRun \<and>
   allIds (eng_arbiter (fold engine_step jumpRun (newEngine (boardOf jumpText) True))) = boardIds (boardOf jumpText)"
  using pieces_conserved [OF boardOf_wf boardOf_idle, of jumpText jumpRun True] boardOf_wf [of jumpText]
  by (simp add: jumpRun_def)

text \<open>C3. No piece is stranded: if every piece that is not idle has a motion or a rest that will
  bring it back, this is still so after a tick, after a move request and after a jump request.\<close>

theorem nothing_stranded:
  assumes "engine_ok e" "live (eng_arbiter e)" "0 \<le> ms" "orders_ok ords"
  shows "live (fst (tick ords ms (eng_arbiter e))) \<and> live (eng_arbiter (snd (requestMove from to e))) \<and>
    live (eng_arbiter (snd (requestJump pos e)))"
  using assms tick_laws(8) [OF engine_okD(1) [OF assms(1)] assms(3,4)] live_requestMove live_requestJump by simp

theorem nothing_stranded_witness:
  "engine_ok (engineOf jumpText) \<and> live (eng_arbiter (engineOf jumpText)) \<and>
   live (eng_arbiter (snd (requestJump (Pos 0 1) (engineOf jumpText))))"
  using nothing_stranded [of "engineOf jumpText" 1000 inOrder "Pos 0 0" "Pos 0 1" "Pos 0 1"] by simp

text \<open>C4. A tick advances the clock by exactly the time given and leaves no motion that should
  already have arrived.\<close>

theorem tick_clock:
  assumes "arbiter_ok a" "0 \<le> ms" "orders_ok ords"
  shows "game_clock_ms (fst (tick ords ms a)) = game_clock_ms a + ms \<and>
    (\<forall>m \<in> set (active_motions (fst (tick ords ms a))). game_clock_ms a + ms < arrival_time_ms m)"
  using tick_laws(2,7) [OF assms] by auto

theorem tick_clock_witness:
  "arbiter_ok (eng_arbiter (engineOf ghostText)) \<and>
   game_clock_ms (fst (tick inOrder 2000 (eng_arbiter (engineOf ghostText)))) = 2000"
  using tick_clock [of "eng_arbiter (engineOf ghostText)" 2000 inOrder] engine_okD(1) [OF engineOf_ok(1) [of ghostText]]
  by (simp add: engineOf_def newEngine_def newArbiter_def)

text \<open>C5. The result of a tick does not depend on the order in which the hash maps of pending
  stops and of cooldowns are iterated: the two results agree in everything but the order of the
  cooldown entries, and agree on whether a king fell.\<close>

theorem tick_order_independent:
  assumes "arbiter_ok a" "0 \<le> ms" "orders_ok ords" "orders_ok ords'"
  shows "sim (fst (tick ords ms a)) (fst (tick ords' ms a)) \<and> snd (tick ords ms a) = snd (tick ords' ms a)"
  using tick_sim [OF assms] by simp

theorem tick_order_independent_witness:
  "orders_ok inOrder \<and> orders_ok reversed \<and>
   sim (fst (tick inOrder 2000 (eng_arbiter (engineOf ghostText)))) (fst (tick reversed 2000 (eng_arbiter (engineOf ghostText))))"
  using tick_order_independent [of "eng_arbiter (engineOf ghostText)" 2000 inOrder reversed]
    engine_okD(1) [OF engineOf_ok(1) [of ghostText]] by simp

section \<open>Collisions, blocks and arrivals\<close>

text \<open>C6. Collisions of a tick: exactly the motions that meet an enemy motion which has the right
  of way lose; the pieces on their starting cells leave the board, everything else on the board is
  untouched, the other motions stay in their order, and the king flag is raised exactly when one
  of the losers is a king.\<close>

theorem collision_outcome:
  assumes "arbiter_ok a"
  shows "let ms = active_motions a; b = arb_board a; r = resolveCollisions p g (a, kc) in
    active_motions (fst r) = map (\<lambda>i. ms ! i) (filter (\<lambda>i. \<not> collisionLoser b ms p g i) [0..<length ms]) \<and>
    (\<forall>q. isWithinBounds b q \<longrightarrow> slot (arb_board (fst r)) q =
       (if \<exists>i<length ms. collisionLoser b ms p g i \<and> m_from (ms ! i) = q then emptyPiece q else slot b q)) \<and>
    (snd r \<longleftrightarrow> kc \<or> (\<exists>i<length ms. collisionLoser b ms p g i \<and> getKind (slot b (m_from (ms ! i))) = King))"
proof -
  have w: "isWithinBounds (arb_board a) (m_from m)" if "m \<in> set (active_motions a)" for m
    using arbiter_okD(3) [OF assms that] by (simp add: motion_ok_def)
  note o = resolveCollisions_outcome [OF arbiter_okD(2) [OF assms] w, where p = p and g = g and kc = kc]
  have "snd (resolveCollisions p g (a, kc)) \<longleftrightarrow> kc \<or> (\<exists>i<length (active_motions a).
      collisionLoser (arb_board a) (active_motions a) p g i \<and> getKind (slot (arb_board a) (m_from (active_motions a ! i))) = King)"
  proof (cases "active_motions a")
    case Nil
    then show ?thesis by (simp add: resolveCollisions_def Let_def case_prod_beta)
  next
    case (Cons m ms)
    have "isWithinBounds (arb_board a) (m_from m)" by (rule w) (simp add: Cons)
    then show ?thesis by (intro o(3)) assumption
  qed
  then show ?thesis unfolding Let_def by (intro conjI allI impI o(1) o(2)) assumption+
qed

theorem collision_outcome_witness:
  "arbiter_ok (eng_arbiter (engineOf ghostText)) \<and>
   active_motions (fst (resolveCollisions 0 2000 (eng_arbiter (engineOf ghostText), False))) = []"
  using collision_outcome [of "eng_arbiter (engineOf ghostText)" 0 2000 False] engine_okD(1) [OF engineOf_ok(1) [of ghostText]]
  by (simp add: Let_def engineOf_def newEngine_def newArbiter_def)

text \<open>C7. What one pass of \<open>resolveMovingFriendlyBlocks\<close> does to the slides under way: a slide of a piece other
  than a knight that meets, between the two clock values, a friendly slide with the right of way is cut to the
  checkpoint before its first such meeting; when that is its very first checkpoint the motion is cancelled,
  the piece rests where it stands and its cooldown runs until the long rest is over. Every other motion,
  cell and cooldown stays as it was, nothing is captured, and knights are never stopped.\<close>

theorem friendly_stop_outcome:
  assumes "arbiter_ok a" "iteration_order ord"
  shows "let ms = active_motions a; b = arb_board a; r = resolveMovingFriendlyBlocks ord p g a;
        first = firstBlocked b ms p g
    in active_motions r = map (\<lambda>l. case first l of Some (Suc k) \<Rightarrow> truncateAtCheckpoint (ms ! l) k | _ \<Rightarrow> ms ! l)
         (filter (\<lambda>l. first l \<noteq> Some 0) [0..<length ms]) \<and>
       (\<forall>q. isWithinBounds b q \<longrightarrow> slot (arb_board r) q =
         (if \<exists>l<length ms. first l = Some 0 \<and> m_from (ms ! l) = q then transitionTo LongRest (slot b q) else slot b q)) \<and>
       (\<forall>i. map_of (cooldown_until_ms r) i =
         (if \<exists>l<length ms. first l = Some 0 \<and> piece_id (ms ! l) = i then Some (g + LONG_REST_MS)
          else map_of (cooldown_until_ms a) i)) \<and>
       captured_pieces r = captured_pieces a \<and>
       (\<forall>l<length ms. getKind (slot b (m_from (ms ! l))) = Knight \<longrightarrow> first l = None)"
proof -
  have "firstBlocked (arb_board a) (active_motions a) p g l = None"
    if "l < length (active_motions a)" "getKind (slot (arb_board a) (m_from (active_motions a ! l))) = Knight" for l
    using that arbiter_okD(3) [OF assms(1) nth_mem [OF that(1)]] by (intro firstBlocked_Knight) (simp_all add: motion_ok_def)
  then show ?thesis unfolding Let_def using friendlyBlocks_first [OF assms] by simp
qed

theorem friendly_stop_outcome_witness:
  "arbiter_ok crossing \<and> iteration_order (inOrder 0) \<and>
   (let r = resolveMovingFriendlyBlocks (inOrder 0) 0 1000 crossing in
    active_motions r = [crossMotions ! 0] \<and>
    map_of (cooldown_until_ms r) 2 = Some (1000 + LONG_REST_MS) \<and>
    slot (arb_board r) (Pos 1 0) = transitionTo LongRest (slot (boardOf crossText) (Pos 1 0)))"
proof -
  have m: "active_motions crossing = crossMotions" "length crossMotions = 2" by (simp_all add: crossing_def crossMotions_def)
  have f: "firstBlocked (arb_board crossing) crossMotions 0 1000 0 = None"
    "firstBlocked (arb_board crossing) crossMotions 0 1000 (Suc 0) = Some 0"
    using stopTable_first [of 0 crossMotions "arb_board crossing" 0 1000]
      stopTable_first [of 1 crossMotions "arb_board crossing" 0 1000] by (auto simp: crossing_stops m eq_commute [of "Some 0"])
  have w: "isWithinBounds (boardOf crossText) (Pos 1 0)" by code_simp
  have i: "\<exists>l<2. firstBlocked (arb_board crossing) crossMotions 0 1000 l = Some 0 \<and> piece_id (crossMotions ! l) = 2"
    "\<exists>l<2. firstBlocked (arb_board crossing) crossMotions 0 1000 l = Some 0 \<and> m_from (crossMotions ! l) = Pos 1 0"
    using f by (auto intro!: exI [of _ 1] simp: crossMotions_def)
  have u: "[0..<2] = [0, Suc 0]" by (simp add: numeral_2_eq_2)
  have o: "iteration_order (inOrder 0)" using inOrder_ok by (simp add: orders_ok_def)
  show ?thesis
    using friendly_stop_outcome [OF crossing_ok o, of 0 1000] crossing_ok o w i
    by (simp add: Let_def m u f) (simp add: crossing_board)
qed

text \<open>C8. A new motion yields to the friendly motions under way: it stops one checkpoint before
  the first cell that a friendly motion passes no later than it would, it is refused when that is
  its first checkpoint, and a knight is never held back.\<close>

theorem near_miss_first_claim:
  assumes "isWithinBounds b (m_from m)"
  shows "applyNearMiss b ms m =
    (if getKind (slot b (m_from m)) = Knight then Some m
     else case firstClaimed b ms m of
            None \<Rightarrow> Some m
          | Some 0 \<Rightarrow> None
          | Some (Suc k) \<Rightarrow> Some (truncateAtCheckpoint m k))"
  using applyNearMiss_first [OF assms] .

theorem near_miss_first_claim_witness:
  "isWithinBounds (boardOf ghostText) (Pos 0 0) \<and>
   applyNearMiss (boardOf ghostText) [] \<lparr>m_from = Pos 0 0, m_to = Pos 0 7, start_time_ms = 0, arrival_time_ms = 7000, piece_id = 1\<rparr> =
     Some \<lparr>m_from = Pos 0 0, m_to = Pos 0 7, start_time_ms = 0, arrival_time_ms = 7000, piece_id = 1\<rparr>"
proof -
  have w: "isWithinBounds (boardOf ghostText) (Pos 0 0)" by code_simp
  then show ?thesis
    using near_miss_first_claim [of "boardOf ghostText"
        "\<lparr>m_from = Pos 0 0, m_to = Pos 0 7, start_time_ms = 0, arrival_time_ms = 7000, piece_id = 1\<rparr>" "[]"]
    by (simp add: firstClaimed_def claimed_def firstWith_def)
qed

text \<open>C9. An arriving slide, cell by cell. The piece that set out is on cooldown from now on, whatever happens,
  and only the two cells of the slide can change. When another piece (or none) stands on the starting cell the
  board stays as it is. A target that jumps or rests after a jump captures the attacker. With collisions
  enabled a target of the mover's colour makes every piece but a knight stay and rest. Otherwise the piece
  stands on the target cell, resting, a pawn on its last row as a queen (the course specification has no promotion);
  what stood there is captured, and the king flag is raised exactly when that was a king.\<close>

theorem arrival_outcome:
  assumes "arbiter_ok a" "motion_ok (arb_board a) t m" "m_from m \<noteq> m_to m" "resolve g m (a, kc) = (a', kc')"
  shows "let b = arb_board a; b' = arb_board a'; mover = slot b (m_from m); target = slot b (m_to m);
      stale = getId mover \<noteq> piece_id m;
      defended = getState target = Jump \<or> getState target = ShortRest;
      barred = collisionEnabled a \<and> getColor target = getColor mover \<and> getKind mover \<noteq> Knight;
      lastRow = (if getColor mover = White then 0 else getHeight b - 1)
    in active_motions a' = active_motions a \<and>
      (\<forall>i. map_of (cooldown_until_ms a') i =
        (if i = piece_id m then Some (g + LONG_REST_MS) else map_of (cooldown_until_ms a) i)) \<and>
      (\<forall>q. isWithinBounds b q \<and> q \<noteq> m_from m \<and> q \<noteq> m_to m \<longrightarrow> slot b' q = slot b q) \<and>
      (stale \<longrightarrow> b' = b \<and> captured_pieces a' = captured_pieces a \<and> kc' = kc) \<and>
      (\<not> stale \<and> defended \<longrightarrow> slot b' (m_from m) = emptyPiece (m_from m) \<and> slot b' (m_to m) = target \<and>
        captured_pieces a' = captured_pieces a @ [mover\<lparr>getState := Captured\<rparr>] \<and> kc' = kc) \<and>
      (\<not> stale \<and> \<not> defended \<and> barred \<longrightarrow>
        slot b' (m_from m) = transitionTo LongRest mover \<and> slot b' (m_to m) = target \<and>
        captured_pieces a' = captured_pieces a \<and> kc' = kc) \<and>
      (\<not> stale \<and> \<not> defended \<and> \<not> barred \<longrightarrow>
        slot b' (m_from m) = emptyPiece (m_from m) \<and>
        slot b' (m_to m) = (transitionTo LongRest mover)\<lparr>getCell := m_to m,
          getKind := (if getKind mover = Pawn \<and> row (m_to m) = lastRow then Queen else getKind mover)\<rparr> \<and>
        captured_pieces a' = captured_pieces a @
          (if getKind target = NoKind then [] else [target\<lparr>getState := Captured\<rparr>]) \<and>
        (kc' \<longleftrightarrow> kc \<or> getKind target = King))"
proof -
  have w: "isWithinBounds (arb_board a) (m_from m)" "isWithinBounds (arb_board a) (m_to m)"
    using assms(2) by (simp_all add: motion_ok_def)
  note o = resolve_slide_outcome [OF assms(3) w arbiter_okD(2) [OF assms(1)] assms(4)]
  show ?thesis unfolding Let_def not_not by (intro conjI allI o(1,2)) (use o(3-) in blast)+
qed

theorem arrival_outcome_witness:
  "arbiter_ok (eng_arbiter (engineOf jumpText)) \<and>
   motion_ok (boardOf jumpText) 0 \<lparr>m_from = Pos 0 0, m_to = Pos 0 1, start_time_ms = 0, arrival_time_ms = 1000, piece_id = 1\<rparr> \<and>
   (let a' = fst (resolve 1000 \<lparr>m_from = Pos 0 0, m_to = Pos 0 1, start_time_ms = 0, arrival_time_ms = 1000, piece_id = 1\<rparr>
     (eng_arbiter (engineOf jumpText), False)) in
    slot (arb_board a') (Pos 0 0) = emptyPiece (Pos 0 0) \<and>
    getKind (slot (arb_board a') (Pos 0 1)) = King \<and> getId (slot (arb_board a') (Pos 0 1)) = 1 \<and>
    captured_pieces a' = [(slot (boardOf jumpText) (Pos 0 1))\<lparr>getState := Captured\<rparr>])"
proof -
  let ?m = "\<lparr>m_from = Pos 0 0, m_to = Pos 0 1, start_time_ms = 0, arrival_time_ms = 1000, piece_id = 1\<rparr>"
  let ?a = "eng_arbiter (engineOf jumpText)"
  have w: "isWithinBounds (boardOf jumpText) (Pos 0 0) \<and> isWithinBounds (boardOf jumpText) (Pos 0 1)" by code_simp
  have k: "getKind (slot (boardOf jumpText) (Pos 0 1)) = Rook" "getColor (slot (boardOf jumpText) (Pos 0 1)) = White"
    "getState (slot (boardOf jumpText) (Pos 0 1)) = Idle"
    "getKind (slot (boardOf jumpText) (Pos 0 0)) = King" "getColor (slot (boardOf jumpText) (Pos 0 0)) = Black"
    "getId (slot (boardOf jumpText) (Pos 0 0)) = 1" by code_simp+
  have b: "arb_board ?a = boardOf jumpText" "captured_pieces ?a = []"
    by (simp_all add: engineOf_def newEngine_def newArbiter_def)
  have m: "motion_ok (boardOf jumpText) 0 ?m"
    using w by (simp add: motion_ok_def timedMotion_def calcTravelTime_chebyshev chebyshev_def)
  note ok = engine_okD(1) [OF engineOf_ok(1) [of jumpText]]
  show ?thesis
    using arrival_outcome [of ?a 0 ?m 1000 False "fst (resolve 1000 ?m (?a, False))" "snd (resolve 1000 ?m (?a, False))"] m ok k
    by (simp add: Let_def b)
qed

section \<open>The rules\<close>

text \<open>C10. Where pieces can go. Rooks, bishops and queens reach exactly the cells on their rays that they
  can land on with every cell in between passable (in simultaneous mode occupied cells can be
  passed); a king the landable neighbours of its cell; a knight every cell of the board at a
  knight's move, whatever stands there; a pawn steps forward onto an empty cell, two cells from its
  starting row when both are empty, and captures diagonally forward what is not of its colour. This is the code's rule:
  \<open>docs/kung_fu_chess_spec.md\<close> has no two-square pawn move and lets no sliding piece pass a blocker.\<close>

theorem legal_destinations:
  "(slidingKind (getKind p) \<longrightarrow> (q \<in> set (legalDestinations b p relaxed) \<longleftrightarrow>
     (\<exists>(dr, dc) \<in> set (directionsOf (getKind p)). \<exists>n>0. q = ray (getCell p) dr dc n \<and> landable b p relaxed q \<and>
       (\<forall>j. 0 < j \<and> j < n \<longrightarrow> passable b relaxed (ray (getCell p) dr dc j))))) \<and>
   (getKind p = King \<longrightarrow> (q \<in> set (legalDestinations b p relaxed) \<longleftrightarrow> landable b p relaxed q \<and> q \<noteq> getCell p \<and>
     \<bar>row q - row (getCell p)\<bar> \<le> 1 \<and> \<bar>col q - col (getCell p)\<bar> \<le> 1)) \<and>
   (getKind p = Knight \<longrightarrow> (q \<in> set (legalDestinations b p relaxed) \<longleftrightarrow> isWithinBounds b q \<and>
     (\<bar>row q - row (getCell p)\<bar> = 2 \<and> \<bar>col q - col (getCell p)\<bar> = 1 \<or>
      \<bar>row q - row (getCell p)\<bar> = 1 \<and> \<bar>col q - col (getCell p)\<bar> = 2))) \<and>
   (getKind p = Pawn \<longrightarrow> (q \<in> set (legalDestinations b p relaxed) \<longleftrightarrow>
     (let r = row (getCell p); c = col (getCell p); d = pawnDir (getColor p) in
      q = Pos (r + d) c \<and> isCellEmpty b q \<or>
      q = Pos (r + 2 * d) c \<and> r = pawnStart b (getColor p) \<and> isCellEmpty b (Pos (r + d) c) \<and> isCellEmpty b q \<or>
      (q = Pos (r + d) (c - 1) \<or> q = Pos (r + d) (c + 1)) \<and> isWithinBounds b q \<and>
        \<not> isCellEmpty b q \<and> getColor (slot b q) \<noteq> getColor p)))"
proof (intro conjI impI)
  assume "slidingKind (getKind p)"
  from legalDestinations_sliding [OF this] show "q \<in> set (legalDestinations b p relaxed) \<longleftrightarrow>
     (\<exists>(dr, dc) \<in> set (directionsOf (getKind p)). \<exists>n>0. q = ray (getCell p) dr dc n \<and> landable b p relaxed q \<and>
       (\<forall>j. 0 < j \<and> j < n \<longrightarrow> passable b relaxed (ray (getCell p) dr dc j)))"
    using slide_directions_iff by simp
qed (simp_all add: legalDestinations_def kingMoves_iff knightMoves_iff pawnMoves_iff)

theorem legal_destinations_witness:
  "getKind (slot (boardOf drawText) (Pos 0 0)) = King \<and>
   (Pos 1 1 \<in> set (legalDestinations (boardOf drawText) (slot (boardOf drawText) (Pos 0 0)) False) \<longleftrightarrow>
    landable (boardOf drawText) (slot (boardOf drawText) (Pos 0 0)) False (Pos 1 1))"
proof -
  have k: "getKind (slot (boardOf drawText) (Pos 0 0)) = King" "getCell (slot (boardOf drawText) (Pos 0 0)) = Pos 0 0" by code_simp+
  show ?thesis using legal_destinations [of "slot (boardOf drawText) (Pos 0 0)" "Pos 1 1" "boardOf drawText" False] k by simp
qed

text \<open>C11. The verdict of the rule engine: a move is valid exactly when both cells are on the
  board, a piece stands on the first, the second is a legal destination and is not occupied by a
  friend (unless a knight moves or blocking is relaxed). Relaxed blocking only ever adds moves. The two exceptions
  for friendly destinations are the code's; \<open>docs/kung_fu_chess_spec.md\<close> rejects every such move.\<close>

theorem move_verdict:
  "(is_valid (validateMove b from to relaxed) \<longleftrightarrow>
     isWithinBounds b from \<and> isWithinBounds b to \<and> getColor (slot b from) \<noteq> NoColor \<and>
     (getColor (slot b to) = getColor (slot b from) \<longrightarrow> getKind (slot b from) = Knight \<or> relaxed) \<and>
     to \<in> set (legalDestinations b (slot b from) relaxed)) \<and>
   (is_valid (validateMove b from to False) \<longrightarrow> is_valid (validateMove b from to True))"
  using legalDestinations_mono by (auto simp: validateMove_valid_iff)

theorem move_verdict_witness:
  "is_valid (validateMove (boardOf ghostText) (Pos 0 0) (Pos 0 7) False) \<and>
   is_valid (validateMove (boardOf ghostText) (Pos 0 0) (Pos 0 7) True)"
proof -
  have "is_valid (validateMove (boardOf ghostText) (Pos 0 0) (Pos 0 7) False)" by code_simp
  then show ?thesis using move_verdict [of "boardOf ghostText" "Pos 0 0" "Pos 0 7" False] by (intro conjI) auto
qed

text \<open>C12. The path of a motion: one checkpoint per square of the larger of the two distances, one
  second apart, in unit steps from the start; the last one is the destination when the motion runs
  along a row, a column or a diagonal, and every checkpoint lies in the rectangle spanned by the two ends.\<close>

theorem path_of_motion:
  "length (pathCheckpoints m) = nat (chebyshev (m_from m) (m_to m)) \<and>
   (\<forall>k<pathLength m. pathCheckpoints m ! k = (pathCell m (Suc k), start_time_ms m + int (Suc k) * 1000) \<and>
      chebyshev (pathCell m k) (pathCell m (Suc k)) = 1) \<and>
   pathCell m 0 = m_from m \<and>
   (alignedMotion m \<and> m_from m \<noteq> m_to m \<longrightarrow> fst (last (pathCheckpoints m)) = m_to m) \<and>
   (\<forall>k \<le> pathLength m. min (row (m_from m)) (row (m_to m)) \<le> row (pathCell m k) \<and>
      row (pathCell m k) \<le> max (row (m_from m)) (row (m_to m)) \<and>
      min (col (m_from m)) (col (m_to m)) \<le> col (pathCell m k) \<and>
      col (pathCell m k) \<le> max (col (m_from m)) (col (m_to m)))"
proof (intro conjI allI impI)
  show "length (pathCheckpoints m) = nat (chebyshev (m_from m) (m_to m))"
    by (simp add: pathLength_def)
  show "pathCell m 0 = m_from m" by (simp add: pathCell_def)
  show "fst (last (pathCheckpoints m)) = m_to m" if "alignedMotion m \<and> m_from m \<noteq> m_to m"
  proof -
    have "0 < pathLength m" using that pathLength_0_iff [of m] by auto
    then show ?thesis
      using that pathCell_last [of m] by (simp add: pathCheckpoints_eq last_map)
  qed
  fix k assume k: "k < pathLength m"
  show "pathCheckpoints m ! k = (pathCell m (Suc k), start_time_ms m + int (Suc k) * 1000)"
    using nth_pathCheckpoints [OF k] by (simp add: pathTime_def MS_PER_SQUARE_TRAVELED_def)
  show "chebyshev (pathCell m k) (pathCell m (Suc k)) = 1"
    using unit_cases [of m] unit_nonzero [of m] k pathLength_0_iff [of m]
    by (auto simp: chebyshev_def pathCell_def algebra_simps)
qed (fact pathCell_between)+

theorem path_of_motion_witness:
  "fst (last (pathCheckpoints \<lparr>m_from = Pos 0 0, m_to = Pos 3 3, start_time_ms = 0, arrival_time_ms = 3000, piece_id = 1\<rparr>)) = Pos 3 3"
  using path_of_motion [of "\<lparr>m_from = Pos 0 0, m_to = Pos 3 3, start_time_ms = 0, arrival_time_ms = 3000, piece_id = 1\<rparr>"]
  by (simp add: alignedMotion_def)

section \<open>Requests and snapshots\<close>

text \<open>C13. A finished game accepts nothing: every request is answered with \<open>game_over\<close> and changes
  nothing, at the end of any run that starts from a finished game.\<close>

theorem finished_game_frozen:
  assumes "engine_ok e" "game_over e" "list_all event_ok evs"
  shows "let e' = fold engine_step evs e in
    requestMove from to e' = (Result False ''game_over'', e') \<and> requestJump pos e' = (Result False ''game_over'', e')"
  using engine_run_frame [OF assms(1,3)] assms(2) requestMove_game_over requestJump_game_over by (simp add: Let_def)

theorem finished_game_frozen_witness:
  "game_over (fold engine_step drawRun (engineOf drawText)) \<and>
   requestMove (Pos 0 0) (Pos 0 1) (fold engine_step drawRun (engineOf drawText)) =
     (Result False ''game_over'', fold engine_step drawRun (engineOf drawText))"
proof -
  have o: "game_over (fold engine_step drawRun (engineOf drawText))" using drawRun_result by (simp add: Let_def)
  have "engine_ok (fold engine_step drawRun (engineOf drawText))" by (rule engineOf_run_ok) (simp add: drawRun_def)
  from finished_game_frozen [OF this o, of "[]" "Pos 0 0" "Pos 0 1"] o show ?thesis by (simp add: Let_def)
qed



text \<open>C15. A snapshot lists exactly the pieces on the board, each once, with the kind, colour, state
  and cell the board has for it, in row-major order. The progress of a motion lies in the half-open interval from 0 to 1, and
  that of a rest between 0 and 1 once the clock is not negative (it starts at zero and only advances).\<close>

theorem snapshot_faithful:
  assumes "engine_ok e"
  shows "distinct (map sp_id (pieces (snapshot e))) \<and> sorted_wrt (<) (map sp_cell (pieces (snapshot e))) \<and>
    (\<forall>sp. sp \<in> set (pieces (snapshot e)) \<longleftrightarrow> (\<exists>p. isWithinBounds (eng_board e) p \<and>
       getKind (slot (eng_board e) p) \<noteq> NoKind \<and> sp = snapshotPiece (eng_arbiter e) p (slot (eng_board e) p))) \<and>
    (\<forall>sp \<in> set (pieces (snapshot e)). (let x = slot (eng_board e) (sp_cell sp) in
       sp_id sp = getId x \<and> sp_kind sp = getKind x \<and> sp_color sp = getColor x \<and> sp_state sp = getState x) \<and>
       0 \<le> travelProgress sp \<and> travelProgress sp < 1 \<and> restProgress sp \<le> 1 \<and>
       (0 \<le> clock e \<longrightarrow> 0 \<le> restProgress sp))"
  using snapshot_ids_distinct [OF engine_okD(2) [OF assms]] snapshotPiece_progress [OF assms]
    snapshotPiece_rest [OF assms] snapshot_row_major [of e]
  by (auto simp: in_pieces_snapshot Let_def)

theorem snapshot_faithful_witness:
  "engine_ok (engineOf drawText) \<and> distinct (map sp_id (pieces (snapshot (engineOf drawText)))) \<and>
   length (pieces (snapshot (engineOf drawText))) = 4"
proof -
  have "length (pieces (snapshot (engineOf drawText))) = 4" by code_simp
  then show ?thesis using snapshot_faithful [of "engineOf drawText"] by simp
qed

section \<open>Boards as text\<close>

text \<open>C16. A board that parses is well formed: rectangular, every piece knows its cell, identifiers
  are unique and drawn from the counter, and every piece is idle.\<close>

theorem parsed_board_ok:
  assumes "parseBoardOnly input n0 = Inr (b, n, rest)" "0 < n0"
  shows "board_wf b \<and> n0 \<le> n \<and> (\<forall>i \<in># boardIds b. n0 \<le> i \<and> i < n) \<and>
    (\<forall>q. isWithinBounds b q \<longrightarrow> getState (slot b q) = Idle)"
  using parse_well_formed [OF assms] by simp

theorem parsed_board_ok_witness:
  "\<exists>b n rest. parseBoardOnly drawText 1 = Inr (b, n, rest) \<and> board_wf b \<and> 1 \<le> n"
proof -
  have "isl (parseBoardOnly drawText 1) = False" by code_simp
  then obtain b n rest where p: "parseBoardOnly drawText 1 = Inr (b, n, rest)"
    by (cases "parseBoardOnly drawText 1") auto
  from parsed_board_ok [OF p] show ?thesis by (intro exI [of _ b] exI [of _ n] exI [of _ rest]) (simp add: p)
qed

text \<open>C17. Printing a board and parsing the text gives the same kinds and colours on the same cells
  of a board of the same size, with every piece idle.\<close>

theorem board_text_roundtrip:
  assumes "board_wf b" "0 < getWidth b" "0 < getHeight b" "0 < n0"
  shows "\<exists>b' n. parseBoardOnly (printBoard b) n0 = Inr (b', n, []) \<and>
    getWidth b' = getWidth b \<and> getHeight b' = getHeight b \<and> board_wf b' \<and>
    (\<forall>q. isWithinBounds b q \<longrightarrow> getKind (slot b' q) = getKind (slot b q) \<and>
       getColor (slot b' q) = getColor (slot b q) \<and> getState (slot b' q) = Idle)"
  using parse_print [OF assms] .

theorem board_text_roundtrip_witness:
  "board_wf (boardOf drawText) \<and> (\<exists>b' n. parseBoardOnly (printBoard (boardOf drawText)) 1 = Inr (b', n, []) \<and>
    getWidth b' = getWidth (boardOf drawText))"
proof -
  have "0 < getWidth (boardOf drawText)" "0 < getHeight (boardOf drawText)" by code_simp+
  from board_text_roundtrip [OF boardOf_wf this, of 1] boardOf_wf [of drawText] show ?thesis by auto
qed

section \<open>Messages\<close>

text \<open>C18. Authority: whatever a client sends, the engine either stays as it is or performs one move
  or jump request on a cell where a piece of the sender's own colour stands; a spectator changes
  nothing. The engine stays consistent and no piece is stranded by it.\<close>

theorem dispatch_authority:
  assumes "engine_ok e"
  shows "(snd (dispatch what m e c) = e \<or>
      c \<noteq> NoColor \<and> (\<exists>from to. ownedBy e from c \<and> dispatch what m e c = answer (requestMove from to e)) \<or>
      c \<noteq> NoColor \<and> (\<exists>pos. ownedBy e pos c \<and> dispatch what m e c = answer (requestJump pos e))) \<and>
    engine_ok (snd (dispatch what m e c)) \<and>
    (live (eng_arbiter e) \<longrightarrow> live (eng_arbiter (snd (dispatch what m e c))))"
proof -
  have "snd (dispatch what m e c) = e \<or>
      c \<noteq> NoColor \<and> (\<exists>from to. ownedBy e from c \<and> dispatch what m e c = answer (requestMove from to e)) \<or>
      c \<noteq> NoColor \<and> (\<exists>pos. ownedBy e pos c \<and> dispatch what m e c = answer (requestJump pos e))"
    by (cases rule: dispatch_effect [where what = what and m = m and e = e and c = c]) blast+
  then show ?thesis using dispatch_ok(1,2) [OF assms] by blast
qed

theorem dispatch_authority_witness:
  "engine_ok (engineOf drawText) \<and> engine_ok (snd (dispatch (\<lambda>_. []) (moveMessage (Pos 0 2) (Pos 0 0)) (engineOf drawText) White))"
  using dispatch_authority [of "engineOf drawText" "\<lambda>_. []" "moveMessage (Pos 0 2) (Pos 0 0)" White] by simp

text \<open>C19. The second click of a player with a piece of their own selected, by the pixel clicked. Outside the board it
  clears the selection and sends nothing. Inside the square of a cell: on the selected cell it sends a jump; on another piece
  of the same colour it moves the selection there, unless the selected piece is a knight; otherwise it sends the move from the
  selected cell to that very cell. A sent message clears the selection and makes the server perform exactly that jump or move request.
  (Section 11 of \<open>docs/kung_fu_chess_spec.md\<close> clears the selection after every second click on the board.)\<close>

theorem second_click_effect:
  assumes "selectedPos c = Some sel" "ownedBy e sel me" "me \<noteq> NoColor" "0 < s" "size_fits (eng_board e)"
  shows "let b = eng_board e; r = handleMouseClick (snapshot e) s x y c in
    (x < 0 \<or> y < 0 \<or> getWidth b * s \<le> x \<or> getHeight b * s \<le> y \<longrightarrow> r = (NoOp, c\<lparr>selectedPos := None\<rparr>)) \<and>
    (\<forall>q. isWithinBounds b q \<and> col q * s \<le> x \<and> x < (col q + 1) * s \<and> row q * s \<le> y \<and> y < (row q + 1) * s \<longrightarrow>
      (if q = sel then r = (SendJump, c\<lparr>selectedPos := None, sent := sent c @ [jumpMessage sel]\<rparr>) \<and>
         dispatch what (jumpMessage sel) e me = answer (requestJump sel e)
       else if ownedBy e q me \<and> getKind (slot b sel) \<noteq> Knight
       then r = (Selected, c\<lparr>selectedPos := Some q\<rparr>)
       else r = (SendMove, c\<lparr>selectedPos := None, sent := sent c @ [moveMessage sel q]\<rparr>) \<and>
         dispatch what (moveMessage sel q) e me = answer (requestMove sel q e)))"
  unfolding Let_def using second_click [OF assms] by blast

theorem second_click_effect_witness:
  "ownedBy (engineOf drawText) (Pos 0 2) White \<and> size_fits (eng_board (engineOf drawText)) \<and>
   snd (handleMouseClick (snapshot (engineOf drawText)) 100 50 50 \<lparr>selectedPos = Some (Pos 0 2), myColor = Some White, sent = []\<rparr>) =
     \<lparr>selectedPos = None, myColor = Some White, sent = [moveMessage (Pos 0 2) (Pos 0 0)]\<rparr> \<and>
   dispatch (\<lambda>_. []) (moveMessage (Pos 0 2) (Pos 0 0)) (engineOf drawText) White =
     answer (requestMove (Pos 0 2) (Pos 0 0) (engineOf drawText))"
proof -
  let ?c = "\<lparr>selectedPos = Some (Pos 0 2), myColor = Some White, sent = []\<rparr>"
  have o: "ownedBy (engineOf drawText) (Pos 0 2) White" "size_fits (eng_board (engineOf drawText))"
    "\<not> ownedBy (engineOf drawText) (Pos 0 0) White" "isWithinBounds (eng_board (engineOf drawText)) (Pos 0 0)"
    unfolding ownedBy_def size_fits_def by code_simp+
  from second_click_effect [of ?c "Pos 0 2" "engineOf drawText" White 100 50 50 "\<lambda>_. []", unfolded Let_def,
      THEN conjunct2, THEN spec, of "Pos 0 0"] o
  show ?thesis by simp
qed

text \<open>C20. A message survives the wire: when the JSON library returns the envelope it printed, in
  its canonical form, decoding gives the type and the canonical payload of what was encoded.\<close>

theorem message_wire_roundtrip:
  assumes "nameOf kTypeToName (msg_type m) = Inr n"
    and "parse (dump (JObj [(''type'', JStr n), (''payload'', payload m)])) =
      Some (canon (JObj [(''type'', JStr n), (''payload'', payload m)]))"
  shows "sbind (encodeMessage dump m) (decodeMessage parse) = Inr (m\<lparr>payload := canon (payload m)\<rparr>)"
  by (rule message_roundtrip(2) [where n = n]) (fact assms)+

theorem message_wire_roundtrip_witness:
  "sbind (encodeMessage (\<lambda>_. ''text'') (jumpMessage (Pos 0 1)))
     (decodeMessage (\<lambda>_. Some (canon (JObj [(''type'', JStr ''JUMP''), (''payload'', payload (jumpMessage (Pos 0 1)))])))) =
   Inr ((jumpMessage (Pos 0 1))\<lparr>payload := canon (payload (jumpMessage (Pos 0 1)))\<rparr>)"
  using message_wire_roundtrip [of "jumpMessage (Pos 0 1)" "''JUMP''"
    "\<lambda>_. Some (canon (JObj [(''type'', JStr ''JUMP''), (''payload'', payload (jumpMessage (Pos 0 1)))]))" "\<lambda>_. ''text''"]
  by (simp add: nameOf_def kTypeToName_def jumpMessage_def del: canon.simps)

section \<open>Rooms\<close>

text \<open>C21. A room reports at most one result, whatever happens in it: simulation and delivery steps,
  resignations by disconnect, commands and changes of its status in any order. After it has
  reported one it reports none.\<close>

theorem one_result_per_room:
  assumes "session_run dump parse what s out s'" "session_ok s"
  shows "length (results (gs_roomName s) out) \<le> 1 \<and>
    (gs_gameResultPublished s \<longrightarrow> results (gs_roomName s) out = []) \<and> session_ok s'"
  using at_most_one_result [OF assms] session_run_lawful [OF assms(1)] assms(2) by (auto simp: lawful_def)

theorem one_result_per_room_witness:
  "session_run (\<lambda>_. []) (\<lambda>_. None) (\<lambda>_. []) (sessionOf drawText) [] (setSnapshotSender (sessionOf drawText)) \<and>
   session_ok (setSnapshotSender (sessionOf drawText))"
proof -
  have r: "session_run (\<lambda>_. []) (\<lambda>_. None) (\<lambda>_. []) (sessionOf drawText) [] (setSnapshotSender (sessionOf drawText))"
    using session_run.step [OF session_run.start session_step.sender] by simp
  from one_result_per_room [OF r] r show ?thesis by simp
qed

text \<open>C22. The score of a room is what was captured: at every point White's score is the value of the
  black pieces in the captured list and Black's that of the white ones.\<close>

theorem score_is_captured_value:
  assumes "session_run dump parse what s out s'" "session_ok s"
  shows "getScore (gs_scoreObserver s') White = valueOf Black (captured_pieces (eng_arbiter (gs_engine s'))) \<and>
    getScore (gs_scoreObserver s') Black = valueOf White (captured_pieces (eng_arbiter (gs_engine s')))"
  using session_run_score [OF assms] by simp

theorem score_is_captured_value_witness:
  "session_run (\<lambda>_. []) (\<lambda>_. None) (\<lambda>_. []) (sessionOf drawText) [] (sessionOf drawText) \<and>
   getScore (gs_scoreObserver (sessionOf drawText)) White =
     valueOf Black (captured_pieces (eng_arbiter (gs_engine (sessionOf drawText))))"
proof -
  have r: "session_run (\<lambda>_. []) (\<lambda>_. None) (\<lambda>_. []) (sessionOf drawText) [] (sessionOf drawText)" by (rule session_run.start)
  from score_is_captured_value [OF r] r show ?thesis by simp
qed

text \<open>C23. The result of a finished game: the delivery step that first finds the game over marks the
  result as reported. With one king left it publishes one result that names the owner of that
  king and the players in their seats. With no king left, as after two captures in one tick,
  encoding the result throws, and since the mark is set no result is ever published.\<close>

theorem game_end_report:
  assumes "session_ok s" "game_over (gs_engine s)" "\<not> gs_gameResultPublished s"
    and "publishStep dump j s = ((out, s'), ex)"
  shows "gs_gameResultPublished s' \<and>
    (hasKing (gs_engine s) White = hasKing (gs_engine s) Black \<longrightarrow>
       ex = Some (OutOfRange []) \<and> results (gs_roomName s) out = []) \<and>
    (\<forall>w l. (w, l) \<in> {(White, Black), (Black, White)} \<and> hasKing (gs_engine s) w \<and> \<not> hasKing (gs_engine s) l \<longrightarrow>
       (\<exists>r k. encodeResult r = Inr k \<and> ex = None \<and>
          results (gs_roomName s) out = [Published (gameEndedTopic (gs_roomName s)) k] \<and>
          winner r = w \<and> end_reason r = KingCapture \<and>
          winnerUsername r = (if w = White then whiteUsername (gs_identity s) else blackUsername (gs_identity s)) \<and>
          loserUsername r = (if w = White then blackUsername (gs_identity s) else whiteUsername (gs_identity s))))"
proof -
  note r = publishStep_result [OF assms(4,1,2,3)]
  show ?thesis
    using r(1,2) r(3) by (auto simp: survivingKingColor_snapshot split: if_splits)
qed

theorem game_end_report_witness:
  "let s = (sessionOf drawText)\<lparr>gs_engine := fold engine_step drawRun (engineOf drawText),
       gs_scoreObserver := scoreOf (notifications (eng_arbiter (fold engine_step drawRun (engineOf drawText)))) newScoreObserver\<rparr>;
     r = publishStep (\<lambda>_. []) JNull s
   in session_ok s \<and> gs_gameResultPublished (snd (fst r)) \<and> snd r = Some (OutOfRange []) \<and> results (gs_roomName s) (fst (fst r)) = []"
proof -
  let ?e = "fold engine_step drawRun (engineOf drawText)"
  let ?s = "(sessionOf drawText)\<lparr>gs_engine := ?e, gs_scoreObserver := scoreOf (notifications (eng_arbiter ?e)) newScoreObserver\<rparr>"
  have e: "engine_ok ?e" by (rule engineOf_run_ok) (simp add: drawRun_def)
  then have ok: "session_ok ?s" by (simp add: session_ok_def queue_ok_def sessionOf_def newSession_def)
  have o: "game_over ?e" using drawRun_result by (simp add: Let_def)
  have k: "\<not> hasKing ?e White" "\<not> hasKing ?e Black"
    unfolding hasKing_snapshot [symmetric] by code_simp+
  obtain out s' ex where p: "publishStep (\<lambda>_. []) JNull ?s = ((out, s'), ex)" by (metis prod.collapse)
  from game_end_report [OF ok _ _ p] o k ok p show ?thesis by (simp add: Let_def sessionOf_def newSession_def)
qed

section \<open>Seats, connections and ticks of a shard\<close>

text \<open>C24. Whatever order rooms are created, joined, left, ticked and reaped in, no room has two
  White or two Black players as long as no seats are reserved, and the registry stays consistent.\<close>

theorem seats_unique:
  assumes "list_all lobby_guard evs"
  shows "let reg = fold lobby_step evs (newRegistry d a rs) in
    registry_ok reg \<and> (\<forall>n r c h h'. map_of (reg_rooms reg) n = Some r \<and> c \<noteq> NoColor \<and>
      map_of (r_roles r) h = Some c \<and> map_of (r_roles r) h' = Some c \<longrightarrow> h = h')"
proof -
  have "lobby_ok (newRegistry d a rs)" by (simp add: lobby_ok_def newRegistry_ok) (simp add: newRegistry_def)
  from lobby.run_invar [OF this assms] show ?thesis by (auto simp: Let_def lobby_ok_def seats_ok_def one_each_def)
qed

theorem seats_unique_witness:
  "list_all lobby_guard reapRun \<and> registry_ok (fold lobby_step reapRun (newRegistry False [] False)) \<and>
   roleOf 2 (fold lobby_step (take 5 reapRun) (newRegistry False [] False)) = Black"
proof -
  have g: "list_all lobby_guard reapRun" by (simp add: reapRun_def boardOf_wf boardOf_idle)
  from seats_unique [OF g, of False "[]" False] g reaped_result show ?thesis by (simp add: Let_def)
qed

text \<open>C25. The grace period of a player who lost the connection. At any of the first twenty calls of the timer,
  whoever comes back under the name gets the seat back; the call of \<open>cancelDisconnectCountdown\<close> that follows
  takes the player off the list of disconnected players, clears the status the room shows, cancels the timer, and the
  handler of that cancelled wait then does nothing but give up the timer. If nothing else happens in between, the
  call of the timer after the twentieth second reports exactly one result, the resignation of that player, and the
  countdown is over. (A handler that was already queued when the timer was cancelled still runs: see the registry's laws.)\<close>

theorem grace_period:
  fixes n c u elo reg0
  defines "t \<equiv> reg_next reg0" and "reg \<equiv> snd (startDisconnectCountdown n c u elo reg0)"
  assumes "registry_ok reg0" "roomNamed n reg0 = Some s" "u \<noteq> []" "\<not> gs_gameResultPublished s" "\<not> game_over (gs_engine s)"
  shows "(\<forall>m \<le> 20. \<exists>out back1 r cd. cancelDisconnectCountdown n c u (snd (joinRoom n h u ((fire t ^^ m) reg))) = (True, out, back1) \<and>
      roleOf h back1 = c \<and> TimerCancelled t \<in> set out \<and>
      map_of (reg_rooms back1) n = Some r \<and> map_of (r_pendingDisconnects r) c = None \<and>
      \<not> ds_active (gs_disconnectStatus (r_session r)) \<and>
      map_of (reg_countdowns back1) t = Some cd \<and> cd_cancelled cd \<and>
      countdownHandler True t back1 = (([], back1\<lparr>reg_countdowns := AList.delete t (reg_countdowns back1)\<rparr>), None)) \<and>
    (\<exists>j out0 reg'. countdownHandler False t ((fire t ^^ 20) reg) =
        ((out0 @ [SessionOut (Published (gameEndedTopic (gs_roomName s)) j)], reg'), None) \<and>
      encodeResult (resignation c u elo s) = Inr j \<and> set out0 \<inter> range SessionOut = {} \<and>
      map_of (reg_countdowns reg') t = None)"
proof -
  have ex: "roomExists n reg0" using assms(4) by (auto simp: roomExists_def roomNamed_def)
  have held: "held n c u elo t 20 reg" using held_start [OF ex] by (simp add: t_def reg_def)
  have ok: "registry_ok ((fire t ^^ m) reg)" for m
    by (induction m) (simp_all add: reg_def startDisconnectCountdown_ok [OF assms(3)] countdownHandler_ok(1))
  have s: "roomNamed n reg = Some s"
    using assms(4) ex by (auto simp: reg_def startDisconnectCountdown_def roomNamed_def Let_def)
  have returned: "\<exists>out back1 r cd. cancelDisconnectCountdown n c u (snd (joinRoom n h u ((fire t ^^ m) reg))) = (True, out, back1) \<and>
      roleOf h back1 = c \<and> TimerCancelled t \<in> set out \<and>
      map_of (reg_rooms back1) n = Some r \<and> map_of (r_pendingDisconnects r) c = None \<and>
      \<not> ds_active (gs_disconnectStatus (r_session r)) \<and>
      map_of (reg_countdowns back1) t = Some cd \<and> cd_cancelled cd \<and>
      countdownHandler True t back1 = (([], back1\<lparr>reg_countdowns := AList.delete t (reg_countdowns back1)\<rparr>), None)"
    if "m \<le> 20" for m
  proof -
    have "held n c u elo t (20 - int m) ((fire t ^^ m) reg)" using fires(2) [OF held, of m] that by simp
    from held_return(2) [OF this ok assms(5), of h] show ?thesis by (auto simp: roomNamed_def intro: cancelled_wait)
  qed
  have "counting n c u elo t 20 reg" using held by (simp add: held_def)
  from counting_resigns [OF this _ s assms(6,7)] returned show ?thesis by (intro conjI allI impI) auto
qed

theorem grace_period_witness:
  "roleOf 3 (snd (snd (cancelDisconnectCountdown ''r'' White ''alice'' (snd (joinRoom ''r'' 3 ''alice'' ((fire 1 ^^ 7) waitingRoom)))))) = White \<and>
   (\<exists>j out0 reg'. countdownHandler False 1 ((fire 1 ^^ 20) waitingRoom) =
     ((out0 @ [SessionOut (Published (gameEndedTopic ''r'') j)], reg'), None))"
proof -
  have ok: "registry_ok leftRoom" unfolding leftRoom_def by (intro leave_ok joinRoom_ok seatRegistry_ok)
  have "map_option (\<lambda>s. (gs_gameResultPublished s, game_over (gs_engine s), gs_roomName s)) (roomNamed ''r'' leftRoom) = Some (False, False, ''r'')"
    "reg_next leftRoom = 1" by code_simp+
  then obtain s where s: "roomNamed ''r'' leftRoom = Some s" "\<not> gs_gameResultPublished s" "\<not> game_over (gs_engine s)" "gs_roomName s = ''r''"
    "reg_next leftRoom = 1" by (auto simp: map_option_case split: option.splits)
  note g = grace_period [OF ok s(1) _ s(2,3), of "''alice''" White 3 1200, folded waitingRoom_def, unfolded s(4,5)]
  from g have "\<forall>m \<le> 20. roleOf 3 (snd (snd (cancelDisconnectCountdown ''r'' White ''alice''
      (snd (joinRoom ''r'' 3 ''alice'' ((fire 1 ^^ m) waitingRoom)))))) = White" by fastforce
  then have "roleOf 3 (snd (snd (cancelDisconnectCountdown ''r'' White ''alice''
      (snd (joinRoom ''r'' 3 ''alice'' ((fire 1 ^^ 7) waitingRoom)))))) = White" by simp
  with g show ?thesis by blast
qed

text \<open>C26. Memory safety of the tick loop: in every state a shard can reach, each tick that is
  queued, running or waiting for delivery belongs to a session that its room still owns and that
  is marked as in flight, no session has two of them, and so neither a worker nor the delivery
  ever follows a dangling pointer.\<close>

theorem shard_memory_safe:
  assumes "shard_reachable env (newShard d a rs us) sh" "\<not> sh_down sh"
  shows "distinct (map jobKey (shardJobs sh)) \<and>
    (\<forall>j \<in> set (shardJobs sh).
      (\<exists>r. sessionAt (jb_session j) (sv_registry (sh_server sh)) = Some (jb_room j, r) \<and> gs_tickInFlight (r_session r)) \<and>
      computeJob env ords ms j (sv_registry (sh_server sh)) \<noteq> None \<and> deliverTick env j data (sh_server sh) \<noteq> None)"
proof -
  have t: "tracked_by (shardJobs sh) (sv_registry (sh_server sh))"
    using shard_reachable_ok [OF assms(1) newShard_ok] assms(2) by (simp add: shard_ok_def)
  have "\<exists>r. sessionAt (jb_session j) (sv_registry (sh_server sh)) = Some (jb_room j, r) \<and> gs_tickInFlight (r_session r)"
    if "j \<in> set (shardJobs sh)" for j
    using tracked_sessionAt [OF t that] by metis
  then show ?thesis
    using t by (fastforce simp: tracked_by_def computeJob_def deliverTick_def Let_def split: prod.splits)
qed

theorem shard_memory_safe_witness:
  "\<exists>sh. shard_reachable (plainEnv None) (newShard False ''s'' False []) sh \<and>
     sh_queue sh = [\<lparr>jb_room = ''r'', jb_session = 0\<rparr>] \<and>
     computeJob (plainEnv None) inOrder 16 \<lparr>jb_room = ''r'', jb_session = 0\<rparr> (sv_registry (sh_server sh)) \<noteq> None"
proof -
  let ?sh0 = "newShard False ''s'' False []" and ?env = "plainEnv None"
  have s0: "sh_server ?sh0 = freshServer" "\<not> sh_down ?sh0" "sh_queue ?sh0 = []"
    by (simp_all add: freshServer_def newShard_def)
  obtain reply out where a: "doAllocate (allocateRequest ''r'' ''alice'' ''bob'') (sh_server ?sh0) = Inr (reply, out, allocatedServer)"
    using allocated_ok by (auto simp: allocatedServer_def s0 split: sum.splits)
  let ?sh1 = "onServer ?sh0 allocatedServer"
  have r1: "shard_reachable ?env ?sh0 ?sh1"
    by (rule shard_reachable.next_step [OF shard_reachable.start shard_step.allocate [OF s0(2) a]])
  obtain reg q where t: "onTick (\<lambda>n. [0..<n]) (sv_clients (sh_server ?sh1)) (sv_registry (sh_server ?sh1), sh_queue ?sh1) = (reg, q)"
    by (metis prod.exhaust)
  have "sv_clients allocatedServer = []" by code_simp
  then have q: "q = [\<lparr>jb_room = ''r'', jb_session = 0\<rparr>]" using allocated_tick t s0(3) by (simp add: onServer_def)
  let ?sh2 = "?sh1\<lparr>sh_server := (sh_server ?sh1)\<lparr>sv_registry := reg\<rparr>, sh_queue := q\<rparr>"
  have up: "\<not> sh_down ?sh1" "\<not> sh_down ?sh2" using s0(2) by (simp_all add: onServer_def)
  have r2: "shard_reachable ?env ?sh0 ?sh2"
    by (rule shard_reachable.next_step [OF r1 shard_step.tick [OF up(1) iteration_order_upt t]])
  have "computeJob ?env inOrder 16 \<lparr>jb_room = ''r'', jb_session = 0\<rparr> (sv_registry (sh_server ?sh2)) \<noteq> None"
    using shard_memory_safe [OF r2 up(2), of inOrder 16] by (simp add: shardJobs_def q)
  then show ?thesis using r2 q by (intro exI [of _ ?sh2]) simp
qed

text \<open>C27. Isolation of connections: processing a frame, whatever it contains, keeps the server consistent and
  leaves the game of every room as it is except for one move or jump of a piece of the sender's colour in the room
  where the sender sits. The reply is an object with a verdict; it is sent when it is UTF-8, and otherwise printing it throws (which
  ends the shard). For a frame that no handler accepts, the server stays as it is and the reply fails to print exactly when the message
  of the exception, which can quote the frame, is not UTF-8.\<close>

theorem message_isolation:
  assumes "server_ok sv" "process env hdl frame sv = (res, out, sv')"
  shows "server_ok sv' \<and>
    (\<exists>kvs. map_of kvs ''success'' \<noteq> None \<and>
      res = (if json_utf8 (JObj kvs) then Inr (env_dump env (JObj kvs)) else Inl TypeError)) \<and>
    (\<forall>ex. handleText env hdl frame sv = Inl ex \<longrightarrow> sv' = sv \<and> out = [] \<and>
      (isl res \<longleftrightarrow> \<not> validUtf8 (exceptionText (env_what env) (env_parseWhat env) frame ex))) \<and>
    (\<forall>n. gameIn n (sv_registry sv') = gameIn n (sv_registry sv) \<or>
      (\<exists>e c. roomOf hdl (sv_registry sv) = Some n \<and> gameIn n (sv_registry sv) = Some e \<and>
         c = roleOf hdl (sv_registry sv) \<and> c \<noteq> NoColor \<and>
         ((\<exists>from to. ownedBy e from c \<and> gameIn n (sv_registry sv') = Some (snd (requestMove from to e))) \<or>
          (\<exists>pos. ownedBy e pos c \<and> gameIn n (sv_registry sv') = Some (snd (requestJump pos e))))))"
proof -
  obtain reply where r: "replyTo env hdl frame sv = (reply, out, sv')" "res = dumpStrict (env_dump env) reply"
    by (rule process_replyTo [OF assms(2)])
  note iso = replyTo_isolation [OF assms(1) r(1)]
  obtain kvs where "reply = JObj kvs" "map_of kvs ''success'' \<noteq> None" using iso(4) by blast
  then have res: "\<exists>kvs. map_of kvs ''success'' \<noteq> None \<and>
      res = (if json_utf8 (JObj kvs) then Inr (env_dump env (JObj kvs)) else Inl TypeError)"
    using r(2) by (auto simp: dumpStrict_def)
  have failed: "sv' = sv \<and> out = [] \<and> (isl res \<longleftrightarrow> \<not> validUtf8 (exceptionText (env_what env) (env_parseWhat env) frame ex))"
    if "handleText env hdl frame sv = Inl ex" for ex
    using assms(2) unfolding process_failed [OF that] by (auto split: if_splits)
  show ?thesis by (intro conjI allI impI iso(1) res failed) (use iso(3) in metis)+
qed

theorem message_isolation_witness:
  "server_ok seatedServer \<and>
   (\<exists>e. gameIn ''r'' (sv_registry seatedServer) = Some e \<and>
      ((\<exists>from to. ownedBy e from White \<and>
          gameIn ''r'' (sv_registry (snd (snd (process (plainEnv (Some aliceMoves)) 1 ''move'' seatedServer)))) = Some (snd (requestMove from to e))) \<or>
       (\<exists>pos. ownedBy e pos White \<and>
          gameIn ''r'' (sv_registry (snd (snd (process (plainEnv (Some aliceMoves)) 1 ''move'' seatedServer)))) = Some (snd (requestJump pos e)))))"
proof -
  obtain reply out sv' where p: "process (plainEnv (Some aliceMoves)) 1 ''move'' seatedServer = (reply, out, sv')" by (metis prod.exhaust)
  show ?thesis using message_isolation [OF seatedServer_ok p] alice_seated [unfolded p snd_conv] seatedServer_ok
    unfolding p snd_conv by auto
qed

text \<open>C28. The thread pool runs every job once, in the order in which jobs were submitted, and its destructor
  ends: after the stop no run of the workers is longer than twice the number of jobs and workers, and
  when no worker can go on, all have returned and every submitted job has been finished.\<close>

theorem pool_drains:
  fixes p :: "'j thread_pool"
  assumes "pool_run evs (newThreadPool n) = Some (ss, fs, p)" "Stop \<notin> set evs"
  shows "concat (map submittedBy evs) = ss @ tp_jobs p \<and>
    (\<forall>evs2 ss2 fs2 q. pool_run evs2 (stopPool p) = Some (ss2, fs2, q) \<and> list_all is_worker_event evs2 \<longrightarrow>
       length evs2 \<le> 2 * (length (tp_jobs p) + max 1 n) \<and>
       ((\<forall>ev. is_worker_event ev \<longrightarrow> pool_step ev q = None) \<longrightarrow>
          allJoined q \<and> ss @ ss2 = concat (map submittedBy evs) \<and> mset (fs @ fs2) = mset (concat (map submittedBy evs))))"
proof -
  let ?p0 = "newThreadPool n :: 'j thread_pool"
  have new: "exits_ok ?p0" "\<not> tp_stopping ?p0" "tp_jobs ?p0 = []" "runningJobs (tp_workers ?p0) = {#}" "length (tp_workers ?p0) = max 1 n"
    by (auto simp: newThreadPool_def exits_ok_def runningJobs_new)
  have 1: "concat (map submittedBy evs) = ss @ tp_jobs p" "mset ss = mset fs + runningJobs (tp_workers p)" "length (tp_workers p) = max 1 n"
    using pool_run_jobs [OF assms(1)] new by simp_all
  have ok: "exits_ok (stopPool p)" "tp_stopping (stopPool p)"
    using exits_ok_run [OF new(1) assms(1)] assms(2) new(2) by (auto simp: exits_ok_def stopPool_def)
  have "length evs2 \<le> 2 * (length (tp_jobs p) + max 1 n) \<and>
       ((\<forall>ev. is_worker_event ev \<longrightarrow> pool_step ev q = None) \<longrightarrow>
          allJoined q \<and> ss @ ss2 = concat (map submittedBy evs) \<and> mset (fs @ fs2) = mset (concat (map submittedBy evs)))"
    if run: "pool_run evs2 (stopPool p) = Some (ss2, fs2, q)" and w: "list_all is_worker_event evs2" for evs2 ss2 fs2 q
  proof (intro conjI impI)
    show "length evs2 \<le> 2 * (length (tp_jobs p) + max 1 n)"
      using pool_run_bounded [OF w run] workLeft_bound [of "stopPool p"] 1(3) by (simp add: stopPool_def)
  next
    assume stuck: "\<forall>ev. is_worker_event ev \<longrightarrow> pool_step ev q = None"
    have no: "concat (map submittedBy evs2) = []" "Stop \<notin> set evs2" using w by (induction evs2) (auto elim: is_worker_event.elims)
    have q: "exits_ok q" "tp_stopping q" using exits_ok_run [OF ok(1) run] w no(2) ok(2) by auto
    have fin: "allJoined q \<and> tp_jobs q = []" using stopping_progress [OF q] stuck by fastforce
    have 2: "tp_jobs p = ss2" "mset ss2 + runningJobs (tp_workers p) = mset fs2 + runningJobs (tp_workers q)"
      using pool_run_jobs [OF run] no(1) fin by (simp_all add: stopPool_def)
    then have "mset ss2 + runningJobs (tp_workers p) = mset fs2" using joined_no_running fin by force
    then show "allJoined q" "ss @ ss2 = concat (map submittedBy evs)" "mset (fs @ fs2) = mset (concat (map submittedBy evs))"
      using fin 1(1,2) 2(1) by (simp_all add: add.assoc, simp add: add.commute)
  qed
  then show ?thesis using 1(1) by blast
qed

theorem pool_drains_witness:
  "\<exists>ss fs p. pool_run [Submit (5 :: nat), Submit 6, Pass 0, Submit 7, Pass 1, Done 0] (newThreadPool 2) = Some (ss, fs, p) \<and>
     [5, 6, 7] = ss @ tp_jobs p \<and> ss = [5, 6] \<and> fs = [5]"
proof -
  let ?evs = "[Submit (5 :: nat), Submit 6, Pass 0, Submit 7, Pass 1, Done 0]"
  have "map_option (\<lambda>(ss, fs, p). (ss, fs)) (pool_run ?evs (newThreadPool 2)) = Some ([5, 6], [5])" by code_simp
  then obtain p where r: "pool_run ?evs (newThreadPool 2) = Some ([5, 6], [5], p)" by auto
  have "[5, 6, 7] = [5, 6] @ tp_jobs p" using pool_drains [OF r] by simp
  then show ?thesis using r by blast
qed

text \<open>C29. The two user repositories are interchangeable: any series of logins and rating updates gives the same
  results with Postgres as with SQLite, throws nothing, and leaves the same table.\<close>

theorem repositories_agree:
  assumes "postgres_laws P writable tbl"
  shows "case postgresRun hash P ops p of (rs, p') \<Rightarrow>
    rs = map Inr (fst (sqliteRun hash writable ops (tbl p))) \<and> tbl p' = snd (sqliteRun hash writable ops (tbl p))"
proof (induction ops arbitrary: p)
  case (Cons op ops)
  show ?case
  proof (cases op)
    case (LoginOp u pw)
    obtain r p1 where l: "pgLogin hash P u pw p = (r, p1)" by (metis prod.exhaust)
    show ?thesis using pgLogin_refines [OF assms l] Cons.IH [of p1] by (auto simp: LoginOp l case_prod_beta)
  next
    case (UpdateEloOp u e)
    then show ?thesis using Cons.IH [of "pgUpdateElo P u e p"] pgUpdateElo_refines [OF assms] by simp
  qed
qed simp

theorem repositories_agree_witness:
  "case postgresRun length listPostgres [LoginOp ''ann'' ''pw'', UpdateEloOp ''ann'' 1216, LoginOp ''ann'' ''pw'', LoginOp ''ann'' ''other''] [] of
     (rs, p) \<Rightarrow> map (case_sum (\<lambda>_. []) lr_message) rs = [''account created'', ''login successful'', ''wrong password''] \<and>
       map_of p ''ann'' = Some (''2'', 1216)"
proof -
  let ?ops = "[LoginOp ''ann'' ''pw'', UpdateEloOp ''ann'' 1216, LoginOp ''ann'' ''pw'', LoginOp ''ann'' ''other'']"
  have "map lr_message (fst (sqliteRun length True ?ops [])) = [''account created'', ''login successful'', ''wrong password'']"
      "map_of (snd (sqliteRun length True ?ops [])) ''ann'' = Some (''2'', 1216)" by code_simp+
  then show ?thesis using repositories_agree [OF listPostgres_laws, of length ?ops "[]"] by (auto simp: comp_def)
qed

section \<open>Matchmaking\<close>

text \<open>C30. The pool of waiting players in Redis behaves as a map from tickets to names and ratings, where tickets and names
  end at their first null character as the Redis commands cut them: adding and removing are update and deletion, the test for waiting is
  membership, and a search returns and removes a player within the given distance, and returns nothing exactly when there
  is none. No command ever throws.\<close>

theorem match_pool_refines:
  assumes "redis_laws R" "pool_ok R r"
  shows "waiting R (poolAdd R t u e r) = (waiting R r)(c_str t \<mapsto> (c_str u, e)) \<and> pool_ok R (poolAdd R t u e r) \<and>
    waiting R (poolRemove R t r) = (waiting R r)(c_str t := None) \<and> pool_ok R (poolRemove R t r) \<and>
    (poolIsWaiting R t r \<longleftrightarrow> c_str t \<in> dom (waiting R r)) \<and>
    (case poolFindMatch R elo d r of
       ((None, r'), None) \<Rightarrow> r' = r \<and> (\<forall>t u e. waiting R r t = Some (u, e) \<longrightarrow> d < \<bar>e - elo\<bar>)
     | ((Some c, r'), None) \<Rightarrow> waiting R r (mc_ticketId c) = Some (mc_username c, mc_elo c) \<and> \<bar>mc_elo c - elo\<bar> \<le> d \<and>
         waiting R r' = (waiting R r)(mc_ticketId c := None) \<and> pool_ok R r'
     | (_, Some ex) \<Rightarrow> False)"
proof -
  have "case poolFindMatch R elo d r of
       ((None, r'), None) \<Rightarrow> r' = r \<and> (\<forall>t u e. waiting R r t = Some (u, e) \<longrightarrow> d < \<bar>e - elo\<bar>)
     | ((Some c, r'), None) \<Rightarrow> waiting R r (mc_ticketId c) = Some (mc_username c, mc_elo c) \<and> \<bar>mc_elo c - elo\<bar> \<le> d \<and>
         waiting R r' = (waiting R r)(mc_ticketId c := None) \<and> pool_ok R r'
     | (_, Some ex) \<Rightarrow> False"
    using assms by (cases rule: poolFindMatch_refines [where elo = elo and d = d]) (auto simp: not_le)
  then show ?thesis by (intro conjI poolAdd_refines poolRemove_refines dom_waiting [symmetric] assms)
qed

theorem match_pool_refines_witness:
  "redis_laws memRedis \<and> pool_ok memRedis emptyStore \<and>
   waiting memRedis (poolAdd memRedis ''t1'' ''alice'' 1200 emptyStore) = [''t1'' \<mapsto> (''alice'', 1200)]"
  using match_pool_refines [OF memRedis_laws emptyStore_ok(1), of "''t1''" "''alice''" 1200] memRedis_laws emptyStore_ok
  by (simp add: c_str_def)

text \<open>C31. Over any run of requests, cancellations, assignments and timeouts of the matchmaker in which the requests bring
  tickets that are new, pairwise different and free of null characters (as those of the gateway and of the shards are), no
  ticket is matched twice or without having been asked for, and the two players of every match
  announced are at most a hundred points apart.\<close>

theorem matched_once:
  assumes "redis_laws R" "pool_ok R (mm_redis mm)" "mm_run R evs mm = (out, mm')"
    "distinct (requestedTickets evs)" "set (requestedTickets evs) \<inter> dom (waiting R (mm_redis mm)) = {}"
    "list_all nul_free (requestedTickets evs)"
  shows "distinct (matchedTickets out) \<and>
    set (matchedTickets out) \<subseteq> dom (waiting R (mm_redis mm)) \<union> set (requestedTickets evs) \<and>
    (\<forall>j \<in> set (matchesIn out). \<exists>c t u e. j = matchedEvent c t u e \<and> \<bar>mc_elo c - e\<bar> \<le> 100) \<and> pool_ok R (mm_redis mm')"
  using mm_run_matched [OF assms] mm_run_matches_close [OF assms(1-3)] by blast

theorem matched_once_witness:
  "matchedTickets (fst (mm_run memRedis twoRequests idleMatchmaker)) = [''t1'', ''t2''] \<and>
   pool_ok memRedis (mm_redis (snd (mm_run memRedis twoRequests idleMatchmaker)))"
proof -
  have m: "matchedTickets (fst (mm_run memRedis twoRequests idleMatchmaker)) = [''t1'', ''t2'']"
    "requestedTickets twoRequests = [''t1'', ''t2'']" by code_simp+
  have "mm_redis idleMatchmaker = emptyStore" by (simp add: idleMatchmaker_def)
  then show ?thesis
    using matched_once [OF memRedis_laws, of idleMatchmaker twoRequests] m emptyStore_ok
    by (cases "mm_run memRedis twoRequests idleMatchmaker") (auto simp: nul_free_iff)
qed

text \<open>C32. From the Play button to a seat: the gateway, the matchmaker, the allocator and the shards run
  together, the messages between them are delivered in any order or lost, and the reply of a shard may be lost
  as well. If the random tickets are different, then every client that is told about a match is one of two whose tickets were
  paired by the matchmaker, and the announced shard has the announced room; whoever of the two joins
  first, the player whose ticket waited in the pool sits as White and the one whose request found it as Black, unless both requests came from the
  same user or one of the names is empty or the first holds a null character. (No room is closed in these runs.)\<close>

theorem play_to_seat:
  assumes "redis_laws R" "counter_laws R" "iteration_order ord" "cluster_started R cu"
    and "cu' = fold (cluster_step R what ord env) evs cu" "distinct (map fst (cu_plays cu'))"
    and "(con, j) \<in> set (cu_answers cu')" "jat ''success'' j = Inr (JBool True)"
  shows "\<exists>name a ta ca white tb cb black sv. j = matchFound name a \<and> (ta, tb) \<in> set (cu_matches cu') \<and>
    (ta, ca, white) \<in> set (cu_plays cu') \<and> (tb, cb, black) \<in> set (cu_plays cu') \<and> con \<in> {ca, cb} \<and>
    map_of (cu_shards cu') a = Some sv \<and> roomExists name (sv_registry sv) \<and>
    (nul_free white \<and> white \<noteq> [] \<and> black \<noteq> [] \<and> white \<noteq> black \<longrightarrow> (\<forall>hA hB. hA \<noteq> hB \<longrightarrow>
      (let A = (\<lambda>reg. snd (joinRoom name hA white reg)); B = (\<lambda>reg. snd (joinRoom name hB black reg))
       in \<forall>reg \<in> {A (B (sv_registry sv)), B (A (sv_registry sv))}. roleOf hA reg = White \<and> roleOf hB reg = Black)))"
  using assms
proof (cases rule: answers_seated)
  case (1 name a ta ca white tb cb black)
  obtain sv where sv: "map_of (cu_shards cu') a = Some sv" "roomExists name (sv_registry sv)"
    "nul_free white \<and> white \<noteq> [] \<and> black \<noteq> [] \<and> white \<noteq> black \<longrightarrow> (\<forall>hA hB. hA \<noteq> hB \<longrightarrow>
      (let A = (\<lambda>reg. snd (joinRoom name hA white reg)); B = (\<lambda>reg. snd (joinRoom name hB black reg))
       in \<forall>reg \<in> {A (B (sv_registry sv)), B (A (sv_registry sv))}. roleOf hA reg = White \<and> roleOf hB reg = Black))"
    using seated_join [OF 1(6)] unfolding nul_free_def by metis
  then show ?thesis using 1(1-5) by blast
qed

theorem play_to_seat_witness:
  "\<exists>sv. map_of (cu_shards (playedBy ''bob'')) ''s'' = Some sv \<and> roomExists ''match-1'' (sv_registry sv) \<and>
     roleOf 7 (snd (joinRoom ''match-1'' 7 ''alice'' (snd (joinRoom ''match-1'' 8 ''bob'' (sv_registry sv))))) = White"
proof -
  have t: "cu_answers (playedBy ''bob'') = [(5, matchFound ''match-1'' ''s''), (6, matchFound ''match-1'' ''s'')]"
    "distinct (map fst (cu_plays (playedBy ''bob'')))" using both_told by (simp_all add: told_def)
  obtain name a ta ca white tb cb black sv where r: "matchFound ''match-1'' ''s'' = matchFound name a"
      "(ta, tb) \<in> set (cu_matches (playedBy ''bob''))" "(ta, ca, white) \<in> set (cu_plays (playedBy ''bob''))"
      "(tb, cb, black) \<in> set (cu_plays (playedBy ''bob''))" "map_of (cu_shards (playedBy ''bob'')) a = Some sv"
      "roomExists name (sv_registry sv)"
      "nul_free white \<and> white \<noteq> [] \<and> black \<noteq> [] \<and> white \<noteq> black \<longrightarrow> (\<forall>hA hB. hA \<noteq> hB \<longrightarrow>
        (let A = (\<lambda>reg. snd (joinRoom name hA white reg)); B = (\<lambda>reg. snd (joinRoom name hB black reg))
         in \<forall>reg \<in> {A (B (sv_registry sv)), B (A (sv_registry sv))}. roleOf hA reg = White \<and> roleOf hB reg = Black))"
    using play_to_seat [OF memRedis_laws memRedis_counter iteration_order_upt freshCluster_started playedBy_def t(2), of 5 "matchFound ''match-1'' ''s''"] t(1)
    by (simp add: matchFound_def jat_def) blast
  have n: "white = ''alice''" "black = ''bob''" "name = ''match-1''" "a = ''s''"
    using both_matched [OF r(2-4)] r(1) by (simp_all add: matchFound_def)
  then have "roleOf 7 (snd (joinRoom ''match-1'' 7 ''alice'' (snd (joinRoom ''match-1'' 8 ''bob'' (sv_registry sv))))) = White"
    using r(7) by (auto simp: nul_free_iff Let_def)
  then show ?thesis using r(5,6) n by auto
qed

text \<open>C33. Elo ratings: the winner gains what the loser loses, between 0 and 32 points, at most 16
  when the winner was not the weaker player and at least 16 when not the stronger.\<close>

theorem elo_exchange:
  assumes "applyElo w l = (w', l')"
  shows "w' + l' = w + l \<and> 0 \<le> w' - w \<and> w' - w \<le> 32 \<and> (l \<le> w \<longrightarrow> w' - w \<le> 16) \<and> (w \<le> l \<longrightarrow> 16 \<le> w' - w)"
  using assms eloGain_range [of "w - l"] eloGain_antimono [of 0 "w - l"] eloGain_antimono [of "w - l" 0]
  by (auto simp: applyElo_eq eloGain_0)

theorem elo_exchange_witness: "applyElo 1200 1200 = (1216, 1184)"
  using elo_exchange [of 1200 1200 "fst (applyElo 1200 1200)" "snd (applyElo 1200 1200)"] by (simp add: prod_eq_iff)

section \<open>The gateway\<close>

text \<open>C34. The WebSocket gateway forwards what the program's client and shards exchange. As long as neither side of a link goes
  away, every text frame received is UTF-8 (the library delivers no other) and the client sends no binary frame before the connection to the shard is open, the
  frames the shard has received together with those that wait for its connection are exactly those the client has sent, with
  their opcodes, in order and each once; the client has received exactly the frames the shard has sent; and nothing waits once the connection to the
  shard is open. (A binary frame that has to wait is sent on as text, or lost when it is not UTF-8: lemma \<open>queued_binary\<close>.)\<close>

theorem gateway_forwards:
  assumes "gateway_ok gw" "ws_valid evs gw" "linked d u lk gw" "ClientClose d \<notin> set evs" "UpstreamGone u \<notin> set evs"
    "ws_run evs gw = (out, gw')" and "\<forall>f \<in> set (fromClient d evs) \<union> set (fromShard u evs). sendable f"
    and "lk_upstreamOpen lk \<or> (\<forall>f \<in> set (fromClient d evs). fst f = TextFrame)"
  shows "\<exists>lk'. linked d u lk' gw' \<and> sentUp u out @ flushed (lk_pending lk') = flushed (lk_pending lk) @ fromClient d evs \<and>
    sentDown d out = fromShard u evs \<and> (lk_upstreamOpen lk \<or> UpstreamOpen u \<in> set evs \<longrightarrow> lk_pending lk' = [])"
  using linked_run [OF assms(1-6) passes_all [OF assms(7,8)]] by blast

theorem gateway_forwards_witness:
  "gateway_ok oneLink \<and>
   sentUp 2 (fst (ws_run [ClientMessage 3 (TextFrame, ''a''), UpstreamOpen 2, ClientMessage 3 (TextFrame, ''b'')] oneLink)) =
     [(TextFrame, ''a''), (TextFrame, ''b'')]"
proof -
  let ?evs = "[ClientMessage 3 (TextFrame, ''a''), UpstreamOpen 2, ClientMessage 3 (TextFrame, ''b'')]"
  have "validUtf8 ''a''" "validUtf8 ''b''" by code_simp+
  with gateway_forwards [OF oneLink_ok(1) _ oneLink_ok(2), of ?evs] show ?thesis
    using oneLink_ok(1) by (cases "ws_run ?evs oneLink") (auto simp: sendable_def)
qed

text \<open>C35. Every HTTP request is answered exactly once or waits in exactly one place, for the shard
  it was relayed to, for a match or for an allocation: over any run without an exception the
  answers given and those still owed are the requests made.\<close>

theorem requests_answered:
  assumes "api_ok dump ag" "api_valid dump evs ag" "api_run evs ag = ((out, ag'), None)"
  shows "mset (answered out) + unanswered ag' = unanswered ag + mset (requested evs) \<and> api_ok dump ag'"
  using api_run_conserves [OF assms] by blast

theorem requests_answered_witness:
  "mset (answered (fst (fst (api_run loginRun idleApi)))) = {#5, 6#}"
proof -
  obtain out ag ex where r: "api_run loginRun idleApi = ((out, ag), ex)" by (metis prod.exhaust)
  have "ex = None" "unanswered ag = {#}" using loginRun_result by (simp_all add: r unanswered_def)
  then show ?thesis
    using requests_answered [OF loginRun_ok(1,3)] r loginRun_ok(2) by (simp add: loginRun_def)
qed

text \<open>C36. The room directory in Redis is right at every moment: while any number of shards create, reap and leave
  rooms in any order, and as long as no name is given to two of them, the directory has for each room the address
  of the shard that hosts it and for no other name an entry; so the HTTP gateway sends a player who joins to that
  shard, or answers that there is no such room.\<close>

theorem directory_lists_rooms:
  assumes "redis_kv R db" "\<forall>n. dirEntry db r0 n = None" "\<forall>i. nul_free (addr i) \<and> addr i \<noteq> []"
    and "(fleet_step dump parse what R)\<^sup>*\<^sup>* (freshFleet addr rs r0) (regs, r)"
    and "nul_free n" "jvalueString ''token'' [] request = Inr t" "ae_session env t \<noteq> None" "ae_room env = (\<lambda>n. fst (dirGet R n r))"
  shows "(\<forall>i. roomExists n (regs i) \<longrightarrow> (\<forall>j. roomExists n (regs j) \<longrightarrow> j = i) \<and>
      postJoin env con n request = Inr [Respond con 200 (JObj [(''success'', JBool True), (''message'', JStr ''room found''),
        (''roomName'', JStr n), (''shard'', JStr (addr i))])]) \<and>
    ((\<forall>i. \<not> roomExists n (regs i)) \<longrightarrow> postJoin env con n request = Inr [Respond con 404 (failure ''room not found'')])"
proof -
  have ok: "fleet_ok db addr (regs, r)"
    using fleet_run_ok [OF assms(4,1) freshFleet_ok] assms(2) by blast
  have a: "\<And>i. nul_free (addr i) \<and> addr i \<noteq> []" using assms(3) by blast
  note get = dirGet_owner [OF ok assms(1,5) a]
  have u: "roomExists n (regs i) \<Longrightarrow> roomExists n (regs j) \<Longrightarrow> j = i" for i j using ok by (auto simp: fleet_ok_def)
  have "postJoin env con n request = Inr (if fst (dirGet R n r) = [] then [Respond con 404 (failure ''room not found'')]
      else [Respond con 200 (JObj [(''success'', JBool True), (''message'', JStr ''room found''), (''roomName'', JStr n),
        (''shard'', JStr (fst (dirGet R n r)))])])"
    using assms(6-8) by (auto simp: postJoin_def Let_def)
  then show ?thesis using get u a by auto
qed

theorem directory_lists_rooms_witness:
  "\<exists>regs r. roomExists ''room'' (regs 0) \<and> fst (dirGet listRedis ''room'' r) = ''ws://one'' \<and>
     postJoin (apiEnv\<lparr>ae_session := \<lambda>_. Some \<lparr>csd_username = ''ann'', csd_elo = 1200\<rparr>, ae_room := \<lambda>n. fst (dirGet listRedis n r)\<rparr>) 3 ''room''
       (JObj []) = Inr [Respond 3 200 (JObj [(''success'', JBool True), (''message'', JStr ''room found''), (''roomName'', JStr ''room''),
         (''shard'', JStr ''ws://one'')])]"
proof -
  let ?addr = "\<lambda>_ :: nat. ''ws://one''" and ?reg0 = "newRegistry True ''ws://one'' False"
  obtain ok out reg1 where c: "createRoom ''room'' (boardOf wideText) True ?reg0 = (ok, out, reg1)" by (metis prod.exhaust)
  have o: "out = [DirectorySet ''room'' ''ws://one'']" "roomExists ''room'' reg1"
    using c by (auto simp: createRoom_def newRegistry_def roomExists_def)
  let ?regs = "(\<lambda>_. ?reg0)(0 := reg1)" and ?r = "fold (storeEffect listRedis) out []"
  have "registry_step (\<lambda>_. []) (\<lambda>_. None) (\<lambda>_. []) ?reg0 out reg1" by (rule registry_step.create [OF boardOf_wf boardOf_idle c])
  then have "fleet_step (\<lambda>_. []) (\<lambda>_. None) (\<lambda>_. []) listRedis (freshFleet ?addr False []) (?regs, ?r)"
    unfolding freshFleet_def
    by (intro fleet_step.shard) (auto simp: o(1) nul_free_def c_str_def newRegistry_def roomExists_def)
  then have run: "(fleet_step (\<lambda>_. []) (\<lambda>_. None) (\<lambda>_. []) listRedis)\<^sup>*\<^sup>* (freshFleet ?addr False []) (?regs, ?r)" by (rule r_into_rtranclp)
  let ?env = "apiEnv\<lparr>ae_session := \<lambda>_. Some \<lparr>csd_username = ''ann'', csd_elo = 1200\<rparr>, ae_room := \<lambda>n. fst (dirGet listRedis n ?r)\<rparr>"
  have h: "\<forall>n. dirEntry map_of [] n = None" "\<forall>i. nul_free (?addr i) \<and> ?addr i \<noteq> []" "nul_free ''room''"
      "jvalueString ''token'' [] (JObj []) = Inr []" "ae_session ?env [] \<noteq> None" "ae_room ?env = (\<lambda>n. fst (dirGet listRedis n ?r))"
    by (simp_all add: dirEntry_def nul_free_def c_str_def jvalueString_def)
  have "postJoin ?env 3 ''room'' (JObj []) = Inr [Respond 3 200 (JObj [(''success'', JBool True), (''message'', JStr ''room found''),
      (''roomName'', JStr ''room''), (''shard'', JStr ''ws://one'')])]"
    using directory_lists_rooms [OF listRedis_laws h(1,2) run h(3-6), of 3, THEN conjunct1, rule_format, of 0] o(2) by simp
  moreover have "fst (dirGet listRedis ''room'' ?r) = ''ws://one''" unfolding o(1) by code_simp
  ultimately show ?thesis using o(2) by (intro exI [of _ ?regs] exI [of _ ?r]) simp
qed

text \<open>C37. From the login to the seat: the identity the HTTP gateway has put into Redis under a token is the one under
  which a shard seats the client that presents the token. The exchange of the home screen with the shard, whatever
  else arrives on the connection, ends in the room asked for, the client has the colour of its seat on the
  shard, and the game it enters has the moves made so far; if no shard room has the name, the player is told so.\<close>

theorem token_to_seat:
  assumes "redis_kv R db" "fits_int elo" "\<forall>j. parse (dump j) = Some (canon j) \<and> c_str (dump j) = dump j"
    and "env_dump env = dump" "env_parse env = parse" "chatter_ok parse chatter"
    and "env_sessionStore env = Some (\<lambda>t. fst (sessionGet parse R t (sessionPut dump R token u elo r)))"
  shows "if roomExists name (sv_registry sv)
    then \<exists>hr sv' s a. enterRoomOnShard (shardSide env con chatter post) token shard name sv = (Inr (Inr hr), sv') \<and>
      roomNamed name (sv_registry sv') = Some s \<and> roomOf con (sv_registry sv') = Some name \<and>
      map_option cs_username (sessionFor (sv_clients sv') con) = Some u \<and>
      hr_roomName hr = name \<and> hr_role hr = roleOf con (sv_registry sv') \<and>
      enterGame stale hr = Inr a \<and> myColor (wn_controller (ap_window a)) = Some (roleOf con (sv_registry sv')) \<and>
      ns_whiteMoves (nh_state (ap_handler a)) = getMoves (gs_moveLogObserver s) White \<and>
      ns_blackMoves (nh_state (ap_handler a)) = getMoves (gs_moveLogObserver s) Black
    else fst (enterRoomOnShard (shardSide env con chatter post) token shard name sv) = Inr (Inl ''room not found'')"
proof -
  have json: "json_ok env" and chat: "chatter_ok (env_parse env) chatter" using assms(3-6) by (simp_all add: json_ok_def)
  let ?store = "\<lambda>t. fst (sessionGet parse R t (sessionPut dump R token u elo r))"
  let ?d = "\<lparr>csd_username = u, csd_elo = elo\<rparr>"
  have d: "?store token = Some ?d"
    using session_roundtrip [OF assms(1,2), of parse dump u token token r] assms(3) by simp
  show ?thesis
  proof (cases "roomExists name (sv_registry sv)")
    case True
    obtain s sv' where e:
      "enterRoomOnShard (shardSide env con chatter post) token shard name sv =
         (Inr (Inr (seatResult name (roleOf con (sv_registry sv')) s (resolveIdentity (sv_registry sv') (sv_clients sv') name))), sv')"
      "roomOf con (sv_registry sv') = Some name" "roomNamed name (sv_registry sv') = Some s"
      "sv_clients sv' = onLogin con (csd_username ?d) (csd_elo ?d) (onLogin con (csd_username ?d) (csd_elo ?d) (sv_clients sv))"
      by (rule seat_claimed_on_shard [OF json chat assms(7) d True])
    let ?hr = "seatResult name (roleOf con (sv_registry sv')) s (resolveIdentity (sv_registry sv') (sv_clients sv') name)"
    obtain a where a: "enterGame stale ?hr = Inr a" "myColor (wn_controller (ap_window a)) = Some (roleOf con (sv_registry sv'))"
      "ns_whiteMoves (nh_state (ap_handler a)) = getMoves (gs_moveLogObserver s) White"
      "ns_blackMoves (nh_state (ap_handler a)) = getMoves (gs_moveLogObserver s) Black"
      by (rule enterGame_seated)
    have "map_option cs_username (sessionFor (sv_clients sv') con) = Some u"
      unfolding e(4) by (simp add: onLogin_def sessionFor_def update_conv')
    then show ?thesis using True e a by (auto simp: seatResult_def [of _ _ s])
  next
    case False
    then show ?thesis using seat_refused_on_shard(2) [OF json chat assms(7) d False] by simp
  qed
qed

theorem token_to_seat_witness:
  "roomExists ''room'' (sv_registry tallyServer) \<and>
   (\<exists>hr sv'. enterRoomOnShard (shardSide tallyEnv 7 [] (\<lambda>_ _. JNull)) ''token'' ''shard'' ''room'' tallyServer = (Inr (Inr hr), sv') \<and>
      hr_roomName hr = ''room'' \<and> map_option cs_username (sessionFor (sv_clients sv') 7) = Some ''ann'')"
proof -
  have r: "roomExists ''room'' (sv_registry tallyServer)"
    by (simp add: tallyServer_def createRoom_def roomExists_def newRegistry_def)
  have c: "c_str (tallyDump j) = tallyDump j" for j by (rule tally_c_str)
  have e: "env_dump tallyEnv = tallyDump" "env_parse tallyEnv = tallyParse"
      "env_sessionStore tallyEnv = Some (\<lambda>t. fst (sessionGet tallyParse listRedis t (sessionPut tallyDump listRedis ''token'' ''ann'' 1200 [])))"
    by (simp_all add: tallyEnv_def)
  have "fits_int 1200" "\<forall>j. tallyParse (tallyDump j) = Some (canon j) \<and> c_str (tallyDump j) = tallyDump j" "chatter_ok tallyParse []"
    using tally_roundtrip c by (simp_all add: fits_int_def INT_MAX_def INT_MIN_def chatter_ok_def)
  from token_to_seat [OF listRedis_laws this(1,2) e(1,2) this(3) e(3), of "''room''" tallyServer 7 "\<lambda>_ _. JNull" "''shard''"]
  show ?thesis unfolding if_P [OF r] using r by blast
qed

section \<open>The client\<close>

text \<open>C38. What a room sends at the end of a tick is what the client shows: after the message has been
  handled the board, scores, names, ratings, number of spectators and the banner of a lost
  connection on the screen are those of the room.\<close>

theorem client_shows_what_room_sends:
  assumes "session_fits s" "stepPayload s = Inr j" "parse frame = Some (canon j)"
  shows "onMessage parse frame h = ([], h\<lparr>nh_state := shown s (nh_state h)\<rparr>)"
  by (rule client_shows_room) (fact assms)+

theorem client_shows_what_room_sends_witness:
  "\<exists>j. stepPayload (sessionOf drawText) = Inr j \<and>
     (\<forall>h. ns_snapshot (nh_state (snd (onMessage (\<lambda>_. Some (canon j)) ''frame'' h))) = snapshot (engineOf drawText))"
proof -
  have f: "session_fits (sessionOf drawText)" by code_simp
  have "case stepPayload (sessionOf drawText) of Inl _ \<Rightarrow> False | Inr _ \<Rightarrow> True" by code_simp
  then obtain j where j: "stepPayload (sessionOf drawText) = Inr j" by (auto split: sum.splits)
  have e: "gs_engine (sessionOf drawText) = engineOf drawText" by (simp add: sessionOf_def newSession_def engineOf_def)
  show ?thesis
    using client_shows_what_room_sends [OF f j, of "\<lambda>_. Some (canon j)" "''frame''"] j e by (intro exI [of _ j]) (simp add: shown_def)
qed

text \<open>C39. From the tick of a room to the screen. If the asset files the client asks for are there, the client enters
  the game with an empty snapshot, and every snapshot that has reached it so far is a step payload of a room on a board of
  eight by eight whose state is consistent and whose numbers fit an \<open>int\<close>, then, in whatever order messages, mouse events and frames come, the loop of the client
  draws every frame without an exception; and the first frame after a step payload of such a room (with no other snapshot
  in between) lies inside the canvas and shows every piece of the room where its motion has brought it, as large as a
  cell, with the picture of its kind, colour and state at the frame its animation has reached.\<close>

theorem client_draws_the_room:
  assumes "files_ok dir imread configs" "enterGame emptySnapshot home = Inr a0" "list_all (app_event_ok parse) evs1"
    and "onBoard64 (gs_engine s)" "session_fits s" "stepPayload s = Inr j" "parse t = Some (canon j)"
    and "list_all (no_snapshot parse) evs2"
  shows "\<exists>sounds frames ops a.
    app_run parse imread (fileAssets imread configs dir) (evs1 @ NetText t # evs2 @ [Frame]) a0 = (sounds, frames @ [ops], Inr a) \<and>
    length frames = length (filter ((=) Frame) (evs1 @ evs2)) \<and>
    list_all (inside (im_width (vw_canvas (ap_view a))) (im_height (vw_canvas (ap_view a)))) ops \<and>
    wn_snapshot (ap_window a) = snapshot (gs_engine s) \<and>
    (\<forall>p \<in> set (pieces (snapshot (gs_engine s))). \<exists>im. spriteFor dir configs (wn_cellSize (ap_window a)) p im \<and>
       DrawImage im (drawX (wn_cellSize (ap_window a)) p) (drawY (wn_cellSize (ap_window a)) p) \<in> set ops)"
proof -
  have t: "roomText parse s t" using assms(4-7) by (auto simp: roomText_def)
  show ?thesis by (rule client_draws_room [OF assms(1-3) t assms(8)]) blast
qed

theorem client_draws_the_room_witness:
  "\<exists>j parse a0 sounds frames ops a. stepPayload (sessionOf wideText) = Inr j \<and> parse ''frame'' = Some (canon j) \<and>
     app_run parse anyImage (fileAssets anyImage anyConfig ''assets'') ([Frame] @ NetText ''frame'' # [Mouse LButtonDown 300 40] @ [Frame]) a0 =
       (sounds, frames @ [ops], Inr a) \<and> length frames = 1 \<and> wn_snapshot (ap_window a) = snapshot (gs_engine (sessionOf wideText))"
proof -
  obtain j where j: "stepPayload (sessionOf wideText) = Inr j" using wide_board(4) by (auto split: sum.splits)
  obtain a0 where a0: "enterGame emptySnapshot (seatResult ''room'' White (sessionOf wideText) noIdentity) = Inr a0"
    by (rule enterGame_seated [of emptySnapshot "''room''" White "sessionOf wideText" noIdentity])
  let ?p = "\<lambda>_ :: string. Some (canon j)"
  from client_draws_the_room [OF any_files_ok a0 _ wide_onBoard64 wide_board(3) j, of ?p "[Frame]" "''frame''" "[Mouse LButtonDown 300 40]"]
  obtain sounds frames ops a where
    "app_run ?p anyImage (fileAssets anyImage anyConfig ''assets'') ([Frame] @ NetText ''frame'' # [Mouse LButtonDown 300 40] @ [Frame]) a0 =
       (sounds, frames @ [ops], Inr a)" "length frames = 1" "wn_snapshot (ap_window a) = snapshot (gs_engine (sessionOf wideText))"
    by fastforce
  then show ?thesis using j
    by (intro exI [of _ j] exI [of _ ?p] exI [of _ a0] exI [of _ sounds] exI [of _ frames] exI [of _ ops] exI [of _ a]) simp
qed

text \<open>C40. A piece is clicked where it is drawn: with nothing selected, a press of the button on any pixel of the
  picture of a piece that is not travelling, outside the resize handle, selects the cell of that piece if
  the player may move it, and otherwise leaves the window as it was.\<close>

theorem click_hits_picture:
  assumes "findAt (wn_snapshot w) (sp_cell p) = Some p" "travelProgress p = 0"
    and "0 \<le> row (sp_cell p)" "row (sp_cell p) < board_height (wn_snapshot w)"
    and "0 \<le> col (sp_cell p)" "col (sp_cell p) < board_width (wn_snapshot w)"
    and "window_ok w" "selectedPos (wn_controller w) = None"
    and "drawX (wn_cellSize w) p \<le> x" "x < drawX (wn_cellSize w) p + wn_cellSize w"
    and "drawY (wn_cellSize w) p \<le> y" "y < drawY (wn_cellSize w) p + wn_cellSize w"
    and "\<not> isInHandle (wn_cellSize w) (board_width (wn_snapshot w)) (board_height (wn_snapshot w)) x y"
  shows "onMouseEvent LButtonDown x y w =
    ([soundClick], if myColor (wn_controller w) = None \<or> myColor (wn_controller w) = Some (sp_color p)
       then w\<lparr>wn_controller := (wn_controller w)\<lparr>selectedPos := Some (sp_cell p)\<rparr>\<rparr> else w)"
  using assms(7) by (intro click_on_picture assms) (simp add: window_ok_def MIN_CELL_SIZE_def)

theorem click_hits_picture_witness:
  "onMouseEvent LButtonDown 990 740 wideWindow =
     ([soundClick], wideWindow\<lparr>wn_controller := (wn_controller wideWindow)\<lparr>selectedPos := Some (Pos 7 7)\<rparr>\<rparr>)"
proof -
  have c: "list_all (\<lambda>p. sp_cell p = Pos 7 7 \<and> sp_color p = White \<and> travelProgress p = 0 \<and> targetCell p = Pos 7 7)
      (case findAt (wn_snapshot wideWindow) (Pos 7 7) of None \<Rightarrow> [] | Some p \<Rightarrow> [p])"
    "findAt (wn_snapshot wideWindow) (Pos 7 7) \<noteq> None" "board_width (wn_snapshot wideWindow) = 8" "board_height (wn_snapshot wideWindow) = 8"
    by code_simp+
  then obtain p where p: "findAt (wn_snapshot wideWindow) (Pos 7 7) = Some p" "sp_cell p = Pos 7 7" "sp_color p = White" "travelProgress p = 0"
      "targetCell p = Pos 7 7" by auto
  have d: "drawX 100 p = 980" "drawY 100 p = 730" by (simp_all add: drawX_def drawY_def Let_def view_sizes p truncRat_def)
  have w: "wn_cellSize wideWindow = 100" "window_ok wideWindow" "selectedPos (wn_controller wideWindow) = None"
      "myColor (wn_controller wideWindow) = Some White"
    by (simp_all add: wideWindow_def CELL_SIZE_def window_ok_def MIN_CELL_SIZE_def MAX_CELL_SIZE_def)
  show ?thesis
    using click_hits_picture [of wideWindow p 990 740] p c w d
    by (simp add: isInHandle_def handleTopLeft_def view_sizes HANDLE_SIZE_def)
qed

end
